(* ===== verification/Prelude.thy ===== *)
theory Prelude imports Complex_Main "HOL-Library.Multiset" "HOL-Library.AList" "HOL-Library.Word" begin

text \<open>
  Shared vocabulary of the development: byte strings, Go's optional pointers, Go maps as
  association lists, \<open>float64\<close> values, instants and durations, and the list and map lemmas
  that the component theories rest on.

  A Go string and a Go byte slice are both a \<open>string\<close> here (a list of bytes).  Go's \<open>int\<close>,
  \<open>int32\<close> and \<open>int64\<close> are \<open>int\<close>: none of the modelled operations comes near the width of
  its type, except the byte operations of the identifier code, which use 8-bit words.
\<close>

named_theorems go_simps \<open>unfolding of small helper operations\<close>
named_theorems wf_intros \<open>preservation of well-formedness\<close>

section \<open>Byte strings and optional pointers\<close>

type_synonym bytes = string

definition newline :: char where
  "newline = CHR 0x0A"

text \<open>\<open>p\<close> dereferenced when it is not nil, the default otherwise: the shape of every
  \<open>if rec.X != nil { st.X = *rec.X }\<close> of the source.\<close>

definition deref_or :: "'a option \<Rightarrow> 'a \<Rightarrow> 'a" where
  "deref_or p d = (case p of None \<Rightarrow> d | Some v \<Rightarrow> v)"

lemma deref_or_simps [simp]:
  "deref_or None d = d"
  "deref_or (Some v) d = v"
  by (simp_all add: deref_or_def)

lemma deref_or_self [simp]: "deref_or p (deref_or p d) = deref_or p d"
  by (cases p) simp_all

section \<open>Instants and durations\<close>

text \<open>
  A \<open>time.Time\<close> is the number of nanoseconds since Go's zero instant (year 1), so that
  \<open>time.Time{}\<close> is \<open>0\<close> and \<open>IsZero\<close> is a comparison with it; a \<open>time.Duration\<close> is a number
  of nanoseconds.  \<open>UnixMilli\<close> rounds towards minus infinity, as the library does.
\<close>

type_synonym time = int
type_synonym duration = int

abbreviation (input) zero_time :: time where
  "zero_time \<equiv> 0"

definition millisecond :: duration where
  "millisecond = 1000000"

definition second :: duration where
  "second = 1000000000"

definition unix_epoch :: time where
  "unix_epoch = 62135596800 * 1000000000"

definition unix_milli :: "time \<Rightarrow> int" where
  "unix_milli t = (t - unix_epoch) div millisecond"

definition time_of_milli :: "int \<Rightarrow> time" where
  "time_of_milli ms = unix_epoch + ms * millisecond"

lemma unix_milli_time_of_milli [simp]: "unix_milli (time_of_milli ms) = ms"
  by (simp add: unix_milli_def time_of_milli_def millisecond_def)

lemma time_of_milli_unix_milli_le: "time_of_milli (unix_milli t) \<le> t"
  unfolding unix_milli_def time_of_milli_def millisecond_def
  using div_mult_mod_eq [of "t - unix_epoch" 1000000]
    pos_mod_sign [of 1000000 "t - unix_epoch"] by linarith

section \<open>Floating-point values\<close>

text \<open>
  A \<open>float64\<close> is a finite value or one of the three special ones.  Finite values are exact
  rationals: rounding is not modelled, the special values and every comparison with them
  are.
\<close>

datatype f64 = Fin (f64_val: rat) | NaN | PInf | NInf

fun f64_finite :: "f64 \<Rightarrow> bool" where
  "f64_finite (Fin x) = True"
| "f64_finite NaN = False"
| "f64_finite PInf = False"
| "f64_finite NInf = False"

fun f64_less :: "f64 \<Rightarrow> f64 \<Rightarrow> bool" where
  "f64_less (Fin x) (Fin y) = (x < y)"
| "f64_less NaN y = False"
| "f64_less x NaN = False"
| "f64_less PInf y = False"
| "f64_less x PInf = True"
| "f64_less x NInf = False"
| "f64_less NInf y = True"

definition f64_zero :: f64 where
  "f64_zero = Fin 0"

definition f64_positive :: "f64 \<Rightarrow> bool" where
  "f64_positive x = f64_less f64_zero x"

text \<open>Go's \<open>==\<close> on \<open>float64\<close>: a NaN equals nothing, itself included.\<close>

definition f64_eq :: "f64 \<Rightarrow> f64 \<Rightarrow> bool" where
  "f64_eq x y = (x \<noteq> NaN \<and> x = y)"

section \<open>Go maps as association lists\<close>

text \<open>
  A Go map is an association list with distinct keys.  Reading is \<open>map_of\<close>, writing is
  \<open>AList.update\<close>, \<open>delete\<close> is \<open>AList.delete\<close>; no modelled operation depends on the order in
  which Go iterates over a map.
\<close>

type_synonym ('k, 'v) gomap = "('k \<times> 'v) list"

definition map_ok :: "('k, 'v) gomap \<Rightarrow> bool" where
  "map_ok m = distinct (map fst m)"

lemma map_ok_Nil [simp, intro]: "map_ok []"
  by (simp add: map_ok_def)

lemma map_ok_update [simp, intro]: "map_ok m \<Longrightarrow> map_ok (AList.update k v m)"
  by (simp add: map_ok_def distinct_update)

lemma map_ok_delete [simp, intro]: "map_ok m \<Longrightarrow> map_ok (AList.delete k m)"
  by (simp add: map_ok_def distinct_delete)

lemma map_of_update [simp]: "map_of (AList.update k v m) = (map_of m)(k \<mapsto> v)"
  by (simp add: update_conv')

lemma map_of_delete [simp]: "map_of (AList.delete k m) = (map_of m)(k := None)"
  by (simp add: delete_conv')

lemma map_ok_map_of: "map_ok m \<Longrightarrow> (map_of m k = Some v) = ((k, v) \<in> set m)"
  by (simp add: map_ok_def)

lemma map_of_Some_mem: "map_of m k = Some v \<Longrightarrow> (k, v) \<in> set m"
  by (rule map_of_SomeD)

text \<open>Updating a present key replaces its value in place; an absent key is appended.\<close>

lemma update_absent: "map_of m k = None \<Longrightarrow> AList.update k v m = m @ [(k, v)]"
  by (induction m) (auto split: if_splits)

lemma update_present:
  assumes "map_ok m" and "map_of m k = Some w"
  shows "AList.update k v m = map (\<lambda>(k', v'). (k', if k' = k then v else v')) m"
  using assms
proof (induction m)
  case Nil
  then show ?case by simp
next
  case (Cons p m)
  obtain k' v' where p: "p = (k', v')" by (cases p)
  show ?case
  proof (cases "k' = k")
    case True
    with Cons.prems p have "k \<notin> fst ` set m" by (simp add: map_ok_def)
    then have "map (\<lambda>(a, b). (a, if a = k then v else b)) m = m"
      by (intro map_idI) (force simp: image_iff)
    with p True show ?thesis by simp
  next
    case False
    with Cons.prems p have "map_ok m" and "map_of m k = Some w"
      by (auto simp: map_ok_def split: if_splits)
    with Cons.IH p False show ?thesis by simp
  qed
qed

lemma delete_filter: "AList.delete k m = filter (\<lambda>(k', _). k' \<noteq> k) m"
  by (induction m) auto

section \<open>Sorting by a key\<close>

lemma sort_key_inj_unique:
  assumes "mset xs = mset ys" and "inj_on f (set xs)" and "sorted (map f ys)"
  shows "sort_key f xs = ys"
  using assms by (rule sort_key_inj_key_eq)

lemma sort_key_map:
  assumes "\<And>x. f (g x) = f x"
  shows "sort_key f (map g xs) = map g (sort_key f xs)"
proof -
  have ins: "insort_key f (g a) (map g zs) = map g (insort_key f a zs)" for a zs
    by (induction zs) (simp_all add: assms)
  show ?thesis by (induction xs) (simp_all add: ins)
qed

lemma insort_key_filter_other:
  "\<not> P a \<Longrightarrow> filter P (insort_key f a zs) = filter P zs"
  by (induction zs) auto

lemma update_mem: "set (AList.update k v m) \<subseteq> insert (k, v) (set m)"
  by (induction m) auto

lemma delete_mem: "set (AList.delete k m) \<subseteq> set m"
  by (auto simp: delete_filter)

lemma insort_key_snoc_max:
  "f a \<le> f x \<Longrightarrow> insort_key f a (zs @ [x]) = insort_key f a zs @ [x]"
  by (induction zs) auto

lemma sort_key_snoc_max:
  assumes "\<forall>y \<in> set xs. f y \<le> f x"
  shows "sort_key f (xs @ [x]) = sort_key f xs @ [x]"
proof -
  have "foldr (insort_key f) xs [x] = foldr (insort_key f) xs [] @ [x]"
    using assms
  proof (induction xs)
    case Nil
    then show ?case by simp
  next
    case (Cons a xs)
    then show ?case by (simp add: insort_key_snoc_max)
  qed
  then show ?thesis by (simp add: sort_key_def)
qed

lemma filter_sort_key: "filter P (sort_key f xs) = sort_key f (filter P xs)"
  by (rule filter_sort)

lemma takeWhile_append_stop:
  assumes "\<forall>x \<in> set xs. P x" and "\<not> P y"
  shows "takeWhile P (xs @ y # zs) = xs" and "dropWhile P (xs @ y # zs) = y # zs"
  using assms by (induction xs) auto

end
