(* ===== verification/Text.thy ===== *)
theory Text imports Prelude begin

text \<open>
  What the program uses of Go's text libraries: decoding a byte string into runes
  (\<open>unicode/utf8\<close>), \<open>unicode.IsSpace\<close>, and the trimming functions of \<open>strings\<close> built on
  them.  A byte that starts no valid encoding is one rune \<open>U+FFFD\<close> of width 1.
\<close>

section \<open>UTF-8\<close>

definition byte :: "char \<Rightarrow> nat" where
  "byte c = of_char c"

definition between :: "nat \<Rightarrow> nat \<Rightarrow> nat \<Rightarrow> bool" where
  "between lo hi n = (lo \<le> n \<and> n \<le> hi)"

definition cont :: "char \<Rightarrow> bool" where
  "cont c = between 0x80 0xBF (byte c)"

definition cont_bits :: "char \<Rightarrow> nat" where
  "cont_bits c = byte c mod 64"

definition rune_error :: nat where
  "rune_error = 0xFFFD"

text \<open>The range of the second byte that a three- or four-byte lead admits.\<close>

definition second_ok :: "nat \<Rightarrow> char \<Rightarrow> bool" where
  "second_ok b0 c =
     (if b0 = 0xE0 then between 0xA0 0xBF (byte c)
      else if b0 = 0xED then between 0x80 0x9F (byte c)
      else if b0 = 0xF0 then between 0x90 0xBF (byte c)
      else if b0 = 0xF4 then between 0x80 0x8F (byte c)
      else cont c)"

text \<open>The first rune of a non-empty byte string and its width; \<open>None\<close> when the bytes are not
  a valid encoding.\<close>

fun decode_rune :: "bytes \<Rightarrow> (nat \<times> nat) option" where
  "decode_rune [] = None"
| "decode_rune (c # cs) =
     (let b = byte c in
      if b < 0x80 then Some (b, 1)
      else if between 0xC2 0xDF b then
        (case cs of
           c1 # _ \<Rightarrow> if cont c1 then Some ((b mod 32) * 64 + cont_bits c1, 2) else None
         | [] \<Rightarrow> None)
      else if between 0xE0 0xEF b then
        (case cs of
           c1 # c2 # _ \<Rightarrow>
             if second_ok b c1 \<and> cont c2
             then Some ((b mod 16) * 4096 + cont_bits c1 * 64 + cont_bits c2, 3) else None
         | _ \<Rightarrow> None)
      else if between 0xF0 0xF4 b then
        (case cs of
           c1 # c2 # c3 # _ \<Rightarrow>
             if second_ok b c1 \<and> cont c2 \<and> cont c3
             then Some ((b mod 8) * 262144 + cont_bits c1 * 4096 + cont_bits c2 * 64
               + cont_bits c3, 4) else None
         | _ \<Rightarrow> None)
      else None)"

lemma decode_rune_width:
  "decode_rune s = Some (r, w) \<Longrightarrow> 0 < w \<and> w \<le> length s"
  by (cases s) (auto simp: Let_def split: if_splits list.splits)

declare decode_rune.simps [simp del]

text \<open>The runes of a byte string in order, each with the bytes that spell it and whether they
  are a valid encoding.\<close>

function runes_of :: "bytes \<Rightarrow> (nat \<times> bytes \<times> bool) list" where
  "runes_of s =
     (case s of
        [] \<Rightarrow> []
      | c # cs \<Rightarrow>
          (case decode_rune s of
             None \<Rightarrow> (rune_error, [c], False) # runes_of cs
           | Some (r, w) \<Rightarrow> (r, take w s, True) # runes_of (drop w s)))"
  by pat_completeness auto
termination
  by (relation "measure length") (auto dest: decode_rune_width)

declare runes_of.simps [simp del]

lemma runes_of_Nil [simp]: "runes_of [] = []"
  by (simp add: runes_of.simps)

text \<open>\<open>utf8.ValidString\<close>.\<close>

definition valid_utf8 :: "bytes \<Rightarrow> bool" where
  "valid_utf8 s = list_all (\<lambda>(_, _, ok). ok) (runes_of s)"

lemma valid_utf8_Nil [simp]: "valid_utf8 []"
  by (simp add: valid_utf8_def)

lemma runes_of_bad:
  "decode_rune (c # cs) = None \<Longrightarrow> runes_of (c # cs) = (rune_error, [c], False) # runes_of cs"
  by (simp add: runes_of.simps [of "c # cs"])

lemma runes_of_good:
  "decode_rune (c # cs) = Some (r, w) \<Longrightarrow>
     runes_of (c # cs) = (r, take w (c # cs), True) # runes_of (drop w (c # cs))"
  by (simp add: runes_of.simps [of "c # cs"])

lemma concat_runes_of: "concat (map (\<lambda>(_, bs, _). bs) (runes_of s)) = s"
proof (induction s rule: runes_of.induct)
  case (1 s)
  show ?case
  proof (cases s)
    case Nil
    then show ?thesis by simp
  next
    case s: (Cons c cs)
    show ?thesis
    proof (cases "decode_rune s")
      case None
      with s "1.IH"(1) [OF s] show ?thesis by (simp add: runes_of_bad)
    next
      case (Some p)
      obtain r w where p: "p = (r, w)" by (cases p)
      have "concat (map (\<lambda>(_, bs, _). bs) (runes_of (drop w s))) = drop w s"
        by (rule "1.IH"(2) [OF s Some p [symmetric]])
      moreover have "runes_of s = (r, take w s, True) # runes_of (drop w s)"
        using runes_of_good Some p s by blast
      ultimately show ?thesis by simp
    qed
  qed
qed

section \<open>White space\<close>

text \<open>\<open>unicode.IsSpace\<close>.\<close>

definition is_space :: "nat \<Rightarrow> bool" where
  "is_space r =
     (between 0x09 0x0D r \<or> r = 0x20 \<or> r = 0x85 \<or> r = 0xA0 \<or> r = 0x1680 \<or>
      between 0x2000 0x200A r \<or> r = 0x2028 \<or> r = 0x2029 \<or> r = 0x202F \<or> r = 0x205F \<or>
      r = 0x3000)"

definition space_rune :: "nat \<times> bytes \<times> bool \<Rightarrow> bool" where
  "space_rune x = is_space (fst x)"

definition spell :: "(nat \<times> bytes \<times> bool) list \<Rightarrow> bytes" where
  "spell xs = concat (map (\<lambda>(_, bs, _). bs) xs)"

text \<open>\<open>strings.TrimSpace\<close> and \<open>strings.TrimFunc(_, unicode.IsSpace)\<close>.\<close>

definition trim_space :: "bytes \<Rightarrow> bytes" where
  "trim_space s =
     spell (rev (dropWhile space_rune (rev (dropWhile space_rune (runes_of s)))))"

lemma trim_space_Nil [simp]: "trim_space [] = []"
  by (simp add: trim_space_def spell_def)

text \<open>\<open>strings.FieldsFunc(_, unicode.IsSpace)\<close>: the maximal runs of non-space runes.\<close>

function fields_runes :: "(nat \<times> bytes \<times> bool) list \<Rightarrow> (nat \<times> bytes \<times> bool) list list" where
  "fields_runes xs =
     (case dropWhile space_rune xs of
        [] \<Rightarrow> []
      | y # ys \<Rightarrow> (y # takeWhile (\<lambda>x. \<not> space_rune x) ys)
                  # fields_runes (dropWhile (\<lambda>x. \<not> space_rune x) ys))"
  by pat_completeness auto
termination
proof (relation "measure length")
  fix xs :: "(nat \<times> bytes \<times> bool) list" and y ys
  assume "dropWhile space_rune xs = y # ys"
  then have "length (y # ys) \<le> length xs"
    by (metis length_dropWhile_le)
  moreover have "length (dropWhile (\<lambda>x. \<not> space_rune x) ys) \<le> length ys"
    by (rule length_dropWhile_le)
  ultimately show "(dropWhile (\<lambda>x. \<not> space_rune x) ys, xs) \<in> measure length" by simp
qed simp

declare fields_runes.simps [simp del]

fun join_bytes :: "bytes \<Rightarrow> bytes list \<Rightarrow> bytes" where
  "join_bytes sep [] = []"
| "join_bytes sep [x] = x"
| "join_bytes sep (x # y # zs) = x @ sep @ join_bytes sep (y # zs)"

end
