(* ===== verification/WireBlocks.thy ===== *)
theory WireBlocks imports Text begin

text \<open>
  The optional blocks that both wires carry (\<open>internal/wire\<close>): the species identity of a
  migrant (\<open>species.go\<close>), the species census of a world (\<open>census.go\<close>) and the exclusion list
  (\<open>settings.go\<close>).  A log line of the source is a value of \<open>strip_why\<close> that names the rule
  that fired; the empty string of the source ("nothing wrong") is \<open>None\<close>.  What
  \<open>encoding/json\<close> reports about an element is an argument of the decoders.
\<close>

datatype block_field =
  GenericName | SpecificName | ParentGenericName | ParentSpecificName | Bibites | Eggs

datatype strip_why =
  Bad_shape bytes
| Field_absent block_field
| One_parent_name
| Name_empty block_field
| Name_too_long block_field nat
| Name_not_utf8 block_field
| Name_edge_space block_field
| Elem_bad_shape nat bytes
| Elem_why nat strip_why
| Count_negative block_field int
| Only_space
| Too_many_entries nat

definition MaxSpeciesNameBytes :: nat where "MaxSpeciesNameBytes = 64"
definition MaxCensusNameBytes :: nat where "MaxCensusNameBytes = 64"
definition SpeciesCensusMax :: nat where "SpeciesCensusMax = 32"
definition MaxExcludeNameBytes :: nat where
  "MaxExcludeNameBytes = 2 * MaxSpeciesNameBytes + 1"

section \<open>The species identity block\<close>

record species =
  sp_GenericName :: bytes
  sp_SpecificName :: bytes
  sp_ParentGenericName :: bytes
  sp_ParentSpecificName :: bytes
  sp_decodeErr :: "strip_why option"

text \<open>What \<open>json.Unmarshal\<close> makes of the raw block: an error, or an object whose four fields
  are strings or absent.\<close>

datatype species_json =
  SJ_error bytes
| SJ_object "bytes option" "bytes option" "bytes option" "bytes option"

fun UnmarshalSpecies :: "species_json \<Rightarrow> species" where
  "UnmarshalSpecies (SJ_error e) =
     \<lparr>sp_GenericName = [], sp_SpecificName = [], sp_ParentGenericName = [],
      sp_ParentSpecificName = [], sp_decodeErr = Some (Bad_shape e)\<rparr>"
| "UnmarshalSpecies (SJ_object g s pg ps) =
     \<lparr>sp_GenericName = deref_or g [], sp_SpecificName = deref_or s [],
      sp_ParentGenericName = deref_or pg [], sp_ParentSpecificName = deref_or ps [],
      sp_decodeErr =
        (if g = None then Some (Field_absent GenericName)
         else if s = None then Some (Field_absent SpecificName)
         else if (pg = None) \<noteq> (ps = None) then Some One_parent_name
         else None)\<rparr>"

definition speciesNameProblem :: "block_field \<Rightarrow> bytes \<Rightarrow> strip_why option" where
  "speciesNameProblem f v =
     (if v = [] then Some (Name_empty f)
      else if length v > MaxSpeciesNameBytes then Some (Name_too_long f (length v))
      else if \<not> valid_utf8 v then Some (Name_not_utf8 f)
      else if trim_space v \<noteq> v then Some (Name_edge_space f)
      else None)"

definition or_else :: "'a option \<Rightarrow> 'a option \<Rightarrow> 'a option" where
  "or_else x y = (case x of Some v \<Rightarrow> Some v | None \<Rightarrow> y)"

lemma or_else_simps [simp]:
  "or_else None y = y"
  "or_else (Some v) y = Some v"
  by (simp_all add: or_else_def)

lemma or_else_None [simp]: "or_else x y = None \<longleftrightarrow> x = None \<and> y = None"
  by (cases x) auto

definition MalformedReason :: "species option \<Rightarrow> strip_why option" where
  "MalformedReason p =
     (case p of
        None \<Rightarrow> None
      | Some s \<Rightarrow>
          or_else (sp_decodeErr s)
          (or_else (speciesNameProblem GenericName (sp_GenericName s))
          (or_else (speciesNameProblem SpecificName (sp_SpecificName s))
          (if (sp_ParentGenericName s = []) \<noteq> (sp_ParentSpecificName s = [])
           then Some One_parent_name
           else if sp_ParentGenericName s = [] then None
           else or_else (speciesNameProblem ParentGenericName (sp_ParentGenericName s))
                  (speciesNameProblem ParentSpecificName (sp_ParentSpecificName s))))))"

definition CarrySpecies :: "species option \<Rightarrow> species option \<times> strip_why option" where
  "CarrySpecies p =
     (case MalformedReason p of
        Some why \<Rightarrow> (None, Some why)
      | None \<Rightarrow>
          (case p of None \<Rightarrow> (None, None)
           | Some s \<Rightarrow> (Some (s\<lparr>sp_decodeErr := None\<rparr>), None)))"

definition SpeciesName :: "species option \<Rightarrow> bytes" where
  "SpeciesName p =
     (case p of None \<Rightarrow> [] | Some s \<Rightarrow> sp_GenericName s @ '' '' @ sp_SpecificName s)"

text \<open>A block is carried byte for byte or dropped, never repaired.\<close>

lemma CarrySpecies_wellformed:
  "MalformedReason p = None \<Longrightarrow> CarrySpecies p = (p, None)"
  by (cases p) (simp_all add: CarrySpecies_def MalformedReason_def)

lemma CarrySpecies_cases:
  "CarrySpecies p = (if MalformedReason p = None then p else None, MalformedReason p)"
  by (auto simp: CarrySpecies_wellformed) (auto simp: CarrySpecies_def)

lemma MalformedReason_carried: "MalformedReason (fst (CarrySpecies p)) = None"
  by (simp add: CarrySpecies_cases) (simp add: MalformedReason_def)

section \<open>The species census\<close>

record census_entry =
  ce_GenericName :: bytes
  ce_SpecificName :: bytes
  ce_Bibites :: int
  ce_Eggs :: int

definition Count :: "census_entry \<Rightarrow> int" where
  "Count e = ce_Bibites e + ce_Eggs e"

record census =
  cs_Entries :: "census_entry list"
  cs_fieldErr :: "strip_why option"
  cs_stripped :: "strip_why list"

datatype census_elem_json =
  CJ_error bytes
| CJ_object "bytes option" "bytes option" "int option" "int option"

datatype 'e array_json = AJ_not_array bytes | AJ_array "'e list"

fun decode_census_elem :: "nat \<Rightarrow> census_elem_json \<Rightarrow> strip_why + census_entry" where
  "decode_census_elem i (CJ_error e) = Inl (Elem_bad_shape i e)"
| "decode_census_elem i (CJ_object g s b eg) =
     (case g of None \<Rightarrow> Inl (Elem_why i (Field_absent GenericName))
      | Some g' \<Rightarrow>
     (case s of None \<Rightarrow> Inl (Elem_why i (Field_absent SpecificName))
      | Some s' \<Rightarrow>
     (case b of None \<Rightarrow> Inl (Elem_why i (Field_absent Bibites))
      | Some b' \<Rightarrow>
     (case eg of None \<Rightarrow> Inl (Elem_why i (Field_absent Eggs))
      | Some eg' \<Rightarrow>
          Inr \<lparr>ce_GenericName = g', ce_SpecificName = s', ce_Bibites = b', ce_Eggs = eg'\<rparr>))))"

fun decode_census_elems ::
    "nat \<Rightarrow> census_elem_json list \<Rightarrow> strip_why list \<times> census_entry list" where
  "decode_census_elems i [] = ([], [])"
| "decode_census_elems i (x # xs) =
     (let (why, es) = decode_census_elems (Suc i) xs in
      case decode_census_elem i x of
        Inl w \<Rightarrow> (w # why, es)
      | Inr e \<Rightarrow> (why, e # es))"

fun UnmarshalCensus :: "census_elem_json array_json \<Rightarrow> census" where
  "UnmarshalCensus (AJ_not_array e) =
     \<lparr>cs_Entries = [], cs_fieldErr = Some (Bad_shape e), cs_stripped = []\<rparr>"
| "UnmarshalCensus (AJ_array xs) =
     (let (why, es) = decode_census_elems 0 xs in
      \<lparr>cs_Entries = es, cs_fieldErr = None, cs_stripped = why\<rparr>)"

text \<open>\<open>json.Marshal\<close> writes a byte that is not valid UTF-8 as \<open>U+FFFD\<close>.\<close>

definition coerce_utf8 :: "bytes \<Rightarrow> bytes" where
  "coerce_utf8 s =
     concat (map (\<lambda>(_, bs, ok). if ok then bs else [CHR 0xEF, CHR 0xBF, CHR 0xBD]) (runes_of s))"

lemma coerce_utf8_valid: "valid_utf8 s \<Longrightarrow> coerce_utf8 s = s"
proof -
  assume "valid_utf8 s"
  then have "map (\<lambda>(_, bs, ok). if ok then bs else [CHR 0xEF, CHR 0xBF, CHR 0xBD]) (runes_of s)
      = map (\<lambda>(_, bs, _). bs) (runes_of s)"
    by (auto simp: valid_utf8_def list_all_iff)
  then show ?thesis by (simp only: coerce_utf8_def concat_runes_of)
qed

definition MarshalCensus :: "census \<Rightarrow> census_elem_json array_json" where
  "MarshalCensus c =
     AJ_array (map (\<lambda>e. CJ_object (Some (coerce_utf8 (ce_GenericName e)))
         (Some (coerce_utf8 (ce_SpecificName e))) (Some (ce_Bibites e)) (Some (ce_Eggs e)))
       (cs_Entries c))"

definition censusNameProblem :: "block_field \<Rightarrow> bytes \<Rightarrow> strip_why option" where
  "censusNameProblem f v =
     (if v = [] then Some (Name_empty f)
      else if length v > MaxCensusNameBytes then Some (Name_too_long f (length v))
      else if \<not> valid_utf8 v then Some (Name_not_utf8 f)
      else None)"

definition censusEntryProblem :: "nat \<Rightarrow> census_entry \<Rightarrow> strip_why option" where
  "censusEntryProblem i e =
     map_option (Elem_why i)
       (or_else (censusNameProblem GenericName (ce_GenericName e))
       (or_else (censusNameProblem SpecificName (ce_SpecificName e))
       (if ce_Bibites e < 0 then Some (Count_negative Bibites (ce_Bibites e))
        else if ce_Eggs e < 0 then Some (Count_negative Eggs (ce_Eggs e))
        else None)))"

fun carry_entries ::
    "(nat \<Rightarrow> 'e \<Rightarrow> strip_why option) \<Rightarrow> nat \<Rightarrow> 'e list \<Rightarrow> strip_why list \<times> 'e list" where
  "carry_entries problem i [] = ([], [])"
| "carry_entries problem i (e # es) =
     (let (why, out) = carry_entries problem (Suc i) es in
      case problem i e of
        Some bad \<Rightarrow> (bad # why, out)
      | None \<Rightarrow> (why, e # out))"

definition CarryCensus ::
    "census option \<Rightarrow> bool \<Rightarrow> census option \<times> bool \<times> strip_why list" where
  "CarryCensus p truncated =
     (case p of
        None \<Rightarrow> (None, False, [])
      | Some c \<Rightarrow>
          (case cs_fieldErr c of
             Some e \<Rightarrow> (None, False, [e])
           | None \<Rightarrow>
               (let (bad, out) = carry_entries censusEntryProblem 0 (cs_Entries c);
                    trim = (if length out > SpeciesCensusMax
                            then [Too_many_entries (length out)] else []);
                    why = cs_stripped c @ bad @ trim
                in (Some \<lparr>cs_Entries = take SpeciesCensusMax out, cs_fieldErr = None,
                          cs_stripped = []\<rparr>,
                    truncated \<or> why \<noteq> [], why))))"

section \<open>The exclusion list\<close>

record exclude_list =
  ex_Names :: "bytes list"
  ex_fieldErr :: "strip_why option"
  ex_stripped :: "strip_why list"

definition excludeEntryProblem :: "nat \<Rightarrow> bytes \<Rightarrow> strip_why option" where
  "excludeEntryProblem i n =
     map_option (Elem_why i)
       (if n = [] then Some (Name_empty GenericName)
        else if trim_space n = [] then Some Only_space
        else if length n > MaxExcludeNameBytes then Some (Name_too_long GenericName (length n))
        else if \<not> valid_utf8 n then Some (Name_not_utf8 GenericName)
        else None)"

definition CarryExclude :: "exclude_list option \<Rightarrow> exclude_list option \<times> strip_why list" where
  "CarryExclude p =
     (case p of
        None \<Rightarrow> (None, [])
      | Some l \<Rightarrow>
          (case ex_fieldErr l of
             Some e \<Rightarrow> (None, [e])
           | None \<Rightarrow>
               (let (bad, out) = carry_entries excludeEntryProblem 0 (ex_Names l)
                in (Some \<lparr>ex_Names = out, ex_fieldErr = None, ex_stripped = []\<rparr>,
                    ex_stripped l @ bad))))"

definition Has :: "exclude_list option \<Rightarrow> bytes \<Rightarrow> bool" where
  "Has p normalized = (case p of None \<Rightarrow> False | Some l \<Rightarrow> List.member (ex_Names l) normalized)"

definition NormalizeSpeciesName :: "bytes \<Rightarrow> bytes" where
  "NormalizeSpeciesName s = join_bytes '' '' (map spell (fields_runes (runes_of s)))"

section \<open>What carrying a list does\<close>

text \<open>The entries that survive are exactly the well-formed ones, in order; the entry index
  appears in a reason only, so well-formedness does not depend on it.\<close>

definition index_free :: "(nat \<Rightarrow> 'e \<Rightarrow> strip_why option) \<Rightarrow> bool" where
  "index_free problem = (\<forall>i j e. (problem i e = None) = (problem j e = None))"

lemma index_free_census: "index_free censusEntryProblem"
  by (simp add: index_free_def censusEntryProblem_def)

lemma index_free_exclude: "index_free excludeEntryProblem"
  by (simp add: index_free_def excludeEntryProblem_def)

lemma carry_entries_Cons:
  "fst (carry_entries problem i (e # es)) =
     (case problem i e of Some bad \<Rightarrow> [bad] | None \<Rightarrow> []) @ fst (carry_entries problem (Suc i) es)"
  "snd (carry_entries problem i (e # es)) =
     (case problem i e of Some bad \<Rightarrow> [] | None \<Rightarrow> [e]) @ snd (carry_entries problem (Suc i) es)"
  by (simp_all add: case_prod_beta Let_def split: option.split)

declare carry_entries.simps(2) [simp del]

lemma carry_entries_filter:
  assumes "index_free problem"
  shows "snd (carry_entries problem i es) = filter (\<lambda>e. problem 0 e = None) es"
proof (induction es arbitrary: i)
  case (Cons e es)
  have "(problem i e = None) = (problem 0 e = None)"
    using assms unfolding index_free_def by blast
  then show ?case
    by (cases "problem i e") (auto simp: carry_entries_Cons Cons.IH)
qed simp

lemma carry_entries_reasons:
  "length (fst (carry_entries problem i es)) + length (snd (carry_entries problem i es))
     = length es"
proof (induction es arbitrary: i)
  case (Cons e es)
  show ?case
    using Cons.IH [of "Suc i"] by (cases "problem i e") (simp_all add: carry_entries_Cons)
qed simp

lemma carry_entries_clean:
  assumes "index_free problem" and "\<forall>e \<in> set es. problem 0 e = None"
  shows "carry_entries problem i es = ([], es)"
proof (rule prod_eqI)
  show snd: "snd (carry_entries problem i es) = snd ([], es)"
    using assms by (simp add: carry_entries_filter)
  show "fst (carry_entries problem i es) = fst ([], es)"
    using carry_entries_reasons [of problem i es] snd by simp
qed

lemma decode_census_elems_objects:
  "decode_census_elems i (map (\<lambda>e. CJ_object (Some (ce_GenericName e))
     (Some (ce_SpecificName e)) (Some (ce_Bibites e)) (Some (ce_Eggs e))) es) = ([], es)"
  by (induction es arbitrary: i) simp_all

end
