(* ===== verification/Journal.thy ===== *)
theory Journal imports WireBlocks begin

text \<open>
  The state machine of the sidecar's custody log (\<open>internal/journal/journal.go\<close>): the
  immutable entry of a migration, its durable state, the records of the log and what
  replaying one record does.  The strings that Go uses as enumerations are datatypes; the
  empty string, which Go uses for "absent", is a constructor of its own.
\<close>

section \<open>Data\<close>

datatype direction = D_empty | D_out | D_in

datatype status = S_empty | S_open | S_in_flight | S_done | S_held

datatype handoff =
  H_empty | H_pending | H_sent | H_refused | H_done | H_lost | H_retired_held

text \<open>Could the far side hold this organism?  Only then is a redirect unsafe.\<close>

fun CustodyMayHaveMoved :: "handoff \<Rightarrow> bool" where
  "CustodyMayHaveMoved H_sent = True"
| "CustodyMayHaveMoved H_lost = True"
| "CustodyMayHaveMoved _ = False"

record parent_ref =
  pr_EntityID :: int
  pr_GenomeHash :: bytes
  pr_GapReason :: bytes

record entry =
  en_MigrationID :: bytes
  en_EntityID :: int
  en_Kind :: bytes
  en_GameVersion :: bytes
  en_Payload :: bytes
  en_PayloadHash :: bytes
  en_Edge :: bytes
  en_Position :: f64
  en_VelocityX :: f64
  en_VelocityY :: f64
  en_Heading :: f64
  en_SimulationSize :: f64
  en_SimTick :: int
  en_SourcePeer :: bytes
  en_SourceSlot :: int
  en_DestSlot :: int
  en_GenomeHash :: bytes
  en_Parents :: "parent_ref list"
  en_Species :: "species option"
  en_JournaledAt :: int

record state =
  st_Entry :: entry
  st_Direction :: direction
  st_Status :: status
  st_Attempt :: int
  st_BounceBack :: bool
  st_AckedUpstream :: bool
  st_Duplicate :: bool
  st_Note :: bytes
  st_CompletedAt :: int
  st_Handoff :: handoff
  st_RelaySessionID :: bytes
  st_ForwardReceipts :: int
  st_ReceiptSessionID :: bytes
  st_ReceiptDestSlot :: int
  st_ReceiptForwardedAtMs :: int
  st_SentAtMs :: int
  st_RerouteCount :: int
  st_RerouteFrom :: int
  st_RerouteProof :: bytes
  st_RerouteAtMs :: int
  st_RefusedSlots :: "int list"
  st_RefusalDeadlineMs :: int
  st_seq :: nat

abbreviation st_id :: "state \<Rightarrow> bytes" where
  "st_id st \<equiv> en_MigrationID (st_Entry st)"

definition AwaitsUpstreamAck :: "state \<Rightarrow> bool" where
  "AwaitsUpstreamAck st =
     (st_Direction st = D_in \<and> st_Status st = S_done \<and> \<not> st_AckedUpstream st \<and>
      \<not> st_BounceBack st \<and> en_SourcePeer (st_Entry st) \<noteq> [])"

definition ForwardedUnder :: "state \<Rightarrow> bytes \<Rightarrow> bool" where
  "ForwardedUnder st session =
     (st_ForwardReceipts st > 0 \<and> session \<noteq> [] \<and> st_ReceiptSessionID st = session)"

definition ForwardedAttemptUnder :: "state \<Rightarrow> bytes \<Rightarrow> int \<Rightarrow> bool" where
  "ForwardedAttemptUnder st session destSlot =
     (st_ForwardReceipts st > 0 \<and> session \<noteq> [] \<and>
      st_ReceiptSessionID st = session \<and> st_ReceiptDestSlot st = destSlot)"

section \<open>Log records\<close>

datatype op = op_create | op_status | op_other bytes

record jrec =
  rec_Op :: op
  rec_MigrationID :: bytes
  rec_At :: int
  rec_Direction :: direction
  rec_Entry :: "entry option"
  rec_Status :: status
  rec_Attempt :: "int option"
  rec_BounceBack :: "bool option"
  rec_Acked :: "bool option"
  rec_Duplicate :: "bool option"
  rec_Edge :: "bytes option"
  rec_Note :: bytes
  rec_CompletedAt :: "int option"
  rec_Purge :: bool
  rec_Handoff :: "handoff option"
  rec_RelaySessionID :: "bytes option"
  rec_SentAtMs :: "int option"
  rec_DestSlot :: "int option"
  rec_RerouteCount :: "int option"
  rec_RerouteFrom :: "int option"
  rec_RerouteProof :: "bytes option"
  rec_RerouteAtMs :: "int option"
  rec_RefusedSlots :: "int list"
  rec_RefusalDeadlineMs :: "int option"
  rec_ForwardReceipts :: "int option"
  rec_ReceiptSessionID :: "bytes option"
  rec_ReceiptDestSlot :: "int option"
  rec_ReceiptForwardedAtMs :: "int option"

text \<open>The record literal of the source sets some fields; the others have Go's zero value.\<close>

definition zero_rec :: jrec where
  "zero_rec = \<lparr>rec_Op = op_other [], rec_MigrationID = [], rec_At = 0,
     rec_Direction = D_empty, rec_Entry = None, rec_Status = S_empty, rec_Attempt = None,
     rec_BounceBack = None, rec_Acked = None, rec_Duplicate = None, rec_Edge = None,
     rec_Note = [], rec_CompletedAt = None, rec_Purge = False, rec_Handoff = None,
     rec_RelaySessionID = None, rec_SentAtMs = None, rec_DestSlot = None,
     rec_RerouteCount = None, rec_RerouteFrom = None, rec_RerouteProof = None,
     rec_RerouteAtMs = None, rec_RefusedSlots = [], rec_RefusalDeadlineMs = None,
     rec_ForwardReceipts = None, rec_ReceiptSessionID = None, rec_ReceiptDestSlot = None,
     rec_ReceiptForwardedAtMs = None\<rparr>"

section \<open>Replaying one record\<close>

text \<open>The state a create record leaves, and what a status record does to a state.\<close>

definition created_state :: "jrec \<Rightarrow> entry \<Rightarrow> nat \<Rightarrow> state" where
  "created_state r e n =
     \<lparr>st_Entry = e, st_Direction = rec_Direction r, st_Status = S_open, st_Attempt = 0,
      st_BounceBack = deref_or (rec_BounceBack r) False, st_AckedUpstream = False,
      st_Duplicate = False, st_Note = [], st_CompletedAt = 0,
      st_Handoff = (if rec_Direction r = D_out then H_pending else H_empty),
      st_RelaySessionID = [], st_ForwardReceipts = 0, st_ReceiptSessionID = [],
      st_ReceiptDestSlot = 0, st_ReceiptForwardedAtMs = 0, st_SentAtMs = 0,
      st_RerouteCount = 0, st_RerouteFrom = 0, st_RerouteProof = [], st_RerouteAtMs = 0,
      st_RefusedSlots = [], st_RefusalDeadlineMs = 0, st_seq = n\<rparr>"

definition apply_handoff :: "jrec \<Rightarrow> state \<Rightarrow> direction \<Rightarrow> handoff" where
  "apply_handoff r st dir' =
     (case rec_Handoff r of
        Some h \<Rightarrow> if h = H_retired_held then H_sent else h
      | None \<Rightarrow>
          if dir' = D_out \<and> rec_Status r = S_in_flight \<and> st_Handoff st = H_pending
          then H_sent else st_Handoff st)"

definition apply_status :: "jrec \<Rightarrow> state \<Rightarrow> state" where
  "apply_status r st =
     (let status' = (if rec_Status r \<noteq> S_empty then rec_Status r else st_Status st);
          dir' = (if rec_Direction r \<noteq> D_empty then rec_Direction r else st_Direction st);
          e = st_Entry st
      in \<lparr>st_Entry = e\<lparr>en_Edge := deref_or (rec_Edge r) (en_Edge e),
                        en_DestSlot := deref_or (rec_DestSlot r) (en_DestSlot e),
                        en_Payload := (if status' = S_done then [] else en_Payload e)\<rparr>,
          st_Direction = dir',
          st_Status = status',
          st_Attempt = deref_or (rec_Attempt r) (st_Attempt st),
          st_BounceBack = deref_or (rec_BounceBack r) (st_BounceBack st),
          st_AckedUpstream = deref_or (rec_Acked r) (st_AckedUpstream st),
          st_Duplicate = deref_or (rec_Duplicate r) (st_Duplicate st),
          st_Note = (if rec_Note r \<noteq> [] then rec_Note r else st_Note st),
          st_CompletedAt = deref_or (rec_CompletedAt r) (st_CompletedAt st),
          st_Handoff = apply_handoff r st dir',
          st_RelaySessionID = deref_or (rec_RelaySessionID r) (st_RelaySessionID st),
          st_ForwardReceipts = deref_or (rec_ForwardReceipts r) (st_ForwardReceipts st),
          st_ReceiptSessionID = deref_or (rec_ReceiptSessionID r) (st_ReceiptSessionID st),
          st_ReceiptDestSlot = deref_or (rec_ReceiptDestSlot r) (st_ReceiptDestSlot st),
          st_ReceiptForwardedAtMs =
            deref_or (rec_ReceiptForwardedAtMs r) (st_ReceiptForwardedAtMs st),
          st_SentAtMs = deref_or (rec_SentAtMs r) (st_SentAtMs st),
          st_RerouteCount = deref_or (rec_RerouteCount r) (st_RerouteCount st),
          st_RerouteFrom = deref_or (rec_RerouteFrom r) (st_RerouteFrom st),
          st_RerouteProof = deref_or (rec_RerouteProof r) (st_RerouteProof st),
          st_RerouteAtMs = deref_or (rec_RerouteAtMs r) (st_RerouteAtMs st),
          st_RefusedSlots =
            (if rec_RefusedSlots r \<noteq> [] then rec_RefusedSlots r else st_RefusedSlots st),
          st_RefusalDeadlineMs = deref_or (rec_RefusalDeadlineMs r) (st_RefusalDeadlineMs st),
          st_seq = st_seq st\<rparr>)"

text \<open>The in-memory half of the journal: the state map and the creation counter.\<close>

record jmem =
  jm_states :: "(bytes, state) gomap"
  jm_seq :: nat

definition empty_mem :: jmem where
  "empty_mem = \<lparr>jm_states = [], jm_seq = 0\<rparr>"

definition lookup :: "jmem \<Rightarrow> bytes \<Rightarrow> state option" where
  "lookup m k = map_of (jm_states m) k"

definition apply_rec :: "jrec \<Rightarrow> jmem \<Rightarrow> jmem" where
  "apply_rec r m =
     (case rec_Op r of
        op_create \<Rightarrow>
          (case rec_Entry r of
             None \<Rightarrow> m
           | Some e \<Rightarrow>
               (let n = Suc (jm_seq m) in
                \<lparr>jm_states = AList.update (rec_MigrationID r) (created_state r e n) (jm_states m),
                 jm_seq = n\<rparr>))
      | op_status \<Rightarrow>
          (case map_of (jm_states m) (rec_MigrationID r) of
             None \<Rightarrow> m
           | Some st \<Rightarrow>
               if rec_Purge r
               then m\<lparr>jm_states := AList.delete (rec_MigrationID r) (jm_states m)\<rparr>
               else m\<lparr>jm_states :=
                 AList.update (rec_MigrationID r) (apply_status r st) (jm_states m)\<rparr>)
      | op_other _ \<Rightarrow> m)"

text \<open>Every state in creation order, as a compaction and every listing read it.\<close>

definition ordered :: "jmem \<Rightarrow> state list" where
  "ordered m = sort_key st_seq (map snd (jm_states m))"

section \<open>Field lemmas\<close>

lemma apply_status_fields [simp]:
  "st_Direction (apply_status r st) =
     (if rec_Direction r \<noteq> D_empty then rec_Direction r else st_Direction st)"
  "st_Status (apply_status r st) =
     (if rec_Status r \<noteq> S_empty then rec_Status r else st_Status st)"
  "st_Attempt (apply_status r st) = deref_or (rec_Attempt r) (st_Attempt st)"
  "st_BounceBack (apply_status r st) = deref_or (rec_BounceBack r) (st_BounceBack st)"
  "st_AckedUpstream (apply_status r st) = deref_or (rec_Acked r) (st_AckedUpstream st)"
  "st_Duplicate (apply_status r st) = deref_or (rec_Duplicate r) (st_Duplicate st)"
  "st_CompletedAt (apply_status r st) = deref_or (rec_CompletedAt r) (st_CompletedAt st)"
  "st_RelaySessionID (apply_status r st) = deref_or (rec_RelaySessionID r) (st_RelaySessionID st)"
  "st_ForwardReceipts (apply_status r st) =
     deref_or (rec_ForwardReceipts r) (st_ForwardReceipts st)"
  "st_ReceiptSessionID (apply_status r st) =
     deref_or (rec_ReceiptSessionID r) (st_ReceiptSessionID st)"
  "st_ReceiptDestSlot (apply_status r st) =
     deref_or (rec_ReceiptDestSlot r) (st_ReceiptDestSlot st)"
  "st_ReceiptForwardedAtMs (apply_status r st) =
     deref_or (rec_ReceiptForwardedAtMs r) (st_ReceiptForwardedAtMs st)"
  "st_SentAtMs (apply_status r st) = deref_or (rec_SentAtMs r) (st_SentAtMs st)"
  "st_RerouteCount (apply_status r st) = deref_or (rec_RerouteCount r) (st_RerouteCount st)"
  "st_RerouteProof (apply_status r st) = deref_or (rec_RerouteProof r) (st_RerouteProof st)"
  "st_RefusedSlots (apply_status r st) =
     (if rec_RefusedSlots r \<noteq> [] then rec_RefusedSlots r else st_RefusedSlots st)"
  "st_RefusalDeadlineMs (apply_status r st) =
     deref_or (rec_RefusalDeadlineMs r) (st_RefusalDeadlineMs st)"
  "st_seq (apply_status r st) = st_seq st"
  by (simp_all add: apply_status_def Let_def)

lemma apply_status_handoff [simp]:
  "st_Handoff (apply_status r st) =
     apply_handoff r st
       (if rec_Direction r \<noteq> D_empty then rec_Direction r else st_Direction st)"
  by (simp add: apply_status_def Let_def)

lemma apply_status_entry [simp]:
  "st_id (apply_status r st) = st_id st"
  "en_DestSlot (st_Entry (apply_status r st)) =
     deref_or (rec_DestSlot r) (en_DestSlot (st_Entry st))"
  "en_Edge (st_Entry (apply_status r st)) = deref_or (rec_Edge r) (en_Edge (st_Entry st))"
  "en_EntityID (st_Entry (apply_status r st)) = en_EntityID (st_Entry st)"
  "en_SourcePeer (st_Entry (apply_status r st)) = en_SourcePeer (st_Entry st)"
  "en_PayloadHash (st_Entry (apply_status r st)) = en_PayloadHash (st_Entry st)"
  "en_JournaledAt (st_Entry (apply_status r st)) = en_JournaledAt (st_Entry st)"
  "en_Payload (st_Entry (apply_status r st)) =
     (if (if rec_Status r \<noteq> S_empty then rec_Status r else st_Status st) = S_done then []
      else en_Payload (st_Entry st))"
  by (simp_all add: apply_status_def Let_def)

lemma created_state_fields [simp]:
  "st_Entry (created_state r e n) = e"
  "st_Direction (created_state r e n) = rec_Direction r"
  "st_Status (created_state r e n) = S_open"
  "st_Handoff (created_state r e n) = (if rec_Direction r = D_out then H_pending else H_empty)"
  "st_BounceBack (created_state r e n) = deref_or (rec_BounceBack r) False"
  "st_AckedUpstream (created_state r e n) = False"
  "st_seq (created_state r e n) = n"
  "st_ForwardReceipts (created_state r e n) = 0"
  "st_RefusedSlots (created_state r e n) = []"
  "st_RerouteCount (created_state r e n) = 0"
  "st_CompletedAt (created_state r e n) = 0"
  by (simp_all add: created_state_def)

end
