(* ===== verification/JournalView.thy ===== *)
theory JournalView imports Journal begin

text \<open>
  The abstract journal is the list of live states in creation order, with the internal
  creation counter forgotten.  Replaying a record on the map with its counter refines
  replaying it on that list (\<open>view_apply_rec\<close>); everything about compaction, crashes and
  purging is then proved on lists.
\<close>

section \<open>Well-formed memories\<close>

definition rec_ok :: "jrec \<Rightarrow> bool" where
  "rec_ok r = (\<forall>e. rec_Op r = op_create \<longrightarrow> rec_Entry r = Some e \<longrightarrow>
     en_MigrationID e = rec_MigrationID r)"

definition mem_ok :: "jmem \<Rightarrow> bool" where
  "mem_ok m =
     (map_ok (jm_states m) \<and>
      (\<forall>(k, st) \<in> set (jm_states m). st_id st = k \<and> st_seq st \<le> jm_seq m) \<and>
      distinct (map st_seq (map snd (jm_states m))))"

lemma mem_ok_empty [simp, intro]: "mem_ok empty_mem"
  by (simp add: mem_ok_def empty_mem_def)

lemma mem_ok_map [simp]: "mem_ok m \<Longrightarrow> map_ok (jm_states m)"
  and mem_ok_seqs: "mem_ok m \<Longrightarrow> distinct (map st_seq (map snd (jm_states m)))"
  and mem_ok_key: "mem_ok m \<Longrightarrow> (k, st) \<in> set (jm_states m) \<Longrightarrow> st_id st = k"
  and mem_ok_seq: "mem_ok m \<Longrightarrow> (k, st) \<in> set (jm_states m) \<Longrightarrow> st_seq st \<le> jm_seq m"
  by (auto simp: mem_ok_def)

lemma mem_ok_unique:
  "mem_ok m \<Longrightarrow> map_of (jm_states m) k = Some st \<Longrightarrow> (k, st') \<in> set (jm_states m) \<Longrightarrow> st' = st"
  by (metis mem_ok_map map_ok_map_of option.inject)

lemma jm_states_upd: "jm_states (m\<lparr>jm_states := x\<rparr>) = x"
  by simp

lemma mem_okI:
  assumes "map_ok (jm_states m)"
    and "\<And>k st. (k, st) \<in> set (jm_states m) \<Longrightarrow> st_id st = k \<and> st_seq st \<le> jm_seq m"
    and "distinct (map st_seq (map snd (jm_states m)))"
  shows "mem_ok m"
  using assms by (auto simp: mem_ok_def)

lemma mem_ok_lookup:
  "mem_ok m \<Longrightarrow> map_of (jm_states m) k = Some st \<Longrightarrow> st_id st = k \<and> st_seq st \<le> jm_seq m"
  by (fastforce simp: mem_ok_def dest: map_of_Some_mem)

definition core :: "state \<Rightarrow> state" where
  "core st = st\<lparr>st_seq := 0\<rparr>"

lemma core_seq [simp]: "st_seq (core st) = 0"
  and core_entry [simp]: "st_Entry (core st) = st_Entry st"
  and core_direction [simp]: "st_Direction (core st) = st_Direction st"
  and core_status [simp]: "st_Status (core st) = st_Status st"
  and core_handoff [simp]: "st_Handoff (core st) = st_Handoff st"
  and core_receipts [simp]: "st_ForwardReceipts (core st) = st_ForwardReceipts st"
  and core_completed [simp]: "st_CompletedAt (core st) = st_CompletedAt st"
  and core_acked [simp]: "st_AckedUpstream (core st) = st_AckedUpstream st"
  and core_bounce [simp]: "st_BounceBack (core st) = st_BounceBack st"
  and core_core [simp]: "core (core st) = core st"
  by (simp_all add: core_def)

lemma core_apply_status [simp]: "core (apply_status r (core st)) = core (apply_status r st)"
proof -
  have "apply_handoff r (core st) d = apply_handoff r st d" for d
    by (simp add: apply_handoff_def cong: option.case_cong)
  then show ?thesis
    by (simp add: apply_status_def Let_def core_def)
qed

lemma core_created [simp]: "core (created_state r e n) = created_state r e 0"
  by (simp add: core_def created_state_def)

lemma AwaitsUpstreamAck_core [simp]: "AwaitsUpstreamAck (core st) = AwaitsUpstreamAck st"
  by (simp add: AwaitsUpstreamAck_def)

definition view :: "jmem \<Rightarrow> state list" where
  "view m = map core (ordered m)"

lemma view_empty [simp]: "view empty_mem = []"
  by (simp add: view_def ordered_def empty_mem_def)

section \<open>The abstract operation\<close>

definition same_id :: "bytes \<Rightarrow> state \<Rightarrow> bool" where
  "same_id k st = (st_id st = k)"

definition aapply :: "jrec \<Rightarrow> state list \<Rightarrow> state list" where
  "aapply r v =
     (case rec_Op r of
        op_create \<Rightarrow>
          (case rec_Entry r of
             None \<Rightarrow> v
           | Some e \<Rightarrow> filter (\<lambda>st. \<not> same_id (rec_MigrationID r) st) v @ [created_state r e 0])
      | op_status \<Rightarrow>
          (if rec_Purge r then filter (\<lambda>st. \<not> same_id (rec_MigrationID r) st) v
           else map (\<lambda>st. if same_id (rec_MigrationID r) st then core (apply_status r st) else st) v)
      | op_other _ \<Rightarrow> v)"

section \<open>Ordering\<close>

lemma ordered_props:
  assumes "mem_ok m"
  shows "set (ordered m) = snd ` set (jm_states m)"
    and "sorted (map st_seq (ordered m))"
    and "mset (ordered m) = mset (map snd (jm_states m))"
  by (simp_all add: ordered_def)

lemma mem_ok_inj_seq:
  "mem_ok m \<Longrightarrow> inj_on st_seq (set (map snd (jm_states m)))"
  using mem_ok_seqs [of m] by (simp only: distinct_map)

lemma ordered_unique:
  assumes "mem_ok m" and "mset xs = mset (map snd (jm_states m))" and "sorted (map st_seq xs)"
  shows "ordered m = xs"
  unfolding ordered_def
  by (rule sort_key_inj_unique) (use assms mem_ok_inj_seq in auto)

section \<open>Each case of the refinement\<close>

lemma mem_ok_replace:
  assumes m: "mem_ok m" and k: "map_of (jm_states m) k = Some st"
    and st': "st_id st' = k" "st_seq st' = st_seq st"
  shows "mem_ok (m\<lparr>jm_states := AList.update k st' (jm_states m)\<rparr>)"
    and "ordered (m\<lparr>jm_states := AList.update k st' (jm_states m)\<rparr>)
           = map (\<lambda>x. if same_id k x then st' else x) (ordered m)"
proof -
  let ?ss = "jm_states m"
  let ?g = "\<lambda>x. if same_id k x then st' else x"
  let ?m = "m\<lparr>jm_states := AList.update k st' ?ss\<rparr>"
  have upd: "AList.update k st' ?ss = map (\<lambda>(a, b). (a, if a = k then st' else b)) ?ss"
    using m by (intro update_present [OF _ k]) simp
  have gseq: "map st_seq (map ?g xs) = map st_seq xs" if "set xs \<subseteq> snd ` set ?ss" for xs
  proof -
    have "st_seq (?g x) = st_seq x" if x: "x \<in> set xs" for x
    proof -
      from x \<open>set xs \<subseteq> snd ` set ?ss\<close> obtain a where a: "(a, x) \<in> set ?ss" by auto
      show ?thesis
        using mem_ok_key [OF m a] mem_ok_unique [OF m k, of x] a st'(2)
        by (auto simp: same_id_def)
    qed
    then show ?thesis by simp
  qed
  have snds: "map snd (AList.update k st' ?ss) = map ?g (map snd ?ss)"
    unfolding upd using mem_ok_key [OF m] by (auto simp: same_id_def)
  show ok': "mem_ok ?m"
  proof (rule mem_okI)
    show "map_ok (jm_states ?m)" using m by simp
    have "map st_seq (map snd (jm_states ?m)) = map st_seq (map snd ?ss)"
      using gseq [of "map snd ?ss"] snds by simp
    then show "distinct (map st_seq (map snd (jm_states ?m)))"
      using mem_ok_seqs [OF m] by simp
    fix a b assume "(a, b) \<in> set (jm_states ?m)"
    then obtain b' where b': "(a, b') \<in> set ?ss" "b = (if a = k then st' else b')"
      by (auto simp: upd)
    then show "st_id b = a \<and> st_seq b \<le> jm_seq ?m"
      using st' mem_ok_key [OF m b'(1)] mem_ok_seq [OF m b'(1)] mem_ok_lookup [OF m k]
      by auto
  qed
  show "ordered ?m = map ?g (ordered m)"
  proof (rule ordered_unique [OF ok'])
    show "sorted (map st_seq (map ?g (ordered m)))"
      by (subst gseq) (simp_all only: ordered_props(1,2) [OF m] order_refl)
    have "mset (map ?g (ordered m)) = mset (map ?g (map snd ?ss))"
      by (simp only: mset_map ordered_props(3) [OF m])
    then show "mset (map ?g (ordered m)) = mset (map snd (jm_states ?m))"
      by (simp only: snds jm_states_upd)
  qed
qed

lemma mem_ok_remove:
  assumes m: "mem_ok m"
  shows "mem_ok (m\<lparr>jm_states := AList.delete k (jm_states m)\<rparr>)"
    and "ordered (m\<lparr>jm_states := AList.delete k (jm_states m)\<rparr>)
           = filter (\<lambda>x. \<not> same_id k x) (ordered m)"
proof -
  let ?ss = "jm_states m"
  have "map snd (filter (\<lambda>(a, _). a \<noteq> k) ss) = filter (\<lambda>x. st_id x \<noteq> k) (map snd ss)"
    if "\<forall>p \<in> set ss. st_id (snd p) = fst p" for ss :: "(bytes, state) gomap"
    using that by (induction ss) auto
  moreover have "\<forall>p \<in> set ?ss. st_id (snd p) = fst p"
    using mem_ok_key [OF m] by auto
  ultimately have snds: "map snd (AList.delete k ?ss) = filter (\<lambda>x. \<not> same_id k x) (map snd ?ss)"
    by (simp only: delete_filter same_id_def)
  show "mem_ok (m\<lparr>jm_states := AList.delete k ?ss\<rparr>)"
  proof (rule mem_okI)
    show "map_ok (jm_states (m\<lparr>jm_states := AList.delete k ?ss\<rparr>))" using m by simp
    show "distinct (map st_seq (map snd (jm_states (m\<lparr>jm_states := AList.delete k ?ss\<rparr>))))"
      using mem_ok_seqs [OF m] by (simp only: snds jm_states_upd distinct_map_filter)
    fix a b assume "(a, b) \<in> set (jm_states (m\<lparr>jm_states := AList.delete k ?ss\<rparr>))"
    then have "(a, b) \<in> set ?ss" by (simp add: delete_filter)
    then show "st_id b = a \<and> st_seq b \<le> jm_seq (m\<lparr>jm_states := AList.delete k ?ss\<rparr>)"
      using mem_ok_key [OF m] mem_ok_seq [OF m] by simp
  qed
  show "ordered (m\<lparr>jm_states := AList.delete k ?ss\<rparr>) = filter (\<lambda>x. \<not> same_id k x) (ordered m)"
    unfolding ordered_def by (simp add: snds filter_sort_key)
qed

lemma mem_ok_append:
  assumes m: "mem_ok m" and k: "map_of (jm_states m) k = None"
    and st': "st_id st' = k" "st_seq st' = Suc (jm_seq m)"
  shows "mem_ok \<lparr>jm_states = AList.update k st' (jm_states m), jm_seq = Suc (jm_seq m)\<rparr>"
    and "ordered \<lparr>jm_states = AList.update k st' (jm_states m), jm_seq = Suc (jm_seq m)\<rparr>
           = ordered m @ [st']"
proof -
  let ?ss = "jm_states m"
  let ?m = "\<lparr>jm_states = AList.update k st' ?ss, jm_seq = Suc (jm_seq m)\<rparr>"
  have upd: "AList.update k st' ?ss = ?ss @ [(k, st')]"
    by (rule update_absent [OF k])
  have le: "x \<in> snd ` set ?ss \<Longrightarrow> st_seq x \<le> jm_seq m" for x
    using mem_ok_seq [OF m] by auto
  show "mem_ok ?m"
  proof (rule mem_okI)
    show "map_ok (jm_states ?m)" using m by simp
    have "st_seq st' \<notin> set (map st_seq (map snd ?ss))"
      using le st'(2) by fastforce
    then show "distinct (map st_seq (map snd (jm_states ?m)))"
      using mem_ok_seqs [OF m] by (simp add: upd)
    fix a b assume "(a, b) \<in> set (jm_states ?m)"
    then have "(a, b) \<in> set ?ss \<or> a = k \<and> b = st'" by (auto simp: upd)
    then show "st_id b = a \<and> st_seq b \<le> jm_seq ?m"
      using st' mem_ok_key [OF m, of a b] mem_ok_seq [OF m, of a b] by auto
  qed
  have "\<forall>y \<in> set (map snd ?ss). st_seq y \<le> st_seq st'"
    using le st'(2) by fastforce
  then show "ordered ?m = ordered m @ [st']"
    by (simp add: ordered_def upd sort_key_snoc_max)
qed

text \<open>Writing a key that is already there moves it to the end: the same as deleting it
  first.\<close>

lemma update_mset_delete:
  "map_ok m \<Longrightarrow> mset (AList.update k v m) = mset (AList.delete k m @ [(k, v)])"
proof (induction m)
  case (Cons p m)
  obtain a b where p: "p = (a, b)" by (cases p)
  show ?case
  proof (cases "a = k")
    case True
    with Cons.prems p have "\<forall>(a', _) \<in> set m. a' \<noteq> k" by (force simp: map_ok_def)
    then have "AList.delete k m = m" by (auto simp: delete_filter filter_id_conv)
    with True p show ?thesis by (simp add: delete_filter)
  next
    case False
    with Cons p show ?thesis by (simp add: map_ok_def delete_filter)
  qed
qed simp

lemma mem_ok_overwrite:
  assumes m: "mem_ok m" and st': "st_id st' = k" "st_seq st' = Suc (jm_seq m)"
  shows "mem_ok \<lparr>jm_states = AList.update k st' (jm_states m), jm_seq = Suc (jm_seq m)\<rparr>"
    and "ordered \<lparr>jm_states = AList.update k st' (jm_states m), jm_seq = Suc (jm_seq m)\<rparr>
           = filter (\<lambda>x. \<not> same_id k x) (ordered m) @ [st']"
proof -
  let ?d = "m\<lparr>jm_states := AList.delete k (jm_states m)\<rparr>"
  let ?new = "\<lparr>jm_states = AList.update k st' (jm_states m), jm_seq = Suc (jm_seq m)\<rparr>"
  let ?app = "\<lparr>jm_states = AList.update k st' (jm_states ?d), jm_seq = Suc (jm_seq ?d)\<rparr>"
  note del = mem_ok_remove [OF m, of k]
  have app: "mem_ok ?app" "ordered ?app = ordered ?d @ [st']"
    by (rule mem_ok_append [OF del(1)]; use st' in simp)+
  have ms: "mset (jm_states ?new) = mset (jm_states ?app)"
    using m by (simp add: update_mset_delete update_absent)
  then have sets: "set (jm_states ?new) = set (jm_states ?app)" by (rule mset_eq_setD)
  have snds: "mset (map snd (jm_states ?new)) = mset (map snd (jm_states ?app))"
    using ms by (simp only: mset_map)
  show ok': "mem_ok ?new"
  proof (rule mem_okI)
    show "map_ok (jm_states ?new)" using m by simp
    have "mset (map st_seq (map snd (jm_states ?new)))
        = mset (map st_seq (map snd (jm_states ?app)))"
      using snds by (simp only: mset_map)
    then show "distinct (map st_seq (map snd (jm_states ?new)))"
      using mem_ok_seqs [OF app(1)] by (metis mset_eq_imp_distinct_iff)
    fix a b assume "(a, b) \<in> set (jm_states ?new)"
    then have "(a, b) \<in> set (jm_states ?app)" by (simp only: sets)
    then show "st_id b = a \<and> st_seq b \<le> jm_seq ?new"
      using mem_ok_key [OF app(1)] mem_ok_seq [OF app(1)] by simp
  qed
  have "ordered ?new = ordered ?app"
    by (rule ordered_unique [OF ok'])
      (simp_all only: ordered_props(2,3) [OF app(1)] snds)
  then show "ordered ?new = filter (\<lambda>x. \<not> same_id k x) (ordered m) @ [st']"
    using app(2) del(2) by simp
qed

section \<open>The refinement\<close>

lemma same_id_core [simp]: "same_id k (core st) = same_id k st"
  by (simp add: same_id_def)

lemma map_core_filter:
  "map core (filter (\<lambda>x. \<not> same_id k x) xs) = filter (\<lambda>x. \<not> same_id k x) (map core xs)"
  by (induction xs) auto

theorem view_apply_rec:
  assumes m: "mem_ok m" and r: "rec_ok r"
  shows "mem_ok (apply_rec r m)" and "view (apply_rec r m) = aapply r (view m)"
proof -
  let ?k = "rec_MigrationID r"
  have "mem_ok (apply_rec r m) \<and> view (apply_rec r m) = aapply r (view m)"
  proof (cases "rec_Op r")
    case op_create
    show ?thesis
    proof (cases "rec_Entry r")
      case None
      with op_create m show ?thesis by (simp add: apply_rec_def aapply_def)
    next
      case (Some e)
      let ?st = "created_state r e (Suc (jm_seq m))"
      have "en_MigrationID e = ?k" using r op_create Some by (simp add: rec_ok_def)
      then have "st_id ?st = ?k" "st_seq ?st = Suc (jm_seq m)" by simp_all
      from mem_ok_overwrite [OF m this] op_create Some show ?thesis
        by (simp add: apply_rec_def aapply_def view_def map_core_filter)
    qed
  next
    case op_status
    show ?thesis
    proof (cases "map_of (jm_states m) ?k")
      case None
      then have "?k \<notin> fst ` set (jm_states m)" by (simp add: map_of_eq_None_iff)
      moreover have "\<And>x. x \<in> set (ordered m) \<Longrightarrow> st_id x \<in> fst ` set (jm_states m)"
        using ordered_props(1) [OF m] mem_ok_key [OF m] by force
      ultimately have "\<not> same_id ?k x" if "x \<in> set (ordered m)" for x
        using that unfolding same_id_def by metis
      then have "\<forall>x \<in> set (view m). \<not> same_id ?k x" by (simp add: view_def)
      then have "filter (\<lambda>x. \<not> same_id ?k x) (view m) = view m"
        and "map (\<lambda>x. if same_id ?k x then core (apply_status r x) else x) (view m) = view m"
        by (auto intro: map_idI)
      with None op_status m show ?thesis by (simp add: apply_rec_def aapply_def)
    next
      case (Some st)
      show ?thesis
      proof (cases "rec_Purge r")
        case True
        with Some op_status mem_ok_remove [OF m, of ?k] show ?thesis
          by (simp add: apply_rec_def aapply_def view_def map_core_filter)
      next
        case False
        let ?st = "apply_status r st"
        have id: "st_id ?st = ?k" "st_seq ?st = st_seq st"
          using mem_ok_lookup [OF m Some] by simp_all
        have only: "x = st" if "x \<in> set (ordered m)" "same_id ?k x" for x
        proof -
          from that(1) obtain a where ax: "(a, x) \<in> set (jm_states m)"
            using ordered_props(1) [OF m] by auto
          with that(2) have "a = ?k" using mem_ok_key [OF m ax] by (simp add: same_id_def)
          with ax show ?thesis using mem_ok_unique [OF m Some] by simp
        qed
        have "map core (map (\<lambda>x. if same_id ?k x then ?st else x) (ordered m))
            = map (\<lambda>x. if same_id ?k x then core (apply_status r x) else x) (map core (ordered m))"
          using only by auto
        with False Some op_status mem_ok_replace [OF m Some id] show ?thesis
          by (simp add: apply_rec_def aapply_def view_def)
      qed
    qed
  next
    case (op_other x)
    with m show ?thesis by (simp add: apply_rec_def aapply_def)
  qed
  then show "mem_ok (apply_rec r m)" "view (apply_rec r m) = aapply r (view m)" by simp_all
qed

definition replay_mem :: "jrec list \<Rightarrow> jmem \<Rightarrow> jmem" where
  "replay_mem rs m = fold apply_rec rs m"

lemma view_replay_mem:
  assumes "mem_ok m" and "\<forall>r \<in> set rs. rec_ok r"
  shows "mem_ok (replay_mem rs m)" and "view (replay_mem rs m) = fold aapply rs (view m)"
proof -
  have "mem_ok (fold apply_rec rs m) \<and> view (fold apply_rec rs m) = fold aapply rs (view m)"
    using assms
  proof (induction rs arbitrary: m)
    case (Cons r rs)
    then show ?case using view_apply_rec [of m r] by simp
  qed simp
  then show "mem_ok (replay_mem rs m)" "view (replay_mem rs m) = fold aapply rs (view m)"
    by (simp_all add: replay_mem_def)
qed

section \<open>Reading one state\<close>

lemma lookup_view:
  assumes "mem_ok m"
  shows "map_option core (lookup m k) = find (same_id k) (view m)"
proof (cases "lookup m k")
  case None
  then have "k \<notin> fst ` set (jm_states m)" by (simp add: lookup_def map_of_eq_None_iff)
  then have "\<forall>x \<in> set (view m). \<not> same_id k x"
    using ordered_props(1) [OF assms] mem_ok_key [OF assms]
    by (force simp: view_def same_id_def)
  then have "find (same_id k) (view m) = None" by (simp add: find_None_iff)
  with None show ?thesis by simp
next
  case (Some st)
  then have mem: "(k, st) \<in> set (jm_states m)"
    by (simp add: lookup_def map_of_Some_mem)
  have "same_id k st" using mem_ok_lookup [OF assms] Some by (simp add: lookup_def same_id_def)
  moreover have "st \<in> set (ordered m)"
    using mem ordered_props(1) [OF assms] by force
  ultimately have "core st \<in> set (view m) \<and> same_id k (core st)" by (auto simp: view_def)
  moreover have "y = core st" if "y \<in> set (view m)" "same_id k y" for y
  proof -
    from that obtain x a where "y = core x" "(a, x) \<in> set (jm_states m)" "same_id k x"
      using ordered_props(1) [OF assms] by (auto simp: view_def)
    moreover from this have "a = k" using mem_ok_key [OF assms] by (simp add: same_id_def)
    ultimately show ?thesis
      using mem_ok_unique [OF assms, of k st x] Some by (simp add: lookup_def)
  qed
  ultimately have "find (same_id k) (view m) = Some (core st)"
    by (metis (no_types, lifting) find_None_iff find_Some_iff not_None_eq nth_mem)
  with Some show ?thesis by simp
qed

end
