(* ===== verification/JournalLog.thy ===== *)
theory JournalLog imports JournalView begin

text \<open>
  The durable half of \<open>internal/journal/journal.go\<close>: the byte log, its replay, the append with
  its failure handling, compaction, and the exported operations of a journal.

  \<open>encoding/json\<close> is a parameter: \<open>mar\<close> is \<open>json.Marshal\<close> on a record (\<open>None\<close> when it reports
  an error, as it does for a NaN) and \<open>unm\<close> is \<open>json.Unmarshal\<close> of a line into a record.  Disk
  and rename outcomes are explicit arguments of the operations that meet them.
\<close>

section \<open>Lines\<close>

definition MaxFrameBytes :: nat where
  "MaxFrameBytes = 8 * 1048576"

definition maxLine :: nat where
  "maxLine = MaxFrameBytes + 1048576"

datatype line_result = Line_ok bytes bytes | Line_eof bytes | Line_too_long

definition readLine :: "bytes \<Rightarrow> line_result" where
  "readLine bs =
     (let l = takeWhile (\<lambda>c. c \<noteq> newline) bs in
      case dropWhile (\<lambda>c. c \<noteq> newline) bs of
        [] \<Rightarrow> if maxLine < length l then Line_too_long else Line_eof l
      | _ # rest \<Rightarrow> if maxLine < length l + 1 then Line_too_long else Line_ok l rest)"

lemma readLine_shorter: "readLine bs = Line_ok l rest \<Longrightarrow> length rest < length bs"
proof -
  assume "readLine bs = Line_ok l rest"
  then obtain c where c: "dropWhile (\<lambda>c. c \<noteq> newline) bs = c # rest"
    by (auto simp: readLine_def Let_def split: list.splits if_splits)
  have "length (dropWhile (\<lambda>c. c \<noteq> newline) bs) \<le> length bs" by (rule length_dropWhile_le)
  with c show ?thesis by simp
qed

text \<open>\<open>tailBytes\<close>: what lies behind an offset of a file of the given size.\<close>

definition tailBytes :: "nat \<Rightarrow> nat \<Rightarrow> nat" where
  "tailBytes sz offset = (if sz \<le> offset then 0 else sz - offset)"

section \<open>Replay\<close>

text \<open>The loop of \<open>replay\<close>: the memory, the offset it reached and the discarded count, or
  \<open>None\<close> when a line is over the limit.\<close>

function scan :: "(bytes \<Rightarrow> jrec option) \<Rightarrow> nat \<Rightarrow> bytes \<Rightarrow> nat \<Rightarrow> jmem \<Rightarrow> (jmem \<times> nat \<times> nat) option"
where
  "scan unm sz bs offset m =
     (case readLine bs of
        Line_too_long \<Rightarrow> None
      | Line_eof l \<Rightarrow>
          if l = [] then Some (m, offset, 0)
          else (case unm l of
                  None \<Rightarrow> Some (m, offset, tailBytes sz (offset + length l))
                | Some r \<Rightarrow> Some (apply_rec r m, offset + length l + 1, 0))
      | Line_ok l rest \<Rightarrow>
          if l = [] then scan unm sz rest offset m
          else (case unm l of
                  None \<Rightarrow> Some (m, offset, tailBytes sz (offset + length l + 1))
                | Some r \<Rightarrow> scan unm sz rest (offset + length l + 1) (apply_rec r m)))"
  by pat_completeness auto
termination by (relation "measure (\<lambda>(_, _, bs, _, _). length bs)") (auto dest: readLine_shorter)

declare scan.simps [simp del]

text \<open>\<open>os.Truncate\<close>: cut, or extend with zero bytes.\<close>

definition truncate_to :: "nat \<Rightarrow> bytes \<Rightarrow> bytes" where
  "truncate_to n bs = take n bs @ replicate (n - length bs) (CHR 0x00)"

lemma truncate_to_self [simp]: "truncate_to (length bs) bs = bs"
  by (simp add: truncate_to_def)

datatype jerror =
  E_closed | E_readonly | E_duplicate | E_notfound | E_io | E_marshal | E_line_too_long

datatype replay_io = Replay_io_ok | Replay_open_fails | Replay_truncate_fails

text \<open>
  \<open>replay\<close> reads the file to its end and only then asks for its size.  \<open>extra\<close> is what another
  process appended in between: nothing for the owner, possibly a record for a diagnostic that
  replays a live sidecar's log.
\<close>

definition replay ::
  "(bytes \<Rightarrow> jrec option) \<Rightarrow> replay_io \<Rightarrow> bytes \<Rightarrow> bytes option
     \<Rightarrow> jerror + (jmem \<times> nat \<times> bytes option)"
where
  "replay unm io extra file =
     (case file of
        None \<Rightarrow> Inr (empty_mem, 0, None)
      | Some bs \<Rightarrow>
          if io = Replay_open_fails then Inl E_io
          else (case scan unm (length (bs @ extra)) bs 0 empty_mem of
                  None \<Rightarrow> Inl E_line_too_long
                | Some (m, offset, discarded) \<Rightarrow>
                    if length (bs @ extra) \<noteq> offset
                    then (if io = Replay_truncate_fails then Inl E_io
                          else Inr (m, discarded, Some (truncate_to offset (bs @ extra))))
                    else Inr (m, discarded, Some (bs @ extra))))"

section \<open>The journal and its append\<close>

text \<open>The fields of the Go \<open>Journal\<close> (\<open>jn_open\<close> is \<open>j.f != nil\<close>) and the bytes of
  \<open>journal.log\<close>.\<close>

record journal =
  jn_mem :: jmem
  jn_open :: bool
  jn_closed :: bool
  jn_readOnly :: bool
  jn_discarded :: nat
  jn_file :: "bytes option"

text \<open>
  What the disk does with one write: all of it lands and the sync succeeds; \<open>n\<close> bytes land and
  the write reports an error, after which the truncation succeeds or not; all of it lands and
  the sync reports an error.
\<close>

datatype write_fate = Write_ok | Write_short nat bool | Write_nosync

definition file_bytes :: "journal \<Rightarrow> bytes" where
  "file_bytes j = (case jn_file j of None \<Rightarrow> [] | Some bs \<Rightarrow> bs)"

definition append_rec ::
  "(jrec \<Rightarrow> bytes option) \<Rightarrow> write_fate \<Rightarrow> jrec \<Rightarrow> journal \<Rightarrow> jerror option \<times> journal"
where
  "append_rec mar fate r j =
     (if jn_readOnly j then (Some E_readonly, j)
      else case mar r of
        None \<Rightarrow> (Some E_marshal, j)
      | Some b \<Rightarrow>
          if \<not> jn_open j then (Some E_io, j)
          else (let line = b @ [newline]; before = file_bytes j in
                case fate of
                  Write_ok \<Rightarrow> (None, j\<lparr>jn_file := Some (before @ line)\<rparr>)
                | Write_short n truncated \<Rightarrow>
                    (Some E_io,
                     j\<lparr>jn_file := Some (if truncated then before else before @ take n line)\<rparr>)
                | Write_nosync \<Rightarrow> (Some E_io, j\<lparr>jn_file := Some (before @ line)\<rparr>)))"

section \<open>Create, Update and Apply\<close>

definition create_record :: "direction \<Rightarrow> entry \<Rightarrow> bool \<Rightarrow> jrec" where
  "create_record dir e bounceBack =
     zero_rec\<lparr>rec_Op := op_create, rec_MigrationID := en_MigrationID e,
       rec_At := en_JournaledAt e, rec_Direction := dir, rec_Entry := Some e,
       rec_BounceBack := Some bounceBack\<rparr>"

definition apply_mem :: "jrec \<Rightarrow> journal \<Rightarrow> journal" where
  "apply_mem r j = j\<lparr>jn_mem := apply_rec r (jn_mem j)\<rparr>"

text \<open>What \<open>j.states[id].Clone()\<close> returns after the record was applied.\<close>

definition state_of :: "journal \<Rightarrow> bytes \<Rightarrow> state option" where
  "state_of j k = lookup (jn_mem j) k"

definition jCreate ::
  "(jrec \<Rightarrow> bytes option) \<Rightarrow> write_fate \<Rightarrow> direction \<Rightarrow> entry \<Rightarrow> bool \<Rightarrow> journal
     \<Rightarrow> (jerror + state option) \<times> journal"
where
  "jCreate mar fate dir e bounceBack j =
     (if jn_closed j then (Inl E_closed, j)
      else case lookup (jn_mem j) (en_MigrationID e) of
        Some _ \<Rightarrow> (Inl E_duplicate, j)
      | None \<Rightarrow>
          (let r = create_record dir e bounceBack in
           case append_rec mar fate r j of
             (Some err, j') \<Rightarrow> (Inl err, j')
           | (None, j') \<Rightarrow>
               (let j'' = apply_mem r j' in (Inr (state_of j'' (en_MigrationID e)), j''))))"

record upd =
  upd_Status :: status
  upd_Direction :: direction
  upd_Attempt :: "int option"
  upd_BounceBack :: "bool option"
  upd_Acked :: "bool option"
  upd_Duplicate :: "bool option"
  upd_Edge :: "bytes option"
  upd_CompletedAt :: "int option"
  upd_Note :: bytes
  upd_Handoff :: handoff
  upd_RelaySessionID :: "bytes option"
  upd_SentAtMs :: "int option"
  upd_DestSlot :: "int option"
  upd_RerouteCount :: "int option"
  upd_RerouteFrom :: "int option"
  upd_RerouteProof :: "bytes option"
  upd_RerouteAtMs :: "int option"
  upd_RefusedSlots :: "int list"
  upd_RefusalDeadlineMs :: "int option"
  upd_ForwardReceipts :: "int option"
  upd_ReceiptSessionID :: "bytes option"
  upd_ReceiptDestSlot :: "int option"
  upd_ReceiptForwardedAtMs :: "int option"

definition no_upd :: upd where
  "no_upd = \<lparr>upd_Status = S_empty, upd_Direction = D_empty, upd_Attempt = None,
     upd_BounceBack = None, upd_Acked = None, upd_Duplicate = None, upd_Edge = None,
     upd_CompletedAt = None, upd_Note = [], upd_Handoff = H_empty, upd_RelaySessionID = None,
     upd_SentAtMs = None, upd_DestSlot = None, upd_RerouteCount = None,
     upd_RerouteFrom = None, upd_RerouteProof = None, upd_RerouteAtMs = None,
     upd_RefusedSlots = [], upd_RefusalDeadlineMs = None, upd_ForwardReceipts = None,
     upd_ReceiptSessionID = None, upd_ReceiptDestSlot = None, upd_ReceiptForwardedAtMs = None\<rparr>"

definition status_record :: "int \<Rightarrow> bytes \<Rightarrow> upd \<Rightarrow> jrec" where
  "status_record now k u =
     \<lparr>rec_Op = op_status, rec_MigrationID = k, rec_At = now, rec_Direction = upd_Direction u,
      rec_Entry = None, rec_Status = upd_Status u, rec_Attempt = upd_Attempt u,
      rec_BounceBack = upd_BounceBack u, rec_Acked = upd_Acked u,
      rec_Duplicate = upd_Duplicate u, rec_Edge = upd_Edge u, rec_Note = upd_Note u,
      rec_CompletedAt = upd_CompletedAt u, rec_Purge = False,
      rec_Handoff = (if upd_Handoff u \<noteq> H_empty then Some (upd_Handoff u) else None),
      rec_RelaySessionID = upd_RelaySessionID u, rec_SentAtMs = upd_SentAtMs u,
      rec_DestSlot = upd_DestSlot u, rec_RerouteCount = upd_RerouteCount u,
      rec_RerouteFrom = upd_RerouteFrom u, rec_RerouteProof = upd_RerouteProof u,
      rec_RerouteAtMs = upd_RerouteAtMs u, rec_RefusedSlots = upd_RefusedSlots u,
      rec_RefusalDeadlineMs = upd_RefusalDeadlineMs u,
      rec_ForwardReceipts = upd_ForwardReceipts u,
      rec_ReceiptSessionID = upd_ReceiptSessionID u,
      rec_ReceiptDestSlot = upd_ReceiptDestSlot u,
      rec_ReceiptForwardedAtMs = upd_ReceiptForwardedAtMs u\<rparr>"

definition jApply ::
  "(jrec \<Rightarrow> bytes option) \<Rightarrow> write_fate \<Rightarrow> int \<Rightarrow> bytes \<Rightarrow> upd \<Rightarrow> journal
     \<Rightarrow> (jerror + state option) \<times> journal"
where
  "jApply mar fate now k u j =
     (if jn_closed j then (Inl E_closed, j)
      else case lookup (jn_mem j) k of
        None \<Rightarrow> (Inl E_notfound, j)
      | Some _ \<Rightarrow>
          (let r = status_record now k u in
           case append_rec mar fate r j of
             (Some err, j') \<Rightarrow> (Inl err, j')
           | (None, j') \<Rightarrow> (let j'' = apply_mem r j' in (Inr (state_of j'' k), j''))))"

section \<open>Reads\<close>

definition jGet :: "bytes \<Rightarrow> journal \<Rightarrow> state option" where
  "jGet k j = lookup (jn_mem j) k"

definition jList :: "journal \<Rightarrow> state list" where
  "jList j = ordered (jn_mem j)"

definition CountPending :: "direction \<Rightarrow> journal \<Rightarrow> nat" where
  "CountPending dir j =
     length (filter (\<lambda>(_, st). st_Direction st = dir \<and>
       (st_Status st = S_open \<or> st_Status st = S_in_flight)) (jm_states (jn_mem j)))"

definition Live :: "journal \<Rightarrow> nat" where
  "Live j = length (jm_states (jn_mem j))"

section \<open>Purging\<close>

definition purge_record :: "time \<Rightarrow> bytes \<Rightarrow> jrec" where
  "purge_record now k =
     zero_rec\<lparr>rec_Op := op_status, rec_MigrationID := k, rec_At := unix_milli now,
       rec_Purge := True\<rparr>"

definition purge_candidate :: "int \<Rightarrow> state \<Rightarrow> bool" where
  "purge_candidate cutoff st =
     (\<not> (st_Status st \<noteq> S_done \<or> st_CompletedAt st = 0 \<or> st_CompletedAt st > cutoff) \<and>
      \<not> AwaitsUpstreamAck st)"

fun purge_loop ::
  "(jrec \<Rightarrow> bytes option) \<Rightarrow> (nat \<Rightarrow> write_fate) \<Rightarrow> time \<Rightarrow> int \<Rightarrow> state list \<Rightarrow> nat \<Rightarrow> journal
     \<Rightarrow> (nat \<times> jerror option) \<times> journal"
where
  "purge_loop mar fates now cutoff [] n j = ((n, None), j)"
| "purge_loop mar fates now cutoff (st # sts) n j =
     (if \<not> purge_candidate cutoff st then purge_loop mar fates now cutoff sts n j
      else (let r = purge_record now (st_id st) in
            case append_rec mar (fates n) r j of
              (Some err, j') \<Rightarrow> ((n, Some err), j')
            | (None, j') \<Rightarrow> purge_loop mar fates now cutoff sts (n + 1) (apply_mem r j')))"

definition PurgeExpired ::
  "(jrec \<Rightarrow> bytes option) \<Rightarrow> (nat \<Rightarrow> write_fate) \<Rightarrow> duration \<Rightarrow> time \<Rightarrow> journal
     \<Rightarrow> (nat \<times> jerror option) \<times> journal"
where
  "PurgeExpired mar fates retention now j =
     (if jn_closed j then ((0, Some E_closed), j)
      else purge_loop mar fates now (unix_milli (now - retention)) (ordered (jn_mem j)) 0 j)"

section \<open>Compaction\<close>

text \<open>The two records that one live state becomes.\<close>

definition compact_create :: "state \<Rightarrow> jrec" where
  "compact_create st = create_record (st_Direction st) (st_Entry st) (st_BounceBack st)"

definition compact_status :: "int \<Rightarrow> state \<Rightarrow> jrec" where
  "compact_status now st =
     \<lparr>rec_Op = op_status, rec_MigrationID = st_id st, rec_At = now,
      rec_Direction = st_Direction st, rec_Entry = None, rec_Status = st_Status st,
      rec_Attempt = Some (st_Attempt st), rec_BounceBack = Some (st_BounceBack st),
      rec_Acked = Some (st_AckedUpstream st), rec_Duplicate = Some (st_Duplicate st),
      rec_Edge = None, rec_Note = st_Note st,
      rec_CompletedAt = (if st_CompletedAt st \<noteq> 0 then Some (st_CompletedAt st) else None),
      rec_Purge = False,
      rec_Handoff = (if st_Handoff st \<noteq> H_empty then Some (st_Handoff st) else None),
      rec_RelaySessionID =
        (if st_RelaySessionID st \<noteq> [] then Some (st_RelaySessionID st) else None),
      rec_SentAtMs = Some (st_SentAtMs st), rec_DestSlot = Some (en_DestSlot (st_Entry st)),
      rec_RerouteCount = Some (st_RerouteCount st), rec_RerouteFrom = Some (st_RerouteFrom st),
      rec_RerouteProof = Some (st_RerouteProof st), rec_RerouteAtMs = Some (st_RerouteAtMs st),
      rec_RefusedSlots = st_RefusedSlots st,
      rec_RefusalDeadlineMs =
        (if st_RefusalDeadlineMs st \<noteq> 0 then Some (st_RefusalDeadlineMs st) else None),
      rec_ForwardReceipts =
        (if st_ForwardReceipts st > 0 then Some (st_ForwardReceipts st) else None),
      rec_ReceiptSessionID =
        (if st_ForwardReceipts st > 0 then Some (st_ReceiptSessionID st) else None),
      rec_ReceiptDestSlot =
        (if st_ForwardReceipts st > 0 then Some (st_ReceiptDestSlot st) else None),
      rec_ReceiptForwardedAtMs =
        (if st_ForwardReceipts st > 0 then Some (st_ReceiptForwardedAtMs st) else None)\<rparr>"

definition compact_records :: "int \<Rightarrow> state list \<Rightarrow> jrec list" where
  "compact_records now sts = concat (map (\<lambda>st. [compact_create st, compact_status now st]) sts)"

text \<open>\<open>writeRecord\<close> over a list: \<open>None\<close> as soon as one record does not marshal.\<close>

fun write_records :: "(jrec \<Rightarrow> bytes option) \<Rightarrow> jrec list \<Rightarrow> bytes option" where
  "write_records mar [] = Some []"
| "write_records mar (r # rs) =
     (case mar r of
        None \<Rightarrow> None
      | Some b \<Rightarrow> map_option (\<lambda>bs. b @ newline # bs) (write_records mar rs))"

text \<open>\<open>renameInto\<close>: up to three attempts with a doubling pause; the answers of the file system
  are the argument, the result is whether it succeeded and how long it slept.\<close>

definition renameAttempts :: nat where
  "renameAttempts = 3"

function rename_loop :: "(nat \<Rightarrow> bool) \<Rightarrow> nat \<Rightarrow> duration \<Rightarrow> duration \<Rightarrow> bool \<times> duration" where
  "rename_loop answers attempt delay slept =
     (if answers attempt \<or> attempt \<ge> renameAttempts then (answers attempt, slept)
      else rename_loop answers (attempt + 1) (2 * delay) (slept + delay))"
  by pat_completeness auto
termination by (relation "measure (\<lambda>(_, attempt, _, _). renameAttempts - attempt)") auto

declare rename_loop.simps [simp del]

definition renameInto :: "(nat \<Rightarrow> bool) \<Rightarrow> bool \<times> duration" where
  "renameInto answers = rename_loop answers 1 (20 * millisecond) 0"

text \<open>
  What a compaction meets: an error before the rename (the scratch file could not be opened,
  written, flushed, synced or closed), an error closing the append handle, the answers to the
  renames, an error opening the handle again, an error syncing the directory.
\<close>

record compact_fate =
  cf_scratch :: bool
  cf_close :: bool
  cf_rename :: "nat \<Rightarrow> bool"
  cf_reopen :: bool
  cf_syncdir :: bool

definition compact ::
  "(jrec \<Rightarrow> bytes option) \<Rightarrow> int \<Rightarrow> compact_fate \<Rightarrow> journal \<Rightarrow> jerror option \<times> journal"
where
  "compact mar now fate j =
     (case write_records mar (compact_records now (ordered (jn_mem j))) of
        None \<Rightarrow> (Some E_marshal, j)
      | Some content \<Rightarrow>
          if \<not> cf_scratch fate then (Some E_io, j)
          else (let reopen = jn_open j; j1 = j\<lparr>jn_open := False\<rparr> in
            if jn_open j \<and> \<not> cf_close fate then (Some E_io, j1\<lparr>jn_closed := True\<rparr>)
            else if \<not> fst (renameInto (cf_rename fate)) then
              (if reopen then
                 (if cf_reopen fate then (Some E_io, j1\<lparr>jn_open := True\<rparr>)
                  else (Some E_io, j1\<lparr>jn_closed := True\<rparr>))
               else (Some E_io, j1))
            else (let j2 = j1\<lparr>jn_file := Some content\<rparr> in
              if reopen \<and> \<not> cf_reopen fate then (Some E_io, j2\<lparr>jn_closed := True\<rparr>)
              else (if cf_syncdir fate then None else Some E_io,
                    if reopen then j2\<lparr>jn_open := True\<rparr> else j2))))"

definition jsize :: "journal \<Rightarrow> nat" where
  "jsize j = length (file_bytes j)"

definition Compact ::
  "(jrec \<Rightarrow> bytes option) \<Rightarrow> int \<Rightarrow> compact_fate \<Rightarrow> journal
     \<Rightarrow> (nat \<times> nat \<times> jerror option) \<times> journal"
where
  "Compact mar now fate j =
     (if jn_closed j then ((0, 0, Some E_closed), j)
      else if jn_readOnly j then ((0, 0, Some E_readonly), j)
      else (case compact mar now fate j of
              (err, j') \<Rightarrow> ((jsize j, jsize j', err), j')))"

section \<open>Opening and closing\<close>

definition Open ::
  "(jrec \<Rightarrow> bytes option) \<Rightarrow> (bytes \<Rightarrow> jrec option) \<Rightarrow> int \<Rightarrow> replay_io \<Rightarrow> compact_fate \<Rightarrow> bool
     \<Rightarrow> bytes option \<Rightarrow> (jerror + journal) \<times> bytes option"
where
  "Open mar unm now io fate handle file =
     (case replay unm io [] file of
        Inl e \<Rightarrow> (Inl e, file)
      | Inr (m, d, file') \<Rightarrow>
          (let j = \<lparr>jn_mem = m, jn_open = False, jn_closed = False, jn_readOnly = False,
                    jn_discarded = d, jn_file = file'\<rparr> in
           case compact mar now fate j of
             (Some e, j') \<Rightarrow> (Inl e, jn_file j')
           | (None, j') \<Rightarrow>
               if handle then (Inr (j'\<lparr>jn_open := True\<rparr>), jn_file j')
               else (Inl E_io, jn_file j')))"

definition OpenReadOnly ::
  "(bytes \<Rightarrow> jrec option) \<Rightarrow> replay_io \<Rightarrow> bytes \<Rightarrow> bytes option
     \<Rightarrow> (jerror + journal) \<times> bytes option"
where
  "OpenReadOnly unm io extra file =
     (case replay unm io extra file of
        Inl e \<Rightarrow> (Inl e, map_option (\<lambda>bs. bs @ extra) file)
      | Inr (m, d, file') \<Rightarrow>
          (Inr \<lparr>jn_mem = m, jn_open = False, jn_closed = False, jn_readOnly = True,
                jn_discarded = d, jn_file = file'\<rparr>, file'))"

definition jClose :: "bool \<Rightarrow> bool \<Rightarrow> journal \<Rightarrow> jerror option \<times> journal" where
  "jClose sync_ok close_ok j =
     (if jn_closed j then (None, j)
      else if \<not> jn_open j then (None, j\<lparr>jn_closed := True\<rparr>)
      else (if sync_ok \<and> close_ok then None else Some E_io,
            j\<lparr>jn_closed := True, jn_open := False\<rparr>))"

end
