(* ===== verification/JournalProofs.thy ===== *)
theory JournalProofs imports JournalLog begin

text \<open>
  What the byte log promises.  \<open>rec_fine\<close> is what the code relies on of \<open>encoding/json\<close> for a
  record it writes: it marshals, to a line without a newline and within the limit of the reader,
  which unmarshals to the same record and none of whose proper prefixes is a JSON document.
\<close>

section \<open>Logs of records\<close>

definition rec_fine :: "(jrec \<Rightarrow> bytes option) \<Rightarrow> (bytes \<Rightarrow> jrec option) \<Rightarrow> jrec \<Rightarrow> bool" where
  "rec_fine mar unm r =
     (rec_ok r \<and>
      (case mar r of
         None \<Rightarrow> False
       | Some b \<Rightarrow> b \<noteq> [] \<and> newline \<notin> set b \<and> length b < maxLine \<and> unm b = Some r \<and>
           (\<forall>n \<in> set [0..<length b]. unm (take n b) = None)))"

definition log_of :: "(jrec \<Rightarrow> bytes option) \<Rightarrow> jrec list \<Rightarrow> bytes" where
  "log_of mar rs = concat (map (\<lambda>r. the (mar r) @ [newline]) rs)"

lemma log_of_simps [simp]:
  "log_of mar [] = []"
  "log_of mar (r # rs) = the (mar r) @ newline # log_of mar rs"
  "log_of mar (rs @ rs') = log_of mar rs @ log_of mar rs'"
  by (simp_all add: log_of_def)

lemma rec_fineE:
  assumes "rec_fine mar unm r"
  obtains b where "mar r = Some b" "b \<noteq> []" "newline \<notin> set b" "length b < maxLine"
    "unm b = Some r" "\<And>n. n < length b \<Longrightarrow> unm (take n b) = None" "rec_ok r"
  using assms by (auto simp: rec_fine_def split: option.splits)

lemma readLine_line:
  assumes "newline \<notin> set b" "length b < maxLine"
  shows "readLine (b @ newline # rest) = Line_ok b rest"
proof -
  have "\<forall>c \<in> set b. c \<noteq> newline" using assms(1) by auto
  note takeWhile_append_stop [OF this, of newline rest]
  with assms(2) show ?thesis by (simp add: readLine_def Let_def)
qed

lemma readLine_tail:
  assumes "newline \<notin> set b" "length b \<le> maxLine"
  shows "readLine b = Line_eof b"
proof -
  have t: "takeWhile (\<lambda>c. c \<noteq> newline) b = b" and d: "dropWhile (\<lambda>c. c \<noteq> newline) b = []"
    using assms(1) by (auto simp: takeWhile_eq_all_conv dropWhile_eq_Nil_conv)
  show ?thesis using assms(2) unfolding readLine_def t d by simp
qed

lemma scan_Nil [simp]: "scan unm sz [] off m = Some (m, off, 0)"
  by (subst scan.simps) (simp add: readLine_def)

lemma scan_record:
  assumes "rec_fine mar unm r"
  shows "scan unm sz (the (mar r) @ newline # rest) off m =
    scan unm sz rest (off + length (the (mar r)) + 1) (apply_rec r m)"
  using assms by (elim rec_fineE) (subst scan.simps, simp add: readLine_line)

lemma scan_log:
  assumes "\<forall>r \<in> set rs. rec_fine mar unm r"
  shows "scan unm sz (log_of mar rs @ rest) off m =
    scan unm sz rest (off + length (log_of mar rs)) (replay_mem rs m)"
  using assms
proof (induction rs arbitrary: off m)
  case Nil
  then show ?case by (simp add: replay_mem_def)
next
  case (Cons r rs)
  then have "scan unm sz (log_of mar (r # rs) @ rest) off m
      = scan unm sz (log_of mar rs @ rest) (off + length (the (mar r)) + 1) (apply_rec r m)"
    using scan_record [of mar unm r sz "log_of mar rs @ rest"] by simp
  with Cons show ?case by (simp add: replay_mem_def add.assoc)
qed

text \<open>A torn last line: nothing of it counts, unless it is the whole record.\<close>

lemma scan_torn:
  assumes r: "rec_fine mar unm r" and n: "n \<le> length (the (mar r))" and sz: "sz = off + n"
  shows "scan unm sz (take n (the (mar r))) off m =
    Some (if n = length (the (mar r)) then (apply_rec r m, off + n + 1, 0) else (m, off, 0))"
proof -
  from r obtain b where b: "mar r = Some b" "b \<noteq> []" "newline \<notin> set b" "length b < maxLine"
    "unm b = Some r" "\<And>n. n < length b \<Longrightarrow> unm (take n b) = None"
    by (rule rec_fineE) blast
  have "newline \<notin> set (take n b)" using b(3) by (meson in_set_takeD)
  then have line: "readLine (take n b) = Line_eof (take n b)"
    using b(4) by (intro readLine_tail) simp_all
  show ?thesis
  proof (cases "n = length b")
    case True
    with b line show ?thesis by (subst scan.simps) simp
  next
    case False
    with n b(1) have "n < length b" by simp
    with b line sz show ?thesis by (subst scan.simps) (auto simp: tailBytes_def)
  qed
qed

lemma replay_log:
  assumes "\<forall>r \<in> set rs. rec_fine mar unm r"
  shows "replay unm Replay_io_ok [] (Some (log_of mar rs)) =
    Inr (replay_mem rs empty_mem, 0, Some (log_of mar rs))"
  using scan_log [OF assms, of "length (log_of mar rs)" "[]" 0 empty_mem]
  by (simp add: replay_def)

lemma replay_torn:
  assumes rs: "\<forall>r \<in> set rs. rec_fine mar unm r" and r: "rec_fine mar unm r"
    and n: "n < length (the (mar r))"
  shows "replay unm Replay_io_ok [] (Some (log_of mar rs @ take n (the (mar r)))) =
    Inr (replay_mem rs empty_mem, 0, Some (log_of mar rs))"
proof -
  have len: "length (take n (the (mar r))) = n" using n by simp
  have "scan unm (length (log_of mar rs @ take n (the (mar r))))
      (log_of mar rs @ take n (the (mar r))) 0 empty_mem =
      Some (replay_mem rs empty_mem, length (log_of mar rs), 0)"
    using scan_torn [OF r, of n _ "length (log_of mar rs)" "replay_mem rs empty_mem"] n
    by (simp only: scan_log [OF rs]) simp
  then show ?thesis using len by (auto simp: replay_def truncate_to_def)
qed

lemma replay_whole_tail:
  assumes rs: "\<forall>r \<in> set rs. rec_fine mar unm r" and r: "rec_fine mar unm r"
  shows "replay unm Replay_io_ok [] (Some (log_of mar rs @ the (mar r))) =
    Inr (replay_mem (rs @ [r]) empty_mem, 0,
         Some (log_of mar rs @ the (mar r) @ [CHR 0x00]))"
proof -
  have "scan unm (length (log_of mar rs @ the (mar r)))
      (log_of mar rs @ the (mar r)) 0 empty_mem =
      Some (replay_mem (rs @ [r]) empty_mem, length (log_of mar rs @ the (mar r)) + 1, 0)"
    using scan_torn [OF r, of "length (the (mar r))" _ "length (log_of mar rs)"
        "replay_mem rs empty_mem"]
    by (simp only: scan_log [OF rs]) (simp add: replay_mem_def)
  then show ?thesis by (simp add: replay_def truncate_to_def)
qed

lemma view_replay_empty:
  assumes "\<forall>r \<in> set rs. rec_fine mar unm r"
  shows "view (replay_mem rs empty_mem) = fold aapply rs []"
proof -
  have "\<forall>r \<in> set rs. rec_ok r" using assms by (auto simp: rec_fine_def)
  from view_replay_mem(2) [OF mem_ok_empty this] show ?thesis by simp
qed

section \<open>The durability invariant\<close>

text \<open>An open journal whose file is exactly the records \<open>rs\<close>, and whose memory is what they
  replay to.\<close>

definition jinv ::
  "(jrec \<Rightarrow> bytes option) \<Rightarrow> (bytes \<Rightarrow> jrec option) \<Rightarrow> jrec list \<Rightarrow> journal \<Rightarrow> bool"
where
  "jinv mar unm rs j =
     (\<not> jn_closed j \<and> \<not> jn_readOnly j \<and> jn_open j \<and> jn_file j = Some (log_of mar rs) \<and>
      (\<forall>r \<in> set rs. rec_fine mar unm r) \<and> mem_ok (jn_mem j) \<and>
      view (jn_mem j) = fold aapply rs [])"

definition durable :: "(jrec \<Rightarrow> bytes option) \<Rightarrow> (bytes \<Rightarrow> jrec option) \<Rightarrow> journal \<Rightarrow> bool" where
  "durable mar unm j = (\<exists>rs. jinv mar unm rs j)"

text \<open>What a restart sees: the states a replay of the bytes on disk gives, in order.\<close>

definition replayed :: "(bytes \<Rightarrow> jrec option) \<Rightarrow> bytes option \<Rightarrow> state list option" where
  "replayed unm file =
     (case replay unm Replay_io_ok [] file of Inl _ \<Rightarrow> None | Inr (m, d, _) \<Rightarrow>
        if d = 0 then Some (view m) else None)"

lemma replayed_log:
  "\<forall>r \<in> set rs. rec_fine mar unm r \<Longrightarrow>
    replayed unm (Some (log_of mar rs)) = Some (fold aapply rs [])"
  by (simp add: replayed_def replay_log view_replay_empty)

lemma replayed_torn:
  "\<forall>r \<in> set rs. rec_fine mar unm r \<Longrightarrow> rec_fine mar unm r \<Longrightarrow> n < length (the (mar r)) \<Longrightarrow>
    replayed unm (Some (log_of mar rs @ take n (the (mar r)))) = Some (fold aapply rs [])"
  by (simp add: replayed_def replay_torn view_replay_empty)

lemma replayed_whole_tail:
  "\<forall>r \<in> set rs. rec_fine mar unm r \<Longrightarrow> rec_fine mar unm r \<Longrightarrow>
    replayed unm (Some (log_of mar rs @ the (mar r))) = Some (fold aapply (rs @ [r]) [])"
  using view_replay_empty [of "rs @ [r]" mar unm] by (simp add: replayed_def replay_whole_tail)

text \<open>However many bytes of a record's line have reached the disk, a replay sees the records
  before it, or those and this one.\<close>

lemma replayed_partial:
  assumes rs: "\<forall>r \<in> set rs. rec_fine mar unm r" and r: "rec_fine mar unm r"
  shows "replayed unm (Some (log_of mar rs @ take n (the (mar r) @ [newline]))) =
    Some (fold aapply (if n < length (the (mar r)) then rs else rs @ [r]) [])"
proof -
  consider "n < length (the (mar r))" | "n = length (the (mar r))"
    | "n > length (the (mar r))" by linarith
  then show ?thesis
  proof cases
    case 1
    with replayed_torn [OF rs r] show ?thesis by simp
  next
    case 2
    with replayed_whole_tail [OF rs r] show ?thesis by simp
  next
    case 3
    then have "log_of mar rs @ take n (the (mar r) @ [newline]) = log_of mar (rs @ [r])"
      by simp
    with replayed_log [of "rs @ [r]" mar unm] rs r 3 show ?thesis by simp
  qed
qed

lemma jinvD:
  assumes "jinv mar unm rs j"
  shows "\<not> jn_closed j" "\<not> jn_readOnly j" "jn_open j" "jn_file j = Some (log_of mar rs)"
    "\<forall>r \<in> set rs. rec_fine mar unm r" "mem_ok (jn_mem j)" "view (jn_mem j) = fold aapply rs []"
    "file_bytes j = log_of mar rs"
  using assms by (auto simp: jinv_def file_bytes_def)

lemma jinv_replayed:
  "jinv mar unm rs j \<Longrightarrow> replayed unm (jn_file j) = Some (view (jn_mem j))"
  by (simp add: jinvD replayed_log)

lemma jinv_apply:
  assumes j: "jinv mar unm rs j" and r: "rec_fine mar unm r"
  shows "jinv mar unm (rs @ [r])
    (apply_mem r (j\<lparr>jn_file := Some (log_of mar rs @ the (mar r) @ [newline])\<rparr>))"
proof -
  have "rec_ok r" using r by (simp add: rec_fine_def)
  from view_apply_rec [OF jinvD(6) [OF j] this] jinvD [OF j] r show ?thesis
    by (auto simp: jinv_def apply_mem_def)
qed

lemma append_ok:
  assumes "jinv mar unm rs j" and "rec_fine mar unm r"
  shows "append_rec mar Write_ok r j =
    (None, j\<lparr>jn_file := Some (log_of mar rs @ the (mar r) @ [newline])\<rparr>)"
  using assms by (elim rec_fineE) (simp add: append_rec_def jinvD)

lemma append_fails:
  assumes "jinv mar unm rs j" and "rec_fine mar unm r" and "fate \<noteq> Write_ok"
  obtains n where "append_rec mar fate r j =
    (Some E_io, j\<lparr>jn_file := Some (log_of mar rs @ take n (the (mar r) @ [newline]))\<rparr>)"
    "\<forall>k. fate = Write_short k True \<longrightarrow> n = 0"
    "fate = Write_nosync \<longrightarrow> n = length (the (mar r)) + 1"
proof -
  have "\<exists>n. append_rec mar fate r j =
      (Some E_io, j\<lparr>jn_file := Some (log_of mar rs @ take n (the (mar r) @ [newline]))\<rparr>)
      \<and> (\<forall>k. fate = Write_short k True \<longrightarrow> n = 0)
      \<and> (fate = Write_nosync \<longrightarrow> n = length (the (mar r)) + 1)"
  proof (cases fate)
    case Write_ok
    with assms(3) show ?thesis by simp
  next
    case (Write_short k t)
    with assms show ?thesis
      by (intro exI [of _ "if t then 0 else k"])
        (elim rec_fineE, simp add: append_rec_def jinvD)
  next
    case Write_nosync
    with assms show ?thesis
      by (intro exI [of _ "length (the (mar r)) + 1"])
        (elim rec_fineE, simp add: append_rec_def jinvD)
  qed
  with that show thesis by blast
qed

end
