(* ===== verification/JournalCompact.thy ===== *)
theory JournalCompact imports JournalProofs begin

text \<open>
  Compaction, purging and the well-formedness of live states: the facts behind the journal's
  properties that speak about more than one append.
\<close>

section \<open>The records the operations write\<close>

lemma create_record_fields [simp]:
  "rec_Op (create_record dir e bb) = op_create" "rec_MigrationID (create_record dir e bb) = en_MigrationID e"
  "rec_Entry (create_record dir e bb) = Some e" "rec_Direction (create_record dir e bb) = dir"
  "rec_BounceBack (create_record dir e bb) = Some bb" "rec_ok (create_record dir e bb)"
  by (simp_all add: create_record_def zero_rec_def rec_ok_def)

lemma status_record_fields [simp]:
  "rec_Op (status_record now k u) = op_status" "rec_MigrationID (status_record now k u) = k"
  "\<not> rec_Purge (status_record now k u)" "rec_Status (status_record now k u) = upd_Status u"
  "rec_Direction (status_record now k u) = upd_Direction u" "rec_ok (status_record now k u)"
  by (simp_all add: status_record_def rec_ok_def)

lemma purge_record_fields [simp]:
  "rec_Op (purge_record now k) = op_status" "rec_Purge (purge_record now k)"
  "rec_MigrationID (purge_record now k) = k" "rec_ok (purge_record now k)"
  by (simp_all add: purge_record_def zero_rec_def rec_ok_def)

lemma aapply_create:
  "aapply (create_record dir e bb) v =
     filter (\<lambda>st. \<not> same_id (en_MigrationID e) st) v @ [created_state (create_record dir e bb) e 0]"
  by (simp add: aapply_def)

lemma aapply_status:
  "aapply (status_record now k u) v =
     map (\<lambda>st. if same_id k st then core (apply_status (status_record now k u) st) else st) v"
  by (simp add: aapply_def)

lemma aapply_purge: "aapply (purge_record now k) v = filter (\<lambda>st. \<not> same_id k st) v"
  by (simp add: aapply_def)

section \<open>Well-formed live states\<close>

text \<open>
  What every live state satisfies and compaction relies on: an outbound entry has a handoff
  (a create record implies one), the retired handoff never survives a replay, a tombstone
  carries no payload, and the receipt fields are blank while no receipt was counted.
\<close>

definition st_wf :: "state \<Rightarrow> bool" where
  "st_wf st =
     ((st_Direction st = D_out \<longrightarrow> st_Handoff st \<noteq> H_empty) \<and>
      st_Handoff st \<noteq> H_retired_held \<and> st_Status st \<noteq> S_empty \<and>
      (st_Status st = S_done \<longrightarrow> en_Payload (st_Entry st) = []) \<and>
      0 \<le> st_ForwardReceipts st \<and>
      (st_ForwardReceipts st = 0 \<longrightarrow> st_ReceiptSessionID st = [] \<and> st_ReceiptDestSlot st = 0 \<and>
         st_ReceiptForwardedAtMs st = 0))"

text \<open>What every \<open>journal.Update\<close> literal of the sidecar satisfies: it never turns an entry
  outbound, and it writes the receipt block only together with a positive count.\<close>

definition upd_wf :: "upd \<Rightarrow> bool" where
  "upd_wf u =
     (upd_Direction u \<noteq> D_out \<and>
      (case upd_ForwardReceipts u of
         None \<Rightarrow> upd_ReceiptSessionID u = None \<and> upd_ReceiptDestSlot u = None \<and>
           upd_ReceiptForwardedAtMs u = None
       | Some n \<Rightarrow> 0 < n))"

lemma st_wf_core [simp]: "st_wf (core st) = st_wf st"
  by (simp add: st_wf_def core_def)

lemma created_state_wf [simp]: "rec_Direction r \<in> {D_out, D_in} \<Longrightarrow> st_wf (created_state r e n)"
  by (auto simp: st_wf_def created_state_def)

lemma apply_status_wf:
  assumes "st_wf st" and "upd_wf u"
  shows "st_wf (apply_status (status_record now k u) st)"
proof -
  have h: "apply_handoff (status_record now k u) st d \<noteq> H_retired_held" for d
    using assms(1) by (auto simp: apply_handoff_def status_record_def st_wf_def)
  have h': "apply_handoff (status_record now k u) st d \<noteq> H_empty"
    if "st_Handoff st \<noteq> H_empty" for d
    using that by (auto simp: apply_handoff_def status_record_def)
  have d: "(if upd_Direction u \<noteq> D_empty then upd_Direction u else st_Direction st) = D_out \<Longrightarrow>
      st_Handoff st \<noteq> H_empty"
    using assms by (auto simp: st_wf_def upd_wf_def split: if_splits)
  have r: "0 \<le> deref_or (upd_ForwardReceipts u) (st_ForwardReceipts st)"
    using assms by (auto simp: st_wf_def upd_wf_def split: option.splits)
  have r': "deref_or (upd_ForwardReceipts u) (st_ForwardReceipts st) = 0 \<Longrightarrow>
      upd_ForwardReceipts u = None \<and> st_ForwardReceipts st = 0"
    using assms(2) by (auto simp: upd_wf_def split: option.splits)
  show ?thesis
    unfolding st_wf_def
  proof (intro conjI impI)
    show "0 \<le> st_ForwardReceipts (apply_status (status_record now k u) st)"
      using r by (simp add: status_record_def)
  qed (use assms h h' d r' in \<open>auto simp: status_record_def st_wf_def upd_wf_def
        split: if_splits\<close>)
qed

section \<open>One state survives its own compaction\<close>

lemma compact_status_restores:
  assumes "st_wf st"
  shows "core (apply_status (compact_status now st)
           (created_state (compact_create st) (st_Entry st) n)) = core st"
proof -
  let ?st = "apply_status (compact_status now st) (created_state (compact_create st) (st_Entry st) n)"
  have entry: "st_Entry ?st = st_Entry st"
    using assms by (intro entry.equality)
      (auto simp: apply_status_def compact_status_def st_wf_def Let_def)
  have handoff: "st_Handoff ?st = st_Handoff st"
    using assms by (auto simp: compact_status_def apply_handoff_def st_wf_def
        compact_create_def create_record_def zero_rec_def)
  show ?thesis
    unfolding core_def
  proof (rule state.equality)
    show "st_Entry (?st\<lparr>st_seq := 0\<rparr>) = st_Entry (st\<lparr>st_seq := 0\<rparr>)" using entry by simp
    show "st_Handoff (?st\<lparr>st_seq := 0\<rparr>) = st_Handoff (st\<lparr>st_seq := 0\<rparr>)" using handoff by simp
  qed (use assms in \<open>auto simp: apply_status_def compact_status_def st_wf_def Let_def
        created_state_def compact_create_def create_record_def zero_rec_def\<close>)
qed

lemma aapply_compact:
  assumes st: "st_wf st" and new: "\<forall>x \<in> set v. st_id x \<noteq> st_id st"
  shows "aapply (compact_status now st) (aapply (compact_create st) v) = v @ [core st]"
proof -
  have create: "aapply (compact_create st) v = v @ [created_state (compact_create st) (st_Entry st) 0]"
    using new by (simp add: aapply_def compact_create_def create_record_def zero_rec_def same_id_def)
  have status: "aapply (compact_status now st) w =
      map (\<lambda>x. if st_id x = st_id st then core (apply_status (compact_status now st) x) else x) w" for w
    by (simp add: aapply_def same_id_def compact_status_def)
  have other: "map (\<lambda>x. if st_id x = st_id st then g x else x) v = v" for g
    using new by (intro map_idI) simp
  show ?thesis
    by (simp only: create status map_append other)
      (simp add: compact_status_restores [OF st])
qed

lemma aapply_compact_all:
  assumes "\<forall>st \<in> set sts. st_wf st" and "distinct (map st_id sts)"
    and "\<forall>x \<in> set v. st_id x \<notin> st_id ` set sts"
  shows "fold aapply (compact_records now sts) v = v @ map core sts"
  using assms
proof (induction sts arbitrary: v)
  case (Cons st sts)
  have "fold aapply (compact_records now (st # sts)) v
      = fold aapply (compact_records now sts)
          (aapply (compact_status now st) (aapply (compact_create st) v))"
    by (simp add: compact_records_def)
  also have "aapply (compact_status now st) (aapply (compact_create st) v) = v @ [core st]"
    using Cons.prems by (intro aapply_compact) auto
  also have "fold aapply (compact_records now sts) (v @ [core st]) = (v @ [core st]) @ map core sts"
    using Cons.prems by (intro Cons.IH) auto
  finally show ?case by simp
qed (simp add: compact_records_def)

section \<open>The rewritten file\<close>

lemma write_records_log:
  "\<forall>r \<in> set rs. rec_fine mar unm r \<Longrightarrow> write_records mar rs = Some (log_of mar rs)"
proof (induction rs)
  case (Cons r rs)
  then show ?case by (auto elim!: rec_fineE)
qed simp

lemma ordered_distinct_ids:
  assumes "mem_ok m"
  shows "distinct (map st_id (ordered m))"
proof -
  have "map st_id (map snd (jm_states m)) = map fst (jm_states m)"
    using mem_ok_key [OF assms] by auto
  then have "distinct (map st_id (map snd (jm_states m)))"
    using mem_ok_map [OF assms] unfolding map_ok_def by metis
  moreover have "mset (map st_id (ordered m)) = mset (map st_id (map snd (jm_states m)))"
    by (simp only: mset_map ordered_props(3) [OF assms])
  ultimately show ?thesis by (metis mset_eq_imp_distinct_iff)
qed

lemma compact_records_view:
  assumes "mem_ok m" and "\<forall>st \<in> set (ordered m). st_wf st"
  shows "fold aapply (compact_records now (ordered m)) [] = view m"
  using aapply_compact_all [OF assms(2) ordered_distinct_ids [OF assms(1)], of "[]" now]
  by (simp add: view_def)

text \<open>Every outcome of a compaction: the file is the old one or the rewritten one, the memory
  is untouched, and the journal either still has its append handle or refuses every later
  write.\<close>

lemma compact_outcome:
  assumes j: "jinv mar unm rs j"
    and fine: "\<forall>r \<in> set (compact_records now (ordered (jn_mem j))). rec_fine mar unm r"
    and res: "compact mar now fate j = (err, j')"
  shows "jn_mem j' = jn_mem j" "\<not> jn_readOnly j'"
    "jn_file j' = Some (log_of mar rs) \<or>
     jn_file j' = Some (log_of mar (compact_records now (ordered (jn_mem j))))"
    "jn_closed j' = (\<not> jn_open j')"
    "err = None \<Longrightarrow> jn_open j' \<and>
     jn_file j' = Some (log_of mar (compact_records now (ordered (jn_mem j))))"
  using res jinvD [OF j]
  by (auto simp: compact_def write_records_log [OF fine] Let_def split: if_splits)

section \<open>Purging\<close>

lemma purge_loop_ok:
  assumes "jinv mar unm rs j"
    and "\<forall>st \<in> set sts. purge_candidate cutoff st \<longrightarrow> rec_fine mar unm (purge_record now (st_id st))"
    and "\<forall>n. fates n = Write_ok"
    and "purge_loop mar fates now cutoff sts n j = ((n', err), j')"
  shows "err = None \<and> n' = n + length (filter (purge_candidate cutoff) sts) \<and>
    (\<exists>rs'. jinv mar unm rs' j') \<and>
    view (jn_mem j') = filter (\<lambda>x. st_id x \<notin> st_id ` set (filter (purge_candidate cutoff) sts))
                         (view (jn_mem j))"
  using assms
proof (induction sts arbitrary: rs j n)
  case Nil
  then show ?case by auto
next
  case (Cons st sts)
  show ?case
  proof (cases "purge_candidate cutoff st")
    case False
    with Cons show ?thesis by simp
  next
    case True
    let ?r = "purge_record now (st_id st)"
    let ?j = "apply_mem ?r (j\<lparr>jn_file := Some (log_of mar rs @ the (mar ?r) @ [newline])\<rparr>)"
    have fine: "rec_fine mar unm ?r" using Cons.prems(2) True by simp
    have j1: "jinv mar unm (rs @ [?r]) ?j" by (rule jinv_apply [OF Cons.prems(1) fine])
    have app: "append_rec mar (fates n) ?r j =
        (None, j\<lparr>jn_file := Some (log_of mar rs @ the (mar ?r) @ [newline])\<rparr>)"
      using append_ok [OF Cons.prems(1) fine] Cons.prems(3) by simp
    have loop: "purge_loop mar fates now cutoff sts (n + 1) ?j = ((n', err), j')"
      using Cons.prems(4) True app by (simp add: Let_def)
    have view: "view (jn_mem ?j) = filter (\<lambda>x. \<not> same_id (st_id st) x) (view (jn_mem j))"
      using jinvD(7) [OF j1] jinvD(7) [OF Cons.prems(1)] by (simp add: aapply_purge)
    have fine': "\<forall>st \<in> set sts. purge_candidate cutoff st \<longrightarrow>
        rec_fine mar unm (purge_record now (st_id st))"
      using Cons.prems(2) by simp
    from Cons.IH [OF j1 fine' Cons.prems(3) loop] True show ?thesis
      by (auto simp: view same_id_def intro: filter_cong)
  qed
qed

text \<open>Whatever the disk does, a purge removes nothing but candidates and adds nothing.\<close>

lemma purge_loop_sub:
  assumes "mem_ok (jn_mem j)"
    and "purge_loop mar fates now cutoff sts n j = ((n', err), j')"
  shows "mem_ok (jn_mem j') \<and> set (view (jn_mem j')) \<subseteq> set (view (jn_mem j)) \<and>
    (\<forall>x \<in> set (view (jn_mem j)).
       st_id x \<notin> st_id ` set (filter (purge_candidate cutoff) sts) \<longrightarrow> x \<in> set (view (jn_mem j')))"
  using assms
proof (induction sts arbitrary: j n)
  case Nil
  then show ?case by auto
next
  case (Cons st sts)
  let ?r = "purge_record now (st_id st)"
  show ?case
  proof (cases "purge_candidate cutoff st")
    case False
    with Cons show ?thesis by simp
  next
    case True
    obtain err1 j1 where app: "append_rec mar (fates n) ?r j = (err1, j1)"
      by (cases "append_rec mar (fates n) ?r j")
    have mem: "jn_mem j1 = jn_mem j"
      using app by (auto simp: append_rec_def Let_def split: option.splits if_splits write_fate.splits)
    show ?thesis
    proof (cases err1)
      case (Some e)
      with Cons.prems app True mem show ?thesis by auto
    next
      case None
      have step: "mem_ok (jn_mem (apply_mem ?r j1))"
        "view (jn_mem (apply_mem ?r j1)) = filter (\<lambda>x. \<not> same_id (st_id st) x) (view (jn_mem j))"
        using view_apply_rec [of "jn_mem j" ?r] Cons.prems(1) mem
        by (simp_all add: apply_mem_def aapply_purge)
      have loop: "purge_loop mar fates now cutoff sts (n + 1) (apply_mem ?r j1) = ((n', err), j')"
        using Cons.prems(2) True app None by (simp add: Let_def)
      from Cons.IH [OF step(1) loop] step(2) True show ?thesis
        by (auto simp: same_id_def)
    qed
  qed
qed

end
