(* ===== verification/JournalProps.thy ===== *)
theory JournalProps imports JournalCompact begin

text \<open>
  The properties of the custody log: what an acknowledged write survives, what a crash, a
  compaction, a purge and a legacy record can do to it, and the four ways in which the file
  can still lose or resurrect a record.
\<close>

section \<open>Runs of a journal\<close>

datatype jop =
    Op_create write_fate direction entry bool
  | Op_apply write_fate int bytes upd
  | Op_purge "nat \<Rightarrow> write_fate" duration time
  | Op_compact int compact_fate

definition jstep :: "(jrec \<Rightarrow> bytes option) \<Rightarrow> jop \<Rightarrow> journal \<Rightarrow> journal" where
  "jstep mar opn j =
     (case opn of
        Op_create fate dir e bb \<Rightarrow> snd (jCreate mar fate dir e bb j)
      | Op_apply fate now k u \<Rightarrow> snd (jApply mar fate now k u j)
      | Op_purge fates ret now \<Rightarrow> snd (PurgeExpired mar fates ret now j)
      | Op_compact now fate \<Rightarrow> snd (Compact mar now fate j))"

text \<open>A write that lands, or one that fails and is cut back to the length before it.\<close>

definition clean_fate :: "write_fate \<Rightarrow> bool" where
  "clean_fate f = (case f of Write_ok \<Rightarrow> True | Write_short n t \<Rightarrow> t | Write_nosync \<Rightarrow> False)"

definition op_fine ::
  "(jrec \<Rightarrow> bytes option) \<Rightarrow> (bytes \<Rightarrow> jrec option) \<Rightarrow> jop \<Rightarrow> journal \<Rightarrow> bool"
where
  "op_fine mar unm opn j =
     (case opn of
        Op_create fate dir e bb \<Rightarrow>
          clean_fate fate \<and> dir \<in> {D_out, D_in} \<and> rec_fine mar unm (create_record dir e bb)
      | Op_apply fate now k u \<Rightarrow>
          clean_fate fate \<and> upd_wf u \<and> rec_fine mar unm (status_record now k u)
      | Op_purge fates ret now \<Rightarrow>
          (\<forall>n. clean_fate (fates n)) \<and>
          (\<forall>st \<in> set (jList j). rec_fine mar unm (purge_record now (st_id st)))
      | Op_compact now fate \<Rightarrow>
          (\<forall>r \<in> set (compact_records now (jList j)). rec_fine mar unm r))"

definition fresh_journal :: journal where
  "fresh_journal = \<lparr>jn_mem = empty_mem, jn_open = True, jn_closed = False,
     jn_readOnly = False, jn_discarded = 0, jn_file = Some []\<rparr>"

inductive jreach :: "(jrec \<Rightarrow> bytes option) \<Rightarrow> (bytes \<Rightarrow> jrec option) \<Rightarrow> journal \<Rightarrow> bool"
  for mar unm where
  fresh: "jreach mar unm fresh_journal"
| step: "jreach mar unm j \<Longrightarrow> op_fine mar unm opn j \<Longrightarrow> jreach mar unm (jstep mar opn j)"

section \<open>The invariant of a run\<close>

text \<open>The durability invariant, also for a journal that closed itself after a compaction lost
  its handle.\<close>

definition jrun_inv ::
  "(jrec \<Rightarrow> bytes option) \<Rightarrow> (bytes \<Rightarrow> jrec option) \<Rightarrow> journal \<Rightarrow> bool"
where
  "jrun_inv mar unm j =
     ((\<exists>rs. jn_file j = Some (log_of mar rs) \<and> (\<forall>r \<in> set rs. rec_fine mar unm r) \<and>
            view (jn_mem j) = fold aapply rs []) \<and>
      mem_ok (jn_mem j) \<and> \<not> jn_readOnly j \<and> jn_closed j = (\<not> jn_open j) \<and>
      (\<forall>st \<in> set (view (jn_mem j)). st_wf st))"

lemma jrun_inv_jinv:
  assumes "jrun_inv mar unm j" and "\<not> jn_closed j"
  obtains rs where "jinv mar unm rs j"
  using assms by (auto simp: jrun_inv_def jinv_def)

lemma jrun_inv_wf: "jrun_inv mar unm j \<Longrightarrow> \<forall>st \<in> set (view (jn_mem j)). st_wf st"
  unfolding jrun_inv_def by blast

lemma jinv_jrun_inv:
  "jinv mar unm rs j \<Longrightarrow> \<forall>st \<in> set (view (jn_mem j)). st_wf st \<Longrightarrow> jrun_inv mar unm j"
  by (auto simp: jrun_inv_def jinv_def)

lemma append_clean:
  assumes j: "jinv mar unm rs j" and r: "rec_fine mar unm r" and f: "clean_fate fate"
  shows "append_rec mar fate r j =
      (None, j\<lparr>jn_file := Some (log_of mar rs @ the (mar r) @ [newline])\<rparr>) \<or>
    append_rec mar fate r j = (Some E_io, j)"
proof (cases "fate = Write_ok")
  case True
  then show ?thesis using append_ok [OF j r] by simp
next
  case False
  then obtain k where "fate = Write_short k True"
    using f by (cases fate) (auto simp: clean_fate_def)
  with append_fails [OF j r False] show ?thesis
    using jinvD(4) [OF j] by (metis append_Nil2 journal.unfold_congs(6) journal.update_convs(6)
        journal.surjective take0)
qed

text \<open>One durable record keeps the invariant when it keeps the states well formed.\<close>

lemma aapply_status_wf:
  assumes "\<forall>st \<in> set v. st_wf st" and "upd_wf u"
  shows "\<forall>st \<in> set (aapply (status_record now k u) v). st_wf st"
  using assms by (auto simp: aapply_status apply_status_wf)

lemma aapply_create_wf:
  assumes "\<forall>st \<in> set v. st_wf st" and "dir \<in> {D_out, D_in}"
  shows "\<forall>st \<in> set (aapply (create_record dir e bb) v). st_wf st"
  using assms by (auto simp: aapply_create)

lemma record_step_inv:
  assumes j: "jinv mar unm rs j" and wf: "\<forall>st \<in> set (view (jn_mem j)). st_wf st"
    and r: "rec_fine mar unm r"
    and wf': "\<forall>st \<in> set (aapply r (view (jn_mem j))). st_wf st"
  shows "jrun_inv mar unm
    (apply_mem r (j\<lparr>jn_file := Some (log_of mar rs @ the (mar r) @ [newline])\<rparr>))"
proof -
  note j' = jinv_apply [OF j r]
  have "view (apply_rec r (jn_mem j)) = aapply r (view (jn_mem j))"
    using view_apply_rec(2) [OF jinvD(6) [OF j]] r by (simp add: rec_fine_def)
  with wf' show ?thesis by (intro jinv_jrun_inv [OF j']) (simp add: apply_mem_def)
qed

lemma create_inv:
  assumes inv: "jrun_inv mar unm j" and f: "clean_fate fate" and d: "dir \<in> {D_out, D_in}"
    and r: "rec_fine mar unm (create_record dir e bb)"
  shows "jrun_inv mar unm (snd (jCreate mar fate dir e bb j))"
proof (cases "jn_closed j \<or> lookup (jn_mem j) (en_MigrationID e) \<noteq> None")
  case True
  with inv show ?thesis by (auto simp: jCreate_def)
next
  case False
  with inv obtain rs where j: "jinv mar unm rs j" by (metis jrun_inv_jinv)
  have wf: "\<forall>st \<in> set (view (jn_mem j)). st_wf st" using inv by (simp add: jrun_inv_def)
  from append_clean [OF j r f] record_step_inv [OF j wf r aapply_create_wf [OF wf d]] False inv
  show ?thesis by (auto simp: jCreate_def Let_def)
qed

lemma apply_inv:
  assumes inv: "jrun_inv mar unm j" and f: "clean_fate fate" and u: "upd_wf u"
    and r: "rec_fine mar unm (status_record now k u)"
  shows "jrun_inv mar unm (snd (jApply mar fate now k u j))"
proof (cases "jn_closed j \<or> lookup (jn_mem j) k = None")
  case True
  with inv show ?thesis by (auto simp: jApply_def)
next
  case False
  with inv obtain rs where j: "jinv mar unm rs j" by (metis jrun_inv_jinv)
  have wf: "\<forall>st \<in> set (view (jn_mem j)). st_wf st" using inv by (simp add: jrun_inv_def)
  from append_clean [OF j r f] record_step_inv [OF j wf r aapply_status_wf [OF wf u]] False inv
  show ?thesis by (auto simp: jApply_def Let_def split: option.splits)
qed

lemma purge_loop_inv:
  assumes "jinv mar unm rs j" and "\<forall>st \<in> set (view (jn_mem j)). st_wf st"
    and "\<forall>st \<in> set sts. rec_fine mar unm (purge_record now (st_id st))"
    and "\<forall>n. clean_fate (fates n)"
  shows "jrun_inv mar unm (snd (purge_loop mar fates now cutoff sts n j))"
  using assms
proof (induction sts arbitrary: rs j n)
  case Nil
  then show ?case by (simp add: jinv_jrun_inv)
next
  case (Cons st sts)
  let ?r = "purge_record now (st_id st)"
  let ?j = "apply_mem ?r (j\<lparr>jn_file := Some (log_of mar rs @ the (mar ?r) @ [newline])\<rparr>)"
  have r: "rec_fine mar unm ?r" using Cons.prems(3) by simp
  have wf: "\<forall>st \<in> set (aapply ?r (view (jn_mem j))). st_wf st"
    using Cons.prems(2) by (simp add: aapply_purge)
  have "jrun_inv mar unm ?j" by (rule record_step_inv [OF Cons.prems(1,2) r wf])
  then have wf': "\<forall>st \<in> set (view (jn_mem ?j)). st_wf st" by (rule jrun_inv_wf)
  have fine': "\<forall>st \<in> set sts. rec_fine mar unm (purge_record now (st_id st))"
    using Cons.prems(3) by simp
  note next_j = Cons.IH [OF jinv_apply [OF Cons.prems(1) r] wf' fine' Cons.prems(4)]
  show ?case
  proof (cases "purge_candidate cutoff st")
    case False
    with Cons.IH [OF Cons.prems(1,2) fine' Cons.prems(4)] show ?thesis by simp
  next
    case True
    from append_clean [OF Cons.prems(1) r, of "fates n"] Cons.prems(4) True next_j
      jinv_jrun_inv [OF Cons.prems(1,2)]
    show ?thesis by (auto simp: Let_def)
  qed
qed

lemma purge_inv:
  assumes inv: "jrun_inv mar unm j" and f: "\<forall>n. clean_fate (fates n)"
    and r: "\<forall>st \<in> set (jList j). rec_fine mar unm (purge_record now (st_id st))"
  shows "jrun_inv mar unm (snd (PurgeExpired mar fates ret now j))"
proof (cases "jn_closed j")
  case True
  with inv show ?thesis by (simp add: PurgeExpired_def)
next
  case False
  with inv obtain rs where j: "jinv mar unm rs j" by (metis jrun_inv_jinv)
  have wf: "\<forall>st \<in> set (view (jn_mem j)). st_wf st" using inv by (simp add: jrun_inv_def)
  from purge_loop_inv [OF j wf, of "ordered (jn_mem j)"] f r False show ?thesis
    by (simp add: PurgeExpired_def jList_def)
qed

lemma compact_inv:
  assumes inv: "jrun_inv mar unm j"
    and r: "\<forall>r \<in> set (compact_records now (jList j)). rec_fine mar unm r"
  shows "jrun_inv mar unm (snd (Compact mar now fate j))"
proof (cases "jn_closed j")
  case True
  with inv show ?thesis by (simp add: Compact_def)
next
  case False
  with inv obtain rs where j: "jinv mar unm rs j" by (metis jrun_inv_jinv)
  obtain err j' where c: "compact mar now fate j = (err, j')"
    by (cases "compact mar now fate j")
  note fine = r [unfolded jList_def]
  note out = compact_outcome [OF j fine c]
  have wf: "\<forall>st \<in> set (ordered (jn_mem j)). st_wf st"
    using inv by (simp add: jrun_inv_def view_def)
  note cview = compact_records_view [OF jinvD(6) [OF j] wf, of now]
  have "jrun_inv mar unm j'"
    unfolding jrun_inv_def
  proof (intro conjI)
    show "\<exists>rs. jn_file j' = Some (log_of mar rs) \<and> (\<forall>r \<in> set rs. rec_fine mar unm r) \<and>
        view (jn_mem j') = fold aapply rs []"
      using out(1,3) cview fine jinvD(5,7) [OF j] by metis
    show "mem_ok (jn_mem j')" "\<forall>st \<in> set (view (jn_mem j')). st_wf st"
      using out(1) inv by (simp_all add: jrun_inv_def)
    show "\<not> jn_readOnly j'" "jn_closed j' = (\<not> jn_open j')" using out(2,4) by simp_all
  qed
  with False c jinvD(2) [OF j] show ?thesis by (simp add: Compact_def)
qed

lemma fresh_inv: "jrun_inv mar unm fresh_journal"
  unfolding jrun_inv_def
proof (intro conjI)
  show "\<exists>rs. jn_file fresh_journal = Some (log_of mar rs) \<and>
      (\<forall>r \<in> set rs. rec_fine mar unm r) \<and> view (jn_mem fresh_journal) = fold aapply rs []"
    by (intro exI [of _ "[]"]) (simp add: fresh_journal_def)
qed (simp_all add: fresh_journal_def)

lemma jreach_inv: "jreach mar unm j \<Longrightarrow> jrun_inv mar unm j"
proof (induction rule: jreach.induct)
  case fresh
  show ?case by (rule fresh_inv)
next
  case (step j opn)
  then show ?case
    by (cases opn)
      (auto simp: jstep_def op_fine_def create_inv apply_inv purge_inv compact_inv)
qed

section \<open>A concrete codec for the witnesses\<close>

definition sample_entry :: "bytes \<Rightarrow> bytes \<Rightarrow> entry" where
  "sample_entry migrationId sourcePeer =
     \<lparr>en_MigrationID = migrationId, en_EntityID = 7, en_Kind = ''bibite'',
      en_GameVersion = ''0.6'', en_Payload = ''{}'', en_PayloadHash = ''h'', en_Edge = ''E'',
      en_Position = Fin 0, en_VelocityX = Fin 1, en_VelocityY = Fin 0, en_Heading = Fin 0,
      en_SimulationSize = Fin 500, en_SimTick = 1, en_SourcePeer = sourcePeer, en_SourceSlot = 1,
      en_DestSlot = 2, en_GenomeHash = [], en_Parents = [], en_Species = None,
      en_JournaledAt = 100\<rparr>"

text \<open>A codec that knows two records and refuses to marshal any other.\<close>

definition two_mar :: "jrec \<Rightarrow> jrec \<Rightarrow> jrec \<Rightarrow> bytes option" where
  "two_mar a b r = (if r = a then Some ''a'' else if r = b then Some ''bb'' else None)"

definition two_unm :: "jrec \<Rightarrow> jrec \<Rightarrow> bytes \<Rightarrow> jrec option" where
  "two_unm a b l = (if l = ''a'' then Some a else if l = ''bb'' then Some b else None)"

lemma two_codec_fine:
  "rec_ok a \<Longrightarrow> rec_fine (two_mar a b) (two_unm a b) a"
  "rec_ok b \<Longrightarrow> a \<noteq> b \<Longrightarrow> rec_fine (two_mar a b) (two_unm a b) b"
  by (auto simp: rec_fine_def two_mar_def two_unm_def newline_def maxLine_def MaxFrameBytes_def
      upt_rec less_Suc_eq)

lemma fresh_jinv: "jinv mar unm [] fresh_journal"
  by (simp add: jinv_def fresh_journal_def)

lemma view_filter_absent:
  assumes "mem_ok m" and "lookup m k = None"
  shows "filter (\<lambda>st. \<not> same_id k st) (view m) = view m"
proof -
  have "find (same_id k) (view m) = None"
    using lookup_view [OF assms(1), of k] assms(2) by simp
  then show ?thesis by (simp add: find_None_iff filter_id_conv)
qed

lemma find_append_filter:
  "filter (\<lambda>x. \<not> P x) xs = xs \<Longrightarrow> find P (xs @ ys) = find P ys"
  by (induction xs) (auto split: if_splits dest: filter_eq_ConsD)

section \<open>Durability\<close>

text \<open>C1: THE LOG IS THE MEMORY WHILE FAILED WRITES ARE UNDONE.  Take any run of the journal from an empty log:
  creations, status updates, purges and compactions, each of which may fail, as long as a write that fails leaves
  no byte of its record in the file (it was refused, or what was written of it was truncated away again; no sync
  failed after the whole record, and no truncation failed).  Then what a restart would replay from the file is
  exactly the list of live states in memory, no record is ever discarded, and every state is well formed.
  The two failures left out do break this: \<open>failed_sync_resurrects\<close> and \<open>failed_truncation_loses_next_record\<close>.\<close>

theorem custody_log_run:
  assumes "jreach mar unm j"
  shows "replayed unm (jn_file j) = Some (view (jn_mem j)) \<and>
    (\<forall>st \<in> set (jList j). st_wf st) \<and> jn_closed j = (\<not> jn_open j)"
proof -
  have inv: "jrun_inv mar unm j" using assms by (rule jreach_inv)
  then show ?thesis by (auto simp: jrun_inv_def replayed_log view_def jList_def)
qed

lemma custody_log_run_witness:
  "let e = sample_entry ''m1'' []; r = create_record D_out e False;
       j = snd (jCreate (two_mar r r) Write_ok D_out e False fresh_journal)
   in replayed (two_unm r r) (jn_file j) = Some (view (jn_mem j)) \<and>
    (\<forall>st \<in> set (jList j). st_wf st) \<and> jn_closed j = (\<not> jn_open j)"
proof -
  define e where "e = sample_entry ''m1'' []"
  define r where "r = create_record D_out e False"
  have "op_fine (two_mar r r) (two_unm r r) (Op_create Write_ok D_out e False) fresh_journal"
    by (simp add: op_fine_def clean_fate_def r_def two_codec_fine)
  from jreach.step [OF jreach.fresh this]
  have "jreach (two_mar r r) (two_unm r r)
      (snd (jCreate (two_mar r r) Write_ok D_out e False fresh_journal))"
    by (simp add: jstep_def)
  from custody_log_run [OF this] show ?thesis by (simp add: Let_def e_def r_def)
qed

text \<open>C3: \<open>Create\<close> returns without an error only when the migration is durable: a restart
  replays the live states followed by the new one, and the returned copy is that state.  On an
  error the memory is unchanged, the error is \<open>ErrDuplicate\<close> exactly when the id was already
  journaled, and after any write failure whose truncation worked the file is the old one.\<close>

theorem create_ack_durable:
  assumes "durable mar unm j" and "rec_fine mar unm (create_record dir e bb)"
    and "jCreate mar fate dir e bb j = (res, j')"
  shows "case res of
      Inr s \<Rightarrow> durable mar unm j' \<and>
        replayed unm (jn_file j') =
          Some (view (jn_mem j) @ [created_state (create_record dir e bb) e 0]) \<and>
        map_option core s = Some (created_state (create_record dir e bb) e 0)
    | Inl err \<Rightarrow> jn_mem j' = jn_mem j \<and>
        (err = E_duplicate) = (lookup (jn_mem j) (en_MigrationID e) \<noteq> None) \<and>
        (clean_fate fate \<longrightarrow> durable mar unm j' \<and> jn_file j' = jn_file j)"
proof -
  let ?r = "create_record dir e bb"
  from assms(1) obtain rs where j: "jinv mar unm rs j" by (auto simp: durable_def)
  note d = jinvD [OF j]
  show ?thesis
  proof (cases "lookup (jn_mem j) (en_MigrationID e)")
    case (Some st)
    with assms d(1) show ?thesis by (auto simp: jCreate_def)
  next
    case None
    show ?thesis
    proof (cases "fate = Write_ok")
      case True
      let ?j = "apply_mem ?r (j\<lparr>jn_file := Some (log_of mar rs @ the (mar ?r) @ [newline])\<rparr>)"
      have j1: "jinv mar unm (rs @ [?r]) ?j" by (rule jinv_apply [OF j assms(2)])
      have out: "j' = ?j" "res = Inr (state_of ?j (en_MigrationID e))"
        using assms(3) None d(1) True append_ok [OF j assms(2)]
        by (auto simp: jCreate_def Let_def)
      have new: "filter (\<lambda>st. \<not> same_id (en_MigrationID e) st) (view (jn_mem j)) = view (jn_mem j)"
        by (rule view_filter_absent [OF d(6) None])
      have v: "view (jn_mem ?j) = view (jn_mem j) @ [created_state ?r e 0]"
        using view_apply_rec(2) [OF d(6), of ?r] new
        by (simp add: apply_mem_def aapply_create)
      have "map_option core (lookup (jn_mem ?j) (en_MigrationID e))
          = find (same_id (en_MigrationID e)) (view (jn_mem ?j))"
        by (rule lookup_view [OF jinvD(6) [OF j1]])
      also have "\<dots> = Some (created_state ?r e 0)"
        using new by (simp add: v find_append_filter same_id_def)
      finally have s: "map_option core (state_of ?j (en_MigrationID e)) = Some (created_state ?r e 0)"
        by (simp add: state_of_def)
      show ?thesis
        using jinv_replayed [OF j1] j1 v s unfolding out by (auto simp: durable_def)
    next
      case False
      then obtain n where n: "append_rec mar fate ?r j =
          (Some E_io, j\<lparr>jn_file := Some (log_of mar rs @ take n (the (mar ?r) @ [newline]))\<rparr>)"
        "\<forall>k. fate = Write_short k True \<longrightarrow> n = 0"
        by (rule append_fails [OF j assms(2)])
      have out: "res = Inl E_io"
        "j' = j\<lparr>jn_file := Some (log_of mar rs @ take n (the (mar ?r) @ [newline]))\<rparr>"
        using assms(3) None d(1) n(1) by (auto simp: jCreate_def Let_def)
      have "j' = j" if "clean_fate fate"
        using append_clean [OF j assms(2) that] n(1) out(2) by auto
      with out None assms(1) show ?thesis by auto
    qed
  qed
qed

lemma create_ack_durable_witness:
  "let e = sample_entry ''m1'' []; r = create_record D_in e False;
       (res, j') = jCreate (two_mar r r) Write_ok D_in e False fresh_journal
   in \<exists>s. res = Inr s \<and> durable (two_mar r r) (two_unm r r) j' \<and>
        replayed (two_unm r r) (jn_file j') = Some [created_state r e 0]"
proof -
  define e where "e = sample_entry ''m1'' []"
  define r where "r = create_record D_in e False"
  have d: "durable (two_mar r r) (two_unm r r) fresh_journal"
    using fresh_jinv by (auto simp: durable_def)
  have f: "rec_fine (two_mar r r) (two_unm r r) (create_record D_in e False)"
    by (simp add: two_codec_fine r_def)
  have v: "view (jn_mem fresh_journal) = []" by (simp add: fresh_journal_def)
  obtain res j' where c: "jCreate (two_mar r r) Write_ok D_in e False fresh_journal = (res, j')"
    by (cases "jCreate (two_mar r r) Write_ok D_in e False fresh_journal")
  moreover have "\<exists>s. res = Inr s"
    using c append_ok [OF fresh_jinv f]
    by (auto simp: jCreate_def fresh_journal_def lookup_def empty_mem_def Let_def)
  ultimately show ?thesis
    using create_ack_durable [OF d f c] v by (auto simp: Let_def e_def r_def)
qed

text \<open>A successful \<open>Apply\<close> is durable too: a restart replays the same list with that one
  state updated; an unknown id is refused; and after an error the memory still shows the old
  state.\<close>

theorem apply_ack_durable:
  assumes "durable mar unm j" and "rec_fine mar unm (status_record now k u)"
    and "jApply mar fate now k u j = (res, j')"
  shows "case res of
      Inr s \<Rightarrow> durable mar unm j' \<and>
        replayed unm (jn_file j') =
          Some (map (\<lambda>st. if same_id k st then core (apply_status (status_record now k u) st)
                          else st) (view (jn_mem j)))
    | Inl err \<Rightarrow> jn_mem j' = jn_mem j \<and> (err = E_notfound) = (lookup (jn_mem j) k = None) \<and>
        (clean_fate fate \<longrightarrow> durable mar unm j' \<and> jn_file j' = jn_file j)"
proof -
  let ?r = "status_record now k u"
  from assms(1) obtain rs where j: "jinv mar unm rs j" by (auto simp: durable_def)
  note d = jinvD [OF j]
  show ?thesis
  proof (cases "lookup (jn_mem j) k")
    case None
    with assms d(1) show ?thesis by (auto simp: jApply_def)
  next
    case (Some st)
    show ?thesis
    proof (cases "fate = Write_ok")
      case True
      let ?j = "apply_mem ?r (j\<lparr>jn_file := Some (log_of mar rs @ the (mar ?r) @ [newline])\<rparr>)"
      have j1: "jinv mar unm (rs @ [?r]) ?j" by (rule jinv_apply [OF j assms(2)])
      have out: "j' = ?j" "res = Inr (state_of ?j k)"
        using assms(3) Some d(1) True append_ok [OF j assms(2)]
        by (auto simp: jApply_def Let_def)
      have v: "view (jn_mem ?j) = aapply ?r (view (jn_mem j))"
        using view_apply_rec(2) [OF d(6), of ?r] by (simp add: apply_mem_def)
      show ?thesis
        using jinv_replayed [OF j1] j1 v unfolding out by (auto simp: durable_def aapply_status)
    next
      case False
      then obtain n where n: "append_rec mar fate ?r j =
          (Some E_io, j\<lparr>jn_file := Some (log_of mar rs @ take n (the (mar ?r) @ [newline]))\<rparr>)"
        by (rule append_fails [OF j assms(2)])
      have out: "res = Inl E_io"
        "j' = j\<lparr>jn_file := Some (log_of mar rs @ take n (the (mar ?r) @ [newline]))\<rparr>"
        using assms(3) Some d(1) n(1) by (auto simp: jApply_def Let_def)
      have "j' = j" if "clean_fate fate"
        using append_clean [OF j assms(2) that] n(1) out(2) by auto
      with out Some assms(1) show ?thesis by auto
    qed
  qed
qed

text \<open>A journal with one live state, for the witnesses below.\<close>

definition one_state_journal :: "(jrec \<Rightarrow> bytes option) \<Rightarrow> direction \<Rightarrow> entry \<Rightarrow> journal" where
  "one_state_journal mar dir e = snd (jCreate mar Write_ok dir e False fresh_journal)"

lemma one_state_jinv:
  assumes "rec_fine mar unm (create_record dir e False)"
  shows "jinv mar unm [create_record dir e False] (one_state_journal mar dir e)"
    and "lookup (jn_mem (one_state_journal mar dir e)) (en_MigrationID e) =
      Some (created_state (create_record dir e False) e 1)"
proof -
  have "one_state_journal mar dir e = apply_mem (create_record dir e False)
      (fresh_journal\<lparr>jn_file := Some (the (mar (create_record dir e False)) @ [newline])\<rparr>)"
    using append_ok [OF fresh_jinv assms]
    by (auto simp: one_state_journal_def jCreate_def fresh_journal_def lookup_def empty_mem_def
        Let_def)
  with jinv_apply [OF fresh_jinv assms]
  show "jinv mar unm [create_record dir e False] (one_state_journal mar dir e)"
    and "lookup (jn_mem (one_state_journal mar dir e)) (en_MigrationID e) =
      Some (created_state (create_record dir e False) e 1)"
    by (simp_all add: apply_mem_def fresh_journal_def empty_mem_def apply_rec_def lookup_def
        Let_def)
qed

definition sent_upd :: upd where
  "sent_upd = no_upd\<lparr>upd_Handoff := H_sent, upd_SentAtMs := Some 5\<rparr>"

lemma apply_ack_durable_witness:
  "let e = sample_entry ''m1'' []; a = create_record D_out e False;
       b = status_record 5 ''m1'' sent_upd;
       (res, j') = jApply (two_mar a b) Write_ok 5 ''m1'' sent_upd
                     (one_state_journal (two_mar a b) D_out e)
   in \<exists>s. res = Inr s \<and> map_option (map st_Handoff) (replayed (two_unm a b) (jn_file j'))
        = Some [H_sent]"
proof -
  define e where "e = sample_entry ''m1'' []"
  define a where "a = create_record D_out e False"
  define b where "b = status_record 5 ''m1'' sent_upd"
  have "rec_Op a \<noteq> rec_Op b" by (simp add: a_def b_def)
  then have ab: "a \<noteq> b" by auto
  let ?j = "one_state_journal (two_mar a b) D_out e"
  have fa: "rec_fine (two_mar a b) (two_unm a b) (create_record D_out e False)"
    using two_codec_fine(1) [of a b] by (simp add: a_def)
  have fb: "rec_fine (two_mar a b) (two_unm a b) (status_record 5 ''m1'' sent_upd)"
    using two_codec_fine(2) [of b a] ab by (simp add: b_def)
  note j = one_state_jinv [OF fa]
  have id: "en_MigrationID e = ''m1''" by (simp add: e_def sample_entry_def)
  have d: "durable (two_mar a b) (two_unm a b) ?j" using j(1) by (auto simp: durable_def)
  obtain res j' where c: "jApply (two_mar a b) Write_ok 5 ''m1'' sent_upd ?j = (res, j')"
    by (cases "jApply (two_mar a b) Write_ok 5 ''m1'' sent_upd ?j")
  have "\<exists>s. res = Inr s"
    using c append_ok [OF j(1) fb] j(2) jinvD(1) [OF j(1)] id
    by (auto simp: jApply_def Let_def)
  moreover have "view (jn_mem ?j) = [created_state a e 0]"
    using jinvD(7) [OF j(1)] by (simp add: aapply_create a_def)
  ultimately show ?thesis
    using apply_ack_durable [OF d fb c] c id
    by (auto simp: Let_def e_def [symmetric] a_def [symmetric] b_def [symmetric] same_id_def
        apply_handoff_def b_def status_record_def sent_upd_def no_upd_def)
qed

section \<open>Crashes, compaction and purging\<close>

text \<open>A crash at any point of an append is atomic: whatever number of bytes of the record's
  line reached the file, a restart sees the state before the record or the state after it, and
  discards nothing.\<close>

theorem append_crash_atomic:
  assumes "durable mar unm j" and "rec_fine mar unm r"
  shows "replayed unm (Some (file_bytes j @ take n (the (mar r) @ [newline]))) =
    Some (if n < length (the (mar r)) then view (jn_mem j) else aapply r (view (jn_mem j)))"
proof -
  from assms(1) obtain rs where j: "jinv mar unm rs j" by (auto simp: durable_def)
  note d = jinvD [OF j]
  from replayed_partial [OF d(5) assms(2), of n] show ?thesis
    by (simp add: d(7,8))
qed

lemma append_crash_atomic_witness:
  "let r = create_record D_in (sample_entry ''m1'' []) False in
   replayed (two_unm r r) (Some (file_bytes fresh_journal @ take 1 ''a'')) =
     Some [created_state r (sample_entry ''m1'' []) 0]"
proof -
  define e where "e = sample_entry ''m1'' []"
  define r where "r = create_record D_in e False"
  have d: "durable (two_mar r r) (two_unm r r) fresh_journal"
    using fresh_jinv by (auto simp: durable_def)
  have f: "rec_fine (two_mar r r) (two_unm r r) r"
    by (simp add: two_codec_fine r_def)
  from append_crash_atomic [OF d f, of 1] show ?thesis
    by (simp add: two_mar_def Let_def fresh_journal_def r_def e_def aapply_create)
qed

text \<open>C6: a compaction never changes what a restart sees, whatever fails during it: after every
  outcome (a failed rewrite, a handle that would not close or open again, three refused
  renames, a failed directory sync) the file replays to the live states, the memory is
  untouched, and the journal is either still durable or refuses every later write.\<close>

theorem compaction_preserves_custody:
  assumes "durable mar unm j" and "\<forall>st \<in> set (jList j). st_wf st"
    and "\<forall>r \<in> set (compact_records now (jList j)). rec_fine mar unm r"
    and "Compact mar now fate j = ((before, after, err), j')"
  shows "replayed unm (jn_file j') = Some (view (jn_mem j)) \<and> jn_mem j' = jn_mem j \<and>
    (jn_closed j' \<or> durable mar unm j') \<and>
    (err = None \<longrightarrow> \<not> jn_closed j' \<and>
       jn_file j' = Some (log_of mar (compact_records now (jList j))))"
proof -
  from assms(1) obtain rs where j: "jinv mar unm rs j" by (auto simp: durable_def)
  note d = jinvD [OF j]
  obtain err' where c: "compact mar now fate j = (err', j')" and err: "err = err'"
    using assms(4) d(1,2) by (auto simp: Compact_def split: prod.splits)
  note out = compact_outcome [OF j assms(3) [unfolded jList_def] c]
  have cview: "fold aapply (compact_records now (jList j)) [] = view (jn_mem j)"
    using compact_records_view [OF d(6)] assms(2) by (simp add: jList_def)
  have rep: "replayed unm (jn_file j') = Some (view (jn_mem j))"
    using out(3) replayed_log [OF d(5)] replayed_log [OF assms(3)] cview d(7)
    by (auto simp: jList_def)
  have "durable mar unm j'" if "\<not> jn_closed j'"
    using out that cview assms(3) d(5,6,7)
    unfolding durable_def jinv_def jList_def by metis
  with rep out err show ?thesis by (auto simp: jList_def)
qed

lemma filtered_ids:
  assumes "mem_ok m" and "x \<in> set (view m)" and "\<And>z. P (core z) = P z"
  shows "(st_id x \<in> st_id ` set (filter P (ordered m))) = P x"
proof -
  from assms(2) obtain y where y: "y \<in> set (ordered m)" "x = core y"
    by (auto simp: view_def)
  have uniq: "z = y" if "z \<in> set (ordered m)" "st_id z = st_id y" for z
    using ordered_distinct_ids [OF assms(1)] that y(1) by (metis distinct_map inj_on_def)
  show ?thesis
  proof
    assume "st_id x \<in> st_id ` set (filter P (ordered m))"
    then obtain z where "z \<in> set (ordered m)" "P z" "st_id z = st_id y" using y(2) by auto
    with uniq assms(3) y(2) show "P x" by metis
  next
    assume "P x"
    then have "P y" using assms(3) y(2) by simp
    with y show "st_id x \<in> st_id ` set (filter P (ordered m))" by auto
  qed
qed

text \<open>A purge never drops an entry that is not an expired tombstone, nor an inbound
  tombstone that still owes its source an acknowledgement, whatever the disk does during it,
  and it never changes a surviving entry.\<close>

theorem purge_keeps_owed:
  assumes "mem_ok (jn_mem j)" and "PurgeExpired mar fates retention now j = ((n, err), j')"
    and "st \<in> set (view (jn_mem j))"
    and "AwaitsUpstreamAck st \<or> st_Status st \<noteq> S_done \<or> st_CompletedAt st = 0 \<or>
      unix_milli (now - retention) < st_CompletedAt st"
  shows "st \<in> set (view (jn_mem j')) \<and> set (view (jn_mem j')) \<subseteq> set (view (jn_mem j))"
proof (cases "jn_closed j")
  case True
  with assms show ?thesis by (auto simp: PurgeExpired_def)
next
  case False
  let ?cand = "purge_candidate (unix_milli (now - retention))"
  from assms(2) False have loop:
    "purge_loop mar fates now (unix_milli (now - retention)) (ordered (jn_mem j)) 0 j = ((n, err), j')"
    by (simp add: PurgeExpired_def)
  have "\<not> ?cand st" using assms(4) by (auto simp: purge_candidate_def)
  then have "st_id st \<notin> st_id ` set (filter ?cand (ordered (jn_mem j)))"
    using filtered_ids [OF assms(1,3), of ?cand] by (simp add: purge_candidate_def)
  with purge_loop_sub [OF assms(1) loop] assms(3) show ?thesis by blast
qed

lemma purge_keeps_owed_witness:
  "let st = (created_state (create_record D_in (sample_entry ''m1'' ''peer'') False)
               (sample_entry ''m1'' ''peer'') 1)\<lparr>st_Status := S_done, st_CompletedAt := 1\<rparr>;
       j = fresh_journal\<lparr>jn_mem := \<lparr>jm_states = [(''m1'', st)], jm_seq = 1\<rparr>\<rparr>
   in core st \<in> set (view (jn_mem (snd (PurgeExpired (\<lambda>_. Some ''x'') (\<lambda>_. Write_ok) 10
        (time_of_milli 100) j))))"
proof -
  define st where "st = (created_state (create_record D_in (sample_entry ''m1'' ''peer'') False)
               (sample_entry ''m1'' ''peer'') 1)\<lparr>st_Status := S_done, st_CompletedAt := 1\<rparr>"
  define j where "j = fresh_journal\<lparr>jn_mem := \<lparr>jm_states = [(''m1'', st)], jm_seq = 1\<rparr>\<rparr>"
  have m: "mem_ok (jn_mem j)"
    by (auto simp: j_def mem_ok_def map_ok_def st_def sample_entry_def)
  have v: "core st \<in> set (view (jn_mem j))" by (simp add: j_def view_def ordered_def)
  have a: "AwaitsUpstreamAck (core st)"
    by (simp add: AwaitsUpstreamAck_def st_def sample_entry_def)
  obtain n err j' where p:
    "PurgeExpired (\<lambda>_. Some ''x'') (\<lambda>_. Write_ok) 10 (time_of_milli 100) j = ((n, err), j')"
    by (metis prod.exhaust)
  from purge_keeps_owed [OF m p v] a have "core st \<in> set (view (jn_mem j'))" by simp
  then show ?thesis
    unfolding Let_def st_def [symmetric] j_def [symmetric] p snd_conv .
qed

text \<open>With a working disk a purge removes exactly the expired tombstones (finished no later
  than the cutoff and owing no acknowledgement), reports how many they were, and is durable: a
  restart sees the same list.\<close>

theorem purge_exact:
  assumes "durable mar unm j" and "\<forall>n. fates n = Write_ok"
    and "\<forall>st \<in> set (jList j). rec_fine mar unm (purge_record now (st_id st))"
    and "PurgeExpired mar fates retention now j = ((n, err), j')"
  shows "err = None \<and> durable mar unm j' \<and>
    replayed unm (jn_file j') = Some (filter (\<lambda>st. \<not> purge_candidate
      (unix_milli (now - retention)) st) (view (jn_mem j))) \<and>
    n = length (filter (purge_candidate (unix_milli (now - retention))) (jList j))"
proof -
  let ?cand = "purge_candidate (unix_milli (now - retention))"
  from assms(1) obtain rs where j: "jinv mar unm rs j" by (auto simp: durable_def)
  note d = jinvD [OF j]
  from assms(4) d(1) have loop:
    "purge_loop mar fates now (unix_milli (now - retention)) (ordered (jn_mem j)) 0 j = ((n, err), j')"
    by (simp add: PurgeExpired_def)
  have fine: "\<forall>st \<in> set (ordered (jn_mem j)). ?cand st \<longrightarrow> rec_fine mar unm (purge_record now (st_id st))"
    using assms(3) by (simp add: jList_def)
  note res = purge_loop_ok [OF j fine assms(2) loop]
  have same: "(st_id x \<notin> st_id ` set (filter ?cand (ordered (jn_mem j)))) = (\<not> ?cand x)"
    if "x \<in> set (view (jn_mem j))" for x
    using filtered_ids [OF d(6) that, of ?cand] by (simp add: purge_candidate_def)
  have "view (jn_mem j') = filter (\<lambda>st. \<not> ?cand st) (view (jn_mem j))"
    unfolding res [THEN conjunct2, THEN conjunct2, THEN conjunct2]
    by (rule filter_cong) (simp_all only: same)
  moreover obtain rs' where "jinv mar unm rs' j'" using res by blast
  ultimately show ?thesis
    using res jinv_replayed by (auto simp: durable_def jList_def)
qed

lemma purge_exact_witness:
  "snd (fst (PurgeExpired (\<lambda>_. None) (\<lambda>_. Write_ok) 10 (time_of_milli 100) fresh_journal)) = None"
proof -
  have d: "durable (\<lambda>_. None) (\<lambda>_. None) fresh_journal"
    using fresh_jinv by (auto simp: durable_def)
  obtain n err j' where p:
    "PurgeExpired (\<lambda>_. None) (\<lambda>_. Write_ok) 10 (time_of_milli 100) fresh_journal = ((n, err), j')"
    by (metis prod.exhaust)
  have "\<forall>st \<in> set (jList fresh_journal).
      rec_fine (\<lambda>_. None) (\<lambda>_. None) (purge_record (time_of_milli 100) (st_id st))"
    by (simp add: jList_def fresh_journal_def ordered_def empty_mem_def)
  from purge_exact [OF d _ this p] p show ?thesis by simp
qed

text \<open>One live state, written as its two records over a log that held one; the first two renames are
  refused and the third succeeds.\<close>

definition third_rename :: compact_fate where
  "third_rename = \<lparr>cf_scratch = True, cf_close = True, cf_rename = (\<lambda>k. k = 3), cf_reopen = True,
     cf_syncdir = True\<rparr>"

lemma third_rename_works: "fst (renameInto (cf_rename third_rename))"
  by (simp add: renameInto_def third_rename_def rename_loop.simps renameAttempts_def)

lemma compaction_preserves_custody_witness:
  "let e = sample_entry ''m1'' []; a = create_record D_out e False; st = created_state a e 1;
       b = compact_status 7 st;
       ((before, after, err), j') = Compact (two_mar a b) 7 third_rename (one_state_journal (two_mar a b) D_out e)
   in err = None \<and> jn_file j' = Some (''a'' @ newline # ''bb'' @ [newline]) \<and>
      replayed (two_unm a b) (jn_file j') = Some [core st]"
proof -
  define e where "e = sample_entry ''m1'' []"
  define a where "a = create_record D_out e False"
  define st where "st = created_state a e 1"
  define b where "b = compact_status 7 st"
  let ?mar = "two_mar a b" and ?unm = "two_unm a b" and ?j = "one_state_journal (two_mar a b) D_out e"
  have "rec_Op a \<noteq> rec_Op b" by (simp add: a_def b_def compact_status_def)
  then have ab: "a \<noteq> b" by auto
  have ok: "rec_ok a" "rec_ok b" by (simp_all add: a_def b_def compact_status_def rec_ok_def)
  note fa = two_codec_fine(1) [OF ok(1), of b] and fb = two_codec_fine(2) [OF ok(2) ab]
  note j = one_state_jinv(1) [OF fa [unfolded a_def], folded a_def]
  have d: "durable ?mar ?unm ?j" using j by (auto simp: durable_def)
  have states: "ordered (jn_mem ?j) = [st]"
    using append_ok [OF fresh_jinv fa [unfolded a_def], folded a_def]
    by (simp add: one_state_journal_def jCreate_def fresh_journal_def lookup_def empty_mem_def Let_def
        apply_mem_def apply_rec_def ordered_def a_def st_def)
  have recs: "compact_records 7 (jList ?j) = [a, b]"
    unfolding jList_def states compact_records_def
    by (simp add: compact_create_def st_def created_state_def b_def a_def create_record_def zero_rec_def)
  have wf: "\<forall>x \<in> set (jList ?j). st_wf x" unfolding jList_def states by (simp add: st_def a_def)
  have fine: "\<forall>r \<in> set (compact_records 7 (jList ?j)). rec_fine ?mar ?unm r" using fa fb by (simp add: recs)
  obtain bf af err j' where c: "Compact ?mar 7 third_rename ?j = ((bf, af, err), j')"
    by (metis prod.exhaust)
  have "?mar a = Some ''a''" "?mar b = Some ''bb''" using ab by (simp_all add: two_mar_def)
  then have "err = None"
    using c jinvD [OF j] recs third_rename_works
    by (auto simp: Compact_def compact_def jList_def Let_def third_rename_def split: if_splits)
  moreover have "log_of ?mar [a, b] = ''a'' @ newline # ''bb'' @ [newline]"
    using ab by (simp add: log_of_def two_mar_def)
  moreover have "view (jn_mem ?j) = [core st]" by (simp add: view_def states)
  ultimately show ?thesis
    unfolding Let_def e_def [symmetric] a_def [symmetric] st_def [symmetric] b_def [symmetric] c
    using compaction_preserves_custody [OF d wf fine c] recs by (simp del: log_of_simps) metis
qed

section \<open>Records\<close>

text \<open>A status record is idempotent: applying it twice to a list of states is applying it
  once, so the absolute receipt and re-route counts it carries are never counted twice.\<close>

theorem status_record_idempotent:
  "aapply (status_record now k u) (aapply (status_record now k u) v) =
   aapply (status_record now k u) v"
proof -
  let ?r = "status_record now k u"
  have h: "apply_handoff ?r st' d = st_Handoff st'" if "st_Handoff st' = apply_handoff ?r st d"
    for st st' d
    using that by (auto simp: apply_handoff_def split: option.splits if_splits)
  have st: "apply_status ?r (apply_status ?r st) = apply_status ?r st" for st
  proof (rule state.equality)
    show "st_Handoff (apply_status ?r (apply_status ?r st)) = st_Handoff (apply_status ?r st)"
      by (simp add: h)
    show "st_Entry (apply_status ?r (apply_status ?r st)) = st_Entry (apply_status ?r st)"
      by (intro entry.equality) (auto simp: apply_status_def Let_def)
  qed (auto simp: apply_status_def Let_def)
  then have "core (apply_status ?r (core (apply_status ?r st))) = core (apply_status ?r st)" for st
    by simp
  then show ?thesis by (simp add: aapply_status same_id_def)
qed

text \<open>C22: replaying any log of an older binary is safe to act on: no state keeps the retired
  \<open>held\<close> handoff, and when no record of the log carries a handoff at all (the M3 shape), an
  outbound entry that was in flight is never \<open>pending\<close>, the one handoff from which it would be
  sent again.\<close>

theorem legacy_replay_never_resends:
  assumes "\<forall>r \<in> set rs. rec_Op r = op_status \<longrightarrow> rec_Direction r = D_out \<longrightarrow> rec_Status r \<noteq> S_empty"
    and "st \<in> set (fold aapply rs [])"
  shows "st_Handoff st \<noteq> H_retired_held \<and>
    ((\<forall>r \<in> set rs. rec_Handoff r = None) \<longrightarrow>
       st_Direction st = D_out \<longrightarrow> st_Status st = S_in_flight \<longrightarrow> st_Handoff st \<noteq> H_pending)"
proof -
  let ?I = "\<lambda>m3 v. \<forall>st \<in> set v. st_Handoff st \<noteq> H_retired_held \<and>
    (m3 \<longrightarrow> st_Direction st = D_out \<longrightarrow> st_Status st = S_in_flight \<longrightarrow> st_Handoff st \<noteq> H_pending)"
  let ?d = "\<lambda>r. rec_Op r = op_status \<longrightarrow> rec_Direction r = D_out \<longrightarrow> rec_Status r \<noteq> S_empty"
  have one: "?I m3 (aapply r v)"
    if "?I m3 v" "?d r" "m3 \<longrightarrow> rec_Handoff r = None" for m3 r v
    using that
    by (cases "rec_Op r")
      (auto simp: aapply_def apply_handoff_def split: option.splits if_splits)
  have "?I m3 (fold aapply rs v)"
    if "\<forall>r \<in> set rs. ?d r" "m3 \<longrightarrow> (\<forall>r \<in> set rs. rec_Handoff r = None)" "?I m3 v" for m3 v
    using that
  proof (induction rs arbitrary: v)
    case (Cons r rs)
    then have v': "?I m3 (aapply r v)" by (intro one) simp_all
    have "?I m3 (fold aapply rs (aapply r v))"
      by (rule Cons.IH [OF _ _ v']) (use Cons.prems in simp_all)
    then show ?case by simp
  qed simp
  from this [of "\<forall>r \<in> set rs. rec_Handoff r = None" "[]"] assms show ?thesis by auto
qed

lemma legacy_replay_never_resends_witness:
  "let e = sample_entry ''m1'' []; a = create_record D_out e False;
       b = zero_rec\<lparr>rec_Op := op_status, rec_MigrationID := ''m1'', rec_Status := S_in_flight\<rparr>;
       st = core (apply_status b (created_state a e 0))
   in st \<in> set (fold aapply [a, b] []) \<and> st_Direction st = D_out \<and> st_Status st = S_in_flight \<and>
      st_Handoff st \<noteq> H_pending"
proof -
  define e where "e = sample_entry ''m1'' []"
  define a where "a = create_record D_out e False"
  define b where "b = zero_rec\<lparr>rec_Op := op_status, rec_MigrationID := ''m1'',
    rec_Status := S_in_flight\<rparr>"
  define st where "st = core (apply_status b (created_state a e 0))"
  have b: "rec_Op b = op_status" "\<not> rec_Purge b" "rec_MigrationID b = ''m1''"
    "rec_Direction b = D_empty" "rec_Status b = S_in_flight" "rec_Handoff b = None"
    by (simp_all add: b_def zero_rec_def)
  have a: "rec_Op a = op_create" "rec_Handoff a = None" "rec_Direction a = D_out"
    by (simp_all add: a_def create_record_def zero_rec_def)
  have id: "en_MigrationID e = ''m1''" by (simp add: e_def sample_entry_def)
  have mem: "st \<in> set (fold aapply [a, b] [])"
    by (simp add: a_def aapply_create aapply_def b st_def same_id_def id)
  have d: "\<forall>r \<in> set [a, b]. rec_Op r = op_status \<longrightarrow> rec_Direction r = D_out \<longrightarrow> rec_Status r \<noteq> S_empty"
    using a b by simp
  have "st_Direction st = D_out" "st_Status st = S_in_flight"
    using a b by (simp_all add: st_def)
  moreover have "st_Handoff st \<noteq> H_pending"
    using legacy_replay_never_resends [OF d mem] calculation a(2) b(6) by simp
  ultimately show ?thesis
    unfolding Let_def e_def [symmetric] a_def [symmetric] b_def [symmetric] st_def [symmetric]
    using mem by simp
qed

end
