(* ===== verification/JournalHazards.thy ===== *)
theory JournalHazards imports JournalProps begin

text \<open>
  Where the custody log does not keep what its comments promise: a read-only replay that races
  with an append truncates the file, a failed sync leaves a record nobody was told about, a
  failed truncation makes the next acknowledged record unreadable, and the writer does not
  enforce the line limit its reader does.  Also the bound on the renames of a compaction.
\<close>

text \<open>C23: a journal opened read-only refuses every write, and a failed or refused operation
  leaves the file's bytes alone; yet opening it is not a read.  When the owner appends an acknowledged record
  between the last read of the replay and its size check, the replay truncates the file to what
  it had read, and a restart of the owner no longer sees the record that its memory holds.\<close>

theorem read_only_open_loses_acked_record:
  assumes "durable mar unm j" and "rec_fine mar unm (create_record dir e bb)"
    and "lookup (jn_mem j) (en_MigrationID e) = None"
    and "jCreate mar Write_ok dir e bb j = (Inr s, j')"
    and "OpenReadOnly unm Replay_io_ok (the (mar (create_record dir e bb)) @ [newline])
           (jn_file j) = (Inr ro, file')"
  shows "replayed unm (jn_file j') =
      Some (view (jn_mem j) @ [created_state (create_record dir e bb) e 0]) \<and>
    replayed unm file' = Some (view (jn_mem j)) \<and>
    fst (jCreate mar fate dir e bb ro) = Inl E_readonly \<and>
    jn_file (snd (jCreate mar fate dir e bb ro)) = file'"
proof -
  from assms(1) obtain rs where j: "jinv mar unm rs j" by (auto simp: durable_def)
  note d = jinvD [OF j]
  let ?r = "create_record dir e bb"
  let ?j = "apply_mem ?r (j\<lparr>jn_file := Some (log_of mar rs @ the (mar ?r) @ [newline])\<rparr>)"
  have j1: "jinv mar unm (rs @ [?r]) ?j" by (rule jinv_apply [OF j assms(2)])
  have j': "j' = ?j"
    using assms(4) assms(3) d(1) append_ok [OF j assms(2)] by (auto simp: jCreate_def Let_def)
  have new: "filter (\<lambda>st. \<not> same_id (en_MigrationID e) st) (view (jn_mem j)) = view (jn_mem j)"
    by (rule view_filter_absent [OF d(6) assms(3)])
  have c1: "replayed unm (jn_file j') = Some (view (jn_mem j) @ [created_state ?r e 0])"
    using replayed_log [OF jinvD(5) [OF j1]] jinvD(4) [OF j1] d(7) new
    unfolding j' by (simp add: aapply_create)
  have scan: "scan unm n (log_of mar rs) 0 empty_mem =
      Some (replay_mem rs empty_mem, length (log_of mar rs), 0)" for n
    using scan_log [OF d(5), of n "[]" 0 empty_mem] by simp
  have ro: "file' = Some (log_of mar rs)" "jn_readOnly ro" "\<not> jn_closed ro"
    "jn_mem ro = replay_mem rs empty_mem" "jn_file ro = file'"
    using assms(5) d(4) by (auto simp: OpenReadOnly_def replay_def scan truncate_to_def)
  then have c2: "replayed unm file' = Some (view (jn_mem j))"
    using replayed_log [OF d(5)] d(7) by simp
  have "view (jn_mem ro) = view (jn_mem j)"
    using view_replay_empty [OF d(5)] ro(4) d(7) by simp
  moreover have "mem_ok (jn_mem ro)"
    using view_replay_mem(1) [OF mem_ok_empty] d(5) ro(4) by (auto simp: rec_fine_def)
  ultimately have "map_option core (lookup (jn_mem ro) (en_MigrationID e)) = None"
    using lookup_view [OF d(6), of "en_MigrationID e"]
      lookup_view [of "jn_mem ro" "en_MigrationID e"] assms(3) by simp
  then have none: "lookup (jn_mem ro) (en_MigrationID e) = None" by simp
  have "jCreate mar fate dir e bb ro = (Inl E_readonly, ro)"
    using ro none by (simp add: jCreate_def append_rec_def Let_def)
  with c1 c2 ro(5) show ?thesis by simp
qed

lemma read_only_open_loses_acked_record_witness:
  "let e = sample_entry ''m1'' []; r = create_record D_in e False
   in replayed (two_unm r r) (snd (OpenReadOnly (two_unm r r) Replay_io_ok (''a'' @ [newline])
        (jn_file fresh_journal))) = Some []"
proof -
  define e where "e = sample_entry ''m1'' []"
  define r where "r = create_record D_in e False"
  have d: "durable (two_mar r r) (two_unm r r) fresh_journal"
    using fresh_jinv by (auto simp: durable_def)
  have f: "rec_fine (two_mar r r) (two_unm r r) (create_record D_in e False)"
    by (simp add: two_codec_fine r_def)
  have none: "lookup (jn_mem fresh_journal) (en_MigrationID e) = None"
    by (simp add: fresh_journal_def lookup_def empty_mem_def)
  obtain s j' where c: "jCreate (two_mar r r) Write_ok D_in e False fresh_journal = (Inr s, j')"
    using append_ok [OF fresh_jinv f] none
    by (auto simp: jCreate_def Let_def fresh_journal_def)
  have mar: "two_mar r r (create_record D_in e False) = Some ''a''"
    by (simp add: two_mar_def r_def)
  obtain ro file' where o: "OpenReadOnly (two_unm r r) Replay_io_ok
      (the (two_mar r r (create_record D_in e False)) @ [newline]) (jn_file fresh_journal)
      = (Inr ro, file')"
    by (auto simp: OpenReadOnly_def replay_def fresh_journal_def)
  have v: "view (jn_mem fresh_journal) = []" by (simp add: fresh_journal_def)
  from o have o': "OpenReadOnly (two_unm r r) Replay_io_ok (''a'' @ [newline])
      (jn_file fresh_journal) = (Inr ro, file')"
    by (simp only: mar option.sel)
  from read_only_open_loses_acked_record [OF d f none c o] v
  have "replayed (two_unm r r) file' = Some []" by simp
  then show ?thesis
    unfolding Let_def e_def [symmetric] r_def [symmetric] o' snd_conv .
qed

text \<open>What is in the file after a create whose sync failed.\<close>

lemma nosync_create_replays:
  assumes "durable mar unm j" and "rec_fine mar unm (create_record dir e bb)"
    and "lookup (jn_mem j) (en_MigrationID e) = None"
    and "jCreate mar Write_nosync dir e bb j = (res, j')"
  shows "res = Inl E_io \<and> jn_mem j' = jn_mem j \<and>
    replayed unm (jn_file j') =
      Some (view (jn_mem j) @ [created_state (create_record dir e bb) e 0])"
proof -
  from assms(1) obtain rs where j: "jinv mar unm rs j" by (auto simp: durable_def)
  note d = jinvD [OF j]
  let ?r = "create_record dir e bb"
  obtain n where n: "append_rec mar Write_nosync ?r j =
      (Some E_io, j\<lparr>jn_file := Some (log_of mar rs @ take n (the (mar ?r) @ [newline]))\<rparr>)"
    "n = length (the (mar ?r)) + 1"
    by (rule append_fails [OF j assms(2), of Write_nosync]) auto
  have out: "res = Inl E_io" "jn_mem j' = jn_mem j"
    "jn_file j' = Some (log_of mar rs @ take n (the (mar ?r) @ [newline]))"
    using assms(3,4) d(1) n(1) by (auto simp: jCreate_def Let_def)
  have new: "filter (\<lambda>st. \<not> same_id (en_MigrationID e) st) (view (jn_mem j)) = view (jn_mem j)"
    by (rule view_filter_absent [OF d(6) assms(3)])
  from out replayed_partial [OF d(5) assms(2), of n] n(2) d(7) new show ?thesis
    by (simp add: aapply_create)
qed

text \<open>When the sync of an append fails, \<open>Create\<close> returns an error and the memory does not
  hold the migration, but its record stays in the file: a restart brings back an entry that the
  caller was told was never journaled.\<close>

theorem failed_sync_resurrects:
  assumes "durable mar unm j" and "rec_fine mar unm (create_record dir e bb)"
    and "lookup (jn_mem j) (en_MigrationID e) = None"
    and "jCreate mar Write_nosync dir e bb j = (res, j')"
  shows "res = Inl E_io \<and> jn_mem j' = jn_mem j \<and>
    replayed unm (jn_file j') =
      Some (view (jn_mem j) @ [created_state (create_record dir e bb) e 0])"
  using assms by (rule nosync_create_replays)

lemma failed_sync_resurrects_witness:
  "let e = sample_entry ''m1'' []; r = create_record D_in e False;
       (res, j') = jCreate (two_mar r r) Write_nosync D_in e False fresh_journal
   in res = Inl E_io \<and> jn_mem j' = empty_mem \<and>
      replayed (two_unm r r) (jn_file j') = Some [created_state r e 0]"
proof -
  define e where "e = sample_entry ''m1'' []"
  define r where "r = create_record D_in e False"
  have d: "durable (two_mar r r) (two_unm r r) fresh_journal"
    using fresh_jinv by (auto simp: durable_def)
  have f: "rec_fine (two_mar r r) (two_unm r r) (create_record D_in e False)"
    by (simp add: two_codec_fine r_def)
  have none: "lookup (jn_mem fresh_journal) (en_MigrationID e) = None"
    by (simp add: fresh_journal_def lookup_def empty_mem_def)
  obtain res j' where c: "jCreate (two_mar r r) Write_nosync D_in e False fresh_journal = (res, j')"
    by (metis prod.exhaust)
  have "jn_mem fresh_journal = empty_mem" "view (jn_mem fresh_journal) = []"
    by (simp_all add: fresh_journal_def)
  with failed_sync_resurrects [OF d f none c] c show ?thesis
    by (simp add: Let_def e_def [symmetric] r_def [symmetric])
qed

text \<open>A short write whose truncation fails too does not only cost its own record.  The next
  append succeeds and is acknowledged, but its line now begins with the leftover bytes; when
  those two do not happen to form a JSON document, a restart drops the acknowledged record,
  and \<open>Discarded\<close> reports nothing lost.\<close>

theorem failed_truncation_loses_next_record:
  assumes "jinv mar unm rs j" and "rec_fine mar unm r1" and "rec_fine mar unm r2"
    and "0 < n" and "n < length (the (mar r1))"
    and "append_rec mar (Write_short n False) r1 j = (e1, j1)"
    and "append_rec mar Write_ok r2 j1 = (e2, j2)"
    and "unm (take n (the (mar r1)) @ the (mar r2)) = None"
    and "n + length (the (mar r2)) < maxLine"
  shows "e1 = Some E_io \<and> e2 = None \<and>
    replay unm Replay_io_ok [] (jn_file j2) =
      Inr (replay_mem rs empty_mem, 0, Some (log_of mar rs))"
proof -
  note d = jinvD [OF assms(1)]
  from assms(2) obtain b1 where b1: "mar r1 = Some b1" "newline \<notin> set b1"
    by (auto elim: rec_fineE)
  from assms(3) obtain b2 where b2: "mar r2 = Some b2" "newline \<notin> set b2"
    by (auto elim: rec_fineE)
  have j1: "e1 = Some E_io" "j1 = j\<lparr>jn_file := Some (log_of mar rs @ take n b1)\<rparr>"
    using assms(5,6) d b1 by (auto simp: append_rec_def Let_def)
  have j2: "e2 = None" "jn_file j2 = Some (log_of mar rs @ (take n b1 @ b2) @ newline # [])"
    using assms(7) d b2 unfolding j1(2) by (auto simp: append_rec_def Let_def file_bytes_def)
  let ?l = "take n b1 @ b2"
  have "newline \<notin> set ?l" using b1(2) b2(2) by (auto dest: in_set_takeD)
  then have line: "readLine (?l @ newline # []) = Line_ok ?l []"
    using assms(5,9) b1(1) b2(1) by (intro readLine_line) simp_all
  have ne: "?l \<noteq> []" using assms(4,5) b1(1) by auto
  have len: "length (take n b1) = n" using assms(5) b1(1) by simp
  have unm: "unm ?l = None" using assms(8) b1(1) b2(1) by simp
  let ?bs = "log_of mar rs @ ?l @ newline # []"
  have tail: "tailBytes (length ?bs) (length (log_of mar rs) + length ?l + 1) = 0"
    by (simp add: tailBytes_def)
  have "scan unm (length ?bs) ?bs 0 empty_mem
      = scan unm (length ?bs) (?l @ newline # []) (length (log_of mar rs)) (replay_mem rs empty_mem)"
    using scan_log [OF d(5), of "length ?bs" "?l @ newline # []" 0 empty_mem] by simp
  also have "\<dots> = Some (replay_mem rs empty_mem, length (log_of mar rs), 0)"
    by (subst scan.simps) (simp only: line ne unm line_result.case option.case if_False tail)
  finally have "scan unm (length (?bs @ [])) ?bs 0 empty_mem =
      Some (replay_mem rs empty_mem, length (log_of mar rs), 0)" by simp
  then have "replay unm Replay_io_ok [] (jn_file j2) =
      Inr (replay_mem rs empty_mem, 0, Some (log_of mar rs))"
    using ne unfolding j2(2) replay_def by (simp add: truncate_to_def)
  with j1(1) j2(1) show ?thesis by simp
qed

lemma failed_truncation_loses_next_record_witness:
  "let a = create_record D_in (sample_entry ''m1'' []) False;
       b = create_record D_in (sample_entry ''m2'' []) False;
       j1 = snd (append_rec (two_mar a b) (Write_short 1 False) b fresh_journal);
       j2 = snd (append_rec (two_mar a b) Write_ok a j1)
   in replay (two_unm a b) Replay_io_ok [] (jn_file j2) = Inr (empty_mem, 0, Some [])"
proof -
  define a where "a = create_record D_in (sample_entry ''m1'' []) False"
  define b where "b = create_record D_in (sample_entry ''m2'' []) False"
  have "rec_MigrationID a \<noteq> rec_MigrationID b" by (simp add: a_def b_def sample_entry_def)
  then have ab: "b \<noteq> a" by auto
  have fa: "rec_fine (two_mar a b) (two_unm a b) a"
    by (rule two_codec_fine) (simp add: a_def)
  have fb: "rec_fine (two_mar a b) (two_unm a b) b"
    by (rule two_codec_fine) (use ab in \<open>auto simp: b_def\<close>)
  have mar: "two_mar a b b = Some ''bb''" "two_mar a b a = Some ''a''"
    using ab by (simp_all add: two_mar_def)
  obtain e1 j1 where s1: "append_rec (two_mar a b) (Write_short 1 False) b fresh_journal = (e1, j1)"
    by (metis prod.exhaust)
  obtain e2 j2 where s2: "append_rec (two_mar a b) Write_ok a j1 = (e2, j2)"
    by (metis prod.exhaust)
  have "e1 = Some E_io \<and> e2 = None \<and>
      replay (two_unm a b) Replay_io_ok [] (jn_file j2) = Inr (replay_mem [] empty_mem, 0,
        Some (log_of (two_mar a b) []))"
    by (rule failed_truncation_loses_next_record [OF fresh_jinv fb fa _ _ s1 s2])
      (simp_all add: mar two_unm_def maxLine_def MaxFrameBytes_def)
  with s1 s2 show ?thesis
    unfolding Let_def a_def [symmetric] b_def [symmetric] by (simp add: replay_mem_def)
qed

text \<open>The writer does not enforce the limit of its reader.  A record whose JSON line reaches
  9 MiB (a payload within its own 4 MiB limit grows up to six times when its bytes are escaped)
  is journaled and acknowledged, and from then on every replay fails: \<open>Open\<close> and
  \<open>OpenReadOnly\<close> return an error for good.\<close>

theorem oversized_record_bricks_log:
  assumes "jinv mar unm rs j" and "lookup (jn_mem j) (en_MigrationID e) = None"
    and "mar (create_record dir e bb) = Some b" and "newline \<notin> set b" and "maxLine \<le> length b"
    and "jCreate mar Write_ok dir e bb j = (res, j')"
  shows "(\<exists>s. res = Inr s) \<and> replay unm Replay_io_ok extra (jn_file j') = Inl E_line_too_long \<and>
    fst (Open mar unm now Replay_io_ok fate handle (jn_file j')) = Inl E_line_too_long"
proof -
  note d = jinvD [OF assms(1)]
  have out: "\<exists>s. res = Inr s" "jn_file j' = Some (log_of mar rs @ b @ newline # [])"
    using assms(2,3,6) d
    by (auto simp: jCreate_def Let_def append_rec_def apply_mem_def split: option.splits)
  have "\<forall>c \<in> set b. c \<noteq> newline" using assms(4) by auto
  note split = takeWhile_append_stop [OF this, of newline "[]"]
  have "readLine (b @ newline # []) = Line_too_long"
    using split assms(5) by (simp add: readLine_def Let_def)
  then have "scan unm n (log_of mar rs @ b @ newline # []) 0 empty_mem = None" for n
    using scan_log [OF d(5), of n "b @ newline # []" 0 empty_mem] by (simp add: scan.simps)
  then have "replay unm Replay_io_ok x (jn_file j') = Inl E_line_too_long" for x
    by (simp add: replay_def out(2))
  with out(1) show ?thesis by (simp add: Open_def)
qed

lemma oversized_record_bricks_log_witness:
  "let e = sample_entry ''m1'' []; mar = \<lambda>_. Some (replicate maxLine (CHR ''x''));
       (res, j') = jCreate mar Write_ok D_in e False fresh_journal
   in (\<exists>s. res = Inr s) \<and> replay (\<lambda>_. None) Replay_io_ok [] (jn_file j') = Inl E_line_too_long"
proof -
  define e where "e = sample_entry ''m1'' []"
  let ?mar = "\<lambda>_. Some (replicate maxLine (CHR ''x''))"
  have none: "lookup (jn_mem fresh_journal) (en_MigrationID e) = None"
    by (simp add: fresh_journal_def lookup_def empty_mem_def)
  obtain res j' where c: "jCreate ?mar Write_ok D_in e False fresh_journal = (res, j')"
    by (metis prod.exhaust)
  have nl: "newline \<notin> set (replicate maxLine (CHR ''x''))" by (simp add: newline_def)
  have len: "maxLine \<le> length (replicate maxLine (CHR ''x''))" by simp
  from oversized_record_bricks_log [OF fresh_jinv [of _ "\<lambda>_. None"] none refl nl len c,
      where extra = "[]"] c
  show ?thesis unfolding Let_def e_def [symmetric] by simp
qed

text \<open>A compaction asks for its rename at most three times, succeeds exactly when one of the
  three answers is yes, and sleeps at most 60 ms on the way.\<close>

theorem rename_attempts_bounded:
  "fst (renameInto answers) = (answers 1 \<or> answers 2 \<or> answers 3) \<and>
   0 \<le> snd (renameInto answers) \<and> snd (renameInto answers) \<le> 60 * millisecond"
  unfolding renameInto_def
  by (simp add: rename_loop.simps [of answers 1] rename_loop.simps [of answers 2]
      rename_loop.simps [of answers 3] renameAttempts_def millisecond_def numeral_2_eq_2 numeral_3_eq_3
      rename_loop.simps [of answers "Suc 0"] rename_loop.simps [of answers "Suc (Suc 0)"]
      rename_loop.simps [of answers "Suc (Suc (Suc 0))"])

end
