(* ===== verification/Envelope.thy ===== *)
theory Envelope imports Text begin

text \<open>
  The wire envelope (\<open>internal/wire/envelope.go\<close>): protocol identifiers and their comparison,
  message types, UUIDs, and the strict decoding of a frame.  The JSON parser itself is a
  parameter: what \<open>json.Unmarshal\<close> makes of a frame and of a single raw value.
\<close>

section \<open>Numbers in text\<close>

definition is_digit :: "char \<Rightarrow> bool" where
  "is_digit c = between 48 57 (byte c)"

definition digits_value :: "bytes \<Rightarrow> int" where
  "digits_value ds = foldl (\<lambda>n c. 10 * n + int (byte c - 48)) 0 ds"

text \<open>\<open>strconv.Atoi\<close> on a 64-bit machine: an optional sign, at least one digit, in range.\<close>

definition Atoi :: "bytes \<Rightarrow> int option" where
  "Atoi s =
     (let (neg, ds) = (case s of
            [] \<Rightarrow> (False, [])
          | c # cs \<Rightarrow> if c = CHR ''-'' then (True, cs)
                      else if c = CHR ''+'' then (False, cs) else (False, s));
          v = (if neg then - digits_value ds else digits_value ds)
      in if ds = [] \<or> \<not> list_all is_digit ds then None
         else if v < - (2 ^ 63) \<or> 2 ^ 63 \<le> v then None
         else Some v)"

section \<open>Protocol identifiers\<close>

definition ProtocolA :: bytes where "ProtocolA = ''contract-a/2.4''"
definition ProtocolB :: bytes where "ProtocolB = ''contract-b/4.2''"

text \<open>The text before and after the last occurrence of a byte, and before and after its first.\<close>

definition cut_last :: "char \<Rightarrow> bytes \<Rightarrow> (bytes \<times> bytes) option" where
  "cut_last c s =
     (case dropWhile (\<lambda>x. x \<noteq> c) (rev s) of
        [] \<Rightarrow> None
      | _ # before \<Rightarrow> Some (rev before, rev (takeWhile (\<lambda>x. x \<noteq> c) (rev s))))"

definition cut_first :: "char \<Rightarrow> bytes \<Rightarrow> (bytes \<times> bytes) option" where
  "cut_first c s =
     (case dropWhile (\<lambda>x. x \<noteq> c) s of
        [] \<Rightarrow> None
      | _ # after \<Rightarrow> Some (takeWhile (\<lambda>x. x \<noteq> c) s, after))"

definition splitProtocol :: "bytes \<Rightarrow> (bytes \<times> bytes \<times> int) option" where
  "splitProtocol p =
     (case cut_last (CHR ''/'') p of
        None \<Rightarrow> None
      | Some (family, version) \<Rightarrow>
          if family = [] \<or> version = [] then None
          else (case cut_first (CHR ''.'') version of
                  None \<Rightarrow> Some (family, version, 0)
                | Some (major, minor) \<Rightarrow>
                    if major = [] then None
                    else Some (family, major, case Atoi minor of None \<Rightarrow> 0 | Some n \<Rightarrow> n)))"

datatype wire_error = ErrMalformed bytes | ErrProtocolMajor

definition CheckProtocol :: "bytes \<Rightarrow> bytes \<Rightarrow> wire_error option" where
  "CheckProtocol got want =
     (case splitProtocol got of
        None \<Rightarrow> Some ErrProtocolMajor
      | Some (gf, gm, _) \<Rightarrow>
          (case splitProtocol want of
             None \<Rightarrow> Some ErrProtocolMajor
           | Some (wfam, wmaj, _) \<Rightarrow>
               if gf \<noteq> wfam \<or> gm \<noteq> wmaj then Some ErrProtocolMajor else None))"

definition CompareProtocol :: "bytes \<Rightarrow> bytes \<Rightarrow> wire_error + int" where
  "CompareProtocol a b =
     (case splitProtocol a of
        None \<Rightarrow> Inl ErrProtocolMajor
      | Some (af, amaj, amin) \<Rightarrow>
          (case splitProtocol b of
             None \<Rightarrow> Inl ErrProtocolMajor
           | Some (bf, bmaj, bmin) \<Rightarrow>
               if af \<noteq> bf then Inl ErrProtocolMajor
               else (case Atoi amaj of
                       None \<Rightarrow> Inl ErrProtocolMajor
                     | Some x \<Rightarrow>
                         (case Atoi bmaj of
                            None \<Rightarrow> Inl ErrProtocolMajor
                          | Some y \<Rightarrow>
                              Inr (if x < y then -1 else if x > y then 1
                                   else if amin < bmin then -1
                                   else if amin > bmin then 1 else 0)))))"

definition ProtocolMinor :: "bytes \<Rightarrow> int" where
  "ProtocolMinor p = (case splitProtocol p of None \<Rightarrow> 0 | Some (_, _, n) \<Rightarrow> n)"

section \<open>Message types and UUIDs\<close>

text \<open>Go ranges over runes here; a byte outside ASCII is part of no rune in the accepted range,
  so the byte test is the rune test.\<close>

definition ValidType :: "bytes \<Rightarrow> bool" where
  "ValidType s = (s \<noteq> [] \<and> list_all (\<lambda>c. between 65 90 (byte c) \<or> c = CHR ''_'') s)"

definition isHex :: "char \<Rightarrow> bool" where
  "isHex c = (is_digit c \<or> between 97 102 (byte c) \<or> between 65 70 (byte c))"

definition ValidUUID :: "bytes \<Rightarrow> bool" where
  "ValidUUID s =
     (length s = 36 \<and>
      list_all (\<lambda>i. if i \<in> {8, 13, 18, 23} then s ! i = CHR ''-'' else isHex (s ! i)) [0..<36])"

definition hex_digit :: "nat \<Rightarrow> char" where
  "hex_digit n = ''0123456789abcdef'' ! n"

definition hex_byte :: "8 word \<Rightarrow> bytes" where
  "hex_byte w = [hex_digit (unat w div 16), hex_digit (unat w mod 16)]"

unbundle bit_operations_syntax

definition NewUUID :: "8 word list \<Rightarrow> bytes" where
  "NewUUID rnd =
     (let b = rnd[6 := (rnd ! 6 AND 0x0f) OR 0x40, 8 := (rnd ! 8 AND 0x3f) OR 0x80];
          h = concat (map hex_byte b)
      in take 8 h @ ''-'' @ take 4 (drop 8 h) @ ''-'' @ take 4 (drop 12 h) @ ''-'' @
         take 4 (drop 16 h) @ ''-'' @ drop 20 h)"

section \<open>Frames\<close>

definition MaxFrameSize :: nat where
  "MaxFrameSize = 8388608"

record envelope =
  ev_Protocol :: bytes
  ev_Type :: bytes
  ev_MessageID :: bytes
  ev_SentAt :: int
  ev_Data :: bytes

text \<open>\<open>kind\<close>: a raw value by its first significant byte.\<close>

fun kind :: "bytes \<Rightarrow> char option" where
  "kind [] = None"
| "kind (c # cs) =
     (if c \<in> {CHR '' '', CHR 0x09, CHR 0x0A, CHR 0x0D} then kind cs
      else if c \<in> {CHR ''t'', CHR ''f''} then Some (CHR ''t'')
      else if c = CHR ''-'' \<or> is_digit c then Some (CHR ''0'')
      else Some c)"

definition require ::
  "(bytes, bytes) gomap \<Rightarrow> char \<Rightarrow> (bytes \<Rightarrow> 'v option) \<Rightarrow> bytes \<Rightarrow> wire_error + 'v"
where
  "require fm k unm name =
     (case map_of fm name of
        None \<Rightarrow> Inl (ErrMalformed name)
      | Some raw \<Rightarrow>
          if kind raw \<noteq> Some k then Inl (ErrMalformed name)
          else (case unm raw of None \<Rightarrow> Inl (ErrMalformed name) | Some v \<Rightarrow> Inr v))"

definition requireString ::
  "(bytes \<Rightarrow> bytes option) \<Rightarrow> (bytes, bytes) gomap \<Rightarrow> bytes \<Rightarrow> wire_error + bytes"
where
  "requireString unm_string fm name = require fm (CHR 0x22) unm_string name"

definition requireInt64 ::
  "(bytes \<Rightarrow> int option) \<Rightarrow> (bytes, bytes) gomap \<Rightarrow> bytes \<Rightarrow> wire_error + int"
where
  "requireInt64 unm_int fm name = require fm (CHR ''0'') unm_int name"

text \<open>\<open>Decode\<close>.  \<open>parse raw\<close> is the top-level decode into a field map: a syntax error is the outer
  \<open>None\<close>, the JSON \<open>null\<close> the inner one.\<close>

definition Decode ::
  "(bytes \<Rightarrow> (bytes, bytes) gomap option option) \<Rightarrow> (bytes \<Rightarrow> bytes option) \<Rightarrow> (bytes \<Rightarrow> int option)
     \<Rightarrow> bytes \<Rightarrow> wire_error + envelope"
where
  "Decode parse unm_string unm_int raw =
     (if MaxFrameSize < length raw then Inl (ErrMalformed [])
      else case parse raw of
        None \<Rightarrow> Inl (ErrMalformed [])
      | Some None \<Rightarrow> Inl (ErrMalformed [])
      | Some (Some fm) \<Rightarrow>
          (case requireString unm_string fm ''protocol'' of Inl e \<Rightarrow> Inl e | Inr p \<Rightarrow>
          (case requireString unm_string fm ''type'' of Inl e \<Rightarrow> Inl e | Inr t \<Rightarrow>
          (case requireString unm_string fm ''messageId'' of Inl e \<Rightarrow> Inl e | Inr m \<Rightarrow>
          (case requireInt64 unm_int fm ''sentAt'' of Inl e \<Rightarrow> Inl e | Inr s \<Rightarrow>
          (case map_of fm ''data'' of
             None \<Rightarrow> Inl (ErrMalformed ''data'')
           | Some d \<Rightarrow>
               if kind d \<noteq> Some (CHR ''{'') then Inl (ErrMalformed ''data'')
               else if \<not> ValidType t then Inl (ErrMalformed ''type'')
               else Inr \<lparr>ev_Protocol = p, ev_Type = t, ev_MessageID = m, ev_SentAt = s,
                         ev_Data = d\<rparr>))))))"

section \<open>Properties\<close>

text \<open>The family, major and minor that a comparison reads, when it accepts the identifier.\<close>

definition protocol_key :: "bytes \<Rightarrow> (bytes \<times> int \<times> int) option" where
  "protocol_key p =
     (case splitProtocol p of
        None \<Rightarrow> None
      | Some (f, maj, mn) \<Rightarrow> map_option (\<lambda>x. (f, x, mn)) (Atoi maj))"

lemma CompareProtocol_key:
  "CompareProtocol a b =
     (case (protocol_key a, protocol_key b) of
        (Some (f, x, m), Some (g, y, n)) \<Rightarrow>
          if f \<noteq> g then Inl ErrProtocolMajor
          else Inr (if x < y then -1 else if x > y then 1 else if m < n then -1
                    else if m > n then 1 else 0)
      | _ \<Rightarrow> Inl ErrProtocolMajor)"
  by (auto simp: CompareProtocol_def protocol_key_def split: option.splits prod.splits)

text \<open>The identifier comparison behind the relay's minimum contract version is a total
  preorder on the identifiers it accepts: swapping the arguments negates the answer, an error
  does not depend on their order, every comparable identifier equals itself, and "not above" is
  transitive (two such comparisons make the third succeed).\<close>

theorem compare_protocol_preorder:
  "(CompareProtocol a b = Inl ErrProtocolMajor) = (CompareProtocol b a = Inl ErrProtocolMajor) \<and>
   (CompareProtocol a b = Inr n) = (CompareProtocol b a = Inr (- n)) \<and>
   (CompareProtocol a b = Inr n \<longrightarrow> CompareProtocol a a = Inr 0) \<and>
   (CompareProtocol a b = Inr n \<longrightarrow> CompareProtocol b c = Inr m \<longrightarrow> n \<le> 0 \<longrightarrow> m \<le> 0 \<longrightarrow>
      (\<exists>k \<le> 0. CompareProtocol a c = Inr k))"
proof (cases "protocol_key a = None \<or> protocol_key b = None")
  case True
  then show ?thesis by (auto simp: CompareProtocol_key split: option.splits)
next
  case False
  then obtain f x k g y l where a: "protocol_key a = Some (f, x, k)"
    and b: "protocol_key b = Some (g, y, l)" by auto
  show ?thesis
  proof (cases "f = g \<and> protocol_key c \<noteq> None")
    case True
    then obtain h z j where c: "protocol_key c = Some (h, z, j)" by auto
    have "CompareProtocol a c = Inr (if x < z then -1 else if x > z then 1 else if k < j then -1
                    else if k > j then 1 else 0)" if "g = h"
      using a c True that by (simp add: CompareProtocol_key)
    then show ?thesis using True by (simp add: CompareProtocol_key a b c) linarith
  next
    case False
    then show ?thesis by (cases "protocol_key c") (auto simp: CompareProtocol_key a b)
  qed
qed

lemma compare_protocol_preorder_witness:
  "CompareProtocol ''contract-b/4.1'' ProtocolB = Inr (-1) \<and>
   CompareProtocol ProtocolB ''contract-b/4.1'' = Inr 1"
proof -
  have "CompareProtocol ''contract-b/4.1'' ProtocolB = Inr (-1)" by code_simp
  with compare_protocol_preorder [of "''contract-b/4.1''" ProtocolB "-1"] show ?thesis
    by simp
qed

lemma isHex_hex_digit: "n < 16 \<Longrightarrow> isHex (hex_digit n)"
proof -
  have "list_all isHex ''0123456789abcdef''" by code_simp
  then show "n < 16 \<Longrightarrow> isHex (hex_digit n)" by (simp add: hex_digit_def list_all_length)
qed

lemma unat_byte: "unat (w :: 8 word) < 256"
  using unsigned_less [of w] by simp

lemma isHex_hex_byte: "i < 2 \<Longrightarrow> isHex (hex_byte w ! i)"
proof -
  have "unat w div 16 < 16" "unat w mod 16 < 16" using unat_byte [of w] by simp_all
  then show "i < 2 \<Longrightarrow> isHex (hex_byte w ! i)"
    by (auto simp: hex_byte_def isHex_hex_digit less_2_cases_iff)
qed

lemma high_nibble: "unat (w :: 8 word) div 16 = unat (drop_bit 4 w)"
  using unat_drop_bit_eq [of 4 w] by (simp only: drop_bit_eq_div) simp

lemma version_byte: "hex_byte ((w AND 0x0f) OR 0x40) ! 0 = CHR ''4''"
  by (simp add: hex_byte_def high_nibble hex_digit_def)

lemma variant_byte: "hex_byte ((w AND 0x3f) OR 0x80) ! 0 \<in> set ''89ab''"
proof -
  have "drop_bit 4 ((w AND 0x3f) OR 0x80) = (drop_bit 4 w AND 3) OR 8" by simp
  moreover have "drop_bit 4 w AND 3 \<in> {0, 1, 2, 3 :: 8 word}"
  proof -
    have low: "drop_bit 4 w AND 3 = take_bit 2 (drop_bit 4 w)"
      by (simp add: take_bit_eq_mask mask_eq_exp_minus_1)
    have "unat (drop_bit 4 w AND 3) < 4"
      unfolding low unsigned_take_bit_eq by (simp add: take_bit_eq_mod)
    define n where "n = unat (drop_bit 4 w AND 3)"
    with \<open>unat (drop_bit 4 w AND 3) < 4\<close>
    have n: "unat (drop_bit 4 w AND 3) = n" "n \<in> {0, 1, 2, 3}" by auto
    then have "drop_bit 4 w AND 3 = (word_of_nat n :: 8 word)"
      by (metis of_nat_unat ucast_id)
    with n(2) show ?thesis by auto
  qed
  ultimately show ?thesis by (auto simp: hex_byte_def high_nibble hex_digit_def)
qed

text \<open>Whatever the 16 random bytes, a minted id has the shape the receivers accept, its
  version digit is 4 and its variant digit one of 8, 9, a, b.\<close>

theorem minted_uuid_valid:
  assumes "length rnd = 16"
  shows "ValidUUID (NewUUID rnd) \<and> NewUUID rnd ! 14 = CHR ''4'' \<and>
    NewUUID rnd ! 19 \<in> set ''89ab''"
proof -
  define b where "b = rnd[6 := (rnd ! 6 AND 0x0f) OR 0x40, 8 := (rnd ! 8 AND 0x3f) OR 0x80]"
  have len: "length b = 16" using assms by (simp add: b_def)
  have b68: "b ! 6 = (rnd ! 6 AND 0x0f) OR 0x40" "b ! 8 = (rnd ! 8 AND 0x3f) OR 0x80"
    using assms by (simp_all add: b_def)
  obtain b0 b1 b2 b3 b4 b5 b6 b7 b8 b9 b10 b11 b12 b13 b14 b15 where
    b: "b = [b0, b1, b2, b3, b4, b5, b6, b7, b8, b9, b10, b11, b12, b13, b14, b15]"
    using len by (auto simp: numeral_eq_Suc length_Suc_conv)
  define x where "x = (\<lambda>w. hex_byte w ! 0)"
  define y where "y = (\<lambda>w. hex_byte w ! 1)"
  have hb: "hex_byte w = [x w, y w]" for w by (simp add: x_def y_def hex_byte_def)
  have hex: "isHex (x w)" "isHex (y w)" for w
    unfolding x_def y_def by (rule isHex_hex_byte; simp)+
  have uuid: "NewUUID rnd =
     [x b0, y b0, x b1, y b1, x b2, y b2, x b3, y b3, CHR ''-'', x b4, y b4, x b5, y b5, CHR ''-'',
      x b6, y b6, x b7, y b7, CHR ''-'', x b8, y b8, x b9, y b9, CHR ''-'',
      x b10, y b10, x b11, y b11, x b12, y b12, x b13, y b13, x b14, y b14, x b15, y b15]"
    unfolding NewUUID_def b_def [symmetric] Let_def by (simp add: b hb)
  have "x b6 = CHR ''4''" "x b8 \<in> set ''89ab''"
    using b68 version_byte [of "rnd ! 6"] variant_byte [of "rnd ! 8"] by (simp_all add: b x_def)
  moreover have "ValidUUID (NewUUID rnd)"
    unfolding ValidUUID_def uuid by (simp add: upt_rec hex)
  ultimately show ?thesis unfolding uuid by simp
qed

lemma minted_uuid_valid_witness: "ValidUUID (NewUUID (replicate 16 0xff))"
  using minted_uuid_valid [of "replicate 16 0xff"] by simp

end
