(* ===== verification/ContractA.thy ===== *)
theory ContractA imports WireBlocks Envelope begin

text \<open>
  Contract A, the wire between a mod and its sidecar (\<open>internal/contracta/contracta.go\<close>): the
  four edges, the refusal codes and their classes, the messages and their validation.  An
  optional JSON field is an \<open>option\<close>; a validation error is the text of the field it names.
\<close>

section \<open>Validation\<close>

text \<open>The early returns of a \<open>Validate\<close> method: the first failing check decides.\<close>

definition first_problem :: "(bool \<times> bytes) list \<Rightarrow> bytes option" where
  "first_problem checks = map_option snd (find fst checks)"

lemma first_problem_simps [simp]:
  "first_problem [] = None"
  "first_problem ((b, msg) # checks) = (if b then Some msg else first_problem checks)"
  by (simp_all add: first_problem_def)

lemma first_problem_None: "(first_problem checks = None) = (\<forall>c \<in> set checks. \<not> fst c)"
  by (auto simp: first_problem_def find_None_iff)

text \<open>A required float that is absent or not finite; an optional one that is present and fails
  a test.\<close>

definition no_float :: "f64 option \<Rightarrow> bool" where
  "no_float p = (case p of None \<Rightarrow> True | Some x \<Rightarrow> \<not> f64_finite x)"

definition float_test :: "(rat \<Rightarrow> bool) \<Rightarrow> f64 option \<Rightarrow> bool" where
  "float_test P p = (case p of Some (Fin x) \<Rightarrow> P x | _ \<Rightarrow> False)"

definition opt_test :: "('a \<Rightarrow> bool) \<Rightarrow> 'a option \<Rightarrow> bool" where
  "opt_test P p = (case p of None \<Rightarrow> False | Some x \<Rightarrow> P x)"

section \<open>Codes\<close>

definition permanentOutCodes :: "bytes list" where
  "permanentOutCodes = [''PEER_INCOMPATIBLE'', ''KIND_UNSUPPORTED'', ''INVALID_PAYLOAD'',
     ''DUPLICATE_MIGRATION_ID'', ''MALFORMED_MESSAGE'']"

definition permanentInCodes :: "bytes list" where
  "permanentInCodes = [''DESERIALIZE_FAILED'', ''RELINK_FAILED'', ''VERSION_UNSUPPORTED'',
     ''KIND_UNSUPPORTED'', ''MALFORMED_MESSAGE'']"

definition ClassOfOutCode :: "bytes \<Rightarrow> bytes" where
  "ClassOfOutCode code =
     (if code \<in> set permanentOutCodes then ''permanent'' else ''transient'')"

definition ClassOfInCode :: "bytes \<Rightarrow> bytes" where
  "ClassOfInCode code =
     (if code \<in> set permanentInCodes then ''permanent'' else ''transient'')"

section \<open>Edges\<close>

definition ValidEdge :: "bytes \<Rightarrow> bool" where
  "ValidEdge e = (e = ''N'' \<or> e = ''S'' \<or> e = ''E'' \<or> e = ''W'')"

definition CanonicalEdges :: "bytes list" where
  "CanonicalEdges = [''E'', ''N'', ''W'', ''S'']"

definition Reverse :: "bytes \<Rightarrow> bool" where
  "Reverse e = (e = ''W'' \<or> e = ''S'')"

definition Vertical :: "bytes \<Rightarrow> bool" where
  "Vertical e = (e = ''N'' \<or> e = ''S'')"

definition Opposite :: "bytes \<Rightarrow> bytes option" where
  "Opposite e =
     (if e = ''N'' then Some ''S''
      else if e = ''S'' then Some ''N''
      else if e = ''E'' then Some ''W''
      else if e = ''W'' then Some ''E''
      else None)"

lemma ValidEdge_canonical: "ValidEdge e = (e \<in> set CanonicalEdges)"
  by (auto simp: ValidEdge_def CanonicalEdges_def)

section \<open>\<open>CONFIG_UPDATE\<close>\<close>

text \<open>A raw field that \<open>Settings\<close> reads leniently: absent or null, of the wrong JSON type, or a
  value.\<close>

datatype 'v raw_json = RJ_absent | RJ_bad | RJ_value 'v

record config_update =
  cu_SessionID :: bytes
  cu_Reason :: bytes
  cu_GameVersion :: bytes
  cu_ModVersion :: bytes
  cu_SimulationSize :: "f64 option"
  cu_BorderEdges :: "bytes list option"
  cu_ExportEdges :: "bytes list"
  cu_BorderWidth :: "f64 option"
  cu_RingSlot :: "int option"
  cu_WorldName :: bytes
  cu_MigrationExclude :: "exclude_list raw_json"
  cu_SaveMinutes :: "f64 raw_json"
  cu_SaveKeep :: "f64 raw_json"
  cu_SaveOnQuit :: "bool raw_json"
  cu_WorldWrapping :: "bool raw_json"

record settings =
  se_MigrationExclude :: "exclude_list option"
  se_SaveMinutes :: "f64 option"
  se_SaveKeep :: "int option"
  se_SaveOnQuit :: "bool option"
  se_WorldWrapping :: "bool option"

datatype settings_why = SW_exclude strip_why | SW_text bytes

definition lenientFloat :: "bytes \<Rightarrow> f64 raw_json \<Rightarrow> f64 option \<times> settings_why option" where
  "lenientFloat field raw =
     (case raw of
        RJ_absent \<Rightarrow> (None, None)
      | RJ_bad \<Rightarrow> (None, Some (SW_text (field @ '' is not a number'')))
      | RJ_value v \<Rightarrow>
          if \<not> f64_finite v then (None, Some (SW_text (field @ '' is not a finite number'')))
          else (Some v, None))"

definition lenientBool :: "bytes \<Rightarrow> bool raw_json \<Rightarrow> bool option \<times> settings_why option" where
  "lenientBool field raw =
     (case raw of
        RJ_absent \<Rightarrow> (None, None)
      | RJ_bad \<Rightarrow> (None, Some (SW_text (field @ '' is not a boolean'')))
      | RJ_value v \<Rightarrow> (Some v, None))"

definition read_exclude :: "exclude_list raw_json \<Rightarrow> exclude_list option \<times> settings_why list" where
  "read_exclude raw =
     (case raw of
        RJ_value l \<Rightarrow> (case CarryExclude (Some l) of (c, why) \<Rightarrow> (c, map SW_exclude why))
      | _ \<Rightarrow> (None, []))"

definition read_minutes :: "f64 raw_json \<Rightarrow> f64 option \<times> settings_why list" where
  "read_minutes raw =
     (case lenientFloat ''saveMinutes'' raw of
        (_, Some why) \<Rightarrow> (None, [why])
      | (None, None) \<Rightarrow> (None, [])
      | (Some v, None) \<Rightarrow>
          if float_test (\<lambda>x. x < 0) (Some v)
          then (None, [SW_text ''saveMinutes is negative'']) else (Some v, []))"

definition read_keep :: "f64 raw_json \<Rightarrow> int option \<times> settings_why list" where
  "read_keep raw =
     (case lenientFloat ''saveKeep'' raw of
        (_, Some why) \<Rightarrow> (None, [why])
      | (None, None) \<Rightarrow> (None, [])
      | (Some v, None) \<Rightarrow>
          if float_test (\<lambda>x. x \<noteq> of_int \<lfloor>x\<rfloor> \<or> x < 0) (Some v)
          then (None, [SW_text ''saveKeep is not a non-negative whole number''])
          else (Some \<lfloor>f64_val v\<rfloor>, []))"

definition read_bool :: "bytes \<Rightarrow> bool raw_json \<Rightarrow> bool option \<times> settings_why list" where
  "read_bool field raw =
     (case lenientBool field raw of (_, Some why) \<Rightarrow> (None, [why]) | (v, None) \<Rightarrow> (v, []))"

definition Settings :: "config_update \<Rightarrow> settings \<times> settings_why list" where
  "Settings c =
     (let (ex, w1) = read_exclude (cu_MigrationExclude c);
          (mi, w2) = read_minutes (cu_SaveMinutes c);
          (ke, w3) = read_keep (cu_SaveKeep c);
          (qu, w4) = read_bool ''saveOnQuit'' (cu_SaveOnQuit c);
          (wr, w5) = read_bool ''worldWrapping'' (cu_WorldWrapping c)
      in (\<lparr>se_MigrationExclude = ex, se_SaveMinutes = mi, se_SaveKeep = ke,
           se_SaveOnQuit = qu, se_WorldWrapping = wr\<rparr>, w1 @ w2 @ w3 @ w4 @ w5))"

text \<open>\<open>ResolveExportEdges\<close>: the loop keeps what it has seen.\<close>

fun resolve_edges :: "bytes list \<Rightarrow> bytes list \<Rightarrow> bytes list \<Rightarrow> bytes + bytes list" where
  "resolve_edges border seen [] = Inr []"
| "resolve_edges border seen (e # es) =
     (if \<not> ValidEdge e then Inl ''exportEdges: not N/S/E/W''
      else if e \<in> set seen then Inl ''exportEdges: repeats''
      else if e \<notin> set border then Inl ''exportEdges: not in borderEdges''
      else (case resolve_edges border (e # seen) es of
              Inl err \<Rightarrow> Inl err | Inr out \<Rightarrow> Inr (e # out)))"

definition ResolveExportEdges :: "config_update \<Rightarrow> bytes + bytes list" where
  "ResolveExportEdges c =
     (if cu_ExportEdges c = [] then Inl ''exportEdges is missing or empty''
      else resolve_edges (case cu_BorderEdges c of None \<Rightarrow> [] | Some b \<Rightarrow> b) [] (cu_ExportEdges c))"

fun border_problem :: "bytes list \<Rightarrow> bytes list \<Rightarrow> bytes option" where
  "border_problem seen [] = None"
| "border_problem seen (e # es) =
     (if \<not> ValidEdge e then Some ''borderEdges: not an edge''
      else if e \<in> set seen then Some ''borderEdges: repeats''
      else border_problem (e # seen) es)"

definition ConfigUpdate_Validate :: "config_update \<Rightarrow> bytes option" where
  "ConfigUpdate_Validate c =
     (case first_problem
        [(\<not> ValidUUID (cu_SessionID c), ''sessionId''),
         (cu_Reason c \<notin> {''connect'', ''world_loaded'', ''settings_changed'', ''sim_size_changed''},
          ''reason''),
         (cu_GameVersion c = [], ''gameVersion''),
         (cu_ModVersion c = [], ''modVersion''),
         (cu_SimulationSize c = None, ''simulationSize is missing''),
         (no_float (cu_SimulationSize c) \<or> float_test (\<lambda>x. x \<le> 0) (cu_SimulationSize c),
          ''simulationSize''),
         (cu_BorderEdges c = None, ''borderEdges is missing'')] of
        Some err \<Rightarrow> Some err
      | None \<Rightarrow>
          (case border_problem [] (case cu_BorderEdges c of None \<Rightarrow> [] | Some b \<Rightarrow> b) of
             Some err \<Rightarrow> Some err
           | None \<Rightarrow>
               (case first_problem
                  [(cu_BorderWidth c = None, ''borderWidth is missing''),
                   (no_float (cu_BorderWidth c) \<or> float_test (\<lambda>x. x < 0) (cu_BorderWidth c),
                    ''borderWidth''),
                   (opt_test (\<lambda>s. s < 1) (cu_RingSlot c), ''ringSlot'')] of
                  Some err \<Rightarrow> Some err
                | None \<Rightarrow>
                    (case ResolveExportEdges c of Inl err \<Rightarrow> Some err | Inr _ \<Rightarrow> None))))"

section \<open>\<open>HEARTBEAT\<close>\<close>

record heartbeat =
  hb_SessionID :: bytes
  hb_SimTick :: "int option"
  hb_SimulatedTime :: "f64 option"
  hb_Population :: "int option"
  hb_EggCount :: "int option"
  hb_Paused :: "bool option"
  hb_TimeScale :: "f64 option"
  hb_TargetTimeScale :: "f64 option"
  hb_SimulationSize :: "f64 option"
  hb_InFlightOut :: "int option"
  hb_PendingIn :: "int option"
  hb_Species :: "census option"
  hb_Truncated :: bool

definition Heartbeat_Validate :: "heartbeat \<Rightarrow> bytes option" where
  "Heartbeat_Validate h = first_problem
     [(\<not> ValidUUID (hb_SessionID h), ''sessionId''),
      (hb_SimTick h = None, ''simTick''),
      (no_float (hb_SimulatedTime h), ''simulatedTime''),
      (hb_Population h = None \<or> opt_test (\<lambda>n. n < 0) (hb_Population h), ''population''),
      (hb_Paused h = None, ''paused''),
      (no_float (hb_TimeScale h), ''timeScale''),
      (hb_TargetTimeScale h \<noteq> None \<and>
       (no_float (hb_TargetTimeScale h) \<or> float_test (\<lambda>x. x < 0) (hb_TargetTimeScale h)),
       ''targetTimeScale''),
      (no_float (hb_SimulationSize h) \<or> float_test (\<lambda>x. x \<le> 0) (hb_SimulationSize h),
       ''simulationSize'')]"

section \<open>Migration messages\<close>

record vec =
  ve_X :: f64
  ve_Y :: f64

record parent_blob =
  pb_EntityID :: "int option"
  pb_Payload :: bytes
  pb_GameVersion :: bytes
  pb_BlobDroppedForSize :: bool

record migrate_out =
  mo_MigrationID :: bytes
  mo_EntityID :: "int option"
  mo_Kind :: bytes
  mo_GameVersion :: bytes
  mo_Payload :: bytes
  mo_Parents :: "parent_blob list"
  mo_Species :: "species option"
  mo_ExitEdge :: bytes
  mo_ExitPosition :: "f64 option"
  mo_Velocity :: "vec option"
  mo_Heading :: "f64 option"
  mo_SimulationSize :: "f64 option"
  mo_SimTick :: "int option"

definition MigrateOut_Validate :: "migrate_out \<Rightarrow> bytes option" where
  "MigrateOut_Validate m = first_problem
     [(\<not> ValidUUID (mo_MigrationID m), ''migrationId''),
      (mo_EntityID m = None, ''entityId is missing''),
      (mo_EntityID m = Some 0, ''entityId is 0''),
      (mo_Kind m = [], ''kind''),
      (mo_GameVersion m = [], ''gameVersion''),
      (mo_Payload m = [], ''payload''),
      (\<not> ValidEdge (mo_ExitEdge m), ''exitEdge''),
      (mo_ExitPosition m = None, ''exitPosition is missing''),
      (no_float (mo_ExitPosition m) \<or> float_test (\<lambda>x. x < 0 \<or> 1 < x) (mo_ExitPosition m),
       ''exitPosition''),
      (mo_Velocity m = None, ''velocity is missing''),
      (opt_test (\<lambda>v. \<not> f64_finite (ve_X v) \<or> \<not> f64_finite (ve_Y v)) (mo_Velocity m), ''velocity''),
      (no_float (mo_Heading m), ''heading''),
      (no_float (mo_SimulationSize m) \<or> float_test (\<lambda>x. x \<le> 0) (mo_SimulationSize m),
       ''simulationSize''),
      (mo_SimTick m = None, ''simTick'')]"

record migrate_in_ack =
  ma_MigrationID :: bytes
  ma_EntityID :: "int option"
  ma_Duplicate :: "bool option"
  ma_SimTick :: "int option"

definition MigrateInAck_Validate :: "migrate_in_ack \<Rightarrow> bytes option" where
  "MigrateInAck_Validate m = first_problem
     [(\<not> ValidUUID (ma_MigrationID m), ''migrationId''),
      (ma_EntityID m = None, ''entityId''),
      (ma_Duplicate m = None, ''duplicate''),
      (ma_SimTick m = None, ''simTick'')]"

record migrate_in_nack =
  mn_MigrationID :: bytes
  mn_EntityID :: "int option"
  mn_Code :: bytes
  mn_Class :: bytes
  mn_Message :: bytes
  mn_RetryAfterMs :: "int option"

definition MigrateInNack_Validate :: "migrate_in_nack \<Rightarrow> bytes option" where
  "MigrateInNack_Validate m = first_problem
     [(\<not> ValidUUID (mn_MigrationID m), ''migrationId''),
      (mn_EntityID m = None, ''entityId''),
      (mn_Code m = [], ''code''),
      (mn_Class m \<noteq> ''transient'' \<and> mn_Class m \<noteq> ''permanent'', ''class'')]"

section \<open>Properties\<close>

lemma resolve_edges_Inr:
  "(resolve_edges border seen es = Inr out) =
     (out = es \<and> list_all ValidEdge es \<and> distinct es \<and> set es \<inter> set seen = {} \<and>
      set es \<subseteq> set border)"
proof (induction es arbitrary: seen out)
  case (Cons e es)
  show ?case
  proof (cases "resolve_edges border (e # seen) es")
    case (Inl err)
    then have "\<not> (list_all ValidEdge es \<and> distinct es \<and> set es \<inter> set (e # seen) = {} \<and>
        set es \<subseteq> set border)"
      using Cons.IH [of "e # seen" es] by simp
    with Inl show ?thesis by auto
  next
    case (Inr o')
    with Cons.IH [of "e # seen" o'] show ?thesis by auto
  qed
qed auto

text \<open>The export edges of a handshake are accepted exactly when they are a non-empty list of
  distinct valid edges, each also a border edge, and they are then returned unchanged; in
  particular no more than the four canonical edges are ever exported.\<close>

theorem export_edges_resolved:
  "(ResolveExportEdges c = Inr out) =
     (out = cu_ExportEdges c \<and> out \<noteq> [] \<and> distinct out \<and> set out \<subseteq> set CanonicalEdges \<and>
      set out \<subseteq> (case cu_BorderEdges c of None \<Rightarrow> {} | Some b \<Rightarrow> set b))"
  by (auto simp: ResolveExportEdges_def resolve_edges_Inr list_all_iff ValidEdge_canonical
      split: option.splits)

end
