(* ===== verification/ContractB.thy ===== *)
theory ContractB imports ContractA begin

text \<open>
  Contract B, the wire between a sidecar and the relay (\<open>internal/contractb\<close>): refusal codes and
  what each of them proves, the messages and their validation, the holes of a map, and the
  published capacity table with the rates derived from it.
\<close>

section \<open>Codes\<close>

definition ValidRole :: "bytes \<Rightarrow> bool" where
  "ValidRole r = (r = ''peer'' \<or> r = ''archive'')"

definition permanentCodes :: "bytes list" where
  "permanentCodes = [''SLOT_VACANT'', ''NOT_A_MEMBER'', ''INVALID_PAYLOAD'',
     ''KIND_UNSUPPORTED'', ''VERSION_UNSUPPORTED'', ''MALFORMED_MESSAGE'']"

definition ClassOf :: "bytes \<Rightarrow> bytes" where
  "ClassOf code = (if code \<in> set permanentCodes then ''permanent'' else ''transient'')"

definition PeerLocalRefusal :: "bytes \<Rightarrow> bool" where
  "PeerLocalRefusal code =
     (code = ''OVERLOADED'' \<or> code = ''SIM_SIZE_MISMATCH'' \<or> code = ''MOD_ABSENT'')"

definition PayloadRefusal :: "bytes \<Rightarrow> bool" where
  "PayloadRefusal code =
     (code = ''INVALID_PAYLOAD'' \<or> code = ''KIND_UNSUPPORTED'' \<or>
      code = ''VERSION_UNSUPPORTED'' \<or> code = ''MALFORMED_MESSAGE'')"

section \<open>The map\<close>

record position =
  po_Col :: int
  po_Row :: int

record map_shape =
  ms_Width :: int
  ms_Height :: int

record slot_info =
  si_Slot :: int
  si_Position :: position
  si_PeerID :: bytes
  si_Live :: bool
  si_ModConnected :: bool
  si_GameVersion :: bytes
  si_SimulationSize :: f64
  si_ExportEdges :: "bytes list"

record peer_status =
  ps_Epoch :: int
  ps_Map :: map_shape
  ps_Slots :: "slot_info list"

definition Holes :: "peer_status \<Rightarrow> position list" where
  "Holes p =
     (let taken = map si_Position (ps_Slots p) in
      concat (map (\<lambda>row. concat (map (\<lambda>col.
          let pos = \<lparr>po_Col = col, po_Row = row\<rparr> in
          if pos \<in> set taken then [] else [pos]) [0..ms_Width (ps_Map p) - 1]))
        [0..ms_Height (ps_Map p) - 1]))"

section \<open>Handshake and claim\<close>

record handshake =
  hs_PeerID :: bytes
  hs_Role :: bytes
  hs_ProtocolVersion :: bytes
  hs_GameVersion :: bytes
  hs_SidecarVersion :: bytes
  hs_SimulationSize :: f64

definition peer_id_char :: "char \<Rightarrow> bool" where
  "peer_id_char c =
     (between 65 90 (byte c) \<or> between 97 122 (byte c) \<or> is_digit c \<or>
      c = CHR ''.'' \<or> c = CHR ''_'' \<or> c = CHR ''-'')"

definition Handshake_Validate :: "handshake \<Rightarrow> bytes option" where
  "Handshake_Validate h = first_problem
     [(hs_PeerID h = [], ''peerId is empty''),
      (64 < length (hs_PeerID h), ''peerId over the 64 limit''),
      (\<not> list_all peer_id_char (hs_PeerID h), ''peerId outside [A-Za-z0-9._-]''),
      (\<not> ValidRole (hs_Role h), ''role''),
      (hs_ProtocolVersion h = [], ''protocolVersion'')]"

record sector_claim =
  sc_PreferredSlot :: int
  sc_PreferredPosition :: "position option"
  sc_InsertAfterSlot :: int
  sc_InsertAxis :: bytes
  sc_SimulationSize :: f64
  sc_ExportEdges :: "bytes list"
  sc_BorderEdges :: "bytes list"
  sc_GameVersion :: bytes
  sc_ModConnected :: bool

definition SectorClaim_Validate :: "sector_claim \<Rightarrow> bytes option" where
  "SectorClaim_Validate c = first_problem
     [(sc_PreferredSlot c < 0, ''preferredSlot''),
      (opt_test (\<lambda>p. po_Col p < 0 \<or> po_Row p < 0) (sc_PreferredPosition c), ''preferredPosition''),
      (sc_InsertAfterSlot c < 0, ''insertAfterSlot''),
      (sc_InsertAxis c \<noteq> [] \<and> sc_InsertAxis c \<noteq> ''E'' \<and> sc_InsertAxis c \<noteq> ''N'', ''insertAxis''),
      (no_float (Some (sc_SimulationSize c)) \<or>
       float_test (\<lambda>x. x < 0) (Some (sc_SimulationSize c)), ''simulationSize''),
      (\<not> list_all ValidEdge (sc_ExportEdges c), ''exportEdges'')]"

section \<open>Migration frames\<close>

record lineage_parent =
  lp_EntityID :: int
  lp_GenomeHash :: bytes
  lp_GapReason :: bytes

record reroute_info =
  ri_FromSlot :: int
  ri_Count :: int
  ri_Proof :: bytes
  ri_AtMs :: int

record migration_payload =
  mp_MigrationID :: bytes
  mp_Kind :: bytes
  mp_BodyVersion :: bytes
  mp_BB8 :: bytes
  mp_GenomeHash :: bytes
  mp_Parents :: "lineage_parent list"
  mp_Species :: "species option"
  mp_SourcePeer :: bytes
  mp_SourceSlot :: int
  mp_DestSlot :: int
  mp_ExitEdge :: bytes
  mp_ExitPosition :: f64
  mp_Velocity :: vec
  mp_Heading :: f64
  mp_EntityID :: int
  mp_Timestamp :: int
  mp_Reroute :: "reroute_info option"

definition MigrationPayload_Validate :: "migration_payload \<Rightarrow> bytes option" where
  "MigrationPayload_Validate p = first_problem
     [(\<not> ValidUUID (mp_MigrationID p), ''migrationId''),
      (mp_Kind p = [], ''kind''),
      (mp_BodyVersion p = [], ''body.version''),
      (mp_BB8 p = [], ''body.bb8''),
      (mp_SourcePeer p = [], ''sourcePeer''),
      (mp_DestSlot p < 1, ''destSlot''),
      (opt_test (\<lambda>r. ri_Count r < 1) (mp_Reroute p), ''reroute.count''),
      (\<not> ValidEdge (mp_ExitEdge p), ''exitEdge''),
      (no_float (Some (mp_ExitPosition p)) \<or>
       float_test (\<lambda>x. x < 0 \<or> 1 < x) (Some (mp_ExitPosition p)), ''exitPosition''),
      (\<not> f64_finite (ve_X (mp_Velocity p)) \<or> \<not> f64_finite (ve_Y (mp_Velocity p)), ''velocity''),
      (\<not> f64_finite (mp_Heading p), ''heading'')]"

record migration_ack =
  ak_MigrationID :: bytes
  ak_SourcePeer :: bytes
  ak_DestPeer :: bytes
  ak_EntityID :: int
  ak_Duplicate :: bool
  ak_DeliveredAt :: int

record migration_attempt =
  at_DestSlot :: int
  at_RerouteCount :: int

record migration_nack =
  nk_MigrationID :: bytes
  nk_SourcePeer :: bytes
  nk_DestPeer :: bytes
  nk_Code :: bytes
  nk_Class :: bytes
  nk_RetryAfterMs :: int
  nk_NeverForwarded :: "bool option"
  nk_RelaySessionID :: bytes
  nk_RefusedAttempt :: "migration_attempt option"

definition ProvesNoCustody :: "migration_nack \<Rightarrow> bytes \<Rightarrow> bool" where
  "ProvesNoCustody n entrySession =
     (if nk_NeverForwarded n \<noteq> Some True then False
      else if nk_RelaySessionID n = [] \<or> entrySession = [] then False
      else nk_RelaySessionID n = entrySession)"

definition ProvesAttemptRefusal :: "migration_nack \<Rightarrow> bytes \<Rightarrow> int \<Rightarrow> int \<Rightarrow> bool" where
  "ProvesAttemptRefusal n entrySession destSlot rerouteCount =
     (case nk_RefusedAttempt n of
        None \<Rightarrow> False
      | Some a \<Rightarrow>
          if nk_Code n \<noteq> ''NOT_FORWARDED'' \<or> nk_NeverForwarded n = None then False
          else if nk_RelaySessionID n = [] \<or> entrySession = [] \<or>
                  nk_RelaySessionID n \<noteq> entrySession then False
          else at_DestSlot a = destSlot \<and> at_RerouteCount a = rerouteCount)"

record forward_receipt =
  fr_MigrationID :: bytes
  fr_DestSlot :: int
  fr_RelaySessionID :: bytes
  fr_ForwardedAt :: int

definition ForwardReceipt_Validate :: "forward_receipt \<Rightarrow> bytes option" where
  "ForwardReceipt_Validate r = first_problem
     [(\<not> ValidUUID (fr_MigrationID r), ''migrationId''),
      (fr_DestSlot r < 1, ''destSlot''),
      (\<not> ValidUUID (fr_RelaySessionID r), ''relaySessionId'')]"

section \<open>Limits\<close>

record limits =
  li_MaxConnectionsPerPeer :: int
  li_MaxConnectionsPerAddress :: int
  li_MaxFramesPerSecond :: int
  li_MaxFrameBytes :: int
  li_MaxBytesPerSecond :: int
  li_MaxClaimsPerMinute :: int
  li_MaxGenomeRequestsPerMinute :: int
  li_MaxSubscribers :: int

definition DefaultLimits :: limits where
  "DefaultLimits = \<lparr>li_MaxConnectionsPerPeer = 2, li_MaxConnectionsPerAddress = 8,
     li_MaxFramesPerSecond = 50, li_MaxFrameBytes = 8388608, li_MaxBytesPerSecond = 4194304,
     li_MaxClaimsPerMinute = 12, li_MaxGenomeRequestsPerMinute = 30, li_MaxSubscribers = 4\<rparr>"

definition or_default :: "int \<Rightarrow> int \<Rightarrow> int" where
  "or_default v d = (if v \<le> 0 then d else v)"

definition ApplyDefaults :: "limits \<Rightarrow> limits" where
  "ApplyDefaults l =
     \<lparr>li_MaxConnectionsPerPeer =
        or_default (li_MaxConnectionsPerPeer l) (li_MaxConnectionsPerPeer DefaultLimits),
      li_MaxConnectionsPerAddress =
        or_default (li_MaxConnectionsPerAddress l) (li_MaxConnectionsPerAddress DefaultLimits),
      li_MaxFramesPerSecond =
        or_default (li_MaxFramesPerSecond l) (li_MaxFramesPerSecond DefaultLimits),
      li_MaxFrameBytes = or_default (li_MaxFrameBytes l) (li_MaxFrameBytes DefaultLimits),
      li_MaxBytesPerSecond =
        or_default (li_MaxBytesPerSecond l) (li_MaxBytesPerSecond DefaultLimits),
      li_MaxClaimsPerMinute =
        or_default (li_MaxClaimsPerMinute l) (li_MaxClaimsPerMinute DefaultLimits),
      li_MaxGenomeRequestsPerMinute =
        or_default (li_MaxGenomeRequestsPerMinute l) (li_MaxGenomeRequestsPerMinute DefaultLimits),
      li_MaxSubscribers = or_default (li_MaxSubscribers l) (li_MaxSubscribers DefaultLimits)\<rparr>"

definition PublishedLimitKeys :: "bytes list" where
  "PublishedLimitKeys = [''maxConnectionsPerPeer'', ''maxConnectionsPerAddress'',
     ''maxFramesPerSecond'', ''maxFrameBytes'', ''maxBytesPerSecond'', ''maxClaimsPerMinute'',
     ''maxGenomeRequestsPerMinute'', ''maxSubscribers'']"

definition Published :: "limits \<Rightarrow> (bytes, int) gomap" where
  "Published l =
     [(''maxConnectionsPerPeer'', li_MaxConnectionsPerPeer l),
      (''maxConnectionsPerAddress'', li_MaxConnectionsPerAddress l),
      (''maxFramesPerSecond'', li_MaxFramesPerSecond l),
      (''maxFrameBytes'', li_MaxFrameBytes l),
      (''maxBytesPerSecond'', li_MaxBytesPerSecond l),
      (''maxClaimsPerMinute'', li_MaxClaimsPerMinute l),
      (''maxGenomeRequestsPerMinute'', li_MaxGenomeRequestsPerMinute l),
      (''maxSubscribers'', li_MaxSubscribers l)]"

definition MigrationFanInDivisor :: int where
  "MigrationFanInDivisor = 8"

text \<open>Go's integer division truncates towards zero; both arguments are non-negative wherever the
  code divides here, except for a negative ceiling, which falls under the floor of one.\<close>

definition MigrationFanInRate :: "int \<Rightarrow> int" where
  "MigrationFanInRate maxFramesPerSecond =
     (let rate = maxFramesPerSecond div MigrationFanInDivisor in if rate < 1 then 1 else rate)"

definition MigrationFanInInterval :: "int \<Rightarrow> duration" where
  "MigrationFanInInterval maxFramesPerSecond =
     (let rate = MigrationFanInRate maxFramesPerSecond;
          interval = (if second mod rate \<noteq> 0 then second div rate + 1 else second div rate)
      in if interval < 1 then 1 else interval)"

section \<open>Properties\<close>

lemma fan_in_rate:
  assumes "0 < fps" and "fps \<le> 8 * second"
  shows "second \<le> MigrationFanInRate fps * MigrationFanInInterval fps \<and>
    MigrationFanInRate fps * (MigrationFanInInterval fps - 1) < second \<and>
    1 \<le> MigrationFanInRate fps \<and>
    (MigrationFanInDivisor \<le> fps \<longrightarrow> MigrationFanInDivisor * MigrationFanInRate fps \<le> fps)"
proof -
  let ?r = "MigrationFanInRate fps"
  have r: "1 \<le> ?r" "?r \<le> second"
    using assms by (auto simp: MigrationFanInRate_def MigrationFanInDivisor_def second_def Let_def)
  define k where "k = second div ?r"
  define d where "d = second mod ?r"
  have eq: "second = ?r * k + d" by (simp add: k_def d_def)
  have m: "0 \<le> d" "d < ?r" using r(1) by (simp_all add: d_def)
  have q: "1 \<le> k" using r pos_imp_zdiv_pos_iff [of ?r second] unfolding k_def by linarith
  have i: "MigrationFanInInterval fps = (if d \<noteq> 0 then k + 1 else k)"
    using q by (auto simp: MigrationFanInInterval_def Let_def k_def d_def)
  have "second \<le> ?r * MigrationFanInInterval fps"
    using m unfolding i eq by (simp add: distrib_left)
  moreover have "?r * (MigrationFanInInterval fps - 1) < second"
    using m r(1) unfolding i eq by (auto simp: right_diff_distrib distrib_left)
  moreover have "MigrationFanInDivisor \<le> fps \<Longrightarrow> MigrationFanInDivisor * ?r \<le> fps"
    by (auto simp: MigrationFanInRate_def MigrationFanInDivisor_def Let_def)
  ultimately show ?thesis using r(1) by simp
qed

text \<open>The interval between migration forwards to one destination is the smallest number of
  nanoseconds such that no more than the fan-in rate fits into any second, and at every
  supported ceiling that rate is at most one eighth of it.\<close>

theorem fan_in_interval_exact:
  assumes "0 < fps" and "fps \<le> 8 * second"
  shows "second \<le> MigrationFanInRate fps * MigrationFanInInterval fps \<and>
    MigrationFanInRate fps * (MigrationFanInInterval fps - 1) < second \<and>
    1 \<le> MigrationFanInRate fps \<and>
    (MigrationFanInDivisor \<le> fps \<longrightarrow> MigrationFanInDivisor * MigrationFanInRate fps \<le> fps)"
  using assms by (rule fan_in_rate)

lemma fan_in_interval_exact_witness:
  "second \<le> MigrationFanInRate 50 * MigrationFanInInterval 50 \<and> MigrationFanInRate 50 = 6"
  using fan_in_interval_exact [of 50]
  by (simp add: second_def MigrationFanInRate_def MigrationFanInDivisor_def)

text \<open>The published capacity table has no hole and no "unlimited": after the defaults are
  applied to any configuration, every key of the table is published exactly once, with a
  positive value, which is the configured one whenever that was positive; applying the
  defaults again changes nothing.\<close>

theorem published_limits_complete:
  "map fst (Published (ApplyDefaults l)) = PublishedLimitKeys \<and> distinct PublishedLimitKeys \<and>
   (\<forall>(k, v) \<in> set (Published (ApplyDefaults l)). 0 < v) \<and>
   list_all2 (\<lambda>(k, v) (k', w). 0 < v \<longrightarrow> w = v) (Published l) (Published (ApplyDefaults l)) \<and>
   ApplyDefaults (ApplyDefaults l) = ApplyDefaults l"
proof -
  have pos: "0 < d \<Longrightarrow> 0 < or_default v d" "0 < v \<Longrightarrow> or_default v d = v"
    "0 < d \<Longrightarrow> or_default (or_default v d) d = or_default v d" for v d
    by (auto simp: or_default_def)
  show ?thesis
    by (simp add: Published_def ApplyDefaults_def PublishedLimitKeys_def DefaultLimits_def pos)
qed

lemma published_limits_complete_witness:
  "map_of (Published (ApplyDefaults (DefaultLimits\<lparr>li_MaxSubscribers := 0\<rparr>))) ''maxSubscribers'' = Some 4"
  using published_limits_complete [of "DefaultLimits\<lparr>li_MaxSubscribers := 0\<rparr>"]
  by (simp add: Published_def ApplyDefaults_def DefaultLimits_def or_default_def)

text \<open>The holes of a status are the free positions of its rectangle.\<close>

lemma Holes_iff:
  "pos \<in> set (Holes p) \<longleftrightarrow>
     0 \<le> po_Col pos \<and> po_Col pos < ms_Width (ps_Map p) \<and>
     0 \<le> po_Row pos \<and> po_Row pos < ms_Height (ps_Map p) \<and>
     (\<forall>s \<in> set (ps_Slots p). si_Position s \<noteq> pos)"
proof -
  obtain c r where pos: "pos = \<lparr>po_Col = c, po_Row = r\<rparr>" by (cases pos) simp
  show ?thesis by (auto simp: Holes_def Let_def pos) (metis image_eqI)
qed

end
