(* ===== verification/Grid.thy ===== *)
theory Grid imports ContractB "HOL-Library.Product_Lexorder" begin

text \<open>
  The relay's map (\<open>internal/relay/grid.go\<close>): reservations on a rectangle, their placement by
  preference, splice, hole or growth, release and handover, and the effective neighbour of a
  slot along an export edge.  The file that \<open>Save\<close> writes is the grid value itself; its JSON
  encoding is not modelled.
\<close>

section \<open>Data\<close>

record reservation =
  res_Slot :: int
  res_Col :: int
  res_Row :: int
  res_PeerID :: bytes

definition res_pos :: "reservation \<Rightarrow> position" where
  "res_pos r = \<lparr>po_Col = res_Col r, po_Row = res_Row r\<rparr>"

record grid =
  gr_Width :: int
  gr_Height :: int
  gr_Slots :: "reservation list"
  gr_MaxSlotEverIssued :: int

definition empty_grid :: grid where
  "empty_grid = \<lparr>gr_Width = 0, gr_Height = 0, gr_Slots = [], gr_MaxSlotEverIssued = 0\<rparr>"

definition structural_key :: "reservation \<Rightarrow> int \<times> int" where
  "structural_key r = (res_Row r, res_Col r)"

definition sort_slots :: "grid \<Rightarrow> grid" where
  "sort_slots g = g\<lparr>gr_Slots := sort_key structural_key (gr_Slots g)\<rparr>"

section \<open>Loading\<close>

text \<open>\<open>ring.json\<close> as decoded: a grid and the retired ring, whose members have no position.\<close>

record grid_file =
  gf_Grid :: grid
  gf_LegacyRing :: "reservation list"

fun lay_ring :: "int \<Rightarrow> reservation list \<Rightarrow> reservation list" where
  "lay_ring i [] = []"
| "lay_ring i (r # rs) = r\<lparr>res_Col := i, res_Row := 0\<rparr> # lay_ring (i + 1) rs"

definition upgrade_ring :: "grid_file \<Rightarrow> grid" where
  "upgrade_ring f =
     (let g = gf_Grid f in
      if gr_Slots g = [] \<and> gf_LegacyRing f \<noteq> []
      then g\<lparr>gr_Slots := lay_ring 0 (gf_LegacyRing f),
             gr_Width := int (length (gf_LegacyRing f)), gr_Height := 1\<rparr>
      else g)"

definition absorb :: "reservation \<Rightarrow> grid \<Rightarrow> grid" where
  "absorb r g =
     \<lparr>gr_Width = (if res_Col r \<ge> gr_Width g then res_Col r + 1 else gr_Width g),
      gr_Height = (if res_Row r \<ge> gr_Height g then res_Row r + 1 else gr_Height g),
      gr_Slots = gr_Slots g,
      gr_MaxSlotEverIssued = (if res_Slot r > gr_MaxSlotEverIssued g then res_Slot r
                              else gr_MaxSlotEverIssued g)\<rparr>"

definition LoadGrid :: "grid_file option \<Rightarrow> grid" where
  "LoadGrid file =
     (case file of
        None \<Rightarrow> empty_grid
      | Some f \<Rightarrow> (let g = upgrade_ring f in sort_slots (fold absorb (gr_Slots g) g)))"

text \<open>What \<open>Save\<close> leaves in the file: the retired ring is dropped.\<close>

definition Save :: "grid \<Rightarrow> grid_file" where
  "Save g = \<lparr>gf_Grid = g, gf_LegacyRing = []\<rparr>"

section \<open>Lookups\<close>

definition Shape :: "grid \<Rightarrow> map_shape" where
  "Shape g = \<lparr>ms_Width = gr_Width g, ms_Height = gr_Height g\<rparr>"

definition Size :: "grid \<Rightarrow> int" where
  "Size g = int (length (gr_Slots g))"

definition ResOfPeer :: "grid \<Rightarrow> bytes \<Rightarrow> reservation option" where
  "ResOfPeer g peerID = find (\<lambda>r. res_PeerID r = peerID) (gr_Slots g)"

definition ResOfSlot :: "grid \<Rightarrow> int \<Rightarrow> reservation option" where
  "ResOfSlot g slot = find (\<lambda>r. res_Slot r = slot) (gr_Slots g)"

definition SlotOfPeer :: "grid \<Rightarrow> bytes \<Rightarrow> int" where
  "SlotOfPeer g peerID = (case ResOfPeer g peerID of None \<Rightarrow> 0 | Some r \<Rightarrow> res_Slot r)"

definition PeerOfSlot :: "grid \<Rightarrow> int \<Rightarrow> bytes" where
  "PeerOfSlot g slot = (case ResOfSlot g slot of None \<Rightarrow> [] | Some r \<Rightarrow> res_PeerID r)"

definition At :: "grid \<Rightarrow> int \<Rightarrow> int \<Rightarrow> reservation option" where
  "At g col row = find (\<lambda>r. res_Col r = col \<and> res_Row r = row) (gr_Slots g)"

text \<open>The positions of the rectangle in the order both loops of the source visit them.\<close>

definition rectangle :: "grid \<Rightarrow> (int \<times> int) list" where
  "rectangle g =
     concat (map (\<lambda>row. map (\<lambda>col. (col, row)) [0..gr_Width g - 1]) [0..gr_Height g - 1])"

definition grid_Holes :: "grid \<Rightarrow> position list" where
  "grid_Holes g =
     map (\<lambda>(c, r). \<lparr>po_Col = c, po_Row = r\<rparr>) (filter (\<lambda>(c, r). At g c r = None) (rectangle g))"

definition HasHole :: "grid \<Rightarrow> bool" where
  "HasHole g = (gr_Width g * gr_Height g > Size g)"

definition firstHole :: "grid \<Rightarrow> (int \<times> int) option" where
  "firstHole g =
     (if \<not> HasHole g then None else find (\<lambda>(c, r). At g c r = None) (rectangle g))"

section \<open>Placement\<close>

record preference =
  pf_Slot :: int
  pf_Position :: "position option"
  pf_InsertAfterSlot :: int
  pf_InsertAxis :: bytes

definition reserve :: "bytes \<Rightarrow> int \<Rightarrow> int \<Rightarrow> grid \<Rightarrow> reservation \<times> grid" where
  "reserve peerID col row g =
     (let n = gr_MaxSlotEverIssued g + 1;
          r = \<lparr>res_Slot = n, res_Col = col, res_Row = row, res_PeerID = peerID\<rparr>
      in (r, sort_slots
        \<lparr>gr_Width = (if col \<ge> gr_Width g then col + 1 else gr_Width g),
         gr_Height = (if row \<ge> gr_Height g then row + 1 else gr_Height g),
         gr_Slots = gr_Slots g @ [r],
         gr_MaxSlotEverIssued = n\<rparr>))"

definition placeAt :: "bytes \<Rightarrow> int \<Rightarrow> int \<Rightarrow> grid \<Rightarrow> (reservation \<times> grid) option" where
  "placeAt peerID col row g =
     (if col < 0 \<or> row < 0 then None
      else if gr_Width g = 0 \<and> gr_Height g = 0 then
        (if col \<noteq> 0 \<or> row \<noteq> 0 then None
         else Some (reserve peerID col row (g\<lparr>gr_Width := 1, gr_Height := 1\<rparr>)))
      else if col < gr_Width g \<and> row < gr_Height g then
        (if At g col row \<noteq> None then None else Some (reserve peerID col row g))
      else if col = gr_Width g \<and> row < max (gr_Height g) 1 then
        (if HasHole g then None
         else Some (reserve peerID col row
           (g\<lparr>gr_Width := gr_Width g + 1,
              gr_Height := (if gr_Height g = 0 then 1 else gr_Height g)\<rparr>)))
      else if row = gr_Height g \<and> col < max (gr_Width g) 1 then
        (if HasHole g then None
         else Some (reserve peerID col row
           (g\<lparr>gr_Height := gr_Height g + 1,
              gr_Width := (if gr_Width g = 0 then 1 else gr_Width g)\<rparr>)))
      else None)"

definition splice :: "bytes \<Rightarrow> reservation \<Rightarrow> bytes \<Rightarrow> grid \<Rightarrow> reservation \<times> grid" where
  "splice peerID anchor axis g =
     (if axis = ''N'' then
        reserve peerID (res_Col anchor) (res_Row anchor + 1)
          (g\<lparr>gr_Slots := map (\<lambda>r. if res_Row r > res_Row anchor then r\<lparr>res_Row := res_Row r + 1\<rparr> else r)
                           (gr_Slots g),
             gr_Height := gr_Height g + 1\<rparr>)
      else
        reserve peerID (res_Col anchor + 1) (res_Row anchor)
          (g\<lparr>gr_Slots := map (\<lambda>r. if res_Col r > res_Col anchor then r\<lparr>res_Col := res_Col r + 1\<rparr> else r)
                           (gr_Slots g),
             gr_Width := gr_Width g + 1\<rparr>))"

definition place_anywhere :: "bytes \<Rightarrow> grid \<Rightarrow> reservation \<times> grid" where
  "place_anywhere peerID g =
     (case firstHole g of
        Some (col, row) \<Rightarrow> reserve peerID col row g
      | None \<Rightarrow>
          if gr_Width g = 0 \<or> gr_Height g = 0
          then reserve peerID 0 0 (g\<lparr>gr_Width := 1, gr_Height := 1\<rparr>)
          else if gr_Width g \<le> gr_Height g
          then (let g' = g\<lparr>gr_Width := gr_Width g + 1\<rparr> in reserve peerID (gr_Width g' - 1) 0 g')
          else (let g' = g\<lparr>gr_Height := gr_Height g + 1\<rparr> in reserve peerID 0 (gr_Height g' - 1) g'))"

definition place_spliced :: "bytes \<Rightarrow> preference \<Rightarrow> grid \<Rightarrow> reservation \<times> grid" where
  "place_spliced peerID pref g =
     (case (if pf_InsertAfterSlot pref > 0 then ResOfSlot g (pf_InsertAfterSlot pref) else None) of
        Some anchor \<Rightarrow>
          splice peerID anchor (if pf_InsertAxis pref = [] then ''E'' else pf_InsertAxis pref) g
      | None \<Rightarrow> place_anywhere peerID g)"

definition Place :: "bytes \<Rightarrow> preference \<Rightarrow> grid \<Rightarrow> reservation \<times> grid" where
  "Place peerID pref g =
     (case (case pf_Position pref of
              None \<Rightarrow> None
            | Some p \<Rightarrow> placeAt peerID (po_Col p) (po_Row p) g) of
        Some out \<Rightarrow> out
      | None \<Rightarrow> place_spliced peerID pref g)"

section \<open>Release and handover\<close>

definition Release :: "int \<Rightarrow> grid \<Rightarrow> reservation option \<times> grid" where
  "Release slot g =
     (case ResOfSlot g slot of
        None \<Rightarrow> (None, g)
      | Some r \<Rightarrow> (Some r, g\<lparr>gr_Slots := remove1 r (gr_Slots g)\<rparr>))"

fun rebind :: "int \<Rightarrow> bytes \<Rightarrow> reservation list \<Rightarrow> reservation list" where
  "rebind slot peer [] = []"
| "rebind slot peer (r # rs) =
     (if res_Slot r = slot then r\<lparr>res_PeerID := peer\<rparr> # rs else r # rebind slot peer rs)"

definition Handover :: "int \<Rightarrow> bytes \<Rightarrow> grid \<Rightarrow> (reservation \<times> reservation) option \<times> grid" where
  "Handover slot newPeerID g =
     (case ResOfSlot g slot of
        None \<Rightarrow> (None, g)
      | Some old \<Rightarrow>
          (Some (old, old\<lparr>res_PeerID := newPeerID\<rparr>),
           g\<lparr>gr_Slots := rebind slot newPeerID (gr_Slots g)\<rparr>))"

section \<open>The effective neighbour\<close>

text \<open>Go's remainder keeps the sign of the dividend.\<close>

definition go_rem :: "int \<Rightarrow> int \<Rightarrow> int" where
  "go_rem a b = (if a < 0 then - ((- a) mod b) else a mod b)"

definition wrapIndex :: "int \<Rightarrow> int \<Rightarrow> int" where
  "wrapIndex i n = (if n \<le> 0 then 0 else go_rem (go_rem i n + n) n)"

record skip =
  sk_Slot :: "int option"
  sk_Position :: position
  sk_Reason :: bytes

definition step_pos :: "bytes \<Rightarrow> int \<Rightarrow> int \<Rightarrow> position \<Rightarrow> int \<Rightarrow> position" where
  "step_pos edge width height from step =
     (let delta = (if Reverse edge then -1 else 1) in
      if Vertical edge
      then from\<lparr>po_Row := wrapIndex (po_Row from + delta * step) height\<rparr>
      else from\<lparr>po_Col := wrapIndex (po_Col from + delta * step) width\<rparr>)"

text \<open>The loop over the steps, and \<open>Effective\<close>.  A reason of \<open>[]\<close> is Go's empty string: the slot
  is deliverable.\<close>

fun effective_loop ::
  "grid \<Rightarrow> (reservation \<Rightarrow> bytes) \<Rightarrow> position list \<Rightarrow> skip list \<Rightarrow> reservation option \<times> skip list"
where
  "effective_loop g ok [] skipped = (None, skipped)"
| "effective_loop g ok (pos # ps) skipped =
     (case At g (po_Col pos) (po_Row pos) of
        None \<Rightarrow> effective_loop g ok ps
          (skipped @ [\<lparr>sk_Slot = None, sk_Position = pos, sk_Reason = ''hole''\<rparr>])
      | Some r \<Rightarrow>
          if ok r \<noteq> []
          then effective_loop g ok ps
            (skipped @ [\<lparr>sk_Slot = Some (res_Slot r), sk_Position = pos, sk_Reason = ok r\<rparr>])
          else (Some r, skipped))"

definition Effective ::
  "grid \<Rightarrow> reservation \<Rightarrow> bytes \<Rightarrow> (reservation \<Rightarrow> bytes) \<Rightarrow> reservation option \<times> skip list"
where
  "Effective g from edge ok =
     (let len = (if Vertical edge then gr_Height g else gr_Width g)
      in effective_loop g ok
           (map (step_pos edge (gr_Width g) (gr_Height g) (res_pos from)) [1..len - 1]) [])"

end
