(* ===== verification/GridProofs.thy ===== *)
theory GridProofs imports Grid begin

text \<open>
  The invariant of the relay's map and its preservation by every operation; the counting
  argument that makes \<open>HasHole\<close> exact; and what a placement does to everybody else.
\<close>

section \<open>The invariant\<close>

definition cell :: "reservation \<Rightarrow> int \<times> int" where
  "cell r = (res_Col r, res_Row r)"

definition slots_ok :: "grid \<Rightarrow> bool" where
  "slots_ok g =
     (0 \<le> gr_Width g \<and> 0 \<le> gr_Height g \<and> 0 \<le> gr_MaxSlotEverIssued g \<and>
      (\<forall>r \<in> set (gr_Slots g).
         0 \<le> res_Col r \<and> res_Col r < gr_Width g \<and> 0 \<le> res_Row r \<and> res_Row r < gr_Height g \<and>
         1 \<le> res_Slot r \<and> res_Slot r \<le> gr_MaxSlotEverIssued g) \<and>
      distinct (map cell (gr_Slots g)) \<and> distinct (map res_Slot (gr_Slots g)) \<and>
      distinct (map res_PeerID (gr_Slots g)))"

definition grid_ok :: "grid \<Rightarrow> bool" where
  "grid_ok g = (slots_ok g \<and> (gr_Width g = 0) = (gr_Height g = 0) \<and>
     sorted (map structural_key (gr_Slots g)))"

lemma grid_ok_slots [intro]: "grid_ok g \<Longrightarrow> slots_ok g"
  by (simp add: grid_ok_def)

lemma grid_ok_empty [simp]: "grid_ok empty_grid"
  by (simp add: grid_ok_def slots_ok_def empty_grid_def)

lemma slots_okD:
  assumes "slots_ok g"
  shows "0 \<le> gr_Width g" "0 \<le> gr_Height g" "0 \<le> gr_MaxSlotEverIssued g"
    "distinct (map cell (gr_Slots g))" "distinct (map res_Slot (gr_Slots g))"
    "distinct (map res_PeerID (gr_Slots g))"
    "\<And>r. r \<in> set (gr_Slots g) \<Longrightarrow>
         0 \<le> res_Col r \<and> res_Col r < gr_Width g \<and> 0 \<le> res_Row r \<and> res_Row r < gr_Height g \<and>
         1 \<le> res_Slot r \<and> res_Slot r \<le> gr_MaxSlotEverIssued g"
  using assms by (auto simp: slots_ok_def)

section \<open>Lookups\<close>

lemma At_None: "At g c r = None \<longleftrightarrow> (c, r) \<notin> cell ` set (gr_Slots g)"
  by (auto simp: At_def find_None_iff cell_def)

lemma At_Some:
  assumes "slots_ok g"
  shows "At g c r = Some q \<longleftrightarrow> q \<in> set (gr_Slots g) \<and> cell q = (c, r)"
proof
  assume "At g c r = Some q"
  then show "q \<in> set (gr_Slots g) \<and> cell q = (c, r)"
    by (auto simp: At_def find_Some_iff cell_def)
next
  assume q: "q \<in> set (gr_Slots g) \<and> cell q = (c, r)"
  then obtain q' where q': "At g c r = Some q'"
    using At_None [of g c r] by (cases "At g c r") (auto simp: image_iff)
  then have "q' \<in> set (gr_Slots g)" "cell q' = (c, r)"
    by (auto simp: At_def find_Some_iff cell_def)
  with q slots_okD(4) [OF assms] have "q' = q" by (metis distinct_map inj_onD)
  with q' show "At g c r = Some q" by simp
qed

lemma ResOfSlot_Some:
  assumes "slots_ok g"
  shows "ResOfSlot g s = Some q \<longleftrightarrow> q \<in> set (gr_Slots g) \<and> res_Slot q = s"
proof
  assume "ResOfSlot g s = Some q"
  then show "q \<in> set (gr_Slots g) \<and> res_Slot q = s"
    by (auto simp: ResOfSlot_def find_Some_iff)
next
  assume q: "q \<in> set (gr_Slots g) \<and> res_Slot q = s"
  then obtain q' where q': "ResOfSlot g s = Some q'"
    by (cases "ResOfSlot g s") (auto simp: ResOfSlot_def find_None_iff)
  then have "q' \<in> set (gr_Slots g)" "res_Slot q' = s" by (auto simp: ResOfSlot_def find_Some_iff)
  with q slots_okD(5) [OF assms] have "q' = q" by (metis distinct_map inj_onD)
  with q' show "ResOfSlot g s = Some q" by simp
qed

lemma ResOfPeer_Some:
  assumes "slots_ok g"
  shows "ResOfPeer g p = Some q \<longleftrightarrow> q \<in> set (gr_Slots g) \<and> res_PeerID q = p"
proof
  assume "ResOfPeer g p = Some q"
  then show "q \<in> set (gr_Slots g) \<and> res_PeerID q = p"
    by (auto simp: ResOfPeer_def find_Some_iff)
next
  assume q: "q \<in> set (gr_Slots g) \<and> res_PeerID q = p"
  then obtain q' where q': "ResOfPeer g p = Some q'"
    by (cases "ResOfPeer g p") (auto simp: ResOfPeer_def find_None_iff)
  then have "q' \<in> set (gr_Slots g)" "res_PeerID q' = p" by (auto simp: ResOfPeer_def find_Some_iff)
  with q slots_okD(6) [OF assms] have "q' = q" by (metis distinct_map inj_onD)
  with q' show "ResOfPeer g p = Some q" by simp
qed

lemma ResOfPeer_None: "ResOfPeer g p = None \<longleftrightarrow> p \<notin> res_PeerID ` set (gr_Slots g)"
  by (auto simp: ResOfPeer_def find_None_iff)

section \<open>Counting\<close>

lemma set_rectangle:
  "set (rectangle g) = {0..<gr_Width g} \<times> {0..<gr_Height g}"
  by (force simp: rectangle_def)

lemma card_rectangle:
  "0 \<le> gr_Width g \<Longrightarrow> 0 \<le> gr_Height g \<Longrightarrow>
    int (card ({0..<gr_Width g} \<times> {0..<gr_Height g})) = gr_Width g * gr_Height g"
  by (simp add: card_cartesian_product)

text \<open>A rectangle with more positions than reservations has a free one, and conversely.\<close>

lemma HasHole_exact:
  assumes "slots_ok g"
  shows "HasHole g \<longleftrightarrow> (\<exists>p \<in> set (rectangle g). At g (fst p) (snd p) = None)"
proof -
  let ?R = "{0..<gr_Width g} \<times> {0..<gr_Height g}" and ?C = "cell ` set (gr_Slots g)"
  note d = slots_okD [OF assms]
  have sub: "?C \<subseteq> ?R" using d(7) by (auto simp: cell_def)
  have fin: "finite ?R" by simp
  have "card ?C = length (gr_Slots g)"
    using d(4) by (metis distinct_card length_map set_map)
  then have size: "Size g = int (card ?C)" by (simp add: Size_def)
  have "HasHole g \<longleftrightarrow> int (card ?C) < int (card ?R)"
    unfolding card_rectangle [OF d(1,2)] by (simp only: HasHole_def size)
  also have "\<dots> \<longleftrightarrow> card ?C < card ?R" by (simp only: of_nat_less_iff)
  also have "card ?C < card ?R \<longleftrightarrow> ?C \<noteq> ?R"
    using sub fin by (metis card_subset_eq less_irrefl psubset_card_mono psubsetI)
  also have "\<dots> \<longleftrightarrow> (\<exists>p \<in> ?R. p \<notin> ?C)" using sub by blast
  finally show ?thesis by (simp add: set_rectangle At_None)
qed

lemma firstHole_Holes:
  assumes "slots_ok g"
  shows "firstHole g = (case grid_Holes g of [] \<Rightarrow> None | p # _ \<Rightarrow> Some (po_Col p, po_Row p))"
proof -
  let ?P = "\<lambda>(c, r). At g c r = None"
  have find: "find ?P xs = (case filter ?P xs of [] \<Rightarrow> None | p # _ \<Rightarrow> Some p)" for xs
    by (induction xs) auto
  have "firstHole g = find ?P (rectangle g)"
  proof (cases "HasHole g")
    case True
    then show ?thesis by (simp add: firstHole_def)
  next
    case False
    then have "find ?P (rectangle g) = None"
      using HasHole_exact [OF assms] by (force simp: find_None_iff)
    with False show ?thesis by (simp add: firstHole_def)
  qed
  then show ?thesis
    by (auto simp: find grid_Holes_def split: list.splits)
qed

lemma firstHole_Some:
  assumes "slots_ok g" and "firstHole g = Some (c, r)"
  shows "0 \<le> c \<and> c < gr_Width g \<and> 0 \<le> r \<and> r < gr_Height g \<and> At g c r = None"
proof -
  from assms(2) have "find (\<lambda>(c, r). At g c r = None) (rectangle g) = Some (c, r)"
    by (simp add: firstHole_def split: if_splits)
  then have "(c, r) \<in> set (rectangle g)" "At g c r = None"
    by (auto simp: find_Some_iff) (metis nth_mem)
  then show ?thesis by (auto simp: set_rectangle)
qed

lemma firstHole_None: "slots_ok g \<Longrightarrow> firstHole g = None \<longleftrightarrow> \<not> HasHole g"
  using HasHole_exact [of g] by (auto simp: firstHole_def find_None_iff)

section \<open>Reserving a free position\<close>

lemma sort_slots_simps [simp]:
  "gr_Width (sort_slots g) = gr_Width g" "gr_Height (sort_slots g) = gr_Height g"
  "gr_MaxSlotEverIssued (sort_slots g) = gr_MaxSlotEverIssued g"
  "set (gr_Slots (sort_slots g)) = set (gr_Slots g)"
  "mset (gr_Slots (sort_slots g)) = mset (gr_Slots g)"
  by (simp_all add: sort_slots_def)

lemma distinct_map_mset: "mset xs = mset ys \<Longrightarrow> distinct (map f xs) = distinct (map f ys)"
  by (metis mset_eq_imp_distinct_iff mset_map)

lemma distinct_map_sort: "distinct (map f (sort_key k xs)) = distinct (map f xs)"
  by (rule distinct_map_mset) simp

lemma sort_slots_ok:
  assumes "slots_ok g" and "(gr_Width g = 0) = (gr_Height g = 0)"
  shows "grid_ok (sort_slots g)"
  using assms by (simp add: grid_ok_def slots_ok_def) (simp add: sort_slots_def distinct_map_sort)

lemma reserve_fields:
  assumes "reserve p c r g = (q, g')"
  shows "q = \<lparr>res_Slot = gr_MaxSlotEverIssued g + 1, res_Col = c, res_Row = r, res_PeerID = p\<rparr>"
    "mset (gr_Slots g') = add_mset q (mset (gr_Slots g))"
    "set (gr_Slots g') = insert q (set (gr_Slots g))"
    "gr_MaxSlotEverIssued g' = gr_MaxSlotEverIssued g + 1"
    "gr_Width g' = max (gr_Width g) (c + 1)" "gr_Height g' = max (gr_Height g) (r + 1)"
  using assms by (auto simp: reserve_def Let_def sort_slots_def)

lemma reserve_ok:
  assumes g: "slots_ok g" and free: "(c, r) \<notin> cell ` set (gr_Slots g)" and "0 \<le> c" "0 \<le> r"
    and p: "p \<notin> res_PeerID ` set (gr_Slots g)"
    and res: "reserve p c r g = (q, g')"
  shows "grid_ok g'"
proof -
  note d = slots_okD [OF g]
  let ?q = "\<lparr>res_Slot = gr_MaxSlotEverIssued g + 1, res_Col = c, res_Row = r, res_PeerID = p\<rparr>"
  let ?h = "\<lparr>gr_Width = (if c \<ge> gr_Width g then c + 1 else gr_Width g),
         gr_Height = (if r \<ge> gr_Height g then r + 1 else gr_Height g),
         gr_Slots = gr_Slots g @ [?q],
         gr_MaxSlotEverIssued = gr_MaxSlotEverIssued g + 1\<rparr>"
  have g': "g' = sort_slots ?h" using res by (auto simp: reserve_def Let_def)
  have new: "gr_MaxSlotEverIssued g + 1 \<notin> res_Slot ` set (gr_Slots g)" using d(7) by force
  have "slots_ok ?h"
    unfolding slots_ok_def
  proof (intro conjI)
    show "distinct (map cell (gr_Slots ?h))" using d(4) free by (simp add: cell_def)
    show "distinct (map res_Slot (gr_Slots ?h))" using d(5) new by simp
    show "distinct (map res_PeerID (gr_Slots ?h))" using d(6) p by simp
    show "\<forall>x \<in> set (gr_Slots ?h). 0 \<le> res_Col x \<and> res_Col x < gr_Width ?h \<and>
        0 \<le> res_Row x \<and> res_Row x < gr_Height ?h \<and> 1 \<le> res_Slot x \<and>
        res_Slot x \<le> gr_MaxSlotEverIssued ?h"
      using d(1,2,3,7) assms(3,4) by force
  qed (use d(1,2,3) assms(3,4) in auto)
  then show ?thesis
    unfolding g' by (rule sort_slots_ok) (use d(1,2) assms(3,4) in auto)
qed

text \<open>Widening the rectangle keeps the reservations.\<close>

lemma widen_ok:
  assumes "slots_ok g" and "gr_Width g \<le> w" and "gr_Height g \<le> h"
  shows "slots_ok (g\<lparr>gr_Width := w, gr_Height := h\<rparr>)"
  using assms slots_okD(7) [OF assms(1)] by (force simp: slots_ok_def)

text \<open>Shifting every row, or every column, beyond the anchor makes room next to it.\<close>

definition shift_up :: "int \<Rightarrow> int \<Rightarrow> int" where
  "shift_up a x = (if a < x then x + 1 else x)"

lemma shift_up_inj: "shift_up a x = shift_up a y \<longleftrightarrow> x = y"
  by (auto simp: shift_up_def)

lemma shift_up_mono: "strict_mono (shift_up a)"
  by (auto simp: strict_mono_def shift_up_def)

lemma shift_up_gap: "shift_up a x \<noteq> a + 1"
  by (auto simp: shift_up_def)

definition moved :: "(int \<Rightarrow> int) \<Rightarrow> (int \<Rightarrow> int) \<Rightarrow> reservation \<Rightarrow> reservation" where
  "moved f h r = r\<lparr>res_Col := f (res_Col r), res_Row := h (res_Row r)\<rparr>"

lemma moved_fields [simp]:
  "res_Slot (moved f h r) = res_Slot r" "res_PeerID (moved f h r) = res_PeerID r"
  "res_Col (moved f h r) = f (res_Col r)" "res_Row (moved f h r) = h (res_Row r)"
  by (simp_all add: moved_def)

lemma shift_row: "(if res_Row r > a then r\<lparr>res_Row := res_Row r + 1\<rparr> else r) = moved id (shift_up a) r"
  by (simp add: moved_def shift_up_def)

lemma shift_col: "(if res_Col r > a then r\<lparr>res_Col := res_Col r + 1\<rparr> else r) = moved (shift_up a) id r"
  by (simp add: moved_def shift_up_def)

lemma moved_ok:
  assumes g: "slots_ok g" and "strict_mono f" "strict_mono h"
    and bounds: "\<And>x. 0 \<le> x \<Longrightarrow> x < gr_Width g \<Longrightarrow> 0 \<le> f x \<and> f x < w"
      "\<And>x. 0 \<le> x \<Longrightarrow> x < gr_Height g \<Longrightarrow> 0 \<le> h x \<and> h x < t"
    and "0 \<le> w" "0 \<le> t"
  shows "slots_ok (g\<lparr>gr_Slots := map (moved f h) (gr_Slots g), gr_Width := w, gr_Height := t\<rparr>)"
proof -
  note d = slots_okD [OF g]
  have inj: "inj f" "inj h" using assms(2,3) by (simp_all add: strict_mono_imp_inj_on)
  have cells: "map cell (map (moved f h) rs) = map (map_prod f h) (map cell rs)" for rs
    by (simp add: cell_def)
  have "distinct (map cell (map (moved f h) (gr_Slots g)))"
  proof -
    have "inj (map_prod f h)" using inj by (rule prod.inj_map)
    then have "inj_on (map_prod f h) (set (map cell (gr_Slots g)))" by (rule inj_on_subset) simp
    with d(4) show ?thesis unfolding cells distinct_map [of "map_prod f h"] by simp
  qed
  moreover have "res_Slot \<circ> moved f h = res_Slot" "res_PeerID \<circ> moved f h = res_PeerID"
    by auto
  ultimately show ?thesis
    using d bounds assms(6,7) by (simp add: slots_ok_def)
qed

end
