(* ===== verification/GridPlace.thy ===== *)
theory GridPlace imports GridProofs begin

text \<open>
  Every operation of the map keeps its invariant, and a placement is an insertion: the newcomer
  gets the next slot number, everybody else keeps slot, peer and the order along both axes.
\<close>

section \<open>Placement\<close>

definition placed :: "bytes \<Rightarrow> grid \<Rightarrow> reservation \<Rightarrow> grid \<Rightarrow> bool" where
  "placed p g q g' \<longleftrightarrow>
     grid_ok g' \<and> res_Slot q = gr_MaxSlotEverIssued g + 1 \<and> res_PeerID q = p \<and>
     gr_MaxSlotEverIssued g' = gr_MaxSlotEverIssued g + 1 \<and>
     (\<exists>f h. strict_mono f \<and> strict_mono h \<and>
        set (gr_Slots g') = insert q (moved f h ` set (gr_Slots g)))"

lemma strict_mono_id_int [simp]: "strict_mono (id :: int \<Rightarrow> int)"
  by (simp add: strict_mono_def)

lemma moved_id [simp]: "moved id id = id"
  by (rule ext) (simp add: moved_def)

text \<open>Reserving in a grid whose reservations are those of \<open>g\<close>, moved along the axes.\<close>

lemma reserve_placed:
  assumes g1: "slots_ok g1" and mono: "strict_mono f" "strict_mono h"
    and slots: "gr_Slots g1 = map (moved f h) (gr_Slots g)"
    and mx: "gr_MaxSlotEverIssued g1 = gr_MaxSlotEverIssued g"
    and free: "(c, r) \<notin> cell ` set (gr_Slots g1)" and "0 \<le> c" "0 \<le> r"
    and p: "p \<notin> res_PeerID ` set (gr_Slots g)" and res: "reserve p c r g1 = (q, g')"
  shows "placed p g q g'"
proof -
  have p1: "p \<notin> res_PeerID ` set (gr_Slots g1)" using p slots by auto
  note f = reserve_fields [OF res]
  have "grid_ok g'" by (rule reserve_ok [OF g1 free assms(7,8) p1 res])
  moreover have "set (gr_Slots g') = insert q (moved f h ` set (gr_Slots g))"
    using f(3) slots by simp
  ultimately show ?thesis
    unfolding placed_def using f(1,4) mx mono by auto
qed

lemma reserve_here_placed:
  assumes "slots_ok g" and "gr_Width g \<le> w" "gr_Height g \<le> t"
    and "At g c r = None" "0 \<le> c" "0 \<le> r" and "p \<notin> res_PeerID ` set (gr_Slots g)"
    and "reserve p c r (g\<lparr>gr_Width := w, gr_Height := t\<rparr>) = (q, g')"
  shows "placed p g q g'"
  by (rule reserve_placed [where f = id and h = id, OF widen_ok [OF assms(1-3)] _ _ _ _ _ _ _ _ assms(8)])
    (use assms(4-7) in \<open>simp_all add: At_None\<close>)

lemma update_same [simp]:
  "g\<lparr>gr_Width := gr_Width g, gr_Height := h\<rparr> = g\<lparr>gr_Height := h\<rparr>"
  "g\<lparr>gr_Width := w, gr_Height := gr_Height g\<rparr> = g\<lparr>gr_Width := w\<rparr>"
  "g\<lparr>gr_Height := gr_Height g\<rparr> = g" "g\<lparr>gr_Width := gr_Width g\<rparr> = g"
  by simp_all

lemma outside_free:
  assumes "slots_ok g" and "gr_Width g \<le> c \<or> gr_Height g \<le> r"
  shows "At g c r = None"
  using slots_okD(7) [OF assms(1)] assms(2) by (force simp: At_None cell_def)

lemma placeAt_placed:
  assumes g: "slots_ok g" and p: "p \<notin> res_PeerID ` set (gr_Slots g)"
    and out: "placeAt p c r g = Some (q, g')"
  shows "placed p g q g'"
proof -
  have cr: "0 \<le> c" "0 \<le> r" using out by (auto simp: placeAt_def split: if_splits)
  note here = reserve_here_placed [OF g _ _ _ cr p]
  note le = slots_okD(1,2) [OF g]
  consider
      (first) "gr_Width g = 0" "gr_Height g = 0"
        "reserve p c r (g\<lparr>gr_Width := 1, gr_Height := 1\<rparr>) = (q, g')"
    | (hole) "At g c r = None" "reserve p c r g = (q, g')"
    | (col) "c = gr_Width g" "reserve p c r (g\<lparr>gr_Width := gr_Width g + 1,
        gr_Height := (if gr_Height g = 0 then 1 else gr_Height g)\<rparr>) = (q, g')"
    | (row) "r = gr_Height g" "reserve p c r (g\<lparr>gr_Height := gr_Height g + 1,
        gr_Width := (if gr_Width g = 0 then 1 else gr_Width g)\<rparr>) = (q, g')"
    using out unfolding placeAt_def by (auto split: if_splits)
  then show ?thesis
  proof cases
    case first
    then show ?thesis using outside_free [OF g, of c r] cr
      by (intro here [of 1 1]) simp_all
  next
    case hole
    then show ?thesis by (intro here [of "gr_Width g" "gr_Height g"]) simp_all
  next
    case col
    then show ?thesis using outside_free [OF g, of c r] le(2)
      by (intro here [of "gr_Width g + 1" "if gr_Height g = 0 then 1 else gr_Height g"]) simp_all
  next
    case row
    have comm: "g\<lparr>gr_Height := a, gr_Width := b\<rparr> = g\<lparr>gr_Width := b, gr_Height := a\<rparr>" for a b
      by simp
    show ?thesis using row outside_free [OF g, of c r] le(1)
      by (intro here [of "if gr_Width g = 0 then 1 else gr_Width g" "gr_Height g + 1"])
        (simp_all only: comm, auto)
  qed
qed

lemma place_anywhere_placed:
  assumes g: "slots_ok g" and p: "p \<notin> res_PeerID ` set (gr_Slots g)"
    and out: "place_anywhere p g = (q, g')"
  shows "placed p g q g'"
proof (cases "firstHole g")
  case (Some cr)
  obtain c r where cr: "cr = (c, r)" by (cases cr)
  note h = firstHole_Some [OF g, of c r]
  show ?thesis
    using reserve_here_placed [OF g order_refl order_refl, of c r p q g'] Some cr h p out
    by (simp add: place_anywhere_def)
next
  case None
  note here = reserve_here_placed [OF g _ _ _ _ _ p]
  note le = slots_okD(1,2) [OF g]
  note free = outside_free [OF g]
  show ?thesis
  proof (cases "gr_Width g = 0 \<or> gr_Height g = 0")
    case True
    have z: "At g 0 0 = None" using free True le by (metis)
    from True None out have res: "reserve p 0 0 (g\<lparr>gr_Width := 1, gr_Height := 1\<rparr>) = (q, g')"
      by (simp add: place_anywhere_def)
    show ?thesis
    proof (cases "gr_Width g \<le> 1 \<and> gr_Height g \<le> 1")
      case small: True
      then show ?thesis using here [OF _ _ z _ _ res] by simp
    next
      case False
      have "gr_Slots g = []"
        using slots_okD(7) [OF g] True by (cases "gr_Slots g") force+
      then have "slots_ok (g\<lparr>gr_Width := 1, gr_Height := 1\<rparr>)"
        using le slots_okD(3) [OF g] by (simp add: slots_ok_def)
      from reserve_placed [where f = id and h = id, OF this _ _ _ _ _ _ _ p res]
      show ?thesis using \<open>gr_Slots g = []\<close> by simp
    qed
  next
    case False
    show ?thesis
    proof (cases "gr_Width g \<le> gr_Height g")
      case True
      from True False None out
      have "reserve p (gr_Width g) 0 (g\<lparr>gr_Width := gr_Width g + 1\<rparr>) = (q, g')"
        by (simp add: place_anywhere_def Let_def)
      then show ?thesis using free le
        by (intro here [of "gr_Width g + 1" "gr_Height g" "gr_Width g" 0]) simp_all
    next
      case wide: False
      from wide False None out
      have "reserve p 0 (gr_Height g) (g\<lparr>gr_Height := gr_Height g + 1\<rparr>) = (q, g')"
        by (simp add: place_anywhere_def Let_def)
      then show ?thesis using free le
        by (intro here [of "gr_Width g" "gr_Height g + 1" 0 "gr_Height g"]) simp_all
    qed
  qed
qed

lemma splice_placed:
  assumes g: "slots_ok g" and a: "a \<in> set (gr_Slots g)"
    and p: "p \<notin> res_PeerID ` set (gr_Slots g)" and out: "splice p a axis g = (q, g')"
  shows "placed p g q g'"
proof -
  note d = slots_okD [OF g]
  note da = d(7) [OF a]
  note sh = shift_up_mono
  show ?thesis
  proof (cases "axis = ''N''")
    case True
    let ?g1 = "g\<lparr>gr_Slots := map (moved id (shift_up (res_Row a))) (gr_Slots g),
      gr_Width := gr_Width g, gr_Height := gr_Height g + 1\<rparr>"
    have g1: "slots_ok ?g1"
      by (rule moved_ok [OF g _ sh]) (use d(1,2) in \<open>auto simp: shift_up_def\<close>)
    have free: "(res_Col a, res_Row a + 1) \<notin> cell ` set (gr_Slots ?g1)"
      by (auto simp: cell_def shift_up_def split: if_splits)
    have "g\<lparr>gr_Slots := s, gr_Height := t\<rparr> = g\<lparr>gr_Slots := s, gr_Width := gr_Width g, gr_Height := t\<rparr>"
      for s t by simp
    with out True have res: "reserve p (res_Col a) (res_Row a + 1) ?g1 = (q, g')"
      by (simp only: splice_def shift_row simp_thms if_True)
    show ?thesis
      by (rule reserve_placed [where f = id and h = "shift_up (res_Row a)", OF g1 _ sh _ _ free _ _ p res]) (use da in simp_all)
  next
    case False
    let ?g1 = "g\<lparr>gr_Slots := map (moved (shift_up (res_Col a)) id) (gr_Slots g),
      gr_Width := gr_Width g + 1, gr_Height := gr_Height g\<rparr>"
    have g1: "slots_ok ?g1"
      by (rule moved_ok [OF g sh]) (use d(1,2) in \<open>auto simp: shift_up_def\<close>)
    have free: "(res_Col a + 1, res_Row a) \<notin> cell ` set (gr_Slots ?g1)"
      by (auto simp: cell_def shift_up_def split: if_splits)
    have "g\<lparr>gr_Slots := s, gr_Width := t\<rparr> = g\<lparr>gr_Slots := s, gr_Width := t, gr_Height := gr_Height g\<rparr>"
      for s t by simp
    with out False have res: "reserve p (res_Col a + 1) (res_Row a) ?g1 = (q, g')"
      by (simp only: splice_def shift_col simp_thms if_False)
    show ?thesis
      by (rule reserve_placed [where f = "shift_up (res_Col a)" and h = id, OF g1 sh _ _ _ free _ _ p res]) (use da in simp_all)
  qed
qed

lemma Place_placed:
  assumes g: "slots_ok g" and p: "p \<notin> res_PeerID ` set (gr_Slots g)"
    and out: "Place p pref g = (q, g')"
  shows "placed p g q g'"
proof -
  have spliced: "placed p g q g'" if "place_spliced p pref g = (q, g')"
  proof (cases "if pf_InsertAfterSlot pref > 0 then ResOfSlot g (pf_InsertAfterSlot pref) else None")
    case None
    with that show ?thesis by (simp add: place_spliced_def place_anywhere_placed [OF g p])
  next
    case (Some a)
    then have "a \<in> set (gr_Slots g)"
      using ResOfSlot_Some [OF g] by (auto split: if_splits)
    with that Some show ?thesis
      by (simp add: place_spliced_def splice_placed [OF g _ p])
  qed
  show ?thesis
    using out spliced placeAt_placed [OF g p]
    by (auto simp: Place_def split: option.splits)
qed

text \<open>Nothing but a splice widens a map that has a hole.\<close>

lemma place_keeps_shape:
  assumes g: "slots_ok g" and hole: "HasHole g"
    and nosplice: "pf_InsertAfterSlot pref \<le> 0 \<or> ResOfSlot g (pf_InsertAfterSlot pref) = None"
    and out: "Place p pref g = (q, g')"
  shows "Shape g' = Shape g"
proof -
  obtain c r where cr: "firstHole g = Some (c, r)"
    using firstHole_None [OF g] hole by (cases "firstHole g") auto
  note h = firstHole_Some [OF g cr]
  have inside: "Shape g' = Shape g"
    if "reserve p c r g = (q, g')" "c < gr_Width g" "r < gr_Height g" for c r
    using reserve_fields(5,6) [OF that(1)] that(2,3) by (simp add: Shape_def)
  have pos: "0 < gr_Width g \<and> 0 < gr_Height g" using h by linarith
  have at: "Shape g' = Shape g" if "placeAt p c r g = Some (q, g')" for c r
    using that pos hole inside by (auto simp: placeAt_def split: if_splits)
  have any: "place_spliced p pref g = place_anywhere p g"
    using nosplice by (auto simp: place_spliced_def)
  have "Shape g' = Shape g" if "place_anywhere p g = (q, g')"
    using that inside cr h by (simp add: place_anywhere_def)
  with at out any show ?thesis by (auto simp: Place_def split: option.splits)
qed

text \<open>With a hole and no splice, the newcomer's position was free.\<close>

lemma reserve_pos: "reserve p c r g = (q, g') \<Longrightarrow> res_Col q = c \<and> res_Row q = r"
  using reserve_fields(1) by force

lemma place_free:
  assumes g: "slots_ok g" and hole: "HasHole g"
    and nosplice: "pf_InsertAfterSlot pref \<le> 0 \<or> ResOfSlot g (pf_InsertAfterSlot pref) = None"
    and out: "Place p pref g = (q, g')"
  shows "At g (res_Col q) (res_Row q) = None"
proof -
  obtain c r where cr: "firstHole g = Some (c, r)"
    using firstHole_None [OF g] hole by (cases "firstHole g") auto
  note h = firstHole_Some [OF g cr]
  have pos: "0 < gr_Width g \<and> 0 < gr_Height g" using h by linarith
  have at: "At g (res_Col q) (res_Row q) = None" if "placeAt p c r g = Some (q, g')" for c r
    using that pos hole reserve_pos [of p c r g q g'] by (auto simp: placeAt_def split: if_splits)
  have any: "place_spliced p pref g = place_anywhere p g"
    using nosplice by (auto simp: place_spliced_def)
  have "At g (res_Col q) (res_Row q) = None" if "place_anywhere p g = (q, g')"
    using that cr h reserve_pos [of p c r g q g'] by (simp add: place_anywhere_def)
  with at out any show ?thesis by (auto simp: Place_def split: option.splits)
qed

section \<open>Release, handover, loading\<close>

lemma distinct_map_remove1: "distinct (map f xs) \<Longrightarrow> distinct (map f (remove1 r xs))"
  by (induction xs) (auto dest: set_remove1_subset [THEN subsetD])

lemma Release_ok:
  assumes "grid_ok g" and "Release slot g = (out, g')"
  shows "grid_ok g'" and "gr_MaxSlotEverIssued g' = gr_MaxSlotEverIssued g"
    and "set (gr_Slots g') = {r \<in> set (gr_Slots g). res_Slot r \<noteq> slot}"
    and "Shape g' = Shape g"
proof -
  have g: "slots_ok g" using assms(1) by auto
  note d = slots_okD [OF g]
  have "grid_ok g' \<and> gr_MaxSlotEverIssued g' = gr_MaxSlotEverIssued g \<and>
    set (gr_Slots g') = {r \<in> set (gr_Slots g). res_Slot r \<noteq> slot} \<and> Shape g' = Shape g"
  proof (cases "ResOfSlot g slot")
    case None
    then have "g' = g" using assms(2) by (simp add: Release_def)
    with None assms(1) show ?thesis by (auto simp: ResOfSlot_def find_None_iff)
  next
    case (Some r)
    have r: "r \<in> set (gr_Slots g)" "res_Slot r = slot" using Some ResOfSlot_Some [OF g] by auto
    have g': "g' = g\<lparr>gr_Slots := remove1 r (gr_Slots g)\<rparr>" using assms(2) Some by (simp add: Release_def)
    have dist: "distinct (gr_Slots g)" using d(5) by (simp add: distinct_map)
    have sub: "set (remove1 r (gr_Slots g)) \<subseteq> set (gr_Slots g)" by (rule set_remove1_subset)
    have "sorted (map structural_key (remove1 r (gr_Slots g)))"
      using assms(1) by (simp add: grid_ok_def sorted_map_remove1)
    moreover have "slots_ok g'"
      using d sub unfolding g' slots_ok_def by (auto intro: distinct_map_remove1)
    moreover have "{x \<in> set (gr_Slots g). res_Slot x \<noteq> slot} = set (gr_Slots g) - {r}"
    proof -
      have "x = r" if "x \<in> set (gr_Slots g)" "res_Slot x = slot" for x
        using that r d(5) by (metis distinct_map inj_onD)
      then show ?thesis using r(2) by blast
    qed
    ultimately show ?thesis
      using assms(1) dist by (simp add: g' grid_ok_def Shape_def)
  qed
  then show "grid_ok g'" "gr_MaxSlotEverIssued g' = gr_MaxSlotEverIssued g"
    "set (gr_Slots g') = {r \<in> set (gr_Slots g). res_Slot r \<noteq> slot}" "Shape g' = Shape g"
    by simp_all
qed

lemma rebind_fields:
  "map cell (rebind slot p rs) = map cell rs" "map res_Slot (rebind slot p rs) = map res_Slot rs"
  "map structural_key (rebind slot p rs) = map structural_key rs"
  by (induction rs) (auto simp: cell_def structural_key_def)

lemma rebind_set:
  "distinct (map res_Slot rs) \<Longrightarrow>
    set (rebind slot p rs) = (\<lambda>r. if res_Slot r = slot then r\<lparr>res_PeerID := p\<rparr> else r) ` set rs"
proof (induction rs)
  case (Cons r rs)
  show ?case
  proof (cases "res_Slot r = slot")
    case True
    then have "\<forall>x \<in> set rs. res_Slot x \<noteq> slot" using Cons.prems by (force simp: image_iff)
    then have "(\<lambda>r. if res_Slot r = slot then r\<lparr>res_PeerID := p\<rparr> else r) ` set rs = (\<lambda>r. r) ` set rs"
      by (intro image_cong) auto
    with True show ?thesis by simp
  next
    case False
    with Cons show ?thesis by simp
  qed
qed simp

lemma rebind_peers:
  "distinct (map res_PeerID rs) \<Longrightarrow> p \<notin> res_PeerID ` set rs \<Longrightarrow>
    distinct (map res_PeerID (rebind slot p rs)) \<and>
    set (map res_PeerID (rebind slot p rs)) \<subseteq> insert p (res_PeerID ` set rs)"
  by (induction rs) auto

lemma Handover_ok:
  assumes "grid_ok g" and "Handover slot p g = (out, g')" and "p \<notin> res_PeerID ` set (gr_Slots g)"
  shows "grid_ok g'" and "gr_MaxSlotEverIssued g' = gr_MaxSlotEverIssued g"
    and "set (gr_Slots g') =
      (\<lambda>r. if res_Slot r = slot then r\<lparr>res_PeerID := p\<rparr> else r) ` set (gr_Slots g)"
    and "Shape g' = Shape g"
proof -
  have g: "slots_ok g" using assms(1) by auto
  note d = slots_okD [OF g]
  note set = rebind_set [OF d(5), of slot p]
  have "grid_ok g' \<and> gr_MaxSlotEverIssued g' = gr_MaxSlotEverIssued g \<and> set (gr_Slots g') =
      (\<lambda>r. if res_Slot r = slot then r\<lparr>res_PeerID := p\<rparr> else r) ` set (gr_Slots g) \<and> Shape g' = Shape g"
  proof (cases "ResOfSlot g slot")
    case None
    then have none: "\<forall>r \<in> set (gr_Slots g). res_Slot r \<noteq> slot"
      by (auto simp: ResOfSlot_def find_None_iff)
    from None have "g' = g" using assms(2) by (simp add: Handover_def)
    with none assms(1) show ?thesis by (force simp: image_iff)
  next
    case (Some old)
    have g': "g' = g\<lparr>gr_Slots := rebind slot p (gr_Slots g)\<rparr>"
      using assms(2) Some by (simp add: Handover_def)
    have "slots_ok g'"
      using d rebind_peers [OF d(6) assms(3)]
      by (auto simp: slots_ok_def g' rebind_fields set)
    then show ?thesis using assms(1) set by (simp add: g' grid_ok_def rebind_fields Shape_def)
  qed
  then show "grid_ok g'" "gr_MaxSlotEverIssued g' = gr_MaxSlotEverIssued g"
    "set (gr_Slots g') = (\<lambda>r. if res_Slot r = slot then r\<lparr>res_PeerID := p\<rparr> else r) ` set (gr_Slots g)"
    "Shape g' = Shape g" by simp_all
qed

text \<open>Loading what was saved.\<close>

lemma fold_absorb_id:
  assumes "\<forall>r \<in> set rs. res_Col r < gr_Width g \<and> res_Row r < gr_Height g \<and>
    res_Slot r \<le> gr_MaxSlotEverIssued g"
  shows "fold absorb rs g = g"
  using assms
proof (induction rs)
  case (Cons r rs)
  then have "absorb r g = g" by (simp add: absorb_def)
  with Cons show ?case by simp
qed simp

lemma sort_slots_sorted: "sorted (map structural_key (gr_Slots g)) \<Longrightarrow> sort_slots g = g"
  by (simp add: sort_slots_def sort_key_id_if_sorted)

end
