(* ===== verification/MapWalk.thy ===== *)
theory MapWalk imports GridPlace begin

text \<open>
  The client's walk over a status frame (\<open>internal/mapwalk/mapwalk.go\<close>), and the contract that
  both walks of the program meet: the relay's over its reservations (\<open>Grid.Effective\<close>) and the
  client's over the frame.  The contract is the locale \<open>axis_walk\<close>, interpreted on both loops.
\<close>

section \<open>The client's walk\<close>

definition max_f :: "rat \<Rightarrow> rat \<Rightarrow> rat" where
  "max_f a b = (if a < b then b else a)"

definition SameSize :: "f64 \<Rightarrow> f64 \<Rightarrow> bool" where
  "SameSize a b =
     (case (a, b) of
        (Fin x, Fin y) \<Rightarrow> \<bar>x - y\<bar> \<le> (1 / 1000000) * max_f 1 (max_f \<bar>x\<bar> \<bar>y\<bar>)
      | _ \<Rightarrow> False)"

definition Deliverable :: "slot_info \<Rightarrow> slot_info \<Rightarrow> bytes" where
  "Deliverable me cand =
     (if \<not> si_Live cand then ''peer_offline''
      else if \<not> si_ModConnected cand then ''peer_mod_absent''
      else if si_GameVersion me \<noteq> [] \<and> si_GameVersion cand \<noteq> [] \<and>
              si_GameVersion me \<noteq> si_GameVersion cand then ''peer_incompatible''
      else if f64_positive (si_SimulationSize me) \<and> f64_positive (si_SimulationSize cand) \<and>
              \<not> SameSize (si_SimulationSize me) (si_SimulationSize cand) then ''sim_size_mismatch''
      else [])"

definition status_At :: "peer_status \<Rightarrow> position \<Rightarrow> slot_info option" where
  "status_At status pos = find (\<lambda>s. si_Position s = pos) (ps_Slots status)"

definition Find :: "peer_status \<Rightarrow> int \<Rightarrow> slot_info option" where
  "Find status slot = find (\<lambda>s. si_Slot s = slot) (ps_Slots status)"

fun walk_loop ::
  "peer_status \<Rightarrow> slot_info \<Rightarrow> position list \<Rightarrow> skip list \<Rightarrow> slot_info option \<times> skip list"
where
  "walk_loop status me [] skipped = (None, skipped)"
| "walk_loop status me (pos # ps) skipped =
     (case status_At status pos of
        None \<Rightarrow> walk_loop status me ps
          (skipped @ [\<lparr>sk_Slot = None, sk_Position = pos, sk_Reason = ''hole''\<rparr>])
      | Some cand \<Rightarrow>
          if Deliverable me cand \<noteq> []
          then walk_loop status me ps
            (skipped @ [\<lparr>sk_Slot = Some (si_Slot cand), sk_Position = pos,
                         sk_Reason = Deliverable me cand\<rparr>])
          else (Some cand, skipped))"

text \<open>The positions a walk from \<open>from\<close> visits, in order.\<close>

definition axis_positions :: "peer_status \<Rightarrow> bytes \<Rightarrow> position \<Rightarrow> position list" where
  "axis_positions status edge from =
     (let len = (if Vertical edge then ms_Height (ps_Map status) else ms_Width (ps_Map status))
      in map (step_pos edge (ms_Width (ps_Map status)) (ms_Height (ps_Map status)) from) [1..len - 1])"

definition Walk :: "peer_status \<Rightarrow> slot_info \<Rightarrow> bytes \<Rightarrow> slot_info option \<times> skip list" where
  "Walk status me edge =
     walk_loop status me (axis_positions status edge (si_Position me)) []"

text \<open>The candidates of a refusal walk: not a hole, not me, not already refused, deliverable.\<close>

fun retry_loop :: "peer_status \<Rightarrow> slot_info \<Rightarrow> int list \<Rightarrow> position list \<Rightarrow> slot_info option" where
  "retry_loop status me excluded [] = None"
| "retry_loop status me excluded (pos # ps) =
     (case status_At status pos of
        None \<Rightarrow> retry_loop status me excluded ps
      | Some cand \<Rightarrow>
          if si_Slot cand = si_Slot me \<or> si_Slot cand \<in> set excluded
          then retry_loop status me excluded ps
          else if Deliverable me cand = [] then Some cand
          else retry_loop status me excluded ps)"

definition WalkAfter ::
  "peer_status \<Rightarrow> slot_info \<Rightarrow> bytes \<Rightarrow> int \<Rightarrow> int list \<Rightarrow> slot_info option"
where
  "WalkAfter status me edge afterSlot excluded =
     (case Find status afterSlot of
        None \<Rightarrow> None
      | Some after \<Rightarrow>
          if Vertical edge \<and> po_Col (si_Position after) \<noteq> po_Col (si_Position me) then None
          else if \<not> Vertical edge \<and> po_Row (si_Position after) \<noteq> po_Row (si_Position me) then None
          else retry_loop status me excluded
                 (axis_positions status edge (si_Position after)))"

text \<open>The second phase visits the whole torus, axis by axis, from my own position.\<close>

definition cross_pos :: "bytes \<Rightarrow> int \<Rightarrow> int \<Rightarrow> position \<Rightarrow> int \<Rightarrow> int \<Rightarrow> position" where
  "cross_pos edge along across from perp step =
     (let delta = (if Reverse edge then -1 else 1) in
      if Vertical edge
      then \<lparr>po_Col = wrapIndex (po_Col from + perp) across,
            po_Row = wrapIndex (po_Row from + delta * step) along\<rparr>
      else \<lparr>po_Col = wrapIndex (po_Col from + delta * step) along,
            po_Row = wrapIndex (po_Row from + perp) across\<rparr>)"

definition anywhere_positions :: "peer_status \<Rightarrow> bytes \<Rightarrow> position \<Rightarrow> position list" where
  "anywhere_positions status edge from =
     (let w = ms_Width (ps_Map status); h = ms_Height (ps_Map status);
          along = (if Vertical edge then h else w); across = (if Vertical edge then w else h)
      in concat (map (\<lambda>perp. map (cross_pos edge along across from perp) [0..along - 1])
                  [0..across - 1]))"

definition WalkAnywhere :: "peer_status \<Rightarrow> slot_info \<Rightarrow> bytes \<Rightarrow> int list \<Rightarrow> slot_info option" where
  "WalkAnywhere status me edge excluded =
     retry_loop status me excluded
       (filter (\<lambda>pos. pos \<noteq> si_Position me) (anywhere_positions status edge (si_Position me)))"

definition closed_reason :: "bytes \<Rightarrow> bytes" where
  "closed_reason r = (if r = ''hole'' \<or> r = ''peer_offline'' then ''no_peer'' else r)"

definition EdgeReason :: "skip list \<Rightarrow> bytes" where
  "EdgeReason skipped =
     (case skipped of
        [] \<Rightarrow> ''no_peer''
      | s # ss \<Rightarrow>
          (let shared = closed_reason (sk_Reason s) in
           if \<not> list_all (\<lambda>x. closed_reason (sk_Reason x) = shared) ss then ''no_peer''
           else if shared \<in> {''peer_mod_absent'', ''peer_incompatible'', ''sim_size_mismatch''}
           then shared else ''no_peer''))"

section \<open>The contract of a walk\<close>

locale axis_walk =
  fixes occ :: "position \<Rightarrow> 'a option"
    and slot :: "'a \<Rightarrow> int"
    and reason :: "'a \<Rightarrow> bytes"
    and loop :: "position list \<Rightarrow> skip list \<Rightarrow> 'a option \<times> skip list"
  assumes loop_end: "loop [] sk = (None, sk)"
    and loop_hole: "occ pos = None \<Longrightarrow> loop (pos # ps) sk =
      loop ps (sk @ [\<lparr>sk_Slot = None, sk_Position = pos, sk_Reason = ''hole''\<rparr>])"
    and loop_skip: "occ pos = Some x \<Longrightarrow> reason x \<noteq> [] \<Longrightarrow> loop (pos # ps) sk =
      loop ps (sk @ [\<lparr>sk_Slot = Some (slot x), sk_Position = pos, sk_Reason = reason x\<rparr>])"
    and loop_found: "occ pos = Some x \<Longrightarrow> reason x = [] \<Longrightarrow> loop (pos # ps) sk = (Some x, sk)"
begin

text \<open>An occupied position whose occupant is deliverable.\<close>

definition open_at :: "position \<Rightarrow> bool" where
  "open_at pos = (case occ pos of None \<Rightarrow> False | Some x \<Rightarrow> reason x = [])"

definition skip_at :: "position \<Rightarrow> skip" where
  "skip_at pos =
     (case occ pos of
        None \<Rightarrow> \<lparr>sk_Slot = None, sk_Position = pos, sk_Reason = ''hole''\<rparr>
      | Some x \<Rightarrow> \<lparr>sk_Slot = Some (slot x), sk_Position = pos, sk_Reason = reason x\<rparr>)"

lemma loop_closed: "\<not> open_at pos \<Longrightarrow> loop (pos # ps) sk = loop ps (sk @ [skip_at pos])"
  by (cases "occ pos") (auto simp: open_at_def skip_at_def loop_hole loop_skip)

lemma loop_open: "open_at pos \<Longrightarrow> loop (pos # ps) sk = (occ pos, sk)"
  by (cases "occ pos") (auto simp: open_at_def loop_found)

text \<open>The first open position is the answer; everything before it is reported as skipped.\<close>

lemma loop_spec:
  "loop ps sk =
     ((case dropWhile (\<lambda>p. \<not> open_at p) ps of [] \<Rightarrow> None | p # _ \<Rightarrow> occ p),
      sk @ map skip_at (takeWhile (\<lambda>p. \<not> open_at p) ps))"
proof (induction ps arbitrary: sk)
  case Nil
  then show ?case by (simp add: loop_end)
next
  case (Cons pos ps)
  then show ?case
    by (cases "open_at pos") (simp_all add: loop_open loop_closed)
qed

lemma loop_result:
  assumes "loop ps [] = (out, skipped)"
  shows "case out of
      None \<Rightarrow> (\<forall>p \<in> set ps. \<not> open_at p) \<and> skipped = map skip_at ps
    | Some x \<Rightarrow> (\<exists>before p after. ps = before @ p # after \<and> occ p = Some x \<and> reason x = [] \<and>
        (\<forall>q \<in> set before. \<not> open_at q) \<and> skipped = map skip_at before)"
proof (cases "dropWhile (\<lambda>p. \<not> open_at p) ps")
  case Nil
  then have all: "\<forall>p \<in> set ps. \<not> open_at p" by (simp add: dropWhile_eq_Nil_conv)
  then have tw: "takeWhile (\<lambda>p. \<not> open_at p) ps = ps" by (simp add: takeWhile_eq_all_conv)
  have "out = None" "skipped = map skip_at ps"
    using assms unfolding loop_spec Nil tw by simp_all
  with all show ?thesis by simp
next
  case (Cons p after)
  let ?before = "takeWhile (\<lambda>p. \<not> open_at p) ps"
  have ps: "ps = ?before @ p # after" using Cons by (metis takeWhile_dropWhile_id)
  have "open_at p" using Cons by (simp add: dropWhile_eq_Cons_conv)
  then obtain x where x: "occ p = Some x" "reason x = []"
    by (auto simp: open_at_def split: option.splits)
  have "\<forall>q \<in> set ?before. \<not> open_at q" using set_takeWhileD by fastforce
  then have "\<exists>before p after. ps = before @ p # after \<and> occ p = Some x \<and> reason x = [] \<and>
      (\<forall>q \<in> set before. \<not> open_at q) \<and> map skip_at ?before = map skip_at before"
    using ps x by blast
  moreover have "out = Some x" "skipped = map skip_at ?before"
    using assms x(1) unfolding loop_spec Cons by simp_all
  ultimately show ?thesis by simp
qed

end

text \<open>Two walks over the same positions that see the same occupants give the same answer.\<close>

locale two_walks =
  one: axis_walk occ slot reason loop + two: axis_walk occ' slot' reason' loop'
  for occ :: "position \<Rightarrow> 'a option" and slot reason loop
    and occ' :: "position \<Rightarrow> 'b option" and slot' reason' loop'
begin

lemma loops_agree:
  assumes "\<And>p. p \<in> set ps \<Longrightarrow> occ' p = map_option f (occ p)"
    and "\<And>p x. p \<in> set ps \<Longrightarrow> occ p = Some x \<Longrightarrow> slot' (f x) = slot x \<and> reason' (f x) = reason x"
  shows "loop' ps sk = map_prod (map_option f) id (loop ps sk)"
  using assms
proof (induction ps arbitrary: sk)
  case Nil
  show ?case by (simp add: one.loop_end two.loop_end)
next
  case (Cons p ps)
  have tail: "loop' ps sk' = map_prod (map_option f) id (loop ps sk')" for sk'
  proof (rule Cons.IH)
    show "occ' q = map_option f (occ q)" if "q \<in> set ps" for q
      using Cons.prems(1) that by simp
    show "slot' (f x) = slot x \<and> reason' (f x) = reason x" if "q \<in> set ps" "occ q = Some x" for q x
      using Cons.prems(2) [of q x] that by simp
  qed
  have occ': "occ' p = map_option f (occ p)" by (rule Cons.prems(1)) simp
  show ?case
  proof (cases "occ p")
    case None
    with occ' show ?thesis by (simp add: one.loop_hole two.loop_hole tail id_def)
  next
    case (Some x)
    then have x: "slot' (f x) = slot x" "reason' (f x) = reason x"
      using Cons.prems(2) [of p x] by simp_all
    have occ'x: "occ' p = Some (f x)" using occ' Some by simp
    show ?thesis
    proof (cases "reason x = []")
      case True
      then show ?thesis using x by (simp add: one.loop_found [OF Some] two.loop_found [OF occ'x])
    next
      case False
      then show ?thesis
        using x by (simp add: one.loop_skip [OF Some] two.loop_skip [OF occ'x] tail id_def)
    qed
  qed
qed

end

interpretation relay_walk:
  axis_walk "\<lambda>p. At g (po_Col p) (po_Row p)" res_Slot ok "effective_loop g ok" for g ok
  by unfold_locales simp_all

interpretation client_walk:
  axis_walk "status_At status" si_Slot "Deliverable me" "walk_loop status me" for status me
  by unfold_locales simp_all

interpretation both_walks:
  two_walks "\<lambda>p. At g (po_Col p) (po_Row p)" res_Slot ok "effective_loop g ok"
    "status_At status" si_Slot "Deliverable me" "walk_loop status me" for g ok status me
  by unfold_locales

end
