(* ===== verification/Torus.thy ===== *)
theory Torus imports MapWalk begin

text \<open>
  The arithmetic of the wrapping map: \<open>wrapIndex\<close> is the mathematical remainder, the walk along an
  axis visits every other position of its row or column exactly once and never the sender's own,
  the opposite edge visits them in the reverse order, and the exhaustive walk of the second
  delivery phase visits every position of the rectangle exactly once.
\<close>

section \<open>Wrapping\<close>

lemma wrapIndex_mod: "0 < n \<Longrightarrow> wrapIndex i n = i mod n"
proof -
  assume n: "0 < n"
  have r: "go_rem a n = (if a < 0 then - ((- a) mod n) else a mod n)" for a
    by (simp add: go_rem_def)
  have pos: "0 \<le> go_rem i n + n"
    using n pos_mod_bound [OF n, of "- i"] pos_mod_sign [OF n, of i] by (auto simp: r intro: less_imp_le)
  have "go_rem (go_rem i n + n) n = (go_rem i n + n) mod n"
    using pos by (simp add: r [of "go_rem i n + n"])
  also have "\<dots> = i mod n"
    using n less_imp_neq [OF pos_mod_bound [OF n, of i]]
    by (cases "i < 0") (auto simp: r zmod_zminus1_eq_if)
  finally show "wrapIndex i n = i mod n" using n by (simp add: wrapIndex_def)
qed

lemma wrapIndex_range: "0 < n \<Longrightarrow> 0 \<le> wrapIndex i n \<and> wrapIndex i n < n"
  by (simp add: wrapIndex_mod)

lemma mod_add_cancel:
  fixes a b c n :: int
  shows "(a + b) mod n = (a + c) mod n \<longleftrightarrow> b mod n = c mod n"
  by (metis add.commute add_diff_cancel_left' mod_add_right_eq mod_diff_left_eq)

lemma mod_steps_inj:
  fixes x n d :: int
  assumes "d = 1 \<or> d = -1" and "0 \<le> i" "i < n" "0 \<le> j" "j < n"
    and "(x + d * i) mod n = (x + d * j) mod n"
  shows "i = j"
proof -
  have "(d * i) mod n = (d * j) mod n" using assms(6) by (simp only: mod_add_cancel)
  then have "n dvd d * i - d * j" by (simp add: mod_eq_dvd_iff)
  then have "n dvd d * (i - j)" by (simp add: right_diff_distrib)
  then have "n dvd i - j" using assms(1) by (auto simp: dvd_diff_commute)
  then show "i = j" using assms(2-5) zdvd_imp_le [of n "i - j"] zdvd_imp_le [of n "j - i"]
    by (cases "i < j"; cases "j < i") (auto simp: dvd_diff_commute)
qed

lemma mod_steps_onto:
  fixes x n d y :: int
  assumes "d = 1 \<or> d = -1" and "0 \<le> y" "y < n"
  obtains i where "0 \<le> i" "i < n" "(x + d * i) mod n = y"
proof
  let ?i = "(d * (y - x)) mod n"
  have n: "0 < n" using assms by simp
  show "0 \<le> ?i" "?i < n" using n by simp_all
  have "(x + d * ?i) mod n = (x + d * (d * (y - x))) mod n"
    by (metis mod_add_right_eq mod_mult_right_eq)
  also have "d * (d * (y - x)) = y - x" using assms(1) by auto
  finally show "(x + d * ?i) mod n = y" using assms(2,3) by simp
qed

section \<open>One axis\<close>

definition edge_delta :: "bytes \<Rightarrow> int" where
  "edge_delta edge = (if Reverse edge then -1 else 1)"

lemma edge_delta_cases: "edge_delta edge = 1 \<or> edge_delta edge = -1"
  by (simp add: edge_delta_def)

definition axis_len :: "bytes \<Rightarrow> int \<Rightarrow> int \<Rightarrow> int" where
  "axis_len edge w h = (if Vertical edge then h else w)"

definition axis_of :: "bytes \<Rightarrow> position \<Rightarrow> int" where
  "axis_of edge p = (if Vertical edge then po_Row p else po_Col p)"

definition cross_of :: "bytes \<Rightarrow> position \<Rightarrow> int" where
  "cross_of edge p = (if Vertical edge then po_Col p else po_Row p)"

lemma position_by_axis: "axis_of e p = axis_of e q \<Longrightarrow> cross_of e p = cross_of e q \<Longrightarrow> p = (q :: position)"
  by (simp add: axis_of_def cross_of_def split: if_splits)

lemma axis_step:
  assumes "0 < axis_len edge w h"
  shows "axis_of edge (step_pos edge w h org i) = (axis_of edge org + edge_delta edge * i) mod axis_len edge w h"
    and "cross_of edge (step_pos edge w h org i) = cross_of edge org"
  using assms
  by (auto simp: step_pos_def axis_of_def cross_of_def axis_len_def edge_delta_def wrapIndex_mod)

definition axis_walked :: "bytes \<Rightarrow> int \<Rightarrow> int \<Rightarrow> position \<Rightarrow> position list" where
  "axis_walked edge w h org = map (step_pos edge w h org) [1..axis_len edge w h - 1]"

lemma axis_positions_walked:
  "axis_positions status edge org = axis_walked edge (ms_Width (ps_Map status)) (ms_Height (ps_Map status)) org"
  by (simp add: axis_positions_def axis_walked_def axis_len_def Let_def)

lemma Effective_walked:
  "Effective g org edge ok =
     effective_loop g ok (axis_walked edge (gr_Width g) (gr_Height g) (res_pos org)) []"
  by (simp add: Effective_def axis_walked_def axis_len_def Let_def)

lemma axis_walked_distinct: "distinct (axis_walked edge w h org)"
proof -
  let ?n = "axis_len edge w h"
  have "inj_on (step_pos edge w h org) {1..?n - 1}"
  proof (rule inj_onI)
    fix i j assume ij: "i \<in> {1..?n - 1}" "j \<in> {1..?n - 1}"
      and eq: "step_pos edge w h org i = step_pos edge w h org j"
    then have n: "0 < ?n" by simp
    have "(axis_of edge org + edge_delta edge * i) mod ?n = (axis_of edge org + edge_delta edge * j) mod ?n"
      using axis_step(1) [OF n, of org i] axis_step(1) [OF n, of org j] eq by simp
    then show "i = j" using mod_steps_inj [OF edge_delta_cases [of edge], of i ?n j] ij by auto
  qed
  then show ?thesis by (simp add: axis_walked_def distinct_map)
qed

lemma axis_walked_set:
  assumes "0 \<le> axis_of edge org" and "axis_of edge org < axis_len edge w h"
  shows "set (axis_walked edge w h org) =
    {p. cross_of edge p = cross_of edge org \<and> 0 \<le> axis_of edge p \<and>
        axis_of edge p < axis_len edge w h \<and> p \<noteq> org}"
    (is "?L = ?R")
proof
  let ?n = "axis_len edge w h"
  have n: "0 < ?n" using assms by simp
  note st = axis_step [where edge = edge and w = w and h = h and org = org, OF n]
  have here: "axis_of edge org = (axis_of edge org + edge_delta edge * 0) mod ?n" using assms by simp
  show "?L \<subseteq> ?R"
  proof
    fix p assume "p \<in> ?L"
    then obtain i where i: "1 \<le> i" "i < ?n" "p = step_pos edge w h org i"
      by (auto simp: axis_walked_def)
    have "p \<noteq> org"
    proof
      assume "p = org"
      then have "(axis_of edge org + edge_delta edge * i) mod ?n =
          (axis_of edge org + edge_delta edge * 0) mod ?n"
        using st(1) [of i] i(3) here by simp
      from mod_steps_inj [OF edge_delta_cases _ _ _ _ this] i n show False by simp
    qed
    then show "p \<in> ?R" using st [of i] i n by simp
  qed
  show "?R \<subseteq> ?L"
  proof
    fix p assume p: "p \<in> ?R"
    obtain i where i: "0 \<le> i" "i < ?n" "(axis_of edge org + edge_delta edge * i) mod ?n = axis_of edge p"
      using mod_steps_onto [OF edge_delta_cases [of edge], of "axis_of edge p" ?n "axis_of edge org"] p by auto
    then have eq: "p = step_pos edge w h org i"
      using st [of i] p by (intro position_by_axis [of edge]) simp_all
    have "i \<noteq> 0"
    proof
      assume "i = 0"
      with i here p have "axis_of edge p = axis_of edge org" by simp
      then have "p = org" using p by (intro position_by_axis [of edge]) simp_all
      with p show False by simp
    qed
    then show "p \<in> ?L" using i(1,2) eq by (auto simp: axis_walked_def)
  qed
qed

text \<open>The opposite edge walks the same positions backwards.\<close>

definition opposite_edge :: "bytes \<Rightarrow> bytes" where
  "opposite_edge e = (if e = ''N'' then ''S'' else if e = ''S'' then ''N''
                      else if e = ''E'' then ''W'' else ''E'')"

lemma edge_axes:
  assumes "ValidEdge e"
  shows "Vertical (opposite_edge e) = Vertical e" and "edge_delta (opposite_edge e) = - edge_delta e"
  using assms
  by (auto simp: ValidEdge_def opposite_edge_def Vertical_def Reverse_def edge_delta_def)

lemma axis_walked_reverse:
  assumes e: "ValidEdge e"
  shows "axis_walked (opposite_edge e) w h org = rev (axis_walked e w h org)"
proof (rule nth_equalityI)
  let ?n = "axis_len e w h"
  have len: "axis_len (opposite_edge e) w h = ?n" using edge_axes [OF e] by (simp add: axis_len_def)
  show "length (axis_walked (opposite_edge e) w h org) = length (rev (axis_walked e w h org))"
    by (simp add: axis_walked_def len)
  fix k assume k: "k < length (axis_walked (opposite_edge e) w h org)"
  then have kn: "int k < ?n - 1" by (simp add: axis_walked_def len)
  have ith: "[1..?n - 1] ! k = 1 + int k" by (rule nth_upto) (use kn in simp)
  have "nat (?n - 1) - Suc k < length [1..?n - 1]" using kn by simp
  have jth: "[1..?n - 1] ! (nat (?n - 1) - Suc k) = ?n - 1 - int k"
    using kn by (subst nth_upto) auto
  have n: "0 < ?n" using kn by simp
  have n': "0 < axis_len (opposite_edge e) w h" using n len by simp
  have same: "axis_of (opposite_edge e) p = axis_of e p" "cross_of (opposite_edge e) p = cross_of e p" for p
    using edge_axes [OF e] by (simp_all add: axis_of_def cross_of_def)
  have "step_pos (opposite_edge e) w h org (1 + int k) = step_pos e w h org (?n - 1 - int k)"
  proof (rule position_by_axis [of e])
    have "(axis_of e org - edge_delta e * (1 + int k)) mod ?n =
        (axis_of e org + edge_delta e * (?n - (1 + int k))) mod ?n"
      using edge_delta_cases [of e] by (auto simp: algebra_simps) (metis add.commute mod_add_self1 add_diff_eq diff_diff_eq)+
    then show "axis_of e (step_pos (opposite_edge e) w h org (1 + int k)) =
        axis_of e (step_pos e w h org (?n - 1 - int k))"
      using axis_step(1) [OF n', of org "1 + int k"] axis_step(1) [OF n, of org "?n - 1 - int k"]
      by (simp add: same len edge_axes [OF e] algebra_simps)
    show "cross_of e (step_pos (opposite_edge e) w h org (1 + int k)) =
        cross_of e (step_pos e w h org (?n - 1 - int k))"
      using axis_step(2) [OF n', of org "1 + int k"] axis_step(2) [OF n, of org "?n - 1 - int k"]
      by (simp add: same)
  qed
  then show "axis_walked (opposite_edge e) w h org ! k = rev (axis_walked e w h org) ! k"
    using k kn by (simp add: axis_walked_def len rev_nth ith jth)
qed

section \<open>The whole torus\<close>

lemma cross_step:
  assumes "0 < along" "0 < across"
  shows "axis_of edge (cross_pos edge along across org perp i) =
      (axis_of edge org + edge_delta edge * i) mod along"
    and "cross_of edge (cross_pos edge along across org perp i) = (cross_of edge org + perp) mod across"
  using assms
  by (auto simp: cross_pos_def axis_of_def cross_of_def edge_delta_def wrapIndex_mod)

definition in_map :: "map_shape \<Rightarrow> position \<Rightarrow> bool" where
  "in_map m p =
     (0 \<le> po_Col p \<and> po_Col p < ms_Width m \<and> 0 \<le> po_Row p \<and> po_Row p < ms_Height m)"

lemma in_map_axis:
  "in_map m p = (0 \<le> axis_of edge p \<and> axis_of edge p < axis_len edge (ms_Width m) (ms_Height m) \<and>
     0 \<le> cross_of edge p \<and> cross_of edge p < axis_len edge (ms_Height m) (ms_Width m))"
  by (auto simp: in_map_def axis_of_def cross_of_def axis_len_def)

lemma anywhere_pairs:
  "anywhere_positions status edge org =
     (let w = ms_Width (ps_Map status); h = ms_Height (ps_Map status) in
      map (\<lambda>(perp, i). cross_pos edge (axis_len edge w h) (axis_len edge h w) org perp i)
        (List.product [0..axis_len edge h w - 1] [0..axis_len edge w h - 1]))"
proof -
  have "concat (map (\<lambda>a. map (f a) ys) xs) = map (\<lambda>(a, b). f a b) (List.product xs ys)"
    for f :: "int \<Rightarrow> int \<Rightarrow> position" and xs ys
    by (induction xs) auto
  then show ?thesis by (simp add: anywhere_positions_def axis_len_def Let_def)
qed

lemma anywhere_once:
  assumes "0 < ms_Width (ps_Map status)" "0 < ms_Height (ps_Map status)"
  shows "distinct (anywhere_positions status edge org)"
    and "set (anywhere_positions status edge org) = {p. in_map (ps_Map status) p}"
proof -
  let ?w = "ms_Width (ps_Map status)" and ?h = "ms_Height (ps_Map status)"
  let ?a = "axis_len edge ?w ?h" and ?c = "axis_len edge ?h ?w"
  let ?f = "\<lambda>(perp, i). cross_pos edge ?a ?c org perp i"
  have pos: "0 < ?a" "0 < ?c" using assms by (simp_all add: axis_len_def)
  note st = cross_step [OF pos, where edge = edge and org = org]
  have all: "anywhere_positions status edge org = map ?f (List.product [0..?c - 1] [0..?a - 1])"
    by (simp add: anywhere_pairs Let_def)
  have "inj_on ?f ({0..?c - 1} \<times> {0..?a - 1})"
  proof (rule inj_onI)
    fix x y assume xy: "x \<in> {0..?c - 1} \<times> {0..?a - 1}" "y \<in> {0..?c - 1} \<times> {0..?a - 1}" "?f x = ?f y"
    obtain u i v j where x: "x = (u, i)" and y: "y = (v, j)" by (cases x, cases y)
    have eq: "cross_pos edge ?a ?c org u i = cross_pos edge ?a ?c org v j" using xy(3) x y by simp
    have "(axis_of edge org + edge_delta edge * i) mod ?a = (axis_of edge org + edge_delta edge * j) mod ?a"
      using st(1) [of u i] st(1) [of v j] eq by simp
    then have "i = j" using mod_steps_inj [OF edge_delta_cases [of edge], of i ?a j] xy x y by auto
    moreover have "(cross_of edge org + 1 * u) mod ?c = (cross_of edge org + 1 * v) mod ?c"
      using st(2) [of u i] st(2) [of v j] eq by simp
    then have "u = v" using mod_steps_inj [of 1 u ?c v] xy x y by auto
    ultimately show "x = y" using x y by simp
  qed
  then show "distinct (anywhere_positions status edge org)"
    by (simp add: all distinct_map distinct_product)
  show "set (anywhere_positions status edge org) = {p. in_map (ps_Map status) p}"
  proof (intro set_eqI iffI)
    fix p assume "p \<in> set (anywhere_positions status edge org)"
    then obtain u i where "p = cross_pos edge ?a ?c org u i" by (auto simp: all)
    then show "p \<in> {p. in_map (ps_Map status) p}"
      using st [of u i] pos by (simp add: in_map_axis [of _ _ edge])
  next
    fix p assume "p \<in> {p. in_map (ps_Map status) p}"
    then have p: "0 \<le> axis_of edge p" "axis_of edge p < ?a" "0 \<le> cross_of edge p" "cross_of edge p < ?c"
      by (simp_all add: in_map_axis [of _ _ edge])
    obtain i where i: "0 \<le> i" "i < ?a" "(axis_of edge org + edge_delta edge * i) mod ?a = axis_of edge p"
      using mod_steps_onto [OF edge_delta_cases [of edge], of "axis_of edge p" ?a "axis_of edge org"] p by auto
    obtain u where u: "0 \<le> u" "u < ?c" "(cross_of edge org + 1 * u) mod ?c = cross_of edge p"
      using mod_steps_onto [of 1 "cross_of edge p" ?c "cross_of edge org"] p by auto
    have "p = ?f (u, i)"
      using st [of u i] i(3) u(3) by (intro position_by_axis [of edge]) simp_all
    moreover have "(u, i) \<in> set (List.product [0..?c - 1] [0..?a - 1])" using i u by simp
    ultimately show "p \<in> set (anywhere_positions status edge org)"
      unfolding all set_map by (rule image_eqI)
  qed
qed

section \<open>The exhaustive walk\<close>

definition candidate :: "peer_status \<Rightarrow> slot_info \<Rightarrow> int list \<Rightarrow> position \<Rightarrow> slot_info \<Rightarrow> bool" where
  "candidate status me excluded pos c =
     (status_At status pos = Some c \<and> si_Slot c \<noteq> si_Slot me \<and> si_Slot c \<notin> set excluded \<and>
      Deliverable me c = [])"

lemma retry_loop_None:
  "retry_loop status me excluded ps = None \<longleftrightarrow>
     (\<forall>p \<in> set ps. \<forall>c. \<not> candidate status me excluded p c)"
  by (induction ps) (auto simp: candidate_def split: option.splits)

lemma retry_loop_Some:
  "retry_loop status me excluded ps = Some c \<longleftrightarrow>
     (\<exists>before p after. ps = before @ p # after \<and> candidate status me excluded p c \<and>
        (\<forall>q \<in> set before. \<forall>d. \<not> candidate status me excluded q d))"
    (is "?L ps \<longleftrightarrow> ?R ps")
proof (induction ps)
  case Nil
  show ?case by simp
next
  case (Cons p ps)
  show ?case
  proof (cases "\<exists>d. candidate status me excluded p d")
    case True
    then obtain d where d: "candidate status me excluded p d" by blast
    then have L: "?L (p # ps) \<longleftrightarrow> d = c" by (auto simp: candidate_def)
    have "?R (p # ps) \<longleftrightarrow> d = c"
    proof
      assume "?R (p # ps)"
      then obtain before q after where b: "p # ps = before @ q # after" "candidate status me excluded q c"
        "\<forall>q \<in> set before. \<forall>d. \<not> candidate status me excluded q d" by blast
      with d have "before = []" by (cases before) auto
      with b d show "d = c" by (simp add: candidate_def)
    next
      assume "d = c"
      with d have "p # ps = [] @ p # ps \<and> candidate status me excluded p c \<and>
        (\<forall>q \<in> set []. \<forall>d. \<not> candidate status me excluded q d)" by simp
      then show "?R (p # ps)" by blast
    qed
    with L show ?thesis by simp
  next
    case False
    then have "?L (p # ps) \<longleftrightarrow> ?L ps" by (auto simp: candidate_def split: option.splits)
    moreover have "?R (p # ps) \<longleftrightarrow> ?R ps"
    proof
      assume "?R (p # ps)"
      then obtain before q after where b: "p # ps = before @ q # after" "candidate status me excluded q c"
        "\<forall>q \<in> set before. \<forall>d. \<not> candidate status me excluded q d" by blast
      from b False obtain before' where "before = p # before'" by (cases before) auto
      with b show "?R ps" by (intro exI [of _ before'] exI [of _ q] exI [of _ after]) simp
    next
      assume "?R ps"
      then obtain before q after where b: "ps = before @ q # after" "candidate status me excluded q c"
        "\<forall>q \<in> set before. \<forall>d. \<not> candidate status me excluded q d" by blast
      with False show "?R (p # ps)" by (intro exI [of _ "p # before"] exI [of _ q] exI [of _ after]) simp
    qed
    ultimately show ?thesis using Cons.IH by simp
  qed
qed

end
