(* ===== verification/Meters.thy ===== *)
theory Meters imports ContractB MapWalk begin

text \<open>
  The relay's meters (\<open>internal/relay/capacity.go\<close>) and the broadcast window with the comparison
  that suppresses a broadcast (\<open>internal/relay/churn.go\<close>).
\<close>

section \<open>Fixed-window counters\<close>

record rate_meter =
  rm_window :: duration
  rm_start :: time
  rm_count :: int

definition rate_observe :: "time \<Rightarrow> int \<Rightarrow> rate_meter \<Rightarrow> (int \<times> duration) \<times> rate_meter" where
  "rate_observe now n m =
     (let m' = (if rm_start m = 0 \<or> now - rm_start m \<ge> rm_window m
                then m\<lparr>rm_start := now, rm_count := 0\<rparr> else m);
          m'' = m'\<lparr>rm_count := rm_count m' + n\<rparr>
      in ((rm_count m'', rm_window m''), m''))"

record conn_meter =
  cm_frames :: rate_meter
  cm_bytes :: rate_meter

definition newRateMeter :: "duration \<Rightarrow> rate_meter" where
  "newRateMeter w = \<lparr>rm_window = w, rm_start = 0, rm_count = 0\<rparr>"

definition newConnMeter :: conn_meter where
  "newConnMeter = \<lparr>cm_frames = newRateMeter second, cm_bytes = newRateMeter second\<rparr>"

text \<open>The breach texts are kept to the name of the limit and the two numbers.\<close>

datatype breach = Breach bytes int int

definition conn_observe ::
  "time \<Rightarrow> int \<Rightarrow> limits \<Rightarrow> conn_meter \<Rightarrow> breach option \<times> conn_meter"
where
  "conn_observe now sz l c =
     (let ((n, _), fr) = rate_observe now 1 (cm_frames c); c1 = c\<lparr>cm_frames := fr\<rparr> in
      if n > li_MaxFramesPerSecond l
      then (Some (Breach ''maxFramesPerSecond'' (li_MaxFramesPerSecond l) n), c1)
      else (let ((b, _), by) = rate_observe now sz (cm_bytes c1); c2 = c1\<lparr>cm_bytes := by\<rparr> in
            if b > li_MaxBytesPerSecond l
            then (Some (Breach ''maxBytesPerSecond'' (li_MaxBytesPerSecond l) b), c2)
            else (None, c2)))"

definition newClaimMeter :: rate_meter where
  "newClaimMeter = newRateMeter (60 * second)"

definition claim_observe :: "time \<Rightarrow> limits \<Rightarrow> rate_meter \<Rightarrow> breach option \<times> rate_meter" where
  "claim_observe now l m =
     (let ((n, _), m') = rate_observe now 1 m in
      (if n > li_MaxClaimsPerMinute l
       then Some (Breach ''maxClaimsPerMinute'' (li_MaxClaimsPerMinute l) n) else None, m'))"

section \<open>The forwarding pace of a destination\<close>

record forward_pace =
  fp_nextAllowed :: time
  fp_interval :: duration

definition pace_Reserve :: "time \<Rightarrow> forward_pace \<Rightarrow> duration \<times> forward_pace" where
  "pace_Reserve now p =
     (if now < fp_nextAllowed p then (fp_nextAllowed p - now, p)
      else (0, p\<lparr>fp_nextAllowed := now + fp_interval p\<rparr>))"

text \<open>The binding a connection's writer holds before the handshake names its destination.\<close>

definition binding_Reserve :: "time \<Rightarrow> forward_pace option \<Rightarrow> duration \<times> forward_pace option" where
  "binding_Reserve now b =
     (case b of
        None \<Rightarrow> (second, None)
      | Some p \<Rightarrow> (case pace_Reserve now p of (d, p') \<Rightarrow> (d, Some p')))"

section \<open>Connection counters\<close>

definition slot_acquire :: "bytes \<Rightarrow> int \<Rightarrow> (bytes, int) gomap \<Rightarrow> (int \<times> bool) \<times> (bytes, int) gomap" where
  "slot_acquire key mx c =
     (let n = deref_or (map_of c key) 0 + 1 in ((n, n \<le> mx), AList.update key n c))"

definition slot_release :: "bytes \<Rightarrow> (bytes, int) gomap \<Rightarrow> (bytes, int) gomap" where
  "slot_release key c =
     (let n = deref_or (map_of c key) 0 in
      if n \<le> 1 then AList.delete key c else AList.update key (n - 1) c)"

definition slot_count :: "bytes \<Rightarrow> (bytes, int) gomap \<Rightarrow> int" where
  "slot_count key c = deref_or (map_of c key) 0"

section \<open>The broadcast window\<close>

record churn_window =
  cw_floor :: duration
  cw_ceiling :: duration
  cw_threshold :: int
  cw_cur :: duration

definition StatusCoalesce :: duration where
  "StatusCoalesce = 250 * millisecond"

definition newChurnWindow :: "duration \<Rightarrow> duration \<Rightarrow> int \<Rightarrow> churn_window" where
  "newChurnWindow lo hi threshold =
     (let lo' = (if lo \<le> 0 then StatusCoalesce else lo);
          hi' = (if hi < lo' then lo' else hi);
          t = (if threshold < 1 then 1 else threshold)
      in \<lparr>cw_floor = lo', cw_ceiling = hi', cw_threshold = t, cw_cur = lo'\<rparr>)"

definition churn_observe :: "int \<Rightarrow> churn_window \<Rightarrow> churn_window" where
  "churn_observe changes w =
     (if changes > cw_threshold w \<and> cw_cur w < cw_ceiling w
      then (let c = 2 * cw_cur w in w\<lparr>cw_cur := (if c > cw_ceiling w then cw_ceiling w else c)\<rparr>)
      else if changes \<le> cw_threshold w \<and> cw_cur w > cw_floor w
      then (let c = cw_cur w div 2 in w\<lparr>cw_cur := (if c < cw_floor w then cw_floor w else c)\<rparr>)
      else w)"

section \<open>What a suppressed broadcast compares\<close>

definition edgeKey :: "bytes list \<Rightarrow> bytes" where
  "edgeKey edges = join_bytes '','' edges"

record claim_shape =
  sh_slot :: int
  sh_col :: int
  sh_row :: int
  sh_exportEdges :: bytes
  sh_borderEdges :: bytes
  sh_modConnected :: bool
  sh_gameVersion :: bytes
  sh_simSize :: f64
  sh_refusal :: bytes

definition zero_shape :: claim_shape where
  "zero_shape = \<lparr>sh_slot = 0, sh_col = 0, sh_row = 0, sh_exportEdges = [], sh_borderEdges = [],
     sh_modConnected = False, sh_gameVersion = [], sh_simSize = f64_zero, sh_refusal = []\<rparr>"

definition shape_same :: "claim_shape \<Rightarrow> claim_shape \<Rightarrow> bool" where
  "shape_same c d =
     (sh_slot c = sh_slot d \<and> sh_col c = sh_col d \<and> sh_row c = sh_row d \<and>
      sh_exportEdges c = sh_exportEdges d \<and> sh_borderEdges c = sh_borderEdges d \<and>
      sh_modConnected c = sh_modConnected d \<and> sh_gameVersion c = sh_gameVersion d \<and>
      sh_refusal c = sh_refusal d \<and> SameSize (sh_simSize c) (sh_simSize d))"

end
