(* ===== verification/Registry.thy ===== *)
theory Registry imports Meters begin

text \<open>
  The relay's registry (\<open>internal/relay/relay.go\<close>): which peers are live, what each claimed, the
  map they are placed on, and the handlers that change it (claims and operator commands), with
  the grant and the status frame that publish it.  \<open>metaLocked\<close> creates a missing entry with
  zero fields; the model reads a missing entry as zero fields, which no handler can tell apart.
  A failed write of the map file is an argument.
\<close>

section \<open>State\<close>

record peer_meta =
  pm_gameVersion :: bytes
  pm_simSize :: f64
  pm_modConnected :: bool
  pm_exportEdges :: "bytes list"
  pm_borderEdges :: "bytes list"
  pm_lastRefusal :: "bytes list"
  pm_lastSeenMs :: int
  pm_darkSinceMs :: int
  pm_claims :: "rate_meter option"

definition zero_meta :: peer_meta where
  "zero_meta = \<lparr>pm_gameVersion = [], pm_simSize = f64_zero, pm_modConnected = False,
     pm_exportEdges = [], pm_borderEdges = [], pm_lastRefusal = [], pm_lastSeenMs = 0,
     pm_darkSinceMs = 0, pm_claims = None\<rparr>"

text \<open>One connection: the identity and role it authenticated with, and a number that tells it
  from every other connection (the Go pointer).\<close>

record peer_conn =
  pc_id :: bytes
  pc_role :: bytes
  pc_conn :: nat

record registry =
  rg_grid :: grid
  rg_live :: "(bytes, peer_conn) gomap"
  rg_subscribers :: "(bytes, peer_conn) gomap"
  rg_claimed :: "nat list"
  rg_meta :: "(bytes, peer_meta) gomap"
  rg_inherited :: "bytes list"
  rg_churn :: int
  rg_pending :: int
  rg_limits :: limits
  rg_minContract :: bytes
  rg_draining :: bool
  rg_evicted :: "bytes list"

definition metaLocked :: "registry \<Rightarrow> bytes \<Rightarrow> peer_meta" where
  "metaLocked s peerID = deref_or (map_of (rg_meta s) peerID) zero_meta"

definition set_meta :: "bytes \<Rightarrow> peer_meta \<Rightarrow> registry \<Rightarrow> registry" where
  "set_meta peerID m s = s\<lparr>rg_meta := AList.update peerID m (rg_meta s)\<rparr>"

definition is_live :: "registry \<Rightarrow> bytes \<Rightarrow> bool" where
  "is_live s peerID = (map_of (rg_live s) peerID \<noteq> None)"

definition markChurnLocked :: "registry \<Rightarrow> registry" where
  "markChurnLocked s = s\<lparr>rg_churn := rg_churn s + 1, rg_pending := rg_pending s + 1\<rparr>"

text \<open>The version the map runs: the first non-empty one among the other live peers, placed ones
  first in structural order.  Go visits the remaining peers in no particular order; the model
  visits them in the order of \<open>rg_live\<close>.\<close>

definition mapVersionLocked :: "registry \<Rightarrow> bytes \<Rightarrow> bytes" where
  "mapVersionLocked s self =
     (let cands = map res_PeerID (gr_Slots (rg_grid s)) @ map fst (rg_live s) in
      case find (\<lambda>p. p \<noteq> self \<and> is_live s p \<and> pm_gameVersion (metaLocked s p) \<noteq> []) cands of
        None \<Rightarrow> [] | Some p \<Rightarrow> pm_gameVersion (metaLocked s p))"

section \<open>Operator commands\<close>

datatype reg_error = R_no_such_slot | R_live_peer | R_needs_peer | R_already_holds int | R_save

definition ReleaseSlot :: "bool \<Rightarrow> int \<Rightarrow> registry \<Rightarrow> reg_error option \<times> registry" where
  "ReleaseSlot saved slot s =
     (case ResOfSlot (rg_grid s) slot of
        None \<Rightarrow> (Some R_no_such_slot, s)
      | Some r \<Rightarrow>
          if is_live s (res_PeerID r) then (Some R_live_peer, s)
          else (let s' = s\<lparr>rg_grid := snd (Release slot (rg_grid s))\<rparr> in
                if \<not> saved then (Some R_save, s') else (None, markChurnLocked s')))"

definition HandoverSlot ::
  "bool \<Rightarrow> int \<Rightarrow> bytes \<Rightarrow> registry \<Rightarrow> (reg_error + (reservation \<times> reservation)) \<times> registry"
where
  "HandoverSlot saved slot newPeerID s =
     (if newPeerID = [] then (Inl R_needs_peer, s)
      else case ResOfSlot (rg_grid s) slot of
        None \<Rightarrow> (Inl R_no_such_slot, s)
      | Some r \<Rightarrow>
          if is_live s (res_PeerID r) then (Inl R_live_peer, s)
          else if SlotOfPeer (rg_grid s) newPeerID > 0
          then (Inl (R_already_holds (SlotOfPeer (rg_grid s) newPeerID)), s)
          else (case Handover slot newPeerID (rg_grid s) of
                  (None, g) \<Rightarrow> (Inl R_no_such_slot, s\<lparr>rg_grid := g\<rparr>)
                | (Some (old, now), g) \<Rightarrow>
                    if \<not> saved
                    then (Inl R_save, s\<lparr>rg_grid := snd (Handover slot (res_PeerID old) g)\<rparr>)
                    else (Inr (old, now),
                          markChurnLocked (s\<lparr>rg_grid := g,
                            rg_meta := AList.delete (res_PeerID old) (rg_meta s),
                            rg_inherited := List.insert newPeerID (rg_inherited s)\<rparr>))))"

definition ReserveSlot ::
  "bool \<Rightarrow> bytes \<Rightarrow> position option \<Rightarrow> registry \<Rightarrow> (reg_error + (reservation \<times> bool)) \<times> registry"
where
  "ReserveSlot saved peerID at_pos s =
     (if peerID = [] then (Inl R_needs_peer, s)
      else case ResOfPeer (rg_grid s) peerID of
        Some r \<Rightarrow> (Inr (r, False), s)
      | None \<Rightarrow>
          (case Place peerID \<lparr>pf_Slot = 0, pf_Position = at_pos, pf_InsertAfterSlot = 0,
                             pf_InsertAxis = []\<rparr> (rg_grid s) of
             (r, g) \<Rightarrow>
               if \<not> saved then (Inl R_save, s\<lparr>rg_grid := snd (Release (res_Slot r) g)\<rparr>)
               else (Inr (r, True), markChurnLocked (s\<lparr>rg_grid := g\<rparr>))))"

section \<open>Publishing\<close>

definition deliverableLocked :: "registry \<Rightarrow> reservation \<Rightarrow> reservation \<Rightarrow> bytes" where
  "deliverableLocked s me r =
     (let mine = metaLocked s (res_PeerID me); m = metaLocked s (res_PeerID r) in
      if res_Slot r = res_Slot me then ''peer_offline''
      else if \<not> is_live s (res_PeerID r) then ''peer_offline''
      else if \<not> pm_modConnected m then ''peer_mod_absent''
      else if pm_gameVersion mine \<noteq> [] \<and> pm_gameVersion m \<noteq> [] \<and>
              pm_gameVersion mine \<noteq> pm_gameVersion m then ''peer_incompatible''
      else if f64_positive (pm_simSize mine) \<and> f64_positive (pm_simSize m) \<and>
              \<not> SameSize (pm_simSize mine) (pm_simSize m) then ''sim_size_mismatch''
      else [])"

definition exportEdgesLocked :: "registry \<Rightarrow> bytes \<Rightarrow> bytes list" where
  "exportEdgesLocked s peerID = pm_exportEdges (metaLocked s peerID)"

record neighbour =
  ne_Slot :: int
  ne_PeerID :: bytes
  ne_Position :: position
  ne_GameVersion :: bytes
  ne_SimulationSize :: f64
  ne_Skipped :: "skip list"

record sector_grant =
  sg_Granted :: bool
  sg_Slot :: int
  sg_Position :: "position option"
  sg_Map :: map_shape
  sg_SlotCount :: int
  sg_Reason :: bytes
  sg_Neighbours :: "(bytes, neighbour) gomap"

definition neighbour_of :: "registry \<Rightarrow> reservation \<times> skip list \<Rightarrow> neighbour" where
  "neighbour_of s p =
     (case p of (t, skipped) \<Rightarrow>
        \<lparr>ne_Slot = res_Slot t, ne_PeerID = res_PeerID t, ne_Position = res_pos t,
         ne_GameVersion = pm_gameVersion (metaLocked s (res_PeerID t)),
         ne_SimulationSize = pm_simSize (metaLocked s (res_PeerID t)), ne_Skipped = skipped\<rparr>)"

fun grant_edges :: "registry \<Rightarrow> reservation \<Rightarrow> bytes list \<Rightarrow> (bytes, neighbour) gomap \<Rightarrow> (bytes, neighbour) gomap"
where
  "grant_edges s me [] acc = acc"
| "grant_edges s me (e # es) acc =
     (if \<not> ValidEdge e then grant_edges s me es acc
      else case Effective (rg_grid s) me e (deliverableLocked s me) of
        (None, _) \<Rightarrow> grant_edges s me es acc
      | (Some t, skipped) \<Rightarrow>
          grant_edges s me es (AList.update e (neighbour_of s (t, skipped)) acc))"

definition grantForLocked :: "registry \<Rightarrow> reservation \<Rightarrow> bytes \<Rightarrow> sector_grant" where
  "grantForLocked s r reason =
     \<lparr>sg_Granted = True, sg_Slot = res_Slot r, sg_Position = Some (res_pos r),
      sg_Map = Shape (rg_grid s), sg_SlotCount = Size (rg_grid s), sg_Reason = reason,
      sg_Neighbours = grant_edges s r (exportEdgesLocked s (res_PeerID r)) []\<rparr>"

definition refused_grant :: "registry \<Rightarrow> bytes \<Rightarrow> sector_grant" where
  "refused_grant s reason =
     \<lparr>sg_Granted = False, sg_Slot = 0, sg_Position = None, sg_Map = Shape (rg_grid s),
      sg_SlotCount = Size (rg_grid s), sg_Reason = reason, sg_Neighbours = []\<rparr>"

text \<open>One entry of the status frame, and the frame (its registry part).\<close>

definition slot_info_of :: "registry \<Rightarrow> reservation \<Rightarrow> slot_info" where
  "slot_info_of s r =
     (let m = metaLocked s (res_PeerID r); live = is_live s (res_PeerID r) in
      \<lparr>si_Slot = res_Slot r, si_Position = res_pos r, si_PeerID = res_PeerID r, si_Live = live,
       si_ModConnected = (live \<and> pm_modConnected m), si_GameVersion = pm_gameVersion m,
       si_SimulationSize = pm_simSize m, si_ExportEdges = pm_exportEdges m\<rparr>)"

definition broadcastPeerStatus :: "int \<Rightarrow> registry \<Rightarrow> peer_status" where
  "broadcastPeerStatus epoch s =
     \<lparr>ps_Epoch = epoch, ps_Map = Shape (rg_grid s),
      ps_Slots = map (slot_info_of s) (gr_Slots (rg_grid s))\<rparr>"

section \<open>Claims\<close>

definition claimShapeLocked :: "registry \<Rightarrow> bytes \<Rightarrow> claim_shape" where
  "claimShapeLocked s peerID =
     (let m = metaLocked s peerID;
          base = \<lparr>sh_slot = 0, sh_col = 0, sh_row = 0,
                  sh_exportEdges = edgeKey (pm_exportEdges m),
                  sh_borderEdges = edgeKey (pm_borderEdges m),
                  sh_modConnected = pm_modConnected m, sh_gameVersion = pm_gameVersion m,
                  sh_simSize = pm_simSize m, sh_refusal = concat (pm_lastRefusal m)\<rparr>
      in case ResOfPeer (rg_grid s) peerID of
           None \<Rightarrow> base
         | Some r \<Rightarrow> base\<lparr>sh_slot := res_Slot r, sh_col := res_Col r, sh_row := res_Row r\<rparr>)"

text \<open>Rules 1 to 6 of the arbitration: the reservation, the reason, and whether it was placed
  now.\<close>

definition assignLocked ::
  "peer_conn \<Rightarrow> sector_claim \<Rightarrow> registry \<Rightarrow> (reservation \<times> bytes \<times> bool) \<times> registry"
where
  "assignLocked p claim s =
     (case ResOfPeer (rg_grid s) (pc_id p) of
        Some r \<Rightarrow>
          if pc_conn p \<in> set (rg_claimed s) then ((r, ''updated'', False), s)
          else if pc_id p \<in> set (rg_inherited s)
          then ((r, ''handover'', False), s\<lparr>rg_inherited := removeAll (pc_id p) (rg_inherited s)\<rparr>)
          else ((r, ''reclaimed'', False), s)
      | None \<Rightarrow>
          (case Place (pc_id p) \<lparr>pf_Slot = sc_PreferredSlot claim, pf_Position = sc_PreferredPosition claim,
                        pf_InsertAfterSlot = sc_InsertAfterSlot claim,
                        pf_InsertAxis = sc_InsertAxis claim\<rparr> (rg_grid s) of
             (r, g) \<Rightarrow> ((r, ''granted'', True), s\<lparr>rg_grid := g\<rparr>)))"

definition capacityRefusal :: "breach \<Rightarrow> bytes list" where
  "capacityRefusal b = (case b of Breach name l n \<Rightarrow> [''capacity: '', name])"

datatype claim_answer = Close_malformed | Granted sector_grant

text \<open>The part of \<open>onSectorClaim\<close> after the refusals: the claim is applied to the claimant's entry
  \<open>m\<close>, placed, saved, answered, and announced unless it changed nothing.\<close>

definition claimed_meta :: "sector_claim \<Rightarrow> peer_meta \<Rightarrow> peer_meta" where
  "claimed_meta claim m =
     m\<lparr>pm_simSize := sc_SimulationSize claim, pm_modConnected := sc_ModConnected claim,
       pm_exportEdges := sc_ExportEdges claim, pm_borderEdges := sc_BorderEdges claim,
       pm_lastRefusal := [],
       pm_gameVersion := (if sc_GameVersion claim \<noteq> [] then sc_GameVersion claim
                          else pm_gameVersion m)\<rparr>"

definition accept_claim ::
  "bool \<Rightarrow> peer_conn \<Rightarrow> sector_claim \<Rightarrow> registry \<Rightarrow> claim_answer \<times> registry"
where
  "accept_claim saved p claim s1 =
     (let before = claimShapeLocked s1 (pc_id p);
          s2 = set_meta (pc_id p) (claimed_meta claim (metaLocked s1 (pc_id p))) s1
      in case assignLocked p claim s2 of
           ((r, reason, was_placed), s3) \<Rightarrow>
             if was_placed \<and> \<not> saved
             then (let s4 = s3\<lparr>rg_grid := snd (Release (res_Slot r) (rg_grid s3))\<rparr>
                   in (Granted (refused_grant s4 ''protocol_mismatch''), s4))
             else
               (let s4 = s3\<lparr>rg_claimed := List.insert (pc_conn p) (rg_claimed s3)\<rparr>;
                    quiet = (reason = ''updated'' \<and> shape_same before (claimShapeLocked s4 (pc_id p)))
                in (Granted (grantForLocked s4 r reason), if quiet then s4 else markChurnLocked s4)))"

text \<open>\<open>onSectorClaim\<close>, with the decoded claim and the clock.\<close>

definition refuse_claim :: "bytes \<Rightarrow> bytes \<Rightarrow> bytes list \<Rightarrow> registry \<Rightarrow> claim_answer \<times> registry" where
  "refuse_claim peerID reason why s =
     (let s' = set_meta peerID ((metaLocked s peerID)\<lparr>pm_lastRefusal := why\<rparr>) s
      in (Granted (refused_grant s' reason), markChurnLocked s'))"

definition onSectorClaim ::
  "time \<Rightarrow> bool \<Rightarrow> peer_conn \<Rightarrow> sector_claim option \<Rightarrow> registry \<Rightarrow> claim_answer \<times> registry"
where
  "onSectorClaim now saved p decoded s =
     (case decoded of
        None \<Rightarrow> (Close_malformed, s)
      | Some claim \<Rightarrow>
          if SectorClaim_Validate claim \<noteq> None then (Close_malformed, s)
          else if pc_role p = ''archive'' then (Granted (refused_grant s ''role_has_no_slot''), s)
          else
            (let m = metaLocked s (pc_id p);
                 (breach, meter) = claim_observe now (rg_limits s) (deref_or (pm_claims m) newClaimMeter);
                 s1 = set_meta (pc_id p) (m\<lparr>pm_claims := Some meter\<rparr>) s
             in case breach of
                  Some b \<Rightarrow> refuse_claim (pc_id p) ''rate_limited'' (capacityRefusal b) s1
                | None \<Rightarrow>
                    if mapVersionLocked s1 (pc_id p) \<noteq> [] \<and> sc_GameVersion claim \<noteq> [] \<and>
                       mapVersionLocked s1 (pc_id p) \<noteq> sc_GameVersion claim
                    then refuse_claim (pc_id p) ''version_incompatible''
                           [''game_version_incompatible: '', sc_GameVersion claim,
                            '' != the map's '', mapVersionLocked s1 (pc_id p)] s1
                    else accept_claim saved p claim s1))"

section \<open>Connecting and leaving\<close>

definition GrantAllowsRole :: "bytes \<Rightarrow> bytes \<Rightarrow> bool" where
  "GrantAllowsRole grant role =
     (if role = ''peer'' then grant = ''peer''
      else if role = ''archive'' then grant = ''subscribe''
      else False)"

text \<open>What the upgrade's credential proved; \<open>au_checked\<close> is false only under
  \<open>--insecure-no-token\<close>.\<close>

record authed =
  au_checked :: bool
  au_peerID :: bytes
  au_grant :: bytes

datatype refusal =
    Ref_malformed | Ref_borrowed_id | Ref_grant | Ref_protocol | Ref_draining | Ref_min_contract
  | Ref_game_version | Ref_evicted | Ref_subscribers | Ref_ack_failed

definition below_minimum :: "registry \<Rightarrow> handshake \<Rightarrow> bool" where
  "below_minimum s hs =
     (rg_minContract s \<noteq> [] \<and>
      (case CompareProtocol (hs_ProtocolVersion hs) (rg_minContract s) of
         Inl _ \<Rightarrow> False | Inr c \<Rightarrow> c < 0))"

text \<open>The refusals of \<open>handshake\<close> after the frame decoded, in order, each with the text it leaves
  on the peer's entry when it leaves one.\<close>

definition handshake_refusal ::
  "authed \<Rightarrow> handshake \<Rightarrow> registry \<Rightarrow> (refusal \<times> bytes list option) option"
where
  "handshake_refusal auth hs s =
     (let peer = (hs_Role hs = ''peer''); m = mapVersionLocked s [] in
      if Handshake_Validate hs \<noteq> None then Some (Ref_malformed, None)
      else if au_checked auth \<and> hs_PeerID hs \<noteq> au_peerID auth then Some (Ref_borrowed_id, None)
      else if au_checked auth \<and> \<not> GrantAllowsRole (au_grant auth) (hs_Role hs)
      then Some (Ref_grant, None)
      else if CheckProtocol (hs_ProtocolVersion hs) ProtocolB \<noteq> None then Some (Ref_protocol, None)
      else if rg_draining s then Some (Ref_draining, None)
      else if below_minimum s hs
      then Some (Ref_min_contract,
             if peer then Some [''contract_version_below_minimum: '', hs_ProtocolVersion hs,
                                '' < '', rg_minContract s] else None)
      else if peer \<and> m \<noteq> [] \<and> hs_GameVersion hs \<noteq> [] \<and> m \<noteq> hs_GameVersion hs
      then Some (Ref_game_version, Some [''game_version_incompatible: '', hs_GameVersion hs,
                                         '' != the map's '', m])
      else if \<not> au_checked auth \<and> hs_PeerID hs \<in> set (rg_evicted s) then Some (Ref_evicted, None)
      else if \<not> peer \<and> map_of (rg_subscribers s) (hs_PeerID hs) = None \<and>
              int (length (rg_subscribers s)) \<ge> li_MaxSubscribers (rg_limits s)
      then Some (Ref_subscribers, None)
      else None)"

text \<open>The registration of an accepted connection.\<close>

definition register_conn :: "time \<Rightarrow> nat \<Rightarrow> handshake \<Rightarrow> registry \<Rightarrow> peer_conn \<times> registry" where
  "register_conn now conn hs s =
     (let id = hs_PeerID hs; peer = (hs_Role hs = ''peer'');
          p = \<lparr>pc_id = id, pc_role = hs_Role hs, pc_conn = conn\<rparr>;
          s1 = (if peer then s\<lparr>rg_live := AList.update id p (rg_live s)\<rparr>
                else s\<lparr>rg_subscribers := AList.update id p (rg_subscribers s)\<rparr>);
          m = metaLocked s id;
          m1 = m\<lparr>pm_lastRefusal := [], pm_lastSeenMs := unix_milli now, pm_darkSinceMs := 0\<rparr>;
          m2 = (if peer then
                  m1\<lparr>pm_gameVersion := (if hs_GameVersion hs \<noteq> [] then hs_GameVersion hs
                                       else pm_gameVersion m1),
                     pm_simSize := (if f64_positive (hs_SimulationSize hs)
                                    then hs_SimulationSize hs else pm_simSize m1)\<rparr>
                else m1)
      in (p, markChurnLocked (set_meta id m2 s1)))"

text \<open>\<open>handshake\<close>: the new connection's registry entry, or why it was refused.  \<open>acked\<close> says whether
  the \<open>HANDSHAKE_ACK\<close> could be queued.\<close>

definition on_handshake ::
  "time \<Rightarrow> bool \<Rightarrow> nat \<Rightarrow> authed \<Rightarrow> handshake \<Rightarrow> registry \<Rightarrow> (refusal + peer_conn) \<times> registry"
where
  "on_handshake now acked conn auth hs s =
     (case handshake_refusal auth hs s of
        Some (r, None) \<Rightarrow> (Inl r, s)
      | Some (r, Some why) \<Rightarrow>
          (Inl r, markChurnLocked (set_meta (hs_PeerID hs)
             ((metaLocked s (hs_PeerID hs))\<lparr>pm_lastRefusal := why\<rparr>) s))
      | None \<Rightarrow>
          if \<not> acked then (Inl Ref_ack_failed, s)
          else (case register_conn now conn hs s of (p, s') \<Rightarrow> (Inr p, s')))"

definition drop_peer :: "time \<Rightarrow> peer_conn \<Rightarrow> registry \<Rightarrow> registry" where
  "drop_peer now p s =
     (let archive = (pc_role p = ''archive'');
          cur = map_of (if archive then rg_subscribers s else rg_live s) (pc_id p)
      in if cur \<noteq> Some p then s
         else
           (let s1 = (if archive
                      then s\<lparr>rg_subscribers := AList.delete (pc_id p) (rg_subscribers s)\<rparr>
                      else s\<lparr>rg_live := AList.delete (pc_id p) (rg_live s)\<rparr>);
                s2 = (case map_of (rg_meta s1) (pc_id p) of
                        None \<Rightarrow> s1
                      | Some m \<Rightarrow>
                          set_meta (pc_id p)
                            (m\<lparr>pm_modConnected := False,
                               pm_darkSinceMs := (if pc_role p = ''peer'' then unix_milli now
                                                  else pm_darkSinceMs m)\<rparr>) s1)
            in markChurnLocked s2))"

end
