(* ===== verification/MapClaims.thy ===== *)
theory MapClaims imports Torus Registry "HOL-Library.Sublist" begin

text \<open>
  What the relay's map and the two walks over it promise: placement is an insertion and a map
  with a hole is not widened, a saved map loads to itself, the neighbour the relay publishes is
  the first deliverable slot of the axis and the one the client computes from the status frame,
  and the exhaustive walk of the second delivery phase misses nobody.
\<close>

section \<open>Placement\<close>

text \<open>C19: placing a peer that holds no slot, on a map that satisfies its invariant, gives it the
  next slot number ever issued, keeps the invariant (positions, slots and peers distinct and on
  the rectangle, structural order), and moves nobody else except by a strictly monotone shift of
  columns and rows: slots and peers stay, and the order along both axes stays.\<close>

theorem place_is_insertion:
  assumes "grid_ok g" and "ResOfPeer g p = None" and "Place p pref g = (q, g')"
  shows "grid_ok g' \<and> res_Slot q = gr_MaxSlotEverIssued g + 1 \<and>
    gr_MaxSlotEverIssued g' = res_Slot q \<and> ResOfPeer g' p = Some q \<and>
    (\<exists>f h. strict_mono f \<and> strict_mono h \<and>
       set (gr_Slots g') = insert q (moved f h ` set (gr_Slots g)))"
proof -
  have "placed p g q g'"
    using Place_placed [OF grid_ok_slots [OF assms(1)] _ assms(3)] assms(2)
    by (simp add: ResOfPeer_None)
  then show ?thesis
    using ResOfPeer_Some [OF grid_ok_slots, of g' p q] by (auto simp: placed_def)
qed

definition two_by_two :: grid where
  "two_by_two = \<lparr>gr_Width = 2, gr_Height = 2,
     gr_Slots = [\<lparr>res_Slot = 1, res_Col = 0, res_Row = 0, res_PeerID = ''a''\<rparr>,
                 \<lparr>res_Slot = 3, res_Col = 1, res_Row = 0, res_PeerID = ''b''\<rparr>,
                 \<lparr>res_Slot = 2, res_Col = 0, res_Row = 1, res_PeerID = ''c''\<rparr>],
     gr_MaxSlotEverIssued = 4\<rparr>"

definition no_preference :: preference where
  "no_preference = \<lparr>pf_Slot = 0, pf_Position = None, pf_InsertAfterSlot = 0, pf_InsertAxis = []\<rparr>"

lemma two_by_two_ok: "grid_ok two_by_two"
  by (simp add: grid_ok_def slots_ok_def two_by_two_def cell_def structural_key_def)

lemma two_by_two_hole: "HasHole two_by_two"
  by (simp add: HasHole_def Size_def two_by_two_def)

lemma place_is_insertion_witness:
  "res_Slot (fst (Place ''d'' (no_preference\<lparr>pf_InsertAfterSlot := 1\<rparr>) two_by_two)) = 5"
proof -
  have "ResOfPeer two_by_two ''d'' = None" by (simp add: ResOfPeer_def two_by_two_def)
  from place_is_insertion [OF two_by_two_ok this prod.collapse [symmetric]]
  have "res_Slot (fst (Place ''d'' (no_preference\<lparr>pf_InsertAfterSlot := 1\<rparr>) two_by_two)) =
      gr_MaxSlotEverIssued two_by_two + 1" by blast
  then show ?thesis by (simp add: two_by_two_def)
qed

text \<open>On a map that has a hole, a placement that names no valid splice anchor keeps the
  rectangle's width and height, whatever position it prefers, and the newcomer lands on a position
  that was free.\<close>

theorem hole_before_growth:
  assumes "grid_ok g" and "grid_Holes g \<noteq> []" and "ResOfPeer g p = None"
    and "pf_InsertAfterSlot pref \<le> 0 \<or> ResOfSlot g (pf_InsertAfterSlot pref) = None"
    and "Place p pref g = (q, g')"
  shows "Shape g' = Shape g \<and> res_pos q \<in> set (grid_Holes g)"
proof -
  have g: "slots_ok g" using assms(1) by auto
  have hole: "HasHole g"
    using assms(2) unfolding HasHole_exact [OF g]
    by (auto simp: grid_Holes_def filter_empty_conv intro: bexI [rotated])
  have shape: "Shape g' = Shape g" by (rule place_keeps_shape [OF g hole assms(4,5)])
  have "placed p g q g'"
    using Place_placed [OF g _ assms(5)] assms(3) by (simp add: ResOfPeer_None)
  then have g': "slots_ok g'" and q: "q \<in> set (gr_Slots g')" by (auto simp: placed_def)
  have inside: "(res_Col q, res_Row q) \<in> set (rectangle g)"
    using slots_okD(7) [OF g' q] shape by (simp add: set_rectangle Shape_def)
  have "At g (res_Col q) (res_Row q) = None"
    by (rule place_free [OF g hole assms(4,5)])
  then have "(res_Col q, res_Row q) \<in> set (filter (\<lambda>(c, r). At g c r = None) (rectangle g))"
    using inside by simp
  then have "res_pos q \<in> set (grid_Holes g)"
    unfolding grid_Holes_def set_map by (rule rev_image_eqI) (simp add: res_pos_def)
  with shape show ?thesis by simp
qed

lemma hole_before_growth_witness:
  "Shape (snd (Place ''d'' (no_preference\<lparr>pf_Position := Some \<lparr>po_Col = 7, po_Row = 0\<rparr>\<rparr>) two_by_two))
     = \<lparr>ms_Width = 2, ms_Height = 2\<rparr>"
proof -
  have free: "ResOfPeer two_by_two ''d'' = None" by (simp add: ResOfPeer_def two_by_two_def)
  have holes: "grid_Holes two_by_two \<noteq> []" by code_simp
  let ?pref = "no_preference\<lparr>pf_Position := Some \<lparr>po_Col = 7, po_Row = 0\<rparr>\<rparr>"
  have "pf_InsertAfterSlot ?pref \<le> 0 \<or> ResOfSlot two_by_two (pf_InsertAfterSlot ?pref) = None"
    by (simp add: no_preference_def)
  from hole_before_growth [OF two_by_two_ok holes free this prod.collapse [symmetric]]
  have "Shape (snd (Place ''d'' ?pref two_by_two)) = Shape two_by_two" by blast
  then show ?thesis by (simp add: Shape_def two_by_two_def)
qed

section \<open>Loading\<close>

text \<open>A map that satisfies its invariant loads back from the file \<open>Save\<close> writes unchanged.\<close>

theorem load_save_roundtrip:
  assumes "grid_ok g"
  shows "LoadGrid (Some (Save g)) = g"
proof -
  note d = slots_okD [OF grid_ok_slots [OF assms]]
  have up: "upgrade_ring (Save g) = g" by (simp add: upgrade_ring_def Save_def)
  have "fold absorb (gr_Slots g) g = g" by (rule fold_absorb_id) (use d(7) in force)
  then show ?thesis
    using assms by (simp add: LoadGrid_def up Let_def grid_ok_def sort_slots_sorted)
qed

lemma load_save_roundtrip_witness: "LoadGrid (Some (Save two_by_two)) = two_by_two"
  by (rule load_save_roundtrip [OF two_by_two_ok])

section \<open>The relay's neighbour\<close>

lemma res_pos_on_axis:
  assumes "slots_ok g" and "r \<in> set (gr_Slots g)"
  shows "0 \<le> axis_of edge (res_pos r)" "axis_of edge (res_pos r) < axis_len edge (gr_Width g) (gr_Height g)"
  using slots_okD(7) [OF assms] by (auto simp: axis_of_def axis_len_def res_pos_def)

lemma At_res_pos:
  assumes "slots_ok g"
  shows "At g (po_Col p) (po_Row p) = Some t \<longleftrightarrow> t \<in> set (gr_Slots g) \<and> res_pos t = p"
  using At_Some [OF assms, of "po_Col p" "po_Row p" t] by (auto simp: cell_def res_pos_def)

lemma res_pos_inj:
  assumes "slots_ok g" and "r \<in> set (gr_Slots g)" "t \<in> set (gr_Slots g)" "res_pos r = res_pos t"
  shows "r = t"
  using At_res_pos [OF assms(1), of "res_pos r"] assms(2-4) by (metis option.inject)

text \<open>The neighbour the relay publishes for an export edge is the first deliverable slot on
  the sender's row or column in the edge's direction, wrapping once; it is never the sender.  The
  skip list names, in order and with its reason, every position passed over, and when there is no
  neighbour that is every other position of the axis.\<close>

theorem effective_neighbour_first:
  assumes "grid_ok g" and "me \<in> set (gr_Slots g)"
    and "Effective g me edge ok = (out, skipped)"
  shows "(\<forall>k \<in> set skipped. case At g (po_Col (sk_Position k)) (po_Row (sk_Position k)) of
            None \<Rightarrow> sk_Slot k = None \<and> sk_Reason k = ''hole''
          | Some r \<Rightarrow> ok r \<noteq> [] \<and> sk_Slot k = Some (res_Slot r) \<and> sk_Reason k = ok r) \<and>
    (case out of
       None \<Rightarrow> map sk_Position skipped = axis_walked edge (gr_Width g) (gr_Height g) (res_pos me) \<and>
         (\<forall>t \<in> set (gr_Slots g). t \<noteq> me \<longrightarrow>
            cross_of edge (res_pos t) = cross_of edge (res_pos me) \<longrightarrow> ok t \<noteq> [])
     | Some t \<Rightarrow> t \<in> set (gr_Slots g) \<and> t \<noteq> me \<and> ok t = [] \<and>
         cross_of edge (res_pos t) = cross_of edge (res_pos me) \<and>
         prefix (map sk_Position skipped @ [res_pos t])
           (axis_walked edge (gr_Width g) (gr_Height g) (res_pos me)))"
proof -
  have g: "slots_ok g" using assms(1) by auto
  let ?ps = "axis_walked edge (gr_Width g) (gr_Height g) (res_pos me)"
  note set = axis_walked_set [OF res_pos_on_axis [OF g assms(2), of edge]]
  note skip_at = relay_walk.skip_at_def [of g] and open_at = relay_walk.open_at_def [of g]
  have pos: "map sk_Position (map (relay_walk.skip_at g ok) ps) = ps" for ps
    by (induction ps) (auto simp: skip_at split: option.splits)
  have loop: "effective_loop g ok ?ps [] = (out, skipped)"
    using assms(3) by (simp add: Effective_walked)
  have closed: "case At g (po_Col (sk_Position k)) (po_Row (sk_Position k)) of
            None \<Rightarrow> sk_Slot k = None \<and> sk_Reason k = ''hole''
          | Some r \<Rightarrow> ok r \<noteq> [] \<and> sk_Slot k = Some (res_Slot r) \<and> sk_Reason k = ok r"
    if "k = relay_walk.skip_at g ok p" "\<not> relay_walk.open_at g ok p" for k p
    using that by (auto simp: skip_at open_at split: option.splits)
  show ?thesis
  proof (cases out)
    case None
    with relay_walk.loop_result [OF loop]
    have all: "\<forall>p \<in> set ?ps. \<not> relay_walk.open_at g ok p" "skipped = map (relay_walk.skip_at g ok) ?ps"
      by simp_all
    have "ok t \<noteq> []" if "t \<in> set (gr_Slots g)" "t \<noteq> me"
      "cross_of edge (res_pos t) = cross_of edge (res_pos me)" for t
    proof -
      have "res_pos t \<noteq> res_pos me" using res_pos_inj [OF g that(1) assms(2)] that(2) by auto
      then have "res_pos t \<in> set ?ps" using set res_pos_on_axis [OF g that(1), of edge] that(3) by simp
      then have "\<not> relay_walk.open_at g ok (res_pos t)" using all(1) by blast
      moreover have "At g (po_Col (res_pos t)) (po_Row (res_pos t)) = Some t"
        using At_res_pos [OF g] that(1) by simp
      ultimately show ?thesis by (simp add: open_at)
    qed
    with None all closed show ?thesis by (auto simp: pos simp del: map_map)
  next
    case (Some t)
    with relay_walk.loop_result [OF loop] obtain before p after where b:
      "?ps = before @ p # after" "At g (po_Col p) (po_Row p) = Some t" "ok t = []"
      "\<forall>q \<in> set before. \<not> relay_walk.open_at g ok q" "skipped = map (relay_walk.skip_at g ok) before"
      by auto
    have t: "t \<in> set (gr_Slots g)" "res_pos t = p" using b(2) At_res_pos [OF g] by auto
    have "p \<in> set ?ps" using b(1) by simp
    then have "cross_of edge p = cross_of edge (res_pos me)" "p \<noteq> res_pos me" using set by auto
    with Some b t closed show ?thesis by (auto simp: pos prefix_def simp del: map_map)
  qed
qed

lemma effective_neighbour_first_witness:
  "fst (Effective two_by_two (gr_Slots two_by_two ! 0) ''W'' (\<lambda>_. [])) = Some (gr_Slots two_by_two ! 1)"
proof -
  let ?me = "gr_Slots two_by_two ! 0"
  have me: "?me \<in> set (gr_Slots two_by_two)" by (simp add: two_by_two_def)
  have out: "fst (Effective two_by_two ?me ''W'' (\<lambda>_. [])) \<noteq> None" by code_simp
  obtain t sk where e: "Effective two_by_two ?me ''W'' (\<lambda>_. []) = (Some t, sk)"
    using out by (metis option.exhaust prod.collapse)
  from effective_neighbour_first [OF two_by_two_ok me e]
  have "t \<in> set (gr_Slots two_by_two)" "t \<noteq> ?me"
    "cross_of ''W'' (res_pos t) = cross_of ''W'' (res_pos ?me)" by simp_all
  then have "t = gr_Slots two_by_two ! 1"
    by (auto simp: two_by_two_def cross_of_def Vertical_def res_pos_def)
  with e show ?thesis by simp
qed

section \<open>The client's walk agrees\<close>

lemma status_At_broadcast:
  "status_At (broadcastPeerStatus ep s) pos =
     map_option (slot_info_of s) (At (rg_grid s) (po_Col pos) (po_Row pos))"
proof -
  have "find (\<lambda>i. si_Position i = pos) (map (slot_info_of s) rs) =
      map_option (slot_info_of s) (find (\<lambda>r. res_Col r = po_Col pos \<and> res_Row r = po_Row pos) rs)" for rs
    by (induction rs) (auto simp: slot_info_of_def res_pos_def Let_def)
  then show ?thesis by (simp add: status_At_def broadcastPeerStatus_def At_def)
qed

lemma Deliverable_slot_info:
  "res_Slot r \<noteq> res_Slot me \<Longrightarrow>
     Deliverable (slot_info_of s me) (slot_info_of s r) = deliverableLocked s me r"
  by (simp add: Deliverable_def deliverableLocked_def slot_info_of_def Let_def)

text \<open>C21: the relay's published neighbour and the one a client computes for itself from the status
  frame agree: the client's walk over the broadcast finds the same slot, and skips the same
  positions for the same reasons, as the relay's walk over its reservations.\<close>

theorem client_walk_agrees:
  assumes "grid_ok (rg_grid s)" and "me \<in> set (gr_Slots (rg_grid s))"
  shows "Walk (broadcastPeerStatus ep s) (slot_info_of s me) edge =
    map_prod (map_option (slot_info_of s)) id
      (Effective (rg_grid s) me edge (deliverableLocked s me))"
proof -
  let ?g = "rg_grid s"
  have g: "slots_ok ?g" using assms(1) by auto
  let ?ps = "axis_walked edge (gr_Width ?g) (gr_Height ?g) (res_pos me)"
  have "walk_loop (broadcastPeerStatus ep s) (slot_info_of s me) ?ps [] =
      map_prod (map_option (slot_info_of s)) id (effective_loop ?g (deliverableLocked s me) ?ps [])"
  proof (rule both_walks.loops_agree)
    show "status_At (broadcastPeerStatus ep s) p =
        map_option (slot_info_of s) (At ?g (po_Col p) (po_Row p))" for p
      by (rule status_At_broadcast)
    fix p x assume p: "p \<in> set ?ps" and x: "At ?g (po_Col p) (po_Row p) = Some x"
    have "p \<noteq> res_pos me" using axis_walked_set [OF res_pos_on_axis [OF g assms(2), of edge]] p by auto
    moreover have xs: "x \<in> set (gr_Slots ?g)" "res_pos x = p" using x At_res_pos [OF g] by auto
    ultimately have "x \<noteq> me" by auto
    then have "res_Slot x \<noteq> res_Slot me"
      using slots_okD(5) [OF g] xs(1) assms(2) by (metis distinct_map inj_onD)
    then show "si_Slot (slot_info_of s x) = res_Slot x \<and>
        Deliverable (slot_info_of s me) (slot_info_of s x) = deliverableLocked s me x"
      by (simp add: Deliverable_slot_info) (simp add: slot_info_of_def Let_def)
  qed
  then show ?thesis
    unfolding Walk_def axis_positions_walked Effective_walked
    by (simp add: broadcastPeerStatus_def Shape_def slot_info_of_def Let_def)
qed

definition quiet_registry :: registry where
  "quiet_registry = \<lparr>rg_grid = two_by_two, rg_live = [(''a'', \<lparr>pc_id = ''a'', pc_role = ''peer'', pc_conn = 1\<rparr>),
       (''b'', \<lparr>pc_id = ''b'', pc_role = ''peer'', pc_conn = 2\<rparr>)],
     rg_subscribers = [], rg_claimed = [1, 2],
     rg_meta = [(''a'', zero_meta\<lparr>pm_gameVersion := ''0.6.1'', pm_modConnected := True,
                          pm_exportEdges := [''E'']\<rparr>),
                (''b'', zero_meta\<lparr>pm_gameVersion := ''0.6.1'', pm_modConnected := True\<rparr>)],
     rg_inherited = [], rg_churn = 0, rg_pending = 0, rg_limits = DefaultLimits,
     rg_minContract = [], rg_draining = False, rg_evicted = []\<rparr>"

lemma client_walk_agrees_witness:
  "map_option si_PeerID (fst (Walk (broadcastPeerStatus 7 quiet_registry)
     (slot_info_of quiet_registry (gr_Slots two_by_two ! 0)) ''E'')) = Some ''b''"
proof -
  have ok: "grid_ok (rg_grid quiet_registry)" by (simp add: quiet_registry_def two_by_two_ok)
  have me: "gr_Slots two_by_two ! 0 \<in> set (gr_Slots (rg_grid quiet_registry))"
    by (simp add: quiet_registry_def two_by_two_def)
  show ?thesis unfolding client_walk_agrees [OF ok me] by code_simp
qed

section \<open>The retries after a refusal\<close>

text \<open>A status frame whose slots lie on the map at distinct positions, as the relay broadcasts it.\<close>

definition frame_ok :: "peer_status \<Rightarrow> bool" where
  "frame_ok status =
     ((\<forall>c \<in> set (ps_Slots status). in_map (ps_Map status) (si_Position c)) \<and>
      distinct (map si_Position (ps_Slots status)) \<and> distinct (map si_Slot (ps_Slots status)))"

lemma frame_status_At:
  assumes "frame_ok status"
  shows "status_At status pos = Some c \<longleftrightarrow> c \<in> set (ps_Slots status) \<and> si_Position c = pos"
proof -
  have "find (\<lambda>x. si_Position x = pos) xs = Some c \<longleftrightarrow> c \<in> set xs \<and> si_Position c = pos"
    if "distinct (map si_Position xs)" for xs
    using that by (induction xs) (auto simp: image_iff)
  with assms show ?thesis by (simp add: status_At_def frame_ok_def)
qed

lemma broadcast_frame_ok:
  assumes "grid_ok (rg_grid s)"
  shows "frame_ok (broadcastPeerStatus ep s)"
proof -
  note d = slots_okD [OF grid_ok_slots [OF assms]]
  have inf: "si_Position (slot_info_of s r) = res_pos r" "si_Slot (slot_info_of s r) = res_Slot r" for r
    by (simp_all add: slot_info_of_def Let_def)
  have "distinct (map res_pos (gr_Slots (rg_grid s)))"
    using d(4) by (auto simp: distinct_map inj_on_def cell_def res_pos_def)
  then show ?thesis
    using d(5,7) by (auto simp: frame_ok_def broadcastPeerStatus_def inf comp_def in_map_def Shape_def)
      (auto simp: res_pos_def)
qed

text \<open>On a frame whose slots lie on the map, both retries of the client are exhaustive and
  sound.  The walk that continues past a refused slot of my axis finds nothing only when no slot of
  that axis, the refused one aside, is deliverable, not mine and not excluded; the walk over the
  whole map finds nothing only when no such slot exists at all; and what either returns is such a
  slot.\<close>

theorem retry_walks_exhaustive:
  assumes "frame_ok status" and "me \<in> set (ps_Slots status)"
    and "Find status afterSlot = Some a" and "cross_of edge (si_Position a) = cross_of edge (si_Position me)"
    and "ok = (\<lambda>c. c \<in> set (ps_Slots status) \<and> si_Slot c \<noteq> si_Slot me \<and> si_Slot c \<notin> set excluded \<and>
                   Deliverable me c = [])"
  shows "(WalkAfter status me edge afterSlot excluded = None \<longleftrightarrow>
      (\<forall>c. ok c \<longrightarrow> cross_of edge (si_Position c) = cross_of edge (si_Position me) \<longrightarrow> c = a)) \<and>
    (WalkAnywhere status me edge excluded = None \<longleftrightarrow> (\<forall>c. \<not> ok c)) \<and>
    (\<forall>c. WalkAfter status me edge afterSlot excluded = Some c \<or>
         WalkAnywhere status me edge excluded = Some c \<longrightarrow> ok c)"
proof -
  let ?w = "ms_Width (ps_Map status)" and ?h = "ms_Height (ps_Map status)"
  note at = frame_status_At [OF assms(1)]
  have cand: "candidate status me excluded p c \<longleftrightarrow> ok c \<and> si_Position c = p" for p c
    by (auto simp: candidate_def at assms(5))
  have in_map: "in_map (ps_Map status) (si_Position c)" if "c \<in> set (ps_Slots status)" for c
    using that assms(1) by (simp add: frame_ok_def)
  have a: "a \<in> set (ps_Slots status)" using assms(3) by (auto simp: Find_def find_Some_iff)
  have axis: "0 \<le> axis_of edge (si_Position c)" "axis_of edge (si_Position c) < axis_len edge ?w ?h"
    if "c \<in> set (ps_Slots status)" for c
    using in_map [OF that] by (simp_all add: in_map_axis [of _ _ edge])
  have after: "WalkAfter status me edge afterSlot excluded =
      retry_loop status me excluded (axis_walked edge ?w ?h (si_Position a))"
    using assms(3,4) by (simp add: WalkAfter_def axis_positions_walked cross_of_def split: if_splits)
  have posinj: "c = a" if "c \<in> set (ps_Slots status)" "si_Position c = si_Position a" for c
    using that a assms(1) by (metis frame_ok_def distinct_map inj_onD)
  have one: "retry_loop status me excluded (axis_walked edge ?w ?h (si_Position a)) = None \<longleftrightarrow>
      (\<forall>c. ok c \<longrightarrow> cross_of edge (si_Position c) = cross_of edge (si_Position me) \<longrightarrow> c = a)"
  proof -
    have "si_Position c \<in> set (axis_walked edge ?w ?h (si_Position a)) \<longleftrightarrow>
        cross_of edge (si_Position c) = cross_of edge (si_Position me) \<and> c \<noteq> a"
      if "ok c" for c
      using axis_walked_set [OF axis [OF a]] axis [of c] posinj [of c] that assms(4,5) by auto
    then show ?thesis by (auto simp: retry_loop_None cand)
  qed
  have m: "in_map (ps_Map status) (si_Position me)" by (rule in_map [OF assms(2)])
  then have wh: "0 < ?w" "0 < ?h" by (auto simp: in_map_def)
  note all = anywhere_once(2) [OF wh, of edge "si_Position me"]
  have two: "WalkAnywhere status me edge excluded = None \<longleftrightarrow> (\<forall>c. \<not> ok c)"
  proof -
    have elsewhere: "si_Position c \<noteq> si_Position me \<and> in_map (ps_Map status) (si_Position c)"
      if "ok c" for c
      using that assms(1,2,5) in_map unfolding frame_ok_def distinct_map inj_on_def by auto
    have "WalkAnywhere status me edge excluded = None \<longleftrightarrow>
        (\<forall>p. in_map (ps_Map status) p \<longrightarrow> p \<noteq> si_Position me \<longrightarrow> (\<forall>c. \<not> (ok c \<and> si_Position c = p)))"
      unfolding WalkAnywhere_def retry_loop_None cand using all by auto
    also have "\<dots> \<longleftrightarrow> (\<forall>c. \<not> ok c)" using elsewhere by blast
    finally show ?thesis .
  qed
  have three: "ok c" if "retry_loop status me excluded ps = Some c" for ps c
    using that by (auto simp: retry_loop_Some cand)
  show ?thesis using one two three by (auto simp: after WalkAnywhere_def)
qed

lemma retry_walks_exhaustive_witness:
  "WalkAnywhere (broadcastPeerStatus 7 quiet_registry)
     (slot_info_of quiet_registry (gr_Slots two_by_two ! 0)) ''E'' [3] = None"
proof -
  let ?s = "broadcastPeerStatus 7 quiet_registry"
  let ?me = "slot_info_of quiet_registry (gr_Slots two_by_two ! 0)"
  let ?a = "slot_info_of quiet_registry (gr_Slots two_by_two ! 1)"
  have f: "frame_ok ?s" by (rule broadcast_frame_ok) (simp add: quiet_registry_def two_by_two_ok)
  have me: "?me \<in> set (ps_Slots ?s)"
    by (simp add: broadcastPeerStatus_def quiet_registry_def two_by_two_def)
  have a: "Find ?s 3 = Some ?a"
    by (simp add: Find_def broadcastPeerStatus_def quiet_registry_def two_by_two_def slot_info_of_def Let_def)
  have cr: "cross_of ''E'' (si_Position ?a) = cross_of ''E'' (si_Position ?me)"
    by (simp add: cross_of_def Vertical_def slot_info_of_def Let_def two_by_two_def res_pos_def)
  have "list_all (\<lambda>c. \<not> (si_Slot c \<noteq> si_Slot ?me \<and> si_Slot c \<notin> set [3] \<and>
      Deliverable ?me c = [])) (ps_Slots ?s)"
    by code_simp
  then have none: "\<not> (c \<in> set (ps_Slots ?s) \<and> si_Slot c \<noteq> si_Slot ?me \<and> si_Slot c \<notin> set [3] \<and>
      Deliverable ?me c = [])" for c
    by (auto simp only: list_all_iff)
  from retry_walks_exhaustive [OF f me a cr refl, of "[3]"] none show ?thesis by blast
qed

end
