(* ===== verification/RegistryProps.thy ===== *)
theory RegistryProps imports MapClaims begin

text \<open>
  Runs of the relay's registry: every handler keeps the map's invariant, a slot number is never
  issued twice, and nothing takes the slot of a live peer away from it.
\<close>

section \<open>The events\<close>

text \<open>The handlers of the source as one step relation; every argument a handler gets from outside
  (the clock, the frame, the connection, whether the map file could be written) is free.\<close>

inductive reg_step :: "registry \<Rightarrow> registry \<Rightarrow> bool" where
  claim: "reg_step s (snd (onSectorClaim now saved p decoded s))"
| connect: "reg_step s (snd (on_handshake now acked conn auth hs s))"
| leave: "reg_step s (drop_peer now p s)"
| release: "reg_step s (snd (ReleaseSlot saved slot s))"
| handover: "reg_step s (snd (HandoverSlot saved slot peer s))"
| reserve: "reg_step s (snd (ReserveSlot saved peer at_pos s))"

definition reg_ok :: "registry \<Rightarrow> bool" where
  "reg_ok s = (grid_ok (rg_grid s) \<and> map_ok (rg_live s) \<and> map_ok (rg_subscribers s) \<and>
     map_ok (rg_meta s) \<and>
     (\<forall>(k, p) \<in> set (rg_live s). pc_id p = k \<and> pc_role p = ''peer'') \<and>
     (\<forall>(k, m) \<in> set (rg_meta s). list_all ValidEdge (pm_exportEdges m)))"

section \<open>What one step does to the map\<close>

definition slot_numbers :: "grid \<Rightarrow> int set" where
  "slot_numbers g = res_Slot ` set (gr_Slots g)"

text \<open>The map after a step: its invariant holds, the issue counter did not go back, every slot
  number not above the old counter was there before, and the peers of \<open>keep\<close> still hold the same
  slot.\<close>

definition grid_next :: "bytes set \<Rightarrow> grid \<Rightarrow> grid \<Rightarrow> bool" where
  "grid_next keep g g' \<longleftrightarrow>
     grid_ok g' \<and> gr_MaxSlotEverIssued g \<le> gr_MaxSlotEverIssued g' \<and>
     slot_numbers g' \<inter> {..gr_MaxSlotEverIssued g} \<subseteq> slot_numbers g \<and>
     (\<forall>p \<in> keep. SlotOfPeer g p > 0 \<longrightarrow> SlotOfPeer g' p = SlotOfPeer g p)"

lemma grid_next_refl: "grid_ok g \<Longrightarrow> grid_next keep g g"
  by (simp add: grid_next_def)

lemma SlotOfPeer_pos:
  assumes "slots_ok g"
  shows "0 < SlotOfPeer g p \<longleftrightarrow> ResOfPeer g p \<noteq> None"
proof (cases "ResOfPeer g p")
  case None
  then show ?thesis by (simp add: SlotOfPeer_def)
next
  case (Some r)
  then have "r \<in> set (gr_Slots g)" using ResOfPeer_Some [OF assms] by blast
  with slots_okD(7) [OF assms] Some show ?thesis by (force simp: SlotOfPeer_def)
qed

lemma SlotOfPeer_mem:
  assumes "slots_ok g" and "r \<in> set (gr_Slots g)"
  shows "SlotOfPeer g (res_PeerID r) = res_Slot r"
proof -
  have "ResOfPeer g (res_PeerID r) = Some r" using ResOfPeer_Some [OF assms(1)] assms(2) by blast
  then show ?thesis by (simp add: SlotOfPeer_def)
qed

lemma SlotOfPeer_ex:
  assumes "slots_ok g" and "SlotOfPeer g p > 0"
  shows "\<exists>r. r \<in> set (gr_Slots g) \<and> res_PeerID r = p \<and> SlotOfPeer g p = res_Slot r"
proof -
  from assms obtain r where r: "ResOfPeer g p = Some r" using SlotOfPeer_pos by auto
  then have "r \<in> set (gr_Slots g) \<and> res_PeerID r = p" using ResOfPeer_Some [OF assms(1)] by blast
  with r show ?thesis by (auto simp: SlotOfPeer_def)
qed

lemma Place_next:
  assumes g: "grid_ok g" and none: "ResOfPeer g p = None" and out: "Place p pref g = (q, g')"
  shows "grid_next keep g g'"
proof -
  have pl: "placed p g q g'"
    using Place_placed [OF grid_ok_slots [OF g] _ out] none by (simp add: ResOfPeer_None)
  then obtain f h where g': "slots_ok g'"
    and set: "set (gr_Slots g') = insert q (moved f h ` set (gr_Slots g))"
    and q: "res_Slot q = gr_MaxSlotEverIssued g + 1" "res_PeerID q = p"
    by (auto simp: placed_def)
  have "SlotOfPeer g' k = SlotOfPeer g k" if k: "SlotOfPeer g k > 0" for k
  proof -
    obtain r where r: "r \<in> set (gr_Slots g)" "res_PeerID r = k" "SlotOfPeer g k = res_Slot r"
      using SlotOfPeer_ex [OF grid_ok_slots [OF g] k] by blast
    then have "moved f h r \<in> set (gr_Slots g')" using set by blast
    from SlotOfPeer_mem [OF g' this] r show ?thesis by simp
  qed
  moreover have "slot_numbers g' = insert (gr_MaxSlotEverIssued g + 1) (slot_numbers g)"
    using set q by (auto simp: slot_numbers_def image_image)
  ultimately show ?thesis using pl by (auto simp: grid_next_def placed_def)
qed

lemma Release_next:
  assumes g: "grid_ok g" and off: "\<forall>r \<in> set (gr_Slots g). res_Slot r = slot \<longrightarrow> res_PeerID r \<notin> keep"
  shows "grid_next keep g (snd (Release slot g))"
proof -
  obtain out g' where e: "Release slot g = (out, g')" by (cases "Release slot g")
  note R = Release_ok [OF g e]
  have "SlotOfPeer g' k = SlotOfPeer g k" if k: "k \<in> keep" "SlotOfPeer g k > 0" for k
  proof -
    obtain r where r: "r \<in> set (gr_Slots g)" "res_PeerID r = k" "SlotOfPeer g k = res_Slot r"
      using SlotOfPeer_ex [OF grid_ok_slots [OF g] k(2)] by blast
    then have "r \<in> set (gr_Slots g')" using R(3) off k(1) by auto
    from SlotOfPeer_mem [OF grid_ok_slots [OF R(1)] this] r show ?thesis by simp
  qed
  then show ?thesis using R e by (auto simp: grid_next_def slot_numbers_def)
qed

lemma Handover_next:
  assumes g: "grid_ok g" and off: "\<forall>r \<in> set (gr_Slots g). res_Slot r = slot \<longrightarrow> res_PeerID r \<notin> keep"
    and p: "ResOfPeer g p = None"
  shows "grid_next keep g (snd (Handover slot p g))"
proof -
  obtain out g' where e: "Handover slot p g = (out, g')" by (cases "Handover slot p g")
  note R = Handover_ok [OF g e ResOfPeer_None [THEN iffD1, OF p]]
  have "SlotOfPeer g' k = SlotOfPeer g k" if k: "k \<in> keep" "SlotOfPeer g k > 0" for k
  proof -
    obtain r where r: "r \<in> set (gr_Slots g)" "res_PeerID r = k" "SlotOfPeer g k = res_Slot r"
      using SlotOfPeer_ex [OF grid_ok_slots [OF g] k(2)] by blast
    then have "res_Slot r \<noteq> slot" using off k(1) by auto
    then have "r \<in> set (gr_Slots g')" using r(1) R(3) by (auto simp: image_iff)
    from SlotOfPeer_mem [OF grid_ok_slots [OF R(1)] this] r show ?thesis by simp
  qed
  moreover have "slot_numbers g' = slot_numbers g"
    unfolding slot_numbers_def R(3) image_image by (rule image_cong) simp_all
  ultimately show ?thesis using R e by (auto simp: grid_next_def)
qed

text \<open>Placing and giving the new slot back when the map file cannot be written.\<close>

lemma Place_Release_next:
  assumes g: "grid_ok g" and none: "ResOfPeer g p = None" and out: "Place p pref g = (q, g')"
  shows "grid_next keep g (snd (Release (res_Slot q) g'))"
proof -
  note P = Place_next [OF g none out, of keep]
  have g': "grid_ok g'" using P by (simp add: grid_next_def)
  have pl: "placed p g q g'"
    using Place_placed [OF grid_ok_slots [OF g] _ out] none by (simp add: ResOfPeer_None)
  have q: "q \<in> set (gr_Slots g')" "res_PeerID q = p" using pl by (auto simp: placed_def)
  have only: "r = q" if "r \<in> set (gr_Slots g')" "res_Slot r = res_Slot q" for r
    using that q(1) slots_okD(5) [OF grid_ok_slots [OF g']] by (metis distinct_map inj_onD)
  have "grid_next (keep - {p}) g' (snd (Release (res_Slot q) g'))"
    using only q(2) by (intro Release_next [OF g']) auto
  moreover have "SlotOfPeer g k > 0 \<Longrightarrow> k \<noteq> p" for k using none by (auto simp: SlotOfPeer_def)
  ultimately show ?thesis
    using P unfolding grid_next_def subset_iff by auto
qed

lemma rebind_back:
  assumes "find (\<lambda>x. res_Slot x = slot) rs = Some r"
  shows "rebind slot (res_PeerID r) (rebind slot p rs) = rs" and
    "find (\<lambda>x. res_Slot x = slot) (rebind slot p rs) = Some (r\<lparr>res_PeerID := p\<rparr>)"
  using assms by (induction rs) (auto split: if_splits)

lemma Handover_back:
  assumes "slots_ok g" and "ResOfSlot g slot = Some r"
    and "Handover slot p g = (Some (r, r\<lparr>res_PeerID := p\<rparr>), g')"
  shows "snd (Handover slot (res_PeerID r) g') = g"
proof -
  have g': "g' = g\<lparr>gr_Slots := rebind slot p (gr_Slots g)\<rparr>"
    using assms(2,3) by (simp add: Handover_def)
  show ?thesis
    using rebind_back [of slot "gr_Slots g" r p] assms(2)
    by (simp add: Handover_def ResOfSlot_def g')
qed

section \<open>One step of the registry\<close>

lemma rg_grid_simps [simp]:
  "rg_grid (markChurnLocked s) = rg_grid s" "rg_grid (set_meta k m s) = rg_grid s"
  "rg_live (markChurnLocked s) = rg_live s" "rg_live (set_meta k m s) = rg_live s"
  "rg_subscribers (markChurnLocked s) = rg_subscribers s"
  "rg_subscribers (set_meta k m s) = rg_subscribers s"
  "rg_meta (markChurnLocked s) = rg_meta s" "rg_meta (set_meta k m s) = AList.update k m (rg_meta s)"
  "is_live (markChurnLocked s) = is_live s" "is_live (set_meta k m s) = is_live s"
  by (auto simp: markChurnLocked_def set_meta_def is_live_def)

definition live_peers :: "registry \<Rightarrow> bytes set" where
  "live_peers s = {p. is_live s p}"

text \<open>The registry apart from the map.\<close>

definition tables_ok :: "registry \<Rightarrow> bool" where
  "tables_ok s = (map_ok (rg_live s) \<and> map_ok (rg_subscribers s) \<and> map_ok (rg_meta s) \<and>
     (\<forall>(k, p) \<in> set (rg_live s). pc_id p = k \<and> pc_role p = ''peer'') \<and>
     (\<forall>(k, m) \<in> set (rg_meta s). list_all ValidEdge (pm_exportEdges m)))"

lemma reg_ok_iff: "reg_ok s = (grid_ok (rg_grid s) \<and> tables_ok s)"
  by (auto simp: reg_ok_def tables_ok_def)

lemma tables_ok_simps [simp]:
  "tables_ok (markChurnLocked s) = tables_ok s"
  "tables_ok (s\<lparr>rg_grid := g\<rparr>) = tables_ok s"
  "tables_ok (s\<lparr>rg_claimed := c\<rparr>) = tables_ok s"
  "tables_ok (s\<lparr>rg_inherited := inh\<rparr>) = tables_ok s"
  by (simp_all add: tables_ok_def)

lemma tables_ok_set_meta [simp]:
  "tables_ok s \<Longrightarrow> list_all ValidEdge (pm_exportEdges m) \<Longrightarrow> tables_ok (set_meta k m s)"
  using update_mem [of k m "rg_meta s"] by (auto simp: tables_ok_def)

lemma metaLocked_edges [simp]:
  "tables_ok s \<Longrightarrow> list_all ValidEdge (pm_exportEdges (metaLocked s k))"
  by (auto simp: tables_ok_def metaLocked_def deref_or_def zero_meta_def split: option.splits
      dest!: map_of_SomeD)

lemma claimed_meta_edges:
  "SectorClaim_Validate claim = None \<Longrightarrow> list_all ValidEdge (pm_exportEdges (claimed_meta claim m))"
  by (simp add: SectorClaim_Validate_def claimed_meta_def split: if_splits)

lemma assign_next:
  assumes "grid_ok (rg_grid s)" and "assignLocked p claim s = ((r, reason, placed_now), s')"
  shows "grid_next keep (rg_grid s) (rg_grid s')"
    and "placed_now \<Longrightarrow> grid_next keep (rg_grid s) (snd (Release (res_Slot r) (rg_grid s')))"
    and "tables_ok s' = tables_ok s"
proof -
  have "grid_next keep (rg_grid s) (rg_grid s') \<and>
    (placed_now \<longrightarrow> grid_next keep (rg_grid s) (snd (Release (res_Slot r) (rg_grid s')))) \<and>
    tables_ok s' = tables_ok s"
  proof (cases "ResOfPeer (rg_grid s) (pc_id p)")
    case (Some q)
    with assms show ?thesis
      by (auto simp: assignLocked_def grid_next_refl split: if_splits)
  next
    case None
    let ?pref = "\<lparr>pf_Slot = sc_PreferredSlot claim, pf_Position = sc_PreferredPosition claim,
      pf_InsertAfterSlot = sc_InsertAfterSlot claim, pf_InsertAxis = sc_InsertAxis claim\<rparr>"
    obtain q g' where pl: "Place (pc_id p) ?pref (rg_grid s) = (q, g')"
      by (cases "Place (pc_id p) ?pref (rg_grid s)")
    then have "r = q" "s' = s\<lparr>rg_grid := g'\<rparr>" using assms(2) None by (auto simp: assignLocked_def)
    then show ?thesis
      using Place_next [OF assms(1) None pl] Place_Release_next [OF assms(1) None pl] by simp
  qed
  then show "grid_next keep (rg_grid s) (rg_grid s')"
    "placed_now \<Longrightarrow> grid_next keep (rg_grid s) (snd (Release (res_Slot r) (rg_grid s')))"
    "tables_ok s' = tables_ok s" by simp_all
qed

lemma accept_next:
  assumes g: "grid_ok (rg_grid s)" and t: "tables_ok s" and v: "SectorClaim_Validate claim = None"
  shows "grid_next keep (rg_grid s) (rg_grid (snd (accept_claim saved p claim s))) \<and>
    tables_ok (snd (accept_claim saved p claim s))"
proof -
  let ?s2 = "set_meta (pc_id p) (claimed_meta claim (metaLocked s (pc_id p))) s"
  obtain r reason pl s3 where a: "assignLocked p claim ?s2 = ((r, reason, pl), s3)"
    by (metis prod.collapse)
  have g2: "grid_ok (rg_grid ?s2)" using g by simp
  note n = assign_next [OF g2 a]
  have t3: "tables_ok s3" using n(3) t claimed_meta_edges [OF v] by simp
  show ?thesis
    using n(1) n(2) t3 by (simp add: accept_claim_def Let_def a)
qed

lemma refuse_next:
  assumes "grid_ok (rg_grid s)" and "tables_ok s"
  shows "grid_next keep (rg_grid s) (rg_grid (snd (refuse_claim p reason why s))) \<and>
    tables_ok (snd (refuse_claim p reason why s))"
  using assms by (simp add: refuse_claim_def Let_def grid_next_refl)

lemma claim_next:
  assumes "grid_ok (rg_grid s)" and "tables_ok s"
  shows "grid_next keep (rg_grid s) (rg_grid (snd (onSectorClaim now saved p decoded s))) \<and>
    tables_ok (snd (onSectorClaim now saved p decoded s))"
proof -
  have m: "grid_ok (rg_grid (set_meta k ((metaLocked s k)\<lparr>pm_claims := c\<rparr>) s))"
    "tables_ok (set_meta k ((metaLocked s k)\<lparr>pm_claims := c\<rparr>) s)" for k c
    using assms by simp_all
  note sub = accept_next [OF m, simplified rg_grid_simps, where keep = keep]
    refuse_next [OF m, simplified rg_grid_simps, where keep = keep]
  show ?thesis
    using assms
    by (simp add: onSectorClaim_def Let_def sub grid_next_refl split: option.split prod.split)
qed

lemma map_ok_live_update:
  "tables_ok s \<Longrightarrow> pc_role p = ''peer'' \<Longrightarrow>
     tables_ok (s\<lparr>rg_live := AList.update (pc_id p) p (rg_live s)\<rparr>)"
  using update_mem [of "pc_id p" p "rg_live s"] by (fastforce simp: tables_ok_def)

lemma handshake_next:
  assumes "grid_ok (rg_grid s)" and "tables_ok s"
  shows "rg_grid (snd (on_handshake now acked conn auth hs s)) = rg_grid s \<and>
    tables_ok (snd (on_handshake now acked conn auth hs s))"
proof -
  let ?p = "\<lparr>pc_id = hs_PeerID hs, pc_role = hs_Role hs, pc_conn = conn\<rparr>"
  have live: "tables_ok (s\<lparr>rg_live := AList.update (hs_PeerID hs) ?p (rg_live s)\<rparr>)"
    if "hs_Role hs = ''peer''"
    using map_ok_live_update [OF assms(2), of ?p] that by simp
  have sub: "tables_ok (s\<lparr>rg_subscribers := AList.update (hs_PeerID hs) ?p (rg_subscribers s)\<rparr>)"
    using assms(2) by (simp add: tables_ok_def)
  have "rg_grid (snd (register_conn now conn hs s)) = rg_grid s \<and>
      tables_ok (snd (register_conn now conn hs s))"
    using live sub assms(2) by (cases "hs_Role hs = ''peer''") (simp_all add: register_conn_def Let_def)
  then show ?thesis
    using assms(2) by (auto simp: on_handshake_def split: option.split prod.split)
qed

lemma drop_next:
  assumes "tables_ok s"
  shows "rg_grid (drop_peer now p s) = rg_grid s \<and> tables_ok (drop_peer now p s)"
proof -
  have live: "tables_ok (s\<lparr>rg_live := AList.delete k (rg_live s)\<rparr>)" for k
    using assms delete_mem [of k "rg_live s"] by (fastforce simp: tables_ok_def)
  have sub: "tables_ok (s\<lparr>rg_subscribers := AList.delete k (rg_subscribers s)\<rparr>)" for k
    using assms by (simp add: tables_ok_def)
  have edges: "list_all ValidEdge (pm_exportEdges m)" if "map_of (rg_meta s) k = Some m" for k m
    using assms map_of_SomeD [OF that] by (auto simp: tables_ok_def)
  show ?thesis
    using assms live sub edges by (auto simp: drop_peer_def Let_def split: option.splits)
qed

lemma offline_slot:
  assumes "ResOfSlot g slot = Some r" and "slots_ok g" and "\<not> is_live s (res_PeerID r)"
  shows "\<forall>x \<in> set (gr_Slots g). res_Slot x = slot \<longrightarrow> res_PeerID x \<notin> live_peers s"
proof -
  have "x = r" if "x \<in> set (gr_Slots g)" "res_Slot x = slot" for x
    using that assms(1) ResOfSlot_Some [OF assms(2), of slot x] by simp
  with assms(3) show ?thesis by (auto simp: live_peers_def)
qed

lemma release_next:
  assumes g: "grid_ok (rg_grid s)" and t: "tables_ok s"
  shows "grid_next (live_peers s) (rg_grid s) (rg_grid (snd (ReleaseSlot saved slot s))) \<and>
    tables_ok (snd (ReleaseSlot saved slot s))"
proof (cases "ResOfSlot (rg_grid s) slot")
  case None
  then show ?thesis using g t by (simp add: ReleaseSlot_def grid_next_refl)
next
  case (Some r)
  note n = Release_next [OF g offline_slot [OF Some grid_ok_slots [OF g]]]
  show ?thesis
    using g t n by (cases "is_live s (res_PeerID r)")
      (simp_all add: ReleaseSlot_def Some Let_def grid_next_refl)
qed

lemma reserve_next:
  assumes g: "grid_ok (rg_grid s)" and t: "tables_ok s"
  shows "grid_next (live_peers s) (rg_grid s) (rg_grid (snd (ReserveSlot saved peer at_pos s))) \<and>
    tables_ok (snd (ReserveSlot saved peer at_pos s))"
proof (cases "peer = [] \<or> ResOfPeer (rg_grid s) peer \<noteq> None")
  case True
  then show ?thesis using g t by (auto simp: ReserveSlot_def grid_next_refl)
next
  case False
  let ?pref = "\<lparr>pf_Slot = 0, pf_Position = at_pos, pf_InsertAfterSlot = 0, pf_InsertAxis = []\<rparr>"
  obtain q g' where pl: "Place peer ?pref (rg_grid s) = (q, g')"
    by (cases "Place peer ?pref (rg_grid s)")
  from False have none: "ResOfPeer (rg_grid s) peer = None" by simp
  show ?thesis
    using False t Place_next [OF g none pl] Place_Release_next [OF g none pl]
    by (simp add: ReserveSlot_def pl)
qed

text \<open>Handing a slot over, and handing it back when the map file cannot be written.\<close>

lemma handover_next:
  assumes g: "grid_ok (rg_grid s)" and t: "tables_ok s"
  shows "grid_next (live_peers s) (rg_grid s) (rg_grid (snd (HandoverSlot saved slot peer s))) \<and>
    tables_ok (snd (HandoverSlot saved slot peer s))"
proof (cases "ResOfSlot (rg_grid s) slot")
  case None
  then show ?thesis using g t by (simp add: HandoverSlot_def grid_next_refl)
next
  case (Some r)
  show ?thesis
  proof (cases "peer = [] \<or> is_live s (res_PeerID r) \<or> SlotOfPeer (rg_grid s) peer > 0")
    case True
    then show ?thesis using g t by (auto simp: HandoverSlot_def Some grid_next_refl)
  next
    case False
    note gs = grid_ok_slots [OF g]
    have none: "ResOfPeer (rg_grid s) peer = None" using False SlotOfPeer_pos [OF gs] by auto
    have r: "r \<in> set (gr_Slots (rg_grid s))" "res_Slot r = slot"
      using Some ResOfSlot_Some [OF gs] by auto
    have off: "\<forall>x \<in> set (gr_Slots (rg_grid s)). res_Slot x = slot \<longrightarrow> res_PeerID x \<notin> live_peers s"
      by (rule offline_slot [OF Some gs]) (use False in simp)
    obtain g' where h: "Handover slot peer (rg_grid s) = (Some (r, r\<lparr>res_PeerID := peer\<rparr>), g')"
      by (simp add: Handover_def Some)
    have n1: "grid_next (live_peers s) (rg_grid s) g'"
      using Handover_next [OF g off none] h by simp
    have undo: "rg_grid s = snd (Handover slot (res_PeerID r) g')"
      by (rule Handover_back [OF gs Some h, symmetric])
    have meta: "tables_ok (s\<lparr>rg_grid := a, rg_meta := AList.delete k (rg_meta s), rg_inherited := i\<rparr>)"
      for a k i using t delete_mem [of k "rg_meta s"] by (fastforce simp: tables_ok_def)
    show ?thesis
      using False t n1 meta grid_next_refl [OF g]
      by (simp add: HandoverSlot_def Some h flip: undo)
  qed
qed

section \<open>Runs\<close>

text \<open>Every handler but the operator commands on an offline peer keeps every live peer's slot.\<close>

lemma step_next:
  assumes "reg_step s s'" and "reg_ok s"
  shows "reg_ok s' \<and> grid_next (live_peers s) (rg_grid s) (rg_grid s')"
proof -
  have g: "grid_ok (rg_grid s)" and t: "tables_ok s" using assms(2) by (simp_all add: reg_ok_iff)
  have "grid_next (live_peers s) (rg_grid s) (rg_grid s') \<and> tables_ok s'"
    using assms(1)
  proof cases
    case claim then show ?thesis using claim_next [OF g t] by simp
  next
    case connect then show ?thesis using handshake_next [OF g t] grid_next_refl [OF g] by simp
  next
    case leave then show ?thesis using drop_next [OF t] grid_next_refl [OF g] by simp
  next
    case release then show ?thesis using release_next [OF g t] by simp
  next
    case handover then show ?thesis using handover_next [OF g t] by simp
  next
    case reserve then show ?thesis using reserve_next [OF g t] by simp
  qed
  then show ?thesis by (auto simp: reg_ok_iff grid_next_def)
qed

text \<open>C20: in every run of the relay, from a registry that satisfies its invariant and through any
  sequence of claims, connections, departures and operator commands, with the map file written or
  not, the invariant holds: slots, positions and peers of the reservations are distinct, on the
  rectangle and in structural order.  And no slot number is ever issued twice: one that is free at
  some point of the run, and was issued before it, stays free for ever.\<close>

theorem registry_run_safe:
  assumes "reg_step\<^sup>*\<^sup>* s s'" and "reg_ok s"
  shows "reg_ok s' \<and> gr_MaxSlotEverIssued (rg_grid s) \<le> gr_MaxSlotEverIssued (rg_grid s') \<and>
    slot_numbers (rg_grid s') \<inter> {..gr_MaxSlotEverIssued (rg_grid s)} \<subseteq> slot_numbers (rg_grid s)"
  using assms
proof (induction rule: rtranclp_induct)
  case base
  then show ?case by simp
next
  case (step s1 s2)
  then have IH: "reg_ok s1" "gr_MaxSlotEverIssued (rg_grid s) \<le> gr_MaxSlotEverIssued (rg_grid s1)"
    "slot_numbers (rg_grid s1) \<inter> {..gr_MaxSlotEverIssued (rg_grid s)} \<subseteq> slot_numbers (rg_grid s)"
    by blast+
  have n: "reg_ok s2" "grid_next (live_peers s1) (rg_grid s1) (rg_grid s2)"
    using step_next [OF step.hyps(2) IH(1)] by simp_all
  have "gr_MaxSlotEverIssued (rg_grid s1) \<le> gr_MaxSlotEverIssued (rg_grid s2)"
    "slot_numbers (rg_grid s2) \<inter> {..gr_MaxSlotEverIssued (rg_grid s1)} \<subseteq> slot_numbers (rg_grid s1)"
    using n(2) by (auto simp: grid_next_def)
  moreover have "slot_numbers (rg_grid s2) \<inter> {..gr_MaxSlotEverIssued (rg_grid s)} \<subseteq> slot_numbers (rg_grid s)"
    using calculation IH(2,3) by (auto simp: subset_iff)
  ultimately show ?case using n(1) IH(2) by (meson order_trans)
qed

lemma quiet_registry_ok: "reg_ok quiet_registry"
  by (simp add: reg_ok_def quiet_registry_def two_by_two_ok map_ok_def zero_meta_def ValidEdge_def)

text \<open>The slot of an offline peer is released and a newcomer reserved: slot 2 does not come back.\<close>

lemma registry_run_safe_witness:
  "2 \<notin> slot_numbers (rg_grid (snd (ReserveSlot True ''d'' None (snd (ReleaseSlot True 2 quiet_registry)))))"
proof -
  let ?s1 = "snd (ReleaseSlot True 2 quiet_registry)" and ?s2 = "\<lambda>s. snd (ReserveSlot True ''d'' None s)"
  have run: "reg_step\<^sup>*\<^sup>* ?s1 (?s2 ?s1)" by (rule r_into_rtranclp) (rule reg_step.reserve)
  have ok: "reg_ok ?s1"
    using step_next [OF reg_step.release quiet_registry_ok] by blast
  have "2 \<notin> slot_numbers (rg_grid ?s1)" "2 \<le> gr_MaxSlotEverIssued (rg_grid ?s1)"
    unfolding slot_numbers_def by code_simp+
  with registry_run_safe [OF run ok] show ?thesis by auto
qed

text \<open>While a peer is connected nothing takes its slot: whatever handler runs, for whatever
  client and with whatever arguments, the peer still holds the same slot number afterwards.\<close>

theorem live_peer_keeps_slot:
  assumes "reg_step s s'" and "reg_ok s" and "is_live s p" and "ResOfPeer (rg_grid s) p = Some r"
  shows "\<exists>r'. ResOfPeer (rg_grid s') p = Some r' \<and> res_Slot r' = res_Slot r"
proof -
  note n = step_next [OF assms(1,2)]
  have g: "slots_ok (rg_grid s)" "slots_ok (rg_grid s')" using n assms(2) by (auto simp: reg_ok_iff)
  have pos: "SlotOfPeer (rg_grid s) p = res_Slot r" "SlotOfPeer (rg_grid s) p > 0"
    using assms(4) SlotOfPeer_pos [OF g(1), of p] by (simp_all add: SlotOfPeer_def)
  have "SlotOfPeer (rg_grid s') p = res_Slot r"
    using n pos assms(3) by (auto simp: grid_next_def live_peers_def)
  with pos SlotOfPeer_pos [OF g(2), of p] show ?thesis by (auto simp: SlotOfPeer_def split: option.splits)
qed

lemma live_peer_keeps_slot_witness:
  "\<exists>r'. ResOfPeer (rg_grid (snd (ReleaseSlot True 3 quiet_registry))) ''b'' = Some r' \<and>
     res_Slot r' = 3"
proof -
  let ?r = "gr_Slots two_by_two ! 1"
  have live: "is_live quiet_registry ''b''" by (simp add: is_live_def quiet_registry_def)
  have r: "ResOfPeer (rg_grid quiet_registry) ''b'' = Some ?r"
    by (simp add: ResOfPeer_def quiet_registry_def two_by_two_def)
  have "res_Slot ?r = 3" by (simp add: two_by_two_def)
  with live_peer_keeps_slot [OF reg_step.release quiet_registry_ok live r] show ?thesis by simp
qed

end
