(* ===== verification/RegistryClaims.thy ===== *)
theory RegistryClaims imports RegistryProps begin

text \<open>
  What the relay's handlers promise their clients: who is admitted, what a repeated claim may
  suppress, and two cases in which the handlers fall short of their comments.
\<close>

section \<open>Admission\<close>


text \<open>What registering an accepted connection changes.\<close>

lemma registered_conn:
  "fst (register_conn now conn hs s) = \<lparr>pc_id = hs_PeerID hs, pc_role = hs_Role hs, pc_conn = conn\<rparr>"
  "rg_grid (snd (register_conn now conn hs s)) = rg_grid s"
  "hs_Role hs = ''peer'' \<Longrightarrow> map_of (rg_live (snd (register_conn now conn hs s))) =
     (map_of (rg_live s))(hs_PeerID hs \<mapsto> fst (register_conn now conn hs s))"
  "hs_Role hs = ''peer'' \<Longrightarrow> rg_subscribers (snd (register_conn now conn hs s)) = rg_subscribers s"
  "hs_Role hs \<noteq> ''peer'' \<Longrightarrow> map_of (rg_subscribers (snd (register_conn now conn hs s))) =
     (map_of (rg_subscribers s))(hs_PeerID hs \<mapsto> fst (register_conn now conn hs s))"
  "hs_Role hs \<noteq> ''peer'' \<Longrightarrow> rg_live (snd (register_conn now conn hs s)) = rg_live s"
  "pm_lastRefusal (metaLocked (snd (register_conn now conn hs s)) (hs_PeerID hs)) = []"
  by (simp_all add: register_conn_def Let_def update_conv' metaLocked_def set_meta_def markChurnLocked_def)

text \<open>C24: a connection is accepted exactly when its handshake is well formed, names the
  peer its credential proved in a role that the credential's grant allows, speaks a compatible
  protocol at or above the configured minimum, does not disagree with the map's game version, the
  relay is neither draining, nor evicting it, nor out of subscriber slots, and the acknowledgement
  could be queued.  An accepted connection is then the one registered under its id, in the table of
  live peers or of subscribers as its role says, in place of an older one; every other entry of that
  table, the other table and the reservations are unchanged, and its last refusal is cleared.  A refused
  connection leaves reservations, live peers and subscribers as they were, and one that borrows
  another peer's id, or whose acknowledgement cannot be queued, leaves the registry untouched.\<close>

theorem admission_gate:
  "((\<exists>p. fst (on_handshake now acked conn auth hs s) = Inr p) \<longleftrightarrow>
      Handshake_Validate hs = None \<and>
      (\<not> au_checked auth \<or>
        hs_PeerID hs = au_peerID auth \<and>
        (hs_Role hs = ''peer'' \<and> au_grant auth = ''peer'' \<or>
         hs_Role hs = ''archive'' \<and> au_grant auth = ''subscribe'')) \<and>
      CheckProtocol (hs_ProtocolVersion hs) ProtocolB = None \<and> \<not> rg_draining s \<and>
      \<not> below_minimum s hs \<and>
      \<not> (hs_Role hs = ''peer'' \<and> mapVersionLocked s [] \<noteq> [] \<and> hs_GameVersion hs \<noteq> [] \<and>
         mapVersionLocked s [] \<noteq> hs_GameVersion hs) \<and>
      (au_checked auth \<or> hs_PeerID hs \<notin> set (rg_evicted s)) \<and>
      (hs_Role hs = ''peer'' \<or> map_of (rg_subscribers s) (hs_PeerID hs) \<noteq> None \<or>
       int (length (rg_subscribers s)) < li_MaxSubscribers (rg_limits s)) \<and> acked) \<and>
   (case on_handshake now acked conn auth hs s of
      (Inl r, s') \<Rightarrow> rg_grid s' = rg_grid s \<and> rg_live s' = rg_live s \<and>
        rg_subscribers s' = rg_subscribers s \<and>
        (au_checked auth \<and> hs_PeerID hs \<noteq> au_peerID auth \<longrightarrow> s' = s) \<and>
        (r = Ref_ack_failed \<longrightarrow> s' = s)
    | (Inr p, s') \<Rightarrow>
        p = \<lparr>pc_id = hs_PeerID hs, pc_role = hs_Role hs, pc_conn = conn\<rparr> \<and>
        (if hs_Role hs = ''peer''
         then map_of (rg_live s') = (map_of (rg_live s))(hs_PeerID hs \<mapsto> p) \<and> rg_subscribers s' = rg_subscribers s
         else map_of (rg_subscribers s') = (map_of (rg_subscribers s))(hs_PeerID hs \<mapsto> p) \<and>
              rg_live s' = rg_live s) \<and>
        rg_grid s' = rg_grid s \<and> pm_lastRefusal (metaLocked s' (hs_PeerID hs)) = [])"
proof -
  have gate: "handshake_refusal auth hs s = None \<longleftrightarrow>
      Handshake_Validate hs = None \<and>
      (\<not> au_checked auth \<or> hs_PeerID hs = au_peerID auth \<and> GrantAllowsRole (au_grant auth) (hs_Role hs)) \<and>
      CheckProtocol (hs_ProtocolVersion hs) ProtocolB = None \<and> \<not> rg_draining s \<and>
      \<not> below_minimum s hs \<and>
      \<not> (hs_Role hs = ''peer'' \<and> mapVersionLocked s [] \<noteq> [] \<and> hs_GameVersion hs \<noteq> [] \<and>
         mapVersionLocked s [] \<noteq> hs_GameVersion hs) \<and>
      (au_checked auth \<or> hs_PeerID hs \<notin> set (rg_evicted s)) \<and>
      (hs_Role hs = ''peer'' \<or> map_of (rg_subscribers s) (hs_PeerID hs) \<noteq> None \<or>
       int (length (rg_subscribers s)) < li_MaxSubscribers (rg_limits s))"
    unfolding handshake_refusal_def Let_def by (simp split: if_splits)
  have in_iff: "(\<exists>p. fst (on_handshake now acked conn auth hs s) = Inr p) \<longleftrightarrow>
      handshake_refusal auth hs s = None \<and> acked"
    by (auto simp: on_handshake_def split: option.splits prod.splits)
  have borrowed: "handshake_refusal auth hs s \<in> {Some (Ref_malformed, None), Some (Ref_borrowed_id, None)}"
    if "au_checked auth \<and> hs_PeerID hs \<noteq> au_peerID auth"
    using that by (simp add: handshake_refusal_def Let_def)
  have no_ack_failure: "handshake_refusal auth hs s \<noteq> Some (Ref_ack_failed, w)" for w
    by (simp add: handshake_refusal_def Let_def)
  have left: "case on_handshake now acked conn auth hs s of
      (Inl r, s') \<Rightarrow> rg_grid s' = rg_grid s \<and> rg_live s' = rg_live s \<and>
        rg_subscribers s' = rg_subscribers s \<and>
        (au_checked auth \<and> hs_PeerID hs \<noteq> au_peerID auth \<longrightarrow> s' = s) \<and>
        (r = Ref_ack_failed \<longrightarrow> s' = s)
    | (Inr p, s') \<Rightarrow>
        p = \<lparr>pc_id = hs_PeerID hs, pc_role = hs_Role hs, pc_conn = conn\<rparr> \<and>
        (if hs_Role hs = ''peer''
         then map_of (rg_live s') = (map_of (rg_live s))(hs_PeerID hs \<mapsto> p) \<and> rg_subscribers s' = rg_subscribers s
         else map_of (rg_subscribers s') = (map_of (rg_subscribers s))(hs_PeerID hs \<mapsto> p) \<and>
              rg_live s' = rg_live s) \<and>
        rg_grid s' = rg_grid s \<and> pm_lastRefusal (metaLocked s' (hs_PeerID hs)) = []"
  proof (cases "handshake_refusal auth hs s = None \<and> acked")
    case True
    then have accepted: "on_handshake now acked conn auth hs s =
        (Inr (fst (register_conn now conn hs s)), snd (register_conn now conn hs s))"
      by (simp add: on_handshake_def split: prod.splits)
    show ?thesis unfolding accepted by (simp add: registered_conn)
  next
    case False
    then show ?thesis using borrowed no_ack_failure
      by (auto simp: on_handshake_def split: option.splits prod.splits)
  qed
  have role: "GrantAllowsRole a b \<longleftrightarrow> b = ''peer'' \<and> a = ''peer'' \<or> b = ''archive'' \<and> a = ''subscribe''"
    for a b by (auto simp: GrantAllowsRole_def)
  show ?thesis unfolding in_iff gate role using left by (simp only: conj_assoc HOL.simp_thms)
qed

definition borrowed_hs :: handshake where
  "borrowed_hs = \<lparr>hs_PeerID = ''a'', hs_Role = ''peer'', hs_ProtocolVersion = ProtocolB,
     hs_GameVersion = ''0.6.1'', hs_SidecarVersion = [], hs_SimulationSize = Fin 1\<rparr>"

lemma admission_gate_witness:
  "snd (on_handshake 0 True 9 \<lparr>au_checked = True, au_peerID = ''mallory'', au_grant = ''peer''\<rparr>
     borrowed_hs quiet_registry) = quiet_registry"
proof -
  let ?a = "\<lparr>au_checked = True, au_peerID = ''mallory'', au_grant = ''peer''\<rparr>"
  have refused: "fst (on_handshake 0 True 9 ?a borrowed_hs quiet_registry) = Inl Ref_borrowed_id"
    by code_simp
  have "hs_PeerID borrowed_hs \<noteq> au_peerID ?a" by (simp add: borrowed_hs_def)
  with admission_gate [of 0 True 9 ?a borrowed_hs quiet_registry] refused show ?thesis
    by (cases "on_handshake 0 True 9 ?a borrowed_hs quiet_registry") auto
qed

section \<open>A reconnect after a game update\<close>

text \<open>A peer that is the only one connected and comes back with a new game version, before the
  relay has noticed that its old connection is dead, is refused over the version of that very
  connection: the handshake compares with the map's version including the peer's own entry,
  although the map has no version from anybody else.\<close>

theorem stale_connection_refuses_update:
  assumes "Handshake_Validate hs = None" and "hs_Role hs = ''peer''"
    and "\<not> au_checked auth \<or> hs_PeerID hs = au_peerID auth \<and> au_grant auth = ''peer''"
    and "CheckProtocol (hs_ProtocolVersion hs) ProtocolB = None" "\<not> rg_draining s" "\<not> below_minimum s hs"
    and "is_live s (hs_PeerID hs)" and "\<forall>q. is_live s q \<longrightarrow> q = hs_PeerID hs"
    and "pm_gameVersion (metaLocked s (hs_PeerID hs)) \<noteq> []" "hs_GameVersion hs \<noteq> []"
    and "pm_gameVersion (metaLocked s (hs_PeerID hs)) \<noteq> hs_GameVersion hs"
  shows "mapVersionLocked s (hs_PeerID hs) = [] \<and>
    fst (on_handshake now acked conn auth hs s) = Inl Ref_game_version"
proof -
  let ?id = "hs_PeerID hs"
  let ?c = "map res_PeerID (gr_Slots (rg_grid s)) @ map fst (rg_live s)"
  have none: "find (\<lambda>p. p \<noteq> ?id \<and> is_live s p \<and> pm_gameVersion (metaLocked s p) \<noteq> []) ?c = None"
    using assms(8) by (auto simp: find_None_iff)
  have id: "?id \<noteq> []" using assms(1) by (simp add: Handshake_Validate_def split: if_splits)
  have "?id \<in> set ?c" using assms(7) by (force simp: is_live_def dest: map_of_SomeD)
  then obtain p where p: "find (\<lambda>p. p \<noteq> [] \<and> is_live s p \<and> pm_gameVersion (metaLocked s p) \<noteq> []) ?c = Some p"
    using id assms(7,9) by (cases "find (\<lambda>p. p \<noteq> [] \<and> is_live s p \<and> pm_gameVersion (metaLocked s p) \<noteq> []) ?c")
      (auto simp: find_None_iff)
  then have "is_live s p" by (auto simp: find_Some_iff)
  then have "p = ?id" using assms(8) by blast
  with p have mv: "mapVersionLocked s [] = pm_gameVersion (metaLocked s ?id)"
    by (simp add: mapVersionLocked_def Let_def)
  have role: "GrantAllowsRole (au_grant auth) ''peer'' = (au_grant auth = ''peer'')"
    by (simp add: GrantAllowsRole_def)
  have "handshake_refusal auth hs s = Some (Ref_game_version,
      Some [''game_version_incompatible: '', hs_GameVersion hs, '' != the map's '', mapVersionLocked s []])"
    using assms(1-6,9-11) mv by (auto simp: handshake_refusal_def Let_def role)
  then show ?thesis using none by (simp add: on_handshake_def mapVersionLocked_def Let_def)
qed

lemma stale_connection_refuses_update_witness:
  "fst (on_handshake 0 True 9 \<lparr>au_checked = True, au_peerID = ''a'', au_grant = ''peer''\<rparr>
     (borrowed_hs\<lparr>hs_GameVersion := ''0.6.2''\<rparr>)
     (quiet_registry\<lparr>rg_live := [(''a'', \<lparr>pc_id = ''a'', pc_role = ''peer'', pc_conn = 1\<rparr>)]\<rparr>))
   = Inl Ref_game_version"
proof -
  let ?s = "quiet_registry\<lparr>rg_live := [(''a'', \<lparr>pc_id = ''a'', pc_role = ''peer'', pc_conn = 1\<rparr>)]\<rparr>"
  let ?hs = "borrowed_hs\<lparr>hs_GameVersion := ''0.6.2''\<rparr>"
  have v: "Handshake_Validate ?hs = None" "CheckProtocol (hs_ProtocolVersion ?hs) ProtocolB = None"
    "\<not> rg_draining ?s" "\<not> below_minimum ?s ?hs" by code_simp+
  have m: "pm_gameVersion (metaLocked ?s (hs_PeerID ?hs)) = ''0.6.1''" by code_simp
  show ?thesis
    by (rule stale_connection_refuses_update [THEN conjunct2])
      (use v m in \<open>simp_all add: borrowed_hs_def is_live_def\<close>)
qed

section \<open>Claims\<close>

text \<open>The joined edges of a valid list determine it.\<close>

lemma ValidEdge_hd: "ValidEdge e \<Longrightarrow> e = [hd e] \<and> hd e \<noteq> CHR '',''"
  by (auto simp: ValidEdge_def)

lemma edgeKey_Cons: "edgeKey (x # xs) = x @ (if xs = [] then [] else '','' @ edgeKey xs)"
  by (cases xs) (simp_all add: edgeKey_def)

lemma edgeKey_inverse:
  "list_all ValidEdge xs \<Longrightarrow> map (\<lambda>c. [c]) (filter (\<lambda>c. c \<noteq> CHR '','') (edgeKey xs)) = xs"
proof (induction xs)
  case Nil
  show ?case by (simp add: edgeKey_def)
next
  case (Cons x xs)
  obtain c where "x = [c]" "c \<noteq> CHR '',''" using Cons.prems ValidEdge_hd [of x] by auto
  with Cons show ?case by (simp add: edgeKey_Cons)
qed

lemma edgeKey_inj:
  "list_all ValidEdge xs \<Longrightarrow> list_all ValidEdge ys \<Longrightarrow> edgeKey xs = edgeKey ys \<Longrightarrow> xs = ys"
  using edgeKey_inverse by metis

text \<open>Two entries of a status frame that differ at most by an insignificant simulation size.\<close>

definition info_same :: "slot_info \<Rightarrow> slot_info \<Rightarrow> bool" where
  "info_same a b \<longleftrightarrow> b\<lparr>si_SimulationSize := si_SimulationSize a\<rparr> = a \<and>
     (si_SimulationSize b = si_SimulationSize a \<or> SameSize (si_SimulationSize a) (si_SimulationSize b))"

lemma info_same_refl [simp]: "info_same a a"
  by (simp add: info_same_def)

lemma pending_simps [simp]:
  "rg_pending (set_meta k m s) = rg_pending s"
  "rg_pending (markChurnLocked s) = rg_pending s + 1"
  by (simp_all add: set_meta_def markChurnLocked_def)

lemma metaLocked_set_meta:
  "metaLocked (set_meta k m s) q = (if q = k then m else metaLocked s q)"
  by (simp add: metaLocked_def set_meta_def)

lemma metaLocked_claimed [simp]: "metaLocked (s\<lparr>rg_claimed := c\<rparr>) q = metaLocked s q"
  by (simp add: metaLocked_def)

text \<open>A claim that was accepted without announcing anything.\<close>

lemma quiet_accept:
  assumes t: "tables_ok s" and v: "SectorClaim_Validate claim = None"
    and a: "accept_claim True p claim s = (answer, s')" and "rg_pending s' = rg_pending s"
  shows "rg_grid s' = rg_grid s \<and> is_live s' = is_live s \<and>
    (\<forall>r \<in> set (gr_Slots (rg_grid s)). info_same (slot_info_of s r) (slot_info_of s' r))"
proof -
  let ?id = "pc_id p"
  let ?m = "metaLocked s ?id"
  let ?m' = "claimed_meta claim ?m"
  let ?s2 = "set_meta ?id ?m' s"
  obtain r reason pl s3 where as: "assignLocked p claim ?s2 = ((r, reason, pl), s3)"
    by (metis prod.collapse)
  let ?s4 = "s3\<lparr>rg_claimed := List.insert (pc_conn p) (rg_claimed s3)\<rparr>"
  have p3: "rg_pending s3 = rg_pending s"
    using as by (auto simp: assignLocked_def split: option.splits if_splits prod.splits)
  have q: "reason = ''updated''" "shape_same (claimShapeLocked s ?id) (claimShapeLocked ?s4 ?id)"
    "s' = ?s4"
    using a assms(4) p3 by (auto simp: accept_claim_def Let_def as split: if_splits)
  then obtain r where r: "ResOfPeer (rg_grid s) ?id = Some r" and s3: "s3 = ?s2"
    using as by (auto simp: assignLocked_def split: option.splits if_splits prod.splits)
  have s': "s' = ?s2\<lparr>rg_claimed := List.insert (pc_conn p) (rg_claimed s3)\<rparr>" using q(3) s3 by simp
  have meta: "metaLocked s' k = (if k = ?id then ?m' else metaLocked s k)" for k
    by (simp add: s' metaLocked_set_meta)
  have live: "is_live s' = is_live s" by (rule ext) (simp add: s' is_live_def set_meta_def)
  have grid: "rg_grid s' = rg_grid s" by (simp add: s')
  have edges: "edgeKey (pm_exportEdges ?m) = edgeKey (pm_exportEdges ?m')"
    and rest: "pm_modConnected ?m = pm_modConnected ?m'" "pm_gameVersion ?m = pm_gameVersion ?m'"
      "SameSize (pm_simSize ?m) (pm_simSize ?m')"
    using q(2) unfolding q(3) [symmetric]
    by (simp_all add: shape_same_def claimShapeLocked_def Let_def r grid meta)
  have "pm_exportEdges ?m' = pm_exportEdges ?m"
    using edgeKey_inj [OF metaLocked_edges [OF t] claimed_meta_edges [OF v] edges] by simp
  then have "info_same (slot_info_of s x) (slot_info_of s' x)" for x
    using rest by (simp add: info_same_def slot_info_of_def Let_def meta live)
  then show ?thesis using grid live by simp
qed

text \<open>A claim may leave the broadcast unscheduled only when it changed nothing the broadcast
  carries: if the relay answers a claim, its map file is writable and the pending counter did not
  move, then the status frame it would publish is the one it would have published before, entry
  by entry, up to the size tolerance of the map.\<close>

theorem quiet_claim_publishes_nothing:
  assumes "reg_ok s" and "onSectorClaim now True p decoded s = (answer, s')"
    and "rg_pending s' = rg_pending s"
  shows "ps_Map (broadcastPeerStatus ep s') = ps_Map (broadcastPeerStatus ep s) \<and>
    list_all2 info_same (ps_Slots (broadcastPeerStatus ep s)) (ps_Slots (broadcastPeerStatus ep s'))"
proof (cases "s' = s")
  case True
  then show ?thesis by (simp add: list_all2_same)
next
  case False
  have t: "tables_ok s" using assms(1) by (simp add: reg_ok_iff)
  let ?s1 = "\<lambda>c. set_meta (pc_id p) ((metaLocked s (pc_id p))\<lparr>pm_claims := c\<rparr>) s"
  have t1: "tables_ok (?s1 c)" for c using t by simp
  have loud: "refuse_claim k reason why (?s1 c) \<noteq> (answer, s')" for k reason why c
    using assms(3) by (auto simp: refuse_claim_def Let_def)
  obtain claim c where acc: "accept_claim True p claim (?s1 c) = (answer, s')"
    "SectorClaim_Validate claim = None"
    using assms(2,3) False loud
    by (auto simp: onSectorClaim_def Let_def split: option.splits if_splits prod.splits)
  have "slot_info_of (?s1 c) r = slot_info_of s r" for r
    by (simp add: slot_info_of_def Let_def metaLocked_set_meta)
  with quiet_accept [OF t1 acc(2,1)] assms(3) show ?thesis
    by (simp add: broadcastPeerStatus_def list_all2_conv_all_nth)
qed

text \<open>The claim of peer \<open>a\<close> repeated word for word.\<close>

definition repeated_claim :: sector_claim where
  "repeated_claim = \<lparr>sc_PreferredSlot = 0, sc_PreferredPosition = None, sc_InsertAfterSlot = 0,
     sc_InsertAxis = [], sc_SimulationSize = Fin 0, sc_ExportEdges = [''E''], sc_BorderEdges = [],
     sc_GameVersion = ''0.6.1'', sc_ModConnected = True\<rparr>"

definition conn_a :: peer_conn where
  "conn_a = \<lparr>pc_id = ''a'', pc_role = ''peer'', pc_conn = 1\<rparr>"

lemma quiet_claim_publishes_nothing_witness:
  "list_all2 info_same (ps_Slots (broadcastPeerStatus 7 quiet_registry))
     (ps_Slots (broadcastPeerStatus 7
        (snd (onSectorClaim second True conn_a (Some repeated_claim) quiet_registry))))"
proof -
  have "rg_pending (snd (onSectorClaim second True conn_a (Some repeated_claim) quiet_registry)) =
      rg_pending quiet_registry" by code_simp
  from quiet_claim_publishes_nothing [OF quiet_registry_ok prod.collapse [symmetric] this]
  show ?thesis by blast
qed

section \<open>A placement that could not be saved\<close>

text \<open>When the map file cannot be written, a claim that asked to be spliced in is refused and its
  reservation is taken back, but the splice is not: the map stays one column wider, everybody
  beyond the anchor has moved, and nothing schedules the broadcast that would say so.\<close>

theorem unsaved_splice_moves_lanes:
  assumes "reg_ok s" and "ResOfPeer (rg_grid s) (pc_id p) = None"
    and "a \<in> set (gr_Slots (rg_grid s))" "sc_InsertAfterSlot claim = res_Slot a"
    and "sc_PreferredPosition claim = None" "sc_InsertAxis claim = ''E''"
    and "accept_claim False p claim s = (answer, s')"
  shows "gr_Width (rg_grid s') = gr_Width (rg_grid s) + 1 \<and>
    set (gr_Slots (rg_grid s')) = moved (shift_up (res_Col a)) id ` set (gr_Slots (rg_grid s)) \<and>
    rg_pending s' = rg_pending s \<and> (\<exists>g. answer = Granted g \<and> \<not> sg_Granted g)"
proof -
  let ?g = "rg_grid s"
  have g: "grid_ok ?g" using assms(1) by (simp add: reg_ok_iff)
  note d = slots_okD [OF grid_ok_slots [OF g]]
  let ?pref = "\<lparr>pf_Slot = sc_PreferredSlot claim, pf_Position = sc_PreferredPosition claim,
    pf_InsertAfterSlot = sc_InsertAfterSlot claim, pf_InsertAxis = sc_InsertAxis claim\<rparr>"
  have anchor: "ResOfSlot ?g (res_Slot a) = Some a" "0 < res_Slot a"
    using ResOfSlot_Some [OF grid_ok_slots [OF g]] assms(3) d(7) by force+
  let ?g1 = "?g\<lparr>gr_Slots := map (moved (shift_up (res_Col a)) id) (gr_Slots ?g), gr_Width := gr_Width ?g + 1\<rparr>"
  obtain q g2 where res: "reserve (pc_id p) (res_Col a + 1) (res_Row a) ?g1 = (q, g2)"
    by (cases "reserve (pc_id p) (res_Col a + 1) (res_Row a) ?g1")
  have pl: "Place (pc_id p) ?pref ?g = (q, g2)"
    using anchor res assms(4-6) by (simp add: Place_def place_spliced_def splice_def shift_col)
  note f = reserve_fields [OF res]
  have ok2: "grid_ok g2" using Place_next [OF g assms(2) pl, of "{}"] by (simp add: grid_next_def)
  obtain out g3 where rel: "Release (res_Slot q) g2 = (out, g3)" by (cases "Release (res_Slot q) g2")
  note R = Release_ok [OF ok2 rel]
  have "res_Slot x \<noteq> res_Slot q" if "x \<in> moved (shift_up (res_Col a)) id ` set (gr_Slots ?g)" for x
    using that d(7) f(1) by force
  then have slots: "set (gr_Slots g3) = moved (shift_up (res_Col a)) id ` set (gr_Slots ?g)"
    using R(3) f(3) by auto
  have "gr_Width g3 = gr_Width ?g + 1"
    using R(4) f(5) d(7) [OF assms(3)] by (simp add: Shape_def)
  moreover have "assignLocked p claim (set_meta (pc_id p) m s) =
      ((q, ''granted'', True), (set_meta (pc_id p) m s)\<lparr>rg_grid := g2\<rparr>)" for m
    using assms(2) pl by (simp add: assignLocked_def)
  ultimately show ?thesis
    using assms(7) slots rel by (auto simp: accept_claim_def Let_def refused_grant_def)
qed

definition two_by_two_a :: reservation where
  "two_by_two_a = \<lparr>res_Slot = 1, res_Col = 0, res_Row = 0, res_PeerID = ''a''\<rparr>"

lemma unsaved_splice_moves_lanes_witness:
  "gr_Width (rg_grid (snd (accept_claim False \<lparr>pc_id = ''d'', pc_role = ''peer'', pc_conn = 9\<rparr>
     (repeated_claim\<lparr>sc_InsertAfterSlot := 1, sc_InsertAxis := ''E''\<rparr>) quiet_registry))) = 3"
proof -
  let ?p = "\<lparr>pc_id = ''d'', pc_role = ''peer'', pc_conn = 9\<rparr>"
  let ?c = "repeated_claim\<lparr>sc_InsertAfterSlot := 1, sc_InsertAxis := ''E''\<rparr>"
  have none: "ResOfPeer (rg_grid quiet_registry) (pc_id ?p) = None" by code_simp
  have a: "two_by_two_a \<in> set (gr_Slots (rg_grid quiet_registry))"
    "sc_InsertAfterSlot ?c = res_Slot two_by_two_a" "sc_PreferredPosition ?c = None"
    "sc_InsertAxis ?c = ''E''" by (simp_all add: quiet_registry_def two_by_two_def two_by_two_a_def repeated_claim_def)
  have w: "gr_Width (rg_grid quiet_registry) = 2" by (simp add: quiet_registry_def two_by_two_def)
  from unsaved_splice_moves_lanes [OF quiet_registry_ok none a prod.collapse [symmetric]] w
  show ?thesis by simp
qed

end
