(* ===== verification/RelayForward.thy ===== *)
theory RelayForward imports Registry begin

text \<open>
  The routing half of the relay (\<open>internal/relay/relay.go\<close>): the enqueue transaction that hands a
  migration to the connection of the peer its slot is reserved to, the record of what was ever
  forwarded, the receipts and the non-delivery answers with their proof, the frames routed on a
  peer id, and the bounded copies to the subscribers.  A frame is its bytes, decoded routing fields
  beside it.  Whether a queue takes a frame is decided by the transport, so it is an argument.
\<close>

section \<open>State\<close>

datatype enqueue_result = EQ_enqueued | EQ_vacant | EQ_offline | EQ_full | EQ_draining

text \<open>The answer of \<open>TrySendPaced\<close>.\<close>

datatype paced_fate = PF_queued | PF_full | PF_stopped

record genome_answer =
  ga_RequestID :: bytes
  ga_DestPeer :: bytes
  ga_GenomeHash :: bytes
  ga_Found :: bool
  ga_Reason :: bytes

datatype relay_copy = RC_frame bytes | RC_nack migration_nack

text \<open>What leaves on a connection, in order.\<close>

datatype relay_out =
    RO_migration bytes bytes
  | RO_frame bytes
  | RO_nack migration_nack
  | RO_receipt forward_receipt
  | RO_genome genome_answer
  | RO_close bytes

record router =
  rt_reg :: registry
  rt_sessionID :: bytes
  rt_forwarded :: "(bytes, time) gomap"
  rt_forwardRetain :: duration
  rt_closed :: "nat list"
  rt_out :: "(nat \<times> relay_out) list"
  rt_copies :: "(nat, relay_copy list) gomap"
  rt_dropped :: "(nat, int) gomap"
  rt_archiveQueue :: nat
  rt_receiptsSent :: int
  rt_receiptsDropped :: int

record migration_routing =
  mr_SourcePeer :: bytes
  mr_DestSlot :: int
  mr_RerouteCount :: "int option"
  mr_MigrationID :: bytes

record directed_routing =
  dr_Type :: bytes
  dr_SourcePeer :: bytes
  dr_DestPeer :: bytes
  dr_MigrationID :: bytes
  dr_RequestID :: bytes
  dr_GenomeHash :: bytes

definition emit :: "nat \<Rightarrow> relay_out \<Rightarrow> router \<Rightarrow> router" where
  "emit c f s = s\<lparr>rt_out := rt_out s @ [(c, f)]\<rparr>"

section \<open>Copies to the subscribers\<close>

text \<open>A full queue drops its oldest copy; the migration is never delayed.\<close>

definition push_copy :: "nat \<Rightarrow> relay_copy \<Rightarrow> relay_copy list \<Rightarrow> relay_copy list \<times> bool" where
  "push_copy cap f q =
     (if length q < cap then (q @ [f], False)
      else (let q1 = tl q in ((if length q1 < cap then q1 @ [f] else q1), True)))"

definition copy_to :: "relay_copy \<Rightarrow> peer_conn \<Rightarrow> router \<Rightarrow> router" where
  "copy_to f sub s =
     (let c = pc_conn sub;
          (q, dropped) = push_copy (rt_archiveQueue s) f (deref_or (map_of (rt_copies s) c) [])
      in s\<lparr>rt_copies := AList.update c q (rt_copies s),
           rt_dropped := (if dropped
                          then AList.update c (deref_or (map_of (rt_dropped s) c) 0 + 1) (rt_dropped s)
                          else rt_dropped s)\<rparr>)"

definition fanOut :: "relay_copy \<Rightarrow> router \<Rightarrow> router" where
  "fanOut f s = fold (copy_to f) (map snd (rg_subscribers (rt_reg s))) s"

section \<open>The record of what was forwarded\<close>

definition hasForwarded :: "bytes \<Rightarrow> router \<Rightarrow> bool" where
  "hasForwarded k s = (k = [] \<or> map_of (rt_forwarded s) k \<noteq> None)"

definition recordForward :: "time \<Rightarrow> bytes \<Rightarrow> router \<Rightarrow> router" where
  "recordForward now k s =
     (if k = [] then s
      else if map_of (rt_forwarded s) k \<noteq> None then s
      else s\<lparr>rt_forwarded := AList.update k now (rt_forwarded s)\<rparr>)"

definition sweepForwardRecord :: "time \<Rightarrow> router \<Rightarrow> router" where
  "sweepForwardRecord now s =
     (let cutoff = now - rt_forwardRetain s in
      s\<lparr>rt_forwarded := filter (\<lambda>(k, t). \<not> t < cutoff) (rt_forwarded s)\<rparr>)"

section \<open>Routing a migration\<close>

definition enqueueMigration ::
  "time \<Rightarrow> paced_fate \<Rightarrow> int \<Rightarrow> bytes \<Rightarrow> bytes \<Rightarrow> router \<Rightarrow> enqueue_result \<times> router"
where
  "enqueueMigration now fate destSlot k frame s =
     (if rg_draining (rt_reg s) then (EQ_draining, s)
      else case ResOfSlot (rg_grid (rt_reg s)) destSlot of
        None \<Rightarrow> (EQ_vacant, s)
      | Some res \<Rightarrow>
          (case map_of (rg_live (rt_reg s)) (res_PeerID res) of
             None \<Rightarrow> (EQ_offline, s)
           | Some dest \<Rightarrow>
               if pc_conn dest \<in> set (rt_closed s) then (EQ_offline, s)
               else (case fate of
                       PF_full \<Rightarrow> (EQ_full, s)
                     | PF_stopped \<Rightarrow> (EQ_offline, s)
                     | PF_queued \<Rightarrow>
                         (EQ_enqueued,
                          recordForward now k (emit (pc_conn dest) (RO_migration k frame) s)))))"

definition forward_receipt_of :: "time \<Rightarrow> bytes \<Rightarrow> int \<Rightarrow> router \<Rightarrow> forward_receipt" where
  "forward_receipt_of now k destSlot s =
     \<lparr>fr_MigrationID = k, fr_DestSlot = destSlot, fr_RelaySessionID = rt_sessionID s,
      fr_ForwardedAt = unix_milli now\<rparr>"

definition sendForwardReceipt :: "time \<Rightarrow> bool \<Rightarrow> peer_conn \<Rightarrow> bytes \<Rightarrow> int \<Rightarrow> router \<Rightarrow> router" where
  "sendForwardReceipt now queued sender k destSlot s =
     (if k = [] then s
      else if queued
      then (emit (pc_conn sender) (RO_receipt (forward_receipt_of now k destSlot s)) s)
             \<lparr>rt_receiptsSent := rt_receiptsSent s + 1\<rparr>
      else s\<lparr>rt_receiptsDropped := rt_receiptsDropped s + 1\<rparr>)"

definition no_delivery :: "bytes \<Rightarrow> bytes \<Rightarrow> bytes \<Rightarrow> migration_attempt option \<Rightarrow> bool \<Rightarrow> router \<Rightarrow> migration_nack" where
  "no_delivery destPeer k code refusedAttempt includeLegacyProof s =
     \<lparr>nk_MigrationID = k, nk_SourcePeer = [], nk_DestPeer = destPeer, nk_Code = code,
      nk_Class = ClassOf code, nk_RetryAfterMs = (if ClassOf code = ''transient'' then 15000 else 0),
      nk_NeverForwarded = (if includeLegacyProof then Some (\<not> hasForwarded k s) else None),
      nk_RelaySessionID = (if includeLegacyProof then rt_sessionID s else []),
      nk_RefusedAttempt = refusedAttempt\<rparr>"

definition nackNoDelivery ::
  "peer_conn \<Rightarrow> bytes \<Rightarrow> bytes \<Rightarrow> migration_attempt option \<Rightarrow> bool \<Rightarrow> router \<Rightarrow> router"
where
  "nackNoDelivery p k code refusedAttempt includeLegacyProof s =
     (let n = no_delivery (pc_id p) k code refusedAttempt includeLegacyProof s in
      fanOut (RC_nack n) (emit (pc_conn p) (RO_nack n) s))"

definition close_conn :: "peer_conn \<Rightarrow> bytes \<Rightarrow> router \<Rightarrow> bool \<times> router" where
  "close_conn p why s = (False, emit (pc_conn p) (RO_close why) s)"

definition attempt_of :: "migration_routing \<Rightarrow> migration_attempt" where
  "attempt_of r = \<lparr>at_DestSlot = mr_DestSlot r, at_RerouteCount = deref_or (mr_RerouteCount r) 0\<rparr>"

text \<open>\<open>False\<close> ends the connection.\<close>

definition route_migration ::
  "time \<Rightarrow> paced_fate \<Rightarrow> bool \<Rightarrow> peer_conn \<Rightarrow> migration_routing option \<Rightarrow> bytes \<Rightarrow> router \<Rightarrow> bool \<times> router"
where
  "route_migration now fate receiptQueued p routing frame s =
     (case routing of
        None \<Rightarrow> close_conn p ''malformed routing fields'' s
      | Some r \<Rightarrow>
          if mr_SourcePeer r \<noteq> pc_id p then close_conn p ''sourcePeer does not match'' s
          else if \<not> ValidUUID (mr_MigrationID r) then close_conn p ''migrationId is not a UUID'' s
          else if pc_role p = ''archive'' then
            (True, emit (pc_conn p) (RO_nack
               \<lparr>nk_MigrationID = mr_MigrationID r, nk_SourcePeer = [], nk_DestPeer = pc_id p,
                nk_Code = ''NOT_A_MEMBER'', nk_Class = ''permanent'', nk_RetryAfterMs = 0,
                nk_NeverForwarded = None, nk_RelaySessionID = [], nk_RefusedAttempt = None\<rparr>) s)
          else if mr_DestSlot r < 1 then close_conn p ''destSlot is not a slot'' s
          else if (case mr_RerouteCount r of None \<Rightarrow> False | Some c \<Rightarrow> c < 1)
          then close_conn p ''reroute.count is not positive'' s
          else (let k = mr_MigrationID r in
                case enqueueMigration now fate (mr_DestSlot r) k frame s of
                  (EQ_draining, s1) \<Rightarrow> (True, nackNoDelivery p k ''NOT_FORWARDED'' None False s1)
                | (EQ_vacant, s1) \<Rightarrow> (True, nackNoDelivery p k ''SLOT_VACANT'' None True s1)
                | (EQ_offline, s1) \<Rightarrow> (True, nackNoDelivery p k ''PEER_OFFLINE'' None True s1)
                | (EQ_full, s1) \<Rightarrow> (True, nackNoDelivery p k ''NOT_FORWARDED'' (Some (attempt_of r)) True s1)
                | (EQ_enqueued, s1) \<Rightarrow>
                    (True, fanOut (RC_frame frame)
                       (sendForwardReceipt now receiptQueued p k (mr_DestSlot r) s1))))"

section \<open>Frames routed on a peer id\<close>

definition directed_dest :: "bytes \<Rightarrow> router \<Rightarrow> peer_conn option" where
  "directed_dest peerID s =
     (case map_of (rg_live (rt_reg s)) peerID of
        Some p \<Rightarrow> Some p
      | None \<Rightarrow> map_of (rg_subscribers (rt_reg s)) peerID)"

definition onDirected ::
  "peer_conn \<Rightarrow> directed_routing option \<Rightarrow> bool \<Rightarrow> bytes \<Rightarrow> router \<Rightarrow> bool \<times> router"
where
  "onDirected p routing copyToArchive frame s =
     (case routing of
        None \<Rightarrow> close_conn p ''malformed routing fields'' s
      | Some r \<Rightarrow>
          if dr_SourcePeer r \<noteq> pc_id p then close_conn p ''sourcePeer does not match'' s
          else (case directed_dest (dr_DestPeer r) s of
                  None \<Rightarrow>
                    if dr_Type r = ''MIGRATION_ACK'' \<or> dr_Type r = ''MIGRATION_NACK'' then
                      (True, emit (pc_conn p) (RO_nack
                         \<lparr>nk_MigrationID = dr_MigrationID r, nk_SourcePeer = [], nk_DestPeer = pc_id p,
                          nk_Code = ''PEER_UNKNOWN'', nk_Class = ''transient'', nk_RetryAfterMs = 15000,
                          nk_NeverForwarded = None, nk_RelaySessionID = [], nk_RefusedAttempt = None\<rparr>) s)
                    else (True, s)
                | Some dest \<Rightarrow>
                    (let s1 = emit (pc_conn dest) (RO_frame frame) s
                     in (True, if copyToArchive then fanOut (RC_frame frame) s1 else s1))))"

definition relayGenomeRequest :: "peer_conn \<Rightarrow> directed_routing option \<Rightarrow> bytes \<Rightarrow> router \<Rightarrow> bool \<times> router" where
  "relayGenomeRequest p routing frame s =
     (case routing of
        None \<Rightarrow> close_conn p ''malformed routing fields'' s
      | Some r \<Rightarrow>
          if dr_SourcePeer r \<noteq> pc_id p then close_conn p ''sourcePeer does not match'' s
          else (case map_of (rg_live (rt_reg s)) (dr_DestPeer r) of
                  None \<Rightarrow>
                    (True, emit (pc_conn p) (RO_genome
                       \<lparr>ga_RequestID = dr_RequestID r, ga_DestPeer = pc_id p,
                        ga_GenomeHash = dr_GenomeHash r, ga_Found = False,
                        ga_Reason = ''peer_offline''\<rparr>) s)
                | Some dest \<Rightarrow> (True, emit (pc_conn dest) (RO_frame frame) s)))"

end
