(* ===== verification/RelayForwardProps.thy ===== *)
theory RelayForwardProps imports RelayForward RegistryProps begin

text \<open>
  What a sender may conclude from the relay's answers: a migration is handed over at most where its
  slot is reserved, every frame gets one answer, and the proof that it was never handed over is true
  of everything the relay wrote before.
\<close>

section \<open>Fields\<close>

lemma emit_fields [simp]:
  "rt_out (emit c f s) = rt_out s @ [(c, f)]" "rt_forwarded (emit c f s) = rt_forwarded s"
  "rt_sessionID (emit c f s) = rt_sessionID s" "rt_forwardRetain (emit c f s) = rt_forwardRetain s"
  "rt_reg (emit c f s) = rt_reg s"
  by (simp_all add: emit_def)

lemma copy_to_fields:
  "rt_out (copy_to f sub s) = rt_out s \<and> rt_forwarded (copy_to f sub s) = rt_forwarded s \<and>
   rt_sessionID (copy_to f sub s) = rt_sessionID s \<and> rt_forwardRetain (copy_to f sub s) = rt_forwardRetain s"
  by (simp add: copy_to_def Let_def split: prod.split)

lemma fanOut_fields [simp]:
  "rt_out (fanOut f s) = rt_out s" "rt_forwarded (fanOut f s) = rt_forwarded s"
  "rt_sessionID (fanOut f s) = rt_sessionID s" "rt_forwardRetain (fanOut f s) = rt_forwardRetain s"
proof -
  have "rt_out (fold (copy_to f) subs s) = rt_out s \<and> rt_forwarded (fold (copy_to f) subs s) = rt_forwarded s \<and>
    rt_sessionID (fold (copy_to f) subs s) = rt_sessionID s \<and>
    rt_forwardRetain (fold (copy_to f) subs s) = rt_forwardRetain s" for subs
    by (induction subs arbitrary: s) (simp_all add: copy_to_fields)
  then show "rt_out (fanOut f s) = rt_out s" "rt_forwarded (fanOut f s) = rt_forwarded s"
    "rt_sessionID (fanOut f s) = rt_sessionID s" "rt_forwardRetain (fanOut f s) = rt_forwardRetain s"
    by (simp_all add: fanOut_def)
qed

lemma receipt_fields [simp]:
  "rt_forwarded (sendForwardReceipt now q p k d s) = rt_forwarded s"
  "rt_sessionID (sendForwardReceipt now q p k d s) = rt_sessionID s"
  "rt_forwardRetain (sendForwardReceipt now q p k d s) = rt_forwardRetain s"
  "rt_out (sendForwardReceipt now q p k d s) =
     rt_out s @ (if k \<noteq> [] \<and> q then [(pc_conn p, RO_receipt (forward_receipt_of now k d s))] else [])"
  by (simp_all add: sendForwardReceipt_def)

lemma record_fields [simp]:
  "rt_out (recordForward now k s) = rt_out s" "rt_sessionID (recordForward now k s) = rt_sessionID s"
  "rt_forwardRetain (recordForward now k s) = rt_forwardRetain s" "rt_reg (recordForward now k s) = rt_reg s"
  by (simp_all add: recordForward_def)

lemma nackNoDelivery_fields [simp]:
  "rt_out (nackNoDelivery p k code a l s) = rt_out s @ [(pc_conn p, RO_nack (no_delivery (pc_id p) k code a l s))]"
  "rt_forwarded (nackNoDelivery p k code a l s) = rt_forwarded s"
  "rt_sessionID (nackNoDelivery p k code a l s) = rt_sessionID s"
  "rt_forwardRetain (nackNoDelivery p k code a l s) = rt_forwardRetain s"
  by (simp_all add: nackNoDelivery_def Let_def)

lemma no_delivery_state:
  "rt_forwarded s' = rt_forwarded s \<Longrightarrow> rt_sessionID s' = rt_sessionID s \<Longrightarrow>
     no_delivery d k code a l s' = no_delivery d k code a l s"
  by (simp add: no_delivery_def hasForwarded_def)

section \<open>One frame, one answer\<close>

text \<open>The connection a slot leads to, when it can take frames.\<close>

definition reserved_conn :: "int \<Rightarrow> router \<Rightarrow> peer_conn option" where
  "reserved_conn slot s =
     (if rg_draining (rt_reg s) then None
      else case ResOfSlot (rg_grid (rt_reg s)) slot of
        None \<Rightarrow> None
      | Some res \<Rightarrow>
          (case map_of (rg_live (rt_reg s)) (res_PeerID res) of
             None \<Rightarrow> None
           | Some dest \<Rightarrow> if pc_conn dest \<in> set (rt_closed s) then None else Some dest))"

lemma handover_cases:
  assumes "enqueueMigration now fate d k frame s = (r, s')"
  shows "(r = EQ_enqueued) = (reserved_conn d s \<noteq> None \<and> fate = PF_queued) \<and>
    (r = EQ_draining) = rg_draining (rt_reg s) \<and>
    (r = EQ_enqueued \<longrightarrow> (\<exists>dest. reserved_conn d s = Some dest \<and>
       s' = recordForward now k (emit (pc_conn dest) (RO_migration k frame) s))) \<and>
    (r \<noteq> EQ_enqueued \<longrightarrow> s' = s)"
  using assms by (auto simp: enqueueMigration_def reserved_conn_def split: if_splits option.splits paced_fate.splits)

definition member_frame :: "peer_conn \<Rightarrow> migration_routing \<Rightarrow> bool" where
  "member_frame p r =
     (mr_SourcePeer r = pc_id p \<and> ValidUUID (mr_MigrationID r) \<and> pc_role p \<noteq> ''archive'' \<and>
      \<not> mr_DestSlot r < 1 \<and> \<not> (case mr_RerouteCount r of None \<Rightarrow> False | Some c \<Rightarrow> c < 1))"

lemma route_member:
  assumes "member_frame p r"
  shows "route_migration now fate q p (Some r) frame s =
    (let k = mr_MigrationID r in
     case enqueueMigration now fate (mr_DestSlot r) k frame s of
       (EQ_draining, s1) \<Rightarrow> (True, nackNoDelivery p k ''NOT_FORWARDED'' None False s1)
     | (EQ_vacant, s1) \<Rightarrow> (True, nackNoDelivery p k ''SLOT_VACANT'' None True s1)
     | (EQ_offline, s1) \<Rightarrow> (True, nackNoDelivery p k ''PEER_OFFLINE'' None True s1)
     | (EQ_full, s1) \<Rightarrow> (True, nackNoDelivery p k ''NOT_FORWARDED'' (Some (attempt_of r)) True s1)
     | (EQ_enqueued, s1) \<Rightarrow>
         (True, fanOut (RC_frame frame) (sendForwardReceipt now q p k (mr_DestSlot r) s1)))"
  using assms by (auto simp: member_frame_def route_migration_def Let_def split: option.splits)

lemma uuid_not_empty: "ValidUUID k \<Longrightarrow> k \<noteq> []"
  by (auto simp: ValidUUID_def)

text \<open>C10: ONE FRAME, ONE ANSWER.  A member's migration is handed over, byte for byte and exactly once,
  to the connection of the peer its slot is reserved to, when the relay is not draining, that
  connection is open and its queue takes it; then it is recorded as forwarded and at most a receipt
  goes back.  In every other case nothing is handed over, the record of forwards is untouched and the
  sender gets exactly one refusal, which carries a non-delivery proof unless the relay is draining.\<close>

theorem migration_answered_once:
  assumes "member_frame p r"
    and "route_migration now fate q p (Some r) frame s = (open_conn, s')"
  shows "open_conn \<and>
    (case reserved_conn (mr_DestSlot r) s of
       Some dest \<Rightarrow> fate = PF_queued \<longrightarrow>
         rt_out s' = rt_out s @ (pc_conn dest, RO_migration (mr_MigrationID r) frame) #
           (if q then [(pc_conn p, RO_receipt (forward_receipt_of now (mr_MigrationID r) (mr_DestSlot r) s))] else []) \<and>
         hasForwarded (mr_MigrationID r) s'
     | None \<Rightarrow> True) \<and>
    (reserved_conn (mr_DestSlot r) s = None \<or> fate \<noteq> PF_queued \<longrightarrow>
       rt_forwarded s' = rt_forwarded s \<and>
       (\<exists>n. rt_out s' = rt_out s @ [(pc_conn p, RO_nack n)] \<and> nk_MigrationID n = mr_MigrationID r \<and>
          (nk_NeverForwarded n = None) = rg_draining (rt_reg s) \<and>
          (\<not> rg_draining (rt_reg s) \<longrightarrow>
             nk_NeverForwarded n = Some (\<not> hasForwarded (mr_MigrationID r) s) \<and>
             nk_RelaySessionID n = rt_sessionID s)))"
proof -
  obtain e s1 where eq: "enqueueMigration now fate (mr_DestSlot r) (mr_MigrationID r) frame s = (e, s1)"
    by (metis surj_pair)
  have k: "mr_MigrationID r \<noteq> []" using assms(1) uuid_not_empty by (auto simp: member_frame_def)
  note c = handover_cases [OF eq]
  have "forward_receipt_of now k d (recordForward now k' (emit x y s)) = forward_receipt_of now k d s"
    for k d k' x y by (simp add: forward_receipt_of_def)
  moreover have "hasForwarded k (recordForward now k s2)" for k s2
    by (simp add: hasForwarded_def recordForward_def update_conv')
  moreover have "hasForwarded k (fanOut f s2) = hasForwarded k s2"
    "hasForwarded k (sendForwardReceipt now q p k' d s2) = hasForwarded k s2" for k f k' d s2
    by (simp_all add: hasForwarded_def)
  ultimately show ?thesis
    using assms(2) c k unfolding route_member [OF assms(1)]
    by (cases e) (auto simp: Let_def eq no_delivery_def split: option.split)
qed

definition quiet_router :: router where
  "quiet_router = \<lparr>rt_reg = quiet_registry, rt_sessionID = ''s1'', rt_forwarded = [],
     rt_forwardRetain = 172800 * second, rt_closed = [], rt_out = [], rt_copies = [], rt_dropped = [],
     rt_archiveQueue = 4, rt_receiptsSent = 0, rt_receiptsDropped = 0\<rparr>"

definition sample_hop :: migration_routing where
  "sample_hop = \<lparr>mr_SourcePeer = ''a'', mr_DestSlot = 3, mr_RerouteCount = None,
     mr_MigrationID = ''01234567-89ab-4cde-8f01-23456789abcd''\<rparr>"

definition conn_of_a :: peer_conn where
  "conn_of_a = \<lparr>pc_id = ''a'', pc_role = ''peer'', pc_conn = 1\<rparr>"

lemma hop_member: "member_frame conn_of_a sample_hop"
  by code_simp

text \<open>Peer b holds slot 3 on connection 2.\<close>

lemma migration_answered_once_witness:
  "rt_out (snd (route_migration 9 PF_queued False conn_of_a (Some sample_hop) ''x'' quiet_router)) =
     [(2, RO_migration (mr_MigrationID sample_hop) ''x'')]"
proof -
  have "reserved_conn (mr_DestSlot sample_hop) quiet_router = Some \<lparr>pc_id = ''b'', pc_role = ''peer'', pc_conn = 2\<rparr>"
    by code_simp
  then show ?thesis
    using migration_answered_once [OF hop_member prod.collapse [symmetric],
        of 9 PF_queued False "''x''" quiet_router]
    by (simp add: quiet_router_def)
qed

section \<open>The proof that nothing was handed over\<close>

text \<open>What the relay's own trace says of a proof: before it, the migration it names was not handed over.\<close>

definition handed_over :: "bytes \<Rightarrow> (nat \<times> relay_out) list \<Rightarrow> bool" where
  "handed_over k out = (\<exists>c f. (c, RO_migration k f) \<in> set out)"

definition proofs_true :: "(nat \<times> relay_out) list \<Rightarrow> bool" where
  "proofs_true out = (\<forall>before c n rest. out = before @ (c, RO_nack n) # rest \<and>
     nk_NeverForwarded n = Some True \<longrightarrow> nk_MigrationID n \<noteq> [] \<and> \<not> handed_over (nk_MigrationID n) before)"

lemma handed_over_simps [simp]:
  "\<not> handed_over k []" "handed_over k (out @ out') = (handed_over k out \<or> handed_over k out')"
  "handed_over k ((c, f) # out) = ((case f of RO_migration j _ \<Rightarrow> j = k | _ \<Rightarrow> False) \<or> handed_over k out)"
  by (auto simp: handed_over_def split: relay_out.split)

lemma proofs_true_other:
  "(\<And>n. f = RO_nack n \<Longrightarrow> nk_NeverForwarded n = Some True \<Longrightarrow>
      nk_MigrationID n \<noteq> [] \<and> \<not> handed_over (nk_MigrationID n) out) \<Longrightarrow>
   proofs_true out \<Longrightarrow> proofs_true (out @ [(c, f)])"
  unfolding proofs_true_def by (auto simp: append_eq_append_conv2 append_eq_Cons_conv Cons_eq_append_conv) blast+

text \<open>While no more than the retention has passed since \<open>start\<close>: whatever was handed over is on record.\<close>

definition recorded :: "time \<Rightarrow> router \<Rightarrow> bool" where
  "recorded start s =
     (proofs_true (rt_out s) \<and> (\<forall>k. handed_over k (rt_out s) \<longrightarrow> hasForwarded k s) \<and>
      (\<forall>(k, t) \<in> set (rt_forwarded s). start \<le> t))"

lemma recorded_emit:
  assumes "recorded start s" and "rt_out s' = rt_out s @ fs" and "rt_forwarded s' = rt_forwarded s"
    and "\<forall>(c, f) \<in> set fs. case f of RO_migration _ _ \<Rightarrow> False | RO_nack n \<Rightarrow> nk_NeverForwarded n = None \<or>
      nk_NeverForwarded n = Some (\<not> hasForwarded (nk_MigrationID n) s) | _ \<Rightarrow> True"
  shows "recorded start s'"
proof -
  have mono: "handed_over k (rt_out s @ fs) = handed_over k (rt_out s)" for k
    using assms(4) by (induction fs) (auto split: relay_out.splits)
  have "proofs_true (rt_out s @ fs)"
    using assms(4)
  proof (induction fs rule: rev_induct)
    case (snoc x fs)
    obtain c f where x: "x = (c, f)" by (metis surj_pair)
    have keep: "handed_over k (rt_out s @ fs) = handed_over k (rt_out s)" for k
      using snoc.prems by (induction fs) (auto split: relay_out.splits)
    have "proofs_true ((rt_out s @ fs) @ [(c, f)])"
    proof (rule proofs_true_other)
      show "proofs_true (rt_out s @ fs)" using snoc by simp
      fix n assume "f = RO_nack n" "nk_NeverForwarded n = Some True"
      with snoc.prems have "\<not> hasForwarded (nk_MigrationID n) s" by (auto simp: x)
      with assms(1) keep show "nk_MigrationID n \<noteq> [] \<and> \<not> handed_over (nk_MigrationID n) (rt_out s @ fs)"
        by (auto simp: recorded_def hasForwarded_def)
    qed
    then show ?case by (simp add: x)
  qed (use assms(1) in \<open>simp add: recorded_def\<close>)
  with assms(1-3) mono show ?thesis by (simp add: recorded_def hasForwarded_def)
qed

lemma recorded_forward:
  assumes "recorded start s" and "start \<le> now" and "k \<noteq> []"
  shows "recorded start (recordForward now k (emit c (RO_migration k frame) s))"
proof -
  have "proofs_true (rt_out s @ [(c, RO_migration k frame)])"
    using assms(1) by (intro proofs_true_other) (simp_all add: recorded_def)
  moreover have "hasForwarded j (recordForward now k (emit c (RO_migration k frame) s)) =
      (j = k \<or> hasForwarded j s)" for j
    using assms(3) by (auto simp: hasForwarded_def recordForward_def update_conv')
  moreover have "set (rt_forwarded (recordForward now k (emit c (RO_migration k frame) s))) \<subseteq>
      insert (k, now) (set (rt_forwarded s))"
    by (auto simp: recordForward_def dest!: subsetD [OF update_mem])
  ultimately show ?thesis using assms(1,2) by (fastforce simp: recorded_def)
qed

lemma recorded_sweep:
  assumes "recorded start s" and "now \<le> start + rt_forwardRetain s"
  shows "recorded start (sweepForwardRecord now s)"
proof -
  have "filter (\<lambda>(k, t). \<not> t < now - rt_forwardRetain s) (rt_forwarded s) = rt_forwarded s"
    using assms by (auto simp: recorded_def intro!: filter_True)
  then show ?thesis using assms(1) by (simp add: sweepForwardRecord_def recorded_def hasForwarded_def)
qed

text \<open>The relay runs: frames, sweeps of the record, and everything else (connections, the map, the
  registry), at instants that never go back.\<close>

inductive relay_runs :: "router \<Rightarrow> time \<Rightarrow> router \<Rightarrow> time \<Rightarrow> bool" where
  rr_start: "relay_runs s t s t"
| rr_route: "relay_runs s t s' t' \<Longrightarrow> t' \<le> now \<Longrightarrow>
               relay_runs s t (snd (route_migration now fate q p r frame s')) now"
| rr_directed: "relay_runs s t s' t' \<Longrightarrow> relay_runs s t (snd (onDirected p dr copies frame s')) t'"
| rr_genome: "relay_runs s t s' t' \<Longrightarrow> relay_runs s t (snd (relayGenomeRequest p dr frame s')) t'"
| rr_sweep: "relay_runs s t s' t' \<Longrightarrow> t' \<le> now \<Longrightarrow> relay_runs s t (sweepForwardRecord now s') now"
| rr_env: "relay_runs s t s' t' \<Longrightarrow> rt_out s'' = rt_out s' \<Longrightarrow> rt_forwarded s'' = rt_forwarded s' \<Longrightarrow>
             rt_forwardRetain s'' = rt_forwardRetain s' \<Longrightarrow> relay_runs s t s'' t'"

lemma refusal_recorded:
  assumes "recorded start s"
  shows "recorded start (nackNoDelivery p k code a l s)"
  by (rule recorded_emit [OF assms nackNoDelivery_fields(1,2)]) (simp add: no_delivery_def)

lemma enqueued_recorded:
  assumes "recorded start s" and "start \<le> now" and "k \<noteq> []"
  shows "recorded start (fanOut (RC_frame frame) (sendForwardReceipt now q p k d
    (recordForward now k (emit c (RO_migration k frame) s))))"
  by (rule recorded_emit [OF recorded_forward [OF assms, where c = c and frame = frame]]) (auto simp: assms(3))

lemma emit_recorded:
  assumes "recorded start s"
  shows "recorded start (emit c (RO_close w) s)" "recorded start (emit c (RO_frame x) s)"
    "recorded start (emit c (RO_genome g) s)"
    "nk_NeverForwarded n = None \<Longrightarrow> recorded start (emit c (RO_nack n) s)"
    "recorded start (fanOut h (emit c (RO_frame x) s))"
  by (auto intro: recorded_emit [OF assms])

lemma route_recorded:
  assumes "recorded start s" and "start \<le> now"
  shows "recorded start (snd (route_migration now fate q p r frame s))"
proof (cases "\<exists>m. r = Some m \<and> member_frame p m")
  case True
  then obtain m where r: "r = Some m" and m: "member_frame p m" by blast
  have k: "mr_MigrationID m \<noteq> []" using m uuid_not_empty by (auto simp: member_frame_def)
  obtain e s1 where eq: "enqueueMigration now fate (mr_DestSlot m) (mr_MigrationID m) frame s = (e, s1)"
    by (metis surj_pair)
  show ?thesis
  proof (cases "e = EQ_enqueued")
    case True
    with handover_cases [OF eq] obtain dest :: peer_conn where
      s1: "s1 = recordForward now (mr_MigrationID m) (emit (pc_conn dest) (RO_migration (mr_MigrationID m) frame) s)"
      by blast
    have "snd (route_migration now fate q p r frame s) =
        fanOut (RC_frame frame) (sendForwardReceipt now q p (mr_MigrationID m) (mr_DestSlot m) s1)"
      unfolding r route_member [OF m] Let_def eq True by simp
    then show ?thesis unfolding s1 by (simp only: enqueued_recorded [OF assms k])
  next
    case False
    with handover_cases [OF eq] have "s1 = s" by blast
    with False have "\<exists>code a l. snd (route_migration now fate q p r frame s) =
        nackNoDelivery p (mr_MigrationID m) code a l s"
      unfolding r route_member [OF m] Let_def eq by (cases e) auto
    then show ?thesis using refusal_recorded [OF assms(1)] by auto
  qed
next
  case False
  show ?thesis
  proof (cases r)
    case None
    then show ?thesis by (simp add: route_migration_def close_conn_def emit_recorded [OF assms(1)])
  next
    case (Some m)
    with False show ?thesis
      by (simp add: route_migration_def member_frame_def close_conn_def emit_recorded [OF assms(1)]) blast
  qed
qed

lemma directed_recorded:
  assumes "recorded start s"
  shows "recorded start (snd (onDirected p dr copies frame s))"
    and "recorded start (snd (relayGenomeRequest p dr frame s))"
  by (simp_all add: onDirected_def relayGenomeRequest_def close_conn_def Let_def assms
      emit_recorded [OF assms] split: option.split)

lemma route_retain [simp]:
  "rt_forwardRetain (snd (route_migration now fate q p r frame s)) = rt_forwardRetain s"
  "rt_forwardRetain (snd (onDirected p dr copies frame s)) = rt_forwardRetain s"
  "rt_forwardRetain (snd (relayGenomeRequest p dr frame s)) = rt_forwardRetain s"
  by (auto simp: route_migration_def onDirected_def relayGenomeRequest_def close_conn_def Let_def
      enqueueMigration_def split: option.split paced_fate.split)

lemma run_recorded:
  assumes "relay_runs s t s' t'" and "recorded t s"
  shows "t \<le> t' \<and> rt_forwardRetain s' = rt_forwardRetain s \<and>
    (t' \<le> t + rt_forwardRetain s \<longrightarrow> recorded t s')"
  using assms
proof (induction rule: relay_runs.induct)
  case (rr_env s t s' t' s'')
  then show ?case by (auto simp: recorded_def hasForwarded_def)
qed (auto simp: route_recorded directed_recorded recorded_sweep sweepForwardRecord_def [of _ _, THEN arg_cong, of rt_forwardRetain])

text \<open>C9: NEVER FORWARDED MEANS NEVER FORWARDED.  For as long as the retention of the forward record from
  the relay's start, every refusal the relay sends with \<open>neverForwarded\<close> true names a migration that
  none of the frames it handed over before belonged to, to whatever peer: sweeping the record and
  every change of the map and its connections notwithstanding.\<close>

theorem never_forwarded_is_true:
  assumes "relay_runs s t s' t'" and "rt_forwarded s = []" and "rt_out s = []"
    and "t' \<le> t + rt_forwardRetain s"
    and "rt_out s' = before @ (c, RO_nack n) # rest" and "nk_NeverForwarded n = Some True"
  shows "\<not> handed_over (nk_MigrationID n) before"
proof -
  have "recorded t s" using assms(2,3) by (auto simp: recorded_def proofs_true_def)
  with run_recorded [OF assms(1)] assms(4) have "proofs_true (rt_out s')" by (simp add: recorded_def)
  with assms(5,6) show ?thesis by (auto simp: proofs_true_def)
qed

text \<open>A first migration reaches peer b; a second one names a slot nobody holds.\<close>

definition second_hop :: migration_routing where
  "second_hop = sample_hop\<lparr>mr_DestSlot := 9, mr_MigrationID := ''11234567-89ab-4cde-8f01-23456789abcd''\<rparr>"

lemma never_forwarded_is_true_witness:
  "\<not> handed_over (mr_MigrationID second_hop) [(2, RO_migration (mr_MigrationID sample_hop) ''x'')]"
proof -
  let ?s1 = "snd (route_migration 9 PF_queued False conn_of_a (Some sample_hop) ''x'' quiet_router)"
  let ?s2 = "snd (route_migration 10 PF_queued False conn_of_a (Some second_hop) ''y'' ?s1)"
  let ?n = "no_delivery ''a'' (mr_MigrationID second_hop) ''SLOT_VACANT'' None True ?s1"
  have run: "relay_runs quiet_router 9 ?s2 10"
    by (rule rr_route [OF rr_route [OF rr_start]]) simp_all
  have out: "rt_out ?s2 = [(2, RO_migration (mr_MigrationID sample_hop) ''x'')] @ (1, RO_nack ?n) # []" by code_simp
  have never: "nk_NeverForwarded ?n = Some True" by code_simp
  have "rt_forwarded quiet_router = []" "rt_out quiet_router = []" "10 \<le> 9 + rt_forwardRetain quiet_router"
    by (simp_all add: quiet_router_def second_def)
  from never_forwarded_is_true [OF run this out never] show ?thesis by (simp add: no_delivery_def)
qed

end
