(* ===== verification/MetersProps.thy ===== *)
theory MetersProps imports Meters begin

text \<open>
  What the relay's meters bound: a fixed-window meter lets at most twice its limit through in any
  window, a destination's pace keeps the forwards to it below an eighth of the frame ceiling, the
  connection counters balance, and the broadcast window stays between its floor and its ceiling.
\<close>

section \<open>Fixed windows\<close>

text \<open>The observations of a run with the counts the meter answered.\<close>

fun rate_run :: "(time \<times> int) list \<Rightarrow> rate_meter \<Rightarrow> int list" where
  "rate_run [] m = []"
| "rate_run ((t, n) # es) m =
     (case rate_observe t n m of ((c, _), m') \<Rightarrow> c # rate_run es m')"

definition amount_within :: "time \<Rightarrow> time \<Rightarrow> (time \<times> int) list \<Rightarrow> int" where
  "amount_within lo hi es = sum_list (map snd (filter (\<lambda>(t, _). lo \<le> t \<and> t < hi) es))"

lemma amount_within_simps [simp]:
  "amount_within lo hi [] = 0"
  "amount_within lo hi ((t, n) # es) = (if lo \<le> t \<and> t < hi then n else 0) + amount_within lo hi es"
  by (simp_all add: amount_within_def)

text \<open>The observations of a well-behaved clock, none over the limit.\<close>

definition run_ok :: "time \<Rightarrow> int \<Rightarrow> (time \<times> int) list \<Rightarrow> rate_meter \<Rightarrow> bool" where
  "run_ok now l es m =
     (sorted (map fst es) \<and> (\<forall>(t, n) \<in> set es. now \<le> t \<and> 0 < t \<and> 0 \<le> n) \<and>
      (\<forall>c \<in> set (rate_run es m). c \<le> l))"

lemma run_ok_Cons:
  "run_ok now l ((t, n) # es) m \<Longrightarrow>
     now \<le> t \<and> 0 < t \<and> 0 \<le> n \<and> rm_count (snd (rate_observe t n m)) \<le> l \<and>
     run_ok t l es (snd (rate_observe t n m))"
  by (force simp: run_ok_def rate_observe_def Let_def)

lemma rate_observe_cases:
  assumes "rate_observe t n m = (out, m')"
  obtains "rm_start m \<noteq> 0" "t < rm_start m + rm_window m" "m' = m\<lparr>rm_count := rm_count m + n\<rparr>"
  | "m' = m\<lparr>rm_start := t, rm_count := n\<rparr>"
  using assms by (auto simp: rate_observe_def Let_def split: if_splits)

text \<open>The rest of a window that started at \<open>rm_start\<close>.\<close>

lemma window_rest:
  assumes "run_ok now l es m" and "rm_start m \<le> now" "rm_start m \<noteq> 0" "0 \<le> rm_window m"
    and "hi \<le> rm_start m + rm_window m" and "rm_count m \<le> l"
  shows "amount_within lo hi es \<le> l - rm_count m"
  using assms
proof (induction es arbitrary: m now)
  case Nil
  then show ?case by simp
next
  case (Cons e es)
  obtain t n where e: "e = (t, n)" by (cases e)
  obtain out m' where o: "rate_observe t n m = (out, m')" by (cases "rate_observe t n m")
  have c: "now \<le> t" "0 \<le> n" "rm_count m' \<le> l" "run_ok t l es m'"
    using run_ok_Cons [of now l t n es m] Cons.prems(1) e o by simp_all
  show ?case
  proof (cases "t < rm_start m + rm_window m")
    case True
    then have m': "m' = m\<lparr>rm_count := rm_count m + n\<rparr>"
      using o Cons.prems(3) by (auto simp: rate_observe_def Let_def split: if_splits)
    have "amount_within lo hi es \<le> l - rm_count m'"
      by (rule Cons.IH [OF c(4)]) (use Cons.prems c m' in simp_all)
    with m' c(2) show ?thesis by (simp add: e)
  next
    case False
    have "amount_within lo hi es = 0"
    proof -
      have "\<forall>(u, k) \<in> set es. t \<le> u" using Cons.prems(1) by (force simp: run_ok_def e)
      then have "filter (\<lambda>(t, _). lo \<le> t \<and> t < hi) es = []"
        using False Cons.prems(5) by (force simp: filter_empty_conv)
      then show ?thesis by (simp add: amount_within_def)
    qed
    with False Cons.prems(5,6) show ?thesis by (simp add: e)
  qed
qed

lemma window_tail:
  assumes "run_ok now l es m" and "lo \<le> now" "0 \<le> rm_window m"
    and "hi \<le> lo + rm_window m" and "0 \<le> rm_count m" "rm_count m \<le> l"
  shows "amount_within lo hi es \<le> 2 * l - rm_count m"
  using assms
proof (induction es arbitrary: m now)
  case Nil
  then show ?case by simp
next
  case (Cons e es)
  obtain t n where e: "e = (t, n)" by (cases e)
  obtain out m' where o: "rate_observe t n m = (out, m')" by (cases "rate_observe t n m")
  have c: "now \<le> t" "0 < t" "0 \<le> n" "rm_count m' \<le> l" "run_ok t l es m'"
    using run_ok_Cons [of now l t n es m] Cons.prems(1) e o by simp_all
  from o show ?case
  proof (cases rule: rate_observe_cases)
    case 1
    have "amount_within lo hi es \<le> 2 * l - rm_count m'"
      by (rule Cons.IH [OF c(5)]) (use Cons.prems c 1 in simp_all)
    with 1 c(3) show ?thesis by (simp add: e)
  next
    case 2
    have "amount_within lo hi es \<le> l - rm_count m'"
      by (rule window_rest [OF c(5)]) (use Cons.prems c 2 in simp_all)
    with 2 c Cons.prems(6) show ?thesis by (simp add: e)
  qed
qed

lemma window_any:
  assumes "run_ok now l es m" and "0 \<le> rm_window m"
    and "hi \<le> lo + rm_window m" and "0 \<le> rm_count m" "rm_count m \<le> l"
  shows "amount_within lo hi es \<le> 2 * l"
  using assms
proof (induction es arbitrary: m now)
  case Nil
  then show ?case by simp
next
  case (Cons e es)
  obtain t n where e: "e = (t, n)" by (cases e)
  obtain out m' where o: "rate_observe t n m = (out, m')" by (cases "rate_observe t n m")
  have c: "now \<le> t" "0 < t" "0 \<le> n" "rm_count m' \<le> l" "run_ok t l es m'"
    using run_ok_Cons [of now l t n es m] Cons.prems(1) e o by simp_all
  show ?case
  proof (cases "t < lo")
    case True
    have m': "rm_window m' = rm_window m" "0 \<le> rm_count m'"
      using o c(3) Cons.prems(4) by (auto elim!: rate_observe_cases)
    have "amount_within lo hi es \<le> 2 * l"
      by (rule Cons.IH [OF c(5)]) (use Cons.prems c m' in simp_all)
    with True show ?thesis by (simp add: e)
  next
    case False
    have "run_ok t l (e # es) m" using Cons.prems(1) by (auto simp: run_ok_def e)
    from window_tail [OF this _ Cons.prems(2,3,4,5)] False Cons.prems(4) show ?thesis by simp
  qed
qed

text \<open>A fixed-window meter bounds the burst as well as the rate: in a run that never answered
  more than the limit, the amount observed in any interval of one window's length, wherever it
  starts, is at most twice the limit.\<close>

theorem rate_window_bound:
  assumes "sorted (map fst es)" and "\<forall>(t, n) \<in> set es. 0 < t \<and> 0 \<le> n" and "0 \<le> w" "0 \<le> l"
    and "\<forall>c \<in> set (rate_run es (newRateMeter w)). c \<le> l"
  shows "amount_within lo (lo + w) es \<le> 2 * l"
proof -
  have "run_ok 0 l es (newRateMeter w)" using assms by (auto simp: run_ok_def)
  from window_any [OF this, of "lo + w" lo] assms(3,4) show ?thesis by (simp add: newRateMeter_def)
qed

text \<open>The bound is attained: three frames at the end of one window, three at the start of the next.\<close>

lemma rate_window_bound_witness:
  "amount_within 14 24 [(10, 0), (19, 3), (20, 3)] = 6 \<and>
   amount_within 14 (14 + 10) [(10, 0), (19, 3), (20, 3)] \<le> 2 * 3"
proof
  show "amount_within 14 24 [(10, 0), (19, 3), (20, 3)] = 6" by simp
  show "amount_within 14 (14 + 10) [(10, 0), (19, 3), (20, 3)] \<le> 2 * 3"
    by (rule rate_window_bound) (simp_all add: newRateMeter_def rate_observe_def Let_def)
qed

section \<open>The pace of a destination\<close>

text \<open>The instants at which a run of reservations was granted.\<close>

fun pace_run :: "time list \<Rightarrow> forward_pace \<Rightarrow> time list" where
  "pace_run [] p = []"
| "pace_run (t # ts) p =
     (case pace_Reserve t p of (d, p') \<Rightarrow> if d = 0 then t # pace_run ts p' else pace_run ts p')"

lemma pace_run_spaced:
  "0 \<le> fp_interval p \<Longrightarrow>
     sorted_wrt (\<lambda>a b. a + fp_interval p \<le> b) (pace_run ts p) \<and>
     (\<forall>t \<in> set (pace_run ts p). fp_nextAllowed p \<le> t)"
proof (induction ts arbitrary: p)
  case Nil
  then show ?case by simp
next
  case (Cons t ts)
  show ?case
  proof (cases "t < fp_nextAllowed p")
    case True
    then show ?thesis using Cons by (simp add: pace_Reserve_def)
  next
    case False
    let ?p = "p\<lparr>fp_nextAllowed := t + fp_interval p\<rparr>"
    from Cons.IH [of ?p] Cons.prems False show ?thesis by (auto simp: pace_Reserve_def)
  qed
qed

lemma spaced_count:
  assumes "sorted_wrt (\<lambda>a b. a + i \<le> b) (ts :: int list)" and "\<forall>t \<in> set ts. lo \<le> t \<and> t < hi"
    and "0 < i" and "ts \<noteq> []"
  shows "lo + i * (int (length ts) - 1) < hi"
  using assms
proof (induction ts arbitrary: lo)
  case (Cons t ts)
  show ?case
  proof (cases ts)
    case Nil
    then show ?thesis using Cons.prems by simp
  next
    case (Cons u us)
    have "(t + i) + i * (int (length ts) - 1) < hi"
      by (rule Cons.IH) (use Cons.prems local.Cons in auto)
    moreover have "lo \<le> t" using Cons.prems by simp
    ultimately show ?thesis by (simp add: algebra_simps)
  qed
qed simp

text \<open>C25: with the interval the relay computes from its frame ceiling, no more forwards to one
  destination are granted in any second than the fan-in rate, whatever the instants at which
  they are asked for; and a refused reservation names exactly the wait after which the next one is
  granted.\<close>

theorem forward_pace_bounds_fan_in:
  assumes "0 < fps" and "fps \<le> 8 * second" and "fp_interval p = MigrationFanInInterval fps"
  shows "int (length (filter (\<lambda>t. lo \<le> t \<and> t < lo + second) (pace_run ts p))) \<le> MigrationFanInRate fps \<and>
    fst (pace_Reserve (now + fst (pace_Reserve now p)) p) = 0"
proof -
  let ?i = "fp_interval p" and ?r = "MigrationFanInRate fps"
  let ?g = "filter (\<lambda>t. lo \<le> t \<and> t < lo + second) (pace_run ts p)"
  have fan: "second \<le> ?r * ?i" "1 \<le> ?r"
    using fan_in_rate [OF assms(1,2)] assms(3) by simp_all
  have i: "1 \<le> ?i" using assms(3) by (simp add: MigrationFanInInterval_def Let_def)
  have "int (length ?g) \<le> ?r"
  proof (cases "?g = []")
    case False
    have "sorted_wrt (\<lambda>a b. a + ?i \<le> b) ?g" using pace_run_spaced [of p ts] i by (simp add: sorted_wrt_filter)
    from spaced_count [OF this, of lo "lo + second"] False i
    have "?i * (int (length ?g) - 1) < second" by simp
    with fan(1) have "?i * (int (length ?g) - 1) < ?i * ?r" unfolding mult.commute [of ?r] by linarith
    then have "int (length ?g) - 1 < ?r" using i by (simp only: mult_less_cancel_left_pos)
    then show ?thesis by simp
  qed (use fan(2) in simp)
  moreover have "fst (pace_Reserve (now + fst (pace_Reserve now p)) p) = 0"
    by (simp add: pace_Reserve_def)
  ultimately show ?thesis by blast
qed

lemma forward_pace_bounds_fan_in_witness:
  "int (length (filter (\<lambda>t. 5 \<le> t \<and> t < 5 + second)
     (pace_run [0, 6, 7, 2 * second] \<lparr>fp_nextAllowed = 0, fp_interval = MigrationFanInInterval 50\<rparr>))) \<le> 6"
proof -
  have "MigrationFanInRate 50 = 6" by (simp add: MigrationFanInRate_def MigrationFanInDivisor_def)
  with forward_pace_bounds_fan_in [of 50 "\<lparr>fp_nextAllowed = 0, fp_interval = MigrationFanInInterval 50\<rparr>" 5 "[0, 6, 7, 2 * second]"]
  show ?thesis by (simp add: second_def)
qed

section \<open>Connection counters and the broadcast window\<close>

definition counts_ok :: "(bytes, int) gomap \<Rightarrow> bool" where
  "counts_ok c = (map_ok c \<and> (\<forall>(k, n) \<in> set c. 1 \<le> n))"

definition churn_ok :: "churn_window \<Rightarrow> bool" where
  "churn_ok w = (0 < cw_floor w \<and> cw_floor w \<le> cw_cur w \<and> cw_cur w \<le> cw_ceiling w \<and> 1 \<le> cw_threshold w)"

text \<open>A connection that releases what it acquired, refused or not, leaves every count as it
  was, and a key without connections is not kept.\<close>

theorem counter_balances:
  assumes "counts_ok c"
  shows "counts_ok (slot_release key (snd (slot_acquire key mx c))) \<and>
    map_of (slot_release key (snd (slot_acquire key mx c))) = map_of c \<and>
    fst (slot_acquire key mx c) = (slot_count key c + 1, slot_count key c < mx)"
proof -
  have pos: "1 \<le> n" if "map_of c key = Some n" for n
    using assms map_of_SomeD [OF that] by (auto simp: counts_ok_def)
  have upd: "counts_ok (AList.update key n c)" if "1 \<le> n" for n
    using assms that by (induction c) (auto simp: counts_ok_def map_ok_def dom_update)
  have del: "counts_ok (AList.delete key c)" if "counts_ok c" for c
    using that by (auto simp: counts_ok_def delete_filter map_ok_def distinct_map_filter)
  have upd2: "counts_ok (AList.update key m c)" if "1 \<le> m" "counts_ok c" for c m
  proof -
    have "set (AList.update key m c) \<subseteq> insert (key, m) (set c)" by (induction c) auto
    then show ?thesis using that by (fastforce simp: counts_ok_def)
  qed
  show ?thesis
  proof (cases "map_of c key")
    case None
    then show ?thesis
      using del [OF upd [of 1]] by (auto simp: slot_acquire_def slot_release_def slot_count_def Let_def)
  next
    case (Some n)
    then show ?thesis
      using pos [OF Some] del upd2 [OF _ upd, of n "n + 1"] assms
      by (auto simp: slot_acquire_def slot_release_def slot_count_def Let_def)
  qed
qed

lemma counter_balances_witness:
  "slot_count ''a'' (slot_release ''a'' (snd (slot_acquire ''a'' 2 [(''a'', 2)]))) = 2"
proof -
  have "counts_ok [(''a'', 2)]" by (simp add: counts_ok_def map_ok_def)
  from counter_balances [OF this, of "''a''" 2] show ?thesis by (simp add: slot_count_def)
qed

lemma churn_step:
  assumes "churn_ok w"
  shows "churn_ok (churn_observe k w)" "cw_floor (churn_observe k w) = cw_floor w"
    "cw_ceiling (churn_observe k w) = cw_ceiling w" "cw_threshold (churn_observe k w) = cw_threshold w"
    "cw_threshold w < k \<Longrightarrow> cw_cur (churn_observe k w) = min (2 * cw_cur w) (cw_ceiling w)"
    "k \<le> cw_threshold w \<Longrightarrow> cw_cur (churn_observe k w) = max (cw_cur w div 2) (cw_floor w)"
  using assms by (auto simp: churn_ok_def churn_observe_def Let_def min_def max_def)

lemma churn_fold:
  assumes "churn_ok w"
  shows "churn_ok (fold churn_observe ks w) \<and> cw_floor (fold churn_observe ks w) = cw_floor w \<and>
    cw_ceiling (fold churn_observe ks w) = cw_ceiling w \<and>
    cw_threshold (fold churn_observe ks w) = cw_threshold w"
  using assms by (induction ks arbitrary: w) (simp_all add: churn_step)

lemma busy_fold:
  "churn_ok w \<Longrightarrow> \<forall>k \<in> set ks. cw_threshold w < k \<Longrightarrow>
     cw_cur (fold churn_observe ks w) = min (cw_cur w * 2 ^ length ks) (cw_ceiling w)"
proof (induction ks arbitrary: w)
  case Nil
  then show ?case by (simp add: churn_ok_def)
next
  case (Cons k ks)
  let ?w = "churn_observe k w"
  have "cw_cur (fold churn_observe ks ?w) = min (cw_cur ?w * 2 ^ length ks) (cw_ceiling w)"
    using Cons churn_step [OF Cons.prems(1), of k] by simp
  also have "cw_cur ?w = min (2 * cw_cur w) (cw_ceiling w)"
    using Cons.prems churn_step(5) [OF Cons.prems(1)] by simp
  also have "min (min (2 * cw_cur w) (cw_ceiling w) * 2 ^ length ks) (cw_ceiling w) =
      min (cw_cur w * 2 ^ length (k # ks)) (cw_ceiling w)"
  proof -
    have "1 \<le> (2 :: int) ^ length ks" by simp
    then have "cw_ceiling w \<le> cw_ceiling w * 2 ^ length ks"
      using Cons.prems(1) mult_left_mono [of 1 "2 ^ length ks" "cw_ceiling w"] by (simp add: churn_ok_def)
    then have "min (cw_ceiling w * 2 ^ length ks) (cw_ceiling w) = cw_ceiling w" by (rule min.absorb2)
    moreover have "min (2 * cw_cur w) (cw_ceiling w) * 2 ^ length ks =
        min (cw_cur w * 2 ^ length (k # ks)) (cw_ceiling w * 2 ^ length ks)"
      unfolding min_mult_distrib_right by simp
    ultimately show ?thesis by (simp only: min.assoc)
  qed
  finally show ?case by simp
qed

lemma lull_fold:
  "churn_ok w \<Longrightarrow> \<forall>k \<in> set ks. k \<le> cw_threshold w \<Longrightarrow>
     cw_cur (fold churn_observe ks w) = max (cw_cur w div 2 ^ length ks) (cw_floor w)"
proof (induction ks arbitrary: w)
  case Nil
  then show ?case by (simp add: churn_ok_def)
next
  case (Cons k ks)
  let ?w = "churn_observe k w"
  have "cw_cur (fold churn_observe ks ?w) = max (cw_cur ?w div 2 ^ length ks) (cw_floor w)"
    using Cons churn_step [OF Cons.prems(1), of k] by simp
  also have "cw_cur ?w = max (cw_cur w div 2) (cw_floor w)"
    using Cons.prems churn_step(6) [OF Cons.prems(1)] by simp
  also have "max (max (cw_cur w div 2) (cw_floor w) div 2 ^ length ks) (cw_floor w) =
      max (cw_cur w div 2 ^ length (k # ks)) (cw_floor w)"
  proof -
    have "cw_floor w div 2 ^ length ks \<le> cw_floor w"
      using Cons.prems(1) zdiv_mono2 [of "cw_floor w" 1 "2 ^ length ks"] by (simp add: churn_ok_def)
    then have "max (cw_floor w div 2 ^ length ks) (cw_floor w) = cw_floor w" by (rule max.absorb2)
    moreover have "max a c div b = max (a div b) (c div b)" if "0 < b" for a b c :: int
      using zdiv_mono1 [of a c b] zdiv_mono1 [of c a b] that by (auto simp: max_def)
    ultimately show ?thesis by (simp add: max.assoc zdiv_zmult2_eq)
  qed
  finally show ?case by simp
qed

text \<open>The broadcast window adapts within its bounds: whatever was configured and observed it
  stays between its floor and its ceiling, under sustained churn it doubles until it is the
  ceiling, and after it, as many quiet windows as halvings lead back bring it to the floor again.\<close>

theorem churn_window_adapts:
  assumes "w = fold churn_observe before (newChurnWindow lo hi t)"
    and "\<forall>k \<in> set busy. cw_threshold w < k" and "\<forall>k \<in> set quiet. k \<le> cw_threshold w"
  shows "0 < cw_floor w \<and> cw_floor w \<le> cw_cur w \<and> cw_cur w \<le> cw_ceiling w \<and>
    cw_cur (fold churn_observe busy w) = min (cw_cur w * 2 ^ length busy) (cw_ceiling w) \<and>
    cw_cur (fold churn_observe quiet w) = max (cw_cur w div 2 ^ length quiet) (cw_floor w)"
proof -
  have "churn_ok (newChurnWindow lo hi t)"
    by (auto simp: churn_ok_def newChurnWindow_def Let_def StatusCoalesce_def millisecond_def)
  then have ok: "churn_ok w" using churn_fold assms(1) by blast
  then show ?thesis
    using busy_fold [OF ok assms(2)] lull_fold [OF ok assms(3)] by (auto simp: churn_ok_def)
qed

lemma churn_window_adapts_witness:
  "cw_cur (fold churn_observe [9, 9] (newChurnWindow 0 second 4)) = second \<and>
   cw_cur (fold churn_observe [0] (newChurnWindow 0 second 4)) = StatusCoalesce"
proof -
  have t: "cw_threshold (newChurnWindow 0 second 4) = 4" by (simp add: newChurnWindow_def Let_def)
  from churn_window_adapts [of "newChurnWindow 0 second 4" "[]" 0 second 4 "[9, 9]" "[0]"] t
  show ?thesis
    by (simp add: newChurnWindow_def Let_def StatusCoalesce_def second_def millisecond_def)
qed

end
