(* ===== verification/Custody.thy ===== *)
theory Custody imports Registry JournalLog begin

text \<open>
  The outbound half of the sidecar's custody scheduler (\<open>internal/sidecar/sidecar.go\<close>): the
  handoff state machine of one journaled export, its forward, its re-route, its bounce home and
  its loss; and the shared send path.  The journal is its in-memory half; whether a write of it
  succeeds, whether the send pacer admits a frame and whether the socket queue takes it are
  consumed from three lists of outcomes (an exhausted list answers yes), so every interleaving
  of failures is some choice of the lists.  Log lines, test hooks and fault points are dropped.
\<close>

section \<open>State\<close>

record custody_cfg =
  cf_PeerID :: bytes
  cf_ForwardTimeout :: duration
  cf_ForwardRetry :: duration
  cf_BounceTimeout :: duration
  cf_TickInterval :: duration
  cf_MigrateInAckTimeout :: duration
  cf_HeartbeatDeliveryGrace :: duration
  cf_PacingIdleGrace :: duration
  cf_MaxReroutes :: int
  cf_InboundQueueMax :: int
  cf_ExportRetention :: duration

record sched =
  sh_nextForward :: time
  sh_bounceAt :: time
  sh_nextDeliver :: time

definition zero_sched :: sched where
  "zero_sched = \<lparr>sh_nextForward = 0, sh_bounceAt = 0, sh_nextDeliver = 0\<rparr>"

record mod_session =
  md_handshaked :: bool
  md_gameVersion :: bytes
  md_simSize :: f64
  md_exportEdges :: "bytes list"
  md_lastHeartbeat :: time
  md_paused :: bool
  md_timeScale :: f64

text \<open>The delivery rate limit (\<open>pacer.go\<close>).\<close>

record pacer =
  pa_rate :: rat
  pa_burst :: rat
  pa_tokens :: rat
  pa_haveSim :: bool
  pa_lastSim :: rat
  pa_lastBeat :: time
  pa_running :: bool
  pa_simulated :: rat

record edge_state =
  es_Edge :: bytes
  es_Open :: bool
  es_Reason :: bytes
  es_PeerSimulationSize :: "f64 option"

datatype relay_frame =
    RF_payload migration_payload | RF_ack migration_ack | RF_nack migration_nack

record migrate_in =
  mi_MigrationID :: bytes
  mi_EntityID :: int
  mi_Kind :: bytes
  mi_GameVersion :: bytes
  mi_Payload :: bytes
  mi_Species :: "species option"
  mi_EntryEdge :: bytes
  mi_EntryPosition :: f64
  mi_Velocity :: vec
  mi_Heading :: f64
  mi_BounceBack :: bool
  mi_Attempt :: int
  mi_AckDeadlineMs :: int

datatype mod_frame =
    MF_in migrate_in
  | MF_out_ack bytes int int bool
  | MF_out_nack bytes int bytes "int option"
  | MF_edges int "edge_state list"

record sidecar =
  sd_cfg :: custody_cfg
  sd_mem :: jmem
  sd_sched :: "(bytes, sched) gomap"
  sd_relayReady :: bool
  sd_relaySessionID :: bytes
  sd_slot :: int
  sd_position :: position
  sd_status :: peer_status
  sd_neighbours :: "(bytes, neighbour) gomap"
  sd_mod :: "mod_session option"
  sd_pace :: pacer
  sd_lastEdges :: "edge_state list"
  sd_edgeEpoch :: int
  sd_lastPurge :: time
  sd_lostForwardTotal :: int
  sd_lateAckTotal :: int
  sd_receiptsRecorded :: int
  sd_relayOut :: "relay_frame list"
  sd_modOut :: "mod_frame list"
  sd_disk :: "bool list"
  sd_admit :: "bool list"
  sd_socket :: "bool list"

section \<open>The journal, the pacer and the socket\<close>

definition pop :: "bool list \<Rightarrow> bool \<times> bool list" where
  "pop bs = (case bs of [] \<Rightarrow> (True, []) | b # bs' \<Rightarrow> (b, bs'))"

definition get :: "sidecar \<Rightarrow> bytes \<Rightarrow> state option" where
  "get s k = lookup (sd_mem s) k"

text \<open>\<open>s.jr.Apply\<close> and \<open>s.jr.Create\<close>: the new state, or \<open>None\<close> for an error.\<close>

definition jr_apply :: "time \<Rightarrow> bytes \<Rightarrow> upd \<Rightarrow> sidecar \<Rightarrow> state option \<times> sidecar" where
  "jr_apply now k u s =
     (case get s k of
        None \<Rightarrow> (None, s)
      | Some _ \<Rightarrow>
          (case pop (sd_disk s) of
             (ok, rest) \<Rightarrow>
               if \<not> ok then (None, s\<lparr>sd_disk := rest\<rparr>)
               else (let m = apply_rec (status_record (unix_milli now) k u) (sd_mem s)
                     in (lookup m k, s\<lparr>sd_disk := rest, sd_mem := m\<rparr>))))"

definition jr_create :: "direction \<Rightarrow> entry \<Rightarrow> sidecar \<Rightarrow> state option \<times> sidecar" where
  "jr_create dir e s =
     (case get s (en_MigrationID e) of
        Some _ \<Rightarrow> (None, s)
      | None \<Rightarrow>
          (case pop (sd_disk s) of
             (ok, rest) \<Rightarrow>
               if \<not> ok then (None, s\<lparr>sd_disk := rest\<rparr>)
               else (let m = apply_rec (create_record dir e False) (sd_mem s)
                     in (lookup m (en_MigrationID e), s\<lparr>sd_disk := rest, sd_mem := m\<rparr>))))"

definition jr_list :: "sidecar \<Rightarrow> state list" where
  "jr_list s = ordered (sd_mem s)"

definition count_pending :: "direction \<Rightarrow> sidecar \<Rightarrow> int" where
  "count_pending dir s =
     int (length (filter (\<lambda>st. st_Direction st = dir \<and> (st_Status st = S_open \<or> st_Status st = S_in_flight))
       (jr_list s)))"

text \<open>\<open>schedFor\<close>: a missing entry is one of zero times.\<close>

definition schedFor :: "bytes \<Rightarrow> sidecar \<Rightarrow> sched" where
  "schedFor k s = deref_or (map_of (sd_sched s) k) zero_sched"

definition set_sched :: "bytes \<Rightarrow> (sched \<Rightarrow> sched) \<Rightarrow> sidecar \<Rightarrow> sidecar" where
  "set_sched k f s = s\<lparr>sd_sched := AList.update k (f (schedFor k s)) (sd_sched s)\<rparr>"

definition del_sched :: "bytes \<Rightarrow> sidecar \<Rightarrow> sidecar" where
  "del_sched k s = s\<lparr>sd_sched := AList.delete k (sd_sched s)\<rparr>"

text \<open>\<open>readyForBulk\<close> and \<open>admit\<close> of the send pacer, the preparation of a frame, and the physical
  enqueue.\<close>

definition pace_admits :: "sidecar \<Rightarrow> bool \<times> sidecar" where
  "pace_admits s = (case pop (sd_admit s) of (ok, rest) \<Rightarrow> (ok, s\<lparr>sd_admit := rest\<rparr>))"

definition prepareRelayFrameLocked :: "sidecar \<Rightarrow> bool \<times> sidecar" where
  "prepareRelayFrameLocked s = (if \<not> sd_relayReady s then (False, s) else pace_admits s)"

definition sendPreparedRelayFrameLocked :: "relay_frame \<Rightarrow> sidecar \<Rightarrow> bool \<times> sidecar" where
  "sendPreparedRelayFrameLocked f s =
     (case pop (sd_socket s) of
        (ok, rest) \<Rightarrow>
          if ok then (True, s\<lparr>sd_socket := rest, sd_relayOut := sd_relayOut s @ [f]\<rparr>)
          else (False, s\<lparr>sd_socket := rest\<rparr>))"

definition sendRelayLocked :: "relay_frame \<Rightarrow> sidecar \<Rightarrow> bool \<times> sidecar" where
  "sendRelayLocked f s =
     (case prepareRelayFrameLocked s of
        (False, s1) \<Rightarrow> (False, s1)
      | (True, s1) \<Rightarrow> sendPreparedRelayFrameLocked f s1)"

definition sendModLocked :: "mod_frame \<Rightarrow> sidecar \<Rightarrow> sidecar" where
  "sendModLocked f s = (if sd_mod s = None then s else s\<lparr>sd_modOut := sd_modOut s @ [f]\<rparr>)"

section \<open>Terminal outcomes of an export\<close>

definition sentAt :: "time \<Rightarrow> state \<Rightarrow> time" where
  "sentAt now st =
     (if st_SentAtMs st > 0 then time_of_milli (st_SentAtMs st)
      else if en_JournaledAt (st_Entry st) > 0 then time_of_milli (en_JournaledAt (st_Entry st))
      else now)"

definition loseLocked :: "time \<Rightarrow> state \<Rightarrow> sidecar \<Rightarrow> sidecar" where
  "loseLocked now st s =
     (case jr_apply now (st_id st)
             (no_upd\<lparr>upd_Status := S_done, upd_CompletedAt := Some (unix_milli now),
                     upd_Handoff := H_lost, upd_Note := ''lost''\<rparr>) s of
        (None, s1) \<Rightarrow> s1
      | (Some _, s1) \<Rightarrow>
          (del_sched (st_id st) s1)\<lparr>sd_lostForwardTotal := sd_lostForwardTotal s1 + 1\<rparr>)"

definition bounceLocked :: "time \<Rightarrow> bytes \<Rightarrow> state \<Rightarrow> sidecar \<Rightarrow> sidecar" where
  "bounceLocked now why st s =
     (case jr_apply now (st_id st)
             (no_upd\<lparr>upd_Status := S_open, upd_Direction := D_in, upd_BounceBack := Some True,
                     upd_Attempt := Some 0, upd_Handoff := H_done,
                     upd_Note := ''bounced: '' @ why\<rparr>) s of
        (None, s1) \<Rightarrow> s1
      | (Some _, s1) \<Rightarrow> del_sched (st_id st) s1)"

definition destLiveLocked :: "int \<Rightarrow> sidecar \<Rightarrow> bool" where
  "destLiveLocked slot s =
     (if \<not> sd_relayReady s \<or> sd_slot s = 0 \<or> slot = 0 then False
      else case Find (sd_status s) slot of None \<Rightarrow> False | Some si \<Rightarrow> si_Live si)"

definition provenRefusalDeadlineExpiredLocked :: "time \<Rightarrow> state \<Rightarrow> sidecar \<Rightarrow> bool \<times> sidecar" where
  "provenRefusalDeadlineExpiredLocked now st s =
     (if st_RefusalDeadlineMs st = 0 \<or> CustodyMayHaveMoved (st_Handoff st) then (False, s)
      else if now < time_of_milli (st_RefusalDeadlineMs st) then (False, s)
      else (True, bounceLocked now ''refusal deadline'' st s))"

section \<open>Re-routing\<close>

text \<open>The destination a re-route chooses, zero for none.  \<open>refusal_chain\<close> is the condition under
  which the walk continues past the refused destination.\<close>

definition refusal_chain :: "state \<Rightarrow> bytes \<Rightarrow> bool" where
  "refusal_chain st proof_why = (proof_why = ''peer_refused'' \<or> st_RefusalDeadlineMs st \<noteq> 0)"

definition next_destination :: "state \<Rightarrow> bytes \<Rightarrow> sidecar \<Rightarrow> int" where
  "next_destination st proof_why s =
     (if refusal_chain st proof_why then
        (case Find (sd_status s) (sd_slot s) of
           None \<Rightarrow> 0
         | Some me \<Rightarrow>
             (let edge = en_Edge (st_Entry st);
                  excluded = en_DestSlot (st_Entry st) # st_RefusedSlots st;
                  dest = (case WalkAfter (sd_status s) me edge (en_DestSlot (st_Entry st)) excluded of
                            Some c \<Rightarrow> si_Slot c | None \<Rightarrow> 0)
              in if dest \<noteq> 0 then dest
                 else case WalkAnywhere (sd_status s) me edge excluded of
                   Some c \<Rightarrow> si_Slot c | None \<Rightarrow> 0))
      else (case map_of (sd_neighbours s) (en_Edge (st_Entry st)) of
              None \<Rightarrow> 0
            | Some n \<Rightarrow> if ne_Slot n \<noteq> en_DestSlot (st_Entry st) then ne_Slot n else 0))"

definition reroute_upd :: "time \<Rightarrow> int \<Rightarrow> bytes \<Rightarrow> state \<Rightarrow> upd" where
  "reroute_upd now dest proof_why st =
     no_upd\<lparr>upd_Handoff := H_pending, upd_DestSlot := Some dest,
            upd_RerouteCount := Some (st_RerouteCount st + 1),
            upd_RerouteFrom := Some (if st_RerouteCount st = 0 then en_DestSlot (st_Entry st)
                                     else st_RerouteFrom st),
            upd_RerouteProof := Some proof_why, upd_RerouteAtMs := Some (unix_milli now),
            upd_RelaySessionID := Some [], upd_SentAtMs := Some 0, upd_Note := ''re-routed''\<rparr>"

definition rerouteLocked :: "time \<Rightarrow> bytes \<Rightarrow> state \<Rightarrow> sidecar \<Rightarrow> bool \<times> sidecar" where
  "rerouteLocked now proof_why st s =
     (if CustodyMayHaveMoved (st_Handoff st) then (False, s)
      else
        (let bounded = (st_RefusalDeadlineMs st \<noteq> 0);
             (expired, s1) = (if bounded then provenRefusalDeadlineExpiredLocked now st s
                              else (False, s))
         in if expired then (True, s1)
            else if cf_MaxReroutes (sd_cfg s1) < 0 then
              (if bounded then (True, bounceLocked now ''re-routing is disabled'' st s1) else (False, s1))
            else if st_RerouteCount st \<ge> cf_MaxReroutes (sd_cfg s1)
            then (True, bounceLocked now ''maxReroutes reached'' st s1)
            else (let dest = next_destination st proof_why s1 in
              if dest = 0 then
                (if bounded \<and> Find (sd_status s1) (sd_slot s1) \<noteq> None
                 then (True, bounceLocked now ''every compatible destination was tried'' st s1)
                 else (False, s1))
              else (case jr_apply now (st_id st) (reroute_upd now dest proof_why st) s1 of
                      (None, s2) \<Rightarrow> (False, s2)
                    | (Some _, s2) \<Rightarrow> (True, s2)))))"

section \<open>Forwarding\<close>

definition lineageOf :: "entry \<Rightarrow> lineage_parent list" where
  "lineageOf e = map (\<lambda>p. \<lparr>lp_EntityID = pr_EntityID p, lp_GenomeHash = pr_GenomeHash p,
                            lp_GapReason = pr_GapReason p\<rparr>) (en_Parents e)"

definition payload_of :: "custody_cfg \<Rightarrow> state \<Rightarrow> migration_payload" where
  "payload_of cfg st =
     (let e = st_Entry st in
      \<lparr>mp_MigrationID = en_MigrationID e, mp_Kind = en_Kind e, mp_BodyVersion = en_GameVersion e,
       mp_BB8 = en_Payload e, mp_GenomeHash = en_GenomeHash e, mp_Parents = lineageOf e,
       mp_Species = en_Species e, mp_SourcePeer = cf_PeerID cfg, mp_SourceSlot = en_SourceSlot e,
       mp_DestSlot = en_DestSlot e, mp_ExitEdge = en_Edge e, mp_ExitPosition = en_Position e,
       mp_Velocity = \<lparr>ve_X = en_VelocityX e, ve_Y = en_VelocityY e\<rparr>, mp_Heading = en_Heading e,
       mp_EntityID = en_EntityID e, mp_Timestamp = en_JournaledAt e,
       mp_Reroute = (if st_RerouteCount st > 0
                     then Some \<lparr>ri_FromSlot = st_RerouteFrom st, ri_Count = st_RerouteCount st,
                                ri_Proof = st_RerouteProof st, ri_AtMs = st_RerouteAtMs st\<rparr>
                     else None)\<rparr>)"

definition sent_transition :: "time \<Rightarrow> state \<Rightarrow> sidecar \<Rightarrow> upd" where
  "sent_transition now st s =
     no_upd\<lparr>upd_Handoff := H_sent, upd_SentAtMs := Some (unix_milli now),
            upd_RelaySessionID := Some (sd_relaySessionID s),
            upd_Status := (if st_Status st \<noteq> S_in_flight then S_in_flight else S_empty)\<rparr>"

text \<open>\<open>later\<close> is the clock when the frame has been prepared; it is read only for a bounded chain.\<close>

definition forwardLocked :: "time \<Rightarrow> time \<Rightarrow> state \<Rightarrow> sidecar \<Rightarrow> bool \<times> sidecar" where
  "forwardLocked now later st s =
     (if st_Handoff st \<noteq> H_pending \<and> st_Handoff st \<noteq> H_refused then (False, s)
      else case pace_admits s of
        (False, s1) \<Rightarrow> (False, s1)
      | (True, s1) \<Rightarrow>
          (case prepareRelayFrameLocked s1 of
             (False, s2) \<Rightarrow> (False, s2)
           | (True, s2) \<Rightarrow>
               (let bounded = (st_RefusalDeadlineMs st \<noteq> 0);
                    at_now = (if bounded then later else now);
                    (expired, s3) = (if bounded then provenRefusalDeadlineExpiredLocked later st s2
                                     else (False, s2))
                in if expired then (False, s3)
                   else case jr_apply at_now (st_id st) (sent_transition at_now st s3) s3 of
                     (None, s4) \<Rightarrow> (False, s4)
                   | (Some _, s4) \<Rightarrow>
                       sendPreparedRelayFrameLocked (RF_payload (payload_of (sd_cfg s4) st)) s4)))"

section \<open>The scheduler's decision for one export\<close>

definition clear_clocks :: "sched \<Rightarrow> sched" where
  "clear_clocks sc = sc\<lparr>sh_bounceAt := 0, sh_nextForward := 0\<rparr>"

text \<open>Offering a live destination: nothing before the retry instant, else a forward.\<close>

definition offer :: "time \<Rightarrow> time \<Rightarrow> state \<Rightarrow> sidecar \<Rightarrow> sidecar" where
  "offer now later st s =
     (if now < sh_nextForward (schedFor (st_id st) s) then s
      else case forwardLocked now later st s of
        (ok, s1) \<Rightarrow>
          if ok then set_sched (st_id st) (\<lambda>sc. sc\<lparr>sh_nextForward := now + cf_ForwardRetry (sd_cfg s1)\<rparr>) s1
          else s1)"

definition offer_live :: "time \<Rightarrow> time \<Rightarrow> state \<Rightarrow> sidecar \<Rightarrow> sidecar" where
  "offer_live now later st s = offer now later st (set_sched (st_id st) (\<lambda>sc. sc\<lparr>sh_bounceAt := 0\<rparr>) s)"

text \<open>A re-route that clears the clocks when it acted.\<close>

definition reroute_clearing :: "time \<Rightarrow> bytes \<Rightarrow> state \<Rightarrow> sidecar \<Rightarrow> bool \<times> sidecar" where
  "reroute_clearing now proof_why st s =
     (case rerouteLocked now proof_why st s of
        (True, s1) \<Rightarrow> (True, set_sched (st_id st) clear_clocks s1)
      | (False, s1) \<Rightarrow> (False, s1))"

text \<open>The no-lane clock: started when it is not running, a bounce once it has passed.\<close>

definition wait_or_bounce :: "time \<Rightarrow> bytes \<Rightarrow> state \<Rightarrow> sidecar \<Rightarrow> sidecar" where
  "wait_or_bounce now why st s =
     (let sc = schedFor (st_id st) s in
      if sh_bounceAt sc = 0
      then set_sched (st_id st) (\<lambda>sc. sc\<lparr>sh_bounceAt := now + cf_BounceTimeout (sd_cfg s)\<rparr>) s
      else if now > sh_bounceAt sc then bounceLocked now why st s
      else s)"

definition tick_pending :: "time \<Rightarrow> time \<Rightarrow> state \<Rightarrow> sidecar \<Rightarrow> sidecar" where
  "tick_pending now later st s =
     (case provenRefusalDeadlineExpiredLocked now st s of
        (True, s1) \<Rightarrow> s1
      | (False, s1) \<Rightarrow>
          if destLiveLocked (en_DestSlot (st_Entry st)) s1 then offer_live now later st s1
          else if st_RefusalDeadlineMs st \<noteq> 0 then snd (reroute_clearing now ''never_sent'' st s1)
          else (case reroute_clearing now ''never_sent'' st s1 of
                  (True, s2) \<Rightarrow> s2
                | (False, s2) \<Rightarrow> wait_or_bounce now ''no deliverable slot'' st s2))"

definition tick_refused :: "time \<Rightarrow> time \<Rightarrow> state \<Rightarrow> sidecar \<Rightarrow> sidecar" where
  "tick_refused now later st s =
     (let proof_why = (if st_RerouteProof st = [] then ''peer_refused'' else st_RerouteProof st) in
      if st_RefusalDeadlineMs st \<noteq> 0 then snd (reroute_clearing now proof_why st s)
      else if proof_why \<noteq> ''peer_refused'' then
        (if destLiveLocked (en_DestSlot (st_Entry st)) s then offer_live now later st s
         else case reroute_clearing now proof_why st s of
                (True, s1) \<Rightarrow> s1
              | (False, s1) \<Rightarrow> wait_or_bounce now ''no deliverable slot'' st s1)
      else case reroute_clearing now proof_why st s of
        (True, s1) \<Rightarrow> s1
      | (False, s1) \<Rightarrow>
          (let s2 = (if sh_bounceAt (schedFor (st_id st) s1) = 0
                     then set_sched (st_id st)
                            (\<lambda>sc. sc\<lparr>sh_bounceAt := now + cf_BounceTimeout (sd_cfg s1)\<rparr>) s1
                     else s1)
           in if now > sh_bounceAt (schedFor (st_id st) s2)
              then bounceLocked now ''every deliverable slot refused'' st s2
              else if destLiveLocked (en_DestSlot (st_Entry st)) s2 then offer now later st s2
              else s2))"

definition tickOutbound :: "time \<Rightarrow> time \<Rightarrow> bytes \<Rightarrow> sidecar \<Rightarrow> sidecar" where
  "tickOutbound now later k s =
     (case get s k of
        None \<Rightarrow> s
      | Some st \<Rightarrow>
          if st_Status st \<noteq> S_open \<and> st_Status st \<noteq> S_in_flight then s
          else (case st_Handoff st of
                  H_sent \<Rightarrow>
                    if now - sentAt now st \<ge> cf_ForwardTimeout (sd_cfg s) then loseLocked now st s else s
                | H_empty \<Rightarrow>
                    if now - sentAt now st \<ge> cf_ForwardTimeout (sd_cfg s) then loseLocked now st s else s
                | H_pending \<Rightarrow> tick_pending now later st s
                | H_refused \<Rightarrow> tick_refused now later st s
                | _ \<Rightarrow> s))"

end
