(* ===== verification/Evidence.thy ===== *)
theory Evidence imports Custody begin

text \<open>
  The answers an export can get (\<open>internal/sidecar/contractb_client.go\<close>): the acknowledgement, the
  relay's forward receipt, and the refusal with its evidence table, which decides whether an
  organism that may have been delivered may be offered again.
\<close>

section \<open>Acknowledgement and receipt\<close>

definition onMigrationAck :: "time \<Rightarrow> migration_ack \<Rightarrow> sidecar \<Rightarrow> sidecar" where
  "onMigrationAck now ack s =
     (case get s (ak_MigrationID ack) of
        None \<Rightarrow> s
      | Some st \<Rightarrow>
          if st_Handoff st = H_lost then s\<lparr>sd_lateAckTotal := sd_lateAckTotal s + 1\<rparr>
          else if st_Direction st \<noteq> D_out then s
          else if st_Status st = S_done then s
          else (case jr_apply now (ak_MigrationID ack)
                       (no_upd\<lparr>upd_Status := S_done, upd_CompletedAt := Some (unix_milli now),
                               upd_Acked := Some True, upd_Handoff := H_done,
                               upd_Duplicate := Some (ak_Duplicate ack)\<rparr>) s of
                  (None, s1) \<Rightarrow> s1
                | (Some _, s1) \<Rightarrow> del_sched (ak_MigrationID ack) s1))"

definition onForwardReceipt :: "time \<Rightarrow> forward_receipt \<Rightarrow> sidecar \<Rightarrow> sidecar" where
  "onForwardReceipt now r s =
     (if ForwardReceipt_Validate r \<noteq> None then s
      else case get s (fr_MigrationID r) of
        None \<Rightarrow> s
      | Some st \<Rightarrow>
          if st_Direction st \<noteq> D_out then s
          else if st_Status st = S_done then s
          else (case jr_apply now (fr_MigrationID r)
                       (no_upd\<lparr>upd_ForwardReceipts := Some (st_ForwardReceipts st + 1),
                               upd_ReceiptSessionID := Some (fr_RelaySessionID r),
                               upd_ReceiptDestSlot := Some (fr_DestSlot r),
                               upd_ReceiptForwardedAtMs := Some (fr_ForwardedAt r)\<rparr>) s of
                  (None, s1) \<Rightarrow> s1
                | (Some _, s1) \<Rightarrow> s1\<lparr>sd_receiptsRecorded := sd_receiptsRecorded s1 + 1\<rparr>))"

section \<open>Refusals\<close>

definition appendRefusedSlot :: "int list \<Rightarrow> int \<Rightarrow> int list" where
  "appendRefusedSlot slots slot = (if slot \<in> set slots then slots else slots @ [slot])"

definition peerNackMatchesCurrentDestinationLocked :: "state \<Rightarrow> bytes \<Rightarrow> sidecar \<Rightarrow> bool" where
  "peerNackMatchesCurrentDestinationLocked st sourcePeer s =
     (if sourcePeer = [] then False
      else case Find (sd_status s) (en_DestSlot (st_Entry st)) of
        None \<Rightarrow> False
      | Some si \<Rightarrow> si_PeerID si \<noteq> [] \<and> si_PeerID si = sourcePeer)"

text \<open>Both marks answer the state after the mark; a failed write leaves the state as it was.\<close>

definition markTransportRefusedLocked :: "time \<Rightarrow> state \<Rightarrow> sidecar \<Rightarrow> state option \<times> sidecar" where
  "markTransportRefusedLocked now st s =
     (let deadline = (if st_RefusalDeadlineMs st = 0
                      then unix_milli (now + cf_BounceTimeout (sd_cfg s)) else st_RefusalDeadlineMs st)
      in jr_apply now (st_id st)
           (no_upd\<lparr>upd_Handoff := H_refused, upd_RerouteProof := Some ''relay_never_forwarded'',
                   upd_RefusedSlots := appendRefusedSlot (st_RefusedSlots st) (en_DestSlot (st_Entry st)),
                   upd_RefusalDeadlineMs := Some deadline, upd_RelaySessionID := Some [],
                   upd_SentAtMs := Some 0, upd_Note := ''relay NOT_FORWARDED proof''\<rparr>) s)"

definition markRefusedLocked :: "time \<Rightarrow> bytes \<Rightarrow> state \<Rightarrow> sidecar \<Rightarrow> state \<times> sidecar" where
  "markRefusedLocked now proof_why st s =
     (let refused = (if proof_why = ''peer_refused''
                     then appendRefusedSlot (st_RefusedSlots st) (en_DestSlot (st_Entry st))
                     else st_RefusedSlots st)
      in case jr_apply now (st_id st)
                (no_upd\<lparr>upd_Handoff := H_refused, upd_RerouteProof := Some proof_why,
                        upd_RefusedSlots := refused, upd_RelaySessionID := Some [],
                        upd_SentAtMs := Some 0, upd_Note := ''refused''\<rparr>) s of
           (None, s1) \<Rightarrow> (st, s1)
         | (Some st', s1) \<Rightarrow> (st', s1))"

definition set_retry :: "time \<Rightarrow> migration_nack \<Rightarrow> sidecar \<Rightarrow> sidecar" where
  "set_retry now n s =
     set_sched (nk_MigrationID n)
       (\<lambda>sc. sc\<lparr>sh_nextForward := now + (if nk_RetryAfterMs n > 0 then nk_RetryAfterMs n * millisecond
                                         else cf_ForwardRetry (sd_cfg s))\<rparr>) s"

definition mark_and_reroute :: "time \<Rightarrow> bytes \<Rightarrow> state \<Rightarrow> sidecar \<Rightarrow> sidecar" where
  "mark_and_reroute now proof_why st s =
     (case markRefusedLocked now proof_why st s of
        (st', s1) \<Rightarrow> snd (reroute_clearing now proof_why st' s1))"

text \<open>The switch of \<open>onMigrationNack\<close>, in its order.  Its last cases, which only log, leave the
  state alone like the default.\<close>

definition onMigrationNack :: "time \<Rightarrow> migration_nack \<Rightarrow> sidecar \<Rightarrow> sidecar" where
  "onMigrationNack now n s =
     (case get s (nk_MigrationID n) of
        None \<Rightarrow> s
      | Some st \<Rightarrow>
          if st_Direction st \<noteq> D_out then s
          else if st_Status st \<noteq> S_open \<and> st_Status st \<noteq> S_in_flight then s
          else
            (let relayGenerated = (nk_SourcePeer n = []);
                 peerAttempt = (relayGenerated \<or>
                   peerNackMatchesCurrentDestinationLocked st (nk_SourcePeer n) s);
                 attemptProof = ProvesAttemptRefusal n (st_RelaySessionID st)
                   (en_DestSlot (st_Entry st)) (st_RerouteCount st)
             in if \<not> relayGenerated \<and> \<not> peerAttempt then s
                else if \<not> relayGenerated \<and> PayloadRefusal (nk_Code n)
                then bounceLocked now (nk_Code n) st s
                else if \<not> relayGenerated \<and> PeerLocalRefusal (nk_Code n)
                then mark_and_reroute now ''peer_refused'' st (set_retry now n s)
                else if relayGenerated \<and> nk_Code n = ''NOT_FORWARDED'' \<and> attemptProof \<and>
                        ForwardedAttemptUnder st (nk_RelaySessionID n) (en_DestSlot (st_Entry st))
                then s
                else if relayGenerated \<and> nk_Code n = ''NOT_FORWARDED'' \<and> attemptProof
                then (case markTransportRefusedLocked now st s of
                        (None, s1) \<Rightarrow> s1
                      | (Some st', s1) \<Rightarrow> snd (reroute_clearing now ''relay_never_forwarded'' st' s1))
                else if relayGenerated \<and> nk_Code n = ''NOT_FORWARDED'' then s
                else if relayGenerated \<and> ProvesNoCustody n (st_RelaySessionID st) \<and>
                        ForwardedUnder st (nk_RelaySessionID n)
                then s
                else if relayGenerated \<and> ProvesNoCustody n (st_RelaySessionID st)
                then mark_and_reroute now ''relay_never_forwarded'' st (set_retry now n s)
                else s))"

end
