(* ===== verification/Inbound.thy ===== *)
theory Inbound imports Evidence begin

text \<open>
  The inbound half of the custody scheduler and the handlers of both contracts that take custody
  (\<open>internal/sidecar\<close>: \<open>sidecar.go\<close>, \<open>contractb_client.go\<close>, \<open>contracta_server.go\<close>, \<open>pacer.go\<close>):
  an arrival is validated, admitted, journaled and delivered at the pace of the world, its
  acknowledgement goes upstream only once the mod confirmed it; an export is checked, journaled
  and only then acknowledged to the mod.  The payload schema (\<open>internal/bb8\<close>) is a parameter, and
  so is the population gate's verdict.
\<close>

section \<open>The delivery rate limit\<close>

definition newPacer :: "rat \<Rightarrow> rat \<Rightarrow> pacer" where
  "newPacer rate burst =
     (let b = (if burst \<le> 0 then 1 else burst) in
      \<lparr>pa_rate = rate, pa_burst = b, pa_tokens = b, pa_haveSim = False, pa_lastSim = 0,
       pa_lastBeat = 0, pa_running = False, pa_simulated = 0\<rparr>)"

definition pacer_beat :: "rat \<Rightarrow> bool \<Rightarrow> time \<Rightarrow> pacer \<Rightarrow> pacer" where
  "pacer_beat simulatedTime running at_time p =
     (let p1 = p\<lparr>pa_lastBeat := at_time, pa_running := running, pa_simulated := simulatedTime\<rparr> in
      if \<not> pa_haveSim p1 then p1\<lparr>pa_haveSim := True, pa_lastSim := simulatedTime\<rparr>
      else (let delta = simulatedTime - pa_lastSim p1; p2 = p1\<lparr>pa_lastSim := simulatedTime\<rparr> in
            if \<not> running \<or> delta \<le> 0 then p2
            else (let t = pa_tokens p2 + (delta / 60) * pa_rate p2
                  in p2\<lparr>pa_tokens := (if t > pa_burst p2 then pa_burst p2 else t)\<rparr>)))"

definition pacer_allow :: "time \<Rightarrow> duration \<Rightarrow> pacer \<Rightarrow> bool" where
  "pacer_allow now idleGrace p =
     (if \<not> pa_haveSim p \<or> \<not> pa_running p then False
      else if now - pa_lastBeat p > idleGrace then False
      else pa_tokens p \<ge> 1)"

definition pacer_take :: "pacer \<Rightarrow> pacer" where
  "pacer_take p = (let t = pa_tokens p - 1 in p\<lparr>pa_tokens := (if t < 0 then 0 else t)\<rparr>)"

definition pacer_reset :: "pacer \<Rightarrow> pacer" where
  "pacer_reset p =
     p\<lparr>pa_tokens := pa_burst p, pa_haveSim := False, pa_lastSim := 0, pa_running := False,
       pa_lastBeat := 0\<rparr>"

section \<open>Delivery and the upstream acknowledgement\<close>

definition deliver_frame :: "custody_cfg \<Rightarrow> state \<Rightarrow> int \<Rightarrow> mod_frame" where
  "deliver_frame cfg st attempt =
     (let e = st_Entry st in
      MF_in \<lparr>mi_MigrationID = en_MigrationID e, mi_EntityID = en_EntityID e, mi_Kind = en_Kind e,
        mi_GameVersion = en_GameVersion e, mi_Payload = en_Payload e, mi_Species = en_Species e,
        mi_EntryEdge = en_Edge e, mi_EntryPosition = en_Position e,
        mi_Velocity = \<lparr>ve_X = en_VelocityX e, ve_Y = en_VelocityY e\<rparr>, mi_Heading = en_Heading e,
        mi_BounceBack = st_BounceBack st, mi_Attempt = attempt,
        mi_AckDeadlineMs = cf_MigrateInAckTimeout cfg div millisecond\<rparr>)"

definition deliverLocked :: "time \<Rightarrow> state \<Rightarrow> sidecar \<Rightarrow> sidecar" where
  "deliverLocked now st s =
     (if \<not> pacer_allow now (cf_PacingIdleGrace (sd_cfg s)) (sd_pace s) then s
      else if (case sd_mod s of None \<Rightarrow> False
               | Some m \<Rightarrow> now - md_lastHeartbeat m > cf_HeartbeatDeliveryGrace (sd_cfg s)) then s
      else (case jr_apply now (st_id st)
                   (no_upd\<lparr>upd_Status := S_in_flight, upd_Attempt := Some (st_Attempt st + 1)\<rparr>) s of
              (None, s1) \<Rightarrow> s1
            | (Some updated, s1) \<Rightarrow>
                (let s2 = sendModLocked (deliver_frame (sd_cfg s1) updated (st_Attempt st + 1))
                            (s1\<lparr>sd_pace := pacer_take (sd_pace s1)\<rparr>)
                 in set_sched (st_id st)
                      (\<lambda>sc. sc\<lparr>sh_nextDeliver := now + cf_MigrateInAckTimeout (sd_cfg s2)\<rparr>) s2)))"

definition upstream_ack :: "time \<Rightarrow> state \<Rightarrow> sidecar \<Rightarrow> migration_ack" where
  "upstream_ack now st s =
     \<lparr>ak_MigrationID = st_id st, ak_SourcePeer = cf_PeerID (sd_cfg s),
      ak_DestPeer = en_SourcePeer (st_Entry st), ak_EntityID = en_EntityID (st_Entry st),
      ak_Duplicate = st_Duplicate st, ak_DeliveredAt = unix_milli now\<rparr>"

definition ackUpstreamLocked :: "time \<Rightarrow> state \<Rightarrow> sidecar \<Rightarrow> sidecar" where
  "ackUpstreamLocked now st s =
     (case sendRelayLocked (RF_ack (upstream_ack now st s)) s of
        (False, s1) \<Rightarrow> s1
      | (True, s1) \<Rightarrow> snd (jr_apply now (st_id st) (no_upd\<lparr>upd_Acked := Some True\<rparr>) s1))"

definition tickInbound :: "time \<Rightarrow> state \<Rightarrow> sidecar \<Rightarrow> sidecar" where
  "tickInbound now st s =
     (let k = st_id st in
      if st_Status st = S_done then
        (if \<not> AwaitsUpstreamAck st then s
         else if now < sh_nextForward (schedFor k s) then s
         else ackUpstreamLocked now st
                (set_sched k (\<lambda>sc. sc\<lparr>sh_nextForward := now + cf_TickInterval (sd_cfg s)\<rparr>) s))
      else if st_Status st \<noteq> S_open \<and> st_Status st \<noteq> S_in_flight then s
      else case sd_mod s of
        None \<Rightarrow> s
      | Some m \<Rightarrow>
          if \<not> md_handshaked m then s
          else if st_Status st = S_open then
            (if now < sh_nextDeliver (schedFor k s) then s else deliverLocked now st s)
          else if md_paused m \<or> f64_eq (md_timeScale m) f64_zero
          then set_sched k (\<lambda>sc. sc\<lparr>sh_nextDeliver := now + cf_MigrateInAckTimeout (sd_cfg s)\<rparr>) s
          else if now > sh_nextDeliver (schedFor k s) then deliverLocked now st s
          else s)"

section \<open>The tick\<close>

definition hasPendingAckLocked :: "sidecar \<Rightarrow> bool" where
  "hasPendingAckLocked s = list_ex AwaitsUpstreamAck (jr_list s)"

definition is_done_inbound :: "state \<Rightarrow> bool" where
  "is_done_inbound st = (st_Direction st = D_in \<and> st_Status st = S_done)"

text \<open>Finished arrivals first: their acknowledgements own this tick's send budget.\<close>

definition drain_acks :: "time \<Rightarrow> state list \<Rightarrow> sidecar \<Rightarrow> sidecar" where
  "drain_acks now states s =
     fold (\<lambda>st s. if is_done_inbound st then tickInbound now st s else s) states s"

definition tick_one :: "time \<Rightarrow> time \<Rightarrow> bool \<Rightarrow> state \<Rightarrow> sidecar \<Rightarrow> sidecar" where
  "tick_one now later pendingAck st s =
     (if is_done_inbound st then s
      else case st_Direction st of
        D_out \<Rightarrow> if pendingAck then s else tickOutbound now later (st_id st) s
      | D_in \<Rightarrow> tickInbound now st s
      | D_empty \<Rightarrow> s)"

definition tick_entries :: "time \<Rightarrow> time \<Rightarrow> sidecar \<Rightarrow> sidecar" where
  "tick_entries now later s =
     (let states = jr_list s; s1 = drain_acks now states s
      in fold (tick_one now later (hasPendingAckLocked s1)) states s1)"

text \<open>\<open>s.jr.PurgeExpired\<close>: every tombstone that was finished before the cutoff and owes nothing leaves the
  journal, up to the first write that fails; the identifiers that left are returned.\<close>

fun purge_entries :: "time \<Rightarrow> int \<Rightarrow> state list \<Rightarrow> sidecar \<Rightarrow> bytes list \<times> sidecar" where
  "purge_entries now cutoff [] s = ([], s)"
| "purge_entries now cutoff (st # sts) s =
     (if \<not> purge_candidate cutoff st then purge_entries now cutoff sts s
      else (case pop (sd_disk s) of
              (ok, rest) \<Rightarrow>
                if \<not> ok then ([], s\<lparr>sd_disk := rest\<rparr>)
                else (case purge_entries now cutoff sts
                             (s\<lparr>sd_disk := rest, sd_mem := apply_rec (purge_record now (st_id st)) (sd_mem s)\<rparr>) of
                        (ks, s') \<Rightarrow> (st_id st # ks, s'))))"

text \<open>The purge runs at the end of a tick when the last one is more than a minute ago.\<close>

definition tick_purge :: "time \<Rightarrow> sidecar \<Rightarrow> bytes list \<times> sidecar" where
  "tick_purge now s =
     (if now - sd_lastPurge s > 60 * second
      then purge_entries now (unix_milli (now - cf_ExportRetention (sd_cfg s))) (jr_list s) (s\<lparr>sd_lastPurge := now\<rparr>)
      else ([], s))"

definition tick :: "time \<Rightarrow> time \<Rightarrow> sidecar \<Rightarrow> sidecar" where
  "tick now later s = snd (tick_purge now (tick_entries now later s))"

definition purged_in_tick :: "time \<Rightarrow> time \<Rightarrow> sidecar \<Rightarrow> bytes list" where
  "purged_in_tick now later s = fst (tick_purge now (tick_entries now later s))"

section \<open>An arrival\<close>

text \<open>What the payload schema is used for.\<close>

record bb8 =
  bb_Validate :: "bytes \<Rightarrow> bytes \<Rightarrow> bool"
  bb_Hash :: "bytes \<Rightarrow> bytes"
  bb_EntityID :: "bytes \<Rightarrow> int option"
  bb_Heading :: "bytes \<Rightarrow> f64 option"
  bb_GenomeHash :: "bytes \<Rightarrow> bytes \<Rightarrow> bytes option"

definition nackUpstreamAfter :: "bytes \<Rightarrow> bytes \<Rightarrow> bytes \<Rightarrow> int \<Rightarrow> sidecar \<Rightarrow> sidecar" where
  "nackUpstreamAfter k destPeer code retryMs s =
     (if destPeer = [] then s
      else snd (sendRelayLocked (RF_nack
        \<lparr>nk_MigrationID = k, nk_SourcePeer = cf_PeerID (sd_cfg s), nk_DestPeer = destPeer,
         nk_Code = code, nk_Class = ClassOf code, nk_RetryAfterMs = retryMs,
         nk_NeverForwarded = None, nk_RelaySessionID = [], nk_RefusedAttempt = None\<rparr>) s))"

definition ackUpstreamNow :: "time \<Rightarrow> bytes \<Rightarrow> bytes \<Rightarrow> int \<Rightarrow> bool \<Rightarrow> sidecar \<Rightarrow> sidecar" where
  "ackUpstreamNow now k destPeer entityID duplicate s =
     (if destPeer = [] then s
      else snd (sendRelayLocked (RF_ack
        \<lparr>ak_MigrationID = k, ak_SourcePeer = cf_PeerID (sd_cfg s), ak_DestPeer = destPeer,
         ak_EntityID = entityID, ak_Duplicate = duplicate, ak_DeliveredAt = unix_milli now\<rparr>) s))"

definition parentRefs :: "lineage_parent list \<Rightarrow> parent_ref list" where
  "parentRefs ps = map (\<lambda>p. \<lparr>pr_EntityID = lp_EntityID p, pr_GenomeHash = lp_GenomeHash p,
                              pr_GapReason = lp_GapReason p\<rparr>) ps"

definition inbound_entry :: "bb8 \<Rightarrow> time \<Rightarrow> migration_payload \<Rightarrow> entry" where
  "inbound_entry bb now p =
     \<lparr>en_MigrationID = mp_MigrationID p,
      en_EntityID = deref_or (bb_EntityID bb (mp_BB8 p)) (mp_EntityID p),
      en_Kind = mp_Kind p, en_GameVersion = mp_BodyVersion p, en_Payload = mp_BB8 p,
      en_PayloadHash = bb_Hash bb (mp_BB8 p),
      en_Edge = deref_or (Opposite (mp_ExitEdge p)) ''W'', en_Position = mp_ExitPosition p,
      en_VelocityX = ve_X (mp_Velocity p), en_VelocityY = ve_Y (mp_Velocity p),
      en_Heading = (if f64_eq (mp_Heading p) f64_zero
                    then deref_or (bb_Heading bb (mp_BB8 p)) (mp_Heading p) else mp_Heading p),
      en_SimulationSize = f64_zero, en_SimTick = 0, en_SourcePeer = mp_SourcePeer p,
      en_SourceSlot = mp_SourceSlot p, en_DestSlot = mp_DestSlot p,
      en_GenomeHash = mp_GenomeHash p, en_Parents = parentRefs (mp_Parents p),
      en_Species = fst (CarrySpecies (mp_Species p)), en_JournaledAt = unix_milli now\<rparr>"

definition handshaked :: "sidecar \<Rightarrow> mod_session option" where
  "handshaked s = (case sd_mod s of Some m \<Rightarrow> if md_handshaked m then Some m else None | None \<Rightarrow> None)"

definition size_disagrees :: "migration_payload \<Rightarrow> sidecar \<Rightarrow> bool" where
  "size_disagrees p s =
     (case (handshaked s, Find (sd_status s) (mp_SourceSlot p)) of
        (Some m, Some si) \<Rightarrow> f64_positive (si_SimulationSize si) \<and>
          \<not> SameSize (si_SimulationSize si) (md_simSize m)
      | _ \<Rightarrow> False)"

text \<open>The header projection decides a duplicate before the body is decoded; \<open>admitted\<close> is the
  population gate's verdict.\<close>

definition take_custody :: "bb8 \<Rightarrow> time \<Rightarrow> bool \<Rightarrow> migration_payload \<Rightarrow> sidecar \<Rightarrow> sidecar" where
  "take_custody bb now admitted p s =
     (let refuse = (\<lambda>code retryMs. nackUpstreamAfter (mp_MigrationID p) (mp_SourcePeer p) code retryMs s) in
      if MigrationPayload_Validate p \<noteq> None then refuse ''MALFORMED_MESSAGE'' 0
      else if mp_Kind p \<noteq> ''bibite'' then refuse ''KIND_UNSUPPORTED'' 0
      else if count_pending D_in s \<ge> cf_InboundQueueMax (sd_cfg s)
      then refuse (if handshaked s = None then ''MOD_ABSENT'' else ''OVERLOADED'') 15000
      else if \<not> admitted then refuse ''OVERLOADED'' 15000
      else if size_disagrees p s then refuse ''SIM_SIZE_MISMATCH'' 0
      else if \<not> bb_Validate bb (mp_BodyVersion p) (mp_BB8 p) then refuse ''INVALID_PAYLOAD'' 0
      else case jr_create D_in (inbound_entry bb now p) s of
        (None, s1) \<Rightarrow> nackUpstreamAfter (mp_MigrationID p) (mp_SourcePeer p) ''OVERLOADED'' 0 s1
      | (Some st, s1) \<Rightarrow> if handshaked s1 \<noteq> None then deliverLocked now st s1 else s1)"

definition onMigrationPayload ::
  "bb8 \<Rightarrow> time \<Rightarrow> bool \<Rightarrow> (bytes \<times> bytes) option \<Rightarrow> migration_payload option \<Rightarrow> sidecar \<Rightarrow> sidecar"
where
  "onMigrationPayload bb now admitted head_frame decoded s =
     (case (case head_frame of None \<Rightarrow> None
            | Some (k, src) \<Rightarrow> if k = [] then None else map_option (\<lambda>st. (k, src, st)) (get s k)) of
        Some (k, src, st) \<Rightarrow>
          if st_Status st = S_done \<or> st_AckedUpstream st
          then ackUpstreamNow now k src (en_EntityID (st_Entry st)) True s else s
      | None \<Rightarrow>
          (case decoded of
             None \<Rightarrow> s
           | Some p \<Rightarrow> take_custody bb now admitted p s))"

section \<open>The mod's answers\<close>

definition onMigrateInAck :: "time \<Rightarrow> migrate_in_ack \<Rightarrow> sidecar \<Rightarrow> sidecar" where
  "onMigrateInAck now a s =
     (if MigrateInAck_Validate a \<noteq> None then s
      else case get s (ma_MigrationID a) of
        None \<Rightarrow> s
      | Some st \<Rightarrow>
          if st_Status st = S_done then s
          else (case jr_apply now (ma_MigrationID a)
                       (no_upd\<lparr>upd_Status := S_done, upd_Duplicate := ma_Duplicate a,
                               upd_CompletedAt := Some (unix_milli now)\<rparr>) s of
                  (None, s1) \<Rightarrow> s1
                | (Some done_st, s1) \<Rightarrow>
                    (let s2 = del_sched (ma_MigrationID a) s1
                     in if \<not> st_BounceBack done_st \<and> en_SourcePeer (st_Entry done_st) \<noteq> []
                        then ackUpstreamLocked now done_st s2 else s2)))"

definition onMigrateInNack :: "time \<Rightarrow> migrate_in_nack \<Rightarrow> sidecar \<Rightarrow> sidecar" where
  "onMigrateInNack now n s =
     (if MigrateInNack_Validate n \<noteq> None then s
      else case get s (mn_MigrationID n) of
        None \<Rightarrow> s
      | Some _ \<Rightarrow>
          if mn_Class n = ''transient''
          then set_sched (mn_MigrationID n)
                 (\<lambda>sc. sc\<lparr>sh_nextDeliver := now + (case mn_RetryAfterMs n of
                     Some ms \<Rightarrow> if ms > 0 then ms * millisecond else cf_MigrateInAckTimeout (sd_cfg s)
                   | None \<Rightarrow> cf_MigrateInAckTimeout (sd_cfg s))\<rparr>) s
          else del_sched (mn_MigrationID n)
                 (snd (jr_apply now (mn_MigrationID n)
                    (no_upd\<lparr>upd_Status := S_held, upd_Note := ''MIGRATE_IN_NACK '' @ mn_Code n\<rparr>) s)))"

text \<open>Re-asserting the exports to a mod with a new session, and queueing its un-acknowledged
  arrivals behind one escalating delay.\<close>

definition reassertCustodyLocked :: "sidecar \<Rightarrow> sidecar" where
  "reassertCustodyLocked s =
     fold (\<lambda>st s. if st_Direction st = D_out \<and>
                     st_Status st \<in> {S_open, S_in_flight, S_done, S_held}
                  then sendModLocked (MF_out_ack (st_id st) (en_EntityID (st_Entry st))
                         (en_JournaledAt (st_Entry st)) True) s else s) (jr_list s) s"

definition replayDelayStep :: duration where
  "replayDelayStep = 500 * millisecond"

definition replayDelayCap :: duration where
  "replayDelayCap = 5 * second"

definition replayBatchDelay :: "int \<Rightarrow> duration" where
  "replayBatchDelay minAttempt =
     (let d = (minAttempt - 1) * replayDelayStep in
      if d < 0 then 0 else if d > replayDelayCap then replayDelayCap else d)"

definition replay_batch :: "sidecar \<Rightarrow> state list" where
  "replay_batch s =
     filter (\<lambda>st. st_Direction st = D_in \<and> (st_Status st = S_open \<or> st_Status st = S_in_flight))
       (jr_list s)"

definition replayInboundLocked :: "time \<Rightarrow> sidecar \<Rightarrow> sidecar" where
  "replayInboundLocked now s =
     (let batch = replay_batch s in
      if batch = [] then s
      else (let due = now + replayBatchDelay (Min (st_Attempt ` set batch))
            in fold (\<lambda>st s. set_sched (st_id st) (\<lambda>sc. sc\<lparr>sh_nextDeliver := due\<rparr>) s) batch s))"

end
