(* ===== verification/Export.thy ===== *)
theory Export imports Inbound begin

text \<open>
  The export half of Contract A (\<open>internal/sidecar\<close>): which edges are open and why not
  (\<open>edgeStateLocked\<close>, \<open>exportOpenLocked\<close>), what is published to the mod, the lineage annex, and
  the six obligations of \<open>onMigrateOut\<close>.
\<close>

section \<open>Edges\<close>

definition meLocked :: "sidecar \<Rightarrow> slot_info option" where
  "meLocked s =
     (let fill = (\<lambda>me. case handshaked s of
                    None \<Rightarrow> me
                  | Some m \<Rightarrow> me\<lparr>si_GameVersion := md_gameVersion m,
                                 si_SimulationSize := md_simSize m\<rparr>)
      in case Find (sd_status s) (sd_slot s) of
           Some me \<Rightarrow> Some (fill me)
         | None \<Rightarrow>
             if sd_slot s = 0 then None
             else Some (fill \<lparr>si_Slot = sd_slot s, si_Position = sd_position s,
                    si_PeerID = cf_PeerID (sd_cfg s), si_Live = False, si_ModConnected = False,
                    si_GameVersion = [], si_SimulationSize = f64_zero, si_ExportEdges = []\<rparr>))"

definition edgeStateLocked :: "bytes \<Rightarrow> sidecar \<Rightarrow> bool \<times> bytes \<times> f64" where
  "edgeStateLocked edge s =
     (if \<not> sd_relayReady s then (False, ''peer_unreachable'', f64_zero)
      else if sd_slot s = 0 then (False, ''no_peer'', f64_zero)
      else case map_of (sd_neighbours s) edge of
        Some n \<Rightarrow> (True, ''peer_live'', ne_SimulationSize n)
      | None \<Rightarrow>
          (case meLocked s of
             None \<Rightarrow> (False, ''no_peer'', f64_zero)
           | Some me \<Rightarrow>
               (case Walk (sd_status s) me edge of
                  (Some _, _) \<Rightarrow> (False, ''no_peer'', f64_zero)
                | (None, skipped) \<Rightarrow> (False, EdgeReason skipped, f64_zero))))"

definition computeEdgesLocked :: "sidecar \<Rightarrow> edge_state list" where
  "computeEdgesLocked s =
     (case handshaked s of
        None \<Rightarrow> []
      | Some m \<Rightarrow>
          map (\<lambda>edge. case edgeStateLocked edge s of (is_open, reason, sz) \<Rightarrow>
                 \<lparr>es_Edge = edge, es_Open = is_open, es_Reason = reason,
                  es_PeerSimulationSize = (if is_open then Some sz else None)\<rparr>) (md_exportEdges m))"

definition edge_state_eq :: "edge_state \<Rightarrow> edge_state \<Rightarrow> bool" where
  "edge_state_eq a b =
     (es_Edge a = es_Edge b \<and> es_Open a = es_Open b \<and> es_Reason a = es_Reason b \<and>
      (case (es_PeerSimulationSize a, es_PeerSimulationSize b) of
         (None, None) \<Rightarrow> True
       | (Some x, Some y) \<Rightarrow> f64_eq x y
       | _ \<Rightarrow> False))"

definition edgesEqual :: "edge_state list \<Rightarrow> edge_state list \<Rightarrow> bool" where
  "edgesEqual a b = (length a = length b \<and> list_all2 edge_state_eq a b)"

definition publishEdgesLocked :: "bool \<Rightarrow> sidecar \<Rightarrow> sidecar" where
  "publishEdgesLocked force s =
     (if handshaked s = None then s
      else (let edges = computeEdgesLocked s in
            if \<not> force \<and> edgesEqual edges (sd_lastEdges s) then s
            else sendModLocked (MF_edges (sd_edgeEpoch s + 1) edges)
                   (s\<lparr>sd_lastEdges := edges, sd_edgeEpoch := sd_edgeEpoch s + 1\<rparr>)))"

text \<open>The destination slot, or the code of the refusal.\<close>

definition exportOpenLocked :: "bytes \<Rightarrow> f64 \<Rightarrow> sidecar \<Rightarrow> bytes + int" where
  "exportOpenLocked edge simSize s =
     (case handshaked s of
        None \<Rightarrow> Inl ''EDGE_CLOSED''
      | Some m \<Rightarrow>
          if edge \<notin> set (md_exportEdges m) then Inl ''EDGE_CLOSED''
          else if \<not> sd_relayReady s then Inl ''NO_ROUTE''
          else if sd_slot s = 0 then Inl ''NO_ROUTE''
          else (case edgeStateLocked edge s of
                  (False, reason, _) \<Rightarrow>
                    Inl (if reason = ''sim_size_mismatch'' then ''SIM_SIZE_MISMATCH''
                         else if reason = ''peer_incompatible'' then ''PEER_INCOMPATIBLE''
                         else if reason = ''peer_unreachable'' then ''NO_ROUTE''
                         else ''EDGE_CLOSED'')
                | (True, _, _) \<Rightarrow>
                    (case map_of (sd_neighbours s) edge of
                       None \<Rightarrow> Inl ''EDGE_CLOSED''
                     | Some n \<Rightarrow>
                         if \<not> SameSize (ne_SimulationSize n) simSize then Inl ''SIM_SIZE_MISMATCH''
                         else Inr (ne_Slot n))))"

section \<open>The lineage annex\<close>

definition MaxParentBlobs :: nat where
  "MaxParentBlobs = 2"

definition annex_ref :: "bb8 \<Rightarrow> bytes \<Rightarrow> parent_blob \<Rightarrow> parent_ref option" where
  "annex_ref bb version p =
     (case pb_EntityID p of
        None \<Rightarrow> None
      | Some k \<Rightarrow>
          if k = 0 then None
          else if pb_Payload p = [] then
            Some \<lparr>pr_EntityID = k, pr_GenomeHash = [],
                  pr_GapReason = (if pb_BlobDroppedForSize p then ''blob_dropped_for_size''
                                  else ''parent_gone'')\<rparr>
          else (case bb_GenomeHash bb (pb_Payload p)
                       (if pb_GameVersion p = [] then version else pb_GameVersion p) of
                  None \<Rightarrow> Some \<lparr>pr_EntityID = k, pr_GenomeHash = [], pr_GapReason = ''blob_invalid''\<rparr>
                | Some h \<Rightarrow> Some \<lparr>pr_EntityID = k, pr_GenomeHash = h, pr_GapReason = []\<rparr>))"

definition buildAnnex :: "bb8 \<Rightarrow> migrate_out \<Rightarrow> bytes \<times> parent_ref list" where
  "buildAnnex bb out =
     (deref_or (bb_GenomeHash bb (mo_Payload out) (mo_GameVersion out)) [],
      List.map_filter (annex_ref bb (mo_GameVersion out)) (take MaxParentBlobs (mo_Parents out)))"

section \<open>An export\<close>

definition nackOut :: "bytes \<Rightarrow> int \<Rightarrow> bytes \<Rightarrow> int \<Rightarrow> sidecar \<Rightarrow> sidecar" where
  "nackOut k entityID code retryMs s =
     sendModLocked (MF_out_nack k entityID code
       (if ClassOfOutCode code = ''transient'' \<and> retryMs > 0 then Some retryMs else None)) s"

definition outbound_entry :: "bb8 \<Rightarrow> time \<Rightarrow> int \<Rightarrow> int \<Rightarrow> migrate_out \<Rightarrow> entry" where
  "outbound_entry bb now sourceSlot destSlot out =
     \<lparr>en_MigrationID = mo_MigrationID out, en_EntityID = deref_or (mo_EntityID out) 0,
      en_Kind = mo_Kind out, en_GameVersion = mo_GameVersion out, en_Payload = mo_Payload out,
      en_PayloadHash = bb_Hash bb (mo_Payload out), en_Edge = mo_ExitEdge out,
      en_Position = deref_or (mo_ExitPosition out) f64_zero,
      en_VelocityX = (case mo_Velocity out of Some v \<Rightarrow> ve_X v | None \<Rightarrow> f64_zero),
      en_VelocityY = (case mo_Velocity out of Some v \<Rightarrow> ve_Y v | None \<Rightarrow> f64_zero),
      en_Heading = deref_or (mo_Heading out) f64_zero,
      en_SimulationSize = deref_or (mo_SimulationSize out) f64_zero,
      en_SimTick = deref_or (mo_SimTick out) 0, en_SourcePeer = [], en_SourceSlot = sourceSlot,
      en_DestSlot = destSlot, en_GenomeHash = fst (buildAnnex bb out),
      en_Parents = snd (buildAnnex bb out), en_Species = fst (CarrySpecies (mo_Species out)),
      en_JournaledAt = unix_milli now\<rparr>"

text \<open>After the refusals: the journal write, the acknowledgement, and the first scheduling.\<close>

definition take_export :: "bb8 \<Rightarrow> time \<Rightarrow> time \<Rightarrow> int \<Rightarrow> migrate_out \<Rightarrow> sidecar \<Rightarrow> sidecar" where
  "take_export bb now later destSlot out s =
     (let k = mo_MigrationID out; entityID = deref_or (mo_EntityID out) 0 in
      case jr_create D_out (outbound_entry bb now (sd_slot s) destSlot out) s of
        (None, s1) \<Rightarrow> nackOut k entityID ''JOURNAL_ERROR'' 5000 s1
      | (Some st, s1) \<Rightarrow>
          (let s2 = sendModLocked (MF_out_ack k entityID (en_JournaledAt (st_Entry st)) False) s1
           in if hasPendingAckLocked s2 then s2 else tickOutbound now later k s2))"

definition onMigrateOut :: "bb8 \<Rightarrow> time \<Rightarrow> time \<Rightarrow> migrate_out \<Rightarrow> sidecar \<Rightarrow> sidecar" where
  "onMigrateOut bb now later out s =
     (let k = mo_MigrationID out; entityID = deref_or (mo_EntityID out) 0 in
      if MigrateOut_Validate out \<noteq> None then nackOut k entityID ''MALFORMED_MESSAGE'' 0 s
      else if mo_Kind out \<noteq> ''bibite'' then nackOut k entityID ''KIND_UNSUPPORTED'' 0 s
      else if \<not> ValidEdge (mo_ExitEdge out) then nackOut k entityID ''EDGE_CLOSED'' 0 s
      else if \<not> bb_Validate bb (mo_GameVersion out) (mo_Payload out)
      then nackOut k entityID ''INVALID_PAYLOAD'' 0 s
      else case get s k of
        Some st \<Rightarrow>
          if en_PayloadHash (st_Entry st) = bb_Hash bb (mo_Payload out)
          then sendModLocked (MF_out_ack k entityID (en_JournaledAt (st_Entry st)) False) s
          else nackOut k entityID ''DUPLICATE_MIGRATION_ID'' 0 s
      | None \<Rightarrow>
          (case exportOpenLocked (mo_ExitEdge out) (deref_or (mo_SimulationSize out) f64_zero) s of
             Inl code \<Rightarrow> nackOut k entityID code 15000 s
           | Inr destSlot \<Rightarrow>
               if count_pending D_out s \<ge> cf_InboundQueueMax (sd_cfg s)
               then nackOut k entityID ''JOURNAL_FULL'' 15000 s
               else take_export bb now later destSlot out s))"

end
