(* ===== verification/CustodyStore.thy ===== *)
theory CustodyStore imports Export JournalProps begin

text \<open>
  The contract between the custody scheduler and the journal: what an update of one entry does to
  what is read afterwards.  It is the locale \<open>custody_store\<close>, interpreted on the journal itself
  (\<open>jApply\<close>, with its file and its disk) and on the scheduler's view of it (\<open>jr_apply\<close>), so what
  the scheduler proves about its journal holds of the journal that writes the log.
\<close>

section \<open>The contract\<close>

definition updated :: "upd \<Rightarrow> state \<Rightarrow> state" where
  "updated u st = apply_status (status_record 0 [] u) st"

lemma apply_status_updated [simp]: "apply_status (status_record t k u) st = updated u st"
  by (simp add: updated_def apply_status_def status_record_def apply_handoff_def Let_def)

text \<open>May an export with this handoff be offered to a destination?\<close>

definition sendable :: "state option \<Rightarrow> bool" where
  "sendable o_st = (case o_st of None \<Rightarrow> True
                    | Some st \<Rightarrow> st_Handoff st = H_pending \<or> st_Handoff st = H_refused)"

lemma sendable_simps [simp]:
  "sendable None"
  "sendable (Some st) = (st_Handoff st = H_pending \<or> st_Handoff st = H_refused)"
  by (simp_all add: sendable_def)

lemma updated_handoff:
  "upd_Handoff u \<noteq> H_empty \<Longrightarrow> upd_Handoff u \<noteq> H_retired_held \<Longrightarrow> st_Handoff (updated u st) = upd_Handoff u"
  by (simp add: updated_def apply_handoff_def status_record_def)

lemma updated_sendable:
  assumes "upd_Handoff u \<noteq> H_pending" "upd_Handoff u \<noteq> H_refused" and "sendable (Some (updated u st))"
  shows "sendable (Some st)"
  using assms
  by (auto simp: updated_def apply_handoff_def status_record_def split: if_splits)

locale custody_store =
  fixes get :: "'s \<Rightarrow> bytes \<Rightarrow> state option"
    and update :: "bytes \<Rightarrow> upd \<Rightarrow> 's \<Rightarrow> bool \<times> 's"
  assumes update_done: "update k u s = (True, s') \<Longrightarrow>
      \<exists>st. get s k = Some st \<and> get s' = (get s)(k \<mapsto> updated u st)"
    and update_failed: "update k u s = (False, s') \<Longrightarrow> get s' = get s"
begin

lemma update_keeps:
  assumes "update k u s = (ok, s')" and "get s j = None"
  shows "get s' j = None"
  using assms update_done [of k u s s'] update_failed [of k u s s'] by (cases ok) auto

lemma update_other:
  assumes "update k u s = (ok, s')" and "j \<noteq> k"
  shows "get s' j = get s j"
  using assms update_done [of k u s s'] update_failed [of k u s s'] by (cases ok) auto

text \<open>An update that does not set the handoff to pending or refused makes nothing sendable.\<close>

lemma update_quiet:
  assumes "update k u s = (ok, s')" and "upd_Handoff u \<noteq> H_pending" "upd_Handoff u \<noteq> H_refused"
    and "sendable (get s' j)"
  shows "sendable (get s j)"
proof (cases ok)
  case True
  then obtain st where st: "get s k = Some st" "get s' = (get s)(k \<mapsto> updated u st)"
    using update_done [of k u s s'] assms(1) by auto
  with assms(4) updated_sendable [OF assms(2,3), of st] show ?thesis by (cases "j = k") auto
next
  case False
  with update_failed assms(1,4) show ?thesis by simp
qed

text \<open>Nor does one of an entry that was sendable.\<close>

lemma update_sendable:
  assumes "update k u s = (ok, s')" and "sendable (get s k)" and "sendable (get s' j)"
  shows "sendable (get s j)"
proof (cases "j = k")
  case False
  with update_other [OF assms(1)] assms(3) show ?thesis by simp
qed (use assms(2) in simp)

lemma update_sets:
  assumes "update k u s = (True, s')" and "upd_Handoff u = H_sent"
  shows "\<not> sendable (get s' k)"
  using update_done [OF assms(1)] assms(2) updated_handoff [of u] by auto

end

section \<open>The journal keeps the contract\<close>

lemma lookup_apply_status_rec:
  assumes "lookup m k = Some st"
  shows "lookup (apply_rec (status_record t k u) m) = (lookup m)(k \<mapsto> updated u st)"
proof -
  have ops: "rec_Op (status_record t k u) = op_status" "rec_MigrationID (status_record t k u) = k"
    "\<not> rec_Purge (status_record t k u)" by (simp_all add: status_record_def)
  show ?thesis using assms by (auto simp: apply_rec_def ops lookup_def)
qed

lemma append_rec_mem: "append_rec mar fate r j = (err, j') \<Longrightarrow> jn_mem j' = jn_mem j"
  by (auto simp: append_rec_def Let_def split: if_splits option.splits write_fate.splits)

interpretation journal_store:
  custody_store "\<lambda>j k. jGet k j"
    "\<lambda>k u j. (case jApply mar fate now k u j of (Inl _, j') \<Rightarrow> (False, j') | (Inr _, j') \<Rightarrow> (True, j'))"
  for mar fate now
proof unfold_locales
  fix k u s s'
  assume a: "(case jApply mar fate now k u s of (Inl _, j') \<Rightarrow> (False, j') | (Inr _, j') \<Rightarrow> (True, j')) = (True, s')"
  then obtain st j' where st: "lookup (jn_mem s) k = Some st"
    and app: "append_rec mar fate (status_record now k u) s = (None, j')"
    and s': "s' = apply_mem (status_record now k u) j'"
    by (auto simp: jApply_def Let_def split: if_splits option.splits prod.splits sum.splits)
  have "lookup (jn_mem s') = (lookup (jn_mem s))(k \<mapsto> updated u st)"
    using lookup_apply_status_rec [OF st] append_rec_mem [OF app] by (simp add: s' apply_mem_def)
  then show "\<exists>st. jGet k s = Some st \<and> (\<lambda>k. jGet k s') = (\<lambda>k. jGet k s)(k \<mapsto> updated u st)"
    using st by (auto simp: jGet_def fun_eq_iff)
next
  fix k u s s'
  assume "(case jApply mar fate now k u s of (Inl _, j') \<Rightarrow> (False, j') | (Inr _, j') \<Rightarrow> (True, j')) = (False, s')"
  then have "jn_mem s' = jn_mem s"
    by (auto simp: jApply_def Let_def split: if_splits option.splits prod.splits sum.splits
        dest: append_rec_mem)
  then show "(\<lambda>k. jGet k s') = (\<lambda>k. jGet k s)" by (simp add: jGet_def)
qed

definition jr_update :: "time \<Rightarrow> bytes \<Rightarrow> upd \<Rightarrow> sidecar \<Rightarrow> bool \<times> sidecar" where
  "jr_update now k u s = (case jr_apply now k u s of (r, s') \<Rightarrow> (r \<noteq> None, s'))"

lemma jr_apply_cases:
  assumes "jr_apply now k u s = (r, s')"
  shows "r = None \<and> sd_mem s' = sd_mem s \<or>
    (\<exists>st. get s k = Some st \<and> get s' = (get s)(k \<mapsto> updated u st) \<and> r = Some (updated u st))"
proof (cases "get s k")
  case None
  with assms show ?thesis by (simp add: jr_apply_def)
next
  case (Some st)
  note look = lookup_apply_status_rec [of "sd_mem s" k st "unix_milli now" u]
  have "get s' = lookup (sd_mem s')" for s' by (rule ext) (simp add: get_def)
  with assms Some look show ?thesis
    by (auto simp: jr_apply_def Let_def split: if_splits prod.splits)
qed

interpretation sidecar_store: custody_store get "jr_update now" for now
proof unfold_locales
  fix k u s s'
  assume "jr_update now k u s = (True, s')"
  then show "\<exists>st. get s k = Some st \<and> get s' = (get s)(k \<mapsto> updated u st)"
    using jr_apply_cases [of now k u s] by (fastforce simp: jr_update_def split: prod.splits)
next
  fix k u s s'
  assume "jr_update now k u s = (False, s')"
  then have "sd_mem s' = sd_mem s"
    using jr_apply_cases [of now k u s] by (fastforce simp: jr_update_def split: prod.splits)
  then show "get s' = get s" by (simp add: get_def fun_eq_iff)
qed

end
