(* ===== verification/CustodyRun.thy ===== *)
theory CustodyRun imports CustodyStore begin

text \<open>
  Runs of the custody scheduler: one step relation over all of its handlers, labelled with the
  refusals that were received, and the measure that never grows without one: the payload frames
  of a migration put on the wire, plus one while it may still be offered.
\<close>

section \<open>What a run counts\<close>

fun is_payload :: "bytes \<Rightarrow> relay_frame \<Rightarrow> bool" where
  "is_payload k (RF_payload p) = (mp_MigrationID p = k)"
| "is_payload k _ = False"

fun is_ack :: "bytes \<Rightarrow> relay_frame \<Rightarrow> bool" where
  "is_ack k (RF_ack a) = (ak_MigrationID a = k)"
| "is_ack k _ = False"

fun is_out_ack :: "bytes \<Rightarrow> mod_frame \<Rightarrow> bool" where
  "is_out_ack k (MF_out_ack j _ _ _) = (j = k)"
| "is_out_ack k _ = False"

definition payloads :: "bytes \<Rightarrow> sidecar \<Rightarrow> nat" where
  "payloads k s = length (filter (is_payload k) (sd_relayOut s))"

definition acks :: "bytes \<Rightarrow> sidecar \<Rightarrow> nat" where
  "acks k s = length (filter (is_ack k) (sd_relayOut s))"

definition out_acks :: "bytes \<Rightarrow> sidecar \<Rightarrow> nat" where
  "out_acks k s = length (filter (is_out_ack k) (sd_modOut s))"

definition potential :: "bytes \<Rightarrow> sidecar \<Rightarrow> nat" where
  "potential k s = payloads k s + (if sendable (get s k) then 1 else 0)"

text \<open>Under which identifier the entry of a key is stored; every key holds its own entry.\<close>

definition named :: "sidecar \<Rightarrow> bytes \<Rightarrow> bytes option" where
  "named s k = map_option st_id (get s k)"

definition keyed :: "sidecar \<Rightarrow> bool" where
  "keyed s \<longleftrightarrow> (\<forall>k i. named s k = Some i \<longrightarrow> i = k)"

text \<open>Every entry is one the journal can hold (\<open>st_wf\<close>): what its compaction relies on.\<close>

definition sound :: "sidecar \<Rightarrow> bool" where
  "sound s \<longleftrightarrow> (\<forall>k st. get s k = Some st \<longrightarrow> st_wf st)"

lemma keyedD: "keyed s \<Longrightarrow> get s k = Some st \<Longrightarrow> st_id st = k"
  by (auto simp: keyed_def named_def)

text \<open>No payload frame more than before and nothing newly sendable; and, for the handlers that
  acknowledge nothing, no acknowledgement either and no entry forgotten.\<close>

definition thrifty :: "sidecar \<Rightarrow> sidecar \<Rightarrow> bool" where
  "thrifty s s' \<longleftrightarrow> (\<forall>k. potential k s' \<le> potential k s) \<and> (keyed s \<longrightarrow> keyed s') \<and> (sound s \<longrightarrow> sound s')"

definition quiet :: "sidecar \<Rightarrow> sidecar \<Rightarrow> bool" where
  "quiet s s' \<longleftrightarrow> (\<forall>k. potential k s' \<le> potential k s \<and> acks k s' = acks k s \<and>
     out_acks k s' = out_acks k s \<and> named s' k = named s k) \<and> (sound s \<longrightarrow> sound s')"

lemma quiet_thrifty: "quiet s s' \<Longrightarrow> thrifty s s'"
  by (simp add: quiet_def thrifty_def keyed_def)

lemma thrifty_refl [simp, intro]: "thrifty s s"
  by (simp add: thrifty_def)

lemma thrifty_trans [trans]: "thrifty s s' \<Longrightarrow> thrifty s' s'' \<Longrightarrow> thrifty s s''"
  unfolding thrifty_def by (meson order_trans)

lemma thrifty_fold:
  assumes "\<And>x s. x \<in> set xs \<Longrightarrow> thrifty s (f x s)"
  shows "thrifty s (fold f xs s)"
  using assms by (induction xs arbitrary: s) (auto intro: thrifty_trans)

lemma quiet_refl [simp, intro]: "quiet s s"
  by (simp add: quiet_def)

lemma quiet_trans [trans]: "quiet s s' \<Longrightarrow> quiet s' s'' \<Longrightarrow> quiet s s''"
  unfolding quiet_def by (metis order_trans)

lemma quiet_fold:
  assumes "\<And>x s. x \<in> set xs \<Longrightarrow> quiet s (f x s)"
  shows "quiet s (fold f xs s)"
  using assms by (induction xs arbitrary: s) (auto intro: quiet_trans)

section \<open>Reads that a change of another field leaves alone\<close>

lemma get_other_fields [simp]:
  "get (s\<lparr>sd_disk := d\<rparr>) = get s" "get (s\<lparr>sd_admit := d\<rparr>) = get s" "get (s\<lparr>sd_socket := d\<rparr>) = get s"
  "get (s\<lparr>sd_sched := c\<rparr>) = get s" "get (s\<lparr>sd_relayOut := fs\<rparr>) = get s" "get (s\<lparr>sd_modOut := ms\<rparr>) = get s"
  "get (s\<lparr>sd_pace := p\<rparr>) = get s" "get (s\<lparr>sd_lostForwardTotal := n\<rparr>) = get s"
  "get (s\<lparr>sd_lateAckTotal := n\<rparr>) = get s" "get (s\<lparr>sd_receiptsRecorded := n\<rparr>) = get s"
  "get (s\<lparr>sd_lastEdges := es\<rparr>) = get s" "get (s\<lparr>sd_edgeEpoch := n\<rparr>) = get s"
  "get (s\<lparr>sd_lastPurge := t\<rparr>) = get s"
  by (simp_all add: get_def fun_eq_iff)

lemma get_sched [simp]: "get (set_sched k f s) = get s" "get (del_sched k s) = get s"
  by (simp_all add: set_sched_def del_sched_def)

lemma out_sched [simp]:
  "sd_relayOut (set_sched k f s) = sd_relayOut s" "sd_relayOut (del_sched k s) = sd_relayOut s"
  "sd_modOut (set_sched k f s) = sd_modOut s" "sd_modOut (del_sched k s) = sd_modOut s"
  "sd_cfg (set_sched k f s) = sd_cfg s" "sd_cfg (del_sched k s) = sd_cfg s"
  "sd_status (set_sched k f s) = sd_status s" "sd_slot (set_sched k f s) = sd_slot s"
  "sd_mem (set_sched k f s) = sd_mem s" "sd_mem (del_sched k s) = sd_mem s"
  by (simp_all add: set_sched_def del_sched_def)

lemma sendMod_simps [simp]:
  "get (sendModLocked f s) = get s" "sd_relayOut (sendModLocked f s) = sd_relayOut s"
  "sd_mem (sendModLocked f s) = sd_mem s" "sd_cfg (sendModLocked f s) = sd_cfg s"
  by (simp_all add: sendModLocked_def)

lemma quiet_same:
  "get s' = get s \<Longrightarrow> sd_relayOut s' = sd_relayOut s \<Longrightarrow> sd_modOut s' = sd_modOut s \<Longrightarrow> quiet s s'"
  by (simp add: quiet_def potential_def payloads_def acks_def out_acks_def named_def sound_def)

lemma thrifty_same: "get s' = get s \<Longrightarrow> sd_relayOut s' = sd_relayOut s \<Longrightarrow> thrifty s s'"
  by (simp add: thrifty_def potential_def payloads_def keyed_def named_def sound_def)

lemma jr_apply_frame:
  assumes "jr_apply now k u s = (r, s')"
  shows "sd_relayOut s' = sd_relayOut s" "sd_modOut s' = sd_modOut s" "sd_cfg s' = sd_cfg s"
    "sd_status s' = sd_status s" "sd_slot s' = sd_slot s" "sd_sched s' = sd_sched s"
    "sd_neighbours s' = sd_neighbours s" "sd_relayReady s' = sd_relayReady s"
  using assms by (auto simp: jr_apply_def Let_def split: option.splits prod.splits if_splits)

lemma jr_apply_update: "jr_apply now k u s = (r, s') \<Longrightarrow> jr_update now k u s = (r \<noteq> None, s')"
  by (simp add: jr_update_def)

lemma quiet_mono:
  assumes "sd_relayOut s' = sd_relayOut s" "sd_modOut s' = sd_modOut s"
    and "\<And>k. sendable (get s' k) \<Longrightarrow> sendable (get s k)" and "\<And>k. named s' k = named s k"
    and "sound s \<Longrightarrow> sound s'"
  shows "quiet s s'"
proof -
  have "potential k s' \<le> potential k s" for k
    using assms(1) assms(3) [of k] by (simp add: potential_def payloads_def)
  then show ?thesis using assms(1,2,4,5) by (simp add: quiet_def acks_def out_acks_def)
qed

lemma updated_id [simp]: "st_id (updated u st) = st_id st"
  by (simp add: updated_def del: apply_status_updated)

lemma jr_apply_dom:
  assumes "jr_apply now k u s = (r, s')"
  shows "named s' j = named s j"
proof -
  have "get s' = get s" if "sd_mem s' = sd_mem s" using that by (simp add: get_def fun_eq_iff)
  with jr_apply_cases [OF assms] show ?thesis by (auto simp: named_def)
qed

lemma updated_wf: "st_wf st \<Longrightarrow> upd_wf u \<Longrightarrow> st_wf (updated u st)"
  using apply_status_wf [of st u 0 "[]"] by simp

lemma jr_apply_sound:
  assumes "jr_apply now k u s = (r, s')" and "sound s \<Longrightarrow> upd_wf u" and "sound s"
  shows "sound s'"
proof -
  have "get s' = get s" if "sd_mem s' = sd_mem s" using that by (simp add: get_def fun_eq_iff)
  with jr_apply_cases [OF assms(1)] assms(2,3) updated_wf show ?thesis by (auto simp: sound_def split: if_splits)
qed

lemma no_upd_wf [simp]: "upd_wf no_upd"
  by (simp add: upd_wf_def no_upd_def)

lemma upd_wf_simps [simp]:
  "upd_wf (u\<lparr>upd_Status := x1\<rparr>) = upd_wf u" "upd_wf (u\<lparr>upd_Attempt := x2\<rparr>) = upd_wf u"
  "upd_wf (u\<lparr>upd_BounceBack := x3\<rparr>) = upd_wf u" "upd_wf (u\<lparr>upd_Acked := x4\<rparr>) = upd_wf u"
  "upd_wf (u\<lparr>upd_Duplicate := x5\<rparr>) = upd_wf u" "upd_wf (u\<lparr>upd_Note := x6\<rparr>) = upd_wf u"
  "upd_wf (u\<lparr>upd_CompletedAt := x7\<rparr>) = upd_wf u" "upd_wf (u\<lparr>upd_Handoff := x8\<rparr>) = upd_wf u"
  "upd_wf (u\<lparr>upd_DestSlot := x9\<rparr>) = upd_wf u" "upd_wf (u\<lparr>upd_RelaySessionID := xa\<rparr>) = upd_wf u"
  "upd_wf (u\<lparr>upd_SentAtMs := xb\<rparr>) = upd_wf u" "upd_wf (u\<lparr>upd_RerouteCount := xc\<rparr>) = upd_wf u"
  "upd_wf (u\<lparr>upd_RerouteFrom := xd\<rparr>) = upd_wf u" "upd_wf (u\<lparr>upd_RerouteProof := xe\<rparr>) = upd_wf u"
  "upd_wf (u\<lparr>upd_RerouteAtMs := xf\<rparr>) = upd_wf u" "upd_wf (u\<lparr>upd_RefusedSlots := xg\<rparr>) = upd_wf u"
  "upd_wf (u\<lparr>upd_RefusalDeadlineMs := xh\<rparr>) = upd_wf u"
  "upd_Direction u \<noteq> D_out \<Longrightarrow> upd_wf (u\<lparr>upd_Direction := D_in\<rparr>) = upd_wf u"
  by (simp_all add: upd_wf_def split: option.split)

lemma no_upd_fields [simp]: "upd_Direction no_upd = D_empty" "upd_Handoff no_upd = H_empty"
  by (simp_all add: no_upd_def)

lemma apply_quiet:
  assumes "jr_apply now k u s = (r, s')" and "upd_Handoff u \<noteq> H_pending" "upd_Handoff u \<noteq> H_refused"
    and "sound s \<Longrightarrow> upd_wf u"
  shows "quiet s s'"
  using jr_apply_frame(1,2) [OF assms(1)]
    sidecar_store.update_quiet [OF jr_apply_update [OF assms(1)] assms(2,3)] jr_apply_dom [OF assms(1)]
    jr_apply_sound [OF assms(1,4)]
  by (rule quiet_mono)

lemma apply_quiet_sendable:
  assumes "jr_apply now k u s = (r, s')" and "sendable (get s k)" and "upd_wf u"
  shows "quiet s s'"
  using jr_apply_frame(1,2) [OF assms(1)]
    sidecar_store.update_sendable [OF jr_apply_update [OF assms(1)] assms(2)] jr_apply_dom [OF assms(1)]
    jr_apply_sound [OF assms(1) assms(3)]
  by (rule quiet_mono)

text \<open>An update of entry \<open>k\<close> costs at most one, and only for \<open>k\<close>.\<close>

definition costs_one :: "bytes \<Rightarrow> sidecar \<Rightarrow> sidecar \<Rightarrow> bool" where
  "costs_one k s s' \<longleftrightarrow>
     (\<forall>j. potential j s' \<le> potential j s + (if j = k then 1 else 0) \<and> acks j s' = acks j s \<and>
        out_acks j s' = out_acks j s \<and> named s' j = named s j) \<and> (sound s \<longrightarrow> sound s')"

lemma apply_costs:
  assumes "jr_apply now k u s = (r, s')" and "upd_wf u"
  shows "costs_one k s s'"
  unfolding costs_one_def
  using jr_apply_frame(1,2) [OF assms(1)] sidecar_store.update_other [OF jr_apply_update [OF assms(1)]]
    jr_apply_dom [OF assms(1)] jr_apply_sound [OF assms(1) assms(2)]
  by (auto simp: potential_def payloads_def acks_def out_acks_def)

lemma quiet_costs: "quiet s s' \<Longrightarrow> costs_one k s s'"
  unfolding quiet_def costs_one_def by (metis trans_le_add1)

lemma costs_trans: "costs_one k s s' \<Longrightarrow> quiet s' s'' \<Longrightarrow> costs_one k s s''"
  unfolding quiet_def costs_one_def by (metis order_trans)

lemma quiet_costs_trans: "quiet s s' \<Longrightarrow> costs_one k s' s'' \<Longrightarrow> costs_one k s s''"
  unfolding quiet_def costs_one_def by (metis add_le_mono1 order_trans)

section \<open>The outbound handlers\<close>

lemma lose_quiet: "quiet s (loseLocked now st s)"
proof -
  obtain r s1 where a: "jr_apply now (st_id st)
      (no_upd\<lparr>upd_Status := S_done, upd_CompletedAt := Some (unix_milli now),
              upd_Handoff := H_lost, upd_Note := ''lost''\<rparr>) s = (r, s1)" by (metis surj_pair)
  have "quiet s s1" by (rule apply_quiet [OF a]) simp_all
  moreover have "quiet s1 ((del_sched (st_id st) s1)\<lparr>sd_lostForwardTotal := n\<rparr>)" for n
    by (rule quiet_same) simp_all
  ultimately show ?thesis unfolding loseLocked_def a by (auto split: option.split intro: quiet_trans)
qed

lemma bounce_quiet [simp, intro]: "quiet s (bounceLocked now why st s)"
proof -
  obtain r s1 where a: "jr_apply now (st_id st)
      (no_upd\<lparr>upd_Status := S_open, upd_Direction := D_in, upd_BounceBack := Some True,
              upd_Attempt := Some 0, upd_Handoff := H_done, upd_Note := ''bounced: '' @ why\<rparr>) s = (r, s1)"
    by (metis surj_pair)
  have "quiet s s1" by (rule apply_quiet [OF a]) simp_all
  moreover have "quiet s1 (del_sched (st_id st) s1)" by (rule quiet_same) simp_all
  ultimately show ?thesis unfolding bounceLocked_def a by (auto split: option.split intro: quiet_trans)
qed

lemma expired_quiet: "provenRefusalDeadlineExpiredLocked now st s = (b, s') \<Longrightarrow> quiet s s'"
  by (auto simp: provenRefusalDeadlineExpiredLocked_def split: if_splits)

text \<open>When the deadline has not passed nothing has happened.\<close>

lemma expired_False: "provenRefusalDeadlineExpiredLocked now st s = (False, s') \<Longrightarrow> s' = s"
  by (auto simp: provenRefusalDeadlineExpiredLocked_def split: if_splits)

lemma reroute_cases:
  assumes "rerouteLocked now pw st s = (b, s')"
  shows "s' = s \<and> \<not> b \<or> b \<and> (\<exists>t why. s' = bounceLocked t why st s) \<or>
    \<not> CustodyMayHaveMoved (st_Handoff st) \<and>
    (\<exists>dest r. dest \<noteq> 0 \<and> next_destination st pw s = dest \<and>
       jr_apply now (st_id st) (reroute_upd now dest pw st) s = (r, s') \<and> b = (r \<noteq> None))"
  using assms
  by (auto simp: rerouteLocked_def Let_def provenRefusalDeadlineExpiredLocked_def
      split: if_splits option.splits prod.splits)

lemma reroute_upd_wf [simp]: "upd_wf (reroute_upd now d pw st)"
  by (simp add: reroute_upd_def)

lemma reroute_quiet:
  assumes "rerouteLocked now pw st s = (b, s')" and "sendable (get s (st_id st))"
  shows "quiet s s'"
  using reroute_cases [OF assms(1)] apply_quiet_sendable [OF _ assms(2)] by auto

lemma reroute_costs:
  assumes "rerouteLocked now pw st s = (b, s')"
  shows "costs_one (st_id st) s s'"
  using reroute_cases [OF assms] apply_costs quiet_costs by auto

lemma reroute_clearing_quiet:
  assumes "reroute_clearing now pw st s = (b, s')" and "sendable (get s (st_id st))"
  shows "quiet s s'"
proof -
  obtain b1 s1 where r: "rerouteLocked now pw st s = (b1, s1)" by (metis surj_pair)
  have "quiet s s1" by (rule reroute_quiet [OF r assms(2)])
  moreover have "quiet s1 (set_sched k f s1)" for k f by (rule quiet_same) simp_all
  ultimately show ?thesis
    using assms(1) by (cases b1) (auto simp: reroute_clearing_def r intro: quiet_trans)
qed

lemma reroute_clearing_costs:
  assumes "reroute_clearing now pw st s = (b, s')"
  shows "costs_one (st_id st) s s'"
proof -
  obtain b1 s1 where r: "rerouteLocked now pw st s = (b1, s1)" by (metis surj_pair)
  have "costs_one (st_id st) s s1" by (rule reroute_costs [OF r])
  moreover have "quiet s1 (set_sched k f s1)" for k f by (rule quiet_same) simp_all
  ultimately show ?thesis
    using assms by (cases b1) (auto simp: reroute_clearing_def r intro: costs_trans)
qed

lemma pace_quiet: "pace_admits s = (b, s') \<Longrightarrow> get s' = get s \<and> sd_relayOut s' = sd_relayOut s \<and>
    sd_modOut s' = sd_modOut s \<and> sd_cfg s' = sd_cfg s \<and> sd_mem s' = sd_mem s"
  by (auto simp: pace_admits_def split: prod.splits)

lemma prepare_quiet: "prepareRelayFrameLocked s = (b, s') \<Longrightarrow> get s' = get s \<and>
    sd_relayOut s' = sd_relayOut s \<and> sd_modOut s' = sd_modOut s \<and> sd_cfg s' = sd_cfg s \<and> sd_mem s' = sd_mem s"
  using pace_quiet by (auto simp: prepareRelayFrameLocked_def split: if_splits)

lemma enqueue_cases:
  assumes "sendPreparedRelayFrameLocked f s = (b, s')"
  shows "get s' = get s \<and> sd_mem s' = sd_mem s \<and> sd_cfg s' = sd_cfg s \<and> sd_modOut s' = sd_modOut s \<and>
    sd_relayOut s' = sd_relayOut s @ (if b then [f] else [])"
  using assms by (auto simp: sendPreparedRelayFrameLocked_def split: prod.splits if_splits)

text \<open>The one place where a payload goes out: the durable transition to \<open>sent\<close> pays for it.\<close>

definition commit_forward :: "time \<Rightarrow> state \<Rightarrow> sidecar \<Rightarrow> bool \<times> sidecar" where
  "commit_forward t st s =
     (case jr_apply t (st_id st) (sent_transition t st s) s of
        (None, s1) \<Rightarrow> (False, s1)
      | (Some _, s1) \<Rightarrow> sendPreparedRelayFrameLocked (RF_payload (payload_of (sd_cfg s1) st)) s1)"

lemma payload_id [simp]: "mp_MigrationID (payload_of c st) = st_id st"
  by (simp add: payload_of_def Let_def)

lemma sent_transition_fields [simp]:
  "upd_Handoff (sent_transition t st s) = H_sent" "upd_wf (sent_transition t st s)"
  by (simp_all add: sent_transition_def)

lemma commit_quiet:
  assumes "sendable (get s (st_id st))" and "commit_forward t st s = (b, s')"
  shows "quiet s s'"
proof -
  obtain r s1 where a: "jr_apply t (st_id st) (sent_transition t st s) s = (r, s1)" by (metis surj_pair)
  show ?thesis
  proof (cases r)
    case None
    have "quiet s s1" by (rule apply_quiet [OF a]) simp_all
    with None assms(2) show ?thesis by (simp add: commit_forward_def a)
  next
    case (Some st')
    have out: "sendPreparedRelayFrameLocked (RF_payload (payload_of (sd_cfg s1) st)) s1 = (b, s')"
      using assms(2) Some by (simp add: commit_forward_def a)
    have upd: "jr_update t (st_id st) (sent_transition t st s) s = (True, s1)"
      using jr_apply_update [OF a] Some by simp
    have not_now: "\<not> sendable (get s1 (st_id st))" by (rule sidecar_store.update_sets [OF upd]) simp
    have other: "get s1 j = get s j" if "j \<noteq> st_id st" for j
      by (rule sidecar_store.update_other [OF upd that])
    note fin = enqueue_cases [OF out] and frame = jr_apply_frame(1) [OF a]
    have "potential k s' \<le> potential k s" for k
      using fin frame assms(1) not_now other by (cases "k = st_id st") (auto simp: potential_def payloads_def)
    moreover have "acks k s' = acks k s \<and> out_acks k s' = out_acks k s" for k
      using fin frame jr_apply_frame(2) [OF a] by (simp add: acks_def out_acks_def)
    moreover have "named s' k = named s k" for k
      using fin jr_apply_dom [OF a] by (simp add: named_def)
    moreover have "sound s'" if "sound s"
      using fin jr_apply_sound [OF a _ that] by (simp add: sound_def)
    ultimately show ?thesis by (simp add: quiet_def)
  qed
qed

text \<open>A forward either did nothing but consume pace, or bounced an expired chain, or committed.\<close>

lemma forward_cases:
  assumes "forwardLocked now later st s = (b, s')"
  shows "\<not> b \<and> get s' = get s \<and> sd_relayOut s' = sd_relayOut s \<and> sd_modOut s' = sd_modOut s \<and> sd_mem s' = sd_mem s \<or>
    (st_Handoff st = H_pending \<or> st_Handoff st = H_refused) \<and>
    (\<exists>s2. get s2 = get s \<and> sd_relayOut s2 = sd_relayOut s \<and> sd_modOut s2 = sd_modOut s \<and> sd_mem s2 = sd_mem s \<and>
       (\<not> b \<and> s' = bounceLocked later ''refusal deadline'' st s2 \<or>
        (\<exists>t. commit_forward t st s2 = (b, s'))))"
proof -
  obtain b1 s1 where p1: "pace_admits s = (b1, s1)" by (metis surj_pair)
  obtain b2 s2 where p2: "prepareRelayFrameLocked s1 = (b2, s2)" by (metis surj_pair)
  note q = pace_quiet [OF p1] prepare_quiet [OF p2]
  have q2: "get s2 = get s" "sd_relayOut s2 = sd_relayOut s" "sd_modOut s2 = sd_modOut s" "sd_mem s2 = sd_mem s"
    using q by simp_all
  show ?thesis
  proof (cases "b1 \<and> b2 \<and> (st_Handoff st = H_pending \<or> st_Handoff st = H_refused)")
    case False
    then show ?thesis using assms q
      by (cases b1; cases b2) (auto simp: forwardLocked_def p1 p2 split: if_splits)
  next
    case ok: True
    have "\<not> b \<and> s' = bounceLocked later ''refusal deadline'' st s2 \<or>
        (\<exists>t. commit_forward t st s2 = (b, s'))"
    proof (cases "st_RefusalDeadlineMs st = 0")
      case True
      have "commit_forward now st s2 = (b, s')"
        using assms ok True by (auto simp: forwardLocked_def p1 p2 Let_def commit_forward_def)
      then show ?thesis by blast
    next
      case bounded: False
      show ?thesis
        using assms ok bounded expired_False [of later st s2]
        by (auto simp: forwardLocked_def p1 p2 Let_def commit_forward_def
            provenRefusalDeadlineExpiredLocked_def split: if_splits)
    qed
    with ok q2 show ?thesis by blast
  qed
qed

lemma forward_quiet:
  assumes "get s (st_id st) = Some st" and "forwardLocked now later st s = (b, s')"
  shows "quiet s s'"
  using forward_cases [OF assms(2)]
proof (elim disjE conjE exE)
  fix s2 assume s2: "get s2 = get s" "sd_relayOut s2 = sd_relayOut s" "sd_modOut s2 = sd_modOut s"
    and s': "s' = bounceLocked later ''refusal deadline'' st s2"
  show "quiet s s'" unfolding s' using quiet_same [OF s2] bounce_quiet by (rule quiet_trans)
next
  fix s2 t assume h: "st_Handoff st = H_pending"
    and s2: "get s2 = get s" "sd_relayOut s2 = sd_relayOut s" "sd_modOut s2 = sd_modOut s" and c: "commit_forward t st s2 = (b, s')"
  from commit_quiet [OF _ c] assms(1) h s2(1) quiet_same [OF s2] show "quiet s s'"
    by (auto intro: quiet_trans)
next
  fix s2 t assume h: "st_Handoff st = H_refused"
    and s2: "get s2 = get s" "sd_relayOut s2 = sd_relayOut s" "sd_modOut s2 = sd_modOut s" and c: "commit_forward t st s2 = (b, s')"
  from commit_quiet [OF _ c] assms(1) h s2(1) quiet_same [OF s2] show "quiet s s'"
    by (auto intro: quiet_trans)
next
  assume "get s' = get s" "sd_relayOut s' = sd_relayOut s" "sd_modOut s' = sd_modOut s"
  then show "quiet s s'" by (rule quiet_same)
qed (auto intro: quiet_trans [OF quiet_same bounce_quiet])

end
