(* ===== verification/CustodySteps.thy ===== *)
theory CustodySteps imports CustodyRun begin

text \<open>
  The handlers of the scheduler, one by one: which of them are quiet, which may acknowledge, and
  the only one that may make a migration sendable again.  Then the step relation over all of them.
\<close>

section \<open>The tick over the exports\<close>

lemma set_sched_quiet [intro]: "quiet s (set_sched k f s)"
  by (rule quiet_same) simp_all

lemma del_sched_quiet [intro]: "quiet s (del_sched k s)"
  by (rule quiet_same) simp_all

lemma offer_quiet:
  assumes "get s (st_id st) = Some st"
  shows "quiet s (offer now later st s)"
proof -
  obtain b s1 where f: "forwardLocked now later st s = (b, s1)" by (metis surj_pair)
  have "quiet s s1" by (rule forward_quiet [OF assms f])
  then show ?thesis by (auto simp: offer_def f intro: quiet_trans)
qed

lemma offer_live_quiet:
  assumes "get s (st_id st) = Some st"
  shows "quiet s (offer_live now later st s)"
  unfolding offer_live_def using assms by (intro quiet_trans [OF set_sched_quiet offer_quiet]) simp

lemma wait_quiet: "quiet s (wait_or_bounce now why st s)"
  by (auto simp: wait_or_bounce_def Let_def)

lemma tick_pending_quiet:
  assumes "get s (st_id st) = Some st" and "st_Handoff st = H_pending"
  shows "quiet s (tick_pending now later st s)"
proof -
  obtain b1 s1 where e: "provenRefusalDeadlineExpiredLocked now st s = (b1, s1)" by (metis surj_pair)
  show ?thesis
  proof (cases b1)
    case True
    then show ?thesis using expired_quiet [OF e] by (simp add: tick_pending_def e)
  next
    case False
    then have s1: "s1 = s" using expired_False e by simp
    obtain b2 s2 where r: "reroute_clearing now ''never_sent'' st s = (b2, s2)" by (metis surj_pair)
    have "quiet s s2" by (rule reroute_clearing_quiet [OF r]) (simp add: assms)
    then show ?thesis using False offer_live_quiet [OF assms(1)] wait_quiet
      by (auto simp: tick_pending_def e s1 r split: bool.splits intro: quiet_trans)
  qed
qed

lemma reroute_False:
  assumes "reroute_clearing now pw st s = (False, s')"
  shows "get s' = get s"
proof -
  have "rerouteLocked now pw st s = (False, s')"
    using assms by (auto simp: reroute_clearing_def split: prod.splits bool.splits)
  from reroute_cases [OF this] show ?thesis
    by (auto dest!: jr_apply_cases simp: get_def fun_eq_iff)
qed

lemma retry_refused_quiet:
  assumes "get s (st_id st) = Some st"
  shows "quiet s (if now > sh_bounceAt (schedFor (st_id st) s) then bounceLocked now why st s
     else if destLiveLocked (en_DestSlot (st_Entry st)) s then offer now later st s else s)"
  using assms by (simp add: offer_quiet)

lemma tick_refused_quiet:
  assumes "get s (st_id st) = Some st" and "st_Handoff st = H_refused"
  shows "quiet s (tick_refused now later st s)"
proof -
  define why where "why = (if st_RerouteProof st = [] then ''peer_refused'' else st_RerouteProof st)"
  obtain b s1 where r: "reroute_clearing now why st s = (b, s1)" by (metis surj_pair)
  have q: "quiet s s1" by (rule reroute_clearing_quiet [OF r]) (simp add: assms)
  show ?thesis
  proof (cases "st_RefusalDeadlineMs st \<noteq> 0 \<or> why \<noteq> ''peer_refused'' \<or> b")
    case True
    have "reroute_clearing now ''peer_refused'' st s = (b, s1)" if "why = ''peer_refused''"
      using r that by simp
    with True show ?thesis using q offer_live_quiet [OF assms(1)] wait_quiet
      by (cases b) (auto simp: tick_refused_def why_def [symmetric] r Let_def intro: quiet_trans)
  next
    case False
    let ?s2 = "if sh_bounceAt (schedFor (st_id st) s1) = 0
      then set_sched (st_id st) (\<lambda>sc. sc\<lparr>sh_bounceAt := now + cf_BounceTimeout (sd_cfg s1)\<rparr>) s1 else s1"
    have w: "why = ''peer_refused''" and r: "reroute_clearing now ''peer_refused'' st s = (False, s1)"
      using False r by auto
    have "get ?s2 (st_id st) = Some st" using reroute_False [OF r] assms(1) by simp
    from retry_refused_quiet [OF this] have "quiet ?s2 (tick_refused now later st s)"
      using False by (simp add: tick_refused_def why_def [symmetric] w r Let_def)
    moreover have "quiet s1 ?s2" by auto
    ultimately show ?thesis using q by (blast intro: quiet_trans)
  qed
qed

lemma tickOutbound_quiet:
  assumes "keyed s"
  shows "quiet s (tickOutbound now later k s)"
proof (cases "get s k")
  case (Some st)
  with keyedD [OF assms Some] have "get s (st_id st) = Some st" by simp
  with Some show ?thesis
    by (auto simp: tickOutbound_def lose_quiet tick_pending_quiet tick_refused_quiet split: handoff.split)
qed (simp add: tickOutbound_def)

section \<open>Deliveries, acknowledgements and the tick\<close>

text \<open>A handler that changes no handoff and only adds acknowledgements or mod frames.\<close>

lemma thrifty_send:
  "get s' = get s \<Longrightarrow> filter (is_payload k) fs = [] \<Longrightarrow> sd_relayOut s' = sd_relayOut s @ fs \<Longrightarrow>
     potential k s' = potential k s"
  by (simp add: potential_def payloads_def)

lemma quiet_mod_in: "quiet s (sendModLocked (deliver_frame c st n) s)"
  by (simp add: sendModLocked_def quiet_def potential_def payloads_def acks_def out_acks_def named_def
      sound_def deliver_frame_def Let_def)

lemma deliver_quiet: "quiet s (deliverLocked now st s)"
proof -
  obtain r s1 where a: "jr_apply now (st_id st)
      (no_upd\<lparr>upd_Status := S_in_flight, upd_Attempt := Some (st_Attempt st + 1)\<rparr>) s = (r, s1)"
    by (metis surj_pair)
  have "quiet s s1" by (rule apply_quiet [OF a]) simp_all
  moreover have "quiet s1 (set_sched k f (sendModLocked (deliver_frame c st' n) (s1\<lparr>sd_pace := p\<rparr>)))" for k f c st' n p
    by (rule quiet_trans [OF quiet_same quiet_trans [OF quiet_mod_in set_sched_quiet]]) simp_all
  ultimately show ?thesis unfolding deliverLocked_def a Let_def
    by (auto split: option.split intro: quiet_trans)
qed

lemma sendRelay_cases:
  assumes "sendRelayLocked f s = (b, s')"
  shows "get s' = get s \<and> sd_mem s' = sd_mem s \<and> sd_modOut s' = sd_modOut s \<and>
    sd_relayOut s' = sd_relayOut s @ (if b then [f] else [])"
proof -
  obtain b1 s1 where p: "prepareRelayFrameLocked s = (b1, s1)" by (metis surj_pair)
  show ?thesis using assms prepare_quiet [OF p] enqueue_cases [of f s1 b s']
    by (cases b1) (auto simp: sendRelayLocked_def p)
qed

lemma thrifty_relay:
  assumes "sendRelayLocked f s = (b, s')" and "\<And>k. \<not> is_payload k f"
  shows "thrifty s s'"
  using sendRelay_cases [OF assms(1)] assms(2)
  by (simp add: thrifty_def potential_def payloads_def keyed_def named_def sound_def)

lemma ack_thrifty: "thrifty s (ackUpstreamLocked now st s)"
proof -
  obtain b s1 where r: "sendRelayLocked (RF_ack (upstream_ack now st s)) s = (b, s1)" by (metis surj_pair)
  obtain q s2 where a: "jr_apply now (st_id st) (no_upd\<lparr>upd_Acked := Some True\<rparr>) s1 = (q, s2)"
    by (metis surj_pair)
  have "thrifty s s1" by (rule thrifty_relay [OF r]) simp
  moreover have "thrifty s1 s2" by (rule quiet_thrifty, rule apply_quiet [OF a]) simp_all
  ultimately show ?thesis
    by (cases b) (auto simp: ackUpstreamLocked_def r a intro: thrifty_trans)
qed

lemma tickInbound_thrifty: "thrifty s (tickInbound now st s)"
  unfolding tickInbound_def Let_def
  by (auto split: option.split intro: quiet_thrifty deliver_quiet thrifty_trans [OF quiet_thrifty ack_thrifty])

lemma thrifty_keyed: "thrifty s s' \<Longrightarrow> keyed s \<Longrightarrow> keyed s'"
  by (simp add: thrifty_def)

lemma fold_thrifty:
  assumes "\<And>x s. keyed s \<Longrightarrow> thrifty s (f x s)" and "keyed s"
  shows "thrifty s (fold f xs s)"
  using assms(2)
proof (induction xs arbitrary: s)
  case (Cons x xs)
  from assms(1) [OF Cons.prems] Cons.IH [OF thrifty_keyed [OF assms(1) [OF Cons.prems] Cons.prems]]
  show ?case by (auto intro: thrifty_trans)
qed simp

lemma tick_entries_thrifty:
  assumes "keyed s"
  shows "thrifty s (tick_entries now later s)"
proof -
  have one: "thrifty s (tick_one now later p st s)" if "keyed s" for p st s
    using that tickInbound_thrifty quiet_thrifty [OF tickOutbound_quiet]
    by (auto simp: tick_one_def split: direction.split)
  let ?s1 = "drain_acks now (jr_list s) s"
  have a: "thrifty s ?s1"
    unfolding drain_acks_def by (rule fold_thrifty [OF _ assms]) (simp add: tickInbound_thrifty)
  have "thrifty ?s1 (tick_entries now later s)"
    unfolding tick_entries_def Let_def by (rule fold_thrifty [OF one thrifty_keyed [OF a assms]])
  with a show ?thesis by (rule thrifty_trans)
qed

text \<open>A purge forgets exactly the tombstones it names, each of them finished longer than the retention
  ago, and puts nothing on a wire.\<close>

lemma lookup_purge_rec: "lookup (apply_rec (purge_record now k) m) = (lookup m)(k := None)"
  by (auto simp: apply_rec_def purge_record_def zero_rec_def lookup_def delete_conv' fun_eq_iff split: option.split)

lemma purge_entries_effect:
  assumes "purge_entries now cutoff sts s = (ks, s')"
  shows "get s' = (\<lambda>j. if j \<in> set ks then None else get s j) \<and>
    sd_relayOut s' = sd_relayOut s \<and> sd_modOut s' = sd_modOut s \<and>
    (\<forall>k \<in> set ks. \<exists>st \<in> set sts. st_id st = k \<and> purge_candidate cutoff st)"
  using assms
proof (induction sts arbitrary: s ks s')
  case (Cons st sts)
  obtain ok rest where d: "pop (sd_disk s) = (ok, rest)" by fastforce
  let ?s1 = "s\<lparr>sd_disk := rest, sd_mem := apply_rec (purge_record now (st_id st)) (sd_mem s)\<rparr>"
  have g: "get ?s1 = (get s)(st_id st := None)" by (simp add: get_def lookup_purge_rec fun_eq_iff)
  show ?case
  proof (cases "purge_candidate cutoff st")
    case cand: True
    show ?thesis
    proof (cases ok)
      case True
      obtain ks1 s1 where r: "purge_entries now cutoff sts ?s1 = (ks1, s1)" by fastforce
      then have "ks = st_id st # ks1" "s' = s1" using Cons.prems cand True d by simp_all
      with Cons.IH [OF r] g cand show ?thesis by (fastforce simp: fun_eq_iff)
    qed (use Cons.prems cand d in \<open>auto simp: get_def\<close>)
  next
    case False
    with Cons.prems Cons.IH [of s ks s'] show ?thesis by auto
  qed
qed simp

lemma tick_purge_effect:
  assumes "tick_purge now s = (ks, s')"
  shows "get s' = (\<lambda>j. if j \<in> set ks then None else get s j)" "sd_relayOut s' = sd_relayOut s" "sd_modOut s' = sd_modOut s"
    "\<forall>k \<in> set ks. \<exists>st \<in> set (jr_list s). st_id st = k \<and>
       purge_candidate (unix_milli (now - cf_ExportRetention (sd_cfg s))) st"
  using assms purge_entries_effect [of now _ "jr_list s" "s\<lparr>sd_lastPurge := now\<rparr>" ks s']
  by (auto simp: tick_purge_def split: if_splits)

lemma tick_out [simp]:
  "sd_relayOut (tick now later s) = sd_relayOut (tick_entries now later s)"
  "sd_modOut (tick now later s) = sd_modOut (tick_entries now later s)"
  using tick_purge_effect(2,3) [OF prod.collapse [symmetric]] by (simp_all add: tick_def)

lemma tick_counts:
  "payloads k (tick now later s) = payloads k (tick_entries now later s)"
  "acks k (tick now later s) = acks k (tick_entries now later s)"
  by (simp_all add: payloads_def acks_def)

text \<open>What a tick costs: an entry that it purges may be offered again if its identifier comes back.\<close>

definition costs_purged :: "bytes list \<Rightarrow> sidecar \<Rightarrow> sidecar \<Rightarrow> bool" where
  "costs_purged ks s s' = ((\<forall>k. potential k s' \<le> potential k s + (if k \<in> set ks then 1 else 0)) \<and>
     (keyed s \<longrightarrow> keyed s') \<and> (sound s \<longrightarrow> sound s'))"

lemma tick_costs:
  assumes "keyed s"
  shows "costs_purged (purged_in_tick now later s) s (tick now later s)"
proof -
  let ?s1 = "tick_entries now later s"
  obtain ks s2 where p: "tick_purge now ?s1 = (ks, s2)" by fastforce
  note e = tick_purge_effect [OF p]
  have t: "tick now later s = s2" "purged_in_tick now later s = ks" by (simp_all add: tick_def purged_in_tick_def p)
  have "potential k s2 \<le> potential k ?s1 + (if k \<in> set ks then 1 else 0)" for k
    by (simp add: potential_def payloads_def e(1,2))
  moreover have "keyed ?s1 \<longrightarrow> keyed s2" "sound ?s1 \<longrightarrow> sound s2"
    by (simp_all add: keyed_def sound_def named_def e(1))
  ultimately show ?thesis
    using tick_entries_thrifty [OF assms, of now later] assms
    unfolding costs_purged_def thrifty_def t by (meson add_le_mono1 order_trans)
qed

lemma purged_is_old:
  assumes "k \<in> set (purged_in_tick now later s)"
  shows "\<exists>st \<in> set (jr_list (tick_entries now later s)). st_id st = k \<and> st_Status st = S_done \<and> \<not> AwaitsUpstreamAck st \<and>
    st_CompletedAt st \<le> unix_milli (now - cf_ExportRetention (sd_cfg (tick_entries now later s)))"
  using assms tick_purge_effect(4) [OF prod.collapse [symmetric], of now "tick_entries now later s"]
  by (fastforce simp: purged_in_tick_def purge_candidate_def)

section \<open>Arrivals and exports\<close>

lemma lookup_apply_create:
  "lookup (apply_rec (create_record dir e b) m) =
     (lookup m)(en_MigrationID e \<mapsto> created_state (create_record dir e b) e (Suc (jm_seq m)))"
  by (auto simp: apply_rec_def create_record_def lookup_def Let_def zero_rec_def)

lemma jr_create_cases:
  assumes "jr_create dir e s = (r, s')"
  shows "r = None \<and> sd_mem s' = sd_mem s \<or>
    (get s (en_MigrationID e) = None \<and> fst (pop (sd_disk s)) \<and>
     (\<exists>n. r = Some (created_state (create_record dir e False) e n) \<and>
       get s' = (get s)(en_MigrationID e \<mapsto> created_state (create_record dir e False) e n)))"
proof (cases "get s (en_MigrationID e)")
  case (Some st)
  with assms show ?thesis by (simp add: jr_create_def)
next
  case None
  note look = lookup_apply_create [of dir e False "sd_mem s"]
  have "get s' = lookup (sd_mem s')" for s' by (rule ext) (simp add: get_def)
  with assms None look show ?thesis
    by (auto simp: jr_create_def Let_def split: if_splits prod.splits)
qed

lemma jr_create_frame:
  assumes "jr_create dir e s = (r, s')"
  shows "sd_relayOut s' = sd_relayOut s" "sd_modOut s' = sd_modOut s" "sd_cfg s' = sd_cfg s"
    "sd_mod s' = sd_mod s" "sd_pace s' = sd_pace s"
  using assms by (auto simp: jr_create_def Let_def split: option.splits prod.splits if_splits)

lemma created_id [simp]: "st_id (created_state r e n) = en_MigrationID e"
  by (simp add: created_state_def)

text \<open>A fresh entry was sendable before: an identifier nobody holds is one that may be taken.\<close>

lemma create_thrifty:
  assumes "jr_create dir e s = (r, s')" and "dir \<in> {D_out, D_in}"
  shows "thrifty s s'"
proof -
  have same: "get s' = get s" if "sd_mem s' = sd_mem s" using that by (simp add: get_def fun_eq_iff)
  have "potential k s' \<le> potential k s" for k
    using jr_create_cases [OF assms(1)] jr_create_frame(1) [OF assms(1)] same
    by (cases "k = en_MigrationID e") (auto simp: potential_def payloads_def)
  moreover have "keyed s'" if "keyed s"
    using jr_create_cases [OF assms(1)] same that by (auto simp: keyed_def named_def split: if_splits)
  moreover have "sound s'" if "sound s"
    using jr_create_cases [OF assms(1)] same that assms(2)
    by (auto simp: sound_def create_record_def zero_rec_def split: if_splits)
  ultimately show ?thesis by (simp add: thrifty_def)
qed

lemma thrifty_mod [intro]: "thrifty s (sendModLocked f s)"
  by (rule thrifty_same) simp_all

lemma sched_thrifty [intro]: "thrifty s (set_sched k f s)" "thrifty s (del_sched k s)"
  by (simp_all add: quiet_thrifty set_sched_quiet del_sched_quiet)

lemma nackOut_thrifty [intro]: "thrifty s (nackOut k e code ms s)"
  by (auto simp: nackOut_def)

lemma thrifty_reply: "(\<And>k. \<not> is_payload k f) \<Longrightarrow> thrifty s (snd (sendRelayLocked f s))"
  by (rule thrifty_relay [OF prod.collapse [symmetric]])

lemma nackUpstream_thrifty [intro]: "thrifty s (nackUpstreamAfter k d code ms s)"
  by (simp add: nackUpstreamAfter_def thrifty_reply)

lemma ackNow_thrifty [intro]: "thrifty s (ackUpstreamNow now k d e dup s)"
  by (simp add: ackUpstreamNow_def thrifty_reply)

lemma onMigrationPayload_thrifty: "thrifty s (onMigrationPayload bb now adm h d s)"
proof -
  have take: "thrifty s (take_custody bb now adm p s)" for p
  proof -
    obtain r s1 where c: "jr_create D_in (inbound_entry bb now p) s = (r, s1)" by (metis surj_pair)
    have t: "thrifty s s1" using create_thrifty [OF c] by simp
    have "thrifty s (nackUpstreamAfter k d code ms s1)" "thrifty s (deliverLocked now st s1)" for k d code ms st
      using t thrifty_trans quiet_thrifty [OF deliver_quiet] by blast+
    with t show ?thesis by (auto simp: take_custody_def Let_def c split: option.split)
  qed
  show ?thesis by (auto simp: onMigrationPayload_def take split: option.split)
qed

lemma onMigrateInAck_thrifty: "thrifty s (onMigrateInAck now a s)"
proof -
  obtain r s1 where c: "jr_apply now (ma_MigrationID a)
      (no_upd\<lparr>upd_Status := S_done, upd_Duplicate := ma_Duplicate a,
              upd_CompletedAt := Some (unix_milli now)\<rparr>) s = (r, s1)" by (metis surj_pair)
  have "thrifty s s1" by (rule quiet_thrifty, rule apply_quiet [OF c]) simp_all
  then have "thrifty s (del_sched k s1)" "thrifty s (ackUpstreamLocked now st (del_sched k s1))" for k st
    using thrifty_trans sched_thrifty ack_thrifty by meson+
  with \<open>thrifty s s1\<close> show ?thesis
    by (auto simp: onMigrateInAck_def c Let_def split: option.split)
qed

lemma onMigrateInNack_quiet: "quiet s (onMigrateInNack now n s)"
proof -
  have "quiet s (snd (jr_apply now k (no_upd\<lparr>upd_Status := S_held, upd_Note := w\<rparr>) s))" for k w
    by (rule apply_quiet [OF prod.collapse [symmetric]]) simp_all
  then have "quiet s (del_sched k (snd (jr_apply now k (no_upd\<lparr>upd_Status := S_held, upd_Note := w\<rparr>) s)))" for k w
    using quiet_trans by blast
  then show ?thesis by (auto simp: onMigrateInNack_def split: option.split)
qed

lemma onMigrateOut_thrifty:
  assumes "keyed s"
  shows "thrifty s (onMigrateOut bb now later out s)"
proof -
  have take: "thrifty s (take_export bb now later d out s)" for d
  proof -
    obtain r s1 where c: "jr_create D_out (outbound_entry bb now (sd_slot s) d out) s = (r, s1)"
      by (metis surj_pair)
    have sent: "thrifty s (sendModLocked f s1)" for f
      using create_thrifty [OF c] thrifty_mod by (auto intro: thrifty_trans)
    have "thrifty s (tickOutbound now later k (sendModLocked f s1))" for k f
      using quiet_thrifty [OF tickOutbound_quiet [OF thrifty_keyed [OF sent assms]]]
      by (rule thrifty_trans [OF sent])
    with sent thrifty_trans [OF create_thrifty [OF c] nackOut_thrifty, simplified] show ?thesis
      by (auto simp: take_export_def Let_def c split: option.split)
  qed
  show ?thesis by (auto simp: onMigrateOut_def Let_def take split: option.split sum.split)
qed

section \<open>Answers to an export\<close>

lemma onMigrationAck_quiet: "quiet s (onMigrationAck now a s)"
proof -
  obtain r s1 where c: "jr_apply now (ak_MigrationID a)
      (no_upd\<lparr>upd_Status := S_done, upd_CompletedAt := Some (unix_milli now), upd_Acked := Some True,
              upd_Handoff := H_done, upd_Duplicate := Some (ak_Duplicate a)\<rparr>) s = (r, s1)" by (metis surj_pair)
  have "quiet s s1" by (rule apply_quiet [OF c]) simp_all
  moreover have "quiet s (s\<lparr>sd_lateAckTotal := n\<rparr>)" for n by (rule quiet_same) simp_all
  ultimately show ?thesis
    by (auto simp: onMigrationAck_def c split: option.split intro: quiet_trans)
qed

lemma onForwardReceipt_quiet: "quiet s (onForwardReceipt now r s)"
proof (cases "get s (fr_MigrationID r)")
  case (Some st)
  let ?u = "no_upd\<lparr>upd_ForwardReceipts := Some (st_ForwardReceipts st + 1),
      upd_ReceiptSessionID := Some (fr_RelaySessionID r), upd_ReceiptDestSlot := Some (fr_DestSlot r),
      upd_ReceiptForwardedAtMs := Some (fr_ForwardedAt r)\<rparr>"
  obtain x s1 where c: "jr_apply now (fr_MigrationID r) ?u s = (x, s1)" by (metis surj_pair)
  have "upd_wf ?u" if "sound s" using that Some by (auto simp: sound_def st_wf_def upd_wf_def)
  then have "quiet s s1" by (intro apply_quiet [OF c]) simp_all
  moreover have "quiet s1 (s1\<lparr>sd_receiptsRecorded := n\<rparr>)" for n by (rule quiet_same) simp_all
  ultimately show ?thesis
    by (cases x) (auto simp: onForwardReceipt_def Some c intro: quiet_trans)
qed (simp add: onForwardReceipt_def)

lemma set_retry_get [simp]: "get (set_retry now n s) = get s"
  by (simp add: set_retry_def)

lemma set_retry_quiet [intro]: "quiet s (set_retry now n s)"
  by (auto simp: set_retry_def)

text \<open>A mark that was written leaves the entry refused, so the re-route after it costs nothing
  more; one that was not written left the entry as it was.\<close>

lemma mark_then_reroute:
  assumes "keyed s" and "jr_apply now (st_id st) u s = (r, s1)" and "upd_Handoff u = H_refused"
    and "st_id st = k" and "upd_wf u"
  shows "costs_one k s (snd (reroute_clearing now pw (deref_or r st) s1))"
proof (cases r)
  case None
  with jr_apply_cases [OF assms(2)] have "sd_mem s1 = sd_mem s" by auto
  then have "get s1 = get s" by (simp add: get_def fun_eq_iff)
  then have "quiet s s1" by (rule quiet_same) (simp_all add: jr_apply_frame [OF assms(2)])
  with None assms(4) reroute_clearing_costs [of now pw st s1, OF prod.collapse [symmetric]]
  show ?thesis by (auto intro: quiet_costs_trans)
next
  case (Some x)
  with jr_apply_cases [OF assms(2)] obtain st0 where
    g: "get s1 = (get s)(k \<mapsto> updated u st0)" and x: "x = updated u st0" and st0: "get s k = Some st0"
    using assms(4) by auto
  have "st_Handoff x = H_refused" using updated_handoff [of u st0] assms(3) x by simp
  then have "sendable (get s1 (st_id x))" using g x keyedD [OF assms(1) st0] by simp
  then have "quiet s1 (snd (reroute_clearing now pw x s1))"
    by (rule reroute_clearing_quiet [OF prod.collapse [symmetric]])
  with costs_trans [OF apply_costs [OF assms(2,5)]] Some assms(4) show ?thesis by simp
qed

lemma mark_and_reroute_costs:
  assumes "keyed s" and "st_id st = k"
  shows "costs_one k s (mark_and_reroute now pw st s)"
proof -
  obtain r s1 where a: "jr_apply now (st_id st)
      (no_upd\<lparr>upd_Handoff := H_refused, upd_RerouteProof := Some pw,
              upd_RefusedSlots := (if pw = ''peer_refused''
                then appendRefusedSlot (st_RefusedSlots st) (en_DestSlot (st_Entry st))
                else st_RefusedSlots st),
              upd_RelaySessionID := Some [], upd_SentAtMs := Some 0, upd_Note := ''refused''\<rparr>) s = (r, s1)"
    by (metis surj_pair)
  have "mark_and_reroute now pw st s = snd (reroute_clearing now pw (deref_or r st) s1)"
    by (cases r) (simp_all add: mark_and_reroute_def markRefusedLocked_def Let_def a)
  with mark_then_reroute [OF assms(1) a _ assms(2)] show ?thesis by simp
qed

lemma transport_mark_costs:
  assumes "keyed s" and "st_id st = k"
  shows "costs_one k s (case markTransportRefusedLocked now st s of
      (None, s1) \<Rightarrow> s1 | (Some st', s1) \<Rightarrow> snd (reroute_clearing now pw st' s1))"
proof -
  obtain r s1 where m: "markTransportRefusedLocked now st s = (r, s1)" by (metis surj_pair)
  show ?thesis
  proof (cases r)
    case None
    show ?thesis using m None assms(2) apply_costs
      by (auto simp: markTransportRefusedLocked_def Let_def)
  next
    case (Some x)
    from m mark_then_reroute [OF assms(1) _ _ assms(2)] Some show ?thesis
      by (fastforce simp: markTransportRefusedLocked_def Let_def)
  qed
qed

text \<open>The refusals that count as proof that custody did not move: a peer refusal from the world the
  entry is on its way to, or a refusal of the relay itself that names this very attempt (or this
  very relay session, for the older codes) and that no forward receipt contradicts.\<close>

definition counts_for :: "migration_nack \<Rightarrow> state \<Rightarrow> sidecar \<Rightarrow> bool" where
  "counts_for n st s =
     (let proof_of_attempt = ProvesAttemptRefusal n (st_RelaySessionID st)
            (en_DestSlot (st_Entry st)) (st_RerouteCount st)
      in if nk_SourcePeer n \<noteq> []
         then peerNackMatchesCurrentDestinationLocked st (nk_SourcePeer n) s \<and>
           (PayloadRefusal (nk_Code n) \<or> PeerLocalRefusal (nk_Code n))
         else if nk_Code n = ''NOT_FORWARDED''
         then proof_of_attempt \<and>
           \<not> ForwardedAttemptUnder st (nk_RelaySessionID n) (en_DestSlot (st_Entry st))
         else ProvesNoCustody n (st_RelaySessionID st) \<and> \<not> ForwardedUnder st (nk_RelaySessionID n))"

definition refusal_counts :: "migration_nack \<Rightarrow> sidecar \<Rightarrow> bool" where
  "refusal_counts n s =
     (case get s (nk_MigrationID n) of
        None \<Rightarrow> False
      | Some st \<Rightarrow> st_Direction st = D_out \<and> (st_Status st = S_open \<or> st_Status st = S_in_flight) \<and>
          counts_for n st s)"

lemma nack_without_proof: "\<not> refusal_counts n s \<Longrightarrow> onMigrationNack now n s = s"
proof (cases "get s (nk_MigrationID n)")
  case (Some st)
  assume no: "\<not> refusal_counts n s"
  show ?thesis
  proof (cases "st_Direction st = D_out \<and> (st_Status st = S_open \<or> st_Status st = S_in_flight)")
    case False
    then show ?thesis by (auto simp: onMigrationNack_def Some)
  next
    case True
    with no have c: "\<not> counts_for n st s" by (simp add: refusal_counts_def Some)
    show ?thesis
    proof (cases "nk_SourcePeer n = []")
      case relay: True
      show ?thesis
      proof (cases "nk_Code n = ''NOT_FORWARDED''")
        case True
        with c relay show ?thesis by (auto simp: onMigrationNack_def Some counts_for_def Let_def)
      next
        case False
        with c relay show ?thesis by (simp add: onMigrationNack_def Some counts_for_def Let_def)
      qed
    next
      case False
      with c show ?thesis by (simp add: onMigrationNack_def Some counts_for_def Let_def)
    qed
  qed
qed (simp add: onMigrationNack_def)

text \<open>The three things a refusal that counts can do.\<close>

lemma counted_nack_cases:
  assumes "get s (nk_MigrationID n) = Some st" and "refusal_counts n s"
  shows "(\<exists>why. onMigrationNack now n s = bounceLocked now why st s) \<or>
    (\<exists>pw. onMigrationNack now n s = mark_and_reroute now pw st (set_retry now n s)) \<or>
    onMigrationNack now n s = (case markTransportRefusedLocked now st s of
      (None, s1) \<Rightarrow> s1 | (Some st', s1) \<Rightarrow> snd (reroute_clearing now ''relay_never_forwarded'' st' s1))"
proof -
  from assms have ok: "st_Direction st = D_out" "st_Status st \<noteq> S_open \<longrightarrow> st_Status st = S_in_flight"
    and c: "counts_for n st s" by (auto simp: refusal_counts_def)
  show ?thesis
  proof (cases "nk_SourcePeer n = []")
    case relay: True
    show ?thesis
    proof (cases "nk_Code n = ''NOT_FORWARDED''")
      case True
      with c relay ok show ?thesis
        by (cases "st_Status st = S_open") (simp_all add: onMigrationNack_def assms(1) counts_for_def Let_def)
    next
      case False
      with c relay ok have "onMigrationNack now n s =
          mark_and_reroute now ''relay_never_forwarded'' st (set_retry now n s)"
        by (cases "st_Status st = S_open") (simp_all add: onMigrationNack_def assms(1) counts_for_def Let_def)
      then show ?thesis by blast
    qed
  next
    case peer: False
    show ?thesis
    proof (cases "PayloadRefusal (nk_Code n)")
      case True
      with c peer ok have "onMigrationNack now n s = bounceLocked now (nk_Code n) st s"
        by (cases "st_Status st = S_open") (simp_all add: onMigrationNack_def assms(1) counts_for_def Let_def)
      then show ?thesis by blast
    next
      case False
      with c peer ok have "onMigrationNack now n s = mark_and_reroute now ''peer_refused'' st (set_retry now n s)"
        by (cases "st_Status st = S_open") (simp_all add: onMigrationNack_def assms(1) counts_for_def Let_def)
      then show ?thesis by blast
    qed
  qed
qed

lemma nack_costs:
  assumes "keyed s"
  shows "costs_one (nk_MigrationID n) s (onMigrationNack now n s)"
proof (cases "refusal_counts n s")
  case False
  then show ?thesis by (simp add: nack_without_proof quiet_costs)
next
  case True
  then obtain st where st: "get s (nk_MigrationID n) = Some st"
    by (auto simp: refusal_counts_def split: option.splits)
  have k: "st_id st = nk_MigrationID n" by (rule keyedD [OF assms st])
  have retry: "keyed (set_retry now n s)" using assms by (simp add: keyed_def named_def)
  have "costs_one (nk_MigrationID n) s (mark_and_reroute now pw st (set_retry now n s))" for pw
    using set_retry_quiet mark_and_reroute_costs [OF retry k] by (rule quiet_costs_trans)
  with counted_nack_cases [OF st True, of now] transport_mark_costs [OF assms k] show ?thesis
    by (auto simp: quiet_costs)
qed

section \<open>Steps\<close>

datatype step_label = L_quiet | L_refused bytes | L_purged "bytes list"

text \<open>Everything that can happen to the scheduler.  A step that received a refusal which counts is
  labelled with its migration, a tick with the tombstones it purged.  A restart replays the journal: every
  entry comes back as its log has it (\<open>core\<close>), and everything else is whatever the new process has.  A process
  that dies inside a handler has sent and written what it would have with every later send and write refused.  The handlers that release the lock between their stages also appear
  stage by stage (\<open>cs_create\<close>, \<open>cs_answer\<close>, \<open>cs_offer\<close>, \<open>cs_deliver\<close>, \<open>cs_refuse\<close>), so runs interleave
  them.  \<open>cs_env\<close> is everything else: connections and sessions come and go, status frames, grants and
  configuration arrive, outcomes of the disk and the socket are drawn.\<close>

inductive cstep :: "sidecar \<Rightarrow> step_label \<Rightarrow> sidecar \<Rightarrow> bool" where
  cs_tick: "cstep s (L_purged (purged_in_tick now later s)) (tick now later s)"
| cs_out: "cstep s L_quiet (onMigrateOut bb now later out s)"
| cs_in_ack: "cstep s L_quiet (onMigrateInAck now a s)"
| cs_in_nack: "cstep s L_quiet (onMigrateInNack now mn s)"
| cs_payload: "cstep s L_quiet (onMigrationPayload bb now adm h d s)"
| cs_ack: "cstep s L_quiet (onMigrationAck now ack s)"
| cs_receipt: "cstep s L_quiet (onForwardReceipt now r s)"
| cs_nack: "refusal_counts n s \<Longrightarrow> cstep s (L_refused (nk_MigrationID n)) (onMigrationNack now n s)"
| cs_no_proof: "\<not> refusal_counts n s \<Longrightarrow> cstep s L_quiet (onMigrationNack now n s)"
| cs_create: "dir \<in> {D_out, D_in} \<Longrightarrow> cstep s L_quiet (snd (jr_create dir e s))"
| cs_answer: "cstep s L_quiet (sendModLocked f s)"
| cs_offer: "cstep s L_quiet (tickOutbound now later k s)"
| cs_deliver: "cstep s L_quiet (deliverLocked now st s)"
| cs_refuse: "cstep s L_quiet (nackUpstreamAfter k d code ms s)"
| cs_reassert: "cstep s L_quiet (reassertCustodyLocked s)"
| cs_replay: "cstep s L_quiet (replayInboundLocked now s)"
| cs_edges: "cstep s L_quiet (publishEdgesLocked force s)"
| cs_env: "sd_mem s' = sd_mem s \<Longrightarrow> sd_relayOut s' = sd_relayOut s \<Longrightarrow> sd_modOut s' = sd_modOut s \<Longrightarrow>
             cstep s L_quiet s'"
| cs_restart: "(\<forall>k. map_option core (get s' k) = map_option core (get s k)) \<Longrightarrow>
             sd_relayOut s' = sd_relayOut s \<Longrightarrow> sd_modOut s' = sd_modOut s \<Longrightarrow> cstep s L_quiet s'"

inductive cruns :: "sidecar \<Rightarrow> step_label list \<Rightarrow> sidecar \<Rightarrow> bool" where
  cr_none: "cruns s [] s"
| cr_step: "cruns s ls s' \<Longrightarrow> cstep s' l s'' \<Longrightarrow> cruns s (ls @ [l]) s''"

definition refusals :: "bytes \<Rightarrow> step_label list \<Rightarrow> nat" where
  "refusals k ls = length (filter (\<lambda>l. l = L_refused k) ls)"

fun purges_it :: "bytes \<Rightarrow> step_label \<Rightarrow> bool" where
  "purges_it k (L_purged ks) = (k \<in> set ks)"
| "purges_it k l = False"

definition purges :: "bytes \<Rightarrow> step_label list \<Rightarrow> nat" where
  "purges k ls = length (filter (purges_it k) ls)"

lemma publish_thrifty: "thrifty s (publishEdgesLocked force s)"
proof -
  have "thrifty s (s\<lparr>sd_lastEdges := es, sd_edgeEpoch := n\<rparr>)" for es n
    by (rule thrifty_same) simp_all
  then have "thrifty s (sendModLocked f (s\<lparr>sd_lastEdges := es, sd_edgeEpoch := n\<rparr>))" for f es n
    using thrifty_mod by (rule thrifty_trans)
  then show ?thesis by (simp add: publishEdgesLocked_def Let_def)
qed

lemma reassert_thrifty: "thrifty s (reassertCustodyLocked s)"
  unfolding reassertCustodyLocked_def by (rule thrifty_fold) auto

lemma replay_thrifty: "thrifty s (replayInboundLocked now s)"
  by (auto simp: replayInboundLocked_def Let_def intro: thrifty_fold)

inductive_cases cstep_labelE: "cstep s (L_refused k) s'"
inductive_cases cstep_purgeE: "cstep s (L_purged ks) s'"
inductive_cases cstep_silentE: "cstep s L_quiet s'"

lemma restart_thrifty:
  assumes "\<forall>k. map_option core (get s' k) = map_option core (get s k)" "sd_relayOut s' = sd_relayOut s"
  shows "thrifty s s'"
proof -
  have same: "map_option f (get s' k) = map_option f (get s k)" if "\<And>st. f (core st) = f st" for f k
  proof -
    have "map_option (f \<circ> core) (get s' k) = map_option (f \<circ> core) (get s k)"
      using assms(1) by (metis option.map_comp)
    moreover have "f \<circ> core = f" using that by (simp add: fun_eq_iff)
    ultimately show ?thesis by simp
  qed
  have offer: "sendable o_st = (map_option st_Handoff o_st \<in> {None, Some H_pending, Some H_refused})" for o_st
    by (cases o_st) auto
  have "map_option st_Handoff (get s' k) = map_option st_Handoff (get s k)" for k by (rule same) simp
  then have "sendable (get s' k) = sendable (get s k)" for k by (simp only: offer)
  moreover have "named s' k = named s k" for k using same [of st_id] by (simp add: named_def)
  moreover have "sound s' = sound s"
  proof -
    have wf: "sound t = (\<forall>k. map_option st_wf (get t k) \<noteq> Some False)" for t
      unfolding sound_def by (rule all_cong1) auto
    moreover have "map_option st_wf (get s' k) = map_option st_wf (get s k)" for k by (rule same) simp
    ultimately show ?thesis by (simp only:)
  qed
  ultimately show ?thesis using assms(2) by (simp add: thrifty_def potential_def payloads_def keyed_def)
qed

lemma silent_step_thrifty:
  assumes "cstep s L_quiet s'" and "keyed s"
  shows "thrifty s s'"
  using assms(1)
proof (rule cstep_silentE)
  fix n now assume "s' = onMigrationNack now n s" and "\<not> refusal_counts n s"
  then show ?thesis by (simp add: nack_without_proof)
next
  fix dir e assume "s' = snd (jr_create dir e s)" and "dir = D_out \<or> dir = D_in"
  with create_thrifty [OF prod.collapse [symmetric], of dir s e] show ?thesis by (auto simp: insert_commute)
next
  assume "sd_mem s' = sd_mem s" "sd_relayOut s' = sd_relayOut s"
  then show ?thesis by (intro thrifty_same) (simp_all add: get_def fun_eq_iff)
next
  assume "\<forall>k. map_option core (get s' k) = map_option core (get s k)" "sd_relayOut s' = sd_relayOut s"
  then show ?thesis by (rule restart_thrifty)
qed (use assms(2) in \<open>simp_all add: onMigrateOut_thrifty onMigrateInAck_thrifty
   quiet_thrifty [OF onMigrateInNack_quiet] onMigrationPayload_thrifty quiet_thrifty [OF onMigrationAck_quiet]
   quiet_thrifty [OF onForwardReceipt_quiet] quiet_thrifty [OF tickOutbound_quiet]
   quiet_thrifty [OF deliver_quiet] thrifty_mod nackUpstream_thrifty reassert_thrifty replay_thrifty publish_thrifty\<close>)

lemma labelled_step_costs: "cstep s (L_refused k) s' \<Longrightarrow> keyed s \<Longrightarrow> costs_one k s s'"
  by (erule cstep_labelE) (simp add: nack_costs)

lemma purging_step_costs: "cstep s (L_purged ks) s' \<Longrightarrow> keyed s \<Longrightarrow> costs_purged ks s s'"
  by (erule cstep_purgeE) (simp add: tick_costs)

text \<open>Every step keeps the entries keyed and well formed, and its label bounds what it costs.\<close>

lemma step_keeps_typed:
  assumes "cstep s l s'" and "keyed s"
  shows "keyed s'" "sound s \<Longrightarrow> sound s'"
  using assms silent_step_thrifty [of s s'] labelled_step_costs [of s _ s'] purging_step_costs [of s _ s']
  by (cases l; auto simp: thrifty_def costs_one_def costs_purged_def keyed_def)+

lemma cstep_potential:
  assumes "cstep s l s'" and "keyed s"
  shows "potential k s' \<le> potential k s + (if l = L_refused k then 1 else 0) + (if purges_it k l then 1 else 0)"
proof (cases l)
  case L_quiet
  with silent_step_thrifty [of s s'] assms show ?thesis by (simp add: thrifty_def)
next
  case (L_refused j)
  with labelled_step_costs [of s j s'] assms have "costs_one j s s'" by simp
  then have "potential k s' \<le> potential k s + (if k = j then 1 else 0)" by (simp add: costs_one_def)
  with L_refused show ?thesis by auto
next
  case (L_purged ks)
  with purging_step_costs [of s ks s'] assms show ?thesis by (simp add: costs_purged_def)
qed

lemma run_potential:
  assumes "cruns s ls s'" and "keyed s"
  shows "keyed s' \<and> potential k s' \<le> potential k s + refusals k ls + purges k ls"
  using assms
proof (induction rule: cruns.induct)
  case (cr_step s ls s' l s'')
  then have "keyed s'" and "potential k s' \<le> potential k s + refusals k ls + purges k ls" by auto
  with cstep_potential [OF cr_step.hyps(2), of k] step_keeps_typed(1) [OF cr_step.hyps(2)] show ?case
    by (auto simp: refusals_def purges_def)
qed (simp add: refusals_def purges_def)

end
