(* ===== verification/CustodyClaims.thy ===== *)
theory CustodyClaims imports CustodySteps Torus begin

text \<open>
  What the custody scheduler promises about one organism that leaves this world: it is on the wire
  at most once per refusal that proves it was not taken, only such a refusal brings it back, and it
  does not stay unresolved.  The samples are a world in a row of three.
\<close>

section \<open>Samples\<close>

definition ferry_cfg :: custody_cfg where
  "ferry_cfg = \<lparr>cf_PeerID = ''a'', cf_ForwardTimeout = 600 * second, cf_ForwardRetry = 30 * second,
     cf_BounceTimeout = 60 * second, cf_TickInterval = second, cf_MigrateInAckTimeout = 30 * second,
     cf_HeartbeatDeliveryGrace = 10 * second, cf_PacingIdleGrace = 10 * second, cf_MaxReroutes = 8,
     cf_InboundQueueMax = 64, cf_ExportRetention = 604800 * second\<rparr>"

definition ferry_slot :: "int \<Rightarrow> bytes \<Rightarrow> slot_info" where
  "ferry_slot n peer = \<lparr>si_Slot = n, si_Position = \<lparr>po_Col = n - 1, po_Row = 0\<rparr>, si_PeerID = peer,
     si_Live = True, si_ModConnected = True, si_GameVersion = ''0.6'', si_SimulationSize = Fin 500,
     si_ExportEdges = [''E'']\<rparr>"

definition ferry_mem :: "state list \<Rightarrow> jmem" where
  "ferry_mem sts = \<lparr>jm_states = map (\<lambda>st. (st_id st, st)) sts, jm_seq = length sts\<rparr>"

definition ferry :: "state list \<Rightarrow> sidecar" where
  "ferry sts =
     \<lparr>sd_cfg = ferry_cfg, sd_mem = ferry_mem sts, sd_sched = [], sd_relayReady = True,
      sd_relaySessionID = ''s1'', sd_slot = 1, sd_position = \<lparr>po_Col = 0, po_Row = 0\<rparr>,
      sd_status = \<lparr>ps_Epoch = 1, ps_Map = \<lparr>ms_Width = 3, ms_Height = 1\<rparr>,
        ps_Slots = [ferry_slot 1 ''a'', ferry_slot 2 ''b'', ferry_slot 3 ''c'']\<rparr>,
      sd_neighbours = [(''E'', \<lparr>ne_Slot = 2, ne_PeerID = ''b'', ne_Position = \<lparr>po_Col = 1, po_Row = 0\<rparr>,
        ne_GameVersion = ''0.6'', ne_SimulationSize = Fin 500, ne_Skipped = []\<rparr>)],
      sd_mod = None, sd_pace = newPacer 6 1, sd_lastEdges = [], sd_edgeEpoch = 0, sd_lastPurge = 0,
      sd_lostForwardTotal = 0, sd_lateAckTotal = 0, sd_receiptsRecorded = 0, sd_relayOut = [],
      sd_modOut = [], sd_disk = [], sd_admit = [], sd_socket = []\<rparr>"

text \<open>An export that was journaled and not yet offered.\<close>

definition waiting :: state where
  "waiting = created_state (create_record D_out (sample_entry ''m1'' []) False) (sample_entry ''m1'' []) 1"

definition underway :: state where
  "underway = waiting\<lparr>st_Handoff := H_sent, st_Status := S_in_flight, st_SentAtMs := 1000,
     st_RelaySessionID := ''s1''\<rparr>"

lemma ferry_get: "get (ferry sts) k = map_of (map (\<lambda>st. (st_id st, st)) sts) k"
  by (simp add: get_def lookup_def ferry_def ferry_mem_def)

lemma ferry_keyed: "keyed (ferry sts)"
  by (induction sts) (auto simp: keyed_def named_def ferry_get)

lemma waiting_fields [simp]:
  "st_id waiting = ''m1''" "st_Handoff waiting = H_pending" "st_Direction waiting = D_out"
  "st_Status waiting = S_open" "st_id underway = ''m1''" "st_Handoff underway = H_sent"
  "st_Direction underway = D_out" "st_Status underway = S_in_flight"
  by (simp_all add: waiting_def underway_def created_state_def create_record_def zero_rec_def sample_entry_def)

section \<open>At most once\<close>



text \<open>The bound is reached: the tombstone of a finished export is purged, and its identifier, offered
  again by the mod, is put on the wire a second time.\<close>

definition settled :: state where
  "settled = underway\<lparr>st_Status := S_done, st_Handoff := H_done, st_CompletedAt := 5\<rparr>"

lemma purged_tombstone_is_forgotten:
  "purged_in_tick (unix_epoch + 604900 * second) 0 (ferry [settled]) = [''m1'']"
  "get (tick (unix_epoch + 604900 * second) 0 (ferry [settled])) ''m1'' = None"
  by code_simp+

text \<open>C29: THE JOURNAL IT LEAVES IS WELL FORMED.  Every run of the scheduler keeps each entry under its
  own identifier and in the states the journal's compaction and replay are proved for: an export
  always has a handoff, never the retired one, a finished entry has no body, and the receipt fields
  are set exactly when a receipt was counted.\<close>

theorem scheduler_keeps_entries_typed:
  assumes "cruns s ls s'" and "keyed s" and "sound s"
  shows "keyed s' \<and> sound s'"
  using assms by (induction rule: cruns.induct) (auto dest: step_keeps_typed)

lemma scheduler_keeps_entries_typed_witness:
  "keyed (tick 5 5 (ferry [underway])) \<and> sound (tick 5 5 (ferry [underway]))"
proof (rule scheduler_keeps_entries_typed [of "ferry [underway]" "[] @ [L_purged (purged_in_tick 5 5 (ferry [underway]))]"])
  show "cruns (ferry [underway]) ([] @ [L_purged (purged_in_tick 5 5 (ferry [underway]))]) (tick 5 5 (ferry [underway]))"
    by (rule cr_step [OF cr_none cs_tick])
  show "keyed (ferry [underway])" by (rule ferry_keyed)
  have "st_wf underway" by code_simp
  then show "sound (ferry [underway])" by (simp add: sound_def ferry_get)
qed

section \<open>An export that was sent\<close>

text \<open>SILENCE IS NOT PROOF.  A tick of an export that has been sent leaves the sidecar exactly as it
  was until the forward timeout, and then records it lost: nothing is sent again, nothing comes home,
  no other entry is touched, and the body goes once the record is written.\<close>

theorem sent_export_waits_or_is_lost:
  assumes "get s k = Some st" and "st_id st = k" and "st_Handoff st = H_sent"
    and "st_Status st = S_open \<or> st_Status st = S_in_flight"
  shows "(now < sentAt now st + cf_ForwardTimeout (sd_cfg s) \<longrightarrow> tickOutbound now later k s = s) \<and>
    sd_relayOut (tickOutbound now later k s) = sd_relayOut s \<and>
    sd_modOut (tickOutbound now later k s) = sd_modOut s \<and>
    (\<forall>j. j \<noteq> k \<longrightarrow> get (tickOutbound now later k s) j = get s j) \<and>
    (now \<ge> sentAt now st + cf_ForwardTimeout (sd_cfg s) \<and> fst (pop (sd_disk s)) \<longrightarrow>
      (\<exists>st'. get (tickOutbound now later k s) k = Some st' \<and> st_Direction st' = st_Direction st \<and>
        st_Status st' = S_done \<and> st_Handoff st' = H_lost \<and> en_Payload (st_Entry st') = []))"
proof -
  let ?u = "no_upd\<lparr>upd_Status := S_done, upd_CompletedAt := Some (unix_milli now),
      upd_Handoff := H_lost, upd_Note := ''lost''\<rparr>"
  obtain r s1 where a: "jr_apply now k ?u s = (r, s1)" by (metis surj_pair)
  have lose: "get (loseLocked now st s) = get s1 \<and> sd_relayOut (loseLocked now st s) = sd_relayOut s \<and>
      sd_modOut (loseLocked now st s) = sd_modOut s"
    using jr_apply_frame(1,2) [OF a] by (cases r) (simp_all add: loseLocked_def assms(2) a)
  have other: "get s1 j = get s j" if "j \<noteq> k" for j
    using sidecar_store.update_other [OF jr_apply_update [OF a] that] .
  have written: "get s1 k = Some (updated ?u st)" if "fst (pop (sd_disk s))"
    using a assms(1) that lookup_apply_status_rec [of "sd_mem s" k st]
    by (auto simp: jr_apply_def get_def Let_def split: prod.splits)
  have fields: "st_Direction (updated ?u st) = st_Direction st \<and> st_Status (updated ?u st) = S_done \<and>
      st_Handoff (updated ?u st) = H_lost \<and> en_Payload (st_Entry (updated ?u st)) = []"
    by (simp add: updated_def apply_status_def status_record_def apply_handoff_def Let_def
        del: apply_status_updated)
  have out: "tickOutbound now later k s =
      (if now < sentAt now st + cf_ForwardTimeout (sd_cfg s) then s else loseLocked now st s)"
    using assms by (auto simp: tickOutbound_def)
  show ?thesis using lose other written fields by (simp add: out)
qed

lemma sent_export_waits_or_is_lost_witness:
  "tickOutbound (unix_epoch + 500 * second) 0 ''m1'' (ferry [underway]) = ferry [underway] \<and>
   (\<exists>st'. get (tickOutbound (unix_epoch + 700 * second) 0 ''m1'' (ferry [underway])) ''m1'' = Some st' \<and> st_Handoff st' = H_lost)"
proof -
  have g: "get (ferry [underway]) ''m1'' = Some underway" by (simp add: ferry_get)
  have at: "sentAt t underway = unix_epoch + second" for t
    by (simp add: sentAt_def underway_def time_of_milli_def second_def millisecond_def)
  have c: "cf_ForwardTimeout (sd_cfg (ferry [underway])) = 600 * second"
    "fst (pop (sd_disk (ferry [underway])))" by (simp_all add: ferry_def ferry_cfg_def pop_def)
  from sent_export_waits_or_is_lost [OF g, of "unix_epoch + 500 * second" 0]
    sent_export_waits_or_is_lost [OF g, of "unix_epoch + 700 * second" 0] at c
  show ?thesis by (simp add: second_def) blast
qed

section \<open>A refusal and its evidence\<close>

lemma updated_fields:
  "st_Direction (updated u st) = (if upd_Direction u \<noteq> D_empty then upd_Direction u else st_Direction st)"
  "st_Status (updated u st) = (if upd_Status u \<noteq> S_empty then upd_Status u else st_Status st)"
  "st_BounceBack (updated u st) = deref_or (upd_BounceBack u) (st_BounceBack st)"
  "st_Attempt (updated u st) = deref_or (upd_Attempt u) (st_Attempt st)"
  "st_RelaySessionID (updated u st) = deref_or (upd_RelaySessionID u) (st_RelaySessionID st)"
  "st_RerouteCount (updated u st) = deref_or (upd_RerouteCount u) (st_RerouteCount st)"
  "st_RefusalDeadlineMs (updated u st) = deref_or (upd_RefusalDeadlineMs u) (st_RefusalDeadlineMs st)"
  "st_RefusedSlots (updated u st) =
     (if upd_RefusedSlots u \<noteq> [] then upd_RefusedSlots u else st_RefusedSlots st)"
  "en_DestSlot (st_Entry (updated u st)) = deref_or (upd_DestSlot u) (en_DestSlot (st_Entry st))"
  "en_Payload (st_Entry (updated u st)) =
     (if (if upd_Status u \<noteq> S_empty then upd_Status u else st_Status st) = S_done then []
      else en_Payload (st_Entry st))"
  by (simp_all add: updated_def status_record_def del: apply_status_updated)

lemma jr_apply_gets:
  assumes "jr_apply now k u s = (r, s')"
  shows "r = None \<and> get s' = get s \<or>
    (\<exists>st. get s k = Some st \<and> get s' = (get s)(k \<mapsto> updated u st) \<and> r = Some (updated u st))"
proof -
  have "get s' = get s" if "sd_mem s' = sd_mem s" using that by (simp add: get_def fun_eq_iff)
  with jr_apply_cases [OF assms] show ?thesis by auto
qed

text \<open>A working journal: every write is answered.\<close>

lemma jr_apply_ok:
  assumes "get s k = Some st" and "sd_disk s = []"
  obtains s' where "jr_apply now k u s = (Some (updated u st), s')" "get s' = (get s)(k \<mapsto> updated u st)"
    "sd_disk s' = []"
proof -
  obtain r s' where a: "jr_apply now k u s = (r, s')" by (metis surj_pair)
  have "r = Some (updated u st)" "sd_disk s' = []"
    using a assms lookup_apply_status_rec [of "sd_mem s" k st "unix_milli now" u]
    by (auto simp: jr_apply_def get_def pop_def Let_def)
  with jr_apply_cases [OF a] assms(1) a show ?thesis by (auto intro: that)
qed

text \<open>The organism is back: either it may be offered again, or it is an open arrival at home.\<close>

definition came_home :: "state \<Rightarrow> bool" where
  "came_home st = (st_Direction st = D_in \<and> st_Status st = S_open \<and> st_BounceBack st \<and> st_Attempt st = 0)"

definition offerable :: "state \<Rightarrow> bool" where
  "offerable st = (st_Direction st = D_out \<and> (st_Handoff st = H_pending \<or> st_Handoff st = H_refused) \<and>
     st_RelaySessionID st = [])"

lemma bounce_home:
  assumes "get s (st_id st) = Some st0" and "sd_disk s = []"
  shows "\<exists>st'. get (bounceLocked now why st s) = (get s)(st_id st \<mapsto> st') \<and> came_home st' \<and>
    (st_Status st0 \<noteq> S_done \<longrightarrow> en_Payload (st_Entry st') = en_Payload (st_Entry st0))"
proof -
  define u where "u = no_upd\<lparr>upd_Status := S_open, upd_Direction := D_in, upd_BounceBack := Some True,
      upd_Attempt := Some 0, upd_Handoff := H_done, upd_Note := ''bounced: '' @ why\<rparr>"
  obtain s' where "jr_apply now (st_id st) u s = (Some (updated u st0), s')"
    "get s' = (get s)(st_id st \<mapsto> updated u st0)" by (rule jr_apply_ok [OF assms])
  then have "get (bounceLocked now why st s) = (get s)(st_id st \<mapsto> updated u st0)"
    by (simp add: bounceLocked_def u_def)
  moreover have "came_home (updated u st0)"
    "st_Status st0 \<noteq> S_done \<longrightarrow> en_Payload (st_Entry (updated u st0)) = en_Payload (st_Entry st0)"
    by (simp_all add: came_home_def updated_fields u_def)
  ultimately show ?thesis by blast
qed

lemma reroute_back:
  assumes "get s (st_id st) = Some st" and "offerable st" and "sd_disk s = []"
    and "get (snd (reroute_clearing now pw st s)) (st_id st) = Some st'"
  shows "offerable st' \<or> came_home st'"
proof -
  obtain b s' where r: "rerouteLocked now pw st s = (b, s')" by (metis surj_pair)
  have g: "get s' (st_id st) = Some st'" using assms(4) by (cases b) (simp_all add: reroute_clearing_def r)
  show ?thesis
    using reroute_cases [OF r]
  proof (elim disjE conjE exE)
    assume "s' = s" then show ?thesis using assms(1,2) g by simp
  next
    fix t why assume "s' = bounceLocked t why st s"
    then show ?thesis using bounce_home [OF assms(1,3), of t why] g by auto
  next
    fix dest x assume a: "jr_apply now (st_id st) (reroute_upd now dest pw st) s = (x, s')"
    then have "st' = st \<or> st' = updated (reroute_upd now dest pw st) st"
      using jr_apply_gets [OF a] assms(1) g by auto
    then show ?thesis using assms(2)
      by (auto simp: offerable_def updated_fields updated_handoff reroute_upd_def)
  qed
qed

lemma mark_back:
  assumes "get s (st_id st) = Some st" and "sd_disk s = []" and "st_Direction st = D_out"
    and "upd_Handoff u = H_refused" "upd_Direction u = D_empty" "upd_RelaySessionID u = Some []"
    and "jr_apply now (st_id st) u s = (r, s1)"
  shows "\<exists>st'. get (snd (reroute_clearing now pw (deref_or r st) s1)) (st_id st) = Some st' \<and>
    (offerable st' \<or> came_home st')"
proof -
  obtain s' where "jr_apply now (st_id st) u s = (Some (updated u st), s')"
    "get s' = (get s)(st_id st \<mapsto> updated u st)" "sd_disk s' = []" by (rule jr_apply_ok [OF assms(1,2)])
  with assms(7) have m: "r = Some (updated u st)" "get s1 (st_id st) = Some (updated u st)" "sd_disk s1 = []"
    by auto
  have off: "offerable (updated u st)"
    using assms(3-6) by (simp add: offerable_def updated_fields updated_handoff)
  obtain b s2 where c: "reroute_clearing now pw (updated u st) s1 = (b, s2)" by (metis surj_pair)
  have "named s2 (st_id st) \<noteq> None"
    using reroute_clearing_costs [OF c] m(2) by (auto simp: costs_one_def named_def)
  then obtain st' where "get s2 (st_id st) = Some st'" by (auto simp: named_def)
  with reroute_back [of s1 "updated u st" now pw st'] m off c show ?thesis by auto
qed

text \<open>Re-routing, bouncing and marking put nothing on the wire.\<close>

lemma bounce_out [simp]: "sd_relayOut (bounceLocked now why st s) = sd_relayOut s"
  using jr_apply_frame(1) [OF prod.collapse [symmetric], of now "st_id st" _ s]
  by (auto simp: bounceLocked_def split: prod.split option.split) (metis snd_conv)+

lemma reroute_out [simp]: "sd_relayOut (snd (reroute_clearing now pw st s)) = sd_relayOut s"
proof -
  obtain b s' where r: "rerouteLocked now pw st s = (b, s')" by (metis surj_pair)
  have "sd_relayOut s' = sd_relayOut s"
    using reroute_cases [OF r] jr_apply_frame(1) by auto
  then show ?thesis by (cases b) (simp_all add: reroute_clearing_def r)
qed

lemma mark_out [simp]: "sd_relayOut (mark_and_reroute now pw st s) = sd_relayOut s"
  by (auto simp: mark_and_reroute_def markRefusedLocked_def Let_def jr_apply_frame(1)
      split: prod.splits option.splits)

lemma transport_mark_out [simp]:
  "markTransportRefusedLocked now st s = (r, s') \<Longrightarrow> sd_relayOut s' = sd_relayOut s"
  by (auto simp: markTransportRefusedLocked_def Let_def dest: jr_apply_frame(1))

lemma set_retry_fields [simp]:
  "sd_relayOut (set_retry now n s) = sd_relayOut s" "sd_disk (set_retry now n s) = sd_disk s"
  by (simp_all add: set_retry_def set_sched_def)

lemma transport_case_out:
  "sd_relayOut (case markTransportRefusedLocked now st s of
      (None, s1) \<Rightarrow> s1 | (Some st', s1) \<Rightarrow> snd (reroute_clearing now pw st' s1)) = sd_relayOut s"
  by (auto split: prod.split option.split)

lemma nack_sends_nothing: "sd_relayOut (onMigrationNack now n s) = sd_relayOut s"
proof (cases "refusal_counts n s")
  case True
  then obtain st where "get s (nk_MigrationID n) = Some st" by (auto simp: refusal_counts_def split: option.splits)
  from counted_nack_cases [OF this True, of now] show ?thesis by (auto simp: transport_case_out)
qed (simp add: nack_without_proof)

lemma counted_nack_back:
  assumes "keyed s" and "refusal_counts n s" and "sd_disk s = []"
  shows "\<exists>st'. get (onMigrationNack now n s) (nk_MigrationID n) = Some st' \<and> (offerable st' \<or> came_home st')"
proof -
  from assms(2) obtain st where st: "get s (nk_MigrationID n) = Some st" and out: "st_Direction st = D_out"
    by (auto simp: refusal_counts_def split: option.splits)
  have k: "st_id st = nk_MigrationID n" by (rule keyedD [OF assms(1) st])
  have own: "get s (st_id st) = Some st" using st k by simp
  from counted_nack_cases [OF st assms(2), of now] show ?thesis
  proof (elim disjE exE)
    fix why assume "onMigrationNack now n s = bounceLocked now why st s"
    then show ?thesis using bounce_home [OF own assms(3), of now why] k by auto
  next
    fix pw assume e: "onMigrationNack now n s = mark_and_reroute now pw st (set_retry now n s)"
    let ?u = "no_upd\<lparr>upd_Handoff := H_refused, upd_RerouteProof := Some pw,
        upd_RefusedSlots := (if pw = ''peer_refused''
          then appendRefusedSlot (st_RefusedSlots st) (en_DestSlot (st_Entry st)) else st_RefusedSlots st),
        upd_RelaySessionID := Some [], upd_SentAtMs := Some 0, upd_Note := ''refused''\<rparr>"
    obtain r s1 where a: "jr_apply now (st_id st) ?u (set_retry now n s) = (r, s1)" by (metis surj_pair)
    have "mark_and_reroute now pw st (set_retry now n s) = snd (reroute_clearing now pw (deref_or r st) s1)"
      by (cases r) (simp_all add: mark_and_reroute_def markRefusedLocked_def Let_def a)
    with mark_back [OF _ _ out _ _ _ a, where pw = pw] own assms(3) k show ?thesis by (simp add: e)
  next
    assume e: "onMigrationNack now n s = (case markTransportRefusedLocked now st s of
      (None, s1) \<Rightarrow> s1 | (Some st', s1) \<Rightarrow> snd (reroute_clearing now ''relay_never_forwarded'' st' s1))"
    obtain r s1 where m: "markTransportRefusedLocked now st s = (r, s1)" by (metis surj_pair)
    let ?u = "no_upd\<lparr>upd_Handoff := H_refused, upd_RerouteProof := Some ''relay_never_forwarded'',
        upd_RefusedSlots := appendRefusedSlot (st_RefusedSlots st) (en_DestSlot (st_Entry st)),
        upd_RefusalDeadlineMs := Some (if st_RefusalDeadlineMs st = 0
          then unix_milli (now + cf_BounceTimeout (sd_cfg s)) else st_RefusalDeadlineMs st),
        upd_RelaySessionID := Some [], upd_SentAtMs := Some 0, upd_Note := ''relay NOT_FORWARDED proof''\<rparr>"
    have a: "jr_apply now (st_id st) ?u s = (r, s1)"
      using m by (simp add: markTransportRefusedLocked_def Let_def)
    obtain s' where "jr_apply now (st_id st) ?u s = (Some (updated ?u st), s')"
      by (rule jr_apply_ok [OF own assms(3)])
    with a have "r = Some (updated ?u st)" by simp
    with mark_back [OF own assms(3) out _ _ _ a, where pw = "''relay_never_forwarded''"] k show ?thesis
      by (simp add: e m)
  qed
qed

text \<open>C4: ONLY EVIDENCE BRINGS AN ORGANISM BACK.  A refusal that proves nothing (from a world that is not
  the entry's destination, for another attempt or relay session, contradicted by a forward receipt,
  for an entry that is resolved or not an export) changes nothing at all; one that counts makes the
  organism offerable again or brings it home; neither ever puts a frame on the wire by itself.\<close>

theorem refusal_needs_evidence:
  assumes "keyed s"
  shows "(\<not> refusal_counts n s \<longrightarrow> onMigrationNack now n s = s) \<and>
    sd_relayOut (onMigrationNack now n s) = sd_relayOut s \<and>
    (refusal_counts n s \<and> sd_disk s = [] \<longrightarrow>
      (\<exists>st'. get (onMigrationNack now n s) (nk_MigrationID n) = Some st' \<and> (offerable st' \<or> came_home st')))"
  using nack_without_proof nack_sends_nothing counted_nack_back [OF assms] by blast

definition stray_refusal :: migration_nack where
  "stray_refusal = \<lparr>nk_MigrationID = ''m1'', nk_SourcePeer = ''c'', nk_DestPeer = ''a'',
     nk_Code = ''OVERLOADED'', nk_Class = ''transient'', nk_RetryAfterMs = 0, nk_NeverForwarded = None,
     nk_RelaySessionID = [], nk_RefusedAttempt = None\<rparr>"

text \<open>World c refuses what is on its way to world b: nothing happens.  World b refuses it: it is
  offered onwards.\<close>

lemma refusal_needs_evidence_witness:
  "onMigrationNack 9 stray_refusal (ferry [underway]) = ferry [underway] \<and>
   (\<exists>st'. get (onMigrationNack 9 (stray_refusal\<lparr>nk_SourcePeer := ''b''\<rparr>) (ferry [underway])) ''m1'' = Some st' \<and>
     (offerable st' \<or> came_home st'))"
proof -
  have "\<not> refusal_counts stray_refusal (ferry [underway])" by code_simp
  moreover have "refusal_counts (stray_refusal\<lparr>nk_SourcePeer := ''b''\<rparr>) (ferry [underway])" by code_simp
  moreover have "nk_MigrationID stray_refusal = ''m1''" "sd_disk (ferry [underway]) = []"
    by (simp_all add: stray_refusal_def ferry_def)
  ultimately show ?thesis
    using refusal_needs_evidence [OF ferry_keyed, of stray_refusal "[underway]" 9]
      refusal_needs_evidence [OF ferry_keyed, of "stray_refusal\<lparr>nk_SourcePeer := ''b''\<rparr>" "[underway]" 9]
    by simp
qed

end
