(* ===== verification/CustodyFrame.thy ===== *)
theory CustodyFrame imports CustodySteps begin

text \<open>
  What a handler of one entry can touch.  Every handler that the tick calls for an entry is a sequence of
  few kinds of action on that entry (\<open>act\<close>): an update of it in the journal, a change of its clocks, and
  changes of the wires and the paces.  What such actions leave alone is proved once for each kind.
\<close>

section \<open>The actions of one entry\<close>

inductive act :: "bytes \<Rightarrow> sidecar \<Rightarrow> sidecar \<Rightarrow> bool" for j where
  act_apply: "jr_apply now j u s = (r, s') \<Longrightarrow> act j s s'"
| act_clock: "act j s (set_sched j f s)"
| act_unclock: "act j s (del_sched j s)"
| act_wire: "act j s (s\<lparr>sd_admit := a, sd_socket := b, sd_relayOut := rs, sd_modOut := ms, sd_pace := p,
      sd_lostForwardTotal := n\<rparr>)"

definition acts :: "bytes \<Rightarrow> sidecar \<Rightarrow> sidecar \<Rightarrow> bool" where
  "acts j s s' = (act j)\<^sup>*\<^sup>* s s'"

lemma acts_refl [simp, intro]: "acts j s s"
  by (simp add: acts_def)

lemma acts_trans [trans]: "acts j s s' \<Longrightarrow> acts j s' s'' \<Longrightarrow> acts j s s''"
  by (simp add: acts_def)

lemma acts_one: "act j s s' \<Longrightarrow> acts j s s'"
  by (simp add: acts_def)

lemma acts_apply: "jr_apply now j u s = (r, s') \<Longrightarrow> acts j s s'"
  and acts_clock [simp, intro]: "acts j s (set_sched j f s)"
  and acts_unclock [simp, intro]: "acts j s (del_sched j s)"
  by (auto intro: acts_one act_apply act_clock act_unclock)

lemma acts_wire [simp, intro]:
  "acts j s (s\<lparr>sd_admit := a\<rparr>)" "acts j s (s\<lparr>sd_socket := b\<rparr>)" "acts j s (s\<lparr>sd_socket := b, sd_relayOut := rs\<rparr>)"
  "acts j s (s\<lparr>sd_modOut := ms\<rparr>)" "acts j s (s\<lparr>sd_pace := p\<rparr>)" "acts j s (s\<lparr>sd_lostForwardTotal := n\<rparr>)"
proof -
  have e: "s\<lparr>sd_admit := a\<rparr> = s\<lparr>sd_admit := a, sd_socket := sd_socket s, sd_relayOut := sd_relayOut s,
        sd_modOut := sd_modOut s, sd_pace := sd_pace s, sd_lostForwardTotal := sd_lostForwardTotal s\<rparr>"
    "s\<lparr>sd_socket := b\<rparr> = s\<lparr>sd_admit := sd_admit s, sd_socket := b, sd_relayOut := sd_relayOut s,
        sd_modOut := sd_modOut s, sd_pace := sd_pace s, sd_lostForwardTotal := sd_lostForwardTotal s\<rparr>"
    "s\<lparr>sd_socket := b, sd_relayOut := rs\<rparr> = s\<lparr>sd_admit := sd_admit s, sd_socket := b, sd_relayOut := rs,
        sd_modOut := sd_modOut s, sd_pace := sd_pace s, sd_lostForwardTotal := sd_lostForwardTotal s\<rparr>"
    "s\<lparr>sd_modOut := ms\<rparr> = s\<lparr>sd_admit := sd_admit s, sd_socket := sd_socket s, sd_relayOut := sd_relayOut s,
        sd_modOut := ms, sd_pace := sd_pace s, sd_lostForwardTotal := sd_lostForwardTotal s\<rparr>"
    "s\<lparr>sd_pace := p\<rparr> = s\<lparr>sd_admit := sd_admit s, sd_socket := sd_socket s, sd_relayOut := sd_relayOut s,
        sd_modOut := sd_modOut s, sd_pace := p, sd_lostForwardTotal := sd_lostForwardTotal s\<rparr>"
    "s\<lparr>sd_lostForwardTotal := n\<rparr> = s\<lparr>sd_admit := sd_admit s, sd_socket := sd_socket s, sd_relayOut := sd_relayOut s,
        sd_modOut := sd_modOut s, sd_pace := sd_pace s, sd_lostForwardTotal := n\<rparr>" by simp_all
  show "acts j s (s\<lparr>sd_admit := a\<rparr>)" "acts j s (s\<lparr>sd_socket := b\<rparr>)" "acts j s (s\<lparr>sd_socket := b, sd_relayOut := rs\<rparr>)"
    "acts j s (s\<lparr>sd_modOut := ms\<rparr>)" "acts j s (s\<lparr>sd_pace := p\<rparr>)" "acts j s (s\<lparr>sd_lostForwardTotal := n\<rparr>)"
    by (subst e, rule acts_one [OF act_wire])+
qed

text \<open>A handler that is cut at a result and goes on with it.\<close>

lemma acts_bind:
  assumes "acts j s (snd m)" and "\<And>b s1. m = (b, s1) \<Longrightarrow> acts j s1 (f b s1)"
  shows "acts j s (case m of (b, s1) \<Rightarrow> f b s1)"
  using assms by (cases m) (auto intro: acts_trans)

lemma acts_snd_bind:
  assumes "acts j s (snd m)" and "\<And>b s1. m = (b, s1) \<Longrightarrow> acts j s1 (snd (f b s1))"
  shows "acts j s (snd (case m of (b, s1) \<Rightarrow> f b s1))"
  using assms by (cases m) (auto intro: acts_trans)

lemma acts_if: "acts j s x \<Longrightarrow> acts j s y \<Longrightarrow> acts j s (if b then x else y)"
  by simp

lemma acts_jr [simp, intro]: "acts j s (snd (jr_apply now j u s))"
  by (rule acts_apply [OF prod.collapse [symmetric]])

lemma acts_send:
  "acts j s (snd (pace_admits s))" "acts j s (snd (prepareRelayFrameLocked s))"
  "acts j s (snd (sendPreparedRelayFrameLocked f s))" "acts j s (sendModLocked m s)"
  by (auto simp: pace_admits_def prepareRelayFrameLocked_def sendPreparedRelayFrameLocked_def sendModLocked_def
      split: prod.split)

lemma acts_sendRelay: "acts j s (snd (sendRelayLocked f s))"
  unfolding sendRelayLocked_def
  by (rule acts_snd_bind [OF acts_send(2)]) (auto intro: acts_send split: bool.split)

section \<open>The handlers of an export\<close>

lemma acts_lose: "st_id st = j \<Longrightarrow> acts j s (loseLocked now st s)"
  unfolding loseLocked_def
  by (rule acts_bind) (auto split: option.split intro: acts_trans)

lemma acts_bounce: "st_id st = j \<Longrightarrow> acts j s (bounceLocked now why st s)"
  unfolding bounceLocked_def by (rule acts_bind) (auto split: option.split)

lemma acts_expired: "st_id st = j \<Longrightarrow> acts j s (snd (provenRefusalDeadlineExpiredLocked now st s))"
  by (simp add: provenRefusalDeadlineExpiredLocked_def acts_bounce)

lemma acts_reroute: "st_id st = j \<Longrightarrow> acts j s (snd (reroute_clearing now pw st s))"
proof -
  assume j: "st_id st = j"
  obtain b s' where r: "rerouteLocked now pw st s = (b, s')" by fastforce
  have "acts j s s'" using reroute_cases [OF r] acts_bounce [OF j] acts_apply [of _ j _ s] j by auto
  then show ?thesis by (cases b) (auto simp: reroute_clearing_def r j intro: acts_trans)
qed

lemma acts_forward: "st_id st = j \<Longrightarrow> acts j s (snd (forwardLocked now later st s))"
proof -
  assume j: "st_id st = j"
  have rest: "acts j s2 (snd (let bounded = (st_RefusalDeadlineMs st \<noteq> 0);
                    at_now = (if bounded then later else now);
                    (expired, s3) = (if bounded then provenRefusalDeadlineExpiredLocked later st s2
                                     else (False, s2))
                in if expired then (False, s3)
                   else case jr_apply at_now (st_id st) (sent_transition at_now st s3) s3 of
                     (None, s4) \<Rightarrow> (False, s4)
                   | (Some _, s4) \<Rightarrow>
                       sendPreparedRelayFrameLocked (RF_payload (payload_of (sd_cfg s4) st)) s4))" for s2
    unfolding Let_def
  proof (rule acts_snd_bind)
    show "acts j s2 (snd (if st_RefusalDeadlineMs st \<noteq> 0 then provenRefusalDeadlineExpiredLocked later st s2
        else (False, s2)))" by (simp add: acts_expired [OF j])
  next
    fix expired s3
    have "acts j s3 (snd (case jr_apply t (st_id st) u s3 of (None, s4) \<Rightarrow> (False, s4)
        | (Some x, s4) \<Rightarrow> sendPreparedRelayFrameLocked (RF_payload (payload_of (sd_cfg s4) st)) s4))" for t u
      unfolding j by (rule acts_snd_bind) (auto intro: acts_send split: option.split)
    then show "acts j s3 (snd (if expired then (False, s3) else case jr_apply
        (if st_RefusalDeadlineMs st \<noteq> 0 then later else now) (st_id st)
        (sent_transition (if st_RefusalDeadlineMs st \<noteq> 0 then later else now) st s3) s3 of
        (None, s4) \<Rightarrow> (False, s4)
        | (Some x, s4) \<Rightarrow> sendPreparedRelayFrameLocked (RF_payload (payload_of (sd_cfg s4) st)) s4))" by simp
  qed
  have "acts j s (snd (case pace_admits s of (False, s1) \<Rightarrow> (False, s1)
      | (True, s1) \<Rightarrow> (case prepareRelayFrameLocked s1 of (False, s2) \<Rightarrow> (False, s2) | (True, s2) \<Rightarrow> h s2)))"
    if "\<And>s2. acts j s2 (snd (h s2))" for h
    by (rule acts_snd_bind [OF acts_send(1)])
      (auto split: bool.split intro!: acts_snd_bind [OF acts_send(2)] that)
  from this [OF rest] show ?thesis by (simp add: forwardLocked_def)
qed

lemma acts_offer: "st_id st = j \<Longrightarrow> acts j s (offer now later st s)"
  using acts_forward [of st j s now later]
  by (cases "forwardLocked now later st s") (auto simp: offer_def intro: acts_trans)

lemma acts_offer_live: "st_id st = j \<Longrightarrow> acts j s (offer_live now later st s)"
  unfolding offer_live_def by (rule acts_trans [OF _ acts_offer]) auto

lemma acts_wait: "st_id st = j \<Longrightarrow> acts j s (wait_or_bounce now why st s)"
  by (auto simp: wait_or_bounce_def Let_def acts_bounce)

lemma acts_tick_pending: "st_id st = j \<Longrightarrow> acts j s (tick_pending now later st s)"
  unfolding tick_pending_def
  by (rule acts_bind [OF acts_expired])
    (auto split: bool.split intro!: acts_offer_live acts_reroute acts_bind [OF acts_reroute] acts_wait)

lemma acts_tick_refused:
  assumes j: "st_id st = j"
  shows "acts j s (tick_refused now later st s)"
proof -
  have route: "acts j s (case reroute_clearing now pw st s of (True, s1) \<Rightarrow> s1 | (False, s1) \<Rightarrow> f s1)"
    if "\<And>s1. acts j s1 (f s1)" for f pw
    by (rule acts_bind [OF acts_reroute [OF j]]) (auto split: bool.split intro: that)
  have again: "acts j s1 (let s2 = (if sh_bounceAt (schedFor (st_id st) s1) = 0 then set_sched (st_id st) f s1 else s1)
      in if now > sh_bounceAt (schedFor (st_id st) s2) then bounceLocked now why st s2
         else if destLiveLocked d s2 then offer now later st s2 else s2)" for f why d s1
  proof -
    let ?s2 = "if sh_bounceAt (schedFor (st_id st) s1) = 0 then set_sched (st_id st) f s1 else s1"
    have "acts j s1 ?s2" by (simp add: j)
    moreover have "acts j ?s2 (if now > sh_bounceAt (schedFor (st_id st) ?s2) then bounceLocked now why st ?s2
         else if destLiveLocked d ?s2 then offer now later st ?s2 else ?s2)"
      by (intro acts_if acts_bounce [OF j] acts_offer [OF j] acts_refl)
    ultimately show ?thesis unfolding Let_def by (rule acts_trans)
  qed
  show ?thesis
    unfolding tick_refused_def Let_def [of "if st_RerouteProof st = [] then ''peer_refused'' else st_RerouteProof st"]
    by (intro acts_if acts_reroute [OF j] route again acts_wait [OF j] acts_offer_live [OF j])
qed

lemma acts_tickOutbound: "keyed s \<Longrightarrow> acts j s (tickOutbound now later j s)"
  using keyedD [of s j]
  by (auto simp: tickOutbound_def acts_lose acts_tick_pending acts_tick_refused split: option.split handoff.split)

section \<open>The handlers of an arrival\<close>

lemma acts_deliver: "st_id st = j \<Longrightarrow> acts j s (deliverLocked now st s)"
  unfolding deliverLocked_def Let_def
  by (auto split: option.split intro!: acts_bind [OF acts_jr] acts_trans [OF acts_trans [OF acts_wire(5) acts_send(4)] acts_clock])

lemma acts_ackUpstream: "st_id st = j \<Longrightarrow> acts j s (ackUpstreamLocked now st s)"
  unfolding ackUpstreamLocked_def
  by (rule acts_bind [OF acts_sendRelay]) (auto split: bool.split)

lemma acts_tickInbound: "st_id st = j \<Longrightarrow> acts j s (tickInbound now st s)"
  by (auto simp: tickInbound_def Let_def acts_deliver split: option.split
      intro: acts_trans [OF acts_clock acts_ackUpstream])

section \<open>What they leave alone\<close>

text \<open>The rest of the sidecar: configuration, sessions, the map, and another entry with its clocks.\<close>

definition leaves :: "bytes \<Rightarrow> sidecar \<Rightarrow> sidecar \<Rightarrow> bool" where
  "leaves k s s' = (get s' k = get s k \<and> schedFor k s' = schedFor k s)"

definition same_world :: "sidecar \<Rightarrow> sidecar \<Rightarrow> bool" where
  "same_world s s' = (sd_cfg s' = sd_cfg s \<and> sd_neighbours s' = sd_neighbours s \<and> sd_status s' = sd_status s \<and>
     sd_slot s' = sd_slot s \<and> sd_relayReady s' = sd_relayReady s \<and> sd_mod s' = sd_mod s \<and>
     (sd_disk s = [] \<longrightarrow> sd_disk s' = []) \<and>
     (map_ok (jm_states (sd_mem s)) \<longrightarrow> map_ok (jm_states (sd_mem s'))))"

lemma same_world_refl [simp, intro]: "same_world s s"
  by (simp add: same_world_def)

lemma same_world_trans [trans]: "same_world s s' \<Longrightarrow> same_world s' s'' \<Longrightarrow> same_world s s''"
  by (simp add: same_world_def)

lemma status_rec_map_ok: "map_ok (jm_states m) \<Longrightarrow> map_ok (jm_states (apply_rec (status_record t k u) m))"
  by (simp add: apply_rec_def status_record_def split: option.split)

lemma act_same_world: "act j s s' \<Longrightarrow> same_world s s'"
proof (induction rule: act.induct)
  case (act_apply now u s r s')
  note f = jr_apply_frame [OF act_apply]
  have "sd_mod s' = sd_mod s" "sd_disk s = [] \<longrightarrow> sd_disk s' = []"
    "map_ok (jm_states (sd_mem s)) \<longrightarrow> map_ok (jm_states (sd_mem s'))"
    using act_apply by (auto simp: jr_apply_def Let_def pop_def status_rec_map_ok split: option.splits prod.splits
        if_splits list.splits)
  with f show ?case by (simp add: same_world_def)
qed (simp_all add: same_world_def set_sched_def del_sched_def)

lemma acts_same_world: "acts j s s' \<Longrightarrow> same_world s s'"
  unfolding acts_def by (induction rule: rtranclp_induct) (auto intro: same_world_trans act_same_world)

lemma schedFor_other:
  "j \<noteq> k \<Longrightarrow> schedFor k (set_sched j f s) = schedFor k s" "j \<noteq> k \<Longrightarrow> schedFor k (del_sched j s) = schedFor k s"
  by (simp_all add: schedFor_def set_sched_def del_sched_def update_conv' delete_conv')

lemma act_leaves: "act j s s' \<Longrightarrow> j \<noteq> k \<Longrightarrow> leaves k s s'"
proof (induction rule: act.induct)
  case (act_apply now u s r s')
  have "get s' k = get s k"
    by (rule sidecar_store.update_other [OF jr_apply_update [OF act_apply.hyps]]) (use act_apply.prems in simp)
  moreover have "sd_sched s' = sd_sched s" by (rule jr_apply_frame(6) [OF act_apply.hyps])
  ultimately show ?case by (simp add: leaves_def schedFor_def)
next
  case act_wire
  show ?case by (simp add: leaves_def schedFor_def get_def)
qed (simp_all add: leaves_def schedFor_other)

lemma acts_leaves: "acts j s s' \<Longrightarrow> j \<noteq> k \<Longrightarrow> leaves k s s'"
  unfolding acts_def by (induction rule: rtranclp_induct) (auto simp: leaves_def dest: act_leaves [of j _ _ k])

end
