(* ===== verification/CustodyReturn.thy ===== *)
theory CustodyReturn imports CustodyClaims CustodyFrame begin

text \<open>
  Progress of an export no world takes: one that never found a lane comes home when its clock has
  passed and no acknowledgement is owed any more, over whole ticks; and one re-route of an export that
  was refused goes to a world that has not refused it, or home.
\<close>

section \<open>An export without a lane\<close>

definition no_lane :: "bytes \<Rightarrow> state \<Rightarrow> sidecar \<Rightarrow> bool" where
  "no_lane k st s =
     (\<not> destLiveLocked (en_DestSlot (st_Entry st)) s \<and>
      map_of (sd_neighbours s) (en_Edge (st_Entry st)) = None \<and> sd_disk s = [])"

text \<open>Where such an export is: on its way back into its own world, or still waiting with its clock set to
  at most \<open>bound\<close>.\<close>

definition back_home :: "bytes \<Rightarrow> state \<Rightarrow> sidecar \<Rightarrow> bool" where
  "back_home k st s = (\<exists>st'. get s k = Some st' \<and> st_Direction st' = D_in \<and> st_BounceBack st' \<and>
     (st_Status st' = S_open \<or> st_Status st' = S_in_flight) \<and> st_Handoff st' = H_done \<and>
     en_Payload (st_Entry st') = en_Payload (st_Entry st))"

lemma back_home_sched [simp]: "back_home k st (set_sched j f s) = back_home k st s"
  by (simp add: back_home_def)

lemma no_lane_sched [simp]: "no_lane k st (set_sched j f s) = no_lane k st s"
  by (simp add: no_lane_def destLiveLocked_def set_sched_def)

definition homebound :: "bytes \<Rightarrow> state \<Rightarrow> time \<Rightarrow> sidecar \<Rightarrow> bool" where
  "homebound k st bound s =
     (back_home k st s \<or>
      (get s k = Some st \<and> no_lane k st s \<and> sh_bounceAt (schedFor k s) \<noteq> 0 \<and>
         sh_bounceAt (schedFor k s) \<le> bound))"

lemma bounce_homebound:
  assumes "get s k = Some st" and "st_id st = k" and "sd_disk s = []" and "st_Status st \<noteq> S_done"
  shows "back_home k st (bounceLocked now why st s)"
proof -
  define u where "u = no_upd\<lparr>upd_Status := S_open, upd_Direction := D_in, upd_BounceBack := Some True,
      upd_Attempt := Some 0, upd_Handoff := H_done, upd_Note := ''bounced: '' @ why\<rparr>"
  have k: "get s (st_id st) = Some st" using assms by simp
  obtain s' where "jr_apply now (st_id st) u s = (Some (updated u st), s')"
    "get s' = (get s)(st_id st \<mapsto> updated u st)" by (rule jr_apply_ok [OF k assms(3)])
  then have "get (bounceLocked now why st s) k = Some (updated u st)"
    using assms(2) by (simp add: bounceLocked_def u_def)
  moreover have "st_Handoff (updated u st) = H_done" by (simp add: updated_handoff u_def)
  ultimately show ?thesis using assms(4) by (simp add: back_home_def updated_fields u_def)
qed

text \<open>Without a lane a re-route does nothing, or brings the export home at once.\<close>

lemma no_lane_reroute:
  assumes "no_lane k st s" and "st_Handoff st = H_pending" and "st_RefusalDeadlineMs st = 0"
  shows "rerouteLocked now ''never_sent'' st s = (False, s) \<or>
    (\<exists>why. rerouteLocked now ''never_sent'' st s = (True, bounceLocked now why st s))"
proof -
  have "next_destination st ''never_sent'' s = 0"
    using assms by (simp add: next_destination_def refusal_chain_def no_lane_def)
  then show ?thesis using assms(2,3) by (auto simp: rerouteLocked_def Let_def)
qed

lemma no_lane_tick:
  assumes "get s k = Some st" "st_id st = k" "st_Handoff st = H_pending" "st_RefusalDeadlineMs st = 0"
    and "st_Status st = S_open \<or> st_Status st = S_in_flight" and "no_lane k st s"
  shows "tickOutbound now later k s = wait_or_bounce now ''no deliverable slot'' st s \<or>
    (\<exists>why. tickOutbound now later k s = set_sched k clear_clocks (bounceLocked now why st s))"
proof -
  have live: "\<not> destLiveLocked (en_DestSlot (st_Entry st)) s" using assms(6) by (simp add: no_lane_def)
  have "tickOutbound now later k s = tick_pending now later st s"
    using assms(1,3,5) by (auto simp: tickOutbound_def)
  moreover have "provenRefusalDeadlineExpiredLocked now st s = (False, s)"
    using assms(4) by (simp add: provenRefusalDeadlineExpiredLocked_def)
  ultimately show ?thesis
    using no_lane_reroute [OF assms(6,3,4), of now] live assms(2,4)
    by (auto simp: tick_pending_def reroute_clearing_def)
qed

lemma homebound_tick:
  assumes "homebound k st bound s" and "st_id st = k" and "st_Handoff st = H_pending"
    and "st_RefusalDeadlineMs st = 0" and "st_Status st = S_open \<or> st_Status st = S_in_flight"
  shows "homebound k st bound (tickOutbound now later k s) \<and>
    (bound < now \<longrightarrow> back_home k st (tickOutbound now later k s))"
  using assms(1) unfolding homebound_def [of k st bound s]
proof (elim disjE conjE)
  assume h: "back_home k st s"
  then have "tickOutbound now later k s = s" by (auto simp: back_home_def tickOutbound_def)
  with h show ?thesis by (simp add: homebound_def)
next
  assume g: "get s k = Some st" and lane: "no_lane k st s"
    and clock: "sh_bounceAt (schedFor k s) \<noteq> 0" "sh_bounceAt (schedFor k s) \<le> bound"
  have disk: "sd_disk s = []" and unfinished: "st_Status st \<noteq> S_done"
    using lane assms(5) by (auto simp: no_lane_def)
  note home = bounce_homebound [OF g assms(2) disk unfinished, of now]
  have "homebound k st bound s" by (simp add: homebound_def g lane clock)
  with no_lane_tick [OF g assms(2-5) lane, of now later] home clock assms(2)
  show ?thesis by (auto simp: wait_or_bounce_def Let_def homebound_def split: if_splits)
qed

lemma first_tick_homebound:
  assumes "get s k = Some st" "st_id st = k" "st_Handoff st = H_pending" "st_RefusalDeadlineMs st = 0"
    and "st_Status st = S_open \<or> st_Status st = S_in_flight" and "no_lane k st s"
    and "0 < t0 + cf_BounceTimeout (sd_cfg s)" "sh_bounceAt (schedFor k s) \<le> t0 + cf_BounceTimeout (sd_cfg s)"
  shows "homebound k st (t0 + cf_BounceTimeout (sd_cfg s)) (tickOutbound t0 l0 k s)"
proof (cases "sh_bounceAt (schedFor k s) = 0")
  case False
  with assms(1,6,8) have "homebound k st (t0 + cf_BounceTimeout (sd_cfg s)) s" by (simp add: homebound_def)
  from homebound_tick [OF this assms(2-5)] show ?thesis by blast
next
  case True
  have disk: "sd_disk s = []" and unfinished: "st_Status st \<noteq> S_done" using assms(5,6) by (auto simp: no_lane_def)
  from no_lane_tick [OF assms(1-6), of t0 l0] show ?thesis
  proof (elim disjE exE)
    assume w: "tickOutbound t0 l0 k s = wait_or_bounce t0 ''no deliverable slot'' st s"
    let ?s = "set_sched k (\<lambda>sc. sc\<lparr>sh_bounceAt := t0 + cf_BounceTimeout (sd_cfg s)\<rparr>) s"
    have "tickOutbound t0 l0 k s = ?s" using w True assms(2) by (simp add: wait_or_bounce_def Let_def)
    moreover have "schedFor k ?s = (schedFor k s)\<lparr>sh_bounceAt := t0 + cf_BounceTimeout (sd_cfg s)\<rparr>"
      by (simp add: schedFor_def set_sched_def update_conv)
    ultimately show ?thesis using assms(1,6,7) by (simp add: homebound_def)
  next
    fix why assume "tickOutbound t0 l0 k s = set_sched k clear_clocks (bounceLocked t0 why st s)"
    with bounce_homebound [OF assms(1,2) disk unfinished, of t0 why] show ?thesis by (simp add: homebound_def)
  qed
qed

section \<open>Whole ticks\<close>

text \<open>The other entries of a tick leave this one alone, and an arrival that was bounced stays an arrival.\<close>

lemma back_home_leaves: "leaves k s s' \<Longrightarrow> back_home k st s \<Longrightarrow> back_home k st s'"
  by (simp add: leaves_def back_home_def)

lemma no_lane_world: "same_world s s' \<Longrightarrow> no_lane k st s \<Longrightarrow> no_lane k st s'"
  by (auto simp: same_world_def no_lane_def destLiveLocked_def)

lemma back_home_inbound:
  assumes "back_home k st s" "st_id x = k" "st_Status x \<noteq> S_done"
  shows "back_home k st (tickInbound now x s)"
proof -
  obtain y where y: "get s k = Some y" "st_Direction y = D_in" "st_BounceBack y" "st_Handoff y = H_done"
      "st_Status y = S_open \<or> st_Status y = S_in_flight" "en_Payload (st_Entry y) = en_Payload (st_Entry st)"
    using assms(1) by (auto simp: back_home_def)
  let ?u = "no_upd\<lparr>upd_Status := S_in_flight, upd_Attempt := Some (st_Attempt x + 1)\<rparr>"
  obtain r s1 where a: "jr_apply now k ?u s = (r, s1)" by fastforce
  have "st_Handoff (updated ?u y) = H_done" using y(4)
    by (simp add: updated_def apply_handoff_def status_record_def no_upd_def del: apply_status_updated)
  then have "back_home k st s1" using jr_apply_gets [OF a] y by (auto simp: back_home_def updated_fields no_upd_def)
  then have "back_home k st (deliverLocked now x s)"
    using assms(1,2) a by (cases r) (simp_all add: deliverLocked_def back_home_def Let_def)
  then show ?thesis using assms by (auto simp: tickInbound_def Let_def split: option.split)
qed

definition entries_fit :: "sidecar \<Rightarrow> bool" where
  "entries_fit s = (keyed s \<and> map_ok (jm_states (sd_mem s)))"

lemma entries_fit_listed:
  assumes "entries_fit s" "x \<in> set (jr_list s)"
  shows "get s (st_id x) = Some x"
proof -
  obtain j where "(j, x) \<in> set (jm_states (sd_mem s))" using assms(2) by (auto simp: jr_list_def ordered_def)
  then have "get s j = Some x" using assms(1) by (simp add: entries_fit_def get_def lookup_def map_ok_map_of)
  with keyedD [of s j x] assms(1) show ?thesis by (simp add: entries_fit_def)
qed

lemma tickInbound_fit: "entries_fit s \<Longrightarrow> entries_fit (tickInbound now x s)"
  using thrifty_keyed [OF tickInbound_thrifty, of s now x] acts_same_world [OF acts_tickInbound [OF refl], of s now x]
  by (simp add: entries_fit_def same_world_def)

lemma tickOutbound_fit:
  assumes "entries_fit s"
  shows "entries_fit (tickOutbound now later j s)"
proof -
  have k: "keyed s" using assms by (simp add: entries_fit_def)
  from thrifty_keyed [OF quiet_thrifty [OF tickOutbound_quiet [OF k]] k]
    acts_same_world [OF acts_tickOutbound [OF k]] assms
  show ?thesis by (simp add: entries_fit_def same_world_def)
qed

lemma tick_one_fit: "entries_fit s \<Longrightarrow> entries_fit (tick_one now later p x s)"
  by (simp add: tick_one_def tickInbound_fit tickOutbound_fit split: direction.split)

lemma tick_one_other:
  assumes "entries_fit s" "st_id x \<noteq> k"
  shows "leaves k s (tick_one now later p x s)" "same_world s (tick_one now later p x s)"
  using assms acts_leaves [OF acts_tickInbound [OF refl] assms(2)] acts_leaves [OF acts_tickOutbound assms(2)]
    acts_same_world [OF acts_tickInbound [OF refl]] acts_same_world [OF acts_tickOutbound]
  by (auto simp: tick_one_def entries_fit_def leaves_def split: direction.split)

text \<open>The purge at the end keeps it, since it is not finished.\<close>

lemma purge_rec_map_ok: "map_ok (jm_states m) \<Longrightarrow> map_ok (jm_states (apply_rec (purge_record t k) m))"
  by (simp add: apply_rec_def purge_record_def zero_rec_def split: option.split)

lemma purge_entries_world:
  "purge_entries now cutoff sts s = (ks, s') \<Longrightarrow> same_world s s' \<and> sd_sched s' = sd_sched s"
proof (induction sts arbitrary: s ks s')
  case (Cons x sts)
  show ?case
  proof (cases "purge_candidate cutoff x \<and> fst (pop (sd_disk s))")
    case True
    let ?s1 = "s\<lparr>sd_disk := snd (pop (sd_disk s)), sd_mem := apply_rec (purge_record now (st_id x)) (sd_mem s)\<rparr>"
    have "same_world s ?s1" by (auto simp: same_world_def pop_def purge_rec_map_ok)
    moreover obtain js where "purge_entries now cutoff sts ?s1 = (js, s')"
      using Cons.prems True by (auto split: prod.splits)
    note Cons.IH [OF this]
    ultimately show ?thesis by (auto intro: same_world_trans)
  qed (use Cons in \<open>auto simp: same_world_def pop_def split: if_splits prod.splits list.splits\<close>)
qed simp

lemma tick_purge_other:
  assumes "entries_fit s" "get s k = Some y" "st_Status y \<noteq> S_done"
  shows "leaves k s (snd (tick_purge now s))" "same_world s (snd (tick_purge now s))" "entries_fit (snd (tick_purge now s))"
proof -
  obtain ks s' where p: "tick_purge now s = (ks, s')" by fastforce
  note e = tick_purge_effect [OF p]
  have "k \<notin> set ks"
    using e(4) entries_fit_listed [OF assms(1)] assms(2,3) by (fastforce simp: purge_candidate_def)
  have w: "same_world s s' \<and> sd_sched s' = sd_sched s"
    using p purge_entries_world [of now _ "jr_list s" "s\<lparr>sd_lastPurge := now\<rparr>" ks s']
    by (auto simp: tick_purge_def same_world_def split: if_splits)
  then show "leaves k s (snd (tick_purge now s))" "same_world s (snd (tick_purge now s))"
    using e(1) \<open>k \<notin> set ks\<close> by (simp_all add: p leaves_def schedFor_def)
  show "entries_fit (snd (tick_purge now s))"
    using assms(1) w e(1) by (auto simp: p entries_fit_def keyed_def named_def same_world_def split: if_splits)
qed

text \<open>A loop over the entries: what every entry keeps, and what the turn of this one brings about.\<close>

lemma fold_reaches:
  assumes "\<And>x s. x \<in> set xs \<Longrightarrow> \<not> key x \<Longrightarrow> P s \<Longrightarrow> P (f x s)" "\<And>x s. x \<in> set xs \<Longrightarrow> key x \<Longrightarrow> P s \<Longrightarrow> Q (f x s)"
    and "\<And>x s. x \<in> set xs \<Longrightarrow> Q s \<Longrightarrow> Q (f x s)" "P s"
  shows "if (\<exists>x \<in> set xs. key x) then Q (fold f xs s) else P (fold f xs s)"
proof -
  have q: "Q s \<Longrightarrow> Q (fold f ys s)" if "set ys \<subseteq> set xs" for ys s
    using that assms(3) by (induction ys arbitrary: s) auto
  have "set ys \<subseteq> set xs \<Longrightarrow> P s \<Longrightarrow> if (\<exists>x \<in> set ys. key x) then Q (fold f ys s) else P (fold f ys s)" for ys s
  proof (induction ys arbitrary: s)
    case (Cons y ys)
    show ?case
    proof (cases "key y")
      case True
      with Cons.prems assms(2) q [of ys "f y s"] show ?thesis by auto
    next
      case False
      with Cons.prems assms(1) Cons.IH [of "f y s"] show ?thesis by auto
    qed
  qed simp
  with assms(4) show ?thesis by blast
qed

text \<open>Waiting, from before its clock was set.\<close>

definition waits :: "bytes \<Rightarrow> state \<Rightarrow> time \<Rightarrow> sidecar \<Rightarrow> bool" where
  "waits k st bound s = (get s k = Some st \<and> no_lane k st s \<and> sh_bounceAt (schedFor k s) \<le> bound)"

lemma waits_other: "leaves k s s' \<Longrightarrow> same_world s s' \<Longrightarrow> waits k st bound s \<Longrightarrow> waits k st bound s'"
  by (auto simp: waits_def leaves_def dest: no_lane_world)

lemma homebound_other: "leaves k s s' \<Longrightarrow> same_world s s' \<Longrightarrow> homebound k st bound s \<Longrightarrow> homebound k st bound s'"
  by (auto simp: homebound_def leaves_def back_home_def dest: no_lane_world)

text \<open>An acknowledgement that is owed after the drain takes the exports' turn.\<close>

definition ack_owed :: "time \<Rightarrow> sidecar \<Rightarrow> bool" where
  "ack_owed now s = hasPendingAckLocked (drain_acks now (jr_list s) s)"

lemma drain_keeps:
  assumes "entries_fit s" "get s k = Some y" "\<not> is_done_inbound y"
  shows "leaves k s (drain_acks now (jr_list s) s)" "same_world s (drain_acks now (jr_list s) s)"
    "entries_fit (drain_acks now (jr_list s) s)"
proof -
  let ?f = "\<lambda>x s. if is_done_inbound x then tickInbound now x s else s"
  have one: "entries_fit t \<Longrightarrow> leaves k t (?f x t) \<and> same_world t (?f x t) \<and> entries_fit (?f x t)" if "x \<in> set (jr_list s)" for x t
  proof (cases "is_done_inbound x")
    case True
    with entries_fit_listed [OF assms(1) that] assms(2,3) have "st_id x \<noteq> k" by auto
    with True show "entries_fit t \<Longrightarrow> ?thesis"
      using acts_leaves [OF acts_tickInbound [OF refl]] acts_same_world [OF acts_tickInbound [OF refl]] tickInbound_fit by auto
  qed (simp add: leaves_def)
  have "set xs \<subseteq> set (jr_list s) \<Longrightarrow> entries_fit t \<Longrightarrow> leaves k t (fold ?f xs t) \<and> same_world t (fold ?f xs t) \<and>
      entries_fit (fold ?f xs t)" for xs t
  proof (induction xs arbitrary: t)
    case (Cons x xs)
    then have "leaves k t (?f x t) \<and> same_world t (?f x t) \<and> entries_fit (?f x t)" using one by simp
    with Cons.IH [of "?f x t"] Cons.prems(1) show ?case by (auto simp: leaves_def intro: same_world_trans)
  qed (simp add: leaves_def)
  from this [of "jr_list s" s] assms(1) show "leaves k s (drain_acks now (jr_list s) s)"
    "same_world s (drain_acks now (jr_list s) s)" "entries_fit (drain_acks now (jr_list s) s)"
    by (simp_all add: drain_acks_def)
qed

text \<open>An export that nobody was ever offered.\<close>

definition never_sent :: "bytes \<Rightarrow> state \<Rightarrow> bool" where
  "never_sent k st = (st_id st = k \<and> st_Direction st = D_out \<and> st_Handoff st = H_pending \<and>
     st_RefusalDeadlineMs st = 0 \<and> (st_Status st = S_open \<or> st_Status st = S_in_flight))"

lemma home_tick:
  assumes "entries_fit s" "back_home k st s"
  shows "entries_fit (tick now later s) \<and> back_home k st (tick now later s)"
proof -
  from assms(2) obtain y where y: "get s k = Some y" "st_Direction y = D_in" "st_Status y \<noteq> S_done"
    by (auto simp: back_home_def)
  let ?s1 = "drain_acks now (jr_list s) s" and ?I = "\<lambda>s. entries_fit s \<and> back_home k st s"
  have "\<not> is_done_inbound y" using y(3) by (simp add: is_done_inbound_def)
  note d = drain_keeps [OF assms(1) y(1) this, of now]
  have i1: "?I ?s1" using d(3) back_home_leaves [OF d(1) assms(2)] by simp
  have "?I (tick_one now later p x t)" if x: "x \<in> set (jr_list s)" and t: "?I t" for p x t
  proof (cases "st_id x = k")
    case True
    then have "x = y" using entries_fit_listed [OF assms(1) x] y(1) by simp
    with t True y tickInbound_fit back_home_inbound [of k st t x now] show ?thesis by (auto simp: tick_one_def is_done_inbound_def)
  next
    case False
    with t tick_one_other [OF conjunct1 [OF t] False] show ?thesis by (blast intro: tick_one_fit back_home_leaves)
  qed
  then have "?I (fold (tick_one now later p) (jr_list s) t)" if "?I t" for p t
    using fold_reaches [of "jr_list s" "\<lambda>_. False" ?I "tick_one now later p" "\<lambda>_. True" t] that by auto
  with i1 have i2: "?I (tick_entries now later s)" by (simp add: tick_entries_def Let_def)
  then obtain z where "get (tick_entries now later s) k = Some z" "st_Status z \<noteq> S_done" by (auto simp: back_home_def)
  from tick_purge_other [OF _ this, of now] i2 show ?thesis by (auto simp: tick_def intro: back_home_leaves)
qed

text \<open>One tick of an export that waits: nothing while an acknowledgement is owed, else its turn comes.\<close>

lemma waiting_tick:
  assumes "entries_fit s" "get s k = Some st" "P s"
    and "\<And>s s'. leaves k s s' \<Longrightarrow> same_world s s' \<Longrightarrow> P s \<Longrightarrow> P s'" "\<And>s. P s \<Longrightarrow> get s k = Some st \<or> back_home k st s"
    and "\<And>s s'. leaves k s s' \<Longrightarrow> same_world s s' \<Longrightarrow> Q s \<Longrightarrow> Q s'" "\<And>s. Q s \<Longrightarrow> get s k = Some st \<or> back_home k st s"
    and "\<And>s. P s \<Longrightarrow> Q (tickOutbound now later k s)" "\<And>s. Q s \<Longrightarrow> Q (tickOutbound now later k s)"
    and "never_sent k st"
  shows "entries_fit (tick now later s) \<and> (if ack_owed now s then P (tick now later s) else Q (tick now later s))"
proof -
  let ?s1 = "drain_acks now (jr_list s) s"
  have own: "st_id st = k" and out: "st_Direction st = D_out" and unfinished: "st_Status st = S_open \<or> st_Status st = S_in_flight"
    using assms(10) by (auto simp: never_sent_def)
  then have nd: "\<not> is_done_inbound st" by (simp add: is_done_inbound_def)
  note d = drain_keeps [OF assms(1,2) nd, of now]
  have mine: "x = st" if "x \<in> set (jr_list s)" "st_id x = k" for x
    using entries_fit_listed [OF assms(1) that(1)] assms(2) that(2) by simp
  have there: "\<exists>x \<in> set (jr_list s). st_id x = k"
    using assms(2) own by (force simp: get_def lookup_def jr_list_def ordered_def dest: map_of_SomeD)
  have p1: "P ?s1" by (rule assms(4) [OF d(1,2) assms(3)])
  have turn: "tick_one now later p st t = (if p then t else tickOutbound now later k t)" for p t
    using out own by (simp add: tick_one_def is_done_inbound_def)
  let ?p = "hasPendingAckLocked ?s1"
  let ?R = "if ?p then P else Q"
  have "if \<exists>x \<in> set (jr_list s). st_id x = k
    then entries_fit (fold (tick_one now later ?p) (jr_list s) ?s1) \<and> ?R (fold (tick_one now later ?p) (jr_list s) ?s1)
    else entries_fit (fold (tick_one now later ?p) (jr_list s) ?s1) \<and> P (fold (tick_one now later ?p) (jr_list s) ?s1)"
  proof (rule fold_reaches [where P = "\<lambda>t. entries_fit t \<and> P t" and Q = "\<lambda>t. entries_fit t \<and> ?R t"])
    fix x t assume x: "x \<in> set (jr_list s)"
    show "st_id x \<noteq> k \<Longrightarrow> entries_fit t \<and> P t \<Longrightarrow> entries_fit (tick_one now later ?p x t) \<and> P (tick_one now later ?p x t)"
      using tick_one_fit tick_one_other assms(4) by blast
    show "st_id x = k \<Longrightarrow> entries_fit t \<and> P t \<Longrightarrow> entries_fit (tick_one now later ?p x t) \<and> ?R (tick_one now later ?p x t)"
      using mine [OF x] turn tickOutbound_fit assms(8) by (cases ?p) auto
    show "entries_fit t \<and> ?R t \<Longrightarrow> entries_fit (tick_one now later ?p x t) \<and> ?R (tick_one now later ?p x t)"
    proof (cases "st_id x = k")
      case True
      show "entries_fit t \<and> ?R t \<Longrightarrow> ?thesis" using mine [OF x True] turn tickOutbound_fit assms(9) by (cases ?p) auto
    next
      case False
      show "entries_fit t \<and> ?R t \<Longrightarrow> ?thesis"
        using tick_one_fit tick_one_other [OF _ False] assms(4,6) by (cases ?p) (simp; blast)+
    qed
  qed (use d(3) p1 in simp)
  then have e: "entries_fit (tick_entries now later s)" "?R (tick_entries now later s)"
    using there by (simp_all add: tick_entries_def Let_def)
  then obtain z where z: "get (tick_entries now later s) k = Some z" "st_Status z \<noteq> S_done"
    using assms(5,7) unfinished by (cases ?p) (force simp: back_home_def)+
  note o = tick_purge_other [OF e(1) z, of now]
  show ?thesis using o e(2) assms(4) [OF o(1,2)] assms(6) [OF o(1,2)] by (auto simp: tick_def ack_owed_def)
qed

lemma homebound_whole_tick:
  assumes "entries_fit s" "homebound k st b s" "never_sent k st"
  shows "entries_fit (tick now later s)" "homebound k st b (tick now later s)"
    "b < now \<Longrightarrow> \<not> ack_owed now s \<Longrightarrow> back_home k st (tick now later s)"
proof -
  have "entries_fit (tick now later s) \<and> homebound k st b (tick now later s) \<and>
    (b < now \<and> \<not> ack_owed now s \<longrightarrow> back_home k st (tick now later s))"
  proof (cases "back_home k st s")
    case True
    with home_tick [OF assms(1)] show ?thesis by (simp add: homebound_def)
  next
    case False
    then have g: "get s k = Some st" using assms(2) by (auto simp: homebound_def)
    have n: "st_id st = k" "st_Handoff st = H_pending" "st_RefusalDeadlineMs st = 0"
      "st_Status st = S_open \<or> st_Status st = S_in_flight" using assms(3) by (auto simp: never_sent_def)
    let ?Q = "\<lambda>s. homebound k st b s \<and> (b < now \<longrightarrow> back_home k st s)"
    have "entries_fit (tick now later s) \<and>
      (if ack_owed now s then homebound k st b (tick now later s) else ?Q (tick now later s))"
    proof (rule waiting_tick [where P = "homebound k st b" and Q = ?Q, OF assms(1) g assms(2) homebound_other])
      have turn: "?Q (tickOutbound now later k x)" if "homebound k st b x" for x
        using homebound_tick [OF that n] by blast
      show "?Q (tickOutbound now later k x)" if "homebound k st b x" for x by (rule turn [OF that])
      show "?Q (tickOutbound now later k x)" if "?Q x" for x using turn that by blast
      show "?Q y" if "leaves k x y" "same_world x y" "?Q x" for x y
        using that homebound_other back_home_leaves by blast
      show "get x k = Some st \<or> back_home k st x" if "homebound k st b x" for x using that by (auto simp: homebound_def)
      show "get x k = Some st \<or> back_home k st x" if "?Q x" for x using that by (auto simp: homebound_def)
    qed (use assms(3) in simp_all)
    then show ?thesis by (auto split: if_splits)
  qed
  then show "entries_fit (tick now later s)" "homebound k st b (tick now later s)"
    "b < now \<Longrightarrow> \<not> ack_owed now s \<Longrightarrow> back_home k st (tick now later s)" by blast+
qed

lemma first_whole_tick:
  assumes "entries_fit s" "waits k st (now + cf_BounceTimeout (sd_cfg s)) s" "never_sent k st" "\<not> ack_owed now s"
    and "0 < now + cf_BounceTimeout (sd_cfg s)"
  shows "entries_fit (tick now later s)" "homebound k st (now + cf_BounceTimeout (sd_cfg s)) (tick now later s)"
proof -
  let ?b = "now + cf_BounceTimeout (sd_cfg s)"
  have n: "st_id st = k" "st_Handoff st = H_pending" "st_RefusalDeadlineMs st = 0"
    "st_Status st = S_open \<or> st_Status st = S_in_flight" using assms(3) by (auto simp: never_sent_def)
  have g: "get s k = Some st" using assms(2) by (simp add: waits_def)
  have "entries_fit (tick now later s) \<and> (if ack_owed now s then waits k st ?b (tick now later s) \<and>
      sd_cfg (tick now later s) = sd_cfg s else homebound k st ?b (tick now later s))"
  proof (rule waiting_tick [where P = "\<lambda>x. waits k st ?b x \<and> sd_cfg x = sd_cfg s" and Q = "homebound k st ?b", OF assms(1) g])
    fix x assume x: "waits k st ?b x \<and> sd_cfg x = sd_cfg s"
    then have c: "?b = now + cf_BounceTimeout (sd_cfg x)" by simp
    from x have w: "get x k = Some st" "no_lane k st x" "sh_bounceAt (schedFor k x) \<le> ?b" by (simp_all add: waits_def)
    show "homebound k st ?b (tickOutbound now later k x)" unfolding c
      by (rule first_tick_homebound [OF w(1) n w(2)]) (use assms(5) w(3) c in simp_all)
  next
    show "homebound k st ?b (tickOutbound now later k x)" if "homebound k st ?b x" for x
      using homebound_tick [OF that n] by blast
    show "waits k st ?b y \<and> sd_cfg y = sd_cfg s" if "leaves k x y" "same_world x y" "waits k st ?b x \<and> sd_cfg x = sd_cfg s" for x y
      using that waits_other by (auto simp: same_world_def)
    show "homebound k st ?b y" if "leaves k x y" "same_world x y" "homebound k st ?b x" for x y
      by (rule homebound_other [OF that])
    show "get x k = Some st \<or> back_home k st x" if "waits k st ?b x \<and> sd_cfg x = sd_cfg s" for x
      using that by (simp add: waits_def)
    show "get x k = Some st \<or> back_home k st x" if "homebound k st ?b x" for x using that by (auto simp: homebound_def)
  qed (use assms(2,3) in simp_all)
  then show "entries_fit (tick now later s)" "homebound k st ?b (tick now later s)" using assms(4) by simp_all
qed

text \<open>What may happen meanwhile: further ticks, and anything else, to other entries and around the scheduler, that
  leaves this entry and its schedule alone and opens no lane.\<close>

inductive laneless_step :: "bytes \<Rightarrow> state \<Rightarrow> sidecar \<Rightarrow> sidecar \<Rightarrow> bool" for k st where
  ll_tick: "laneless_step k st s (tick now later s)"
| ll_env: "get s' k = get s k \<Longrightarrow> schedFor k s' = schedFor k s \<Longrightarrow> entries_fit s' \<Longrightarrow> no_lane k st s' \<Longrightarrow>
    laneless_step k st s s'"

lemma laneless_keeps:
  assumes "(laneless_step k st)\<^sup>*\<^sup>* s s'" "entries_fit s" "homebound k st b s" "never_sent k st"
  shows "entries_fit s'" "homebound k st b s'"
proof -
  have "entries_fit s' \<and> homebound k st b s'"
    using assms(1)
  proof (induction rule: rtranclp_induct)
    case (step x y)
    from step.hyps(2) show ?case
    proof cases
      case ll_tick
      with homebound_whole_tick(1,2) [OF conjunct1 [OF step.IH] conjunct2 [OF step.IH] assms(4)] show ?thesis by simp
    next
      case ll_env
      with step.IH show ?thesis by (auto simp: homebound_def back_home_def)
    qed
  qed (use assms in simp)
  then show "entries_fit s'" "homebound k st b s'" by blast+
qed

text \<open>C26: AN EXPORT WITH NO LANE COMES HOME.  Take a sidecar with each entry once, under its own id, in it an
  export that was never sent, whose destination is not live and whose axis has no deliverable neighbour, with no
  clock running or one that ends within the bounce timeout, and a tick of the scheduler that may offer exports (one
  in which no acknowledgement is owed).  Then, whatever ticks follow, with whatever other entries, and whatever else
  happens to other entries and around the scheduler, as long as no lane opens, the disk works and nothing but ticks
  touches this entry: after any such tick later than the first one plus the bounce timeout it is an arrival of its
  own world again, body and all; it does not wait for anybody's answer.\<close>

theorem never_sent_comes_home:
  assumes "entries_fit s" "get s k = Some st" "never_sent k st" "no_lane k st s" "\<not> ack_owed t0 s"
    and "0 < t0 + cf_BounceTimeout (sd_cfg s)" "sh_bounceAt (schedFor k s) \<le> t0 + cf_BounceTimeout (sd_cfg s)"
    and "(laneless_step k st)\<^sup>*\<^sup>* (tick t0 l0 s) s1" "\<not> ack_owed t1 s1" "t0 + cf_BounceTimeout (sd_cfg s) < t1"
  shows "\<exists>st'. get (tick t1 l1 s1) k = Some st' \<and> st_Direction st' = D_in \<and> st_BounceBack st' \<and>
    (st_Status st' = S_open \<or> st_Status st' = S_in_flight) \<and> en_Payload (st_Entry st') = en_Payload (st_Entry st)"
proof -
  have "waits k st (t0 + cf_BounceTimeout (sd_cfg s)) s" using assms(2,4,7) by (simp add: waits_def)
  note first = first_whole_tick [OF assms(1) this assms(3,5,6), of l0]
  note later = laneless_keeps [OF assms(8) first assms(3)]
  from homebound_whole_tick(3) [OF later assms(3,10,9)] show ?thesis by (auto simp: back_home_def)
qed

text \<open>The relay is gone, another world's organism is waiting at the door, and a tick comes in between.\<close>

definition guest :: state where
  "guest = created_state (create_record D_in (sample_entry ''m3'' ''b'') False) (sample_entry ''m3'' ''b'') 2"

definition cut_off :: sidecar where
  "cut_off = (ferry [waiting, guest])\<lparr>sd_neighbours := [], sd_relayReady := False\<rparr>"

lemma never_sent_comes_home_witness:
  "\<exists>st'. get (tick (70 * second) 0 (tick (5 * second) 0 (tick (2 * second) 0 cut_off))) ''m1'' = Some st' \<and>
     st_Direction st' = D_in \<and> st_BounceBack st' \<and> en_Payload (st_Entry st') = ''{}''"
proof -
  have get: "get cut_off = get (ferry [waiting, guest])" by (simp add: cut_off_def get_def fun_eq_iff)
  have fit: "entries_fit cut_off"
    using ferry_keyed [of "[waiting, guest]"] unfolding entries_fit_def keyed_def named_def get
    by (simp add: cut_off_def ferry_def ferry_mem_def map_ok_def guest_def created_state_def create_record_def
        zero_rec_def sample_entry_def)
  have g: "get cut_off ''m1'' = Some waiting" by (simp add: get ferry_get)
  have n: "never_sent ''m1'' waiting" by (simp add: never_sent_def) code_simp
  have l: "no_lane ''m1'' waiting cut_off" by (simp add: no_lane_def destLiveLocked_def cut_off_def ferry_def)
  have o: "\<not> ack_owed (2 * second) cut_off" "\<not> ack_owed (70 * second) (tick (5 * second) 0 (tick (2 * second) 0 cut_off))"
    by code_simp+
  have c: "cf_BounceTimeout (sd_cfg cut_off) = 60 * second" "sh_bounceAt (schedFor ''m1'' cut_off) = 0"
    "en_Payload (st_Entry waiting) = ''{}''" by code_simp+
  have r: "(laneless_step ''m1'' waiting)\<^sup>*\<^sup>* (tick (2 * second) 0 cut_off) (tick (5 * second) 0 (tick (2 * second) 0 cut_off))"
    by (intro r_into_rtranclp ll_tick)
  from never_sent_comes_home [OF fit g n l o(1) _ _ r o(2), of 0] c show ?thesis by (auto simp: second_def)
qed

section \<open>An export that was refused\<close>

text \<open>The destination of a refusal chain is a world it has not tried, and it is deliverable.\<close>

definition fresh_world :: "state \<Rightarrow> sidecar \<Rightarrow> int \<Rightarrow> bool" where
  "fresh_world st s d =
     (\<exists>me c. Find (sd_status s) (sd_slot s) = Some me \<and> c \<in> set (ps_Slots (sd_status s)) \<and> si_Slot c = d \<and>
        d \<noteq> si_Slot me \<and> d \<noteq> en_DestSlot (st_Entry st) \<and> d \<notin> set (st_RefusedSlots st) \<and>
        Deliverable me c = [])"

lemma retry_loop_fresh:
  "retry_loop status me excluded ps = Some c \<Longrightarrow>
     c \<in> set (ps_Slots status) \<and> si_Slot c \<noteq> si_Slot me \<and> si_Slot c \<notin> set excluded \<and> Deliverable me c = []"
  by (auto simp: retry_loop_Some candidate_def status_At_def find_Some_iff)

lemma WalkAfter_retry:
  "WalkAfter status me edge d excluded = Some c \<Longrightarrow> \<exists>ps. retry_loop status me excluded ps = Some c"
  by (auto simp: WalkAfter_def split: option.splits if_splits)

lemma next_destination_fresh:
  assumes "refusal_chain st pw" and "next_destination st pw s = d" and "d \<noteq> 0"
  shows "fresh_world st s d"
proof -
  let ?ex = "en_DestSlot (st_Entry st) # st_RefusedSlots st"
  obtain me where me: "Find (sd_status s) (sd_slot s) = Some me"
    using assms by (auto simp: next_destination_def split: option.splits)
  have "\<exists>ps c. retry_loop (sd_status s) me ?ex ps = Some c \<and> si_Slot c = d"
    using assms me by (auto simp: next_destination_def Let_def WalkAnywhere_def
        split: option.splits if_splits dest!: WalkAfter_retry)
  then show ?thesis using me by (auto simp: fresh_world_def dest!: retry_loop_fresh)
qed

text \<open>ONE RE-ROUTE OF A REFUSED EXPORT.  A re-route of a refusal chain either does nothing at all, or
  brings the export home, or sends it to a deliverable world of the current map that is neither its
  last destination nor any that refused it, and leaves the refused set and the deadline alone; it
  happens at most \<open>maxReroutes\<close> times and, when the relay's proof set a deadline, only before it.
  With a deadline and this world on the map every re-route makes progress.  (Without a deadline a tick of a
  refused export that found no other world offers the one that refused again, until its clock has passed.)\<close>

theorem refusal_chain_moves_on:
  assumes "get s (st_id st) = Some st" and "refusal_chain st pw" and "sd_disk s = []"
    and "rerouteLocked now pw st s = (b, s')"
  shows "(\<not> b \<longrightarrow> s' = s) \<and>
    (b \<longrightarrow> (\<exists>st'. get s' (st_id st) = Some st' \<and> (came_home st' \<or>
       (st_Handoff st' = H_pending \<and> fresh_world st s (en_DestSlot (st_Entry st')) \<and>
        st_RerouteCount st' = st_RerouteCount st + 1 \<and> st_RerouteCount st' \<le> cf_MaxReroutes (sd_cfg s) \<and>
        st_RefusedSlots st' = st_RefusedSlots st \<and> st_RefusalDeadlineMs st' = st_RefusalDeadlineMs st \<and>
        (st_RefusalDeadlineMs st \<noteq> 0 \<longrightarrow> now < time_of_milli (st_RefusalDeadlineMs st)))))) \<and>
    (st_RefusalDeadlineMs st \<noteq> 0 \<and> Find (sd_status s) (sd_slot s) \<noteq> None \<and>
       \<not> CustodyMayHaveMoved (st_Handoff st) \<longrightarrow> b)"
proof (cases "CustodyMayHaveMoved (st_Handoff st)")
  case True
  with assms(4) show ?thesis by (simp add: rerouteLocked_def)
next
  case custody: False
  let ?u = "\<lambda>d. reroute_upd now d pw st" and ?d = "next_destination st pw s"
  have home: "\<exists>st'. get (bounceLocked now why st s) (st_id st) = Some st' \<and> came_home st'" for why
    using bounce_home [OF assms(1,3), of now why] by auto
  obtain s1 where a: "jr_apply now (st_id st) (?u ?d) s = (Some (updated (?u ?d) st), s1)"
    and g: "get s1 = (get s)(st_id st \<mapsto> updated (?u ?d) st)" by (rule jr_apply_ok [OF assms(1,3)])
  have moved: "st_Handoff (updated (?u ?d) st) = H_pending"
    "en_DestSlot (st_Entry (updated (?u ?d) st)) = ?d"
    "st_RerouteCount (updated (?u ?d) st) = st_RerouteCount st + 1"
    "st_RefusedSlots (updated (?u ?d) st) = st_RefusedSlots st"
    "st_RefusalDeadlineMs (updated (?u ?d) st) = st_RefusalDeadlineMs st"
    by (simp_all add: updated_handoff updated_fields reroute_upd_def no_upd_def)
  note fresh = next_destination_fresh [OF assms(2), of s ?d, OF refl]
  show ?thesis
    using assms(4) custody home a g moved fresh
    by (auto simp: rerouteLocked_def Let_def provenRefusalDeadlineExpiredLocked_def split: if_splits)
qed

text \<open>World b was tried: the chain goes on to world c.\<close>

lemma refusal_chain_moves_on_witness:
  "let st = waiting\<lparr>st_Handoff := H_refused, st_RefusedSlots := [2]\<rparr>;
       (b, s') = rerouteLocked 9 ''peer_refused'' st (ferry [st])
   in b \<and> (\<exists>st'. get s' ''m1'' = Some st' \<and> (came_home st' \<or> fresh_world st (ferry [st]) (en_DestSlot (st_Entry st'))))"
proof -
  let ?st = "waiting\<lparr>st_Handoff := H_refused, st_RefusedSlots := [2]\<rparr>"
  obtain b s' where r: "rerouteLocked 9 ''peer_refused'' ?st (ferry [?st]) = (b, s')" by (metis surj_pair)
  have "fst (rerouteLocked 9 ''peer_refused'' ?st (ferry [?st]))" by code_simp
  moreover have "get (ferry [?st]) (st_id ?st) = Some ?st" by (simp add: ferry_get)
  moreover have "sd_disk (ferry [?st]) = []" by (simp add: ferry_def)
  ultimately show ?thesis
    using refusal_chain_moves_on [OF _ _ _ r] r by (auto simp: refusal_chain_def)
qed

end
