(* ===== verification/CustodyArrivals.thy ===== *)
theory CustodyArrivals imports CustodyClaims begin

text \<open>
  What the custody scheduler promises about one organism that arrives, and about the two answers it
  gives: the acknowledgement to the world it came from, and the one to its own mod.
\<close>

section \<open>Counting frames\<close>

lemma deliver_out [simp]: "sd_relayOut (deliverLocked now st s) = sd_relayOut s"
  by (auto simp: deliverLocked_def Let_def set_sched_def sendModLocked_def
      dest: jr_apply_frame(1) split: prod.split option.split)

lemma ackUpstream_out:
  "sd_relayOut (ackUpstreamLocked now st s) = sd_relayOut s \<or>
   sd_relayOut (ackUpstreamLocked now st s) = sd_relayOut s @ [RF_ack (upstream_ack now st s)]"
proof -
  obtain b s1 where r: "sendRelayLocked (RF_ack (upstream_ack now st s)) s = (b, s1)" by (metis surj_pair)
  show ?thesis using sendRelay_cases [OF r]
    by (cases b) (auto simp: ackUpstreamLocked_def r jr_apply_frame(1) [OF prod.collapse [symmetric]])
qed

lemma counts_sched [simp]:
  "acks k (set_sched j f s) = acks k s" "payloads k (set_sched j f s) = payloads k s"
  "acks k (del_sched j s) = acks k s" "payloads k (del_sched j s) = payloads k s"
  "acks k (deliverLocked now st s) = acks k s" "payloads k (deliverLocked now st s) = payloads k s"
  "acks k (sendModLocked m s) = acks k s" "payloads k (sendModLocked m s) = payloads k s"
  by (simp_all add: acks_def payloads_def)

lemma ackUpstream_counts:
  "payloads k (ackUpstreamLocked now st s) = payloads k s"
  "k \<noteq> st_id st \<Longrightarrow> acks k (ackUpstreamLocked now st s) = acks k s"
  using ackUpstream_out [of now st s] by (auto simp: payloads_def acks_def upstream_ack_def)

lemma tickInbound_payloads: "payloads k (tickInbound now st s) = payloads k s"
  by (simp add: tickInbound_def Let_def ackUpstream_counts split: option.split)

lemma tickInbound_acks:
  "k \<noteq> st_id st \<or> st_Status st \<noteq> S_done \<Longrightarrow> acks k (tickInbound now st s) = acks k s"
  by (cases "st_Status st = S_done")
    (simp_all add: tickInbound_def Let_def ackUpstream_counts split: option.split)

lemma fold_same:
  assumes "\<And>x s. x \<in> set xs \<Longrightarrow> I s \<Longrightarrow> I (f x s) \<and> (g (f x s) = g s \<or> P x)" and "I s"
  shows "I (fold f xs s) \<and> (g (fold f xs s) = g s \<or> (\<exists>x \<in> set xs. P x))"
  using assms by (induction xs arbitrary: s) (force+)

lemma fold_keeps: "(\<And>x s. g (f x s) = g s) \<Longrightarrow> g (fold f xs s) = g s"
  by (induction xs arbitrary: s) simp_all

section \<open>Acknowledgements go first\<close>

text \<open>C28: NO PAYLOAD WHILE AN ACKNOWLEDGEMENT IS OWED.  If finished arrivals still await their upstream
  acknowledgement after a tick has drained what it could, that tick puts no payload on the wire,
  whatever exports are waiting; and an export taken while one is owed is journaled and acknowledged
  to the mod but not offered.\<close>

theorem acknowledgements_go_first:
  shows "(hasPendingAckLocked (drain_acks now (jr_list s) s) \<longrightarrow> payloads k (tick now later s) = payloads k s) \<and>
    (hasPendingAckLocked (snd (jr_create D_out (outbound_entry bb now (sd_slot s) d out) s)) \<longrightarrow>
       payloads k (take_export bb now later d out s) = payloads k s)"
proof (intro conjI impI)
  assume pending: "hasPendingAckLocked (drain_acks now (jr_list s) s)"
  have "payloads k (drain_acks now sts s) = payloads k s" for sts
    unfolding drain_acks_def
    by (induction sts arbitrary: s) (simp_all add: tickInbound_payloads)
  moreover have "payloads k (fold (tick_one now later True) sts x) = payloads k x" for sts x
    by (induction sts arbitrary: x) (simp_all add: tick_one_def tickInbound_payloads split: direction.split)
  ultimately show "payloads k (tick now later s) = payloads k s"
    using pending by (simp add: tick_counts tick_entries_def Let_def)
next
  obtain r s1 where c: "jr_create D_out (outbound_entry bb now (sd_slot s) d out) s = (r, s1)" by (metis surj_pair)
  assume "hasPendingAckLocked (snd (jr_create D_out (outbound_entry bb now (sd_slot s) d out) s))"
  then have "hasPendingAckLocked (sendModLocked f s1)" for f
    by (simp add: c hasPendingAckLocked_def jr_list_def)
  then show "payloads k (take_export bb now later d out s) = payloads k s"
    by (cases r) (simp_all add: take_export_def Let_def c payloads_def nackOut_def jr_create_frame(1) [OF c])
qed

text \<open>An arrival that is finished but not yet acknowledged, and an export.\<close>

definition arrived :: state where
  "arrived = (created_state (create_record D_in (sample_entry ''m2'' ''b'') False) (sample_entry ''m2'' ''b'') 2)
     \<lparr>st_Status := S_done\<rparr>"

lemma acknowledgements_go_first_witness:
  "payloads ''m1'' (tick (2 * second) (2 * second) ((ferry [waiting, arrived])\<lparr>sd_admit := [False]\<rparr>)) = 0"
proof -
  let ?s = "(ferry [waiting, arrived])\<lparr>sd_admit := [False]\<rparr>"
  have "hasPendingAckLocked (drain_acks (2 * second) (jr_list ?s) ?s)" by code_simp
  moreover have "payloads ''m1'' ?s = 0" by code_simp
  ultimately show ?thesis using acknowledgements_go_first [of "2 * second" ?s "''m1''" "2 * second"] by simp
qed

section \<open>The acknowledgement upstream\<close>

lemma get_in_list: "get s k = Some st \<Longrightarrow> st \<in> set (jr_list s)"
  by (force simp: get_def lookup_def jr_list_def ordered_def dest: map_of_Some_mem)

lemma tick_acks:
  assumes "keyed s" and "acks k (tick now later s) \<noteq> acks k s"
  shows "\<exists>st \<in> set (jr_list s). st_id st = k \<and> st_Status st = S_done"
proof -
  let ?P = "\<lambda>st. st_id st = k \<and> st_Status st = S_done" and ?s1 = "drain_acks now (jr_list s) s"
  have inb: "keyed (tickInbound now st s) \<and> (acks k (tickInbound now st s) = acks k s \<or> ?P st)"
    if "keyed s" for st s
    using thrifty_keyed [OF tickInbound_thrifty that] tickInbound_acks [of k st now s] by auto
  have outb: "keyed (tickOutbound now later j s) \<and> acks k (tickOutbound now later j s) = acks k s"
    if "keyed s" for j s
    using tickOutbound_quiet [OF that] thrifty_keyed [OF quiet_thrifty [OF tickOutbound_quiet [OF that]] that]
    by (simp add: quiet_def)
  have one: "keyed (tick_one now later p st s) \<and> (acks k (tick_one now later p st s) = acks k s \<or> ?P st)"
    if "keyed s" for p st s
    using that inb [OF that] outb [OF that] by (simp add: tick_one_def split: direction.split)
  have a: "keyed ?s1 \<and> (acks k ?s1 = acks k s \<or> (\<exists>x \<in> set (jr_list s). ?P x))"
    unfolding drain_acks_def using inb assms(1) by (intro fold_same [where I = keyed]) auto
  have b: "keyed (fold (tick_one now later p) (jr_list s) ?s1) \<and>
      (acks k (fold (tick_one now later p) (jr_list s) ?s1) = acks k ?s1 \<or> (\<exists>x \<in> set (jr_list s). ?P x))" for p
    using one a by (intro fold_same [where I = keyed]) auto
  show ?thesis
    using a b [of "hasPendingAckLocked ?s1"] assms(2)
    by (auto simp: tick_counts tick_entries_def Let_def)
qed

lemma reply_counts:
  "acks k (snd (sendRelayLocked (RF_nack n) s)) = acks k s"
  "j \<noteq> k \<Longrightarrow> acks k (ackUpstreamNow now j d e dup s) = acks k s"
  using sendRelay_cases [OF prod.collapse [symmetric], of "RF_nack n" s]
    sendRelay_cases [OF prod.collapse [symmetric], of _ s]
  by (auto simp: acks_def ackUpstreamNow_def)

lemma ack_now_only: "acks k (ackUpstreamNow now j d e dup s) \<noteq> acks k s \<Longrightarrow> j = k"
  using reply_counts(2) by blast

lemma arrival_acks:
  assumes "acks k (onMigrationPayload bb now adm h d s) \<noteq> acks k s"
  shows "\<exists>st. get s k = Some st \<and> (st_Status st = S_done \<or> st_AckedUpstream st)"
proof -
  have "acks k (take_custody bb now adm p s) = acks k s" for p
    using jr_create_frame(1) [OF prod.collapse [symmetric], of D_in "inbound_entry bb now p" s]
    by (auto simp: take_custody_def Let_def nackUpstreamAfter_def reply_counts acks_def [symmetric]
        split: option.split prod.split) (simp_all add: acks_def)
  with assms show ?thesis
    by (auto simp: onMigrationPayload_def split: option.splits if_splits dest!: ack_now_only)
qed

lemma in_ack_acks:
  assumes "acks k (onMigrateInAck now a s) \<noteq> acks k s" and "keyed s"
  shows "\<exists>st. get (onMigrateInAck now a s) k = Some st \<and> st_Status st = S_done"
proof -
  define u where "u = no_upd\<lparr>upd_Status := S_done, upd_Duplicate := ma_Duplicate a,
      upd_CompletedAt := Some (unix_milli now)\<rparr>"
  obtain r s1 where c: "jr_apply now (ma_MigrationID a) u s = (r, s1)" by (metis surj_pair)
  have same: "acks k s1 = acks k s" using jr_apply_frame(1) [OF c] by (simp add: acks_def)
  let ?s2 = "del_sched (ma_MigrationID a) s1"
  obtain x where x: "r = Some x" and out: "onMigrateInAck now a s = ackUpstreamLocked now x ?s2"
    and changed: "acks k (ackUpstreamLocked now x ?s2) \<noteq> acks k ?s2"
  proof -
    have "onMigrateInAck now a s \<in> {s, s1, ?s2} \<or>
        (\<exists>x. r = Some x \<and> onMigrateInAck now a s = ackUpstreamLocked now x ?s2)"
      by (simp add: onMigrateInAck_def c [unfolded u_def] Let_def split: option.split)
    then show thesis using assms(1) same that by auto
  qed
  from jr_apply_gets [OF c] x obtain st where st: "get s (ma_MigrationID a) = Some st" "x = updated u st"
    "get s1 = (get s)(ma_MigrationID a \<mapsto> x)" by auto
  have k: "k = st_id x" using changed ackUpstream_counts(2) by blast
  have "st_id x = ma_MigrationID a" using keyedD [OF assms(2) st(1)] st(2) by simp
  then have before: "get ?s2 k = Some x" "st_Status x = S_done" using st k by (simp_all add: updated_fields u_def)
  obtain b s3 where r: "sendRelayLocked (RF_ack (upstream_ack now x ?s2)) ?s2 = (b, s3)" by (metis surj_pair)
  obtain y s4 where m: "jr_apply now (st_id x) (no_upd\<lparr>upd_Acked := Some True\<rparr>) s3 = (y, s4)" by (metis surj_pair)
  have "get s3 k = Some x" using sendRelay_cases [OF r] before(1) by simp
  then have "\<exists>st. get s4 k = Some st \<and> st_Status st = S_done"
    using jr_apply_gets [OF m] before(2) by (auto simp: updated_fields no_upd_def)
  with \<open>get s3 k = Some x\<close> before(2) show ?thesis by (cases b) (auto simp: out ackUpstreamLocked_def r m)
qed

text \<open>The steps that never acknowledge upstream.\<close>

lemma export_acks:
  assumes "keyed s"
  shows "acks k (onMigrateOut bb now later out s) = acks k s"
proof -
  have "acks k (take_export bb now later d out s) = acks k s" for d
  proof -
    obtain r s1 where c: "jr_create D_out (outbound_entry bb now (sd_slot s) d out) s = (r, s1)" by (metis surj_pair)
    have "keyed (sendModLocked f s1)" for f
      using thrifty_keyed [OF thrifty_trans [OF create_thrifty [OF c] thrifty_mod] assms] by simp
    then have "acks k (tickOutbound now later j (sendModLocked f s1)) = acks k s1" for f j
      using tickOutbound_quiet by (simp add: quiet_def)
    moreover have "acks k s1 = acks k s" using jr_create_frame(1) [OF c] by (simp add: acks_def)
    ultimately show ?thesis by (cases r) (simp_all add: take_export_def Let_def c nackOut_def)
  qed
  then show ?thesis
    by (simp add: onMigrateOut_def Let_def nackOut_def split: option.split sum.split)
qed

lemma session_acks:
  "acks k (reassertCustodyLocked s) = acks k s"
  "acks k (replayInboundLocked now s) = acks k s"
  "acks k (publishEdgesLocked force s) = acks k s"
proof -
  show "acks k (reassertCustodyLocked s) = acks k s"
    unfolding reassertCustodyLocked_def by (rule fold_keeps) simp
  have "acks k (fold (\<lambda>st. set_sched (st_id st) f) xs s) = acks k s" for f xs
    by (rule fold_keeps) simp
  then show "acks k (replayInboundLocked now s) = acks k s" by (simp add: replayInboundLocked_def Let_def)
  have "acks k (sendModLocked f (s\<lparr>sd_lastEdges := es, sd_edgeEpoch := n\<rparr>)) = acks k s" for f es n
    by (simp add: acks_def sendModLocked_def)
  then show "acks k (publishEdgesLocked force s) = acks k s" by (simp add: publishEdgesLocked_def Let_def)
qed

lemma answer_acks:
  "acks k (onMigrationNack now n s) = acks k s"
  "acks k (onMigrateInNack now mn s) = acks k s"
  "acks k (onMigrationAck now a s) = acks k s"
  "acks k (onForwardReceipt now r s) = acks k s"
  using nack_sends_nothing onMigrateInNack_quiet onMigrationAck_quiet onForwardReceipt_quiet
  by (simp_all add: quiet_def acks_def)

lemma stage_acks:
  "acks k (snd (jr_create dir e s)) = acks k s"
  "acks k (nackUpstreamAfter j d code ms s) = acks k s"
  "keyed s \<Longrightarrow> acks k (tickOutbound now later j s) = acks k s"
  using jr_create_frame(1) [OF prod.collapse [symmetric], of dir e s] tickOutbound_quiet [of s now later j]
  by (simp_all add: acks_def [of k s] acks_def [of k "snd (jr_create dir e s)"] nackUpstreamAfter_def
      reply_counts quiet_def)

text \<open>C5: NO ACKNOWLEDGEMENT BEFORE CONFIRMATION.  In every step of the scheduler a new MIGRATION_ACK of a
  migration means that its arrival is finished (the mod confirmed it) or was acknowledged before; the
  source is never told that custody moved while it is only journaled or in flight to the mod.\<close>

theorem upstream_ack_is_confirmed:
  assumes "cstep s l s'" and "keyed s" and "acks k s' \<noteq> acks k s"
  shows "\<exists>st. (st \<in> set (jr_list s) \<or> get s' k = Some st) \<and> st_id st = k \<and>
    (st_Status st = S_done \<or> st_AckedUpstream st)"
  using assms(1)
proof cases
  case cs_tick
  with tick_acks [OF assms(2)] assms(3) show ?thesis by blast
next
  case (cs_in_ack now a)
  with in_ack_acks [of k now a s] assms(2,3) obtain st where "get s' k = Some st" "st_Status st = S_done" by auto
  with keyedD [OF thrifty_keyed [OF onMigrateInAck_thrifty assms(2)]] cs_in_ack show ?thesis by blast
next
  case (cs_payload bb now adm h d)
  with arrival_acks [of k bb now adm h d s] assms(3) obtain st where
    "get s k = Some st" "st_Status st = S_done \<or> st_AckedUpstream st" by auto
  with get_in_list keyedD [OF assms(2)] show ?thesis by blast
next
  case cs_env
  with assms(3) show ?thesis by (simp add: acks_def)
next
  case cs_restart
  with assms(3) show ?thesis by (simp add: acks_def)
qed (use assms(2,3) export_acks session_acks answer_acks stage_acks in simp_all)

lemma upstream_ack_is_confirmed_witness:
  "\<exists>st. (st \<in> set (jr_list (ferry [arrived])) \<or> get (tick (2 * second) 0 (ferry [arrived])) ''m2'' = Some st) \<and>
     st_id st = ''m2'' \<and> (st_Status st = S_done \<or> st_AckedUpstream st)"
proof (rule upstream_ack_is_confirmed [OF cs_tick ferry_keyed])
  show "acks ''m2'' (tick (2 * second) 0 (ferry [arrived])) \<noteq> acks ''m2'' (ferry [arrived])" by code_simp
qed

section \<open>An arrival\<close>

text \<open>The checks that precede custody.\<close>

definition acceptable :: "bb8 \<Rightarrow> bool \<Rightarrow> migration_payload \<Rightarrow> sidecar \<Rightarrow> bool" where
  "acceptable bb adm p s =
     (MigrationPayload_Validate p = None \<and> mp_Kind p = ''bibite'' \<and>
      count_pending D_in s < cf_InboundQueueMax (sd_cfg s) \<and> adm \<and> \<not> size_disagrees p s \<and>
      bb_Validate bb (mp_BodyVersion p) (mp_BB8 p))"

lemma reply_get [simp]:
  "get (nackUpstreamAfter k d code ms s) = get s" "sd_modOut (nackUpstreamAfter k d code ms s) = sd_modOut s"
  "get (ackUpstreamNow now k d e dup s) = get s" "sd_modOut (ackUpstreamNow now k d e dup s) = sd_modOut s"
  by (simp_all add: nackUpstreamAfter_def ackUpstreamNow_def sendRelay_cases [OF prod.collapse [symmetric]])

lemma deliver_get:
  assumes "get s (st_id st) = Some st"
  shows "\<exists>st'. get (deliverLocked now st s) = (get s)(st_id st \<mapsto> st') \<and> st_Direction st' = st_Direction st \<and>
    (st' = st \<or> st_Status st' = S_in_flight) \<and>
    (st_Status st \<noteq> S_done \<longrightarrow> en_Payload (st_Entry st') = en_Payload (st_Entry st))"
proof -
  define u where "u = no_upd\<lparr>upd_Status := S_in_flight, upd_Attempt := Some (st_Attempt st + 1)\<rparr>"
  obtain r s1 where a: "jr_apply now (st_id st) u s = (r, s1)" by (metis surj_pair)
  have d: "get (deliverLocked now st s) = get s \<or> get (deliverLocked now st s) = get s1"
    by (simp add: deliverLocked_def a [unfolded u_def] Let_def split: option.split)
  have "get s = (get s)(st_id st \<mapsto> st)" using assms by auto
  moreover have "st_Direction (updated u st) = st_Direction st" "st_Status (updated u st) = S_in_flight"
    "en_Payload (st_Entry (updated u st)) = en_Payload (st_Entry st)"
    by (simp_all add: updated_fields u_def)
  ultimately show ?thesis using d jr_apply_gets [OF a] assms by fastforce
qed

lemma take_refused:
  assumes "\<not> acceptable bb adm p s"
  shows "\<exists>code ms. take_custody bb now adm p s = nackUpstreamAfter (mp_MigrationID p) (mp_SourcePeer p) code ms s"
  using assms by (auto simp: take_custody_def acceptable_def Let_def)

lemma take_unwritten:
  assumes "jr_create D_in (inbound_entry bb now p) s = (None, s1)" and "acceptable bb adm p s"
  shows "take_custody bb now adm p s = nackUpstreamAfter (mp_MigrationID p) (mp_SourcePeer p) ''OVERLOADED'' 0 s1"
  using assms by (simp add: take_custody_def acceptable_def Let_def)

lemma take_taken:
  assumes "jr_create D_in (inbound_entry bb now p) s = (Some st, s1)" and "acceptable bb adm p s"
  shows "take_custody bb now adm p s = (if handshaked s1 \<noteq> None then deliverLocked now st s1 else s1)"
  using assms by (simp add: take_custody_def acceptable_def Let_def)

lemma nackUpstream_acks [simp]: "acks k (nackUpstreamAfter j d code ms s) = acks k s"
  by (simp add: nackUpstreamAfter_def reply_counts)

lemma jr_create_written:
  assumes "jr_create dir e s = (r, s1)" and "get s (en_MigrationID e) = None"
  shows "(r \<noteq> None) = fst (pop (sd_disk s))"
  using jr_create_cases [OF assms(1)] assms lookup_apply_create [of dir e False "sd_mem s"]
  by (auto simp: jr_create_def Let_def split: prod.splits)

text \<open>C7: AN ARRIVAL IS JOURNALED ONCE OR NOT TAKEN.  A payload whose identifier is already known
  changes no entry and delivers nothing again.  An unknown one that fails a check, or whose journal
  write fails, leaves every entry as it was and is not acknowledged; one that passes them all is one
  new open inbound entry with that very body, perhaps already on its way to the mod, and is not
  acknowledged either.\<close>

theorem arrival_custody:
  assumes "mp_MigrationID p \<noteq> []"
    and "s' = onMigrationPayload bb now adm (Some (mp_MigrationID p, mp_SourcePeer p)) (Some p) s"
  shows "(get s (mp_MigrationID p) \<noteq> None \<longrightarrow> get s' = get s \<and> sd_modOut s' = sd_modOut s) \<and>
    (get s (mp_MigrationID p) = None \<and> \<not> (acceptable bb adm p s \<and> fst (pop (sd_disk s))) \<longrightarrow>
       get s' = get s \<and> sd_modOut s' = sd_modOut s \<and> acks k s' = acks k s) \<and>
    (get s (mp_MigrationID p) = None \<and> acceptable bb adm p s \<and> fst (pop (sd_disk s)) \<longrightarrow>
       acks k s' = acks k s \<and> (\<exists>st. get s' = (get s)(mp_MigrationID p \<mapsto> st) \<and> st_Direction st = D_in \<and>
         (st_Status st = S_open \<or> st_Status st = S_in_flight) \<and> en_Payload (st_Entry st) = mp_BB8 p))"
proof (cases "get s (mp_MigrationID p)")
  case (Some st)
  with assms show ?thesis by (auto simp: onMigrationPayload_def)
next
  case None
  then have s': "s' = take_custody bb now adm p s" using assms by (simp add: onMigrationPayload_def)
  let ?e = "inbound_entry bb now p"
  have id: "en_MigrationID ?e = mp_MigrationID p" by (simp add: inbound_entry_def)
  obtain r s1 where c: "jr_create D_in ?e s = (r, s1)" by (metis surj_pair)
  note out = jr_create_frame(1,2) [OF c] and written = jr_create_written [OF c, unfolded id, OF None]
  show ?thesis
  proof (cases "acceptable bb adm p s")
    case False
    with take_refused [OF False, of now] None show ?thesis by (auto simp: s')
  next
    case ok: True
    show ?thesis
    proof (cases r)
      case none: None
      then have "get s1 = get s" using jr_create_cases [OF c] by (auto simp: get_def fun_eq_iff)
      with take_unwritten [OF c [unfolded none] ok] ok written none out None show ?thesis
        by (simp add: s' acks_def [of _ s1] acks_def [of _ s])
    next
      case (Some st)
      with jr_create_cases [OF c] obtain n where st: "st = created_state (create_record D_in ?e False) ?e n"
        and g: "get s1 = (get s)(mp_MigrationID p \<mapsto> st)" by (auto simp: id)
      have fields: "st_id st = mp_MigrationID p" "st_Direction st = D_in" "st_Status st = S_open"
        "en_Payload (st_Entry st) = mp_BB8 p"
        by (simp_all add: st id create_record_def zero_rec_def) (simp add: inbound_entry_def)
      have own: "get s1 (st_id st) = Some st" using g fields by simp
      obtain st' where d: "get (deliverLocked now st s1) = (get s1)(st_id st \<mapsto> st')" "st_Direction st' = D_in"
        "st' = st \<or> st_Status st' = S_in_flight" "en_Payload (st_Entry st') = mp_BB8 p"
        using deliver_get [OF own, of now] fields by auto
      have "acks k s1 = acks k s" using out by (simp add: acks_def)
      then show ?thesis
        using take_taken [OF c [unfolded Some] ok] ok written Some None d g fields by (auto simp: s')
    qed
  qed
qed

definition any_bb8 :: bb8 where
  "any_bb8 = \<lparr>bb_Validate = (\<lambda>_ _. True), bb_Hash = (\<lambda>b. b), bb_EntityID = (\<lambda>_. None),
     bb_Heading = (\<lambda>_. None), bb_GenomeHash = (\<lambda>b _. Some b)\<rparr>"

text \<open>World a's export as world b receives it.\<close>

definition crossing :: migration_payload where
  "crossing = (payload_of ferry_cfg waiting)
     \<lparr>mp_MigrationID := ''01234567-89ab-4cde-8f01-23456789abcd''\<rparr>"

lemma arrival_custody_witness:
  "\<exists>st. get (onMigrationPayload any_bb8 9 True (Some (mp_MigrationID crossing, mp_SourcePeer crossing))
      (Some crossing) (ferry [])) = (get (ferry []))(mp_MigrationID crossing \<mapsto> st) \<and> st_Direction st = D_in"
proof -
  have "acceptable any_bb8 True crossing (ferry [])" by code_simp
  moreover have "mp_MigrationID crossing \<noteq> []" "fst (pop (sd_disk (ferry [])))" by code_simp+
  ultimately show ?thesis
    using arrival_custody [of crossing _ any_bb8 9 True "ferry []", OF _ refl] by (auto simp: ferry_get)
qed

end
