(* ===== verification/CustodyExports.thy ===== *)
theory CustodyExports imports CustodyArrivals begin

text \<open>
  The export contract with the mod, the delivery pace towards it, and a refusal of the mod that
  arrives after its confirmation.
\<close>

section \<open>An export is acknowledged when it is journaled\<close>

text \<open>The checks that precede custody, and the destination they choose.\<close>

definition exportable :: "bb8 \<Rightarrow> migrate_out \<Rightarrow> int \<Rightarrow> sidecar \<Rightarrow> bool" where
  "exportable bb out d s =
     (MigrateOut_Validate out = None \<and> mo_Kind out = ''bibite'' \<and> ValidEdge (mo_ExitEdge out) \<and>
      bb_Validate bb (mo_GameVersion out) (mo_Payload out) \<and>
      exportOpenLocked (mo_ExitEdge out) (deref_or (mo_SimulationSize out) f64_zero) s = Inr d \<and>
      count_pending D_out s < cf_InboundQueueMax (sd_cfg s))"

lemma nackOut_fields [simp]:
  "get (nackOut k e code ms s) = get s" "out_acks j (nackOut k e code ms s) = out_acks j s"
  by (simp_all add: nackOut_def out_acks_def sendModLocked_def)

lemma out_ack_counts [simp]:
  "j \<noteq> k \<Longrightarrow> out_acks j (sendModLocked (MF_out_ack k e t b) s) = out_acks j s"
  by (auto simp: out_acks_def sendModLocked_def split: if_splits)

lemma new_export_cases:
  assumes "get s (mo_MigrationID out) = None"
  shows "(\<exists>d. exportable bb out d s \<and> onMigrateOut bb now later out s = take_export bb now later d out s) \<or>
    (\<exists>e code ms. onMigrateOut bb now later out s = nackOut (mo_MigrationID out) e code ms s)"
proof (cases "exportOpenLocked (mo_ExitEdge out) (deref_or (mo_SimulationSize out) f64_zero) s")
  case (Inl code)
  with assms show ?thesis by (auto simp: onMigrateOut_def Let_def)
next
  case (Inr d)
  show ?thesis
  proof (cases "exportable bb out d s")
    case True
    with assms Inr have "onMigrateOut bb now later out s = take_export bb now later d out s"
      by (simp add: onMigrateOut_def exportable_def Let_def)
    with True show ?thesis by blast
  next
    case False
    with assms Inr show ?thesis by (auto simp: onMigrateOut_def exportable_def Let_def)
  qed
qed

lemma take_export_cases:
  assumes "keyed s" and "get s (mo_MigrationID out) = None"
  shows "\<not> fst (pop (sd_disk s)) \<and> get (take_export bb now later d out s) = get s \<and>
      (\<forall>j. out_acks j (take_export bb now later d out s) = out_acks j s) \<or>
    fst (pop (sd_disk s)) \<and> get (take_export bb now later d out s) (mo_MigrationID out) \<noteq> None \<and>
      (\<forall>j. j \<noteq> mo_MigrationID out \<longrightarrow> out_acks j (take_export bb now later d out s) = out_acks j s)"
proof -
  let ?k = "mo_MigrationID out" and ?e = "outbound_entry bb now (sd_slot s) d out"
  have id: "en_MigrationID ?e = ?k" by (simp add: outbound_entry_def)
  obtain r s1 where c: "jr_create D_out ?e s = (r, s1)" by (metis surj_pair)
  note written = jr_create_written [OF c, unfolded id, OF assms(2)]
  have out: "out_acks j s1 = out_acks j s" for j using jr_create_frame(2) [OF c] by (simp add: out_acks_def)
  show ?thesis
  proof (cases r)
    case None
    then have "get s1 = get s" using jr_create_cases [OF c] by (auto simp: get_def fun_eq_iff)
    with None written out show ?thesis by (simp add: take_export_def Let_def c)
  next
    case (Some st)
    let ?s2 = "sendModLocked (MF_out_ack ?k (deref_or (mo_EntityID out) 0) (en_JournaledAt (st_Entry st)) False) s1"
    have "named ?s2 ?k \<noteq> None" using jr_create_cases [OF c] Some by (auto simp: id named_def)
    moreover have "keyed ?s2"
      using thrifty_keyed [OF thrifty_trans [OF create_thrifty [OF c] thrifty_mod] assms(1)] by simp
    then have "quiet ?s2 (tickOutbound now later ?k ?s2)" by (rule tickOutbound_quiet)
    ultimately have "named (take_export bb now later d out s) ?k \<noteq> None"
      "\<forall>j. out_acks j (take_export bb now later d out s) = out_acks j ?s2"
      using Some by (simp_all add: take_export_def Let_def c quiet_def)
    with written Some out show ?thesis by (auto simp: named_def)
  qed
qed

text \<open>C8: A MIGRATE_OUT_ACK MEANS THE ORGANISM IS IN THE JOURNAL.  A step that acknowledges an export to
  the mod leaves it in the journal; an export whose identifier is known changes no entry and sends no
  payload; an unknown one is journaled exactly when it passes every check, its edge leads to a
  destination and the write succeeds, and a refusal leaves every entry as it was.\<close>

theorem out_ack_means_journaled:
  assumes "keyed s" and "s' = onMigrateOut bb now later out s"
  shows "(out_acks k s' \<noteq> out_acks k s \<longrightarrow> k = mo_MigrationID out \<and> get s' k \<noteq> None) \<and>
    (get s (mo_MigrationID out) \<noteq> None \<longrightarrow> get s' = get s \<and> sd_relayOut s' = sd_relayOut s) \<and>
    (get s (mo_MigrationID out) = None \<longrightarrow>
       (get s' (mo_MigrationID out) \<noteq> None) = ((\<exists>d. exportable bb out d s) \<and> fst (pop (sd_disk s))) \<and>
       (get s' (mo_MigrationID out) = None \<longrightarrow> get s' = get s))"
proof (cases "get s (mo_MigrationID out)")
  case (Some st)
  have "out_acks k s' \<noteq> out_acks k s \<Longrightarrow> k = mo_MigrationID out \<and> get s' k \<noteq> None"
    using Some assms(2)
    by (cases "k = mo_MigrationID out") (auto simp: onMigrateOut_def Let_def split: if_splits)
  moreover have "get s' = get s \<and> sd_relayOut s' = sd_relayOut s"
    using Some assms(2) by (simp add: onMigrateOut_def Let_def nackOut_def)
  ultimately show ?thesis using Some by simp
next
  case None
  have unique: "(\<exists>d. exportable bb out d s) = (\<exists>d. exportable bb out d s \<and> s' = take_export bb now later d out s)"
    using None assms(2) by (auto simp: exportable_def onMigrateOut_def Let_def)
  show ?thesis
  proof (cases "\<exists>d. exportable bb out d s")
    case True
    then obtain d where "s' = take_export bb now later d out s" using unique by blast
    with take_export_cases [OF assms(1) None, of bb now later d] True None show ?thesis
      by (cases "k = mo_MigrationID out") auto
  next
    case False
    with new_export_cases [OF None, of bb now later] assms(2) None show ?thesis by auto
  qed
qed

definition steady_mod :: mod_session where
  "steady_mod = \<lparr>md_handshaked = True, md_gameVersion = ''0.6'', md_simSize = Fin 500,
     md_exportEdges = [''E''], md_lastHeartbeat = 0, md_paused = False, md_timeScale = Fin 1\<rparr>"

definition leaving :: migrate_out where
  "leaving = \<lparr>mo_MigrationID = ''01234567-89ab-4cde-8f01-23456789abcd'', mo_EntityID = Some 7,
     mo_Kind = ''bibite'', mo_GameVersion = ''0.6'', mo_Payload = ''{}'', mo_Parents = [], mo_Species = None,
     mo_ExitEdge = ''E'', mo_ExitPosition = Some (Fin (1/2)), mo_Velocity = Some \<lparr>ve_X = Fin 1, ve_Y = Fin 0\<rparr>,
     mo_Heading = Some (Fin 0), mo_SimulationSize = Some (Fin 500), mo_SimTick = Some 1\<rparr>"

lemma out_ack_means_journaled_witness:
  "get (onMigrateOut any_bb8 9 9 leaving ((ferry [])\<lparr>sd_mod := Some steady_mod\<rparr>)) (mo_MigrationID leaving) \<noteq> None"
proof -
  let ?s = "(ferry [])\<lparr>sd_mod := Some steady_mod\<rparr>"
  have "exportable any_bb8 leaving 2 ?s" by code_simp
  moreover have "get ?s k = None" for k using ferry_get [of "[]" k] by (simp add: get_def)
  moreover have "keyed ?s" using ferry_keyed [of "[]"] by (simp add: keyed_def named_def get_def)
  moreover have "fst (pop (sd_disk ?s))" by code_simp
  ultimately show ?thesis using out_ack_means_journaled [OF _ refl, where s = ?s and bb = any_bb8 and now = 9 and later = 9 and out = leaving] by blast
qed

section \<open>The delivery pace\<close>

text \<open>What the pacer sees: heartbeats with the simulated time of the world, and delivery attempts.\<close>

datatype pacer_event = Beat rat bool time | Attempt time

fun pacer_run :: "duration \<Rightarrow> pacer_event list \<Rightarrow> pacer \<Rightarrow> nat \<times> pacer" where
  "pacer_run grace [] p = (0, p)"
| "pacer_run grace (Beat sim running t # es) p = pacer_run grace es (pacer_beat sim running t p)"
| "pacer_run grace (Attempt t # es) p =
     (if pacer_allow t grace p
      then (case pacer_run grace es (pacer_take p) of (n, p') \<Rightarrow> (Suc n, p'))
      else pacer_run grace es p)"

text \<open>How far simulated time advanced, while running, since the pacer's last beat.\<close>

fun advanced :: "pacer_event list \<Rightarrow> bool \<Rightarrow> rat \<Rightarrow> rat" where
  "advanced [] known at_sim = 0"
| "advanced (Attempt t # es) known at_sim = advanced es known at_sim"
| "advanced (Beat sim running t # es) known at_sim =
     (if known \<and> running \<and> at_sim < sim then sim - at_sim else 0) + advanced es True sim"

lemma advanced_nonneg: "0 \<le> advanced es known at_sim"
  by (induction es known at_sim rule: advanced.induct) auto

definition pacer_ok :: "pacer \<Rightarrow> bool" where
  "pacer_ok p = (0 \<le> pa_rate p \<and> 1 \<le> pa_burst p \<and> 0 \<le> pa_tokens p \<and> pa_tokens p \<le> pa_burst p)"

lemma pacer_steps_ok:
  "pacer_ok p \<Longrightarrow> pacer_ok (pacer_beat sim running t p)" "pacer_ok p \<Longrightarrow> pacer_ok (pacer_take p)"
  by (auto simp: pacer_ok_def pacer_beat_def pacer_take_def Let_def)

lemma pacer_beat_tokens:
  assumes "pacer_ok p"
  shows "pa_tokens (pacer_beat sim running t p) \<le> pa_tokens p +
    pa_rate p * ((if pa_haveSim p \<and> running \<and> pa_lastSim p < sim then sim - pa_lastSim p else 0) / 60)"
  using assms by (auto simp: pacer_beat_def pacer_ok_def Let_def min_def field_simps)

lemma pacer_fields:
  "pa_rate (pacer_beat sim running t p) = pa_rate p" "pa_haveSim (pacer_beat sim running t p)"
  "pa_lastSim (pacer_beat sim running t p) = sim" "pa_burst (pacer_beat sim running t p) = pa_burst p"
  "pa_rate (pacer_take p) = pa_rate p" "pa_haveSim (pacer_take p) = pa_haveSim p"
  "pa_lastSim (pacer_take p) = pa_lastSim p" "pa_burst (pacer_take p) = pa_burst p"
  by (simp_all add: pacer_beat_def pacer_take_def Let_def)

text \<open>DELIVERIES FOLLOW SIMULATED TIME.  However heartbeats and delivery attempts interleave, the
  organisms delivered are at most the tokens at hand plus the rate per minute of simulated time that
  passed while the world ran: a paused world, or one that was reloaded to an earlier moment, earns
  nothing, and what is at hand never exceeds the burst.\<close>

theorem deliveries_follow_simulated_time:
  assumes "pacer_ok p"
  shows "of_nat (fst (pacer_run grace es p)) \<le>
      pa_tokens p + pa_rate p * (advanced es (pa_haveSim p) (pa_lastSim p) / 60) \<and>
    pacer_ok (snd (pacer_run grace es p)) \<and>
    pa_tokens (snd (pacer_run grace es p)) \<le> pa_burst p"
  using assms
proof (induction grace es p rule: pacer_run.induct)
  case (2 grace sim running t es p)
  from 2(1) [OF pacer_steps_ok(1) [OF 2(2)]] pacer_beat_tokens [OF 2(2), of sim running t]
  show ?case by (simp add: pacer_fields ring_distribs add_divide_distrib)
next
  case (3 grace t es p)
  show ?case
  proof (cases "pacer_allow t grace p")
    case True
    then have "pa_tokens (pacer_take p) = pa_tokens p - 1"
      by (auto simp: pacer_allow_def pacer_take_def Let_def split: if_splits)
    with 3(1) [OF True pacer_steps_ok(2) [OF 3(3)]] True show ?thesis
      by (cases "pacer_run grace es (pacer_take p)") (simp add: pacer_fields)
  next
    case False
    with 3(2) [OF False 3(3)] show ?thesis by simp
  qed
qed (simp add: pacer_ok_def)

lemma deliveries_follow_simulated_time_witness:
  "fst (pacer_run second [Beat 0 True 0, Attempt 1, Attempt 2, Beat 30 True 3, Attempt 4, Attempt 5] (newPacer 2 1)) = 2 \<and>
   (2 :: rat) \<le> 1 + 2 * (30 / 60)"
proof
  let ?es = "[Beat 0 True 0, Attempt 1, Attempt 2, Beat 30 True 3, Attempt 4, Attempt 5]"
  show *: "fst (pacer_run second ?es (newPacer 2 1)) = 2" by code_simp
  have "pacer_ok (newPacer 2 1)" by code_simp
  from deliveries_follow_simulated_time [OF this, of second ?es] * show "(2 :: rat) \<le> 1 + 2 * (30 / 60)"
    by (simp add: newPacer_def)
qed

section \<open>A late refusal of the mod\<close>

text \<open>C31: A LATE REFUSAL UNDOES A CONFIRMATION.  The mod confirmed an arrival, and the acknowledgement
  to its source has not left yet.  A permanent MIGRATE_IN_NACK for the same migration (the answer to a
  redelivery) is not checked against the finished entry, unlike MIGRATE_IN_ACK: the entry becomes held
  for an operator, its body already erased, and the acknowledgement is never sent, so the source
  records the delivered organism as lost.\<close>

theorem late_refusal_undoes_confirmation:
  assumes "get s (mn_MigrationID n) = Some st" and "AwaitsUpstreamAck st" and "sd_disk s = []"
    and "MigrateInNack_Validate n = None" and "mn_Class n = ''permanent''" and "en_Payload (st_Entry st) = []"
  shows "\<exists>st'. get (onMigrateInNack now n s) (mn_MigrationID n) = Some st' \<and> st_Status st' = S_held \<and>
    en_Payload (st_Entry st') = [] \<and> \<not> AwaitsUpstreamAck st' \<and> \<not> st_AckedUpstream st' \<and>
    (\<forall>t s'. tickInbound t st' s' = s')"
proof -
  define u where "u = no_upd\<lparr>upd_Status := S_held, upd_Note := ''MIGRATE_IN_NACK '' @ mn_Code n\<rparr>"
  obtain s' where a: "jr_apply now (mn_MigrationID n) u s = (Some (updated u st), s')"
    and g: "get s' = (get s)(mn_MigrationID n \<mapsto> updated u st)" by (rule jr_apply_ok [OF assms(1,3)])
  have "onMigrateInNack now n s = del_sched (mn_MigrationID n) s'"
    using assms(1,4,5) a by (simp add: onMigrateInNack_def u_def)
  moreover have "st_Status (updated u st) = S_held" "en_Payload (st_Entry (updated u st)) = []"
    "st_AckedUpstream (updated u st) = st_AckedUpstream st"
    using assms(6) by (simp_all add: updated_fields u_def)
      (simp add: updated_def status_record_def no_upd_def del: apply_status_updated)
  ultimately show ?thesis
    using g assms(2) by (auto simp: AwaitsUpstreamAck_def tickInbound_def Let_def)
qed

lemma late_refusal_undoes_confirmation_witness:
  "let k = ''01234567-89ab-4cde-8f01-23456789abcd'';
       e = (sample_entry k ''b'')\<lparr>en_Payload := []\<rparr>;
       st = (created_state (create_record D_in e False) e 1)\<lparr>st_Status := S_done\<rparr>;
       n = \<lparr>mn_MigrationID = k, mn_EntityID = Some 7, mn_Code = ''NO_SPACE'', mn_Class = ''permanent'',
            mn_Message = [], mn_RetryAfterMs = None\<rparr>
   in \<exists>st'. get (onMigrateInNack 9 n (ferry [st])) k = Some st' \<and> st_Status st' = S_held \<and>
        \<not> AwaitsUpstreamAck st'"
proof -
  let ?k = "''01234567-89ab-4cde-8f01-23456789abcd''"
  let ?e = "(sample_entry ?k ''b'')\<lparr>en_Payload := []\<rparr>"
  let ?st = "(created_state (create_record D_in ?e False) ?e 1)\<lparr>st_Status := S_done\<rparr>"
  let ?n = "\<lparr>mn_MigrationID = ?k, mn_EntityID = Some 7, mn_Code = ''NO_SPACE'', mn_Class = ''permanent'',
            mn_Message = [], mn_RetryAfterMs = None\<rparr>"
  have "AwaitsUpstreamAck ?st" "MigrateInNack_Validate ?n = None" "sd_disk (ferry [?st]) = []" by code_simp+
  moreover have "get (ferry [?st]) ?k = Some ?st" by (simp add: ferry_get sample_entry_def)
  ultimately show ?thesis
    using late_refusal_undoes_confirmation [of "ferry [?st]" ?n ?st 9] by (auto simp: Let_def sample_entry_def)
qed

end
