(* ===== verification/Dedup.thy ===== *)
theory Dedup imports Prelude begin

text \<open>
  The archive's duplicate set (\<open>internal/archive/dedup.go\<close>): an open-addressed table of 128-bit
  fingerprints with linear probing, sharded 64 ways, and the window of two generations over it.
  The hash of a key is a parameter (\<open>hash/maphash\<close>).  A probe is an unbounded loop and an index out
  of range panics, so both are \<open>None\<close> here and the properties show that neither happens.
\<close>

unbundle bit_operations_syntax

section \<open>One table\<close>

type_synonym dedup_fp = "64 word \<times> 64 word"

definition no_fp :: dedup_fp where
  "no_fp = (0, 0)"

record dedup_shard =
  sh_slots :: "dedup_fp list"
  sh_mask :: "64 word"
  sh_n :: int

definition dedupLoadNum :: int where
  "dedupLoadNum = 3"

definition dedupLoadDen :: int where
  "dedupLoadDen = 4"

text \<open>The loop of \<open>add\<close> and \<open>has\<close>: the slot that holds the fingerprint, or the first empty one.\<close>

partial_function (option) probe ::
  "dedup_fp list \<Rightarrow> 64 word \<Rightarrow> dedup_fp \<Rightarrow> 64 word \<Rightarrow> (bool \<times> 64 word) option"
where
  "probe slots msk fp i =
     (if unat i < length slots
      then if slots ! unat i = fp then Some (True, i)
           else if slots ! unat i = no_fp then Some (False, i)
           else probe slots msk fp ((i + 1) AND msk)
      else None)"

definition shard_has :: "dedup_fp \<Rightarrow> dedup_shard \<Rightarrow> bool option" where
  "shard_has fp d = map_option fst (probe (sh_slots d) (sh_mask d) fp (fst fp AND sh_mask d))"

text \<open>The inner loop of \<open>grow\<close>.\<close>

partial_function (option) free_slot :: "dedup_fp list \<Rightarrow> 64 word \<Rightarrow> 64 word \<Rightarrow> 64 word option" where
  "free_slot slots msk i =
     (if unat i < length slots
      then if slots ! unat i \<noteq> no_fp then free_slot slots msk ((i + 1) AND msk) else Some i
      else None)"

fun rehash :: "64 word \<Rightarrow> dedup_fp list \<Rightarrow> dedup_fp list \<Rightarrow> dedup_fp list option" where
  "rehash msk [] slots = Some slots"
| "rehash msk (fp # old) slots =
     (if fp = no_fp then rehash msk old slots
      else case free_slot slots msk (fst fp AND msk) of
             None \<Rightarrow> None
           | Some i \<Rightarrow> rehash msk old (slots[unat i := fp]))"

definition grow :: "dedup_shard \<Rightarrow> dedup_shard option" where
  "grow d =
     (let slots = replicate (length (sh_slots d) * 2) no_fp;
          msk = of_nat (length slots - 1)
      in case rehash msk (sh_slots d) slots of
           None \<Rightarrow> None
         | Some slots1 \<Rightarrow> Some (d\<lparr>sh_slots := slots1, sh_mask := msk\<rparr>))"

definition shard_add :: "dedup_fp \<Rightarrow> dedup_shard \<Rightarrow> (bool \<times> dedup_shard) option" where
  "shard_add fp d =
     (case probe (sh_slots d) (sh_mask d) fp (fst fp AND sh_mask d) of
        None \<Rightarrow> None
      | Some (True, i) \<Rightarrow> Some (True, d)
      | Some (False, i) \<Rightarrow>
          (let d1 = d\<lparr>sh_slots := (sh_slots d)[unat i := fp], sh_n := sh_n d + 1\<rparr> in
           if sh_n d1 * dedupLoadDen > int (length (sh_slots d1)) * dedupLoadNum
           then map_option (Pair False) (grow d1) else Some (False, d1)))"

section \<open>The set\<close>

definition dedupShards :: nat where
  "dedupShards = 64"

definition dedupShardShift :: nat where
  "dedupShardShift = 58"

definition dedupMinSlots :: int where
  "dedupMinSlots = 64"

record 'seed dedup_set =
  ds_seedA :: 'seed
  ds_seedB :: 'seed
  ds_shards :: "dedup_shard list"
  ds_zero :: bool

text \<open>The loop that doubles the capacity.\<close>

function table_capacity :: "int \<Rightarrow> int \<Rightarrow> int" where
  "table_capacity want capacity =
     (if 0 < capacity \<and> capacity < want \<and> capacity < 2 ^ 40
      then table_capacity want (2 * capacity) else capacity)"
  by auto
termination by (relation "measure (\<lambda>(want, capacity). nat (2 ^ 40 - capacity))") auto

declare table_capacity.simps [simp del]

definition newDedupSetWithSeeds :: "int \<Rightarrow> 'seed \<Rightarrow> 'seed \<Rightarrow> 'seed dedup_set" where
  "newDedupSetWithSeeds hint seedA seedB =
     (let per = hint div int dedupShards;
          capacity = table_capacity (per * dedupLoadDen div dedupLoadNum) dedupMinSlots
      in \<lparr>ds_seedA = seedA, ds_seedB = seedB,
          ds_shards = replicate dedupShards
            \<lparr>sh_slots = replicate (nat capacity) no_fp, sh_mask = of_int (capacity - 1), sh_n = 0\<rparr>,
          ds_zero = False\<rparr>)"

text \<open>\<open>maphash.Comparable\<close> is the parameter \<open>hash\<close>.\<close>

definition set_fingerprint ::
  "('seed \<Rightarrow> bytes \<times> bytes \<Rightarrow> 64 word) \<Rightarrow> bytes \<Rightarrow> bytes \<Rightarrow> 'seed dedup_set \<Rightarrow> dedup_fp"
where
  "set_fingerprint hash typ key s = (hash (ds_seedA s) (typ, key), hash (ds_seedB s) (typ, key))"

definition shard_of :: "dedup_fp \<Rightarrow> nat" where
  "shard_of fp = unat (drop_bit dedupShardShift (fst fp))"

definition set_add :: "dedup_fp \<Rightarrow> 'seed dedup_set \<Rightarrow> (bool \<times> 'seed dedup_set) option" where
  "set_add fp s =
     (if fp = no_fp then (if ds_zero s then Some (True, s) else Some (False, s\<lparr>ds_zero := True\<rparr>))
      else map_option (\<lambda>(seen, d). (seen, s\<lparr>ds_shards := (ds_shards s)[shard_of fp := d]\<rparr>))
             (shard_add fp (ds_shards s ! shard_of fp)))"

definition set_has :: "dedup_fp \<Rightarrow> 'seed dedup_set \<Rightarrow> bool option" where
  "set_has fp s =
     (if fp = no_fp then Some (ds_zero s) else shard_has fp (ds_shards s ! shard_of fp))"

definition set_len :: "'seed dedup_set \<Rightarrow> int" where
  "set_len s = sum_list (map sh_n (ds_shards s)) + (if ds_zero s then 1 else 0)"

definition set_slots :: "'seed dedup_set \<Rightarrow> int" where
  "set_slots s = sum_list (map (\<lambda>d. int (length (sh_slots d))) (ds_shards s))"

section \<open>The window\<close>

record 'seed dedup_window =
  dw_window :: duration
  dw_cur :: "'seed dedup_set"
  dw_prev :: "'seed dedup_set option"
  dw_rotateAt :: time
  dw_hint :: int

definition newDedupWindow :: "int \<Rightarrow> duration \<Rightarrow> time \<Rightarrow> 'seed \<Rightarrow> 'seed \<Rightarrow> 'seed dedup_window" where
  "newDedupWindow hint window now seedA seedB =
     (let window = (if window \<le> 0 then 48 * 3600 * second else window)
      in \<lparr>dw_window = window, dw_cur = newDedupSetWithSeeds hint seedA seedB, dw_prev = None,
          dw_rotateAt = now + window, dw_hint = hint\<rparr>)"

definition window_tick :: "time \<Rightarrow> 'seed dedup_window \<Rightarrow> 'seed dedup_window" where
  "window_tick now w =
     (if now < dw_rotateAt w then w
      else (let n = set_len (dw_cur w);
                hint = (if n > dw_hint w then n else dw_hint w);
                next_gen = newDedupSetWithSeeds hint (ds_seedA (dw_cur w)) (ds_seedB (dw_cur w))
            in if dw_window w \<le> now - dw_rotateAt w
               then w\<lparr>dw_hint := hint, dw_prev := None, dw_cur := next_gen,
                      dw_rotateAt := now + dw_window w\<rparr>
               else w\<lparr>dw_hint := hint, dw_prev := Some (dw_cur w), dw_cur := next_gen,
                      dw_rotateAt := dw_rotateAt w + dw_window w\<rparr>))"

definition window_add :: "dedup_fp \<Rightarrow> time \<Rightarrow> 'seed dedup_window \<Rightarrow> (bool \<times> 'seed dedup_window) option" where
  "window_add fp now w =
     (let w1 = window_tick now w;
          into_cur = map_option (\<lambda>(seen, s). (seen, w1\<lparr>dw_cur := s\<rparr>)) (set_add fp (dw_cur w1))
      in case dw_prev w1 of
           None \<Rightarrow> into_cur
         | Some prev \<Rightarrow>
             (case set_has fp prev of
                None \<Rightarrow> None
              | Some True \<Rightarrow> Some (True, w1)
              | Some False \<Rightarrow> into_cur))"

definition window_has :: "dedup_fp \<Rightarrow> 'seed dedup_window \<Rightarrow> bool option" where
  "window_has fp w =
     (case set_has fp (dw_cur w) of
        None \<Rightarrow> None
      | Some True \<Rightarrow> Some True
      | Some False \<Rightarrow> (case dw_prev w of None \<Rightarrow> Some False | Some prev \<Rightarrow> set_has fp prev))"

definition window_len :: "'seed dedup_window \<Rightarrow> int" where
  "window_len w = set_len (dw_cur w) + (case dw_prev w of None \<Rightarrow> 0 | Some prev \<Rightarrow> set_len prev)"

definition dedupHint :: "int \<Rightarrow> int" where
  "dedupHint ledgerBytes = (if ledgerBytes \<le> 0 then 0 else ledgerBytes div 360)"

end
