(* ===== verification/DedupProofs.thy ===== *)
theory DedupProofs imports Dedup begin

text \<open>
  What one table of the duplicate set keeps: every fingerprint is reachable from its home slot by a
  walk over occupied slots, the load factor leaves an empty slot to stop at, and so every probe ends
  and answers membership.  Then the sixty-four tables as one set.
\<close>

section \<open>Slots as numbers\<close>

definition table_home :: "nat \<Rightarrow> dedup_fp \<Rightarrow> nat" where
  "table_home L fp = unat (fst fp) mod L"

lemma mask_home: "k < 64 \<Longrightarrow> unat (fst fp AND (mask k :: 64 word)) = table_home (2 ^ k) fp"
  by (simp add: table_home_def flip: take_bit_eq_mask take_bit_eq_mod)
     (simp add: unsigned_take_bit_eq)

lemma mask_next:
  assumes "k < 64" "unat i < 2 ^ k"
  shows "unat ((i + 1) AND (mask k :: 64 word)) = (unat i + 1) mod 2 ^ k"
proof -
  have b: "(2::nat) ^ k \<le> 2 ^ 63" using assms(1) by (intro power_increasing) auto
  have "unat (i + 1) = unat i + 1"
    using assms(2) b unat_add_lem [of i 1] by simp
  moreover have "unat ((i + 1) AND (mask k :: 64 word)) = take_bit k (unat (i + 1))"
    by (simp add: unsigned_take_bit_eq flip: take_bit_eq_mask)
  ultimately show ?thesis by (simp add: take_bit_eq_mod)
qed

lemma mask_of_len: "k < 64 \<Longrightarrow> (of_nat (2 ^ k - 1) :: 64 word) = mask k"
  by (simp add: mask_eq_exp_minus_1 of_nat_diff)

section \<open>A table\<close>

definition table_keys :: "dedup_fp list \<Rightarrow> dedup_fp set" where
  "table_keys slots = set slots - {no_fp}"

definition table_count :: "dedup_fp list \<Rightarrow> nat" where
  "table_count slots = length (filter (\<lambda>x. x \<noteq> no_fp) slots)"

text \<open>\<open>clear_run slots h j\<close>: the walk from \<open>h\<close> meets only occupied slots in its first \<open>j\<close> steps.\<close>

definition clear_run :: "dedup_fp list \<Rightarrow> nat \<Rightarrow> nat \<Rightarrow> bool" where
  "clear_run slots h j = (\<forall>m<j. slots ! ((h + m) mod length slots) \<noteq> no_fp)"

definition table_ok :: "nat \<Rightarrow> dedup_fp list \<Rightarrow> bool" where
  "table_ok k slots = (k < 64 \<and> length slots = 2 ^ k \<and> distinct (filter (\<lambda>x. x \<noteq> no_fp) slots) \<and>
     (\<forall>p<length slots. slots ! p \<noteq> no_fp \<longrightarrow>
        (\<exists>j<length slots. p = (table_home (length slots) (slots ! p) + j) mod length slots \<and>
           clear_run slots (table_home (length slots) (slots ! p)) j)))"

lemma table_okD:
  assumes "table_ok k slots"
  shows "k < 64" "length slots = 2 ^ k" "distinct (filter (\<lambda>x. x \<noteq> no_fp) slots)" "0 < length slots"
  using assms by (auto simp: table_ok_def)

lemma table_count_card: "table_ok k slots \<Longrightarrow> table_count slots = card (table_keys slots)"
proof -
  assume "table_ok k slots"
  from distinct_card [OF table_okD(3) [OF this]]
  have "card (set (filter (\<lambda>x. x \<noteq> no_fp) slots)) = table_count slots" by (simp add: table_count_def)
  moreover have "set (filter (\<lambda>x. x \<noteq> no_fp) slots) = table_keys slots" by (auto simp: table_keys_def)
  ultimately show ?thesis by simp
qed

lemma table_room:
  assumes "table_count slots < length slots"
  shows "\<exists>p<length slots. slots ! p = no_fp"
proof (rule ccontr)
  assume "\<not> ?thesis"
  then have "filter (\<lambda>x. x \<noteq> no_fp) slots = slots" by (auto simp: filter_id_conv in_set_conv_nth)
  with assms show False by (simp add: table_count_def)
qed

lemma empty_table_ok: "k < 64 \<Longrightarrow> table_ok k (replicate (2 ^ k) no_fp)"
  by (simp add: table_ok_def)

lemma empty_table [simp]: "table_keys (replicate n no_fp) = {}" "table_count (replicate n no_fp) = 0"
  by (auto simp: table_keys_def table_count_def)

section \<open>Walks\<close>

lemma walk_mod_step: "0 < L \<Longrightarrow> ((h + 1) mod L + m) mod L = (h + Suc m) mod (L::nat)"
  by (metis add.assoc mod_add_left_eq plus_1_eq_Suc)

text \<open>A probe stops at the first slot that holds the fingerprint or nothing.\<close>

lemma probe_walk:
  assumes "k < 64" "length slots = 2 ^ k" "unat i < length slots"
    and "slots ! ((unat i + j) mod length slots) \<in> {fp, no_fp}"
    and "\<forall>m<j. slots ! ((unat i + m) mod length slots) \<notin> {fp, no_fp}"
  shows "\<exists>i'. probe slots (mask k) fp i = Some (slots ! ((unat i + j) mod length slots) = fp, i') \<and>
    unat i' = (unat i + j) mod length slots"
  using assms(3-5)
proof (induction j arbitrary: i)
  case 0
  then show ?case by (subst (1) probe.simps) auto
next
  case (Suc j)
  let ?i = "(i + 1) AND (mask k :: 64 word)" and ?L = "length slots"
  have n: "unat ?i = (unat i + 1) mod ?L" using mask_next [OF assms(1)] Suc.prems(1) assms(2) by simp
  have L: "0 < ?L" using Suc.prems(1) by linarith
  have s: "(unat ?i + m) mod ?L = (unat i + Suc m) mod ?L" for m unfolding n by (rule walk_mod_step [OF L])
  have here: "slots ! unat i \<notin> {fp, no_fp}" using Suc.prems(1) Suc.prems(3) [rule_format, of 0] by simp
  have "unat ?i < ?L" unfolding n using L by simp
  moreover have "slots ! ((unat ?i + j) mod ?L) \<in> {fp, no_fp}" unfolding s by (rule Suc.prems(2))
  moreover have "\<forall>m<j. slots ! ((unat ?i + m) mod ?L) \<notin> {fp, no_fp}"
    unfolding s using Suc.prems(3) by auto
  ultimately have "\<exists>i'. probe slots (mask k) fp ?i = Some (slots ! ((unat ?i + j) mod ?L) = fp, i') \<and>
    unat i' = (unat ?i + j) mod ?L" by (rule Suc.IH)
  then show ?case unfolding s using here Suc.prems(1) by (subst (1) probe.simps) simp
qed

lemma free_slot_walk:
  assumes "k < 64" "length slots = 2 ^ k" "unat i < length slots"
    and "slots ! ((unat i + j) mod length slots) = no_fp"
    and "\<forall>m<j. slots ! ((unat i + m) mod length slots) \<noteq> no_fp"
  shows "\<exists>i'. free_slot slots (mask k) i = Some i' \<and> unat i' = (unat i + j) mod length slots"
  using assms(3-5)
proof (induction j arbitrary: i)
  case 0
  then show ?case by (subst (1) free_slot.simps) auto
next
  case (Suc j)
  let ?i = "(i + 1) AND (mask k :: 64 word)" and ?L = "length slots"
  have n: "unat ?i = (unat i + 1) mod ?L" using mask_next [OF assms(1)] Suc.prems(1) assms(2) by simp
  have L: "0 < ?L" using Suc.prems(1) by linarith
  have s: "(unat ?i + m) mod ?L = (unat i + Suc m) mod ?L" for m unfolding n by (rule walk_mod_step [OF L])
  have here: "slots ! unat i \<noteq> no_fp" using Suc.prems(1) Suc.prems(3) [rule_format, of 0] by simp
  have "unat ?i < ?L" unfolding n using L by simp
  moreover have "slots ! ((unat ?i + j) mod ?L) = no_fp" unfolding s by (rule Suc.prems(2))
  moreover have "\<forall>m<j. slots ! ((unat ?i + m) mod ?L) \<noteq> no_fp" unfolding s using Suc.prems(3) by auto
  ultimately have "\<exists>i'. free_slot slots (mask k) ?i = Some i' \<and> unat i' = (unat ?i + j) mod ?L"
    by (rule Suc.IH)
  then show ?case unfolding s using here Suc.prems(1) by (subst (1) free_slot.simps) simp
qed

text \<open>With an empty slot in the table there is a first stop on every walk.\<close>

lemma first_stop:
  assumes "table_count slots < length slots" "h < length slots" and Q: "\<And>x. x = no_fp \<Longrightarrow> Q x"
  obtains j where "j < length slots" "Q (slots ! ((h + j) mod length slots))"
    "\<forall>m<j. \<not> Q (slots ! ((h + m) mod length slots))"
proof -
  let ?L = "length slots"
  obtain p where p: "p < ?L" "slots ! p = no_fp" using table_room [OF assms(1)] by auto
  have "(h + (p + (?L - h)) mod ?L) mod ?L = p"
  proof -
    have "(h + (p + (?L - h)) mod ?L) mod ?L = (h + (p + (?L - h))) mod ?L" by (rule mod_add_right_eq)
    also have "\<dots> = (p + ?L) mod ?L" using assms(2) by (simp add: add.commute)
    finally show ?thesis using p(1) by simp
  qed
  with p(2) have e: "Q (slots ! ((h + (p + (?L - h)) mod ?L) mod ?L))" by (simp add: Q)
  let ?P = "\<lambda>j. Q (slots ! ((h + j) mod ?L))"
  have "?P (Least ?P)" by (rule LeastI, rule e)
  moreover have "Least ?P < ?L"
    using Least_le [of ?P, OF e] mod_less_divisor [of ?L "p + (?L - h)"] assms(2) by linarith
  moreover have "\<forall>m<Least ?P. \<not> ?P m" using not_less_Least by blast
  ultimately show ?thesis using that by blast
qed

section \<open>The operations of a table\<close>

lemma table_put:
  assumes ok: "table_ok k slots" and new: "fp \<notin> table_keys slots" "fp \<noteq> no_fp"
    and p: "j < length slots" "p = (table_home (length slots) fp + j) mod length slots" "slots ! p = no_fp"
    and run: "clear_run slots (table_home (length slots) fp) j"
  shows "table_ok k (slots[p := fp])" "table_keys (slots[p := fp]) = insert fp (table_keys slots)"
    "table_count (slots[p := fp]) = Suc (table_count slots)"
proof -
  let ?L = "length slots" and ?s = "slots[p := fp]"
  have lt: "p < ?L" using table_okD(4) [OF ok] by (simp add: p(2))
  have split: "slots = take p slots @ no_fp # drop (Suc p) slots"
    using id_take_nth_drop [OF lt] p(3) by simp
  have put: "?s = take p slots @ fp # drop (Suc p) slots" by (rule upd_conv_take_nth_drop [OF lt])
  have fin: "filter (\<lambda>x. x \<noteq> no_fp) ?s =
      filter (\<lambda>x. x \<noteq> no_fp) (take p slots) @ fp # filter (\<lambda>x. x \<noteq> no_fp) (drop (Suc p) slots)"
    unfolding put using new(2) by simp
  have fold: "filter (\<lambda>x. x \<noteq> no_fp) slots =
      filter (\<lambda>x. x \<noteq> no_fp) (take p slots) @ filter (\<lambda>x. x \<noteq> no_fp) (drop (Suc p) slots)"
    by (subst split) simp
  have sets: "set (filter (\<lambda>x. x \<noteq> no_fp) xs) = table_keys xs" for xs by (auto simp: table_keys_def)
  show "table_count ?s = Suc (table_count slots)" unfolding table_count_def fin fold by simp
  show "table_keys ?s = insert fp (table_keys slots)" unfolding sets [symmetric] fin fold by simp
  have "fp \<notin> set (filter (\<lambda>x. x \<noteq> no_fp) slots)" using new(1) unfolding sets .
  then have d: "distinct (filter (\<lambda>x. x \<noteq> no_fp) ?s)"
    using table_okD(3) [OF ok] unfolding fin fold by auto
  have keeps: "clear_run slots h m \<Longrightarrow> clear_run ?s h m" for h m
    using new(2) lt by (auto simp: clear_run_def nth_list_update)
  have "\<exists>j<?L. q = (table_home ?L (?s ! q) + j) mod ?L \<and> clear_run ?s (table_home ?L (?s ! q)) j"
    if q: "q < ?L" "?s ! q \<noteq> no_fp" for q
  proof (cases "q = p")
    case True
    then show ?thesis using p(1,2) run keeps lt by auto
  next
    case False
    then have "?s ! q = slots ! q" by simp
    with q ok keeps show ?thesis unfolding table_ok_def by fastforce
  qed
  with d table_okD(1,2) [OF ok] show "table_ok k ?s" by (simp add: table_ok_def)
qed

lemma probe_home:
  assumes ok: "table_ok k slots" and room: "table_count slots < length slots" and fp: "fp \<noteq> no_fp"
  shows "\<exists>i j. probe slots (mask k) fp (fst fp AND mask k) = Some (fp \<in> table_keys slots, i) \<and>
    (fp \<notin> table_keys slots \<longrightarrow> j < length slots \<and> slots ! unat i = no_fp \<and>
       unat i = (table_home (length slots) fp + j) mod length slots \<and>
       clear_run slots (table_home (length slots) fp) j)"
proof -
  let ?L = "length slots" and ?h = "table_home (length slots) fp"
  note k = table_okD [OF ok]
  have h: "unat (fst fp AND (mask k :: 64 word)) = ?h" using mask_home [OF k(1)] k(2) by simp
  have hL: "?h < ?L" using k(4) by (simp add: table_home_def)
  obtain j where j: "j < ?L" "slots ! ((?h + j) mod ?L) \<in> {fp, no_fp}"
      "\<forall>m<j. slots ! ((?h + m) mod ?L) \<notin> {fp, no_fp}"
    by (rule first_stop [OF room hL, of "\<lambda>x. x \<in> {fp, no_fp}"]) auto
  have "(slots ! ((?h + j) mod ?L) = fp) = (fp \<in> table_keys slots)"
  proof
    assume "slots ! ((?h + j) mod ?L) = fp"
    then show "fp \<in> table_keys slots"
      using nth_mem [of "(?h + j) mod ?L" slots] k(4) fp by (simp add: table_keys_def)
  next
    assume "fp \<in> table_keys slots"
    then obtain q where q: "q < ?L" "slots ! q = fp" by (auto simp: table_keys_def in_set_conv_nth)
    then obtain j' where j': "q = (?h + j') mod ?L" "clear_run slots ?h j'"
      using ok fp by (auto simp: table_ok_def)
    have "\<not> j' < j" using j(3) q(2) j'(1) by auto
    then show "slots ! ((?h + j) mod ?L) = fp"
      using j(2) j'(2) q(2) j'(1) by (cases "j = j'") (auto simp: clear_run_def)
  qed
  moreover obtain i where "probe slots (mask k) fp (fst fp AND mask k) =
      Some (slots ! ((?h + j) mod ?L) = fp, i)" "unat i = (?h + j) mod ?L"
    using probe_walk [OF k(1,2), of "fst fp AND mask k" j fp] j(2,3) hL unfolding h by auto
  ultimately show ?thesis using j fp by (intro exI [of _ i] exI [of _ j]) (auto simp: clear_run_def)
qed

lemma free_home:
  assumes ok: "table_ok k slots" and room: "table_count slots < length slots"
    and new: "fp \<notin> table_keys slots" "fp \<noteq> no_fp"
  obtains i where "free_slot slots (mask k) (fst fp AND mask k) = Some i" "table_ok k (slots[unat i := fp])"
    "table_keys (slots[unat i := fp]) = insert fp (table_keys slots)"
    "table_count (slots[unat i := fp]) = Suc (table_count slots)"
proof -
  let ?L = "length slots" and ?h = "table_home (length slots) fp"
  note k = table_okD [OF ok]
  have h: "unat (fst fp AND (mask k :: 64 word)) = ?h" using mask_home [OF k(1)] k(2) by simp
  have hL: "?h < ?L" using k(4) by (simp add: table_home_def)
  obtain j where j: "j < ?L" "slots ! ((?h + j) mod ?L) = no_fp"
      "\<forall>m<j. slots ! ((?h + m) mod ?L) \<noteq> no_fp"
    by (rule first_stop [OF room hL, of "\<lambda>x. x = no_fp"]) auto
  obtain i where i: "free_slot slots (mask k) (fst fp AND mask k) = Some i" "unat i = (?h + j) mod ?L"
    using free_slot_walk [OF k(1,2), of "fst fp AND mask k" j] j(2,3) hL unfolding h by auto
  from j(3) have "clear_run slots ?h j" by (simp add: clear_run_def)
  from table_put [OF ok new j(1) i(2) _ this] j(2) have
    "table_ok k (slots[unat i := fp])" "table_keys (slots[unat i := fp]) = insert fp (table_keys slots)"
    "table_count (slots[unat i := fp]) = Suc (table_count slots)" unfolding i(2) by simp_all
  with i(1) show ?thesis by (rule that)
qed

lemma rehash_ok:
  assumes "table_ok k slots" "distinct (filter (\<lambda>x. x \<noteq> no_fp) old)"
    "table_keys old \<inter> table_keys slots = {}" "table_count slots + table_count old < length slots"
  shows "\<exists>slots1. rehash (mask k) old slots = Some slots1 \<and> table_ok k slots1 \<and>
    table_keys slots1 = table_keys slots \<union> table_keys old \<and>
    table_count slots1 = table_count slots + table_count old"
  using assms
proof (induction old arbitrary: slots)
  case Nil
  then show ?case by (simp add: table_keys_def table_count_def)
next
  case (Cons fp old)
  show ?case
  proof (cases "fp = no_fp")
    case True
    then show ?thesis using Cons by (simp add: table_keys_def table_count_def)
  next
    case False
    have room: "table_count slots < length slots" using Cons.prems(4) by simp
    have new: "fp \<notin> table_keys slots" using Cons.prems(3) False by (auto simp: table_keys_def)
    obtain i where i: "free_slot slots (mask k) (fst fp AND mask k) = Some i"
        "table_ok k (slots[unat i := fp])" "table_keys (slots[unat i := fp]) = insert fp (table_keys slots)"
        "table_count (slots[unat i := fp]) = Suc (table_count slots)"
      by (rule free_home [OF Cons.prems(1) room new False])
    have keys: "table_keys (fp # old) = insert fp (table_keys old)"
      and count: "table_count (fp # old) = Suc (table_count old)"
      using False by (auto simp: table_keys_def table_count_def)
    have fresh: "fp \<notin> table_keys old" using Cons.prems(2) False by (auto simp: table_keys_def)
    have "\<exists>slots1. rehash (mask k) old (slots[unat i := fp]) = Some slots1 \<and> table_ok k slots1 \<and>
      table_keys slots1 = table_keys (slots[unat i := fp]) \<union> table_keys old \<and>
      table_count slots1 = table_count (slots[unat i := fp]) + table_count old"
      using i Cons.prems keys count fresh by (intro Cons.IH) (auto split: if_splits)
    then show ?thesis using i(1,3,4) False keys count by simp
  qed
qed

definition shard_ok :: "dedup_shard \<Rightarrow> bool" where
  "shard_ok d = (\<exists>k. table_ok k (sh_slots d) \<and> sh_mask d = mask k \<and>
     sh_n d = int (table_count (sh_slots d)) \<and> 4 * sh_n d \<le> 3 * int (length (sh_slots d)))"

definition shard_keys :: "dedup_shard \<Rightarrow> dedup_fp set" where
  "shard_keys d = table_keys (sh_slots d)"

lemma shard_okE:
  assumes "shard_ok d"
  obtains k where "table_ok k (sh_slots d)" "sh_mask d = mask k" "table_count (sh_slots d) < length (sh_slots d)"
    "sh_n d = int (table_count (sh_slots d))" "4 * sh_n d \<le> 3 * int (length (sh_slots d))"
proof -
  obtain k where k: "table_ok k (sh_slots d)" "sh_mask d = mask k"
      "sh_n d = int (table_count (sh_slots d))" "4 * sh_n d \<le> 3 * int (length (sh_slots d))"
    using assms by (auto simp: shard_ok_def)
  have "int (table_count (sh_slots d)) < int (length (sh_slots d))"
    using k(3,4) table_okD(4) [OF k(1)] by linarith
  then show ?thesis using that [OF k(1,2) _ k(3,4)] by simp
qed

lemma shard_has_ok: "shard_ok d \<Longrightarrow> fp \<noteq> no_fp \<Longrightarrow> shard_has fp d = Some (fp \<in> shard_keys d)"
  by (erule shard_okE) (use probe_home in \<open>fastforce simp: shard_has_def shard_keys_def\<close>)

text \<open>A table that is over its load factor is doubled; the bound keeps its mask within the word.\<close>

lemma grow_ok:
  assumes "table_ok k (sh_slots d)" "int (length (sh_slots d)) * 3 < sh_n d * 4"
    "sh_n d = int (table_count (sh_slots d))" "sh_n d \<le> 2 ^ 60"
  shows "\<exists>d'. grow d = Some d' \<and> shard_ok d' \<and> shard_keys d' = shard_keys d"
proof -
  let ?old = "sh_slots d"
  note k = table_okD [OF assms(1)]
  have le: "table_count ?old \<le> length ?old" by (simp add: table_count_def)
  have "int (2 ^ k) * 3 < 2 ^ 62" using assms(2,4) unfolding k(2) by simp
  then have "int (2 ^ k) < int (2 ^ 61)" by simp
  then have "(2::nat) ^ k < 2 ^ 61" unfolding of_nat_less_iff .
  then have k1: "Suc k < 64" using power_less_imp_less_exp [of "2::nat" k 61] by simp
  have len: "length ?old * 2 = 2 ^ Suc k" using k(2) by simp
  have m: "(of_nat (2 ^ Suc k - 1) :: 64 word) = mask (Suc k)" by (rule mask_of_len [OF k1])
  have "table_count ?old < length ?old * 2" using le k(4) by linarith
  then have "table_count ?old < 2 ^ Suc k" unfolding len .
  then obtain s1 where s1: "rehash (mask (Suc k)) ?old (replicate (2 ^ Suc k) no_fp) = Some s1"
      "table_ok (Suc k) s1" "table_keys s1 = table_keys ?old" "table_count s1 = table_count ?old"
    using rehash_ok [OF empty_table_ok [OF k1] k(3)] by auto
  have g: "grow d = Some (d\<lparr>sh_slots := s1, sh_mask := mask (Suc k)\<rparr>)"
    using s1(1) by (simp only: grow_def Let_def len length_replicate m) simp
  have "4 * int (table_count ?old) \<le> 3 * int (length s1)"
    using le unfolding table_okD(2) [OF s1(2)] len [symmetric] by simp
  then have "shard_ok (d\<lparr>sh_slots := s1, sh_mask := mask (Suc k)\<rparr>)"
    using s1(2,4) assms(3) by (auto simp: shard_ok_def)
  with g s1(3) show ?thesis by (simp add: shard_keys_def)
qed

lemma shard_card: "shard_ok d \<Longrightarrow> sh_n d = int (card (shard_keys d))"
  by (erule shard_okE) (simp add: table_count_card shard_keys_def)

lemma shard_add_ok:
  assumes "shard_ok d" "fp \<noteq> no_fp" "card (shard_keys d) < 2 ^ 60"
  shows "\<exists>d'. shard_add fp d = Some (fp \<in> shard_keys d, d') \<and> shard_ok d' \<and>
    shard_keys d' = insert fp (shard_keys d)"
proof -
  let ?s = "sh_slots d"
  obtain k where k: "table_ok k ?s" "sh_mask d = mask k" "table_count ?s < length ?s"
      "sh_n d = int (table_count ?s)" "4 * sh_n d \<le> 3 * int (length ?s)"
    using assms(1) by (rule shard_okE)
  obtain i j where p: "probe ?s (mask k) fp (fst fp AND mask k) = Some (fp \<in> table_keys ?s, i)"
      "fp \<notin> table_keys ?s \<longrightarrow> j < length ?s \<and> ?s ! unat i = no_fp \<and>
         unat i = (table_home (length ?s) fp + j) mod length ?s \<and>
         clear_run ?s (table_home (length ?s) fp) j"
    using probe_home [OF k(1,3) assms(2)] by blast
  show ?thesis
  proof (cases "fp \<in> table_keys ?s")
    case True
    then show ?thesis using p(1) k(2) assms(1) by (auto simp: shard_add_def shard_keys_def)
  next
    case False
    let ?d = "d\<lparr>sh_slots := ?s[unat i := fp], sh_n := sh_n d + 1\<rparr>"
    have at_i: "j < length ?s" "unat i = (table_home (length ?s) fp + j) mod length ?s"
        "?s ! unat i = no_fp" "clear_run ?s (table_home (length ?s) fp) j"
      using p(2) False by blast+
    note put = table_put [OF k(1) False assms(2) at_i]
    have n: "sh_n ?d = int (table_count (sh_slots ?d))" "table_ok k (sh_slots ?d)"
        "shard_keys ?d = insert fp (shard_keys d)"
      using put k(4) by (simp_all add: shard_keys_def)
    have small: "sh_n ?d \<le> 2 ^ 60" using assms(3) shard_card [OF assms(1)] by simp
    have add: "shard_add fp d = (if sh_n ?d * 4 > int (length (sh_slots ?d)) * 3
        then map_option (Pair False) (grow ?d) else Some (False, ?d))"
      using p(1) k(2) False by (simp add: shard_add_def dedupLoadDen_def dedupLoadNum_def Let_def)
    show ?thesis
    proof (cases "sh_n ?d * 4 > int (length (sh_slots ?d)) * 3")
      case True
      from grow_ok [OF n(2) this n(1) small] n(3) False True show ?thesis
        unfolding add by (auto simp: shard_keys_def)
    next
      case ok: False
      then have "shard_ok ?d" using n(1,2) k(2) by (auto simp: shard_ok_def)
      with ok n(3) False show ?thesis unfolding add by (auto simp: shard_keys_def)
    qed
  qed
qed

end
