(* ===== verification/DedupSet.thy ===== *)
theory DedupSet imports DedupProofs begin

text \<open>
  The duplicate set as a set.  The contract that one table and the sixty-four of them meet is the
  locale \<open>fp_store\<close>, interpreted on both; a run of insertions is proved once inside it.
\<close>

section \<open>The contract\<close>

fun adds :: "(dedup_fp \<Rightarrow> 's \<Rightarrow> (bool \<times> 's) option) \<Rightarrow> dedup_fp list \<Rightarrow> 's \<Rightarrow> (bool list \<times> 's) option" where
  "adds add [] s = Some ([], s)"
| "adds add (fp # fps) s =
     (case add fp s of
        None \<Rightarrow> None
      | Some (seen, s1) \<Rightarrow> map_option (\<lambda>(rest, s2). (seen # rest, s2)) (adds add fps s1))"

text \<open>Which of the fingerprints were there before: in the store already, or earlier in the list.\<close>

fun seen_before :: "dedup_fp set \<Rightarrow> dedup_fp list \<Rightarrow> bool list" where
  "seen_before K [] = []"
| "seen_before K (fp # fps) = (fp \<in> K) # seen_before (insert fp K) fps"

locale fp_store =
  fixes add :: "dedup_fp \<Rightarrow> 's \<Rightarrow> (bool \<times> 's) option"
    and has :: "dedup_fp \<Rightarrow> 's \<Rightarrow> bool option"
    and keys :: "'s \<Rightarrow> dedup_fp set"
    and ok :: "'s \<Rightarrow> bool"
    and takes :: "dedup_fp \<Rightarrow> bool"
  assumes add_ok: "ok s \<Longrightarrow> takes fp \<Longrightarrow> card (keys s) < 2 ^ 60 \<Longrightarrow>
      \<exists>s'. add fp s = Some (fp \<in> keys s, s') \<and> ok s' \<and> keys s' = insert fp (keys s)"
    and has_ok: "ok s \<Longrightarrow> takes fp \<Longrightarrow> has fp s = Some (fp \<in> keys s)"
    and keys_finite: "ok s \<Longrightarrow> finite (keys s)"
begin

lemma adds_ok:
  assumes "ok s" "\<forall>fp\<in>set fps. takes fp" "card (keys s) + length fps \<le> 2 ^ 60"
  shows "\<exists>s'. adds add fps s = Some (seen_before (keys s) fps, s') \<and> ok s' \<and> keys s' = keys s \<union> set fps"
  using assms
proof (induction fps arbitrary: s)
  case Nil
  then show ?case by simp
next
  case (Cons fp fps)
  have "card (keys s) < 2 ^ 60" using Cons.prems(3) by simp
  then obtain s1 where s1: "add fp s = Some (fp \<in> keys s, s1)" "ok s1" "keys s1 = insert fp (keys s)"
    using add_ok [OF Cons.prems(1)] Cons.prems(2) by fastforce
  have "card (keys s1) + length fps \<le> 2 ^ 60"
    using Cons.prems(3) card_insert_le_m1 [of "Suc (card (keys s))" "keys s" fp] by (simp add: s1(3))
  then obtain s2 where "adds add fps s1 = Some (seen_before (keys s1) fps, s2)" "ok s2"
      "keys s2 = keys s1 \<union> set fps"
    using Cons.IH [OF s1(2)] Cons.prems(2) by auto
  with s1 show ?case by auto
qed

end

section \<open>One table\<close>

lemma shard_keys_finite: "finite (shard_keys d)"
  by (simp add: shard_keys_def table_keys_def)

interpretation shard: fp_store shard_add shard_has shard_keys shard_ok "\<lambda>fp. fp \<noteq> no_fp"
  by unfold_locales (simp_all add: shard_add_ok shard_has_ok shard_keys_finite)

section \<open>Sixty-four tables\<close>

definition set_keys :: "'seed dedup_set \<Rightarrow> dedup_fp set" where
  "set_keys s = (\<Union>d\<in>set (ds_shards s). shard_keys d) \<union> (if ds_zero s then {no_fp} else {})"

definition set_ok :: "'seed dedup_set \<Rightarrow> bool" where
  "set_ok s = (length (ds_shards s) = dedupShards \<and>
     (\<forall>i<dedupShards. shard_ok (ds_shards s ! i) \<and> (\<forall>fp\<in>shard_keys (ds_shards s ! i). shard_of fp = i)))"

lemma shard_of_less: "shard_of fp < dedupShards"
proof -
  have "unat (fst fp) < 2 ^ 64" using unsigned_less [of "fst fp"] by simp
  then have "unat (fst fp) div 2 ^ 58 < 2 ^ 6" by (intro less_mult_imp_div_less) simp
  then show ?thesis
    unfolding shard_of_def dedupShardShift_def unat_drop_bit_eq unfolding drop_bit_eq_div dedupShards_def
    by simp
qed

lemma no_fp_not_key [simp]: "no_fp \<notin> shard_keys d"
  by (simp add: shard_keys_def table_keys_def)

lemma set_keys_finite: "finite (set_keys s)"
  by (simp add: set_keys_def shard_keys_finite)

lemma set_keys_zero: "(no_fp \<in> set_keys s) = ds_zero s"
  by (simp add: set_keys_def)

lemma set_ok_routed:
  "set_ok s \<Longrightarrow> i < dedupShards \<Longrightarrow> fp \<in> shard_keys (ds_shards s ! i) \<Longrightarrow> shard_of fp = i"
  by (simp add: set_ok_def)

lemma set_keys_member:
  assumes "set_ok s" "fp \<noteq> no_fp"
  shows "(fp \<in> set_keys s) = (fp \<in> shard_keys (ds_shards s ! shard_of fp))"
proof -
  have len: "length (ds_shards s) = dedupShards" using assms(1) by (simp add: set_ok_def)
  have "(fp \<in> set_keys s) = (\<exists>d\<in>set (ds_shards s). fp \<in> shard_keys d)"
    using assms(2) by (simp add: set_keys_def)
  also have "\<dots> = (\<exists>i<dedupShards. fp \<in> shard_keys (ds_shards s ! i))"
    unfolding len [symmetric] by (metis in_set_conv_nth)
  also have "\<dots> = (fp \<in> shard_keys (ds_shards s ! shard_of fp))"
    using set_ok_routed [OF assms(1)] shard_of_less [of fp] by blast
  finally show ?thesis .
qed

lemma shard_card_le:
  assumes "set_ok s"
  shows "card (shard_keys (ds_shards s ! shard_of fp)) \<le> card (set_keys s)"
proof (rule card_mono [OF set_keys_finite])
  have "ds_shards s ! shard_of fp \<in> set (ds_shards s)"
    using assms shard_of_less [of fp] by (simp add: set_ok_def)
  then show "shard_keys (ds_shards s ! shard_of fp) \<subseteq> set_keys s" by (auto simp: set_keys_def)
qed

lemma set_has_ok: "set_ok s \<Longrightarrow> set_has fp s = Some (fp \<in> set_keys s)"
  using shard_of_less [of fp]
  by (cases "fp = no_fp") (simp_all add: set_has_def set_keys_zero set_keys_member set_ok_def shard_has_ok)

lemma set_keys_put:
  assumes "set_ok s" "shard_of fp = i" "shard_keys d = insert fp (shard_keys (ds_shards s ! i))"
  shows "set_keys (s\<lparr>ds_shards := (ds_shards s)[i := d]\<rparr>) = insert fp (set_keys s)"
proof -
  let ?xs = "ds_shards s"
  have i: "i < length ?xs" using assms(1,2) shard_of_less [of fp] by (auto simp: set_ok_def)
  have "(\<Union>d\<in>set (?xs[i := d]). shard_keys d) = insert fp (\<Union>d\<in>set ?xs. shard_keys d)"
  proof -
    have "(\<Union>d\<in>set xs. shard_keys d) = (\<Union>j<length xs. shard_keys (xs ! j))" for xs
      by (auto simp: in_set_conv_nth) (metis in_set_conv_nth)
    note nths = this
    show ?thesis unfolding nths length_list_update using i assms(3)
      by (auto simp: nth_list_update split: if_splits)
  qed
  then show ?thesis by (simp add: set_keys_def)
qed

lemma set_add_ok:
  assumes "set_ok s" "card (set_keys s) < 2 ^ 60"
  shows "\<exists>s'. set_add fp s = Some (fp \<in> set_keys s, s') \<and> set_ok s' \<and> set_keys s' = insert fp (set_keys s)"
proof (cases "fp = no_fp")
  case True
  then show ?thesis using assms(1) by (auto simp: set_add_def set_keys_def set_ok_def)
next
  case False
  let ?i = "shard_of fp"
  let ?d = "ds_shards s ! ?i"
  have d: "shard_ok ?d" using assms(1) shard_of_less [of fp] by (simp add: set_ok_def)
  have "card (shard_keys ?d) < 2 ^ 60" using shard_card_le [OF assms(1), of fp] assms(2) by simp
  then obtain d' where d': "shard_add fp ?d = Some (fp \<in> shard_keys ?d, d')" "shard_ok d'"
      "shard_keys d' = insert fp (shard_keys ?d)"
    using shard_add_ok [OF d False] by blast
  have put: "(ds_shards s)[?i := d'] ! i = (if i = ?i then d' else ds_shards s ! i)" if "i < dedupShards" for i
    using that assms(1) by (simp add: set_ok_def nth_list_update)
  have "\<forall>g\<in>shard_keys d'. shard_of g = ?i"
    using assms(1) d'(3) shard_of_less [of fp] by (simp add: set_ok_def)
  then have ok: "set_ok (s\<lparr>ds_shards := (ds_shards s)[?i := d']\<rparr>)"
    using assms(1) d'(2) by (simp add: set_ok_def put)
  show ?thesis
    using d' False ok set_keys_put [OF assms(1) refl d'(3)] set_keys_member [OF assms(1) False]
    by (simp add: set_add_def)
qed

interpretation dset: fp_store set_add set_has set_keys set_ok "\<lambda>_. True"
  by unfold_locales (simp_all add: set_add_ok set_has_ok set_keys_finite)

lemma set_len_card:
  assumes "set_ok s"
  shows "set_len s = int (card (set_keys s))"
proof -
  let ?xs = "ds_shards s"
  have len: "length ?xs = dedupShards" using assms by (simp add: set_ok_def)
  have apart: "\<forall>i\<in>{..<dedupShards}. \<forall>j\<in>{..<dedupShards}. i \<noteq> j \<longrightarrow>
      shard_keys (?xs ! i) \<inter> shard_keys (?xs ! j) = {}"
    using set_ok_routed [OF assms] by (auto dest: set_ok_routed [OF assms])
  have "sum_list (map sh_n ?xs) = (\<Sum>i<dedupShards. sh_n (?xs ! i))"
    by (simp add: sum_list_sum_nth len atLeast0LessThan)
  also have "\<dots> = (\<Sum>i<dedupShards. int (card (shard_keys (?xs ! i))))"
    using assms by (intro sum.cong refl) (simp add: set_ok_def shard_card)
  also have "\<dots> = int (card (\<Union>i<dedupShards. shard_keys (?xs ! i)))"
    using apart by (simp add: card_UN_disjoint shard_keys_finite)
  also have "(\<Union>i<dedupShards. shard_keys (?xs ! i)) = (\<Union>d\<in>set ?xs. shard_keys d)"
    unfolding len [symmetric] by (auto simp: in_set_conv_nth) (metis in_set_conv_nth)
  finally show ?thesis by (auto simp: set_len_def set_keys_def shard_keys_finite)
qed

section \<open>A fresh set\<close>

lemma table_capacity_power: "i \<le> 40 \<Longrightarrow> \<exists>j\<le>40. table_capacity want (2 ^ i) = 2 ^ j"
proof (induction "40 - i" arbitrary: i)
  case 0
  then show ?case by (subst table_capacity.simps) (intro exI [of _ 40], simp)
next
  case (Suc n)
  show ?case
  proof (cases "2 ^ i < want")
    case True
    have "\<exists>j\<le>40. table_capacity want (2 ^ Suc i) = 2 ^ j" using Suc.hyps(2) by (intro Suc.hyps(1)) auto
    moreover have "(2::int) ^ i < 2 ^ 40" using Suc.hyps(2) by (intro power_strict_increasing) auto
    ultimately show ?thesis using True by (subst table_capacity.simps) simp
  next
    case False
    then show ?thesis using Suc.prems by (subst table_capacity.simps) auto
  qed
qed

lemma new_set:
  "set_ok (newDedupSetWithSeeds hint a b)" "set_keys (newDedupSetWithSeeds hint a b) = {}"
  "ds_seedA (newDedupSetWithSeeds hint a b) = a" "ds_seedB (newDedupSetWithSeeds hint a b) = b"
proof -
  obtain k where k: "k \<le> 40" "table_capacity (hint div int dedupShards * dedupLoadDen div dedupLoadNum) dedupMinSlots = 2 ^ k"
    using table_capacity_power [of 6] by (auto simp: dedupMinSlots_def)
  have "(of_int (2 ^ k - 1) :: 64 word) = mask k" by (simp add: mask_eq_exp_minus_1)
  then have s: "ds_shards (newDedupSetWithSeeds hint a b) =
      replicate dedupShards \<lparr>sh_slots = replicate (2 ^ k) no_fp, sh_mask = mask k, sh_n = 0\<rparr>"
    by (simp add: newDedupSetWithSeeds_def Let_def k(2) nat_power_eq)
  have "shard_ok \<lparr>sh_slots = replicate (2 ^ k) no_fp, sh_mask = mask k, sh_n = 0\<rparr>"
    using k(1) empty_table_ok [of k] by (auto simp: shard_ok_def)
  with s show "set_ok (newDedupSetWithSeeds hint a b)" by (simp add: set_ok_def shard_keys_def)
  show "set_keys (newDedupSetWithSeeds hint a b) = {}"
    using s by (simp add: set_keys_def shard_keys_def) (simp add: newDedupSetWithSeeds_def Let_def)
qed (simp_all add: newDedupSetWithSeeds_def Let_def)

end
