(* ===== verification/ArchiveGuard.thy ===== *)
theory ArchiveGuard imports DedupSet ContractB begin

text \<open>
  The archive's duplicate guard (\<open>internal/archive/archive.go\<close>): the key of a record, the guard on the
  live path, and the records a restart replays into it.  What the window of two generations keeps and
  forgets is proved for any run of insertions.
\<close>

section \<open>Keys\<close>

text \<open>\<open>%d\<close>.\<close>

fun decimal :: "nat \<Rightarrow> bytes" where
  "decimal n = (if n < 10 then [char_of (48 + n)] else decimal (n div 10) @ [char_of (48 + n mod 10)])"

declare decimal.simps [simp del]

definition itoa :: "int \<Rightarrow> bytes" where
  "itoa i = (if i < 0 then CHR ''-'' # decimal (nat (- i)) else decimal (nat i))"

definition dedupKey :: "bytes \<Rightarrow> bytes \<Rightarrow> bytes \<Rightarrow> migration_attempt option \<Rightarrow> bytes" where
  "dedupKey typ migrationID code attempt =
     (if typ = ''NACK''
      then migrationID @ ''/'' @ code @
        (case attempt of
           None \<Rightarrow> []
         | Some a \<Rightarrow> if code = ''NOT_FORWARDED''
                     then ''/'' @ itoa (at_DestSlot a) @ ''/'' @ itoa (at_RerouteCount a) else [])
      else migrationID)"

section \<open>The guard\<close>

record 'seed dup_guard =
  gd_seen :: "'seed dedup_window"
  gd_duplicatesRefused :: int

definition markSeen ::
  "('seed \<Rightarrow> bytes \<times> bytes \<Rightarrow> 64 word) \<Rightarrow> bytes \<Rightarrow> bytes \<Rightarrow> time \<Rightarrow> 'seed dup_guard \<Rightarrow>
     (bool \<times> 'seed dup_guard) option"
where
  "markSeen hash typ key now g =
     (if key = [] then Some (False, g)
      else case window_add (set_fingerprint hash typ key (dw_cur (gd_seen g))) now (gd_seen g) of
             None \<Rightarrow> None
           | Some (False, w) \<Rightarrow> Some (False, g\<lparr>gd_seen := w\<rparr>)
           | Some (True, w) \<Rightarrow>
               Some (True, g\<lparr>gd_seen := w, gd_duplicatesRefused := gd_duplicatesRefused g + 1\<rparr>))"

text \<open>The part of \<open>replayRawLocked\<close> that rebuilds the guard from one record of the ledger.\<close>

definition replay_seen ::
  "('seed \<Rightarrow> bytes \<times> bytes \<Rightarrow> 64 word) \<Rightarrow> duration \<Rightarrow> time \<Rightarrow> bytes \<Rightarrow> bytes \<Rightarrow> bytes \<Rightarrow>
     migration_attempt option \<Rightarrow> int \<Rightarrow> 'seed dedup_window \<Rightarrow> 'seed dedup_window option"
where
  "replay_seen hash dedupWindow now typ migrationID code attempt recordedAt w =
     (let at_time = time_of_milli recordedAt in
      if migrationID \<noteq> [] \<and> recordedAt > 0 \<and> now - at_time < dedupWindow
      then map_option snd
        (window_add (set_fingerprint hash typ (dedupKey typ migrationID code attempt) (dw_cur w)) at_time w)
      else Some w)"

section \<open>What a window holds\<close>

definition cur_keys :: "'seed dedup_window \<Rightarrow> dedup_fp set" where
  "cur_keys w = set_keys (dw_cur w)"

definition prev_keys :: "'seed dedup_window \<Rightarrow> dedup_fp set" where
  "prev_keys w = (case dw_prev w of None \<Rightarrow> {} | Some s \<Rightarrow> set_keys s)"

definition window_ok :: "'seed dedup_window \<Rightarrow> bool" where
  "window_ok w = (0 < dw_window w \<and> set_ok (dw_cur w) \<and>
     (case dw_prev w of None \<Rightarrow> True | Some s \<Rightarrow> set_ok s))"

definition window_seeds :: "'seed dedup_window \<Rightarrow> 'seed \<times> 'seed" where
  "window_seeds w = (ds_seedA (dw_cur w), ds_seedB (dw_cur w))"

lemma tick_cases:
  obtains (same) "now < dw_rotateAt w" "window_tick now w = w"
  | (rotated) "dw_rotateAt w \<le> now" "now < dw_rotateAt w + dw_window w"
      "cur_keys (window_tick now w) = {}" "prev_keys (window_tick now w) = cur_keys w"
      "dw_rotateAt (window_tick now w) = dw_rotateAt w + dw_window w"
  | (gap) "dw_rotateAt w + dw_window w \<le> now"
      "cur_keys (window_tick now w) = {}" "prev_keys (window_tick now w) = {}"
      "dw_rotateAt (window_tick now w) = now + dw_window w"
proof -
  consider "now < dw_rotateAt w" | "dw_rotateAt w \<le> now" "now < dw_rotateAt w + dw_window w"
    | "dw_rotateAt w \<le> now" "dw_rotateAt w + dw_window w \<le> now" by linarith
  then show thesis
  proof cases
    case 1
    then show ?thesis by (intro same) (simp_all add: window_tick_def)
  next
    case 2
    then show ?thesis
      by (intro rotated) (simp_all add: window_tick_def Let_def cur_keys_def prev_keys_def new_set)
  next
    case 3
    show ?thesis
    proof (cases "dw_rotateAt w \<le> now")
      case True
      with 3 show ?thesis
        by (intro gap) (simp_all add: window_tick_def Let_def cur_keys_def prev_keys_def new_set)
    qed (use 3 in simp)
  qed
qed

lemma tick_keeps [simp]:
  "dw_window (window_tick now w) = dw_window w"
  "window_seeds (window_tick now w) = window_seeds w"
  "window_ok w \<Longrightarrow> window_ok (window_tick now w)"
  by (auto simp: window_tick_def Let_def window_seeds_def window_ok_def new_set)

lemma set_add_seeds: "set_add fp s = Some (seen, s') \<Longrightarrow> ds_seedA s' = ds_seedA s \<and> ds_seedB s' = ds_seedB s"
  by (auto simp: set_add_def split: if_splits)

lemma window_add_ok:
  assumes "window_ok w" "card (cur_keys w) < 2 ^ 60"
  shows "\<exists>w'. window_add fp now w = Some (fp \<in> cur_keys (window_tick now w) \<union> prev_keys (window_tick now w), w') \<and>
    window_ok w' \<and> dw_window w' = dw_window w \<and> window_seeds w' = window_seeds w \<and>
    dw_rotateAt w' = dw_rotateAt (window_tick now w) \<and> prev_keys w' = prev_keys (window_tick now w) \<and>
    cur_keys w' = (if fp \<in> prev_keys (window_tick now w) then cur_keys (window_tick now w)
                   else insert fp (cur_keys (window_tick now w)))"
proof -
  let ?w = "window_tick now w"
  have ok: "window_ok ?w" using assms(1) by simp
  have "card (cur_keys ?w) < 2 ^ 60" by (rule tick_cases [of now w]) (use assms(2) in simp_all)
  then obtain s where s: "set_add fp (dw_cur ?w) = Some (fp \<in> cur_keys ?w, s)" "set_ok s"
      "set_keys s = insert fp (cur_keys ?w)"
    using set_add_ok [of "dw_cur ?w" fp] ok by (auto simp: window_ok_def cur_keys_def)
  have seeds: "ds_seedA s = ds_seedA (dw_cur ?w)" "ds_seedB s = ds_seedB (dw_cur ?w)"
    using set_add_seeds [OF s(1)] by simp_all
  have keep: "window_ok (?w\<lparr>dw_cur := s\<rparr>)" "window_seeds (?w\<lparr>dw_cur := s\<rparr>) = window_seeds ?w"
      "cur_keys (?w\<lparr>dw_cur := s\<rparr>) = insert fp (cur_keys ?w)" "prev_keys (?w\<lparr>dw_cur := s\<rparr>) = prev_keys ?w"
    using ok s(2,3) seeds by (auto simp: window_ok_def window_seeds_def cur_keys_def prev_keys_def)
  show ?thesis
  proof (cases "dw_prev ?w")
    case None
    then have "prev_keys ?w = {}" by (simp add: prev_keys_def)
    with None s(1) keep show ?thesis by (simp add: window_add_def Let_def)
  next
    case (Some p)
    have "set_has fp p = Some (fp \<in> prev_keys ?w)"
      using ok Some set_has_ok [of p fp] by (simp add: window_ok_def prev_keys_def)
    with Some s(1) keep ok show ?thesis
      by (cases "fp \<in> prev_keys ?w") (simp_all add: window_add_def Let_def)
  qed
qed

lemma window_add_card:
  assumes "window_ok w" "card (cur_keys w) < 2 ^ 60" "window_add fp now w = Some (seen, w')"
  shows "card (cur_keys w') \<le> Suc (card (cur_keys w))"
proof -
  have "card (cur_keys (window_tick now w)) \<le> card (cur_keys w)" by (rule tick_cases [of now w]) simp_all
  moreover have "card (insert fp (cur_keys (window_tick now w))) \<le> Suc (card (cur_keys (window_tick now w)))"
    by (rule card_insert_le_m1) simp_all
  ultimately show ?thesis using window_add_ok [OF assms(1,2), of fp now] assms(3) by (auto split: if_splits)
qed

end
