(* ===== verification/HopFeed.thy ===== *)
theory HopFeed imports ArchiveGuard begin

text \<open>
  What the archive makes of the three copies of a migration (\<open>internal/archive\<close>: \<open>onMigration\<close>,
  \<open>onAck\<close> and \<open>onNack\<close> of \<open>archive.go\<close>, the correlator and the feed of \<open>hops.go\<close>): an offer is staged,
  an acknowledgement by the receiver it named promotes it to the feed, a refusal is kept as evidence;
  and each of them is recorded once.  The order in which Go visits a map is the parameter \<open>visit\<close>, and
  whether the ledger takes a record is an argument.
\<close>

section \<open>State\<close>

definition hopWindowMs :: int where
  "hopWindowMs = 60000"

definition hopMax :: nat where
  "hopMax = 200"

definition hopCorrelationWindowMs :: int where
  "hopCorrelationWindowMs = 24 * 3600000"

definition hopPendingMax :: nat where
  "hopPendingMax = 8192"

definition hopEarlyAckMax :: nat where
  "hopEarlyAckMax = 1024"

definition hopRefusedMax :: nat where
  "hopRefusedMax = 64"

record hop =
  hp_MigrationID :: bytes
  hp_AtMs :: int
  hp_FromSlot :: int
  hp_ToSlot :: int
  hp_RefusedSlots :: "int list"
  hp_RefusalsTruncated :: bool
  hp_ExitEdge :: bytes
  hp_Species :: "species option"

record pending_hop =
  pd_hop :: hop
  pd_destPeer :: bytes
  pd_seenAtMs :: int

record early_hop_ack =
  ea_sourcePeer :: bytes
  ea_seenAtMs :: int

record hop_state =
  hs_slots :: "slot_info list"
  hs_pending :: "(bytes, pending_hop) gomap"
  hs_early :: "(bytes, early_hop_ack) gomap"
  hs_trimAtMs :: int
  hs_hops :: "hop list"
  hs_truncated :: bool

section \<open>Bounds\<close>

definition trimHopCorrelation :: "int \<Rightarrow> hop_state \<Rightarrow> hop_state" where
  "trimHopCorrelation nowMs s =
     (if hs_trimAtMs s \<noteq> 0 \<and> nowMs - hs_trimAtMs s < 60000 \<and>
         length (hs_pending s) \<le> hopPendingMax \<and> length (hs_early s) \<le> hopEarlyAckMax
      then s
      else (let cut = nowMs - hopCorrelationWindowMs in
            s\<lparr>hs_trimAtMs := nowMs,
              hs_pending := filter (\<lambda>(k, p). \<not> pd_seenAtMs p < cut) (hs_pending s),
              hs_early := filter (\<lambda>(k, e). \<not> ea_seenAtMs e < cut) (hs_early s)\<rparr>))"

fun shed :: "nat \<Rightarrow> bytes list \<Rightarrow> (bytes, 'v) gomap \<Rightarrow> (bytes, 'v) gomap" where
  "shed target [] m = m"
| "shed target (k # ks) m =
     (let m1 = AList.delete k m in if length m1 \<le> target then m1 else shed target ks m1)"

definition cap_map :: "(bytes list \<Rightarrow> bytes list) \<Rightarrow> nat \<Rightarrow> (bytes, 'v) gomap \<Rightarrow> (bytes, 'v) gomap" where
  "cap_map visit limit m =
     (if length m > limit then shed (limit * 3 div 4) (visit (map fst m)) m else m)"

definition capHopCorrelation :: "(bytes list \<Rightarrow> bytes list) \<Rightarrow> hop_state \<Rightarrow> hop_state" where
  "capHopCorrelation visit s =
     s\<lparr>hs_pending := cap_map visit hopPendingMax (hs_pending s),
       hs_early := cap_map visit hopEarlyAckMax (hs_early s)\<rparr>"

definition trimHops :: "int \<Rightarrow> hop_state \<Rightarrow> hop_state" where
  "trimHops nowMs s =
     (let cut = nowMs - hopWindowMs;
          hops = dropWhile (\<lambda>h. hp_AtMs h < cut) (hs_hops s);
          n = length hops
      in if n > hopMax then s\<lparr>hs_hops := drop (n - hopMax) hops, hs_truncated := True\<rparr>
         else s\<lparr>hs_hops := hops\<rparr>)"

definition observeHop :: "hop \<Rightarrow> hop_state \<Rightarrow> hop_state" where
  "observeHop h s = trimHops (hp_AtMs h) (s\<lparr>hs_hops := hs_hops s @ [h]\<rparr>)"

section \<open>The correlator\<close>

definition hopPeerMatches :: "bytes \<Rightarrow> bytes \<Rightarrow> bool" where
  "hopPeerMatches want got = (want \<noteq> [] \<and> got \<noteq> [] \<and> want = got)"

definition peerForSlot :: "slot_info list \<Rightarrow> int \<Rightarrow> bytes" where
  "peerForSlot slots slot =
     (case find (\<lambda>i. si_Slot i = slot) slots of None \<Rightarrow> [] | Some i \<Rightarrow> si_PeerID i)"

definition promote :: "int \<Rightarrow> bytes \<Rightarrow> hop \<Rightarrow> hop_state \<Rightarrow> hop_state" where
  "promote nowMs k h s =
     observeHop (h\<lparr>hp_AtMs := nowMs\<rparr>)
       (s\<lparr>hs_pending := AList.delete k (hs_pending s), hs_early := AList.delete k (hs_early s)\<rparr>)"

definition observeHopAttempt ::
  "(bytes list \<Rightarrow> bytes list) \<Rightarrow> migration_payload \<Rightarrow> species option \<Rightarrow> int \<Rightarrow> hop_state \<Rightarrow> hop_state"
where
  "observeHopAttempt visit p species nowMs s =
     (if mp_MigrationID p = [] then s
      else (let k = mp_MigrationID p;
                s1 = trimHopCorrelation nowMs s;
                previous = map_of (hs_pending s1) k;
                h = \<lparr>hp_MigrationID = k, hp_AtMs = 0, hp_FromSlot = mp_SourceSlot p,
                     hp_ToSlot = mp_DestSlot p,
                     hp_RefusedSlots = (case previous of None \<Rightarrow> [] | Some q \<Rightarrow> hp_RefusedSlots (pd_hop q)),
                     hp_RefusalsTruncated =
                       (case previous of None \<Rightarrow> False | Some q \<Rightarrow> hp_RefusalsTruncated (pd_hop q)),
                     hp_ExitEdge = mp_ExitEdge p, hp_Species = species\<rparr>;
                destPeer = peerForSlot (hs_slots s1) (mp_DestSlot p);
                s2 = s1\<lparr>hs_pending := AList.update k
                          \<lparr>pd_hop = h, pd_destPeer = destPeer, pd_seenAtMs = nowMs\<rparr> (hs_pending s1)\<rparr>;
                s3 = (case map_of (hs_early s2) k of
                        None \<Rightarrow> s2
                      | Some early \<Rightarrow>
                          if hopPeerMatches destPeer (ea_sourcePeer early) then promote nowMs k h s2 else s2)
            in capHopCorrelation visit s3))"

definition confirmHop ::
  "(bytes list \<Rightarrow> bytes list) \<Rightarrow> migration_ack \<Rightarrow> int \<Rightarrow> hop_state \<Rightarrow> hop_state"
where
  "confirmHop visit ack nowMs s =
     (if ak_MigrationID ack = [] then s
      else (let k = ak_MigrationID ack;
                s1 = trimHopCorrelation nowMs s;
                wait = capHopCorrelation visit
                  (s1\<lparr>hs_early := AList.update k
                        \<lparr>ea_sourcePeer = ak_SourcePeer ack, ea_seenAtMs = nowMs\<rparr> (hs_early s1)\<rparr>)
            in case map_of (hs_pending s1) k of
                 None \<Rightarrow> wait
               | Some p \<Rightarrow> if hopPeerMatches (pd_destPeer p) (ak_SourcePeer ack)
                           then promote nowMs k (pd_hop p) s1 else wait))"

definition refuse_slot :: "hop \<Rightarrow> hop" where
  "refuse_slot h =
     (let r = hp_RefusedSlots h in
      if r = [] \<or> last r \<noteq> hp_ToSlot h
      then if length r < hopRefusedMax then h\<lparr>hp_RefusedSlots := r @ [hp_ToSlot h]\<rparr>
           else h\<lparr>hp_RefusalsTruncated := True\<rparr>
      else h)"

definition rejectHopAttempt :: "migration_nack \<Rightarrow> int \<Rightarrow> hop_state \<Rightarrow> hop_state" where
  "rejectHopAttempt nack nowMs s =
     (if nk_MigrationID nack = [] then s
      else (let k = nk_MigrationID nack; s1 = trimHopCorrelation nowMs s
            in case map_of (hs_pending s1) k of
                 None \<Rightarrow> s1
               | Some p \<Rightarrow>
                   if pd_destPeer p \<noteq> [] \<and> nk_SourcePeer nack = pd_destPeer p
                   then s1\<lparr>hs_pending := AList.update k
                             \<lparr>pd_hop = refuse_slot (pd_hop p), pd_destPeer = [], pd_seenAtMs = nowMs\<rparr>
                             (hs_pending s1)\<rparr>
                   else s1))"

record hop_feed =
  hf_GeneratedAtMs :: int
  hf_WindowMs :: int
  hf_MaxEntries :: nat
  hf_Truncated :: bool
  hf_Hops :: "hop list"

definition HopFeedView :: "int \<Rightarrow> hop_state \<Rightarrow> hop_feed \<times> hop_state" where
  "HopFeedView nowMs s =
     (let before = hs_truncated s; s1 = trimHops nowMs (s\<lparr>hs_truncated := False\<rparr>)
      in (\<lparr>hf_GeneratedAtMs = nowMs, hf_WindowMs = hopWindowMs, hf_MaxEntries = hopMax,
           hf_Truncated = (before \<or> hs_truncated s1), hf_Hops = hs_hops s1\<rparr>,
          s1\<lparr>hs_truncated := False\<rparr>))"

section \<open>The record\<close>

record ledger_record =
  lr_Type :: bytes
  lr_RecordedAt :: int
  lr_MigrationID :: bytes
  lr_SourcePeer :: bytes
  lr_DestPeer :: bytes
  lr_SourceSlot :: int
  lr_DestSlot :: int
  lr_EntityID :: int
  lr_Kind :: bytes
  lr_GameVersion :: bytes
  lr_Species :: "species option"
  lr_ExitEdge :: bytes
  lr_Timestamp :: int
  lr_Duplicate :: bool
  lr_Code :: bytes
  lr_RefusedAttempt :: "migration_attempt option"

definition zero_record :: ledger_record where
  "zero_record = \<lparr>lr_Type = [], lr_RecordedAt = 0, lr_MigrationID = [], lr_SourcePeer = [],
     lr_DestPeer = [], lr_SourceSlot = 0, lr_DestSlot = 0, lr_EntityID = 0, lr_Kind = [],
     lr_GameVersion = [], lr_Species = None, lr_ExitEdge = [], lr_Timestamp = 0, lr_Duplicate = False,
     lr_Code = [], lr_RefusedAttempt = None\<rparr>"

record 'seed archive =
  ar_guard :: "'seed dup_guard"
  ar_hops :: hop_state
  ar_epoch :: int
  ar_ledger :: "ledger_record list"

definition append_record :: "bool \<Rightarrow> ledger_record \<Rightarrow> 'seed archive \<Rightarrow> 'seed archive" where
  "append_record written r a = (if written then a\<lparr>ar_ledger := ar_ledger a @ [r]\<rparr> else a)"

text \<open>The guard and the record behind it; \<open>markSeen\<close> always returns (\<open>mark_step\<close>).\<close>

definition record_once ::
  "('seed \<Rightarrow> bytes \<times> bytes \<Rightarrow> 64 word) \<Rightarrow> bool \<Rightarrow> time \<Rightarrow> bytes \<Rightarrow> ('seed archive \<Rightarrow> 'seed archive) \<Rightarrow>
     ledger_record \<Rightarrow> 'seed archive \<Rightarrow> 'seed archive option"
where
  "record_once hash written now key on_new r a =
     (case markSeen hash (lr_Type r) key now (ar_guard a) of
        None \<Rightarrow> None
      | Some (True, g) \<Rightarrow> Some (a\<lparr>ar_guard := g\<rparr>)
      | Some (False, g) \<Rightarrow> Some (append_record written r (on_new (a\<lparr>ar_guard := g\<rparr>))))"

definition arOnMigration ::
  "(bytes list \<Rightarrow> bytes list) \<Rightarrow> ('seed \<Rightarrow> bytes \<times> bytes \<Rightarrow> 64 word) \<Rightarrow> bool \<Rightarrow> time \<Rightarrow>
     migration_payload \<Rightarrow> 'seed archive \<Rightarrow> 'seed archive option"
where
  "arOnMigration visit hash written now p a =
     (let species = fst (CarrySpecies (mp_Species p));
          at_ms = unix_milli now;
          a1 = a\<lparr>ar_hops := observeHopAttempt visit p species at_ms (ar_hops a)\<rparr>
      in record_once hash written now (mp_MigrationID p) id
           (zero_record\<lparr>lr_Type := ''MIGRATION'', lr_RecordedAt := at_ms, lr_MigrationID := mp_MigrationID p,
              lr_SourcePeer := mp_SourcePeer p, lr_SourceSlot := mp_SourceSlot p,
              lr_DestSlot := mp_DestSlot p, lr_EntityID := mp_EntityID p, lr_Kind := mp_Kind p,
              lr_GameVersion := mp_BodyVersion p, lr_Species := species, lr_ExitEdge := mp_ExitEdge p,
              lr_Timestamp := mp_Timestamp p\<rparr>) a1)"

definition arOnAck ::
  "(bytes list \<Rightarrow> bytes list) \<Rightarrow> ('seed \<Rightarrow> bytes \<times> bytes \<Rightarrow> 64 word) \<Rightarrow> bool \<Rightarrow> time \<Rightarrow>
     migration_ack \<Rightarrow> 'seed archive \<Rightarrow> 'seed archive option"
where
  "arOnAck visit hash written now ack a =
     (let at_ms = unix_milli now in
      record_once hash written now (ak_MigrationID ack)
        (\<lambda>a1. a1\<lparr>ar_hops := confirmHop visit ack at_ms (ar_hops a1)\<rparr>)
        (zero_record\<lparr>lr_Type := ''ACK'', lr_RecordedAt := at_ms, lr_MigrationID := ak_MigrationID ack,
           lr_SourcePeer := ak_SourcePeer ack, lr_DestPeer := ak_DestPeer ack,
           lr_EntityID := ak_EntityID ack, lr_Duplicate := ak_Duplicate ack\<rparr>) a)"

definition arOnNack ::
  "('seed \<Rightarrow> bytes \<times> bytes \<Rightarrow> 64 word) \<Rightarrow> bool \<Rightarrow> time \<Rightarrow> migration_nack \<Rightarrow> 'seed archive \<Rightarrow> 'seed archive option"
where
  "arOnNack hash written now nack a =
     (let at_ms = unix_milli now;
          a1 = a\<lparr>ar_hops := rejectHopAttempt nack at_ms (ar_hops a)\<rparr>
      in record_once hash written now
           (dedupKey ''NACK'' (nk_MigrationID nack) (nk_Code nack) (nk_RefusedAttempt nack)) id
           (zero_record\<lparr>lr_Type := ''NACK'', lr_RecordedAt := at_ms, lr_MigrationID := nk_MigrationID nack,
              lr_SourcePeer := nk_SourcePeer nack, lr_DestPeer := nk_DestPeer nack,
              lr_Code := nk_Code nack, lr_RefusedAttempt := nk_RefusedAttempt nack\<rparr>) a1)"

text \<open>A map frame of an older or the same epoch is ignored.\<close>

definition arOnPeerStatus :: "peer_status \<Rightarrow> 'seed archive \<Rightarrow> 'seed archive" where
  "arOnPeerStatus status a =
     (if ps_Epoch status > ar_epoch a
      then a\<lparr>ar_epoch := ps_Epoch status, ar_hops := (ar_hops a)\<lparr>hs_slots := ps_Slots status\<rparr>\<rparr> else a)"

end
