(* ===== verification/ArchiveClaims.thy ===== *)
theory ArchiveClaims imports ArchiveGuard begin

text \<open>
  What the archive may conclude from its duplicate guard: the table is an exact set, a copy that
  arrives within the window is refused, one that arrives after two windows is recorded again, and a
  restart stretches the second bound.
\<close>

section \<open>The set is exact\<close>

text \<open>C11: THE DUPLICATE SET IS A SET.  However many shards grow while it is filled, and however its
  fingerprints collide in their slots, every insertion and every lookup of the open-addressed table
  ends, stays inside its array, and answers exactly whether the fingerprint was inserted before; the
  length it reports is the number of distinct fingerprints.\<close>

theorem duplicate_set_exact:
  assumes "length fps \<le> 2 ^ 60"
  shows "\<exists>s. adds set_add fps (newDedupSetWithSeeds hint a b) = Some (seen_before {} fps, s) \<and>
    (\<forall>fp. set_has fp s = Some (fp \<in> set fps)) \<and> set_len s = int (card (set fps))"
proof -
  have "card (set_keys (newDedupSetWithSeeds hint a b)) + length fps \<le> 2 ^ 60"
    using assms by (simp add: new_set)
  from dset.adds_ok [OF new_set(1) _ this] obtain s
    where s: "adds set_add fps (newDedupSetWithSeeds hint a b) = Some (seen_before {} fps, s)" "set_ok s"
      "set_keys s = set fps" by (auto simp: new_set)
  moreover have "set_has fp s = Some (fp \<in> set fps)" for fp using set_has_ok [OF s(2)] s(3) by simp
  ultimately show ?thesis using set_len_card [OF s(2)] by auto
qed

text \<open>Two fingerprints that collide in their slot, and a third copy of the first.\<close>

lemma duplicate_set_exact_witness:
  "\<exists>s. adds set_add [(1, 2), (65, 2), (1, 2)] (newDedupSetWithSeeds 0 () ()) = Some ([False, False, True], s) \<and>
     set_has (65, 2) s = Some True \<and> set_has (129, 2) s = Some False \<and> set_len s = 2"
proof -
  have "int (card (set [(1 :: 64 word, 2 :: 64 word), (65, 2), (1, 2)])) = 2"
    by (simp add: card_insert_if)
  with duplicate_set_exact [of "[(1, 2), (65, 2), (1, 2)]" 0 "()" "()"] show ?thesis by force
qed

section \<open>The window\<close>

fun marks ::
  "('seed \<Rightarrow> bytes \<times> bytes \<Rightarrow> 64 word) \<Rightarrow> (bytes \<times> bytes \<times> time) list \<Rightarrow> 'seed dup_guard \<Rightarrow> 'seed dup_guard option"
where
  "marks hash [] g = Some g"
| "marks hash ((typ, key, now) # calls) g =
     (case markSeen hash typ key now g of None \<Rightarrow> None | Some (_, g1) \<Rightarrow> marks hash calls g1)"

definition guard_fp ::
  "('seed \<Rightarrow> bytes \<times> bytes \<Rightarrow> 64 word) \<Rightarrow> bytes \<Rightarrow> bytes \<Rightarrow> 'seed dup_guard \<Rightarrow> dedup_fp"
where
  "guard_fp hash typ key g = (let (a, b) = window_seeds (gd_seen g) in (hash a (typ, key), hash b (typ, key)))"

text \<open>What one call of the guard does, given that its window holds together.\<close>

lemma mark_step:
  assumes "window_ok (gd_seen g)" "card (cur_keys (gd_seen g)) < 2 ^ 60" "key \<noteq> []"
  shows "\<exists>g1 seen w. markSeen hash typ key now g = Some (seen, g1) \<and> gd_seen g1 = w \<and>
    seen = (guard_fp hash typ key g \<in> cur_keys (window_tick now (gd_seen g)) \<union> prev_keys (window_tick now (gd_seen g))) \<and>
    gd_duplicatesRefused g1 = gd_duplicatesRefused g + (if seen then 1 else 0) \<and>
    window_ok w \<and> dw_window w = dw_window (gd_seen g) \<and> window_seeds w = window_seeds (gd_seen g) \<and>
    dw_rotateAt w = dw_rotateAt (window_tick now (gd_seen g)) \<and>
    prev_keys w = prev_keys (window_tick now (gd_seen g)) \<and>
    cur_keys w = (if guard_fp hash typ key g \<in> prev_keys (window_tick now (gd_seen g))
                  then cur_keys (window_tick now (gd_seen g))
                  else insert (guard_fp hash typ key g) (cur_keys (window_tick now (gd_seen g)))) \<and>
    card (cur_keys w) \<le> Suc (card (cur_keys (gd_seen g)))"
proof -
  have fp: "set_fingerprint hash typ key (dw_cur (gd_seen g)) = guard_fp hash typ key g"
    by (simp add: set_fingerprint_def guard_fp_def window_seeds_def)
  obtain w where w: "window_add (guard_fp hash typ key g) now (gd_seen g) =
      Some (guard_fp hash typ key g \<in> cur_keys (window_tick now (gd_seen g)) \<union> prev_keys (window_tick now (gd_seen g)), w)"
    and rest: "window_ok w" "dw_window w = dw_window (gd_seen g)" "window_seeds w = window_seeds (gd_seen g)"
      "dw_rotateAt w = dw_rotateAt (window_tick now (gd_seen g))" "prev_keys w = prev_keys (window_tick now (gd_seen g))"
      "cur_keys w = (if guard_fp hash typ key g \<in> prev_keys (window_tick now (gd_seen g))
                  then cur_keys (window_tick now (gd_seen g))
                  else insert (guard_fp hash typ key g) (cur_keys (window_tick now (gd_seen g))))"
    using window_add_ok [OF assms(1,2)] by blast
  have card: "card (cur_keys w) \<le> Suc (card (cur_keys (gd_seen g)))" by (rule window_add_card [OF assms(1,2) w])
  show ?thesis
    using w rest card assms(3) unfolding markSeen_def fp
    by (cases "guard_fp hash typ key g \<in> cur_keys (window_tick now (gd_seen g)) \<union> prev_keys (window_tick now (gd_seen g))")
       auto
qed

text \<open>\<open>remembered fp D w\<close>: whatever is called before \<open>D\<close>, the window still knows the fingerprint then.\<close>

definition remembered :: "dedup_fp \<Rightarrow> time \<Rightarrow> 'seed dedup_window \<Rightarrow> bool" where
  "remembered fp D w = (fp \<in> cur_keys w \<and> D \<le> dw_rotateAt w + dw_window w \<or>
     fp \<in> prev_keys w \<and> D \<le> dw_rotateAt w)"

lemma window_okD: "window_ok w \<Longrightarrow> 0 < dw_window w"
  by (simp add: window_ok_def)

lemma remembered_tick:
  assumes "remembered fp D w" "now < D" "0 < dw_window w"
  shows "remembered fp D (window_tick now w)"
    "fp \<in> cur_keys (window_tick now w) \<union> prev_keys (window_tick now w)"
proof -
  show *: "remembered fp D (window_tick now w)"
    by (rule tick_cases [of now w]) (use assms in \<open>auto simp: remembered_def\<close>)
  then show "fp \<in> cur_keys (window_tick now w) \<union> prev_keys (window_tick now w)"
    by (auto simp: remembered_def)
qed

text \<open>\<open>forgotten_by fp t w\<close>: the fingerprint is not held past two windows after \<open>t\<close>.\<close>

definition forgotten_by :: "dedup_fp \<Rightarrow> time \<Rightarrow> 'seed dedup_window \<Rightarrow> bool" where
  "forgotten_by fp t w = ((fp \<in> cur_keys w \<longrightarrow> dw_rotateAt w \<le> t + dw_window w) \<and>
     (fp \<in> prev_keys w \<longrightarrow> dw_rotateAt w \<le> t + 2 * dw_window w))"

lemma forgotten_tick: "forgotten_by fp t w \<Longrightarrow> forgotten_by fp t (window_tick now w)"
  by (rule tick_cases [of now w]) (auto simp: forgotten_by_def)

lemma forgotten_gone:
  assumes "forgotten_by fp t w" "t + 2 * dw_window w \<le> now" "0 < dw_window w"
  shows "fp \<notin> cur_keys (window_tick now w) \<union> prev_keys (window_tick now w)"
  by (rule tick_cases [of now w]) (use assms in \<open>auto simp: forgotten_by_def\<close>)

text \<open>A run of calls of the guard, and what it keeps.\<close>

lemma marks_keep:
  assumes "window_ok (gd_seen g)" "card (cur_keys (gd_seen g)) + length calls \<le> 2 ^ 60"
  shows "\<exists>g1. marks hash calls g = Some g1 \<and> window_ok (gd_seen g1) \<and>
    dw_window (gd_seen g1) = dw_window (gd_seen g) \<and> window_seeds (gd_seen g1) = window_seeds (gd_seen g) \<and>
    card (cur_keys (gd_seen g1)) \<le> card (cur_keys (gd_seen g)) + length calls \<and>
    (remembered fp D (gd_seen g) \<and> (\<forall>(typ, key, now)\<in>set calls. now < D) \<longrightarrow> remembered fp D (gd_seen g1)) \<and>
    (forgotten_by fp t (gd_seen g) \<and> (\<forall>(typ, key, now)\<in>set calls. guard_fp hash typ key g \<noteq> fp) \<longrightarrow>
       forgotten_by fp t (gd_seen g1))"
  using assms
proof (induction calls arbitrary: g)
  case Nil
  then show ?case by simp
next
  case (Cons c calls)
  obtain ty key now where c: "c = (ty, key, now)" by (cases c) auto
  let ?fp = "guard_fp hash ty key g" and ?w = "window_tick now (gd_seen g)"
  show ?case
  proof (cases "key = []")
    case True
    have "card (cur_keys (gd_seen g)) + length calls \<le> 2 ^ 60" using Cons.prems(2) by simp
    from Cons.IH [OF Cons.prems(1) this] show ?thesis by (auto simp: c True markSeen_def)
  next
    case False
    have "card (cur_keys (gd_seen g)) < 2 ^ 60" using Cons.prems(2) by simp
    from mark_step [OF Cons.prems(1) this False, of hash ty now] obtain g1 seen
      where m: "markSeen hash ty key now g = Some (seen, g1)" "window_ok (gd_seen g1)"
        "dw_window (gd_seen g1) = dw_window (gd_seen g)" "window_seeds (gd_seen g1) = window_seeds (gd_seen g)"
        "card (cur_keys (gd_seen g1)) \<le> Suc (card (cur_keys (gd_seen g)))"
      and k: "dw_rotateAt (gd_seen g1) = dw_rotateAt ?w" "prev_keys (gd_seen g1) = prev_keys ?w"
        "cur_keys (gd_seen g1) = (if ?fp \<in> prev_keys ?w then cur_keys ?w else insert ?fp (cur_keys ?w))"
      by blast
    have r: "remembered fp D (gd_seen g1)" if "remembered fp D (gd_seen g)" "now < D"
      using remembered_tick(1) [OF that window_okD [OF Cons.prems(1)]] by (auto simp: remembered_def k m(3))
    have f: "forgotten_by fp t (gd_seen g1)" if "forgotten_by fp t (gd_seen g)" "?fp \<noteq> fp"
      using forgotten_tick [OF that(1), of now] that(2) by (auto simp: forgotten_by_def k m(3))
    have gf: "guard_fp hash ty ke g1 = guard_fp hash ty ke g" for ty ke by (simp add: guard_fp_def m(4))
    have card: "card (cur_keys (gd_seen g1)) + length calls \<le> 2 ^ 60" using m(5) Cons.prems(2) by simp
    from Cons.IH [OF m(2) card] r f m show ?thesis by (auto simp: c gf)
  qed
qed

text \<open>C12: A COPY WITHIN THE WINDOW IS REFUSED.  Once a record was taken as new, a second copy of it is
  refused, and counted, for at least one window, whatever other records arrive in between and however
  often the generations rotate: the clock of each call only has to stay within the window.\<close>

theorem copies_refused_within_window:
  assumes "window_ok (gd_seen g)" "key \<noteq> []" "card (cur_keys (gd_seen g)) + length calls + 2 \<le> 2 ^ 60"
    and "markSeen hash ty key t g = Some (False, g1)"
    and "\<forall>(_, _, now)\<in>set calls. now \<le> t + dw_window (gd_seen g)" "t' \<le> t + dw_window (gd_seen g)"
  shows "\<exists>g2 g3. marks hash calls g1 = Some g2 \<and> markSeen hash ty key t' g2 = Some (True, g3) \<and>
    gd_duplicatesRefused g3 = gd_duplicatesRefused g2 + 1"
proof -
  let ?fp = "guard_fp hash ty key g" and ?w = "window_tick t (gd_seen g)"
  let ?D = "t + dw_window (gd_seen g) + 1"
  have "card (cur_keys (gd_seen g)) < 2 ^ 60" using assms(3) by simp
  from mark_step [OF assms(1) this assms(2), of hash ty t] assms(4)
  have m: "window_ok (gd_seen g1)" "dw_window (gd_seen g1) = dw_window (gd_seen g)"
      "window_seeds (gd_seen g1) = window_seeds (gd_seen g)" "?fp \<in> cur_keys (gd_seen g1)"
      "dw_rotateAt (gd_seen g1) = dw_rotateAt ?w" "card (cur_keys (gd_seen g1)) \<le> Suc (card (cur_keys (gd_seen g)))"
    by (auto split: if_splits)
  have "t < dw_rotateAt ?w" by (rule tick_cases [of t "gd_seen g"]) (use window_okD [OF assms(1)] in simp_all)
  then have r: "remembered ?fp ?D (gd_seen g1)" using m(2,4,5) by (simp add: remembered_def)
  have "card (cur_keys (gd_seen g1)) + length calls \<le> 2 ^ 60" using m(6) assms(3) by simp
  from marks_keep [OF m(1) this, of hash ?fp ?D t] r assms(5) obtain g2
    where g2: "marks hash calls g1 = Some g2" "window_ok (gd_seen g2)" "remembered ?fp ?D (gd_seen g2)"
      "window_seeds (gd_seen g2) = window_seeds (gd_seen g1)"
      "card (cur_keys (gd_seen g2)) \<le> card (cur_keys (gd_seen g1)) + length calls" by fastforce
  have fp: "guard_fp hash ty key g2 = ?fp" by (simp add: guard_fp_def g2(4) m(3))
  have "card (cur_keys (gd_seen g2)) < 2 ^ 60" using g2(5) m(6) assms(3) by simp
  moreover have "?fp \<in> cur_keys (window_tick t' (gd_seen g2)) \<union> prev_keys (window_tick t' (gd_seen g2))"
    by (rule remembered_tick(2) [OF g2(3) _ window_okD [OF g2(2)]]) (use assms(6) in simp)
  ultimately show ?thesis using mark_step [OF g2(2) _ assms(2), of hash ty t'] g2(1) by (auto simp: fp)
qed

text \<open>A NACK, a copy of it, and another record in between, across one rotation.\<close>

lemma fresh_window_ok:
  "0 < window \<Longrightarrow> window_ok (newDedupWindow hint window now a b)"
  "cur_keys (newDedupWindow hint window now a b) = {}" "prev_keys (newDedupWindow hint window now a b) = {}"
  by (simp_all add: newDedupWindow_def window_ok_def cur_keys_def prev_keys_def new_set Let_def)

definition twin_hash :: "nat \<Rightarrow> bytes \<times> bytes \<Rightarrow> 64 word" where
  "twin_hash n k = of_nat (n + length (fst k) * 7 + length (snd k))"

definition guard_at :: "duration \<Rightarrow> time \<Rightarrow> nat dup_guard" where
  "guard_at window now = \<lparr>gd_seen = newDedupWindow 0 window now 1 2, gd_duplicatesRefused = 0\<rparr>"

lemma first_mark: "\<exists>g1. markSeen twin_hash ''NACK'' ''m/c'' 105 (guard_at 10 100) = Some (False, g1)"
  using mark_step [of "guard_at 10 100" "''m/c''" twin_hash "''NACK''" 105]
  by (auto simp: guard_at_def fresh_window_ok window_tick_def newDedupWindow_def cur_keys_def prev_keys_def
      new_set window_ok_def)

lemma copies_refused_within_window_witness:
  "\<exists>g1 g2 g3. markSeen twin_hash ''NACK'' ''m/c'' 105 (guard_at 10 100) = Some (False, g1) \<and>
     marks twin_hash [(''ACK'', ''k'', 111)] g1 = Some g2 \<and>
     markSeen twin_hash ''NACK'' ''m/c'' 115 g2 = Some (True, g3)"
proof -
  obtain g1 where g1: "markSeen twin_hash ''NACK'' ''m/c'' 105 (guard_at 10 100) = Some (False, g1)"
    using first_mark by auto
  have w: "window_ok (gd_seen (guard_at 10 100))" "cur_keys (gd_seen (guard_at 10 100)) = {}"
      "dw_window (gd_seen (guard_at 10 100)) = 10"
    by (simp_all add: guard_at_def fresh_window_ok) (simp add: newDedupWindow_def)
  from copies_refused_within_window [OF w(1) _ _ g1, of "[(''ACK'', ''k'', 111)]" 115] w(2,3) g1
  show ?thesis by auto
qed

text \<open>A COPY AFTER TWO WINDOWS IS RECORDED AGAIN.  A record is forgotten, unless it came again in
  between, once two windows have passed since it was last seen: the memory of the guard is at most the
  keys of two windows.\<close>

theorem copies_recorded_after_two_windows:
  assumes "window_ok (gd_seen g)" "key \<noteq> []" "card (cur_keys (gd_seen g)) + length calls + 2 \<le> 2 ^ 60"
    and "dw_rotateAt (gd_seen g) \<le> t + dw_window (gd_seen g)"
    and "markSeen hash ty key t g = Some (seen, g1)"
    and "\<forall>(ty2, key2, _)\<in>set calls. guard_fp hash ty2 key2 g \<noteq> guard_fp hash ty key g"
    and "t + 2 * dw_window (gd_seen g) \<le> t'"
  shows "\<exists>g2 g3. marks hash calls g1 = Some g2 \<and> markSeen hash ty key t' g2 = Some (False, g3)"
proof -
  let ?fp = "guard_fp hash ty key g" and ?w = "window_tick t (gd_seen g)"
  note pos = window_okD [OF assms(1)]
  have "card (cur_keys (gd_seen g)) < 2 ^ 60" using assms(3) by simp
  from mark_step [OF assms(1) this assms(2), of hash ty t] assms(5)
  have m: "window_ok (gd_seen g1)" "dw_window (gd_seen g1) = dw_window (gd_seen g)"
      "window_seeds (gd_seen g1) = window_seeds (gd_seen g)"
      "dw_rotateAt (gd_seen g1) = dw_rotateAt ?w" "card (cur_keys (gd_seen g1)) \<le> Suc (card (cur_keys (gd_seen g)))"
    by auto
  have "dw_rotateAt ?w \<le> t + dw_window (gd_seen g)"
    by (rule tick_cases [of t "gd_seen g"]) (use assms(4) in simp_all)
  then have f: "forgotten_by ?fp t (gd_seen g1)" using m(2,4) pos by (simp add: forgotten_by_def)
  have gf: "guard_fp hash x y g1 = guard_fp hash x y g" for x y by (simp add: guard_fp_def m(3))
  have "card (cur_keys (gd_seen g1)) + length calls \<le> 2 ^ 60" using m(5) assms(3) by simp
  from marks_keep [OF m(1) this, of hash ?fp t t] f assms(6) obtain g2
    where g2: "marks hash calls g1 = Some g2" "window_ok (gd_seen g2)" "forgotten_by ?fp t (gd_seen g2)"
      "window_seeds (gd_seen g2) = window_seeds (gd_seen g1)" "dw_window (gd_seen g2) = dw_window (gd_seen g1)"
      "card (cur_keys (gd_seen g2)) \<le> card (cur_keys (gd_seen g1)) + length calls" unfolding gf by blast
  have fp: "guard_fp hash ty key g2 = ?fp" by (simp add: guard_fp_def g2(4) m(3))
  have "card (cur_keys (gd_seen g2)) < 2 ^ 60" using g2(6) m(5) assms(3) by simp
  moreover have "?fp \<notin> cur_keys (window_tick t' (gd_seen g2)) \<union> prev_keys (window_tick t' (gd_seen g2))"
    by (rule forgotten_gone [OF g2(3) _ window_okD [OF g2(2)]]) (use assms(7) g2(5) m(2) in simp)
  ultimately show ?thesis using mark_step [OF g2(2) _ assms(2), of hash ty t'] g2(1) by (auto simp: fp)
qed

lemma copies_recorded_after_two_windows_witness:
  "\<exists>g1 g2 g3. markSeen twin_hash ''NACK'' ''m/c'' 105 (guard_at 10 100) = Some (False, g1) \<and>
     marks twin_hash [(''ACK'', ''k'', 111)] g1 = Some g2 \<and>
     markSeen twin_hash ''NACK'' ''m/c'' 125 g2 = Some (False, g3)"
proof -
  obtain g1 where g1: "markSeen twin_hash ''NACK'' ''m/c'' 105 (guard_at 10 100) = Some (False, g1)"
    using first_mark by auto
  have w: "window_ok (gd_seen (guard_at 10 100))" "cur_keys (gd_seen (guard_at 10 100)) = {}"
      "dw_window (gd_seen (guard_at 10 100)) = 10" "dw_rotateAt (gd_seen (guard_at 10 100)) = 110"
    by (simp_all add: guard_at_def fresh_window_ok) (simp_all add: newDedupWindow_def)
  have "guard_fp twin_hash ''ACK'' ''k'' (guard_at 10 100) \<noteq> guard_fp twin_hash ''NACK'' ''m/c'' (guard_at 10 100)"
    by (simp add: guard_fp_def guard_at_def newDedupWindow_def window_seeds_def new_set twin_hash_def)
  with copies_recorded_after_two_windows [OF w(1) _ _ _ g1, of "[(''ACK'', ''k'', 111)]" 125] w(2-4) g1
  show ?thesis by auto
qed

section \<open>A restart\<close>

text \<open>The records of the ledger, in order, handed to the guard.\<close>

fun replays ::
  "('seed \<Rightarrow> bytes \<times> bytes \<Rightarrow> 64 word) \<Rightarrow> duration \<Rightarrow> time \<Rightarrow>
     (bytes \<times> bytes \<times> bytes \<times> migration_attempt option \<times> int) list \<Rightarrow> 'seed dedup_window \<Rightarrow> 'seed dedup_window option"
where
  "replays hash window now [] w = Some w"
| "replays hash window now ((ty, k, code, attempt, recordedAt) # recs) w =
     (case replay_seen hash window now ty k code attempt recordedAt w of
        None \<Rightarrow> None | Some w1 \<Rightarrow> replays hash window now recs w1)"

definition window_fp ::
  "('seed \<Rightarrow> bytes \<times> bytes \<Rightarrow> 64 word) \<Rightarrow> bytes \<Rightarrow> bytes \<Rightarrow> 'seed dedup_window \<Rightarrow> dedup_fp"
where
  "window_fp hash ty key w = (let (a, b) = window_seeds w in (hash a (ty, key), hash b (ty, key)))"

lemma window_fp_set: "set_fingerprint hash ty key (dw_cur w) = window_fp hash ty key w"
  by (simp add: set_fingerprint_def window_fp_def window_seeds_def)

text \<open>No record of the ledger is late enough to rotate the window that the start made.\<close>

lemma replays_keep:
  assumes "window_ok w" "card (cur_keys w) + length recs \<le> 2 ^ 60" "prev_keys w = {}" "now < dw_rotateAt w"
    and "\<forall>(_, _, _, _, recordedAt)\<in>set recs. time_of_milli recordedAt \<le> now"
  shows "\<exists>w1. replays hash window now recs w = Some w1 \<and> window_ok w1 \<and> dw_window w1 = dw_window w \<and>
    window_seeds w1 = window_seeds w \<and> dw_rotateAt w1 = dw_rotateAt w \<and> prev_keys w1 = {} \<and>
    card (cur_keys w1) \<le> card (cur_keys w) + length recs \<and> cur_keys w \<subseteq> cur_keys w1 \<and>
    (\<forall>(ty, k, code, attempt, recordedAt)\<in>set recs.
       k \<noteq> [] \<and> 0 < recordedAt \<and> now - time_of_milli recordedAt < window \<longrightarrow>
       window_fp hash ty (dedupKey ty k code attempt) w \<in> cur_keys w1)"
  using assms
proof (induction recs arbitrary: w)
  case Nil
  then show ?case by simp
next
  case (Cons r recs)
  obtain ty k code attempt at_ms where r: "r = (ty, k, code, attempt, at_ms)" by (cases r) auto
  let ?fp = "window_fp hash ty (dedupKey ty k code attempt) w"
  let ?in = "k \<noteq> [] \<and> 0 < at_ms \<and> now - time_of_milli at_ms < window"
  show ?case
  proof (cases ?in)
    case False
    then have "replay_seen hash window now ty k code attempt at_ms w = Some w"
      by (auto simp: replay_seen_def Let_def)
    with Cons.IH [OF Cons.prems(1) _ Cons.prems(3,4)] Cons.prems(2,5) False show ?thesis by (force simp: r)
  next
    case True
    have late: "time_of_milli at_ms < dw_rotateAt w" using Cons.prems(4,5) by (auto simp: r)
    then have tick: "window_tick (time_of_milli at_ms) w = w" by (simp add: window_tick_def)
    have room: "card (cur_keys w) < 2 ^ 60" using Cons.prems(2) by simp
    obtain seen w1 where w1: "window_add ?fp (time_of_milli at_ms) w = Some (seen, w1)" "window_ok w1"
        "dw_window w1 = dw_window w" "window_seeds w1 = window_seeds w" "dw_rotateAt w1 = dw_rotateAt w"
        "prev_keys w1 = {}" "cur_keys w1 = insert ?fp (cur_keys w)"
      using window_add_ok [OF Cons.prems(1) room, of ?fp "time_of_milli at_ms"] Cons.prems(3) tick by auto
    have step: "replay_seen hash window now ty k code attempt at_ms w = Some w1"
      using True w1(1) by (simp add: replay_seen_def Let_def window_fp_set)
    have card: "card (cur_keys w1) \<le> Suc (card (cur_keys w))"
      by (rule window_add_card [OF Cons.prems(1) room w1(1)])
    have fps: "window_fp hash x y w1 = window_fp hash x y w" for x y by (simp add: window_fp_def w1(4))
    from Cons.IH [OF w1(2) _ w1(6)] card Cons.prems(2,4,5) w1(5) obtain w2
      where w2: "replays hash window now recs w1 = Some w2" "window_ok w2" "dw_window w2 = dw_window w1"
        "window_seeds w2 = window_seeds w1" "dw_rotateAt w2 = dw_rotateAt w1" "prev_keys w2 = {}"
        "card (cur_keys w2) \<le> card (cur_keys w1) + length recs" "cur_keys w1 \<subseteq> cur_keys w2"
        "\<forall>(ty, k, code, attempt, recordedAt)\<in>set recs.
           k \<noteq> [] \<and> 0 < recordedAt \<and> now - time_of_milli recordedAt < window \<longrightarrow>
           window_fp hash ty (dedupKey ty k code attempt) w1 \<in> cur_keys w2"
      by (auto simp: r)
    then show ?thesis using w1 card step by (auto simp: r fps)
  qed
qed

text \<open>A RESTART STRETCHES THE WINDOW.  The comments promise that a restart rotates the window on the
  ledger's own clock, so that a record is held for two windows at most.  The window is made on the wall
  clock, and no record of the ledger is later than that, so the replay never rotates: every record
  younger than one window at the start is refused until two windows after the start, when it can be
  almost three windows old.\<close>

theorem restart_stretches_window:
  assumes "0 < window" "\<forall>(_, _, _, _, recordedAt)\<in>set recs. time_of_milli recordedAt \<le> now"
    and "length recs < 2 ^ 60" "(ty, k, code, attempt, recordedAt) \<in> set recs"
    and "k \<noteq> []" "0 < recordedAt" "now - time_of_milli recordedAt < window" "t < now + 2 * window"
  shows "\<exists>w g. replays hash window now recs (newDedupWindow hint window now a b) = Some w \<and>
    dw_rotateAt w = now + window \<and>
    markSeen hash ty (dedupKey ty k code attempt) t \<lparr>gd_seen = w, gd_duplicatesRefused = n\<rparr> = Some (True, g)"
proof -
  let ?w = "newDedupWindow hint window now a b"
  have R: "dw_rotateAt ?w = now + window" "dw_window ?w = window" using assms(1) by (simp_all add: newDedupWindow_def)
  have "card (cur_keys ?w) + length recs \<le> 2 ^ 60" "now < dw_rotateAt ?w"
    using assms(1,3) by (simp_all add: fresh_window_ok R)
  from replays_keep [OF fresh_window_ok(1) [OF assms(1)] this(1) fresh_window_ok(3) this(2) assms(2),
      of hash window] obtain w
    where w: "replays hash window now recs ?w = Some w" "window_ok w" "dw_window w = window"
      "window_seeds w = window_seeds ?w" "dw_rotateAt w = now + window"
      "card (cur_keys w) \<le> length recs"
      "\<forall>(ty, k, code, attempt, recordedAt)\<in>set recs.
         k \<noteq> [] \<and> 0 < recordedAt \<and> now - time_of_milli recordedAt < window \<longrightarrow>
         window_fp hash ty (dedupKey ty k code attempt) ?w \<in> cur_keys w"
    by (auto simp: fresh_window_ok R)
  let ?g = "\<lparr>gd_seen = w, gd_duplicatesRefused = n\<rparr>" and ?key = "dedupKey ty k code attempt"
  have fp: "guard_fp hash ty ?key ?g = window_fp hash ty ?key ?w"
    by (simp add: guard_fp_def window_fp_def w(4))
  have "window_fp hash ty ?key ?w \<in> cur_keys w" using w(7) assms(4-7) by fastforce
  then have "remembered (guard_fp hash ty ?key ?g) (now + 2 * window) (gd_seen ?g)"
    using w(3,5) by (simp add: remembered_def fp)
  from remembered_tick(2) [OF this assms(8)] window_okD [OF w(2)]
  have "guard_fp hash ty ?key ?g \<in> cur_keys (window_tick t (gd_seen ?g)) \<union> prev_keys (window_tick t (gd_seen ?g))"
    by simp
  moreover have "?key \<noteq> []" using assms(5) by (simp add: dedupKey_def)
  moreover have "card (cur_keys (gd_seen ?g)) < 2 ^ 60" using w(6) assms(3) by simp
  ultimately show ?thesis using mark_step [of ?g ?key hash ty t] w(1,2,5) by auto
qed

text \<open>A record 47 hours old at the start, and its copy 142 hours after it.\<close>

lemma restart_stretches_window_witness:
  "let hour = 3600 * second; window = 48 * hour; now = time_of_milli 1800000000000;
       old = (''NACK'', ''m'', ''c'', None, 1800000000000 - 47 * 3600000)
   in \<exists>w g. replays twin_hash window now [old] (newDedupWindow 0 window now 1 2) = Some w \<and>
     markSeen twin_hash ''NACK'' ''m/c'' (now + 95 * hour) \<lparr>gd_seen = w, gd_duplicatesRefused = 0\<rparr> = Some (True, g) \<and>
     2 * window < now + 95 * hour - time_of_milli (1800000000000 - 47 * 3600000)"
proof -
  define hour where "hour = 3600 * second"
  define now where "now = time_of_milli 1800000000000"
  let ?old = "(''NACK'', ''m'', ''c'', None, 1800000000000 - 47 * 3600000) ::
    bytes \<times> bytes \<times> bytes \<times> migration_attempt option \<times> int"
  have key: "dedupKey ''NACK'' ''m'' ''c'' None = ''m/c''" by (simp add: dedupKey_def)
  have hour: "0 < hour" by (simp add: hour_def second_def)
  have ms: "time_of_milli (1800000000000 - 47 * 3600000) = now - 47 * hour"
    by (simp add: now_def hour_def second_def time_of_milli_def millisecond_def)
  have "\<exists>w g. replays twin_hash (48 * hour) now [?old] (newDedupWindow 0 (48 * hour) now 1 2) = Some w \<and>
      dw_rotateAt w = now + 48 * hour \<and>
      markSeen twin_hash ''NACK'' (dedupKey ''NACK'' ''m'' ''c'' None) (now + 95 * hour)
        \<lparr>gd_seen = w, gd_duplicatesRefused = 0\<rparr> = Some (True, g)"
    by (rule restart_stretches_window [where recordedAt = "1800000000000 - 47 * 3600000"]) (use hour ms in simp_all)
  with hour ms show ?thesis unfolding Let_def hour_def [symmetric] now_def [symmetric] key by auto
qed

end
