(* ===== verification/HopProps.thy ===== *)
theory HopProps imports HopFeed ArchiveClaims begin

text \<open>
  What the feed of recent arrivals may claim: every entry was offered to the world it names and
  acknowledged by that world's sidecar, every refused slot beside it refused it, and all of it stays
  within the published bounds.
\<close>

section \<open>Runs\<close>

datatype hop_event =
    HE_session
  | HE_status peer_status
  | HE_payload migration_payload
  | HE_ack migration_ack
  | HE_nack migration_nack
  | HE_view

type_synonym archive_event = "time \<times> bool \<times> hop_event"

fun arStep ::
  "(bytes list \<Rightarrow> bytes list) \<Rightarrow> ('seed \<Rightarrow> bytes \<times> bytes \<Rightarrow> 64 word) \<Rightarrow> archive_event \<Rightarrow>
     'seed archive \<Rightarrow> 'seed archive option"
where
  "arStep visit hash (now, written, HE_session) a = Some (a\<lparr>ar_epoch := 0\<rparr>)"
| "arStep visit hash (now, written, HE_status st) a = Some (arOnPeerStatus st a)"
| "arStep visit hash (now, written, HE_payload p) a = arOnMigration visit hash written now p a"
| "arStep visit hash (now, written, HE_ack k) a = arOnAck visit hash written now k a"
| "arStep visit hash (now, written, HE_nack n) a = arOnNack hash written now n a"
| "arStep visit hash (now, written, HE_view) a =
     Some (a\<lparr>ar_hops := snd (HopFeedView (unix_milli now) (ar_hops a))\<rparr>)"

fun arRun ::
  "(bytes list \<Rightarrow> bytes list) \<Rightarrow> ('seed \<Rightarrow> bytes \<times> bytes \<Rightarrow> 64 word) \<Rightarrow> archive_event list \<Rightarrow>
     'seed archive \<Rightarrow> 'seed archive option"
where
  "arRun visit hash [] a = Some a"
| "arRun visit hash (e # evs) a =
     (case arStep visit hash e a of None \<Rightarrow> None | Some a1 \<Rightarrow> arRun visit hash evs a1)"

lemma arRun_snoc:
  "arRun visit hash (evs @ [e]) a =
     (case arRun visit hash evs a of None \<Rightarrow> None | Some a1 \<Rightarrow> arStep visit hash e a1)"
  by (induction evs arbitrary: a) (auto split: option.split)

text \<open>The map the archive was shown by a sequence of events.\<close>

fun shown_step :: "archive_event \<Rightarrow> int \<times> slot_info list \<Rightarrow> int \<times> slot_info list" where
  "shown_step (now, written, HE_session) (epoch, slots) = (0, slots)"
| "shown_step (now, written, HE_status st) (epoch, slots) =
     (if ps_Epoch st > epoch then (ps_Epoch st, ps_Slots st) else (epoch, slots))"
| "shown_step (now, written, HE_payload p) es = es"
| "shown_step (now, written, HE_ack k) es = es"
| "shown_step (now, written, HE_nack n) es = es"
| "shown_step (now, written, HE_view) es = es"

definition shown :: "archive_event list \<Rightarrow> int \<times> slot_info list" where
  "shown evs = fold shown_step evs (0, [])"

text \<open>\<open>offered evs h peer\<close>: the journey was copied here when its slot belonged to the peer.\<close>

definition offered :: "archive_event list \<Rightarrow> hop \<Rightarrow> bytes \<Rightarrow> bool" where
  "offered evs h peer = (\<exists>pre now written p post. evs = pre @ (now, written, HE_payload p) # post \<and>
     mp_MigrationID p = hp_MigrationID h \<and> mp_SourceSlot p = hp_FromSlot h \<and>
     mp_DestSlot p = hp_ToSlot h \<and> mp_ExitEdge p = hp_ExitEdge h \<and>
     peerForSlot (snd (shown pre)) (mp_DestSlot p) = peer)"

definition acknowledged :: "archive_event list \<Rightarrow> bytes \<Rightarrow> bytes \<Rightarrow> bool" where
  "acknowledged evs k peer = (\<exists>now written a. (now, written, HE_ack a) \<in> set evs \<and>
     ak_MigrationID a = k \<and> ak_SourcePeer a = peer)"

definition refused_by :: "archive_event list \<Rightarrow> bytes \<Rightarrow> int \<Rightarrow> bool" where
  "refused_by evs k slot = (\<exists>now written n h. (now, written, HE_nack n) \<in> set evs \<and> nk_MigrationID n = k \<and>
     nk_SourcePeer n \<noteq> [] \<and> hp_MigrationID h = k \<and> hp_ToSlot h = slot \<and> offered evs h (nk_SourcePeer n))"

definition delivered :: "archive_event list \<Rightarrow> hop \<Rightarrow> bool" where
  "delivered evs h = (\<exists>peer. peer \<noteq> [] \<and> offered evs h peer \<and> acknowledged evs (hp_MigrationID h) peer \<and>
     (\<forall>r\<in>set (hp_RefusedSlots h). refused_by evs (hp_MigrationID h) r))"

section \<open>The invariant of the correlator\<close>

definition pending_ok :: "archive_event list \<Rightarrow> bytes \<Rightarrow> pending_hop \<Rightarrow> bool" where
  "pending_ok evs k p = (hp_MigrationID (pd_hop p) = k \<and>
     (pd_destPeer p \<noteq> [] \<longrightarrow> offered evs (pd_hop p) (pd_destPeer p)) \<and>
     (\<forall>r\<in>set (hp_RefusedSlots (pd_hop p)). refused_by evs k r))"

definition hops_inv :: "archive_event list \<Rightarrow> hop_state \<Rightarrow> bool" where
  "hops_inv evs s = ((\<forall>(k, p)\<in>set (hs_pending s). pending_ok evs k p) \<and>
     (\<forall>(k, e)\<in>set (hs_early s). acknowledged evs k (ea_sourcePeer e)) \<and>
     (\<forall>h\<in>set (hs_hops s). delivered evs h))"

lemma offered_mono: "offered evs h peer \<Longrightarrow> offered (evs @ es) h peer"
  unfolding offered_def by (metis append.assoc append_Cons)

lemma acknowledged_mono: "acknowledged evs k peer \<Longrightarrow> acknowledged (evs @ es) k peer"
  unfolding acknowledged_def by auto

lemma refused_by_mono: "refused_by evs k slot \<Longrightarrow> refused_by (evs @ es) k slot"
  unfolding refused_by_def set_append by (blast intro: offered_mono)

lemma delivered_mono: "delivered evs h \<Longrightarrow> delivered (evs @ es) h"
  unfolding delivered_def by (blast intro: offered_mono acknowledged_mono refused_by_mono)

lemma pending_ok_mono: "pending_ok evs k p \<Longrightarrow> pending_ok (evs @ es) k p"
  unfolding pending_ok_def by (blast intro: offered_mono refused_by_mono)

lemma hops_inv_mono: "hops_inv evs s \<Longrightarrow> hops_inv (evs @ es) s"
  unfolding hops_inv_def by (fast intro: delivered_mono acknowledged_mono pending_ok_mono)

text \<open>The operations that only drop entries.\<close>

lemma shed_sub: "set (shed target ks m) \<subseteq> set m"
proof (induction ks arbitrary: m)
  case (Cons k ks)
  show ?case using Cons.IH [of "AList.delete k m"] delete_mem [of k m] by (auto simp: Let_def)
qed simp

lemma cap_map_sub: "set (cap_map visit limit m) \<subseteq> set m"
  using shed_sub by (auto simp: cap_map_def)

definition sub_state :: "hop_state \<Rightarrow> hop_state \<Rightarrow> bool" where
  "sub_state s' s = (set (hs_pending s') \<subseteq> set (hs_pending s) \<and> set (hs_early s') \<subseteq> set (hs_early s) \<and>
     set (hs_hops s') \<subseteq> set (hs_hops s) \<and> hs_slots s' = hs_slots s)"

lemma hops_inv_sub: "sub_state s' s \<Longrightarrow> hops_inv evs s \<Longrightarrow> hops_inv evs s'"
  unfolding hops_inv_def sub_state_def by blast

lemma cap_sub: "sub_state (capHopCorrelation visit s) s"
  by (simp add: sub_state_def capHopCorrelation_def cap_map_sub)

lemma trim_sub: "sub_state (trimHopCorrelation nowMs s) s"
  by (auto simp: sub_state_def trimHopCorrelation_def Let_def)

lemma trimHops_sub: "sub_state (trimHops nowMs s) s"
  by (auto simp: sub_state_def trimHops_def Let_def dest: in_set_dropD set_dropWhileD)

lemma view_sub: "sub_state (snd (HopFeedView nowMs s)) s"
  using trimHops_sub [of nowMs "s\<lparr>hs_truncated := False\<rparr>"] by (auto simp: sub_state_def HopFeedView_def Let_def)

lemmas drops = cap_sub trim_sub trimHops_sub view_sub

lemma observeHop_inv: "hops_inv evs s \<Longrightarrow> delivered evs h \<Longrightarrow> hops_inv evs (observeHop h s)"
  unfolding observeHop_def by (rule hops_inv_sub [OF trimHops_sub]) (auto simp: hops_inv_def)

lemma delivered_time [simp]: "delivered evs (h\<lparr>hp_AtMs := t\<rparr>) = delivered evs h"
  by (simp add: delivered_def offered_def)

lemma promote_inv:
  assumes "hops_inv evs s" "delivered evs h"
  shows "hops_inv evs (promote nowMs k h s)"
proof -
  have "hops_inv evs (s\<lparr>hs_pending := AList.delete k (hs_pending s), hs_early := AList.delete k (hs_early s)\<rparr>)"
    by (rule hops_inv_sub [OF _ assms(1)]) (simp add: sub_state_def delete_mem)
  then show ?thesis unfolding promote_def by (rule observeHop_inv) (simp add: assms(2))
qed

text \<open>An attempt, an acknowledgement and a refusal.\<close>

lemma hops_inv_pending: "hops_inv evs s \<Longrightarrow> map_of (hs_pending s) k = Some p \<Longrightarrow> pending_ok evs k p"
  by (auto simp: hops_inv_def dest: map_of_SomeD)

lemma hops_inv_put:
  "hops_inv evs s \<Longrightarrow> pending_ok evs k p \<Longrightarrow> hops_inv evs (s\<lparr>hs_pending := AList.update k p (hs_pending s)\<rparr>)"
  using update_mem [of k p "hs_pending s"] by (auto simp: hops_inv_def)

lemma offered_now:
  "offered (evs @ [(now, w, HE_payload p)])
     \<lparr>hp_MigrationID = mp_MigrationID p, hp_AtMs = t, hp_FromSlot = mp_SourceSlot p, hp_ToSlot = mp_DestSlot p,
      hp_RefusedSlots = r, hp_RefusalsTruncated = b, hp_ExitEdge = mp_ExitEdge p, hp_Species = sp\<rparr>
     (peerForSlot (snd (shown evs)) (mp_DestSlot p))"
  unfolding offered_def by force

lemma attempt_inv:
  assumes "hops_inv evs s" "hs_slots s = snd (shown evs)"
  shows "hops_inv (evs @ [(now, w, HE_payload p)]) (observeHopAttempt visit p sp nowMs s)"
proof (cases "mp_MigrationID p = []")
  case True
  then show ?thesis using assms(1) by (simp add: observeHopAttempt_def hops_inv_mono)
next
  case False
  let ?evs = "evs @ [(now, w, HE_payload p)]" and ?k = "mp_MigrationID p" and ?s1 = "trimHopCorrelation nowMs s"
  define r where "r = (case map_of (hs_pending ?s1) ?k of None \<Rightarrow> [] | Some q \<Rightarrow> hp_RefusedSlots (pd_hop q))"
  define b where "b = (case map_of (hs_pending ?s1) ?k of None \<Rightarrow> False | Some q \<Rightarrow> hp_RefusalsTruncated (pd_hop q))"
  define h where "h = \<lparr>hp_MigrationID = ?k, hp_AtMs = 0, hp_FromSlot = mp_SourceSlot p, hp_ToSlot = mp_DestSlot p,
    hp_RefusedSlots = r, hp_RefusalsTruncated = b, hp_ExitEdge = mp_ExitEdge p, hp_Species = sp\<rparr>"
  let ?dest = "peerForSlot (hs_slots ?s1) (mp_DestSlot p)"
  let ?s2 = "?s1\<lparr>hs_pending := AList.update ?k \<lparr>pd_hop = h, pd_destPeer = ?dest, pd_seenAtMs = nowMs\<rparr> (hs_pending ?s1)\<rparr>"
  have i1: "hops_inv ?evs ?s1" by (rule hops_inv_sub [OF trim_sub hops_inv_mono [OF assms(1)]])
  have slots: "hs_slots ?s1 = snd (shown evs)" using trim_sub [of nowMs s] assms(2) by (simp add: sub_state_def)
  have o: "offered ?evs h ?dest" unfolding slots h_def by (rule offered_now)
  have ref: "\<forall>x\<in>set r. refused_by ?evs ?k x"
    using hops_inv_pending [OF i1, of ?k] unfolding r_def pending_ok_def
    by (cases "map_of (hs_pending ?s1) ?k") simp_all
  have "pending_ok ?evs ?k \<lparr>pd_hop = h, pd_destPeer = ?dest, pd_seenAtMs = nowMs\<rparr>"
    using o ref by (simp add: pending_ok_def) (simp add: h_def)
  then have i2: "hops_inv ?evs ?s2" by (rule hops_inv_put [OF i1])
  have i3: "hops_inv ?evs (promote nowMs ?k h ?s2)"
    if e: "map_of (hs_early ?s2) ?k = Some early" and m: "hopPeerMatches ?dest (ea_sourcePeer early)" for early
  proof (rule promote_inv [OF i2])
    have "acknowledged ?evs ?k ?dest"
      using i2 map_of_SomeD [OF e] m unfolding hops_inv_def hopPeerMatches_def by auto
    with o ref m show "delivered ?evs h" unfolding delivered_def
      by (intro exI [of _ ?dest]) (simp add: hopPeerMatches_def h_def)
  qed
  have "hops_inv ?evs (case map_of (hs_early ?s2) ?k of None \<Rightarrow> ?s2
      | Some early \<Rightarrow> if hopPeerMatches ?dest (ea_sourcePeer early) then promote nowMs ?k h ?s2 else ?s2)"
    using i2 i3 by (auto split: option.split)
  then show ?thesis
    using False hops_inv_sub [OF cap_sub] unfolding observeHopAttempt_def Let_def r_def b_def h_def by auto
qed

lemma confirm_inv:
  assumes "hops_inv evs s"
  shows "hops_inv (evs @ [(now, w, HE_ack a)]) (confirmHop visit a nowMs s)"
proof (cases "ak_MigrationID a = []")
  case True
  then show ?thesis using assms(1) by (simp add: confirmHop_def hops_inv_mono)
next
  case False
  let ?evs = "evs @ [(now, w, HE_ack a)]" and ?k = "ak_MigrationID a" and ?s1 = "trimHopCorrelation nowMs s"
  let ?e = "\<lparr>ea_sourcePeer = ak_SourcePeer a, ea_seenAtMs = nowMs\<rparr>"
  have i1: "hops_inv ?evs ?s1" by (rule hops_inv_sub [OF trim_sub hops_inv_mono [OF assms(1)]])
  have k: "acknowledged ?evs ?k (ak_SourcePeer a)" by (auto simp: acknowledged_def)
  have wait: "hops_inv ?evs (capHopCorrelation visit (?s1\<lparr>hs_early := AList.update ?k ?e (hs_early ?s1)\<rparr>))"
    by (rule hops_inv_sub [OF cap_sub]) (use i1 k update_mem [of ?k ?e "hs_early ?s1"] in \<open>auto simp: hops_inv_def\<close>)
  have "hops_inv ?evs (promote nowMs ?k (pd_hop p) ?s1)"
    if p: "map_of (hs_pending ?s1) ?k = Some p" and m: "hopPeerMatches (pd_destPeer p) (ak_SourcePeer a)" for p
  proof (rule promote_inv [OF i1])
    show "delivered ?evs (pd_hop p)"
      using hops_inv_pending [OF i1 p] k m unfolding delivered_def pending_ok_def hopPeerMatches_def by auto
  qed
  with wait False show ?thesis unfolding confirmHop_def Let_def by (auto split: option.split)
qed

lemma refuse_slot_fields:
  "hp_MigrationID (refuse_slot h) = hp_MigrationID h"
  "set (hp_RefusedSlots (refuse_slot h)) \<subseteq> insert (hp_ToSlot h) (set (hp_RefusedSlots h))"
  by (auto simp: refuse_slot_def Let_def)

lemma reject_inv:
  assumes "hops_inv evs s"
  shows "hops_inv (evs @ [(now, w, HE_nack n)]) (rejectHopAttempt n nowMs s)"
proof (cases "nk_MigrationID n = []")
  case True
  then show ?thesis using assms(1) by (simp add: rejectHopAttempt_def hops_inv_mono)
next
  case False
  let ?evs = "evs @ [(now, w, HE_nack n)]" and ?k = "nk_MigrationID n" and ?s1 = "trimHopCorrelation nowMs s"
  have i1: "hops_inv ?evs ?s1" by (rule hops_inv_sub [OF trim_sub hops_inv_mono [OF assms(1)]])
  have "hops_inv ?evs (?s1\<lparr>hs_pending := AList.update ?k
      \<lparr>pd_hop = refuse_slot (pd_hop p), pd_destPeer = [], pd_seenAtMs = nowMs\<rparr> (hs_pending ?s1)\<rparr>)"
    if p: "map_of (hs_pending ?s1) ?k = Some p" "pd_destPeer p \<noteq> []" "nk_SourcePeer n = pd_destPeer p" for p
  proof (rule hops_inv_put [OF i1])
    have ok: "pending_ok ?evs ?k p" by (rule hops_inv_pending [OF i1 p(1)])
    then have "refused_by ?evs ?k (hp_ToSlot (pd_hop p))"
      using p(2,3) unfolding refused_by_def pending_ok_def by fastforce
    then show "pending_ok ?evs ?k \<lparr>pd_hop = refuse_slot (pd_hop p), pd_destPeer = [], pd_seenAtMs = nowMs\<rparr>"
      using ok refuse_slot_fields [of "pd_hop p"] by (auto simp: pending_ok_def)
  qed
  with i1 False show ?thesis unfolding rejectHopAttempt_def Let_def by (auto split: option.split)
qed

end
