(* ===== verification/HopClaims.thy ===== *)
theory HopClaims imports HopProps begin

text \<open>
  The claims about the archive's live path: what the feed may say, that it stays within its bounds, and
  two places where it says less than its comments promise.
\<close>

section \<open>Steps\<close>

lemma hop_slots [simp]:
  "hs_slots (trimHopCorrelation nowMs s) = hs_slots s" "hs_slots (capHopCorrelation visit s) = hs_slots s"
  "hs_slots (trimHops nowMs s) = hs_slots s" "hs_slots (promote nowMs k h s) = hs_slots s"
  "hs_slots (snd (HopFeedView nowMs s)) = hs_slots s"
  "hs_slots (observeHopAttempt visit p sp nowMs s) = hs_slots s"
  "hs_slots (confirmHop visit a nowMs s) = hs_slots s" "hs_slots (rejectHopAttempt n nowMs s) = hs_slots s"
proof -
  show trim: "hs_slots (trimHopCorrelation nowMs s) = hs_slots s" "hs_slots (capHopCorrelation visit s) = hs_slots s"
    "hs_slots (trimHops nowMs s) = hs_slots s" "hs_slots (snd (HopFeedView nowMs s)) = hs_slots s" for nowMs visit s
    using drops unfolding sub_state_def by blast+
  show p: "hs_slots (promote nowMs k h s) = hs_slots s" for k h s by (simp add: promote_def observeHop_def trim)
  show "hs_slots (observeHopAttempt visit p sp nowMs s) = hs_slots s"
    unfolding observeHopAttempt_def Let_def by (simp add: trim p split: option.split)
  show "hs_slots (confirmHop visit a nowMs s) = hs_slots s"
    unfolding confirmHop_def Let_def by (simp add: trim p split: option.split)
  show "hs_slots (rejectHopAttempt n nowMs s) = hs_slots s"
    unfolding rejectHopAttempt_def Let_def by (simp add: trim split: option.split)
qed

text \<open>The guard never stands in the way of the record: it returns, new or not.\<close>

definition guard_ok :: "nat \<Rightarrow> 'seed archive \<Rightarrow> bool" where
  "guard_ok n a = (window_ok (gd_seen (ar_guard a)) \<and> card (cur_keys (gd_seen (ar_guard a))) + n \<le> 2 ^ 60)"

lemma record_once_ok:
  assumes "guard_ok (Suc n) a" "\<And>b. ar_guard (f b) = ar_guard b" "\<And>b. ar_epoch (f b) = ar_epoch b"
  shows "\<exists>a1 g. record_once hash written now key f r a = Some a1 \<and> guard_ok n a1 \<and> ar_epoch a1 = ar_epoch a \<and>
    (ar_hops a1 = ar_hops a \<or> ar_hops a1 = ar_hops (f (a\<lparr>ar_guard := g\<rparr>)))"
proof (cases "key = []")
  case True
  then show ?thesis using assms
    by (auto simp: record_once_def markSeen_def append_record_def guard_ok_def intro!: exI [of _ "ar_guard a"])
next
  case False
  have "window_ok (gd_seen (ar_guard a))" "card (cur_keys (gd_seen (ar_guard a))) < 2 ^ 60"
    using assms(1) by (simp_all add: guard_ok_def)
  from mark_step [OF this False, of hash "lr_Type r" now] obtain seen g
    where "markSeen hash (lr_Type r) key now (ar_guard a) = Some (seen, g)" "window_ok (gd_seen g)"
      "card (cur_keys (gd_seen g)) \<le> Suc (card (cur_keys (gd_seen (ar_guard a))))" by blast
  with assms show ?thesis
    by (cases seen) (auto simp: record_once_def append_record_def guard_ok_def intro!: exI [of _ g])
qed

lemma shown_snoc: "shown (evs @ [e]) = shown_step e (shown evs)"
  by (simp add: shown_def)

lemma step_ok:
  assumes "guard_ok (Suc n) a" "hops_inv evs (ar_hops a)" "shown evs = (ar_epoch a, hs_slots (ar_hops a))"
  shows "\<exists>a1. arStep visit hash e a = Some a1 \<and> guard_ok n a1 \<and> hops_inv (evs @ [e]) (ar_hops a1) \<and>
    shown (evs @ [e]) = (ar_epoch a1, hs_slots (ar_hops a1))"
proof -
  obtain now written ev where e: "e = (now, written, ev)" by (cases e) auto
  have less: "guard_ok n b" if "ar_guard b = ar_guard a" for b :: "'a archive"
    using assms(1) that by (simp add: guard_ok_def)
  have keep: "hops_inv (evs @ [e]) s" if "hops_inv evs s" for s using that by (rule hops_inv_mono)
  have slots: "hs_slots (ar_hops a) = snd (shown evs)" by (simp add: assms(3))
  show ?thesis
  proof (cases ev)
    case HE_session
    then show ?thesis using keep [OF assms(2)] assms(3) less by (simp add: e shown_snoc)
  next
    case (HE_status st)
    then show ?thesis using keep [OF assms(2)] assms(3) less
      by (simp add: e shown_snoc arOnPeerStatus_def hops_inv_def)
  next
    case HE_view
    then show ?thesis using keep [OF hops_inv_sub [OF view_sub assms(2)]] assms(3) less by (simp add: e shown_snoc)
  next
    case (HE_payload p)
    let ?h = "observeHopAttempt visit p (fst (CarrySpecies (mp_Species p))) (unix_milli now) (ar_hops a)"
    have "guard_ok (Suc n) (a\<lparr>ar_hops := ?h\<rparr>)" using assms(1) by (simp add: guard_ok_def)
    from record_once_ok [OF this, of id] show ?thesis
      using attempt_inv [OF assms(2) slots] assms(3)
      by (fastforce simp: e HE_payload arOnMigration_def Let_def shown_snoc)
  next
    case (HE_nack k)
    let ?h = "rejectHopAttempt k (unix_milli now) (ar_hops a)"
    have "guard_ok (Suc n) (a\<lparr>ar_hops := ?h\<rparr>)" using assms(1) by (simp add: guard_ok_def)
    from record_once_ok [OF this, of id] show ?thesis
      using reject_inv [OF assms(2)] assms(3)
      by (fastforce simp: e HE_nack arOnNack_def Let_def shown_snoc)
  next
    case (HE_ack k)
    from record_once_ok [OF assms(1), of "\<lambda>a1. a1\<lparr>ar_hops := confirmHop visit k (unix_milli now) (ar_hops a1)\<rparr>"]
    show ?thesis using confirm_inv [OF assms(2)] keep [OF assms(2)] assms(3)
      by (fastforce simp: e HE_ack arOnAck_def Let_def shown_snoc)
  qed
qed

definition fresh_archive :: "int \<Rightarrow> duration \<Rightarrow> time \<Rightarrow> 'seed \<Rightarrow> 'seed \<Rightarrow> 'seed archive" where
  "fresh_archive hint window now a b =
     \<lparr>ar_guard = \<lparr>gd_seen = newDedupWindow hint window now a b, gd_duplicatesRefused = 0\<rparr>,
      ar_hops = \<lparr>hs_slots = [], hs_pending = [], hs_early = [], hs_trimAtMs = 0, hs_hops = [], hs_truncated = False\<rparr>,
      ar_epoch = 0, ar_ledger = []\<rparr>"

lemma fresh_archive_ok:
  "n \<le> 2 ^ 60 \<Longrightarrow> guard_ok n (fresh_archive hint window now a b)"
  "hops_inv [] (ar_hops (fresh_archive hint window now a b))"
  "shown [] = (ar_epoch (fresh_archive hint window now a b), hs_slots (ar_hops (fresh_archive hint window now a b)))"
  by (auto simp: guard_ok_def fresh_archive_def newDedupWindow_def window_ok_def cur_keys_def new_set
      Let_def second_def hops_inv_def shown_def)

lemma run_keeps:
  assumes "guard_ok (length es + n) a" "hops_inv evs (ar_hops a)" "shown evs = (ar_epoch a, hs_slots (ar_hops a))"
  shows "\<exists>a1. arRun visit hash es a = Some a1 \<and> guard_ok n a1 \<and> hops_inv (evs @ es) (ar_hops a1)"
  using assms
proof (induction es arbitrary: a evs)
  case (Cons e es)
  have "guard_ok (Suc (length es + n)) a" using Cons.prems(1) by simp
  from step_ok [OF this Cons.prems(2,3)] obtain a1 where a1: "arStep visit hash e a = Some a1"
    "guard_ok (length es + n) a1" "hops_inv (evs @ [e]) (ar_hops a1)"
    "shown (evs @ [e]) = (ar_epoch a1, hs_slots (ar_hops a1))" by blast
  from Cons.IH [OF a1(2-4)] a1(1) show ?case by auto
qed simp

section \<open>What the feed says\<close>

text \<open>C18: A DELIVERY IN THE FEED HAPPENED.  After any run of copied frames, in any order and whatever the
  bounds dropped on the way, every entry of the feed was offered to the slot it names at a time the map
  gave that slot to some sidecar, that very sidecar acknowledged that very migration, and every slot
  listed as refused is one whose sidecar refused it.  The run itself never stops.\<close>

theorem deliveries_were_acknowledged:
  assumes "length evs \<le> 2 ^ 60"
  shows "\<exists>a. arRun visit hash evs (fresh_archive hint window now s1 s2) = Some a \<and>
    (\<forall>h\<in>set (hs_hops (ar_hops a)). delivered evs h)"
proof -
  have "guard_ok (length evs + 0) (fresh_archive hint window now s1 s2)" using assms fresh_archive_ok(1) by simp
  from run_keeps [OF this fresh_archive_ok(2,3), of visit hash] show ?thesis by (auto simp: hops_inv_def)
qed

text \<open>An organism refused by world 2 arrives in world 3.\<close>

definition journey :: "int \<Rightarrow> migration_payload" where
  "journey dest = \<lparr>mp_MigrationID = ''m'', mp_Kind = ''bibite'', mp_BodyVersion = ''1'', mp_BB8 = ''{}'',
     mp_GenomeHash = [], mp_Parents = [], mp_Species = None, mp_SourcePeer = ''a'', mp_SourceSlot = 1,
     mp_DestSlot = dest, mp_ExitEdge = ''E'', mp_ExitPosition = Fin 0, mp_Velocity = \<lparr>ve_X = Fin 1, ve_Y = Fin 0\<rparr>,
     mp_Heading = Fin 0, mp_EntityID = 7, mp_Timestamp = 1, mp_Reroute = None\<rparr>"

definition slot_held :: "int \<Rightarrow> bytes \<Rightarrow> slot_info" where
  "slot_held n peer = \<lparr>si_Slot = n, si_Position = \<lparr>po_Col = n - 1, po_Row = 0\<rparr>, si_PeerID = peer, si_Live = True,
     si_ModConnected = True, si_GameVersion = ''1'', si_SimulationSize = Fin 1, si_ExportEdges = [''E'']\<rparr>"

definition answer_of :: "bytes \<Rightarrow> migration_ack" where
  "answer_of peer = \<lparr>ak_MigrationID = ''m'', ak_SourcePeer = peer, ak_DestPeer = ''a'', ak_EntityID = 7,
     ak_Duplicate = False, ak_DeliveredAt = 9\<rparr>"

definition refusal_of :: "bytes \<Rightarrow> migration_nack" where
  "refusal_of peer = \<lparr>nk_MigrationID = ''m'', nk_SourcePeer = peer, nk_DestPeer = ''a'', nk_Code = ''OVERLOADED'',
     nk_Class = ''transient'', nk_RetryAfterMs = 0, nk_NeverForwarded = None, nk_RelaySessionID = [],
     nk_RefusedAttempt = None\<rparr>"

definition journey_seen :: "archive_event list" where
  "journey_seen =
     [(1, True, HE_status \<lparr>ps_Epoch = 1, ps_Map = \<lparr>ms_Width = 3, ms_Height = 1\<rparr>,
         ps_Slots = [slot_held 1 ''a'', slot_held 2 ''b'', slot_held 3 ''c'']\<rparr>),
      (2, True, HE_payload (journey 2)), (3, True, HE_nack (refusal_of ''b'')),
      (4, False, HE_payload (journey 3)), (5, True, HE_ack (answer_of ''c'')), (6, True, HE_view)]"

definition hop_world :: hop_state where
  "hop_world = \<lparr>hs_slots = [slot_held 2 ''b'', slot_held 3 ''c''], hs_pending = [], hs_early = [],
     hs_trimAtMs = 0, hs_hops = [], hs_truncated = False\<rparr>"

lemma deliveries_were_acknowledged_witness:
  "(\<exists>a. arRun id twin_hash journey_seen (fresh_archive 0 10 0 1 2) = Some a \<and>
      (\<forall>h\<in>set (hs_hops (ar_hops a)). delivered journey_seen h)) \<and>
   map (\<lambda>h. (hp_ToSlot h, hp_RefusedSlots h))
     (hs_hops (confirmHop id (answer_of ''c'') 5 (observeHopAttempt id (journey 3) None 4
       (rejectHopAttempt (refusal_of ''b'') 3 (observeHopAttempt id (journey 2) None 2 hop_world))))) = [(3, [2])]"
proof
  show "\<exists>a. arRun id twin_hash journey_seen (fresh_archive 0 10 0 1 2) = Some a \<and>
      (\<forall>h\<in>set (hs_hops (ar_hops a)). delivered journey_seen h)"
    by (rule deliveries_were_acknowledged) (simp add: journey_seen_def)
  show "map (\<lambda>h. (hp_ToSlot h, hp_RefusedSlots h))
     (hs_hops (confirmHop id (answer_of ''c'') 5 (observeHopAttempt id (journey 3) None 4
       (rejectHopAttempt (refusal_of ''b'') 3 (observeHopAttempt id (journey 2) None 2 hop_world))))) = [(3, [2])]"
    by code_simp
qed

section \<open>Bounds\<close>

definition hops_sized :: "hop_state \<Rightarrow> bool" where
  "hops_sized s = (length (hs_hops s) \<le> hopMax \<and>
     (\<forall>(k, p)\<in>set (hs_pending s). length (hp_RefusedSlots (pd_hop p)) \<le> hopRefusedMax) \<and>
     (\<forall>h\<in>set (hs_hops s). length (hp_RefusedSlots h) \<le> hopRefusedMax))"

definition hops_bounded :: "hop_state \<Rightarrow> bool" where
  "hops_bounded s = (hops_sized s \<and> length (hs_pending s) \<le> hopPendingMax \<and> length (hs_early s) \<le> hopEarlyAckMax)"

lemma delete_length: "length (AList.delete k m) \<le> length m"
  by (simp add: delete_filter)

lemma shed_length: "fst ` set m \<subseteq> set ks \<Longrightarrow> length (shed target ks m) \<le> target"
proof (induction ks arbitrary: m)
  case (Cons k ks)
  have "fst ` set (AList.delete k m) \<subseteq> set ks" using Cons.prems by (auto simp: delete_filter)
  from Cons.IH [OF this] show ?case by (simp add: Let_def)
qed simp

lemma cap_map_length:
  assumes "\<And>ks. set (visit ks) = set ks"
  shows "length (cap_map visit limit m) \<le> limit"
proof -
  have "limit * 3 div 4 \<le> limit" by presburger
  then show ?thesis
    using shed_length [of m "visit (map fst m)" "limit * 3 div 4"] assms by (simp add: cap_map_def)
qed

lemma trimHops_bounded:
  "length (hs_hops (trimHops nowMs s)) \<le> hopMax" "hs_pending (trimHops nowMs s) = hs_pending s"
  "hs_early (trimHops nowMs s) = hs_early s"
  by (auto simp: trimHops_def Let_def)

lemma sized_sub: "sub_state s' s \<Longrightarrow> length (hs_hops s') \<le> hopMax \<Longrightarrow> hops_sized s \<Longrightarrow> hops_sized s'"
  unfolding hops_sized_def sub_state_def by blast

lemma trim_bounded:
  "hops_bounded s \<Longrightarrow> hops_bounded (trimHopCorrelation nowMs s)"
  "hops_sized s \<Longrightarrow> hops_sized (trimHopCorrelation nowMs s)"
  by (auto simp: hops_bounded_def hops_sized_def trimHopCorrelation_def Let_def intro: le_trans [OF length_filter_le])

lemma put_sized:
  "hops_sized s \<Longrightarrow> length (hp_RefusedSlots (pd_hop p)) \<le> hopRefusedMax \<Longrightarrow>
     hops_sized (s\<lparr>hs_pending := AList.update k p (hs_pending s)\<rparr>)"
  using update_mem [of k p "hs_pending s"] by (auto simp: hops_sized_def)

lemma observeHop_sized:
  assumes "hops_sized s" "length (hp_RefusedSlots h) \<le> hopRefusedMax"
  shows "hops_sized (observeHop h s)"
proof -
  let ?s = "s\<lparr>hs_hops := hs_hops s @ [h]\<rparr>"
  have "set (hs_hops (trimHops (hp_AtMs h) ?s)) \<subseteq> set (hs_hops ?s)"
    using trimHops_sub [of "hp_AtMs h" ?s] by (simp add: sub_state_def)
  then show ?thesis using assms trimHops_bounded [of "hp_AtMs h" ?s]
    unfolding hops_sized_def observeHop_def by auto
qed

lemma promote_sized:
  assumes "hops_sized s" "length (hp_RefusedSlots h) \<le> hopRefusedMax"
  shows "hops_sized (promote nowMs k h s)"
proof -
  have "hops_sized (s\<lparr>hs_pending := AList.delete k (hs_pending s), hs_early := AList.delete k (hs_early s)\<rparr>)"
    by (rule sized_sub [OF _ _ assms(1)]) (use assms(1) in \<open>simp_all add: sub_state_def delete_mem hops_sized_def\<close>)
  then show ?thesis unfolding promote_def by (rule observeHop_sized) (simp add: assms(2))
qed

lemma promote_lengths:
  "length (hs_pending (promote nowMs k h s)) \<le> length (hs_pending s)"
  "length (hs_early (promote nowMs k h s)) \<le> length (hs_early s)"
  by (simp_all add: promote_def observeHop_def trimHops_bounded delete_length)

lemma cap_bounded:
  assumes "\<And>ks. set (visit ks) = set ks" "hops_sized s"
  shows "hops_bounded (capHopCorrelation visit s)"
proof -
  have "hops_sized (capHopCorrelation visit s)"
    by (rule sized_sub [OF cap_sub _ assms(2)]) (use assms(2) in \<open>simp add: capHopCorrelation_def hops_sized_def\<close>)
  then show ?thesis by (simp add: hops_bounded_def capHopCorrelation_def cap_map_length [OF assms(1)])
qed

lemma stage_sized:
  assumes "hops_sized s" "length (hp_RefusedSlots h) \<le> hopRefusedMax"
  shows "hops_sized (case e of None \<Rightarrow> s\<lparr>hs_pending := AList.update k \<lparr>pd_hop = h, pd_destPeer = d, pd_seenAtMs = t\<rparr> (hs_pending s)\<rparr>
    | Some early \<Rightarrow> if P early
        then promote nowMs k h (s\<lparr>hs_pending := AList.update k \<lparr>pd_hop = h, pd_destPeer = d, pd_seenAtMs = t\<rparr> (hs_pending s)\<rparr>)
        else s\<lparr>hs_pending := AList.update k \<lparr>pd_hop = h, pd_destPeer = d, pd_seenAtMs = t\<rparr> (hs_pending s)\<rparr>)"
proof -
  have "hops_sized (s\<lparr>hs_pending := AList.update k \<lparr>pd_hop = h, pd_destPeer = d, pd_seenAtMs = t\<rparr> (hs_pending s)\<rparr>)"
    by (rule put_sized [OF assms(1)]) (simp add: assms(2))
  with promote_sized [OF this assms(2)] show ?thesis by (simp split: option.split)
qed

lemma attempt_bounded:
  assumes "\<And>ks. set (visit ks) = set ks" "hops_bounded s"
  shows "hops_bounded (observeHopAttempt visit p sp nowMs s)"
proof (cases "mp_MigrationID p = []")
  case True
  then show ?thesis using assms(2) by (simp add: observeHopAttempt_def)
next
  case False
  have s1: "hops_sized (trimHopCorrelation nowMs s)" using assms(2) trim_bounded(2) by (simp add: hops_bounded_def)
  have old: "length (case map_of (hs_pending (trimHopCorrelation nowMs s)) k of None \<Rightarrow> []
      | Some q \<Rightarrow> hp_RefusedSlots (pd_hop q)) \<le> hopRefusedMax" for k
    using s1 by (auto simp: hops_sized_def split: option.split dest!: map_of_SomeD)
  show ?thesis
    by (simp only: observeHopAttempt_def Let_def False if_False)
       (rule cap_bounded [OF assms(1) stage_sized [OF s1]], simp add: old)
qed

lemma confirm_bounded:
  assumes "\<And>ks. set (visit ks) = set ks" "hops_bounded s"
  shows "hops_bounded (confirmHop visit a nowMs s)"
proof (cases "ak_MigrationID a = []")
  case True
  then show ?thesis using assms(2) by (simp add: confirmHop_def)
next
  case False
  let ?s1 = "trimHopCorrelation nowMs s" and ?k = "ak_MigrationID a"
  have s1: "hops_bounded ?s1" "hops_sized ?s1" using assms(2) trim_bounded by (simp_all add: hops_bounded_def)
  have early: "hops_sized (?s1\<lparr>hs_early := e\<rparr>)" for e using s1(2) by (simp add: hops_sized_def)
  have "hops_bounded (promote nowMs ?k (pd_hop p) ?s1)" if "map_of (hs_pending ?s1) ?k = Some p" for p
  proof -
    have "length (hp_RefusedSlots (pd_hop p)) \<le> hopRefusedMax"
      using s1(2) map_of_SomeD [OF that] by (auto simp: hops_sized_def)
    from promote_sized [OF s1(2) this] s1(1) promote_lengths [of nowMs ?k "pd_hop p" ?s1] show ?thesis
      by (auto simp: hops_bounded_def intro: le_trans)
  qed
  then show ?thesis using False cap_bounded [OF assms(1) early] unfolding confirmHop_def Let_def
    by (auto split: option.split)
qed

lemma update_same_length: "map_of m k = Some w \<Longrightarrow> length (AList.update k v m) = length m"
  by (induction m) (auto split: if_splits)

lemma reject_bounded: "hops_bounded s \<Longrightarrow> hops_bounded (rejectHopAttempt n nowMs s)"
proof (cases "nk_MigrationID n = []")
  case True
  then show "hops_bounded s \<Longrightarrow> ?thesis" by (simp add: rejectHopAttempt_def)
next
  case False
  assume "hops_bounded s"
  then have s1: "hops_bounded (trimHopCorrelation nowMs s)" by (rule trim_bounded)
  have "length (hp_RefusedSlots (refuse_slot (pd_hop p))) \<le> hopRefusedMax"
    if "map_of (hs_pending (trimHopCorrelation nowMs s)) k = Some p" for k p
    using s1 map_of_SomeD [OF that] by (auto simp: hops_bounded_def hops_sized_def refuse_slot_def Let_def)
  then show ?thesis using False s1 unfolding rejectHopAttempt_def Let_def
    by (auto simp: hops_bounded_def update_same_length put_sized split: option.split)
qed

lemma view_bounded: "hops_bounded s \<Longrightarrow> hops_bounded (snd (HopFeedView nowMs s))"
  using sized_sub [OF view_sub, of nowMs s] trimHops_bounded [of nowMs "s\<lparr>hs_truncated := False\<rparr>"]
  by (simp add: hops_bounded_def HopFeedView_def Let_def)

text \<open>What one event may do to the correlator, whatever the guard answers.\<close>

lemma record_once_hops:
  "record_once hash written now key f r a = Some a1 \<Longrightarrow>
     ar_hops a1 = ar_hops a \<or> (\<exists>g. ar_hops a1 = ar_hops (f (a\<lparr>ar_guard := g\<rparr>)))"
  by (auto simp: record_once_def append_record_def split: option.splits bool.splits if_splits) blast+

lemma step_bounded:
  assumes "\<And>ks. set (visit ks) = set ks" "arStep visit hash e a = Some a1" "hops_bounded (ar_hops a)"
  shows "hops_bounded (ar_hops a1)"
proof -
  obtain now written ev where e: "e = (now, written, ev)" by (cases e) auto
  note b = attempt_bounded [OF assms(1,3)] confirm_bounded [OF assms(1,3)] reject_bounded [OF assms(3)]
    view_bounded [OF assms(3)]
  show ?thesis
  proof (cases ev)
    case (HE_status st)
    then show ?thesis using assms(2,3)
      by (auto simp: e arOnPeerStatus_def hops_bounded_def hops_sized_def split: if_splits)
  next
    case (HE_payload p)
    then show ?thesis using assms(2) b
      by (auto simp: e arOnMigration_def Let_def dest!: record_once_hops)
  next
    case (HE_ack k)
    then show ?thesis using assms(2,3) b
      by (auto simp: e arOnAck_def Let_def dest!: record_once_hops)
  next
    case (HE_nack k)
    then show ?thesis using assms(2) b
      by (auto simp: e arOnNack_def Let_def dest!: record_once_hops)
  qed (use assms(2,3) b in \<open>auto simp: e\<close>)
qed

lemma run_bounded:
  assumes "\<And>ks. set (visit ks) = set ks" "hops_bounded (ar_hops a)" "arRun visit hash evs a = Some a1"
  shows "hops_bounded (ar_hops a1)"
  using assms(2,3)
  by (induction evs arbitrary: a) (auto split: option.splits dest: step_bounded [OF assms(1)])

text \<open>THE FEED STAYS WITHIN ITS BOUNDS.  Whatever frames are copied here, in whatever order a full
  map is shed, the correlator holds at most 8192 attempts and 1024 early answers, the feed at most 200
  arrivals, and each of them at most 64 refusals.\<close>

theorem feed_stays_within_bounds:
  assumes "\<And>ks. set (visit ks) = set ks" "length evs \<le> 2 ^ 60"
  shows "\<exists>a. arRun visit hash evs (fresh_archive hint window now s1 s2) = Some a \<and>
    length (hs_pending (ar_hops a)) \<le> hopPendingMax \<and> length (hs_early (ar_hops a)) \<le> hopEarlyAckMax \<and>
    length (hf_Hops (fst (HopFeedView t (ar_hops a)))) \<le> hopMax \<and>
    (\<forall>h\<in>set (hs_hops (ar_hops a)). length (hp_RefusedSlots h) \<le> hopRefusedMax)"
proof -
  have "guard_ok (length evs + 0) (fresh_archive hint window now s1 s2)" using assms(2) fresh_archive_ok(1) by simp
  from run_keeps [OF this fresh_archive_ok(2,3), of visit hash] obtain a
    where a: "arRun visit hash evs (fresh_archive hint window now s1 s2) = Some a" by blast
  have "hops_bounded (ar_hops (fresh_archive hint window now s1 s2))"
    by (simp add: fresh_archive_def hops_bounded_def hops_sized_def)
  from run_bounded [OF assms(1) this a] a trimHops_bounded(1) [of t "ar_hops a\<lparr>hs_truncated := False\<rparr>"]
  show ?thesis by (auto simp: hops_bounded_def hops_sized_def HopFeedView_def Let_def)
qed

lemma feed_stays_within_bounds_witness:
  "\<exists>a. arRun rev twin_hash journey_seen (fresh_archive 0 10 0 1 2) = Some a \<and>
     length (hs_pending (ar_hops a)) \<le> 8192 \<and> length (hf_Hops (fst (HopFeedView 9 (ar_hops a)))) \<le> 200"
  using feed_stays_within_bounds [of rev journey_seen twin_hash 0 10 0 1 2 9]
  by (auto simp: journey_seen_def hopPendingMax_def hopMax_def)

section \<open>Where it says less\<close>

text \<open>ONE READER TAKES THE WARNING.  The feed's own comment says that its truncation flag is true when
  the count bound cut the window short.  It is true for one reader only: when arrival 201 pushed one out
  of the window, the next reader is handed the same 200 arrivals with the flag false.\<close>

theorem second_reader_sees_no_truncation:
  assumes "length (hs_hops s) = hopMax" "\<forall>g\<in>set (hs_hops s). now - hopWindowMs \<le> hp_AtMs g" "hp_AtMs h = now"
    and "HopFeedView now (observeHop h s) = (f1, s1)" "HopFeedView now s1 = (f2, s2)"
  shows "hf_Truncated f1 \<and> \<not> hf_Truncated f2 \<and> hf_Hops f2 = hf_Hops f1 \<and>
    hf_Hops f1 = tl (hs_hops s) @ [h] \<and> now - hopWindowMs \<le> hp_AtMs (hd (hs_hops s))"
proof -
  have keep: "dropWhile (\<lambda>g. hp_AtMs g < now - hopWindowMs) xs = xs"
    if "\<forall>g\<in>set xs. now - hopWindowMs \<le> hp_AtMs g" for xs using that by (cases xs) auto
  obtain g gs where g: "hs_hops s = g # gs" using assms(1) by (cases "hs_hops s") (auto simp: hopMax_def)
  have fresh: "\<forall>g\<in>set (gs @ [h]). now - hopWindowMs \<le> hp_AtMs g" "\<forall>g\<in>set (hs_hops s @ [h]). now - hopWindowMs \<le> hp_AtMs g"
    using assms(2,3) g by (auto simp: hopWindowMs_def)
  have len: "length gs = 199" using assms(1) by (simp add: g hopMax_def)
  have s1: "observeHop h s = s\<lparr>hs_hops := gs @ [h], hs_truncated := True\<rparr>"
    using keep [OF fresh(2)] len by (simp add: observeHop_def trimHops_def Let_def assms(3) g hopMax_def)
  have v: "HopFeedView now (s\<lparr>hs_hops := gs @ [h], hs_truncated := b\<rparr>) =
      (\<lparr>hf_GeneratedAtMs = now, hf_WindowMs = hopWindowMs, hf_MaxEntries = hopMax, hf_Truncated = b, hf_Hops = gs @ [h]\<rparr>,
       s\<lparr>hs_hops := gs @ [h], hs_truncated := False\<rparr>)" for b
    using keep [OF fresh(1)] len by (simp add: HopFeedView_def trimHops_def Let_def hopMax_def)
  show ?thesis using assms(2,4,5) unfolding s1 v by (auto simp: v g)
qed

definition arrival_at :: "int \<Rightarrow> hop" where
  "arrival_at t = \<lparr>hp_MigrationID = ''m'', hp_AtMs = t, hp_FromSlot = 1, hp_ToSlot = 2, hp_RefusedSlots = [],
     hp_RefusalsTruncated = False, hp_ExitEdge = ''E'', hp_Species = None\<rparr>"

lemma second_reader_sees_no_truncation_witness:
  "let s = hop_world\<lparr>hs_hops := replicate 200 (arrival_at 90000)\<rparr>;
       r1 = HopFeedView 90001 (observeHop (arrival_at 90001) s)
   in hf_Truncated (fst r1) \<and> \<not> hf_Truncated (fst (HopFeedView 90001 (snd r1)))"
proof -
  let ?s = "hop_world\<lparr>hs_hops := replicate 200 (arrival_at 90000)\<rparr>"
  let ?r = "HopFeedView 90001 (observeHop (arrival_at 90001) ?s)"
  have "length (hs_hops ?s) = hopMax" by (simp add: hopMax_def)
  moreover have "\<forall>g\<in>set (hs_hops ?s). 90001 - hopWindowMs \<le> hp_AtMs g"
    by (simp add: arrival_at_def hopWindowMs_def)
  moreover have "hp_AtMs (arrival_at 90001) = 90001" by (simp add: arrival_at_def)
  ultimately show ?thesis
    using second_reader_sees_no_truncation [of ?s 90001 "arrival_at 90001" "fst ?r" "snd ?r"
        "fst (HopFeedView 90001 (snd ?r))" "snd (HopFeedView 90001 (snd ?r))"] by (simp add: Let_def)
qed

lemma map_ok_filter: "map_ok m \<Longrightarrow> map_ok (filter P m)"
  by (simp add: map_ok_def distinct_map_filter)

text \<open>C32: AN ANSWER FROM ANYONE CLOSES A DELIVERY.  The comment on the confirmation says that the sender of
  an acknowledgement tells a late answer of an earlier destination from that of the eventual one.  But
  the duplicate guard, whose key is the migration alone, comes first: once a peer that is not the
  destination has acknowledged, the record names that peer as the receiver, and the acknowledgement of
  the true one is dropped as a copy, from the record and from the feed.\<close>

theorem answer_from_anyone_closes_delivery:
  assumes "guard_ok 2 a" "k \<noteq> []" "map_of (hs_pending (ar_hops a)) k = Some p"
    and "ak_MigrationID stray = k" "ak_MigrationID true_ack = k" "ak_SourcePeer stray \<noteq> pd_destPeer p"
    and "unix_milli t - hopCorrelationWindowMs \<le> pd_seenAtMs p" "map_ok (hs_pending (ar_hops a))"
    and "markSeen hash ''ACK'' k t (ar_guard a) = Some (False, g)"
    and "t \<le> t'" "t' \<le> t + dw_window (gd_seen (ar_guard a))"
  shows "\<exists>a1 a2. arOnAck visit hash True t stray a = Some a1 \<and> arOnAck visit hash True t' true_ack a1 = Some a2 \<and>
    lr_SourcePeer (last (ar_ledger a1)) = ak_SourcePeer stray \<and> ar_ledger a2 = ar_ledger a1 \<and>
    hs_hops (ar_hops a1) = hs_hops (ar_hops a) \<and> ar_hops a2 = ar_hops a1"
proof -
  let ?w = "gd_seen (ar_guard a)" and ?s = "ar_hops a"
  have w: "window_ok ?w" "card (cur_keys ?w) + 2 \<le> 2 ^ 60" using assms(1) by (simp_all add: guard_ok_def)
  have "card (cur_keys ?w) < 2 ^ 60" using w(2) by simp
  from mark_step [OF w(1) this assms(2), of hash "''ACK''" t] assms(9)
  have g: "window_ok (gd_seen g)" "dw_window (gd_seen g) = dw_window ?w" "window_seeds (gd_seen g) = window_seeds ?w"
    "guard_fp hash ''ACK'' k (ar_guard a) \<in> cur_keys (gd_seen g)" "dw_rotateAt (gd_seen g) = dw_rotateAt (window_tick t ?w)"
    "card (cur_keys (gd_seen g)) \<le> Suc (card (cur_keys ?w))" by (auto split: if_splits)
  have "t < dw_rotateAt (window_tick t ?w)" by (rule tick_cases [of t ?w]) (use window_okD [OF w(1)] in simp_all)
  then have "remembered (guard_fp hash ''ACK'' k (ar_guard a)) (t' + 1) (gd_seen g)"
    using g assms(11) by (simp add: remembered_def)
  from remembered_tick(2) [OF this, of t'] window_okD [OF g(1)]
  have "guard_fp hash ''ACK'' k g \<in> cur_keys (window_tick t' (gd_seen g)) \<union> prev_keys (window_tick t' (gd_seen g))"
    by (simp add: guard_fp_def g(3))
  moreover have "card (cur_keys (gd_seen g)) < 2 ^ 60" using g(6) w(2) by simp
  ultimately obtain g2 where g2: "markSeen hash ''ACK'' k t' g = Some (True, g2)"
    using mark_step [OF g(1) _ assms(2), of hash "''ACK''" t'] by auto
  have p: "map_of (hs_pending (trimHopCorrelation (unix_milli t) ?s)) k = Some p"
    using assms(3,7,8) by (auto simp: trimHopCorrelation_def Let_def map_ok_map_of map_ok_filter)
  have hops: "hs_hops (confirmHop visit stray (unix_milli t) ?s) = hs_hops ?s"
    using p assms(2,4,6) by (simp add: confirmHop_def Let_def hopPeerMatches_def capHopCorrelation_def
        trimHopCorrelation_def)
  show ?thesis using assms(4,5,9) g2 hops
    by (simp add: arOnAck_def record_once_def Let_def append_record_def zero_record_def)
qed

text \<open>World b, which was never asked, answers before world c.\<close>

lemma answer_from_anyone_closes_delivery_witness:
  "\<exists>a1 a2. let a = \<lparr>ar_guard = guard_at 10 100,
        ar_hops = observeHopAttempt id (journey 3) None 0 hop_world, ar_epoch = 0, ar_ledger = []\<rparr> in
     arOnAck id twin_hash True 105 (answer_of ''b'') a = Some a1 \<and>
     arOnAck id twin_hash True 110 (answer_of ''c'') a1 = Some a2 \<and>
     lr_SourcePeer (last (ar_ledger a2)) = ''b'' \<and> hs_hops (ar_hops a2) = []"
proof -
  let ?h = "observeHopAttempt id (journey 3) None 0 hop_world"
  let ?a = "\<lparr>ar_guard = guard_at 10 100, ar_hops = ?h, ar_epoch = 0, ar_ledger = []\<rparr>"
  obtain p where p: "map_of (hs_pending ?h) ''m'' = Some p" "pd_destPeer p = ''c''" "pd_seenAtMs p = 0"
      "map_ok (hs_pending ?h)" "hs_hops ?h = []"
  proof -
    have "map_ok (hs_pending ?h) \<and> hs_hops ?h = [] \<and>
        map_option (\<lambda>p. (pd_destPeer p, pd_seenAtMs p)) (map_of (hs_pending ?h) ''m'') = Some (''c'', 0)" by code_simp
    with that show ?thesis by auto
  qed
  have w: "guard_ok 2 ?a" "dw_window (gd_seen (guard_at 10 100)) = 10"
    by (simp_all add: guard_ok_def guard_at_def fresh_window_ok) (simp add: newDedupWindow_def)
  obtain g where g: "markSeen twin_hash ''ACK'' ''m'' 105 (guard_at 10 100) = Some (False, g)"
    using mark_step [of "guard_at 10 100" "''m''" twin_hash "''ACK''" 105]
    by (auto simp: guard_at_def fresh_window_ok window_tick_def newDedupWindow_def cur_keys_def prev_keys_def
        new_set window_ok_def)
  have ms: "unix_milli 105 - hopCorrelationWindowMs \<le> 0" by code_simp
  have ids: "ak_MigrationID (answer_of x) = ''m''" "ak_SourcePeer (answer_of x) = x" for x
    by (simp_all add: answer_of_def)
  have "\<exists>a1 a2. arOnAck id twin_hash True 105 (answer_of ''b'') ?a = Some a1 \<and>
      arOnAck id twin_hash True 110 (answer_of ''c'') a1 = Some a2 \<and>
      lr_SourcePeer (last (ar_ledger a1)) = ak_SourcePeer (answer_of ''b'') \<and> ar_ledger a2 = ar_ledger a1 \<and>
      hs_hops (ar_hops a1) = hs_hops (ar_hops ?a) \<and> ar_hops a2 = ar_hops a1"
    by (rule answer_from_anyone_closes_delivery [of ?a "''m''" p, where g = g]) (use p w g ms ids in simp_all)
  with p(5) ids show ?thesis by (auto simp: Let_def)
qed

end
