(* ===== verification/LedgerName.thy ===== *)
theory LedgerName imports Text begin

text \<open>
  The names of the ledger's closed segments (\<open>internal/archive/segments.go\<close>): the UTC day a record
  belongs to, its \<open>YYYY-MM-DD\<close> form, the names built from it and read back, and the one order of
  segments.  A UTC midnight is its number of days since 1970-01-01.
\<close>

section \<open>Days\<close>

type_synonym day = int

definition day_ms :: int where
  "day_ms = 86400000"

definition dayOfMs :: "int \<Rightarrow> day" where
  "dayOfMs ms = ms div day_ms"

definition leap_year :: "int \<Rightarrow> bool" where
  "leap_year y = (y mod 4 = 0 \<and> (y mod 100 \<noteq> 0 \<or> y mod 400 = 0))"

definition year_days :: "int \<Rightarrow> int" where
  "year_days y = (if leap_year y then 366 else 365)"

text \<open>The day of the first of January.\<close>

definition new_year :: "int \<Rightarrow> day" where
  "new_year y = 365 * y + (y + 3) div 4 - (y + 99) div 100 + (y + 399) div 400 - 719528"

definition month_days :: "int \<Rightarrow> int list" where
  "month_days y = [31, if leap_year y then 29 else 28, 31, 30, 31, 30, 31, 31, 30, 31, 30, 31]"

lemma div_next:
  fixes y k :: int
  assumes "0 < k" "j = k - 1"
  shows "(y + k) div k = (y + j) div k + (if y mod k = 0 then 1 else 0)"
proof -
  define q r where "q = y div k" and "r = y mod k"
  have y: "y = q * k + r" "0 \<le> r" "r < k" using assms by (simp_all add: q_def r_def)
  have "(y + j) div k = q + (r + j) div k" using assms by (simp add: y(1) add.assoc)
  moreover have "(r + j) div k = (if r = 0 then 0 else 1)"
    using y(2,3) assms int_div_pos_eq [of "r + j" k 1 "r - 1"] by auto
  moreover have "(y + k) div k = q + 1" using assms by (simp add: q_def)
  ultimately show ?thesis by (simp add: r_def)
qed

lemma leap_count:
  "(c \<Longrightarrow> b) \<Longrightarrow> (b \<Longrightarrow> a) \<Longrightarrow> (if a \<and> (\<not> b \<or> c) then 366 else 365) =
     (365 :: int) + (if a then 1 else 0) - (if b then 1 else 0) + (if c then 1 else 0)"
  by (cases a; cases b; cases c) simp_all

lemma mod_divides: "y mod k = 0 \<Longrightarrow> j dvd k \<Longrightarrow> y mod j = 0" for y k j :: int
  using dvd_trans [of j k y] by (simp add: mod_eq_0_iff_dvd)

lemma new_year_sum:
  "365 * (y + 1) + (a + i) - (b + j) + (c + k) - n = 365 * y + a - b + c - n + (365 + i - j + k)"
  for n y a b c i j k :: int
  by (simp add: algebra_simps)

lemma new_year_next: "new_year (y + 1) = new_year y + year_days y"
proof -
  have "y mod 400 = 0 \<Longrightarrow> y mod 100 = 0" by (erule mod_divides) simp
  moreover have "y mod 100 = 0 \<Longrightarrow> y mod 4 = 0" by (erule mod_divides) simp
  ultimately have leap: "year_days y = 365 + (if y mod 4 = 0 then 1 else 0) - (if y mod 100 = 0 then 1 else 0)
      + (if y mod 400 = 0 then 1 else 0)" unfolding year_days_def leap_year_def by (rule leap_count)
  have e: "(y + 1 + 3) = y + 4" "(y + 1 + 99) = y + 100" "(y + 1 + 399) = y + 400" by simp_all
  have d: "(y + 4) div 4 = (y + 3) div 4 + (if y mod 4 = 0 then 1 else 0)"
    "(y + 100) div 100 = (y + 99) div 100 + (if y mod 100 = 0 then 1 else 0)"
    "(y + 400) div 400 = (y + 399) div 400 + (if y mod 400 = 0 then 1 else 0)"
    by (rule div_next; simp)+
  show ?thesis unfolding new_year_def leap e d by (rule new_year_sum)
qed

lemma year_days_pos: "365 \<le> year_days y"
  by (simp add: year_days_def)

lemma year_days_sum: "sum_list (month_days y) = year_days y"
  by (simp add: year_days_def month_days_def)

function year_from :: "int \<Rightarrow> day \<Rightarrow> int" where
  "year_from y d = (if d < new_year (y + 1) then y else year_from (y + 1) d)"
  by pat_completeness auto
termination
proof (relation "measure (\<lambda>(y, d). nat (d + 1 - new_year y))")
  fix y :: int and d :: day
  assume "\<not> d < new_year (y + 1)"
  then show "((y + 1, d), y, d) \<in> measure (\<lambda>(y, d). nat (d + 1 - new_year y))"
    using new_year_next [of y] year_days_pos [of y] by simp
qed simp

declare year_from.simps [simp del]

fun split_months :: "nat \<Rightarrow> int list \<Rightarrow> int \<Rightarrow> nat \<times> int" where
  "split_months m [] n = (m, n)"
| "split_months m (l # ls) n = (if n < l then (m, n) else split_months (Suc m) ls (n - l))"

text \<open>Year, month and day of month of a day from 1970 on.\<close>

definition civil :: "day \<Rightarrow> int \<times> nat \<times> int" where
  "civil d = (let y = year_from 1970 d; (m, n) = split_months 1 (month_days y) (d - new_year y)
     in (y, m, n + 1))"

definition day_of_civil :: "int \<Rightarrow> nat \<Rightarrow> int \<Rightarrow> day" where
  "day_of_civil y m n = new_year y + sum_list (take (m - 1) (month_days y)) + n - 1"

lemma year_from_bounds:
  "new_year y \<le> d \<Longrightarrow> new_year (year_from y d) \<le> d \<and> d < new_year (year_from y d + 1) \<and> y \<le> year_from y d"
proof (induction y d rule: year_from.induct)
  case (1 y d)
  then show ?case by (subst (1 2 3) year_from.simps) auto
qed

lemma split_months_sum:
  assumes "split_months m ls n = (k, r)" "0 \<le> n" "n < sum_list ls" "\<forall>l \<in> set ls. 0 < l"
  shows "m \<le> k \<and> k < m + length ls \<and> 0 \<le> r \<and> r < ls ! (k - m) \<and> n = sum_list (take (k - m) ls) + r"
  using assms
proof (induction m ls n rule: split_months.induct)
  case (2 m l ls n)
  show ?case
  proof (cases "n < l")
    case False
    with 2 have "Suc m \<le> k \<and> k < Suc m + length ls \<and> 0 \<le> r \<and> r < ls ! (k - Suc m) \<and>
        n - l = sum_list (take (k - Suc m) ls) + r" by auto
    moreover from this have "k - m = Suc (k - Suc m)" by linarith
    ultimately show ?thesis by simp
  qed (use 2 in auto)
qed simp

lemma civil_day:
  assumes "0 \<le> d" "civil d = (y, m, n)"
  shows "day_of_civil y m n = d \<and> 1970 \<le> y \<and> 1 \<le> m \<and> m \<le> 12 \<and> 1 \<le> n \<and> n \<le> month_days y ! (m - 1) \<and>
    new_year y \<le> d"
proof -
  obtain r where y: "y = year_from 1970 d" and s: "split_months 1 (month_days y) (d - new_year y) = (m, r)" "n = r + 1"
    using assms(2) by (auto simp: civil_def Let_def split: prod.splits)
  have b: "new_year y \<le> d" "d < new_year (y + 1)" "1970 \<le> y"
    using year_from_bounds [of 1970 d] assms(1) by (simp_all add: y new_year_def)
  have "\<forall>l \<in> set (month_days y). 0 < l" "length (month_days y) = 12" by (auto simp: month_days_def)
  with split_months_sum [OF s(1)] b show ?thesis
    by (auto simp: year_days_sum new_year_next day_of_civil_def s(2))
qed

section \<open>Digits\<close>

definition digit :: "nat \<Rightarrow> char" where
  "digit n = char_of (48 + n)"

fun pad_digits :: "nat \<Rightarrow> nat \<Rightarrow> bytes" where
  "pad_digits 0 n = []"
| "pad_digits (Suc k) n = pad_digits k (n div 10) @ [digit (n mod 10)]"

definition dec_digit :: "char \<Rightarrow> bool" where
  "dec_digit c = (48 \<le> byte c \<and> byte c \<le> 57)"

fun dec_value :: "nat \<Rightarrow> bytes \<Rightarrow> nat option" where
  "dec_value acc [] = Some acc"
| "dec_value acc (c # cs) = (if dec_digit c then dec_value (10 * acc + (byte c - 48)) cs else None)"

lemma byte_digit [simp]: "n < 10 \<Longrightarrow> byte (digit n) = 48 + n" "n < 10 \<Longrightarrow> dec_digit (digit n)"
  by (simp_all add: digit_def byte_def dec_digit_def)

lemma pad_digits_length [simp]: "length (pad_digits k n) = k"
  by (induction k arbitrary: n) simp_all

lemma dec_value_append:
  "dec_value acc (xs @ ys) = (case dec_value acc xs of None \<Rightarrow> None | Some v \<Rightarrow> dec_value v ys)"
  by (induction xs arbitrary: acc) simp_all

lemma dec_value_pad: "n < 10 ^ k \<Longrightarrow> dec_value acc (pad_digits k n) = Some (acc * 10 ^ k + n)"
proof (induction k arbitrary: n acc)
  case (Suc k)
  then have "n div 10 < 10 ^ k" by (simp add: div_less_iff_less_mult)
  from Suc.IH [OF this, of acc] show ?case by (simp add: dec_value_append)
qed simp

lemma pad_digits_Cons: "pad_digits (Suc k) n = digit (n div 10 ^ k mod 10) # pad_digits k n"
proof (induction k arbitrary: n)
  case (Suc k)
  have "pad_digits (Suc (Suc k)) n = pad_digits (Suc k) (n div 10) @ [digit (n mod 10)]" by simp
  also have "\<dots> = digit (n div 10 div 10 ^ k mod 10) # pad_digits k (n div 10) @ [digit (n mod 10)]"
    by (simp only: Suc.IH append_Cons)
  finally show ?case by (simp add: div_mult2_eq mult.commute)
qed simp

section \<open>The day in a name\<close>

text \<open>\<open>Format\<close> with the layout \<open>2006-01-02\<close>, for years of four digits, and its strict inverse.\<close>

definition fmt_day :: "day \<Rightarrow> bytes" where
  "fmt_day d = (let (y, m, n) = civil d
     in pad_digits 4 (nat y) @ ''-'' @ pad_digits 2 m @ ''-'' @ pad_digits 2 (nat n))"

definition parse_day :: "bytes \<Rightarrow> day option" where
  "parse_day s =
     (case (dec_value 0 (take 4 s), dec_value 0 (take 2 (drop 5 s)), dec_value 0 (drop 8 s)) of
        (Some y, Some m, Some n) \<Rightarrow>
          if length s = 10 \<and> s ! 4 = CHR ''-'' \<and> s ! 7 = CHR ''-'' \<and> 1 \<le> m \<and> m \<le> 12 \<and> 1 \<le> n \<and>
             int n \<le> month_days (int y) ! (m - 1)
          then Some (day_of_civil (int y) m (int n)) else None
      | _ \<Rightarrow> None)"

definition cutDay :: "bytes \<Rightarrow> (day \<times> bytes) option" where
  "cutDay s = (if length s < 10 then None
     else case parse_day (take 10 s) of None \<Rightarrow> None | Some d \<Rightarrow> Some (d, drop 10 s))"

text \<open>\<open>strconv.Atoi\<close> takes a sign.\<close>

definition atoi :: "bytes \<Rightarrow> int option" where
  "atoi s = (case s of
       [] \<Rightarrow> None
     | c # cs \<Rightarrow>
         if (c = CHR ''+'' \<or> c = CHR ''-'') \<and> cs = [] then None
         else if c = CHR ''-'' then map_option (\<lambda>v. - int v) (dec_value 0 cs)
         else map_option int (dec_value 0 (if c = CHR ''+'' then cs else s)))"

definition cut_prefix :: "bytes \<Rightarrow> bytes \<Rightarrow> bytes option" where
  "cut_prefix p s = (if take (length p) s = p then Some (drop (length p) s) else None)"

definition cut_suffix :: "bytes \<Rightarrow> bytes \<Rightarrow> bytes option" where
  "cut_suffix p s = (if length p \<le> length s \<and> drop (length s - length p) s = p
     then Some (take (length s - length p) s) else None)"

definition cutSeq :: "bytes \<Rightarrow> nat option" where
  "cutSeq s = (case cut_prefix ''-'' s of
       None \<Rightarrow> None
     | Some rest \<Rightarrow> if length rest \<noteq> 4 then None
         else case atoi rest of None \<Rightarrow> None | Some n \<Rightarrow> if n < 0 then None else Some (nat n))"

definition segmentName :: "day \<Rightarrow> nat \<Rightarrow> bytes" where
  "segmentName d q = fmt_day d @ ''-'' @ pad_digits 4 q"

definition legacySegmentName :: "day \<Rightarrow> day \<Rightarrow> nat \<Rightarrow> bytes" where
  "legacySegmentName lo hi q = ''legacy-'' @ fmt_day lo @ ''-to-'' @ fmt_day hi @ ''-'' @ pad_digits 4 q"

section \<open>Segments\<close>

record receipt =
  rc_Segment :: bytes
  rc_Bytes :: int
  rc_SHA256 :: bytes
  rc_Destination :: bytes
  rc_RemoteChecksum :: bytes
  rc_VerifiedAtMs :: int

record segment =
  sg_Name :: bytes
  sg_FirstDay :: day
  sg_LastDay :: day
  sg_Seq :: nat
  sg_Legacy :: bool
  sg_Compressed :: bool
  sg_Path :: bytes
  sg_Bytes :: nat
  sg_Receipt :: "receipt option"
  sg_Retired :: bool

definition named_segment :: "bytes \<Rightarrow> day \<Rightarrow> day \<Rightarrow> nat \<Rightarrow> bool \<Rightarrow> segment" where
  "named_segment base lo hi q legacy =
     \<lparr>sg_Name = base, sg_FirstDay = lo, sg_LastDay = hi, sg_Seq = q, sg_Legacy = legacy,
      sg_Compressed = False, sg_Path = [], sg_Bytes = 0, sg_Receipt = None, sg_Retired = False\<rparr>"

definition parseSegmentName :: "bytes \<Rightarrow> segment option" where
  "parseSegmentName base =
     (case cut_prefix ''legacy-'' base of
        Some rest \<Rightarrow>
          (case cutDay rest of
             None \<Rightarrow> None
           | Some (lo, tail) \<Rightarrow>
               (case cut_prefix ''-to-'' tail of
                  None \<Rightarrow> None
                | Some tail1 \<Rightarrow>
                    (case cutDay tail1 of
                       None \<Rightarrow> None
                     | Some (hi, tail2) \<Rightarrow>
                         (case cutSeq tail2 of
                            None \<Rightarrow> None
                          | Some q \<Rightarrow> if hi < lo then None
                              else Some (named_segment base lo hi q True)))))
      | None \<Rightarrow>
          (case cutDay base of
             None \<Rightarrow> None
           | Some (d, tail) \<Rightarrow>
               (case cutSeq tail of None \<Rightarrow> None | Some q \<Rightarrow> Some (named_segment base d d q False))))"

text \<open>\<open>End\<close>, in milliseconds, and \<open>FileName\<close>.\<close>

definition segment_End :: "segment \<Rightarrow> day" where
  "segment_End s = sg_LastDay s + 1"

definition segment_FileName :: "segment \<Rightarrow> bytes" where
  "segment_FileName s =
     (if sg_Retired s then [] else if sg_Compressed s then sg_Name s @ ''.jsonl.gz'' else sg_Name s @ ''.jsonl'')"

fun bytes_less :: "bytes \<Rightarrow> bytes \<Rightarrow> bool" where
  "bytes_less xs [] = False"
| "bytes_less [] (y # ys) = True"
| "bytes_less (x # xs) (y # ys) = (byte x < byte y \<or> (byte x = byte y \<and> bytes_less xs ys))"

definition segmentOrder :: "segment \<Rightarrow> segment \<Rightarrow> bool" where
  "segmentOrder a b =
     (if sg_FirstDay a \<noteq> sg_FirstDay b then sg_FirstDay a < sg_FirstDay b
      else if sg_Seq a \<noteq> sg_Seq b then sg_Seq a < sg_Seq b
      else bytes_less (sg_Name a) (sg_Name b))"

fun insert_by :: "('a \<Rightarrow> 'a \<Rightarrow> bool) \<Rightarrow> 'a \<Rightarrow> 'a list \<Rightarrow> 'a list" where
  "insert_by before x [] = [x]"
| "insert_by before x (y # ys) = (if before y x then y # insert_by before x ys else x # y # ys)"

definition sort_by :: "('a \<Rightarrow> 'a \<Rightarrow> bool) \<Rightarrow> 'a list \<Rightarrow> 'a list" where
  "sort_by before xs = foldr (insert_by before) xs []"

definition sortSegments :: "segment list \<Rightarrow> segment list" where
  "sortSegments = sort_by segmentOrder"

section \<open>Round trips\<close>

definition day_ok :: "day \<Rightarrow> bool" where
  "day_ok d = (0 \<le> d \<and> d < 2932897)"

lemma day_ok_ms: "0 < ms \<Longrightarrow> ms < 253402300800000 \<Longrightarrow> day_ok (dayOfMs ms)"
  using div_mult_mod_eq [of ms 86400000] pos_mod_sign [of 86400000 ms]
  by (simp add: day_ok_def dayOfMs_def day_ms_def pos_imp_zdiv_nonneg_iff)

lemma new_year_mono: "x \<le> y \<Longrightarrow> new_year x \<le> new_year y"
proof (induction "nat (y - x)" arbitrary: y)
  case (Suc n)
  then have "new_year x \<le> new_year (y - 1)" by (intro Suc.hyps) simp_all
  also have "\<dots> \<le> new_year y" using new_year_next [of "y - 1"] year_days_pos [of "y - 1"] by simp
  finally show ?case .
qed simp

lemma month_days_bound: "m < 12 \<Longrightarrow> month_days y ! m < 32"
  by (auto simp: month_days_def less_Suc_eq numeral_eq_Suc)

lemma civil_bounds:
  assumes "day_ok d" "civil d = (y, m, n)"
  shows "nat y < 10000" "0 \<le> y" "m < 100" "nat n < 100" "0 \<le> n"
proof -
  have c: "1970 \<le> y" "1 \<le> m" "m \<le> 12" "1 \<le> n" "n \<le> month_days y ! (m - 1)" "new_year y \<le> d"
    using civil_day [OF _ assms(2)] assms(1) by (auto simp: day_ok_def)
  have "y < 10000"
  proof (rule ccontr)
    assume "\<not> y < 10000"
    then have "new_year 10000 \<le> d" using new_year_mono [of 10000 y] c(6) by simp
    then show False using assms(1) by (simp add: new_year_def day_ok_def)
  qed
  have "m - 1 < 12" using c by simp
  then have "month_days y ! (m - 1) < 32" by (rule month_days_bound)
  with c \<open>y < 10000\<close> show "nat y < 10000" "0 \<le> y" "m < 100" "nat n < 100" "0 \<le> n" by linarith+
qed

lemma fmt_day_length [simp]: "length (fmt_day d) = 10"
  by (simp add: fmt_day_def Let_def split: prod.splits)

lemma parse_fmt_day:
  assumes "day_ok d"
  shows "parse_day (fmt_day d) = Some d"
proof -
  obtain y m n where c: "civil d = (y, m, n)" by (metis prod_cases3)
  note b = civil_bounds [OF assms c]
  have f: "fmt_day d = pad_digits 4 (nat y) @ CHR ''-'' # pad_digits 2 m @ CHR ''-'' # pad_digits 2 (nat n)"
    by (simp add: fmt_day_def c)
  have t: "take 4 (fmt_day d) = pad_digits 4 (nat y)" "drop 5 (fmt_day d) = pad_digits 2 m @ CHR ''-'' # pad_digits 2 (nat n)"
    "drop 8 (fmt_day d) = pad_digits 2 (nat n)" "fmt_day d ! 4 = CHR ''-''" "fmt_day d ! 7 = CHR ''-''"
    unfolding f by (simp_all add: nth_append del: pad_digits.simps)
  have v: "dec_value 0 (pad_digits 4 (nat y)) = Some (nat y)" "dec_value 0 (pad_digits 2 m) = Some m"
    "dec_value 0 (pad_digits 2 (nat n)) = Some (nat n)"
    using b by (simp_all add: dec_value_pad del: pad_digits.simps)
  have "take 2 (drop 5 (fmt_day d)) = pad_digits 2 m" unfolding t(2) by (simp del: pad_digits.simps)
  moreover have "1 \<le> n" using civil_day [OF _ c] assms by (simp add: day_ok_def)
  then have "1 \<le> nat n" by linarith
  ultimately show ?thesis using t v b civil_day [OF _ c] assms
    by (simp add: parse_day_def day_ok_def del: pad_digits.simps)
qed

lemma cutDay_fmt: "day_ok d \<Longrightarrow> cutDay (fmt_day d @ s) = Some (d, s)"
  by (simp add: cutDay_def parse_fmt_day)

lemma pad_four: "pad_digits 4 k = digit (k div 10 ^ 3 mod 10) # pad_digits 3 k"
proof -
  have four: "(4 :: nat) = Suc 3" by simp
  show ?thesis unfolding four by (rule pad_digits_Cons)
qed

lemma cutSeq_pad:
  assumes "q < 10000"
  shows "cutSeq (''-'' @ pad_digits 4 q) = Some q"
proof -
  obtain c cs where c: "pad_digits 4 q = c # cs" "dec_digit c"
    unfolding pad_four by (simp del: pad_digits.simps)
  have "c \<noteq> CHR ''-''" "c \<noteq> CHR ''+''" using c(2) by (auto simp: dec_digit_def byte_def)
  with c(1) have "atoi (pad_digits 4 q) = map_option int (dec_value 0 (pad_digits 4 q))" by (simp add: atoi_def)
  with dec_value_pad [of q 4 0] assms show ?thesis
    by (simp add: cutSeq_def cut_prefix_def del: pad_digits.simps)
qed

lemma fmt_day_not_legacy: "cut_prefix ''legacy-'' (fmt_day d @ s) = None"
proof -
  obtain y m n where c: "civil d = (y, m, n)" by (metis prod_cases3)
  have "\<exists>v r. v < 10 \<and> fmt_day d @ s = digit v # r"
    by (rule exI [of _ "nat y div 10 ^ 3 mod 10"]) (simp add: fmt_day_def c pad_four del: pad_digits.simps)
  then obtain v r where "v < 10" "fmt_day d @ s = digit v # r" by blast
  moreover then have "digit v \<noteq> CHR ''l''" using byte_digit(1) [of v] by (auto simp: byte_def)
  ultimately show ?thesis by (simp add: cut_prefix_def)
qed

lemma parse_segmentName:
  assumes "day_ok d" "q < 10000"
  shows "parseSegmentName (segmentName d q) = Some (named_segment (segmentName d q) d d q False)"
  using assms by (simp add: parseSegmentName_def segmentName_def fmt_day_not_legacy cutDay_fmt cutSeq_pad [simplified]
      del: pad_digits.simps)

lemma parse_legacySegmentName:
  assumes "day_ok lo" "day_ok hi" "lo \<le> hi" "q < 10000"
  shows "parseSegmentName (legacySegmentName lo hi q) = Some (named_segment (legacySegmentName lo hi q) lo hi q True)"
proof -
  have "cut_prefix ''legacy-'' (''legacy-'' @ s) = Some s" "cut_prefix ''-to-'' (''-to-'' @ s) = Some s" for s
    by (simp_all add: cut_prefix_def)
  then have p: "cut_prefix ''legacy-'' (legacySegmentName lo hi q) = Some (fmt_day lo @ ''-to-'' @ fmt_day hi @ ''-'' @ pad_digits 4 q)"
    "cut_prefix ''-to-'' (''-to-'' @ fmt_day hi @ ''-'' @ pad_digits 4 q) = Some (fmt_day hi @ ''-'' @ pad_digits 4 q)"
    by (simp_all only: legacySegmentName_def)
  show ?thesis unfolding parseSegmentName_def p option.case cutDay_fmt [OF assms(1)] prod.case
      cutDay_fmt [OF assms(2)] cutSeq_pad [OF assms(4)] using assms(3) by simp
qed

lemma segmentName_inj:
  assumes "day_ok d" "day_ok e" "q < 10000" "r < 10000" "segmentName d q = segmentName e r"
  shows "d = e \<and> q = r"
proof -
  have "named_segment (segmentName e r) d d q False = named_segment (segmentName e r) e e r False"
    using parse_segmentName [OF assms(1,3)] unfolding assms(5) parse_segmentName [OF assms(2,4)] by simp
  then show ?thesis by (simp add: named_segment_def)
qed

section \<open>The order\<close>

lemma bytes_less_irrefl: "\<not> bytes_less x x"
  by (induction x) simp_all

lemma bytes_less_trans: "bytes_less x y \<Longrightarrow> bytes_less y z \<Longrightarrow> bytes_less x z"
proof (induction x y arbitrary: z rule: bytes_less.induct)
  case (3 a x b y)
  then show ?case by (cases z) auto
next
  case (2 y ys)
  then show ?case by (cases z) auto
qed simp

lemma bytes_less_total: "x \<noteq> y \<Longrightarrow> bytes_less x y \<or> bytes_less y x"
proof (induction x y rule: bytes_less.induct)
  case (1 xs)
  then show ?case by (cases xs) auto
next
  case (3 a x b y)
  moreover have "byte a = byte b \<Longrightarrow> a = b" by (simp add: byte_def)
  ultimately show ?case by (cases "byte a" "byte b" rule: linorder_cases) auto
qed simp

lemma segmentOrder_irrefl: "\<not> segmentOrder s s"
  by (simp add: segmentOrder_def bytes_less_irrefl)

lemma segmentOrder_trans: "segmentOrder x y \<Longrightarrow> segmentOrder y z \<Longrightarrow> segmentOrder x z"
  by (auto simp: segmentOrder_def intro: bytes_less_trans split: if_splits)

lemma segmentOrder_total: "sg_Name x \<noteq> sg_Name y \<Longrightarrow> segmentOrder x y \<or> segmentOrder y x"
  using bytes_less_total [of "sg_Name x" "sg_Name y"] by (auto simp: segmentOrder_def)

lemma insert_by_set [simp]: "set (insert_by before x xs) = insert x (set xs)"
  by (induction xs) auto

lemma insert_by_last: "\<forall>y \<in> set xs. before y x \<Longrightarrow> insert_by before x xs = xs @ [x]"
  by (induction xs) auto

lemma insert_by_mset: "mset (insert_by before x xs) = add_mset x (mset xs)"
  by (induction xs) auto

lemma sort_by_mset [simp]: "mset (sort_by before xs) = mset xs"
  by (induction xs) (simp_all add: sort_by_def insert_by_mset)

lemma sort_by_set [simp]: "set (sort_by before xs) = set xs"
  by (metis sort_by_mset set_mset_mset)

lemma insert_by_sorted:
  assumes "sorted_wrt before xs" "\<forall>y \<in> set xs. before x y \<or> before y x"
    and "\<And>a b c. before a b \<Longrightarrow> before b c \<Longrightarrow> before a c"
  shows "sorted_wrt before (insert_by before x xs)"
  using assms(1,2)
proof (induction xs)
  case (Cons y ys)
  then show ?case using assms(3) by auto
qed simp

end
