(* ===== verification/LedgerDir.thy ===== *)
theory LedgerDir imports LedgerName HopFeed JournalLog begin

text \<open>
  The closed segments of the archive's ledger on disk (\<open>segments.go\<close>, \<open>coldcopy.go\<close>): the reading of the
  segments directory, the reconciliation after a crash, the compression of a segment and its check, and
  the receipt that lets a segment leave the host.  \<open>encoding/json\<close>, \<open>compress/gzip\<close> and \<open>crypto/sha256\<close> are
  parameters; a gzip stream decompresses to bytes and a flag that is false when the stream breaks off.
  Disk outcomes are arguments; reading a directory or an existing file succeeds.
\<close>

record ledger_codec =
  lc_mar :: "ledger_record \<Rightarrow> bytes option"
  lc_unm :: "bytes \<Rightarrow> ledger_record option"
  lc_gzip :: "bytes \<Rightarrow> bytes"
  lc_gunzip :: "bytes \<Rightarrow> bytes \<times> bool"
  lc_sha :: "bytes \<Rightarrow> bytes"
  lc_receipt :: "bytes \<Rightarrow> receipt option"

datatype dir_entry = D_file bytes | D_dir

type_synonym files = "(bytes, dir_entry) gomap"

definition entry_bytes :: "files \<Rightarrow> bytes \<Rightarrow> bytes option" where
  "entry_bytes fs p = (case map_of fs p of Some (D_file b) \<Rightarrow> Some b | _ \<Rightarrow> None)"

definition plainSuffix :: bytes where "plainSuffix = ''.jsonl''"
definition gzSuffix :: bytes where "gzSuffix = ''.jsonl.gz''"
definition tmpSuffix :: bytes where "tmpSuffix = ''.tmp''"
definition receiptSuffix :: bytes where "receiptSuffix = ''.receipt''"
definition migratedMarkerName :: bytes where "migratedMarkerName = ''.migrated''"

lemmas suffix_defs = plainSuffix_def gzSuffix_def tmpSuffix_def receiptSuffix_def migratedMarkerName_def

section \<open>Reading the directory\<close>

datatype dir_kind =
  K_known | K_unknown | K_temp | K_receipt bytes | K_gz bytes segment | K_plain bytes segment

definition stored_size :: "dir_entry \<Rightarrow> nat" where
  "stored_size e = (case e of D_file b \<Rightarrow> length b | D_dir \<Rightarrow> 0)"

definition dir_kind_of :: "bytes \<Rightarrow> dir_entry \<Rightarrow> dir_kind" where
  "dir_kind_of name e =
     (if e = D_dir then K_unknown
      else if name = migratedMarkerName \<or> cut_prefix (migratedMarkerName @ ''.'') name \<noteq> None then K_known
      else if cut_suffix tmpSuffix name \<noteq> None then K_temp
      else (case cut_suffix (gzSuffix @ receiptSuffix) name of
              Some base \<Rightarrow> (case parseSegmentName base of None \<Rightarrow> K_unknown | Some s \<Rightarrow> K_receipt base)
            | None \<Rightarrow>
      (case cut_suffix gzSuffix name of
              Some base \<Rightarrow> (case parseSegmentName base of
                  None \<Rightarrow> K_unknown
                | Some s \<Rightarrow> K_gz base (s\<lparr>sg_Compressed := True, sg_Path := name, sg_Bytes := stored_size e\<rparr>))
            | None \<Rightarrow>
      (case cut_suffix plainSuffix name of
              Some base \<Rightarrow> (case parseSegmentName base of
                  None \<Rightarrow> K_unknown
                | Some s \<Rightarrow> K_plain base (s\<lparr>sg_Path := name, sg_Bytes := stored_size e\<rparr>))
            | None \<Rightarrow> K_unknown))))"

record segment_forms =
  fm_plain :: "segment option"
  fm_gz :: "segment option"
  fm_receipt :: bool

definition no_forms :: segment_forms where
  "no_forms = \<lparr>fm_plain = None, fm_gz = None, fm_receipt = False\<rparr>"

record dir_scan =
  ds_forms :: "(bytes, segment_forms) gomap"
  ds_temps :: "bytes list"
  ds_unknown :: "bytes list"

definition forms_at :: "bytes \<Rightarrow> dir_scan \<Rightarrow> segment_forms" where
  "forms_at n d = deref_or (map_of (ds_forms d) n) no_forms"

definition set_forms :: "bytes \<Rightarrow> segment_forms \<Rightarrow> dir_scan \<Rightarrow> dir_scan" where
  "set_forms n f d = d\<lparr>ds_forms := AList.update n f (ds_forms d)\<rparr>"

definition read_entry :: "bytes \<times> dir_entry \<Rightarrow> dir_scan \<Rightarrow> dir_scan" where
  "read_entry p d = (case p of (name, e) \<Rightarrow>
     (case dir_kind_of name e of
        K_known \<Rightarrow> d
      | K_unknown \<Rightarrow> d\<lparr>ds_unknown := ds_unknown d @ [name]\<rparr>
      | K_temp \<Rightarrow> d\<lparr>ds_temps := ds_temps d @ [name]\<rparr>
      | K_receipt n \<Rightarrow> set_forms n ((forms_at n d)\<lparr>fm_receipt := True\<rparr>) d
      | K_gz n s \<Rightarrow> set_forms n ((forms_at n d)\<lparr>fm_gz := Some s\<rparr>) d
      | K_plain n s \<Rightarrow> set_forms n ((forms_at n d)\<lparr>fm_plain := Some s\<rparr>) d))"

definition readReceipt :: "ledger_codec \<Rightarrow> files \<Rightarrow> bytes \<Rightarrow> receipt option" where
  "readReceipt c fs n =
     (case entry_bytes fs (n @ gzSuffix @ receiptSuffix) of None \<Rightarrow> None | Some b \<Rightarrow> lc_receipt c b)"

definition segment_of_forms :: "ledger_codec \<Rightarrow> files \<Rightarrow> bytes \<times> segment_forms \<Rightarrow> segment option" where
  "segment_of_forms c fs p = (case p of (n, f) \<Rightarrow>
     map_option (\<lambda>s. if fm_receipt f then s\<lparr>sg_Receipt := readReceipt c fs n\<rparr> else s)
       (case fm_plain f of
          Some s \<Rightarrow> Some s
        | None \<Rightarrow>
            (case fm_gz f of
               Some s \<Rightarrow> Some s
             | None \<Rightarrow> if fm_receipt f
                 then map_option (\<lambda>s. s\<lparr>sg_Retired := True, sg_Compressed := True\<rparr>) (parseSegmentName n)
                 else None)))"

record segment_dir =
  sd_Segments :: "segment list"
  sd_Temps :: "bytes list"
  sd_BothForms :: "bytes list"
  sd_Unknown :: "bytes list"

definition scan_dir :: "files \<Rightarrow> dir_scan" where
  "scan_dir fs = fold read_entry fs \<lparr>ds_forms = [], ds_temps = [], ds_unknown = []\<rparr>"

definition both_forms :: "segment_forms \<Rightarrow> bool" where
  "both_forms f = (fm_plain f \<noteq> None \<and> fm_gz f \<noteq> None)"

definition readSegmentDir :: "ledger_codec \<Rightarrow> files \<Rightarrow> segment_dir" where
  "readSegmentDir c fs =
     (let d = scan_dir fs in
      \<lparr>sd_Segments = sortSegments (List.map_filter (segment_of_forms c fs) (ds_forms d)),
       sd_Temps = sort_by bytes_less (ds_temps d),
       sd_BothForms = sort_by bytes_less (map fst (filter (\<lambda>(n, f). both_forms f) (ds_forms d))),
       sd_Unknown = sort_by bytes_less (ds_unknown d)\<rparr>)"

definition LedgerSegments :: "ledger_codec \<Rightarrow> files \<Rightarrow> segment list" where
  "LedgerSegments c fs = sd_Segments (readSegmentDir c fs)"

definition segmentsAreEstablished :: "ledger_codec \<Rightarrow> files \<Rightarrow> bool" where
  "segmentsAreEstablished c fs =
     (map_of fs migratedMarkerName \<noteq> None \<or> sd_Segments (readSegmentDir c fs) \<noteq> [])"

definition writeMigratedMarker :: "bool \<Rightarrow> files \<Rightarrow> bool \<times> files" where
  "writeMigratedMarker written fs =
     (if map_of fs migratedMarkerName \<noteq> None then (True, fs)
      else if written then (True, AList.update migratedMarkerName (D_file ''established'') fs)
      else (False, fs))"

section \<open>Digests\<close>

record segment_digest =
  dg_SHA256 :: bytes
  dg_Lines :: nat
  dg_Bytes :: nat

definition digestOf :: "ledger_codec \<Rightarrow> bytes \<Rightarrow> segment_digest" where
  "digestOf c b = \<lparr>dg_SHA256 = lc_sha c b, dg_Lines = length (filter (\<lambda>x. x = newline) b), dg_Bytes = length b\<rparr>"

definition digestOfGz :: "ledger_codec \<Rightarrow> bytes \<Rightarrow> segment_digest option" where
  "digestOfGz c b = (case lc_gunzip c b of (x, whole) \<Rightarrow> if whole then Some (digestOf c x) else None)"

definition gzMatchesPlain :: "ledger_codec \<Rightarrow> bytes option \<Rightarrow> bytes option \<Rightarrow> bool" where
  "gzMatchesPlain c gz plain =
     (case (gz, plain) of (Some g, Some p) \<Rightarrow> digestOfGz c g = Some (digestOf c p) | _ \<Rightarrow> False)"

section \<open>Reconciliation\<close>

record reconcile =
  rn_TempsRemoved :: nat
  rn_PlainRemoved :: nat
  rn_GzRemoved :: nat
  rn_Unknown :: "bytes list"

definition remove_file :: "(bytes \<Rightarrow> bool) \<Rightarrow> bytes \<Rightarrow> files \<Rightarrow> files" where
  "remove_file removes p fs = (if removes p then AList.delete p fs else fs)"

definition reconcile_both :: "ledger_codec \<Rightarrow> (bytes \<Rightarrow> bool) \<Rightarrow> bytes \<Rightarrow> files \<Rightarrow> files" where
  "reconcile_both c removes n fs =
     (if gzMatchesPlain c (entry_bytes fs (n @ gzSuffix)) (entry_bytes fs (n @ plainSuffix))
      then remove_file removes (n @ plainSuffix) fs
      else remove_file removes (n @ gzSuffix) fs)"

definition reconcileSegments :: "ledger_codec \<Rightarrow> (bytes \<Rightarrow> bool) \<Rightarrow> files \<Rightarrow> reconcile \<times> files" where
  "reconcileSegments c removes fs =
     (let st = readSegmentDir c fs;
          fs1 = fold (remove_file removes) (sd_Temps st) fs;
          fs2 = fold (reconcile_both c removes) (sd_BothForms st) fs1;
          good = (\<lambda>n. gzMatchesPlain c (entry_bytes fs (n @ gzSuffix)) (entry_bytes fs (n @ plainSuffix)))
      in (\<lparr>rn_TempsRemoved = length (filter removes (sd_Temps st)),
           rn_PlainRemoved = length (filter (\<lambda>n. good n \<and> removes (n @ plainSuffix)) (sd_BothForms st)),
           rn_GzRemoved = length (filter (\<lambda>n. \<not> good n \<and> removes (n @ gzSuffix)) (sd_BothForms st)),
           rn_Unknown = sd_Unknown st\<rparr>, fs2))"

section \<open>Compression\<close>

text \<open>What the disk answers: whether the temporary file opens, the bytes that end up in it, whether writing
  and closing it reported no error, and the later steps.\<close>

record compress_io =
  ci_open :: bool
  ci_stored :: bytes
  ci_written :: bool
  ci_undone :: bool
  ci_rename :: bool
  ci_syncdir :: bool
  ci_remove :: bool
  ci_syncdir2 :: bool

definition compressSegment :: "ledger_codec \<Rightarrow> compress_io \<Rightarrow> bytes \<Rightarrow> files \<Rightarrow> bool \<times> files" where
  "compressSegment c io n fs =
     (case entry_bytes fs (n @ plainSuffix) of
        None \<Rightarrow> (False, fs)
      | Some b \<Rightarrow>
          if \<not> ci_open io then (False, fs)
          else (let fs1 = AList.update (n @ gzSuffix @ tmpSuffix) (D_file (ci_stored io)) fs;
                    undone = remove_file (\<lambda>_. ci_undone io) (n @ gzSuffix @ tmpSuffix) fs1
                in if \<not> ci_written io then (False, undone)
                   else if digestOfGz c (ci_stored io) \<noteq> Some (digestOf c b) then (False, undone)
                   else if \<not> ci_rename io then (False, undone)
                   else (let fs2 = AList.update (n @ gzSuffix) (D_file (ci_stored io))
                                     (AList.delete (n @ gzSuffix @ tmpSuffix) fs1)
                         in if \<not> ci_syncdir io \<or> \<not> ci_remove io then (False, fs2)
                            else (ci_syncdir2 io, AList.delete (n @ plainSuffix) fs2))))"

text \<open>What a process killed between the steps leaves: a temporary file, or both forms.\<close>

definition killed_in_write :: "bytes \<Rightarrow> bytes \<Rightarrow> files \<Rightarrow> files" where
  "killed_in_write stored n fs = AList.update (n @ gzSuffix @ tmpSuffix) (D_file stored) fs"

definition killed_after_rename :: "ledger_codec \<Rightarrow> bytes \<Rightarrow> bytes \<Rightarrow> files \<Rightarrow> files" where
  "killed_after_rename c stored n fs =
     snd (compressSegment c \<lparr>ci_open = True, ci_stored = stored, ci_written = True, ci_undone = False,
       ci_rename = True, ci_syncdir = False, ci_remove = False, ci_syncdir2 = False\<rparr> n fs)"

section \<open>The receipt\<close>

datatype coldCopyVerdict = coldCopyOK | coldCopyMissing | coldCopyBad

definition ascii_lower :: "bytes \<Rightarrow> bytes" where
  "ascii_lower = map (\<lambda>c. if between 65 90 (byte c) then char_of (byte c + 32) else c)"

definition verifyColdCopyAt ::
  "ledger_codec \<Rightarrow> bytes option \<Rightarrow> bytes option \<Rightarrow> bytes \<Rightarrow> coldCopyVerdict"
where
  "verifyColdCopyAt c gz receipt wantName =
     (case receipt of
        None \<Rightarrow> coldCopyMissing
      | Some rb \<Rightarrow>
          (case lc_receipt c rb of
             None \<Rightarrow> coldCopyBad
           | Some r \<Rightarrow>
               if rc_Segment r \<noteq> wantName \<or> rc_VerifiedAtMs r \<le> 0 \<or> trim_space (rc_Destination r) = [] \<or>
                  trim_space (rc_RemoteChecksum r) = []
               then coldCopyBad
               else (case gz of
                       None \<Rightarrow> coldCopyBad
                     | Some b \<Rightarrow>
                         if rc_Bytes r \<noteq> int (length b) \<or>
                            ascii_lower (lc_sha c b) \<noteq> ascii_lower (rc_SHA256 r)
                         then coldCopyBad else coldCopyOK)))"

definition checkColdCopy :: "ledger_codec \<Rightarrow> files \<Rightarrow> segment \<Rightarrow> coldCopyVerdict" where
  "checkColdCopy c fs s =
     verifyColdCopyAt c (entry_bytes fs (sg_Path s)) (entry_bytes fs (sg_Name s @ gzSuffix @ receiptSuffix))
       (sg_Name s @ gzSuffix)"

text \<open>\<open>WriteReceipt\<close>: refused, or the file in place when the write and the rename succeed.\<close>

definition WriteReceipt :: "(receipt \<Rightarrow> bytes) \<Rightarrow> bool \<Rightarrow> receipt \<Rightarrow> files \<Rightarrow> bool \<times> files" where
  "WriteReceipt mar written r fs =
     (case cut_suffix gzSuffix (rc_Segment r) of
        None \<Rightarrow> (False, fs)
      | Some n \<Rightarrow>
          if parseSegmentName n = None \<or> rc_VerifiedAtMs r \<le> 0 then (False, fs)
          else if written then (True, AList.update (n @ gzSuffix @ receiptSuffix) (D_file (mar r @ [newline])) fs)
          else (False, fs))"

end
