(* ===== verification/Ledger.thy ===== *)
theory Ledger imports LedgerDir begin

text \<open>
  The live file of the ledger (\<open>store.go\<close>, and the upkeep of \<open>segments.go\<close>): opening with the repair of a torn
  tail and the one-time migration, the append with its rotation, closing a stale day, and the
  maintenance pass.  Every answer of the disk is a field of an \<open>io\<close> record.
\<close>

record ledger_disk =
  ld_live :: "bytes option"
  ld_files :: files

record ledger =
  lg_open :: bool
  lg_disk :: ledger_disk
  lg_repaired :: nat
  lg_day :: "day option"
  lg_firstMs :: int
  lg_rotations :: nat
  lg_rotatedName :: bytes
  lg_rotateErr :: bool
  lg_off :: int
  lg_migrated :: bytes
  lg_reconciled :: "reconcile option"

definition live_bytes :: "ledger \<Rightarrow> bytes" where
  "live_bytes l = deref_or (ld_live (lg_disk l)) []"

definition set_live :: "bytes option \<Rightarrow> ledger \<Rightarrow> ledger" where
  "set_live b l = l\<lparr>lg_disk := (lg_disk l)\<lparr>ld_live := b\<rparr>\<rparr>"

definition set_files :: "files \<Rightarrow> ledger \<Rightarrow> ledger" where
  "set_files fs l = l\<lparr>lg_disk := (lg_disk l)\<lparr>ld_files := fs\<rparr>\<rparr>"

abbreviation lg_files :: "ledger \<Rightarrow> files" where
  "lg_files l \<equiv> ld_files (lg_disk l)"

section \<open>Rotation\<close>

function free_seq :: "files \<Rightarrow> day \<Rightarrow> nat \<Rightarrow> nat option" where
  "free_seq fs d q =
     (if 10000 \<le> q then None
      else if map_of fs (segmentName d q @ plainSuffix) \<noteq> None \<or> map_of fs (segmentName d q @ gzSuffix) \<noteq> None
      then free_seq fs d (q + 1) else Some q)"
  by pat_completeness auto
termination by (relation "measure (\<lambda>(fs, d, q). 10000 - q)") auto

declare free_seq.simps [simp del]

definition freeSegmentName :: "files \<Rightarrow> day \<Rightarrow> bytes option" where
  "freeSegmentName fs d = map_option (segmentName d) (free_seq fs d 0)"

record rotate_io =
  ri_stat :: bool
  ri_mkdir :: bool
  ri_sync :: bool
  ri_close :: bool
  ri_rename :: bool
  ri_reopen :: bool
  ri_syncdir :: bool

definition fresh_day :: "ledger \<Rightarrow> ledger" where
  "fresh_day l = l\<lparr>lg_day := None, lg_firstMs := 0, lg_off := 0\<rparr>"

definition rotateLocked :: "rotate_io \<Rightarrow> day \<Rightarrow> ledger \<Rightarrow> bool \<times> ledger" where
  "rotateLocked io d l =
     (if \<not> lg_open l \<or> \<not> ri_stat io then (False, fresh_day l)
      else if live_bytes l = [] then (True, fresh_day l)
      else if \<not> ri_mkdir io then (False, l)
      else (case freeSegmentName (lg_files l) d of
              None \<Rightarrow> (False, l)
            | Some name \<Rightarrow>
                if \<not> ri_sync io then (False, l)
                else if \<not> ri_close io then (False, l\<lparr>lg_open := False\<rparr>)
                else if \<not> ri_rename io then (False, l\<lparr>lg_open := ri_reopen io\<rparr>)
                else (let l1 = set_live None (set_files
                            (AList.update (name @ plainSuffix) (D_file (live_bytes l)) (lg_files l)) l)
                      in if \<not> ri_reopen io then (False, l1\<lparr>lg_open := False\<rparr>)
                         else (let l2 = set_live (Some []) l1
                               in if \<not> ri_syncdir io then (False, l2)
                                  else (True, (fresh_day l2)\<lparr>lg_rotations := lg_rotations l2 + 1,
                                     lg_rotatedName := name, lg_rotateErr := False\<rparr>)))))"

definition maybeRotateLocked :: "rotate_io \<Rightarrow> int \<Rightarrow> ledger \<Rightarrow> ledger" where
  "maybeRotateLocked io recordedAt l =
     (case lg_day l of
        None \<Rightarrow> l
      | Some d \<Rightarrow>
          if recordedAt \<le> 0 \<or> dayOfMs recordedAt \<le> d then l
          else (case rotateLocked io d l of (ok, l1) \<Rightarrow> if ok then l1 else l1\<lparr>lg_rotateErr := True\<rparr>))"

text \<open>\<open>return l.rotatedName, l.rotateLocked(day)\<close>: the compiler reads the field after the call.\<close>

definition RotateNow :: "rotate_io \<Rightarrow> ledger \<Rightarrow> (bytes \<times> bool) \<times> ledger" where
  "RotateNow io l =
     (case lg_day l of
        None \<Rightarrow> (([], True), l)
      | Some d \<Rightarrow> (case rotateLocked io d l of (ok, l1) \<Rightarrow> ((lg_rotatedName l1, ok), l1)))"

definition rotateIfStale :: "rotate_io \<Rightarrow> day \<Rightarrow> ledger \<Rightarrow> (bytes \<times> bool) \<times> ledger" where
  "rotateIfStale io today l =
     (case lg_day l of
        None \<Rightarrow> (([], True), l)
      | Some d \<Rightarrow> if today \<le> d then (([], True), l) else RotateNow io l)"

section \<open>Append\<close>

text \<open>\<open>ai_short\<close>: \<open>Some n\<close> when the write fails after the first \<open>n\<close> bytes.\<close>

record append_io =
  ai_rotate :: rotate_io
  ai_stat :: bool
  ai_short :: "nat option"
  ai_truncate :: bool
  ai_sync :: bool

definition note_day :: "int \<Rightarrow> ledger \<Rightarrow> ledger" where
  "note_day ms l =
     (if ms \<le> 0 then l
      else l\<lparr>lg_day := (case lg_day l of None \<Rightarrow> Some (dayOfMs ms) | Some d \<Rightarrow> Some (max d (dayOfMs ms))),
             lg_firstMs := (if lg_firstMs l = 0 \<or> ms < lg_firstMs l then ms else lg_firstMs l)\<rparr>)"

text \<open>The offset past the record in the live file, the segment this append closed, and whether it succeeded.\<close>

definition AppendAt ::
  "ledger_codec \<Rightarrow> append_io \<Rightarrow> ledger_record \<Rightarrow> ledger \<Rightarrow> (int \<times> bytes \<times> bool) \<times> ledger"
where
  "AppendAt c io r l =
     (case lc_mar c r of
        None \<Rightarrow> ((0, [], False), l)
      | Some b0 \<Rightarrow>
          (let b = b0 @ [newline];
               l1 = maybeRotateLocked (ai_rotate io) (lr_RecordedAt r) l;
               rotated = (if lg_rotations l1 \<noteq> lg_rotations l then lg_rotatedName l1 else [])
           in if \<not> lg_open l1 then ((0, rotated, False), l1)
              else (case ai_short io of
                      Some n \<Rightarrow>
                        ((0, rotated, False),
                         if ai_stat io \<and> ai_truncate io then l1
                         else set_live (Some (live_bytes l1 @ take n b)) l1)
                    | None \<Rightarrow>
                        (let l2 = set_live (Some (live_bytes l1 @ b)) l1
                         in if \<not> ai_sync io then ((0, rotated, False), l2)
                            else (let l3 = (note_day (lr_RecordedAt r) l2)\<lparr>lg_off := lg_off l2 + int (length b)\<rparr>
                                  in ((lg_off l3, rotated, True), l3))))))"

definition ledgerClose :: "ledger \<Rightarrow> ledger" where
  "ledgerClose l = l\<lparr>lg_open := False\<rparr>"

section \<open>Opening\<close>

definition maxLedgerLine :: nat where
  "maxLedgerLine = MaxFrameBytes + 1048576"

fun last_newline :: "bytes \<Rightarrow> nat option" where
  "last_newline [] = None"
| "last_newline (x # xs) =
     (case last_newline xs of Some i \<Rightarrow> Some (Suc i) | None \<Rightarrow> if x = newline then Some 0 else None)"

text \<open>The loop of \<open>repairTornTail\<close> over chunks from the end: where to cut, or \<open>None\<close> for a refusal.\<close>

function repair_cut :: "bytes \<Rightarrow> nat \<Rightarrow> nat option" where
  "repair_cut bs pos =
     (if pos = 0 then Some 0
      else (let n = min 65536 pos; p = pos - n in
            case last_newline (take n (drop p bs)) of
              Some i \<Rightarrow> Some (p + i + 1)
            | None \<Rightarrow> if maxLedgerLine < length bs - p then None else repair_cut bs p))"
  by pat_completeness auto
termination by (relation "measure snd") auto

declare repair_cut.simps [simp del]

text \<open>Whether the repair succeeded, and the ledger it leaves: a failed sync comes after the truncation.\<close>

definition repairTornTail :: "bool \<Rightarrow> bool \<Rightarrow> ledger \<Rightarrow> bool \<times> ledger" where
  "repairTornTail truncated synced l =
     (let b = live_bytes l in
      case repair_cut b (length b) of
        None \<Rightarrow> (False, l)
      | Some e \<Rightarrow>
          if e = length b then (True, l)
          else if \<not> truncated then (False, l)
          else if \<not> synced then (False, set_live (Some (take e b)) l)
          else (True, set_live (Some (take e b)) (l\<lparr>lg_repaired := length b - e\<rparr>)))"

function completeLines_from :: "bytes \<Rightarrow> bytes list" where
  "completeLines_from b =
     (case dropWhile (\<lambda>x. x \<noteq> newline) b of
        [] \<Rightarrow> []
      | _ # rest \<Rightarrow> takeWhile (\<lambda>x. x \<noteq> newline) b # completeLines_from rest)"
  by pat_completeness auto
termination
proof (relation "measure length")
  fix b rest :: bytes and x
  assume "dropWhile (\<lambda>x. x \<noteq> newline) b = x # rest"
  then have "length (x # rest) \<le> length b" by (metis length_dropWhile_le)
  then show "(rest, b) \<in> measure length" by simp
qed simp

declare completeLines_from.simps [simp del]

definition completeLines :: "bytes \<Rightarrow> bool \<Rightarrow> bytes list" where
  "completeLines b keepFirst =
     (let out = completeLines_from b in if \<not> keepFirst \<and> out \<noteq> [] then tl out else out)"

definition recordedAtOf :: "ledger_codec \<Rightarrow> bytes \<Rightarrow> int option" where
  "recordedAtOf c line =
     (if line = [] then None
      else case lc_unm c line of
             None \<Rightarrow> None
           | Some r \<Rightarrow> if lr_RecordedAt r \<le> 0 then None else Some (lr_RecordedAt r))"

definition first_some :: "('a \<Rightarrow> 'b option) \<Rightarrow> 'a list \<Rightarrow> 'b option" where
  "first_some f xs = (case List.map_filter f xs of [] \<Rightarrow> None | y # _ \<Rightarrow> Some y)"

definition bounds_chunk :: nat where
  "bounds_chunk = 1048576"

definition ledgerDayBounds :: "ledger_codec \<Rightarrow> bytes \<Rightarrow> day \<Rightarrow> day \<times> day" where
  "ledgerDayBounds c b fallback =
     (let lo = (case first_some (recordedAtOf c) (completeLines (take bounds_chunk b) True) of
                     None \<Rightarrow> fallback | Some ms \<Rightarrow> dayOfMs ms);
          start = length b - bounds_chunk;
          hi = (case first_some (recordedAtOf c) (rev (completeLines (drop start b) (start = 0))) of
                    None \<Rightarrow> fallback | Some ms \<Rightarrow> dayOfMs ms)
      in (lo, if hi < lo then lo else hi))"

definition firstRecordedAt :: "ledger_codec \<Rightarrow> bytes \<Rightarrow> int option" where
  "firstRecordedAt c b = first_some (recordedAtOf c) (completeLines (take 65536 b) True)"

definition day_milli :: "day \<Rightarrow> int" where
  "day_milli d = d * day_ms"

definition readDay :: "ledger_codec \<Rightarrow> day \<Rightarrow> ledger \<Rightarrow> ledger" where
  "readDay c modified l =
     (if live_bytes l = [] then l
      else case ledgerDayBounds c (live_bytes l) modified of
             (lo, hi) \<Rightarrow> l\<lparr>lg_day := Some hi,
               lg_firstMs := (case firstRecordedAt c (live_bytes l) of Some ms \<Rightarrow> ms | None \<Rightarrow> day_milli lo)\<rparr>)"

text \<open>\<open>oi_rename\<close>: the sync, the close, the directory and the rename; the two syncs are those of the archive's directory.\<close>

record open_io =
  oi_repair :: bool
  oi_repair_sync :: bool
  oi_marker :: bool
  oi_rename :: bool
  oi_reopen :: bool
  oi_migrate_sync :: bool
  oi_open_sync :: bool
  oi_removes :: "bytes \<Rightarrow> bool"
  oi_modified :: day

definition migrateIfMonolithic :: "ledger_codec \<Rightarrow> open_io \<Rightarrow> ledger \<Rightarrow> bool \<times> ledger" where
  "migrateIfMonolithic c io l =
     (if segmentsAreEstablished c (lg_files l) \<or> live_bytes l = []
      then (case writeMigratedMarker (oi_marker io) (lg_files l) of (ok, fs) \<Rightarrow> (ok, set_files fs l))
      else (case ledgerDayBounds c (live_bytes l) (oi_modified io) of
              (lo, hi) \<Rightarrow>
                (let name = legacySegmentName lo hi 0 in
                 if \<not> oi_rename io then (False, l)
                 else (let l1 = set_live None (set_files
                             (AList.update (name @ plainSuffix) (D_file (live_bytes l)) (lg_files l)) l)
                       in if \<not> oi_reopen io then (False, l1)
                          else (let l2 = set_live (Some []) l1 in
                                case writeMigratedMarker (oi_marker io) (lg_files l2) of
                                  (ok, fs) \<Rightarrow> (ok \<and> oi_migrate_sync io, (set_files fs l2)\<lparr>lg_off := 0, lg_migrated := name\<rparr>))))))"

definition new_ledger :: "ledger_disk \<Rightarrow> ledger" where
  "new_ledger dk = \<lparr>lg_open = True, lg_disk = dk, lg_repaired = 0, lg_day = None, lg_firstMs = 0,
     lg_rotations = 0, lg_rotatedName = [], lg_rotateErr = False, lg_off = 0, lg_migrated = [],
     lg_reconciled = None\<rparr>"

text \<open>The opened ledger, or \<open>None\<close> for an error, and the disk it leaves.\<close>

definition OpenLedger :: "ledger_codec \<Rightarrow> open_io \<Rightarrow> ledger_disk \<Rightarrow> ledger option \<times> ledger_disk" where
  "OpenLedger c io dk =
     (let dk0 = dk\<lparr>ld_live := Some (deref_or (ld_live dk) [])\<rparr> in
      case repairTornTail (oi_repair io) (oi_repair_sync io) (new_ledger dk0) of
        (repaired, l) \<Rightarrow>
          if \<not> repaired then (None, lg_disk l)
          else
          (case migrateIfMonolithic c io l of
             (ok, l1) \<Rightarrow>
               if \<not> ok then (None, lg_disk l1)
               else (case reconcileSegments c (oi_removes io) (lg_files l1) of
                       (rec, fs) \<Rightarrow>
                         if \<not> oi_open_sync io then (None, lg_disk (set_files fs l1))
                         else (let l2 = readDay c (oi_modified io) (set_files fs (l1\<lparr>lg_reconciled := Some rec\<rparr>))
                          in (Some (l2\<lparr>lg_off := int (length (live_bytes l2))\<rparr>), lg_disk l2)))))"

section \<open>Upkeep\<close>

definition ledgerWindow :: "duration \<Rightarrow> duration \<Rightarrow> duration" where
  "ledgerWindow window horizon = (if window < 0 then 0 else if window > 0 then window else horizon)"

record upkeep_io =
  ui_rotate :: rotate_io
  ui_compress :: "bytes \<Rightarrow> compress_io"
  ui_removes :: "bytes \<Rightarrow> bool"

record upkeep =
  up_compressed :: nat
  up_retired :: nat
  up_awaiting :: nat
  up_bad :: nat

definition compress_pass :: "ledger_codec \<Rightarrow> upkeep_io \<Rightarrow> segment \<Rightarrow> nat \<times> files \<Rightarrow> nat \<times> files" where
  "compress_pass c io s p = (case p of (n, fs) \<Rightarrow>
     if sg_Retired s \<or> sg_Compressed s then (n, fs)
     else (case compressSegment c (ui_compress io (sg_Name s)) (sg_Name s) fs of
             (ok, fs1) \<Rightarrow> (if ok then n + 1 else n, fs1)))"

definition past_window :: "duration \<Rightarrow> time \<Rightarrow> segment \<Rightarrow> bool" where
  "past_window window now s =
     (0 < window \<and> window < now - time_of_milli (day_milli (segment_End s)))"

definition retire_pass ::
  "ledger_codec \<Rightarrow> upkeep_io \<Rightarrow> duration \<Rightarrow> time \<Rightarrow> segment \<Rightarrow> upkeep \<times> files \<Rightarrow> upkeep \<times> files"
where
  "retire_pass c io window now s p = (case p of (u, fs) \<Rightarrow>
     if sg_Retired s \<or> \<not> sg_Compressed s \<or> sg_Path s = [] \<or> \<not> past_window window now s then (u, fs)
     else (case checkColdCopy c fs s of
             coldCopyMissing \<Rightarrow> (u\<lparr>up_awaiting := up_awaiting u + 1\<rparr>, fs)
           | coldCopyBad \<Rightarrow> (u\<lparr>up_awaiting := up_awaiting u + 1, up_bad := up_bad u + 1\<rparr>, fs)
           | coldCopyOK \<Rightarrow>
               if \<not> ui_removes io (sg_Path s) then (u\<lparr>up_awaiting := up_awaiting u + 1\<rparr>, fs)
               else (u\<lparr>up_retired := up_retired u + 1\<rparr>, AList.delete (sg_Path s) fs)))"

definition ledgerMaintenancePass ::
  "ledger_codec \<Rightarrow> upkeep_io \<Rightarrow> bool \<Rightarrow> duration \<Rightarrow> time \<Rightarrow> ledger \<Rightarrow> upkeep \<times> ledger"
where
  "ledgerMaintenancePass c io disableCompression window now l =
     (let l1 = snd (rotateIfStale (ui_rotate io) (dayOfMs (unix_milli now)) l);
          st = readSegmentDir c (lg_files l1);
          (n, fs1) = (if disableCompression then (0, lg_files l1)
                      else fold (compress_pass c io) (sd_Segments st) (0, lg_files l1));
          st1 = (if 0 < n then readSegmentDir c fs1 else st);
          (u, fs2) = fold (retire_pass c io window now) (sd_Segments st1)
                       (\<lparr>up_compressed = n, up_retired = 0, up_awaiting = 0, up_bad = 0\<rparr>, fs1)
      in (u, set_files fs2 l1))"

end
