(* ===== verification/LedgerScan.thy ===== *)
theory LedgerScan imports Ledger begin

text \<open>
  The replay of the segmented ledger (\<open>store.go\<close>): the ordered run of files, one file's scan with its damage
  accounting, the scan resumed from a position and told apart by a floor, and the conversion of a
  record count into a position.
\<close>

section \<open>Sources\<close>

record ledger_source =
  sr_Name :: bytes
  sr_Path :: bytes
  sr_Compressed :: bool
  sr_Bytes :: nat
  sr_Live :: bool

definition ledgerSources :: "ledger_codec \<Rightarrow> ledger_disk \<Rightarrow> ledger_source list" where
  "ledgerSources c dk =
     map (\<lambda>s. \<lparr>sr_Name = sg_Name s, sr_Path = sg_Path s, sr_Compressed = sg_Compressed s,
            sr_Bytes = sg_Bytes s, sr_Live = False\<rparr>)
       (filter (\<lambda>s. \<not> sg_Retired s \<and> sg_Path s \<noteq> []) (LedgerSegments c (ld_files dk)))
     @ [\<lparr>sr_Name = [], sr_Path = [], sr_Compressed = False,
          sr_Bytes = length (deref_or (ld_live dk) []), sr_Live = True\<rparr>]"

definition LedgerSources :: "ledger_codec \<Rightarrow> ledger_disk \<Rightarrow> bytes list" where
  "LedgerSources c dk = map sr_Name (ledgerSources c dk)"

record ledger_pos =
  ps_Segment :: bytes
  ps_Offset :: nat
  ps_Record :: nat

definition start_pos :: ledger_pos where
  "start_pos = \<lparr>ps_Segment = [], ps_Offset = 0, ps_Record = 0\<rparr>"

definition IsStart :: "ledger_pos \<Rightarrow> bool" where
  "IsStart p = (ps_Segment p = [] \<and> ps_Offset p = 0 \<and> ps_Record p = 0)"

record ledger_damage =
  dm_Lines :: nat
  dm_Bytes :: nat
  dm_TornTail :: nat
  dm_Segments :: nat
  dm_SegmentBytes :: nat
  dm_SegmentReasons :: "bytes list"

definition no_damage :: ledger_damage where
  "no_damage = \<lparr>dm_Lines = 0, dm_Bytes = 0, dm_TornTail = 0, dm_Segments = 0, dm_SegmentBytes = 0, dm_SegmentReasons = []\<rparr>"

definition damage_any :: "ledger_damage \<Rightarrow> bool" where
  "damage_any d = (0 < dm_Lines d \<or> 0 < dm_Segments d)"

definition damage_add :: "ledger_damage \<Rightarrow> ledger_damage \<Rightarrow> ledger_damage" where
  "damage_add d e = \<lparr>dm_Lines = dm_Lines d + dm_Lines e, dm_Bytes = dm_Bytes d + dm_Bytes e,
     dm_TornTail = dm_TornTail d + dm_TornTail e, dm_Segments = dm_Segments d + dm_Segments e,
     dm_SegmentBytes = dm_SegmentBytes d + dm_SegmentBytes e,
     dm_SegmentReasons = dm_SegmentReasons d @ dm_SegmentReasons e\<rparr>"

definition damaged_line :: "nat \<Rightarrow> ledger_damage" where
  "damaged_line n = no_damage\<lparr>dm_Lines := 1, dm_Bytes := n\<rparr>"

definition segmentUnreadable :: "ledger_source \<Rightarrow> ledger_damage" where
  "segmentUnreadable s = no_damage\<lparr>dm_Segments := 1, dm_SegmentBytes := sr_Bytes s, dm_SegmentReasons := [sr_Name s]\<rparr>"

section \<open>One file\<close>

text \<open>What a scan hands over: the records with the position behind each and whether it lies past the floor.\<close>

type_synonym deliveries = "(ledger_record \<times> ledger_pos \<times> bool) list"

record scan_result =
  sc_out :: deliveries
  sc_damage :: ledger_damage
  sc_pos :: ledger_pos
  sc_failed :: bool

definition scan_stop :: "ledger_damage \<Rightarrow> ledger_pos \<Rightarrow> bool \<Rightarrow> scan_result" where
  "scan_stop d p failed = \<lparr>sc_out = [], sc_damage = d, sc_pos = p, sc_failed = failed\<rparr>"

definition scan_more :: "deliveries \<Rightarrow> ledger_damage \<Rightarrow> scan_result \<Rightarrow> scan_result" where
  "scan_more out d r = r\<lparr>sc_out := out @ sc_out r, sc_damage := damage_add d (sc_damage r)\<rparr>"

text \<open>The body of the loop on a line that counts: the new position, what is delivered and the damage.\<close>

definition take_line :: "ledger_codec \<Rightarrow> nat \<Rightarrow> bytes \<Rightarrow> ledger_pos \<Rightarrow> deliveries \<times> ledger_damage \<times> ledger_pos" where
  "take_line c pastFrom line p =
     (let p1 = p\<lparr>ps_Offset := ps_Offset p + length line + 1\<rparr>; past = pastFrom < ps_Offset p1 in
      case lc_unm c line of
        None \<Rightarrow> ([], if past then damaged_line (length line) else no_damage, p1)
      | Some r \<Rightarrow> (let p2 = p1\<lparr>ps_Record := ps_Record p1 + 1\<rparr> in ([(r, p2, past)], no_damage, p2)))"

text \<open>\<open>whole\<close>: whether the stream ends in \<open>io.EOF\<close> rather than in another error.\<close>

function scan_lines ::
  "ledger_codec \<Rightarrow> ledger_source \<Rightarrow> bool \<Rightarrow> nat \<Rightarrow> nat \<Rightarrow> bytes \<Rightarrow> ledger_pos \<Rightarrow> scan_result"
where
  "scan_lines c s whole limit pastFrom bs p =
     (case readLine bs of
        Line_too_long \<Rightarrow>
          if sr_Live s then scan_stop no_damage p True else scan_stop (segmentUnreadable s) p False
      | Line_eof l \<Rightarrow>
          if whole then
            (if l = [] then scan_stop no_damage p False
             else if sr_Live s then scan_stop (no_damage\<lparr>dm_TornTail := length l\<rparr>) p False
             else scan_stop (if pastFrom \<le> ps_Offset p then damaged_line (length l) else no_damage) p False)
          else
            (case (if l = [] then ([], no_damage, p) else take_line c pastFrom l p) of
               (out, d, p1) \<Rightarrow>
                 if out \<noteq> [] \<and> 0 < limit \<and> limit \<le> ps_Record p1 then scan_more out d (scan_stop no_damage p1 False)
                 else if sr_Live s then scan_more out d (scan_stop no_damage p1 True)
                 else scan_more out d (scan_stop (segmentUnreadable s) p1 False))
      | Line_ok l rest \<Rightarrow>
          if l = [] then scan_lines c s whole limit pastFrom rest p
          else
            (case take_line c pastFrom l p of
               (out, d, p1) \<Rightarrow>
                 if out \<noteq> [] \<and> 0 < limit \<and> limit \<le> ps_Record p1
                 then scan_more out d (scan_stop no_damage p1 False)
                 else scan_more out d (scan_lines c s whole limit pastFrom rest p1)))"
  by pat_completeness auto
termination
  by (relation "measure (\<lambda>(c, s, whole, limit, pastFrom, bs, p). length bs)") (auto dest: readLine_shorter)

declare scan_lines.simps [simp del]

definition scanOneSource ::
  "ledger_codec \<Rightarrow> ledger_disk \<Rightarrow> ledger_source \<Rightarrow> nat \<Rightarrow> nat \<Rightarrow> nat \<Rightarrow> ledger_pos \<Rightarrow> scan_result"
where
  "scanOneSource c dk s skip limit pastFrom p =
     (case (if sr_Live s then ld_live dk else entry_bytes (ld_files dk) (sr_Path s)) of
        None \<Rightarrow> if sr_Live s then scan_stop no_damage p False else scan_stop (segmentUnreadable s) p False
      | Some b \<Rightarrow>
          if \<not> sr_Compressed s then scan_lines c s True limit pastFrom (drop skip b) p
          else (case lc_gunzip c b of
                  (x, whole) \<Rightarrow>
                    if length x < skip then scan_stop (segmentUnreadable s) p False
                    else scan_lines c s whole limit pastFrom (drop skip x) p))"

section \<open>The run of files\<close>

definition maxLedgerOffset :: nat where
  "maxLedgerOffset = 2 ^ 62 - 1"

fun index_of :: "bytes \<Rightarrow> ledger_source list \<Rightarrow> nat option" where
  "index_of n [] = None"
| "index_of n (s # ss) = (if sr_Name s = n then Some 0 else map_option Suc (index_of n ss))"

text \<open>The loop over the sources from index \<open>i\<close> on; the first one is entered at the offset of the position.\<close>

fun scan_run ::
  "ledger_codec \<Rightarrow> ledger_disk \<Rightarrow> nat \<Rightarrow> nat \<Rightarrow> nat \<Rightarrow> bool \<Rightarrow> ledger_source list \<Rightarrow> ledger_pos \<Rightarrow> scan_result"
where
  "scan_run c dk floorAt floorOffset i entering [] p = scan_stop no_damage p False"
| "scan_run c dk floorAt floorOffset i entering (s # ss) p =
     (let pastFrom = (if i < floorAt then maxLedgerOffset else if i = floorAt then floorOffset else 0);
          skip = (if entering then ps_Offset p else 0);
          r = scanOneSource c dk s skip 0 pastFrom (p\<lparr>ps_Segment := sr_Name s, ps_Offset := skip\<rparr>)
      in if sc_failed r then r
         else scan_more (sc_out r) (sc_damage r) (scan_run c dk floorAt floorOffset (i + 1) False ss (sc_pos r)))"

definition floor_index :: "ledger_source list \<Rightarrow> ledger_pos \<Rightarrow> nat" where
  "floor_index ss bound =
     (if IsStart bound then 0 else case index_of (ps_Segment bound) ss of Some i \<Rightarrow> i | None \<Rightarrow> length ss)"

text \<open>\<open>None\<close> is \<open>ErrPositionRetired\<close>.\<close>

definition scanLedgerFromFloor ::
  "ledger_codec \<Rightarrow> ledger_disk \<Rightarrow> ledger_pos \<Rightarrow> ledger_pos \<Rightarrow> scan_result option"
where
  "scanLedgerFromFloor c dk from_pos bound =
     (let ss = ledgerSources c dk in
      case (if IsStart from_pos then Some 0 else index_of (ps_Segment from_pos) ss) of
        None \<Rightarrow> None
      | Some i \<Rightarrow> Some (scan_run c dk (floor_index ss bound) (ps_Offset bound) i True (drop i ss) from_pos))"

definition ScanLedgerFrom :: "ledger_codec \<Rightarrow> ledger_disk \<Rightarrow> ledger_pos \<Rightarrow> scan_result option" where
  "ScanLedgerFrom c dk p = scanLedgerFromFloor c dk p p"

definition ReadLedger :: "ledger_codec \<Rightarrow> ledger_disk \<Rightarrow> ledger_record list \<times> ledger_damage \<times> bool" where
  "ReadLedger c dk = (case ScanLedgerFrom c dk start_pos of
      None \<Rightarrow> ([], no_damage, True)
    | Some r \<Rightarrow> (map fst (sc_out r), sc_damage r, sc_failed r))"

text \<open>\<open>LedgerPositionOfRecord\<close>: the position, and whether a read failed on the way.\<close>

fun position_of :: "ledger_codec \<Rightarrow> ledger_disk \<Rightarrow> nat \<Rightarrow> ledger_source list \<Rightarrow> ledger_pos \<Rightarrow> ledger_pos \<times> bool" where
  "position_of c dk n [] p = (p, False)"
| "position_of c dk n (s # ss) p =
     (let r = scanOneSource c dk s 0 n 0 (p\<lparr>ps_Segment := sr_Name s, ps_Offset := 0\<rparr>) in
      if sc_failed r then (sc_pos r, True)
      else if n \<le> ps_Record (sc_pos r) \<and> ps_Record p < ps_Record (sc_pos r) then (sc_pos r, False)
      else position_of c dk n ss (sc_pos r))"

definition LedgerPositionOfRecord :: "ledger_codec \<Rightarrow> ledger_disk \<Rightarrow> nat \<Rightarrow> ledger_pos \<times> bool" where
  "LedgerPositionOfRecord c dk n =
     (if n = 0 then (start_pos, False) else position_of c dk n (ledgerSources c dk) start_pos)"

definition ScanLedgerFromRecord :: "ledger_codec \<Rightarrow> ledger_disk \<Rightarrow> nat \<Rightarrow> (ledger_pos \<times> scan_result) option" where
  "ScanLedgerFromRecord c dk n =
     (case LedgerPositionOfRecord c dk n of
        (p, failed) \<Rightarrow> if failed then None else map_option (\<lambda>r. (p, r)) (ScanLedgerFrom c dk p))"

end
