(* ===== verification/LedgerDirProps.thy ===== *)
theory LedgerDirProps imports LedgerDir begin

text \<open>
  What the reading of the segments directory returns, in terms of the files in it: the forms of each
  name, and the ordered run of the segments present.
\<close>

section \<open>Names and suffixes\<close>

lemma cut_suffix_iff: "cut_suffix p s = Some b \<longleftrightarrow> s = b @ p"
proof
  assume "cut_suffix p s = Some b"
  then show "s = b @ p"
    by (auto simp: cut_suffix_def split: if_splits) (metis append_take_drop_id)
qed (simp add: cut_suffix_def)

lemma cut_suffix_append [simp]: "cut_suffix p (b @ p) = Some b"
  by (simp add: cut_suffix_iff)

lemma last_suffix: "p \<noteq> [] \<Longrightarrow> last (b @ p) = last p"
  by simp

lemma suffix_lasts [simp]:
  "last plainSuffix = CHR ''l''" "last gzSuffix = CHR ''z''" "last tmpSuffix = CHR ''p''" "last receiptSuffix = CHR ''t''"
  "plainSuffix \<noteq> []" "gzSuffix \<noteq> []" "tmpSuffix \<noteq> []" "receiptSuffix \<noteq> []"
  by (simp_all add: suffix_defs)

lemma suffix_other:
  assumes "p \<noteq> []" "q \<noteq> []" "last p \<noteq> last q"
  shows "a @ p \<noteq> b @ q" "cut_suffix p (b @ q) = None"
proof -
  show ne: "a @ p \<noteq> b @ q" for a using assms by (metis last_suffix)
  show "cut_suffix p (b @ q) = None" using ne by (cases "cut_suffix p (b @ q)") (auto simp: cut_suffix_iff)
qed

lemma suffixes_differ [simp]:
  "plainSuffix \<noteq> gzSuffix" "gzSuffix \<noteq> plainSuffix" "plainSuffix \<noteq> gzSuffix @ receiptSuffix"
  "gzSuffix @ receiptSuffix \<noteq> plainSuffix" "gzSuffix @ tmpSuffix \<noteq> plainSuffix" "plainSuffix \<noteq> gzSuffix @ tmpSuffix"
  "tmpSuffix \<noteq> receiptSuffix" "receiptSuffix \<noteq> tmpSuffix"
  by (simp_all add: suffix_defs)

lemma suffix_facts [simp]:
  "a @ plainSuffix \<noteq> b @ gzSuffix" "a @ gzSuffix \<noteq> b @ plainSuffix"
  "a @ plainSuffix \<noteq> b @ gzSuffix @ receiptSuffix" "a @ gzSuffix @ receiptSuffix \<noteq> b @ plainSuffix"
  "a @ gzSuffix \<noteq> b @ gzSuffix @ receiptSuffix" "a @ gzSuffix @ receiptSuffix \<noteq> b @ gzSuffix"
  "a @ gzSuffix @ tmpSuffix \<noteq> b @ plainSuffix" "a @ plainSuffix \<noteq> b @ gzSuffix @ tmpSuffix"
  "a @ gzSuffix @ tmpSuffix \<noteq> b @ gzSuffix" "a @ gzSuffix \<noteq> b @ gzSuffix @ tmpSuffix"
  "a @ gzSuffix @ tmpSuffix \<noteq> b @ gzSuffix @ receiptSuffix" "a @ gzSuffix @ receiptSuffix \<noteq> b @ gzSuffix @ tmpSuffix"
  by (simp_all add: suffix_other flip: append_assoc)

lemma cut_facts [simp]:
  "cut_suffix tmpSuffix (b @ plainSuffix) = None" "cut_suffix (gzSuffix @ receiptSuffix) (b @ plainSuffix) = None"
  "cut_suffix gzSuffix (b @ plainSuffix) = None" "cut_suffix tmpSuffix (b @ gzSuffix) = None"
  "cut_suffix (gzSuffix @ receiptSuffix) (b @ gzSuffix) = None" "cut_suffix tmpSuffix (b @ gzSuffix @ receiptSuffix) = None"
  by (simp_all add: suffix_other flip: append_assoc)

lemma parse_first:
  assumes "parseSegmentName n = Some s"
  shows "n \<noteq> []" "hd n \<noteq> CHR ''.''"
proof -
  have "\<exists>x xs. n = x # xs \<and> x \<noteq> CHR ''.''"
  proof (cases "cut_prefix ''legacy-'' n")
    case None
    then obtain d t where "cutDay n = Some (d, t)"
      using assms by (auto simp: parseSegmentName_def split: option.splits)
    then have "dec_value 0 (take 4 n) \<noteq> None" "10 \<le> length n"
      by (auto simp: cutDay_def parse_day_def split: if_splits option.splits)
    then obtain x xs where "n = x # xs" "dec_digit x" by (cases n) (auto simp: eval_nat_numeral split: if_splits)
    then show ?thesis by (auto simp: dec_digit_def byte_def)
  next
    case (Some r)
    then show ?thesis by (cases n) (auto simp: cut_prefix_def split: if_splits)
  qed
  then show "n \<noteq> []" "hd n \<noteq> CHR ''.''" by auto
qed

lemma not_marker:
  assumes "parseSegmentName n = Some s"
  shows "n @ p \<noteq> migratedMarkerName" "cut_prefix (migratedMarkerName @ ''.'') (n @ p) = None"
  using parse_first [OF assms] by (cases n; auto simp: migratedMarkerName_def cut_prefix_def)+

lemma parse_name: "parseSegmentName n = Some s \<Longrightarrow> sg_Name s = n \<and> \<not> sg_Retired s \<and> \<not> sg_Compressed s \<and> sg_Path s = []"
  by (auto simp: parseSegmentName_def named_segment_def split: option.splits if_splits)

section \<open>The forms of a name\<close>

definition plain_segment :: "bytes \<Rightarrow> bytes \<Rightarrow> segment \<Rightarrow> segment" where
  "plain_segment n b s = s\<lparr>sg_Path := n @ plainSuffix, sg_Bytes := length b\<rparr>"

definition gz_segment :: "bytes \<Rightarrow> bytes \<Rightarrow> segment \<Rightarrow> segment" where
  "gz_segment n b s = s\<lparr>sg_Compressed := True, sg_Path := n @ gzSuffix, sg_Bytes := length b\<rparr>"

definition forms_of :: "files \<Rightarrow> bytes \<Rightarrow> segment_forms" where
  "forms_of fs n =
     (case parseSegmentName n of
        None \<Rightarrow> no_forms
      | Some s \<Rightarrow>
          \<lparr>fm_plain = map_option (\<lambda>b. plain_segment n b s) (entry_bytes fs (n @ plainSuffix)),
           fm_gz = map_option (\<lambda>b. gz_segment n b s) (entry_bytes fs (n @ gzSuffix)),
           fm_receipt = (entry_bytes fs (n @ gzSuffix @ receiptSuffix) \<noteq> None)\<rparr>)"

lemma kind_plain: "parseSegmentName n = Some s \<Longrightarrow> dir_kind_of (n @ plainSuffix) (D_file b) = K_plain n (plain_segment n b s)"
  by (simp add: dir_kind_of_def not_marker plain_segment_def stored_size_def)

lemma kind_gz: "parseSegmentName n = Some s \<Longrightarrow> dir_kind_of (n @ gzSuffix) (D_file b) = K_gz n (gz_segment n b s)"
  by (simp add: dir_kind_of_def not_marker gz_segment_def stored_size_def)

lemma kind_receipt: "parseSegmentName n = Some s \<Longrightarrow> dir_kind_of (n @ gzSuffix @ receiptSuffix) (D_file b) = K_receipt n"
  using not_marker [of n s "gzSuffix @ receiptSuffix"] by (simp add: dir_kind_of_def)

lemma kind_cases:
  obtains (plain) n b s where "k = n @ plainSuffix" "e = D_file b" "parseSegmentName n = Some s"
      "dir_kind_of k e = K_plain n (plain_segment n b s)"
    | (gz) n b s where "k = n @ gzSuffix" "e = D_file b" "parseSegmentName n = Some s"
      "dir_kind_of k e = K_gz n (gz_segment n b s)"
    | (receipt) n b s where "k = n @ gzSuffix @ receiptSuffix" "e = D_file b" "parseSegmentName n = Some s"
      "dir_kind_of k e = K_receipt n"
    | (other) "dir_kind_of k e \<in> {K_known, K_unknown, K_temp}"
      "\<And>n p. p \<in> {plainSuffix, gzSuffix, gzSuffix @ receiptSuffix} \<Longrightarrow> parseSegmentName n \<noteq> None \<Longrightarrow>
         k = n @ p \<Longrightarrow> e = D_dir"
proof (cases "\<exists>n s b p. e = D_file b \<and> p \<in> {plainSuffix, gzSuffix, gzSuffix @ receiptSuffix} \<and>
    parseSegmentName n = Some s \<and> k = n @ p")
  case True
  then obtain n s b p where e: "e = D_file b" and p: "p \<in> {plainSuffix, gzSuffix, gzSuffix @ receiptSuffix}"
    and s: "parseSegmentName n = Some s" and k: "k = n @ p" by blast
  from p consider "p = plainSuffix" | "p = gzSuffix" | "p = gzSuffix @ receiptSuffix" by auto
  then show ?thesis
  proof cases
    case 1
    show ?thesis by (rule plain [OF _ e s]) (simp_all add: k 1 e kind_plain [OF s])
  next
    case 2
    show ?thesis by (rule gz [OF _ e s]) (simp_all add: k 2 e kind_gz [OF s])
  next
    case 3
    show ?thesis by (rule receipt [OF _ e s]) (simp_all add: k 3 e kind_receipt [OF s])
  qed
next
  case False
  have "dir_kind_of k e \<in> {K_known, K_unknown, K_temp}"
  proof (cases e)
    case (D_file b)
    have none: "parseSegmentName n = None"
      if "cut_suffix p k = Some n" "p \<in> {plainSuffix, gzSuffix, gzSuffix @ receiptSuffix}" for n p
    proof (rule ccontr)
      assume "parseSegmentName n \<noteq> None"
      then obtain s where "parseSegmentName n = Some s" by blast
      moreover have "k = n @ p" using that(1) by (simp add: cut_suffix_iff)
      ultimately show False using False D_file that(2) by blast
    qed
    have case_none: "(case cut_suffix p k of Some n \<Rightarrow> (case parseSegmentName n of None \<Rightarrow> K_unknown | Some s \<Rightarrow> f n s) | None \<Rightarrow> y) \<in> S"
      if "p \<in> {plainSuffix, gzSuffix, gzSuffix @ receiptSuffix}" "y \<in> S" "K_unknown \<in> S" for p f y S
      using none [OF _ that(1)] that(2,3) by (cases "cut_suffix p k") simp_all
    have "dir_kind_of k e \<in> S" if "K_known \<in> S" "K_unknown \<in> S" "K_temp \<in> S" for S
      unfolding D_file dir_kind_of_def by (simp add: case_none that)
    from this [of "{K_known, K_unknown, K_temp}"] show ?thesis by simp
  qed (simp add: dir_kind_of_def)
  moreover have "e = D_dir" if "p \<in> {plainSuffix, gzSuffix, gzSuffix @ receiptSuffix}" "parseSegmentName n \<noteq> None" "k = n @ p" for n p
    using False that by (cases e) blast+
  ultimately show ?thesis using other by blast
qed

lemma entry_bytes_snoc:
  "k \<notin> fst ` set fs \<Longrightarrow> entry_bytes (fs @ [(k, e)]) x =
     (if x = k then (case e of D_file b \<Rightarrow> Some b | D_dir \<Rightarrow> None) else entry_bytes fs x)"
  using map_of_eq_None_iff [of fs k] by (simp add: entry_bytes_def map_add_def split: option.split dir_entry.split)

lemma entry_bytes_absent: "k \<notin> fst ` set fs \<Longrightarrow> entry_bytes fs k = None"
  by (simp add: entry_bytes_def map_of_eq_None_iff [THEN iffD2])

lemma forms_of_snoc:
  assumes "k \<notin> fst ` set fs"
  shows "forms_of (fs @ [(k, e)]) n =
    (case dir_kind_of k e of
       K_plain m s \<Rightarrow> if n = m then (forms_of fs n)\<lparr>fm_plain := Some s\<rparr> else forms_of fs n
     | K_gz m s \<Rightarrow> if n = m then (forms_of fs n)\<lparr>fm_gz := Some s\<rparr> else forms_of fs n
     | K_receipt m \<Rightarrow> if n = m then (forms_of fs n)\<lparr>fm_receipt := True\<rparr> else forms_of fs n
     | _ \<Rightarrow> forms_of fs n)"
proof (cases k e rule: kind_cases)
  case other
  have "entry_bytes (fs @ [(k, e)]) (n @ p) = entry_bytes fs (n @ p)"
    if "p \<in> {plainSuffix, gzSuffix, gzSuffix @ receiptSuffix}" "parseSegmentName n \<noteq> None" for p
    using other(2) [OF that] entry_bytes_absent [OF assms] by (auto simp: entry_bytes_snoc [OF assms])
  then have "forms_of (fs @ [(k, e)]) n = forms_of fs n"
    by (auto simp: forms_of_def split: option.splits)
  with other(1) show ?thesis by auto
qed (use assms in \<open>auto simp: forms_of_def entry_bytes_snoc split: option.splits\<close>)

lemma scan_dir_snoc: "scan_dir (fs @ [p]) = read_entry p (scan_dir fs)"
  by (simp add: scan_dir_def)

lemma forms_of_empty [simp]: "forms_of [] n = no_forms"
  by (simp add: forms_of_def no_forms_def entry_bytes_def split: option.splits)

lemma some_form [simp]:
  "f\<lparr>fm_plain := Some s\<rparr> \<noteq> no_forms" "f\<lparr>fm_gz := Some s\<rparr> \<noteq> no_forms" "f\<lparr>fm_receipt := True\<rparr> \<noteq> no_forms"
  by (cases f; simp add: no_forms_def)+

lemma scan_dir_forms:
  assumes "map_ok fs"
  shows "map_ok (ds_forms (scan_dir fs)) \<and>
    map_of (ds_forms (scan_dir fs)) n = (if forms_of fs n = no_forms then None else Some (forms_of fs n))"
  using assms
proof (induction fs arbitrary: n rule: rev_induct)
  case Nil
  then show ?case by (simp add: scan_dir_def)
next
  case (snoc p fs)
  obtain k e where p: "p = (k, e)" by (cases p)
  have k: "k \<notin> fst ` set fs" and ok: "map_ok fs" using snoc.prems by (auto simp: map_ok_def p)
  note ih = snoc.IH [OF ok]
  have seen: "forms_at m (scan_dir fs) = forms_of fs m" for m using ih [of m] by (simp add: forms_at_def)
  have snoc: "ds_forms (read_entry p (scan_dir fs)) = (case dir_kind_of k e of
      K_plain m s \<Rightarrow> AList.update m ((forms_of fs m)\<lparr>fm_plain := Some s\<rparr>) (ds_forms (scan_dir fs))
    | K_gz m s \<Rightarrow> AList.update m ((forms_of fs m)\<lparr>fm_gz := Some s\<rparr>) (ds_forms (scan_dir fs))
    | K_receipt m \<Rightarrow> AList.update m ((forms_of fs m)\<lparr>fm_receipt := True\<rparr>) (ds_forms (scan_dir fs))
    | _ \<Rightarrow> ds_forms (scan_dir fs))"
    by (simp add: p read_entry_def set_forms_def seen split: dir_kind.split)
  show ?case using ih [of n] conjunct1 [OF ih]
    unfolding p scan_dir_snoc snoc [unfolded p] forms_of_snoc [OF k] by (cases "dir_kind_of k e") simp_all
qed

section \<open>The ordered run\<close>

lemma sorted_unique:
  assumes "sorted_wrt R xs" "sorted_wrt R ys" "set xs = set ys"
    and "\<And>x. \<not> R x x" "\<And>x y z. R x y \<Longrightarrow> R y z \<Longrightarrow> R x z"
  shows "xs = ys"
  using assms(1-3)
proof (induction xs arbitrary: ys)
  case (Cons x xs)
  then obtain y zs where ys: "ys = y # zs" by (cases ys) auto
  have "x = y"
  proof (rule ccontr)
    assume "x \<noteq> y"
    then have "x \<in> set zs" "y \<in> set xs" using Cons.prems(3) ys by auto
    then have "R y x" "R x y" using Cons.prems(1,2) ys by auto
    then show False using assms(4,5) by blast
  qed
  moreover have "x \<notin> set xs" "y \<notin> set zs" using Cons.prems(1,2) ys assms(4) by auto
  then have "set xs = set zs" using Cons.prems(3) ys \<open>x = y\<close> by auto
  then have "xs = zs" using Cons.prems(1,2) ys by (intro Cons.IH) auto
  ultimately show ?case using ys by simp
qed simp

definition present :: "files \<Rightarrow> bytes \<Rightarrow> bool" where
  "present fs n = (parseSegmentName n \<noteq> None \<and>
     (entry_bytes fs (n @ plainSuffix) \<noteq> None \<or> entry_bytes fs (n @ gzSuffix) \<noteq> None))"

definition name_before :: "bytes \<Rightarrow> bytes \<Rightarrow> bool" where
  "name_before m n = segmentOrder (the (parseSegmentName m)) (the (parseSegmentName n))"

definition seg_of :: "ledger_codec \<Rightarrow> files \<Rightarrow> bytes \<Rightarrow> segment option" where
  "seg_of c fs n = segment_of_forms c fs (n, forms_of fs n)"

definition segment_run :: "ledger_codec \<Rightarrow> files \<Rightarrow> bytes list" where
  "segment_run c fs = map sg_Name (filter (\<lambda>s. \<not> sg_Retired s \<and> sg_Path s \<noteq> []) (LedgerSegments c fs))"

text \<open>The entry of a present segment in the ordered run.\<close>

definition seg_entry :: "ledger_codec \<Rightarrow> files \<Rightarrow> bytes \<Rightarrow> segment" where
  "seg_entry c fs n =
     (let s = the (parseSegmentName n);
          t = (case entry_bytes fs (n @ plainSuffix) of
                 Some b \<Rightarrow> plain_segment n b s
               | None \<Rightarrow> gz_segment n (the (entry_bytes fs (n @ gzSuffix))) s)
      in if entry_bytes fs (n @ gzSuffix @ receiptSuffix) \<noteq> None then t\<lparr>sg_Receipt := readReceipt c fs n\<rparr> else t)"

lemma seg_of_present: "present fs n \<Longrightarrow> seg_of c fs n = Some (seg_entry c fs n)"
  by (auto simp: present_def seg_of_def segment_of_forms_def forms_of_def seg_entry_def Let_def split: option.splits)

lemma seg_of_absent:
  "\<not> present fs n \<Longrightarrow> seg_of c fs n = Some s \<Longrightarrow> sg_Retired s \<and> sg_Compressed s \<and> sg_Path s = [] \<and>
     sg_Name s = n \<and> name_before n n = name_before n n"
  using parse_name [of n] by (auto simp: present_def seg_of_def segment_of_forms_def forms_of_def no_forms_def
      split: option.splits if_splits)

lemma seg_entry_fields:
  assumes "present fs n"
  shows "sg_Name (seg_entry c fs n) = n" "\<not> sg_Retired (seg_entry c fs n)"
    "sg_Path (seg_entry c fs n) = (if entry_bytes fs (n @ plainSuffix) = None then n @ gzSuffix else n @ plainSuffix)"
    "sg_Compressed (seg_entry c fs n) \<longleftrightarrow> entry_bytes fs (n @ plainSuffix) = None"
    "sg_FirstDay (seg_entry c fs n) = sg_FirstDay (the (parseSegmentName n))"
    "sg_LastDay (seg_entry c fs n) = sg_LastDay (the (parseSegmentName n))"
    "sg_Seq (seg_entry c fs n) = sg_Seq (the (parseSegmentName n))"
  using assms parse_name [of n]
  by (auto simp: present_def seg_entry_def Let_def plain_segment_def gz_segment_def split: option.splits)

lemma seg_of_key:
  assumes "seg_of c fs n = Some s"
  shows "sg_Name s = n \<and> sg_FirstDay s = sg_FirstDay (the (parseSegmentName n)) \<and>
    sg_LastDay s = sg_LastDay (the (parseSegmentName n)) \<and> sg_Seq s = sg_Seq (the (parseSegmentName n))"
  using assms parse_name [of n]
  by (auto simp: seg_of_def segment_of_forms_def forms_of_def no_forms_def plain_segment_def gz_segment_def
      split: option.splits if_splits)

lemma forms_member:
  assumes "map_ok fs"
  shows "(n, f) \<in> set (ds_forms (scan_dir fs)) \<longleftrightarrow> f = forms_of fs n \<and> f \<noteq> no_forms"
  using scan_dir_forms [OF assms, of n] map_ok_map_of [of "ds_forms (scan_dir fs)" n f]
  by (auto split: if_splits)

lemma no_forms_segment: "segment_of_forms c fs (n, no_forms) = None"
  by (simp add: segment_of_forms_def no_forms_def)

lemma set_mapped: "set (List.map_filter g xs) = {y. \<exists>x \<in> set xs. g x = Some y}"
  by (force simp: map_filter_def)

lemma segments_set:
  assumes "map_ok fs"
  shows "set (LedgerSegments c fs) = {s. \<exists>n. seg_of c fs n = Some s}"
proof -
  have "set (LedgerSegments c fs) = {s. \<exists>p \<in> set (ds_forms (scan_dir fs)). segment_of_forms c fs p = Some s}"
    by (auto simp: LedgerSegments_def readSegmentDir_def Let_def sortSegments_def set_mapped)
  also have "\<dots> = {s. \<exists>n. seg_of c fs n = Some s}"
    using forms_member [OF assms] no_forms_segment by (fastforce simp: seg_of_def)
  finally show ?thesis .
qed

lemma sort_by_sorted:
  assumes "distinct (map f xs)" "\<And>a b c. before a b \<Longrightarrow> before b c \<Longrightarrow> before a c"
    and "\<And>a b. f a \<noteq> f b \<Longrightarrow> before a b \<or> before b a"
  shows "sorted_wrt before (sort_by before xs)"
  using assms(1)
proof (induction xs)
  case (Cons x xs)
  have "\<forall>y \<in> set (sort_by before xs). before x y \<or> before y x"
    using Cons.prems assms(3) by (auto simp: image_iff)
  with insert_by_sorted [OF _ this assms(2)] Cons show ?case by (simp add: sort_by_def)
qed (simp add: sort_by_def)

lemma segments_sorted:
  assumes "map_ok fs"
  shows "sorted_wrt segmentOrder (LedgerSegments c fs)"
proof -
  have "distinct (map sg_Name (List.map_filter (segment_of_forms c fs) fms))"
    if "distinct (map fst fms)" "\<And>n f s. (n, f) \<in> set fms \<Longrightarrow> segment_of_forms c fs (n, f) = Some s \<Longrightarrow> sg_Name s = n" for fms
    using that
  proof (induction fms)
    case (Cons p fms)
    obtain n f where p: "p = (n, f)" by (cases p)
    have "distinct (map sg_Name (List.map_filter (segment_of_forms c fs) fms))"
      using Cons.prems by (intro Cons.IH) auto
    moreover have "n \<notin> sg_Name ` set (List.map_filter (segment_of_forms c fs) fms)"
    proof
      assume "n \<in> sg_Name ` set (List.map_filter (segment_of_forms c fs) fms)"
      then obtain m g s where "(m, g) \<in> set fms" "segment_of_forms c fs (m, g) = Some s" "sg_Name s = n"
        by (auto simp: set_mapped)
      with Cons.prems p show False by (metis fst_conv image_eqI list.set_intros(2) list.simps(9) distinct.simps(2) set_map)
    qed
    ultimately show ?case using Cons.prems(2) [of n f] p by (auto simp: map_filter_simps split: option.split)
  qed (simp add: map_filter_simps)
  moreover have "sg_Name s = n" if "(n, f) \<in> set (ds_forms (scan_dir fs))" "segment_of_forms c fs (n, f) = Some s" for n f s
    using that forms_member [OF assms] seg_of_key by (simp add: seg_of_def)
  ultimately have "distinct (map sg_Name (List.map_filter (segment_of_forms c fs) (ds_forms (scan_dir fs))))"
    using scan_dir_forms [OF assms] by (simp add: map_ok_def)
  from sort_by_sorted [OF this segmentOrder_trans segmentOrder_total] show ?thesis
    by (simp add: LedgerSegments_def readSegmentDir_def Let_def sortSegments_def)
qed

lemma run_set:
  assumes "map_ok fs"
  shows "set (filter (\<lambda>s. \<not> sg_Retired s \<and> sg_Path s \<noteq> []) (LedgerSegments c fs)) = seg_entry c fs ` {n. present fs n}"
proof -
  have "s \<in> set (filter (\<lambda>s. \<not> sg_Retired s \<and> sg_Path s \<noteq> []) (LedgerSegments c fs)) \<longleftrightarrow>
      (\<exists>n. present fs n \<and> s = seg_entry c fs n)" (is "s \<in> set ?ss \<longleftrightarrow> _") for s
  proof
    assume "s \<in> set ?ss"
    then obtain n where n: "seg_of c fs n = Some s" "\<not> sg_Retired s" by (auto simp: segments_set [OF assms])
    then have "present fs n" using seg_of_absent by blast
    with n show "\<exists>n. present fs n \<and> s = seg_entry c fs n" by (auto simp: seg_of_present)
  next
    assume "\<exists>n. present fs n \<and> s = seg_entry c fs n"
    then obtain n where n: "present fs n" "s = seg_entry c fs n" by blast
    then have "s \<in> set (LedgerSegments c fs)" using segments_set [OF assms, of c] seg_of_present by blast
    moreover have "sg_Path s \<noteq> []" "\<not> sg_Retired s" using seg_entry_fields [OF n(1), of c] n(2) by simp_all
    ultimately show "s \<in> set ?ss" by simp
  qed
  then show ?thesis by blast
qed

lemma entry_order:
  assumes "present fs m" "present fs n"
  shows "segmentOrder (seg_entry c fs m) (seg_entry c fs n) = name_before m n"
proof -
  have "sg_Name (the (parseSegmentName k)) = k" if "present fs k" for k
    using that parse_name [of k] by (auto simp: present_def)
  with assms show ?thesis by (simp add: name_before_def segmentOrder_def seg_entry_fields)
qed

text \<open>The run is the strictly increasing list of the present names, whatever else lies in the directory.\<close>

lemma segment_run_ok:
  assumes "map_ok fs"
  shows "sorted_wrt name_before (segment_run c fs)" "set (segment_run c fs) = {n. present fs n}"
    "filter (\<lambda>s. \<not> sg_Retired s \<and> sg_Path s \<noteq> []) (LedgerSegments c fs) = map (seg_entry c fs) (segment_run c fs)"
proof -
  let ?ss = "filter (\<lambda>s. \<not> sg_Retired s \<and> sg_Path s \<noteq> []) (LedgerSegments c fs)"
  have ss: "s = seg_entry c fs (sg_Name s) \<and> present fs (sg_Name s)" if "s \<in> set ?ss" for s
  proof -
    obtain n where "present fs n" "s = seg_entry c fs n" using \<open>s \<in> set ?ss\<close> unfolding run_set [OF assms] by blast
    then show ?thesis by (simp add: seg_entry_fields(1))
  qed
  then show run: "?ss = map (seg_entry c fs) (segment_run c fs)"
    unfolding segment_run_def map_map by (intro map_idI [symmetric]) auto
  show "set (segment_run c fs) = {n. present fs n}"
    unfolding segment_run_def set_map run_set [OF assms] using seg_entry_fields(1) by (auto simp: image_image image_iff)
  have "sorted_wrt segmentOrder ?ss" by (rule sorted_wrt_filter [OF segments_sorted [OF assms]])
  then have "sorted_wrt (\<lambda>s t. name_before (sg_Name s) (sg_Name t)) ?ss"
    by (rule sorted_wrt_mono_rel [rotated]) (use ss entry_order in metis)
  then show "sorted_wrt name_before (segment_run c fs)" by (simp only: segment_run_def sorted_wrt_map)
qed

lemma name_before_order:
  "\<not> name_before m m" "name_before l m \<Longrightarrow> name_before m n \<Longrightarrow> name_before l n"
  unfolding name_before_def by (rule segmentOrder_irrefl) (rule segmentOrder_trans)

theorem segment_run_unique:
  assumes "map_ok fs" "sorted_wrt name_before ns" "set ns = {n. present fs n}"
  shows "segment_run c fs = ns"
  using segment_run_ok [OF assms(1), of c] assms(2,3)
  by (intro sorted_unique [where R = name_before]) (auto simp: name_before_order intro: name_before_order(2))

end
