(* ===== verification/LedgerScanProps.thy ===== *)
theory LedgerScanProps imports LedgerScan LedgerDirProps begin

text \<open>
  The replay as a walk over lines: what a file of whole lines delivers, what a run of files delivers, and
  the two facts the archive's restart rests on: the segmented replay is the replay of one file, and a
  replay resumed at a position delivers what the first one had left.
\<close>

section \<open>Lines\<close>

definition unlines :: "bytes list \<Rightarrow> bytes" where
  "unlines ls = concat (map (\<lambda>l. l @ [newline]) ls)"

lemma unlines_simps [simp]:
  "unlines [] = []" "unlines (l # ls) = l @ newline # unlines ls" "unlines (ls @ ms) = unlines ls @ unlines ms"
  by (simp_all add: unlines_def)

definition line_ok :: "bytes \<Rightarrow> bool" where
  "line_ok l = (newline \<notin> set l \<and> length l < maxLine)"

lemma split_line:
  assumes "newline \<notin> set l"
  shows "takeWhile (\<lambda>x. x \<noteq> newline) (l @ newline # r) = l" "dropWhile (\<lambda>x. x \<noteq> newline) (l @ newline # r) = newline # r"
  using assms by (auto intro!: takeWhile_append_stop)

lemma readLine_ok: "line_ok l \<Longrightarrow> readLine (l @ newline # r) = Line_ok l r"
  by (simp add: line_ok_def readLine_def split_line)

lemma no_newline:
  assumes "newline \<notin> set l"
  shows "takeWhile (\<lambda>x. x \<noteq> newline) l = l" "dropWhile (\<lambda>x. x \<noteq> newline) l = []"
  using assms by (auto simp: takeWhile_eq_all_conv)

lemma readLine_end: "newline \<notin> set l \<Longrightarrow> length l \<le> maxLine \<Longrightarrow> readLine l = Line_eof l"
  by (simp add: readLine_def no_newline)

lemma completeLines_unlines:
  assumes "\<forall>l \<in> set ls. newline \<notin> set l" "newline \<notin> set t"
  shows "completeLines_from (unlines ls @ t) = ls"
  using assms(1)
proof (induction ls)
  case Nil
  show ?case by (simp add: completeLines_from.simps no_newline [OF assms(2)])
next
  case (Cons l ls)
  then have l: "newline \<notin> set l" by simp
  show ?case by (subst completeLines_from.simps) (use Cons in \<open>simp add: split_line [OF l]\<close>)
qed

lemma unlines_completeLines:
  "b = [] \<or> last b = newline \<Longrightarrow> unlines (completeLines_from b) = b"
proof (induction b rule: completeLines_from.induct)
  case (1 b)
  show ?case
  proof (cases "dropWhile (\<lambda>x. x \<noteq> newline) b")
    case Nil
    then have "newline \<notin> set b" by auto
    with 1 have "b = []" by (cases "b = []") (auto dest: last_in_set)
    then show ?thesis by (simp add: completeLines_from.simps)
  next
    case (Cons x r)
    have x: "x = newline" using Cons hd_dropWhile [of "\<lambda>x. x \<noteq> newline" b] by auto
    have b: "takeWhile (\<lambda>x. x \<noteq> newline) b @ newline # r = b"
      using takeWhile_dropWhile_id [of "\<lambda>x. x \<noteq> newline" b] by (simp add: Cons x)
    have "last b = last (newline # r)" by (subst b [symmetric]) simp
    then have "r = [] \<or> last r = newline" using 1(2) Cons by (cases "r = []") auto
    with 1(1) [OF Cons] have "unlines (completeLines_from r) = r" .
    then show ?thesis using Cons b by (subst completeLines_from.simps) simp
  qed
qed

section \<open>Damage\<close>

lemma damage_add_simps [simp]:
  "damage_add no_damage d = d" "damage_add d no_damage = d"
  "damage_add (damage_add d e) f = damage_add d (damage_add e f)"
  by (cases d; simp add: damage_add_def no_damage_def)+

lemma scan_more_simps [simp]:
  "scan_more o1 d1 (scan_more o2 d2 r) = scan_more (o1 @ o2) (damage_add d1 d2) r"
  "sc_out (scan_more out d r) = out @ sc_out r" "sc_damage (scan_more out d r) = damage_add d (sc_damage r)"
  "sc_pos (scan_more out d r) = sc_pos r" "sc_failed (scan_more out d r) = sc_failed r" "scan_more [] no_damage r = r"
  by (simp_all add: scan_more_def)

lemma scan_stop_simps [simp]:
  "sc_out (scan_stop d p f) = []" "sc_damage (scan_stop d p f) = d" "sc_pos (scan_stop d p f) = p" "sc_failed (scan_stop d p f) = f"
  by (simp_all add: scan_stop_def)

section \<open>One file of whole lines\<close>

fun walk :: "ledger_codec \<Rightarrow> nat \<Rightarrow> bytes list \<Rightarrow> ledger_pos \<Rightarrow> deliveries \<times> ledger_damage \<times> ledger_pos" where
  "walk c pastFrom [] p = ([], no_damage, p)"
| "walk c pastFrom (l # ls) p =
     (if l = [] then walk c pastFrom ls p
      else case take_line c pastFrom l p of
             (out, d, p1) \<Rightarrow> case walk c pastFrom ls p1 of (out2, d2, p2) \<Rightarrow> (out @ out2, damage_add d d2, p2))"

lemma scan_lines_walk:
  assumes "\<forall>l \<in> set ls. line_ok l"
  shows "scan_lines c s whole 0 pastFrom (unlines ls @ y) p =
    (case walk c pastFrom ls p of (out, d, p1) \<Rightarrow> scan_more out d (scan_lines c s whole 0 pastFrom y p1))"
  using assms
proof (induction ls arbitrary: p)
  case (Cons l ls)
  then have "readLine ((l @ newline # unlines ls) @ y) = Line_ok l (unlines ls @ y)" by (simp add: readLine_ok)
  with Cons show ?case
    by (subst scan_lines.simps) (simp split: prod.split)
qed simp

lemma scan_lines_end: "scan_lines c s True limit pastFrom [] p = scan_stop no_damage p False"
  by (subst scan_lines.simps) (simp add: readLine_def)

lemma scan_lines_torn:
  assumes "newline \<notin> set t" "length t \<le> maxLine" "sr_Live s"
  shows "scan_lines c s True limit pastFrom t p = scan_stop (no_damage\<lparr>dm_TornTail := length t\<rparr>) p False"
  using assms by (subst scan_lines.simps) (auto simp: readLine_end no_damage_def)

lemma scan_whole:
  assumes "\<forall>l \<in> set ls. line_ok l"
  shows "scan_lines c s True 0 pastFrom (unlines ls) p =
    (case walk c pastFrom ls p of (out, d, p1) \<Rightarrow> scan_more out d (scan_stop no_damage p1 False))"
  using scan_lines_walk [OF assms, of c s True pastFrom "[]" p] by (simp add: scan_lines_end)

text \<open>The records of a list of lines, and the damage among them, when everything is new.\<close>

definition line_records :: "ledger_codec \<Rightarrow> bytes list \<Rightarrow> ledger_record list" where
  "line_records c ls = List.map_filter (lc_unm c) (filter (\<lambda>l. l \<noteq> []) ls)"

definition line_damage :: "ledger_codec \<Rightarrow> bytes list \<Rightarrow> ledger_damage" where
  "line_damage c ls = foldr (\<lambda>l. damage_add (if l \<noteq> [] \<and> lc_unm c l = None then damaged_line (length l) else no_damage)) ls no_damage"

lemma line_damage_append: "line_damage c (ls @ ms) = damage_add (line_damage c ls) (line_damage c ms)"
  by (induction ls) (simp_all add: line_damage_def)

lemma line_records_append: "line_records c (ls @ ms) = line_records c ls @ line_records c ms"
  by (simp add: line_records_def map_filter_def)

lemma walk_records:
  "map fst (fst (walk c 0 ls p)) = line_records c ls \<and> fst (snd (walk c 0 ls p)) = line_damage c ls"
proof (induction ls arbitrary: p)
  case (Cons l ls)
  obtain out d p1 where t: "take_line c 0 l p = (out, d, p1)" by (metis prod_cases3)
  obtain out2 d2 p2 where w: "walk c 0 ls p1 = (out2, d2, p2)" by (metis prod_cases3)
  have t': "map fst out = (case lc_unm c l of None \<Rightarrow> [] | Some r \<Rightarrow> [r])"
    "d = (if lc_unm c l = None then damaged_line (length l) else no_damage)"
    using t by (auto simp: take_line_def Let_def split: option.splits)
  show ?case using Cons.IH [of p] Cons.IH [of p1] t' w
    by (simp add: line_records_def line_damage_def map_filter_simps t split: option.split)
qed (simp_all add: line_records_def line_damage_def map_filter_simps)

text \<open>Positions do not matter to what a full scan of the live file reads.\<close>

lemma scan_pos_irrelevant:
  assumes "sr_Live s" "sr_Live t"
  shows "map fst (sc_out (scan_lines c s True 0 0 bs p)) = map fst (sc_out (scan_lines c t True 0 0 bs q)) \<and>
    sc_damage (scan_lines c s True 0 0 bs p) = sc_damage (scan_lines c t True 0 0 bs q) \<and>
    sc_failed (scan_lines c s True 0 0 bs p) = sc_failed (scan_lines c t True 0 0 bs q)"
proof (induction "length bs" arbitrary: bs p q rule: less_induct)
  case less
  show ?case
  proof (cases "readLine bs")
    case (Line_ok l r)
    note ih = less [OF readLine_shorter [OF Line_ok]]
    show ?thesis
    proof (cases "l = []")
      case True
      with ih [of p q] Line_ok show ?thesis
        by (subst (1 2 3 4 5 6) scan_lines.simps) simp
    next
      case False
      obtain o1 d1 p1 o2 d2 p2 where t: "take_line c 0 l p = (o1, d1, p1)" "take_line c 0 l q = (o2, d2, p2)"
        by (metis prod_cases3)
      then have "map fst o1 = map fst o2" "d1 = d2" by (auto simp: take_line_def Let_def split: option.splits)
      with ih [of p1 p2] Line_ok t False show ?thesis
        by (subst (1 2 3 4 5 6) scan_lines.simps) simp
    qed
  qed (use assms in \<open>subst (1 2 3 4 5 6) scan_lines.simps, simp\<close>)+
qed

section \<open>The run of files\<close>

definition closed_bytes :: "ledger_codec \<Rightarrow> files \<Rightarrow> bytes \<Rightarrow> (bytes \<times> bool) option" where
  "closed_bytes c fs n =
     (case entry_bytes fs (n @ plainSuffix) of
        Some b \<Rightarrow> Some (b, True)
      | None \<Rightarrow> map_option (lc_gunzip c) (entry_bytes fs (n @ gzSuffix)))"

definition source_of :: "ledger_codec \<Rightarrow> files \<Rightarrow> bytes \<Rightarrow> ledger_source" where
  "source_of c fs n = (let s = seg_entry c fs n in
     \<lparr>sr_Name = sg_Name s, sr_Path = sg_Path s, sr_Compressed = sg_Compressed s, sr_Bytes = sg_Bytes s, sr_Live = False\<rparr>)"

definition live_source :: "ledger_disk \<Rightarrow> ledger_source" where
  "live_source dk = \<lparr>sr_Name = [], sr_Path = [], sr_Compressed = False,
     sr_Bytes = length (deref_or (ld_live dk) []), sr_Live = True\<rparr>"

lemma sources_run:
  assumes "map_ok (ld_files dk)"
  shows "ledgerSources c dk = map (source_of c (ld_files dk)) (segment_run c (ld_files dk)) @ [live_source dk]"
  using segment_run_ok(3) [OF assms, of c]
  by (simp add: ledgerSources_def live_source_def source_of_def Let_def comp_def)

text \<open>What one file of the run holds: its name, its whole lines, and the bytes behind them in the live file.\<close>

definition serves :: "ledger_codec \<Rightarrow> ledger_disk \<Rightarrow> ledger_source \<Rightarrow> bytes \<Rightarrow> bytes list \<Rightarrow> nat \<Rightarrow> bool" where
  "serves c dk s n ls torn = (sr_Name s = n \<and>
     (\<forall>k \<le> length ls. \<forall>pastFrom p. scanOneSource c dk s (length (unlines (take k ls))) 0 pastFrom p =
        (case walk c pastFrom (drop k ls) p of
           (out, d, p1) \<Rightarrow> scan_more out d (scan_stop (no_damage\<lparr>dm_TornTail := torn\<rparr>) p1 False))))"

lemma no_torn [simp]: "no_damage\<lparr>dm_TornTail := 0\<rparr> = no_damage"
  by (simp add: no_damage_def)

lemma drop_unlines: "drop (length (unlines (take k ls))) (unlines ls @ t) = unlines (drop k ls) @ t"
  by (metis append_eq_conv_conj append_take_drop_id append.assoc unlines_simps(3))

lemma serves_closed:
  assumes "present (ld_files dk) n" "closed_bytes c (ld_files dk) n = Some (unlines ls, True)" "\<forall>l \<in> set ls. line_ok l"
  shows "serves c dk (source_of c (ld_files dk) n) n ls 0"
  unfolding serves_def
proof (intro conjI allI impI)
  show "sr_Name (source_of c (ld_files dk) n) = n" by (simp add: source_of_def Let_def seg_entry_fields [OF assms(1)])
  fix k pastFrom p assume "k \<le> length ls"
  have "\<forall>l \<in> set (drop k ls). line_ok l" using assms(3) by (meson in_set_dropD)
  note w = scan_whole [OF this, of c "source_of c (ld_files dk) n" pastFrom p]
  have "length (unlines (take k ls)) \<le> length (unlines ls)"
    by (metis append_take_drop_id length_append le_add1 unlines_simps(3))
  moreover have "drop (length (unlines (take k ls))) (unlines ls) = unlines (drop k ls)"
    using drop_unlines [of k ls "[]"] by simp
  ultimately show "scanOneSource c dk (source_of c (ld_files dk) n) (length (unlines (take k ls))) 0 pastFrom p =
      (case walk c pastFrom (drop k ls) p of
         (out, d, p1) \<Rightarrow> scan_more out d (scan_stop (no_damage\<lparr>dm_TornTail := 0\<rparr>) p1 False))"
    using assms(1,2) w
    by (auto simp: scanOneSource_def source_of_def Let_def seg_entry_fields closed_bytes_def present_def split: option.splits)
qed

lemma serves_live:
  assumes "deref_or (ld_live dk) [] = unlines ls @ t" "\<forall>l \<in> set ls. line_ok l" "newline \<notin> set t" "length t \<le> maxLine"
  shows "serves c dk (live_source dk) [] ls (length t)"
proof -
  have "scanOneSource c dk (live_source dk) (length (unlines (take k ls))) 0 pastFrom p =
      (case walk c pastFrom (drop k ls) p of
         (out, d, p1) \<Rightarrow> scan_more out d (scan_stop (no_damage\<lparr>dm_TornTail := length t\<rparr>) p1 False))"
    if "k \<le> length ls" for k pastFrom p
  proof (cases "ld_live dk")
    case None
    with assms(1) have "t = []" "ls = []" by (cases ls; simp)+
    with None show ?thesis by (simp add: scanOneSource_def live_source_def)
  next
    case (Some b)
    have l: "\<forall>l \<in> set (drop k ls). line_ok l" using assms(2) by (meson in_set_dropD)
    have "scanOneSource c dk (live_source dk) (length (unlines (take k ls))) 0 pastFrom p =
        scan_lines c (live_source dk) True 0 pastFrom (unlines (drop k ls) @ t) p"
      using assms(1) Some by (simp add: scanOneSource_def live_source_def drop_unlines del: drop_append)
    then show ?thesis unfolding scan_lines_walk [OF l]
      using scan_lines_torn [OF assms(3,4), of "live_source dk"] by (simp add: live_source_def)
  qed
  then show ?thesis by (simp add: serves_def live_source_def)
qed

text \<open>A run of files as a list of names, lines and torn bytes; \<open>k\<close> lines of the first are skipped.\<close>

fun run_out ::
  "ledger_codec \<Rightarrow> nat \<Rightarrow> nat \<Rightarrow> nat \<Rightarrow> nat \<Rightarrow> (bytes \<times> bytes list \<times> nat) list \<Rightarrow> ledger_pos \<Rightarrow> deliveries \<times> ledger_damage \<times> ledger_pos"
where
  "run_out c floorAt floorOffset i k [] p = ([], no_damage, p)"
| "run_out c floorAt floorOffset i k ((n, ls, torn) # xs) p =
     (let pastFrom = (if i < floorAt then maxLedgerOffset else if i = floorAt then floorOffset else 0) in
      case walk c pastFrom (drop k ls) (p\<lparr>ps_Segment := n, ps_Offset := length (unlines (take k ls))\<rparr>) of
        (out, d, p1) \<Rightarrow>
          case run_out c floorAt floorOffset (i + 1) 0 xs p1 of
            (out2, d2, p2) \<Rightarrow> (out @ out2, damage_add d (damage_add (no_damage\<lparr>dm_TornTail := torn\<rparr>) d2), p2))"

lemma scan_run_out:
  assumes "list_all2 (\<lambda>s (n, ls, torn). serves c dk s n ls torn) ss xs"
    and "entering \<Longrightarrow> xs \<noteq> [] \<Longrightarrow> ps_Offset p = length (unlines (take k (fst (snd (hd xs)))))"
    and "xs \<noteq> [] \<Longrightarrow> k \<le> length (fst (snd (hd xs)))" "\<not> entering \<Longrightarrow> k = 0"
  shows "scan_run c dk floorAt floorOffset i entering ss p =
    (case run_out c floorAt floorOffset i k xs p of (out, d, p1) \<Rightarrow> scan_more out d (scan_stop no_damage p1 False))"
  using assms
proof (induction ss xs arbitrary: i entering p k rule: list_all2_induct)
  case Nil
  then show ?case by simp
next
  case (Cons s ss x xs)
  obtain n ls torn where x: "x = (n, ls, torn)" by (metis prod_cases3)
  let ?pf = "if i < floorAt then maxLedgerOffset else if i = floorAt then floorOffset else 0"
  let ?p = "p\<lparr>ps_Segment := n, ps_Offset := length (unlines (take k ls))\<rparr>"
  obtain out d p1 where w: "walk c ?pf (drop k ls) ?p = (out, d, p1)" by (metis prod_cases3)
  have k: "k \<le> length ls" using Cons.prems(2) x by simp
  have skip: "(if entering then ps_Offset p else 0) = length (unlines (take k ls))"
    using Cons.prems x by (cases entering) simp_all
  have s: "sr_Name s = n" "scanOneSource c dk s (length (unlines (take k ls))) 0 ?pf ?p =
      scan_more out d (scan_stop (no_damage\<lparr>dm_TornTail := torn\<rparr>) p1 False)"
    using Cons.hyps(1) k w by (simp_all add: x serves_def)
  have "scan_run c dk floorAt floorOffset (i + 1) False ss p1 =
      (case run_out c floorAt floorOffset (i + 1) 0 xs p1 of (out, d, p1) \<Rightarrow> scan_more out d (scan_stop no_damage p1 False))"
    by (rule Cons.IH) simp_all
  then show ?case using w s skip by (simp add: x Let_def split: prod.split)
qed

end
