(* ===== verification/LedgerResume.thy ===== *)
theory LedgerResume imports LedgerScanProps begin

text \<open>
  The two claims about reading: splitting the ledger into segments changes nothing a replay reads, and a
  position handed out by one replay is where a later one goes on, without repeating or missing a record.
\<close>

section \<open>A disk that reads whole\<close>

text \<open>The lines of each closed segment, in order, then those of the live file; the rest of it is torn.\<close>

definition disk_lines :: "ledger_codec \<Rightarrow> ledger_disk \<Rightarrow> (bytes \<times> bytes list \<times> nat) list" where
  "disk_lines c dk =
     map (\<lambda>n. (n, completeLines_from (fst (the (closed_bytes c (ld_files dk) n))), 0)) (segment_run c (ld_files dk))
     @ [([], completeLines_from (deref_or (ld_live dk) []),
         length (deref_or (ld_live dk) []) - length (unlines (completeLines_from (deref_or (ld_live dk) []))))]"

definition segments_whole :: "ledger_codec \<Rightarrow> files \<Rightarrow> bool" where
  "segments_whole c fs = (map_ok fs \<and> (\<forall>n. present fs n \<longrightarrow>
     (\<exists>ls. closed_bytes c fs n = Some (unlines ls, True) \<and> (\<forall>l \<in> set ls. line_ok l))))"

definition live_readable :: "bytes \<Rightarrow> bool" where
  "live_readable b = (\<exists>ls t. b = unlines ls @ t \<and> (\<forall>l \<in> set ls. line_ok l) \<and> newline \<notin> set t \<and> length t \<le> maxLine)"

lemma line_ok_newline: "\<forall>l \<in> set ls. line_ok l \<Longrightarrow> \<forall>l \<in> set ls. newline \<notin> set l"
  by (simp add: line_ok_def)

lemma disk_serves:
  assumes "segments_whole c (ld_files dk)" "live_readable (deref_or (ld_live dk) [])"
  shows "list_all2 (\<lambda>s (n, ls, torn). serves c dk s n ls torn) (ledgerSources c dk) (disk_lines c dk)"
proof -
  have ok: "map_ok (ld_files dk)" using assms(1) by (simp add: segments_whole_def)
  obtain ls t where l: "deref_or (ld_live dk) [] = unlines ls @ t" "\<forall>l \<in> set ls. line_ok l" "newline \<notin> set t" "length t \<le> maxLine"
    using assms(2) by (auto simp: live_readable_def)
  have cl: "completeLines_from (unlines ls @ t) = ls" by (rule completeLines_unlines [OF line_ok_newline [OF l(2)] l(3)])
  have live: "serves c dk (live_source dk) [] ls (length t)" by (rule serves_live [OF l])
  have closed: "serves c dk (source_of c (ld_files dk) n) n
      (completeLines_from (fst (the (closed_bytes c (ld_files dk) n)))) 0" if "n \<in> set (segment_run c (ld_files dk))" for n
  proof -
    have p: "present (ld_files dk) n" using that segment_run_ok(2) [OF ok] by simp
    then obtain ms where m: "closed_bytes c (ld_files dk) n = Some (unlines ms, True)" "\<forall>l \<in> set ms. line_ok l"
      using assms(1) by (auto simp: segments_whole_def)
    have "completeLines_from (unlines ms @ []) = ms" by (rule completeLines_unlines [OF line_ok_newline [OF m(2)]]) simp
    with serves_closed [OF p m] show ?thesis by (simp add: m(1))
  qed
  show ?thesis unfolding sources_run [OF ok] disk_lines_def l(1) cl
    using live closed by (intro list_all2_appendI) (auto simp: list_all2_conv_all_nth)
qed

lemma scan_from_start:
  assumes "segments_whole c (ld_files dk)" "live_readable (deref_or (ld_live dk) [])"
  shows "scanLedgerFromFloor c dk start_pos bound =
    Some (case run_out c (floor_index (ledgerSources c dk) bound) (ps_Offset bound) 0 0 (disk_lines c dk) start_pos of
      (out, d, p1) \<Rightarrow> scan_more out d (scan_stop no_damage p1 False))"
  using scan_run_out [OF disk_serves [OF assms], of True start_pos 0 "floor_index (ledgerSources c dk) bound"
      "ps_Offset bound" 0]
  by (simp add: scanLedgerFromFloor_def Let_def IsStart_def start_pos_def)

section \<open>Segments are one file\<close>

definition ledger_bytes :: "ledger_codec \<Rightarrow> ledger_disk \<Rightarrow> bytes" where
  "ledger_bytes c dk = concat (map (\<lambda>n. fst (the (closed_bytes c (ld_files dk) n))) (segment_run c (ld_files dk)))
     @ deref_or (ld_live dk) []"

lemma run_out_records:
  "map fst (fst (run_out c 0 0 i 0 xs p)) = concat (map (\<lambda>(n, ls, torn). line_records c ls) xs) \<and>
   fst (snd (run_out c 0 0 i 0 xs p)) =
     foldr (\<lambda>(n, ls, torn) d. damage_add (line_damage c ls) (damage_add (no_damage\<lparr>dm_TornTail := torn\<rparr>) d)) xs no_damage"
proof (induction xs arbitrary: i p)
  case (Cons x xs)
  obtain n ls torn where x: "x = (n, ls, torn)" by (metis prod_cases3)
  let ?w = "walk c 0 ls (p\<lparr>ps_Segment := n, ps_Offset := 0\<rparr>)"
  obtain out d p1 where w: "?w = (out, d, p1)" by (metis prod_cases3)
  obtain out2 d2 p2 where r: "run_out c 0 0 (Suc i) 0 xs p1 = (out2, d2, p2)" by (metis prod_cases3)
  show ?case using walk_records [of c ls "p\<lparr>ps_Segment := n, ps_Offset := 0\<rparr>"] Cons.IH [of "Suc i" p1]
    by (simp add: x w r)
qed simp

lemma empty_run [simp]: "segment_run c [] = []"
proof -
  have "set (segment_run c []) = {n. present [] n}" by (rule segment_run_ok(2)) simp
  then show ?thesis by (simp add: present_def entry_bytes_def)
qed

lemma concat_unlines: "concat (map unlines lss) = unlines (concat lss)"
  by (induction lss) simp_all

lemma read_disk:
  assumes "segments_whole c (ld_files dk)" "live_readable (deref_or (ld_live dk) [])"
  shows "ReadLedger c dk = (line_records c (completeLines_from (ledger_bytes c dk)),
    damage_add (line_damage c (completeLines_from (ledger_bytes c dk)))
      (no_damage\<lparr>dm_TornTail := length (ledger_bytes c dk) - length (unlines (completeLines_from (ledger_bytes c dk)))\<rparr>),
    False)"
proof -
  let ?fs = "ld_files dk" and ?ns = "segment_run c (ld_files dk)"
  let ?ls = "\<lambda>n. completeLines_from (fst (the (closed_bytes c (ld_files dk) n)))"
  have ok: "map_ok ?fs" using assms(1) by (simp add: segments_whole_def)
  obtain ls t where l: "deref_or (ld_live dk) [] = unlines ls @ t" "\<forall>l \<in> set ls. line_ok l" "newline \<notin> set t"
    using assms(2) by (auto simp: live_readable_def)
  have cl: "completeLines_from (unlines ls @ t) = ls" by (rule completeLines_unlines [OF line_ok_newline [OF l(2)] l(3)])
  have closed: "fst (the (closed_bytes c ?fs n)) = unlines (?ls n) \<and> (\<forall>l \<in> set (?ls n). line_ok l)" if "n \<in> set ?ns" for n
  proof -
    have "present ?fs n" using that segment_run_ok(2) [OF ok] by simp
    then obtain ms where m: "closed_bytes c ?fs n = Some (unlines ms, True)" "\<forall>l \<in> set ms. line_ok l"
      using assms(1) by (auto simp: segments_whole_def)
    have "completeLines_from (unlines ms @ []) = ms" by (rule completeLines_unlines [OF line_ok_newline [OF m(2)]]) simp
    then show ?thesis using m by simp
  qed
  have bytes: "ledger_bytes c dk = unlines (concat (map ?ls ?ns) @ ls) @ t"
  proof -
    have "map (\<lambda>n. fst (the (closed_bytes c ?fs n))) ?ns = map unlines (map ?ls ?ns)"
      unfolding map_map by (rule map_cong [OF refl]) (use closed in auto)
    then show ?thesis by (simp only: ledger_bytes_def l(1) concat_unlines unlines_simps append_assoc)
  qed
  have "\<forall>l \<in> set (concat (map ?ls ?ns) @ ls). line_ok l" using closed l(2) by auto
  from completeLines_unlines [OF line_ok_newline [OF this] l(3)]
  have all: "completeLines_from (ledger_bytes c dk) = concat (map ?ls ?ns) @ ls" by (simp only: bytes)
  have torn: "length (ledger_bytes c dk) - length (unlines (concat (map ?ls ?ns) @ ls)) = length t" by (simp add: bytes)
  have dmg: "foldr (\<lambda>(n, ls, torn) d. damage_add (line_damage c ls) (damage_add (no_damage\<lparr>dm_TornTail := torn\<rparr>) d))
      (map (\<lambda>n. (n, ?ls n, 0)) ns @ [([], ls, length t)]) no_damage =
      damage_add (line_damage c (concat (map ?ls ns) @ ls)) (no_damage\<lparr>dm_TornTail := length t\<rparr>)" for ns
    by (induction ns) (simp_all add: line_damage_append)
  have recs: "concat (map (\<lambda>(n, ls, torn). line_records c ls) (map (\<lambda>n. (n, ?ls n, 0)) ns @ [([], ls, length t)])) =
      line_records c (concat (map ?ls ns) @ ls)" for ns
    by (induction ns) (simp_all add: line_records_append)
  have lines: "disk_lines c dk = map (\<lambda>n. (n, ?ls n, 0)) ?ns @ [([], ls, length t)]"
    by (simp add: disk_lines_def l(1) cl)
  obtain out d p where r: "run_out c 0 0 0 0 (disk_lines c dk) start_pos = (out, d, p)" by (metis prod_cases3)
  have "floor_index (ledgerSources c dk) start_pos = 0" by (simp add: floor_index_def IsStart_def start_pos_def)
  then have "ScanLedgerFrom c dk start_pos = Some (scan_more out d (scan_stop no_damage p False))"
    using scan_from_start [OF assms, of start_pos] r by (simp add: ScanLedgerFrom_def start_pos_def)
  moreover have "map fst out = line_records c (concat (map ?ls ?ns) @ ls)"
    "d = damage_add (line_damage c (concat (map ?ls ?ns) @ ls)) (no_damage\<lparr>dm_TornTail := length t\<rparr>)"
    using run_out_records [of c 0 "disk_lines c dk" start_pos] unfolding r unfolding lines recs dmg by simp_all
  ultimately show ?thesis unfolding all torn by (simp add: ReadLedger_def)
qed

text \<open>C14: THE SEGMENTED REPLAY IS THE REPLAY OF ONE FILE.  Whatever names, forms and leftovers lie in the
  segments directory, as long as each closed segment is readable and ends in a newline: a replay
  delivers the records, in the order, and counts the damaged lines and the torn tail that a replay of one
  file holding the segments' uncompressed bytes in their order and then the live file would.\<close>

theorem segmented_replay_is_monolithic:
  assumes "segments_whole c (ld_files dk)" "live_readable (deref_or (ld_live dk) [])"
  shows "ReadLedger c dk = ReadLedger c \<lparr>ld_live = Some (ledger_bytes c dk), ld_files = []\<rparr>"
proof -
  let ?one = "\<lparr>ld_live = Some (ledger_bytes c dk), ld_files = []\<rparr>"
  have ok: "map_ok (ld_files dk)" using assms(1) by (simp add: segments_whole_def)
  have "segments_whole c (ld_files ?one)" by (simp add: segments_whole_def present_def entry_bytes_def)
  moreover have "live_readable (ledger_bytes c dk)"
  proof -
    have "\<exists>ms. concat (map (\<lambda>n. fst (the (closed_bytes c (ld_files dk) n))) ns) = unlines ms \<and> (\<forall>l \<in> set ms. line_ok l)"
      if "set ns \<subseteq> {n. present (ld_files dk) n}" for ns using that
    proof (induction ns)
      case (Cons n ns)
      then obtain ms where "concat (map (\<lambda>n. fst (the (closed_bytes c (ld_files dk) n))) ns) = unlines ms"
        "\<forall>l \<in> set ms. line_ok l" by auto
      moreover obtain ls where "closed_bytes c (ld_files dk) n = Some (unlines ls, True)" "\<forall>l \<in> set ls. line_ok l"
        using assms(1) Cons.prems by (auto simp: segments_whole_def)
      ultimately show ?case by (intro exI [of _ "ls @ ms"]) auto
    qed (intro exI [of _ "[]"], simp)
    from this [of "segment_run c (ld_files dk)"] segment_run_ok(2) [OF ok, of c]
    obtain ms where "concat (map (\<lambda>n. fst (the (closed_bytes c (ld_files dk) n))) (segment_run c (ld_files dk))) = unlines ms"
      "\<forall>l \<in> set ms. line_ok l" by auto
    moreover obtain ls t where "deref_or (ld_live dk) [] = unlines ls @ t" "\<forall>l \<in> set ls. line_ok l" "newline \<notin> set t"
      "length t \<le> maxLine" using assms(2) by (auto simp: live_readable_def)
    ultimately show ?thesis unfolding live_readable_def ledger_bytes_def
      by (intro exI [of _ "ms @ ls"] exI [of _ t]) auto
  qed
  moreover have "ledger_bytes c ?one = ledger_bytes c dk" by (simp add: ledger_bytes_def [of c ?one])
  ultimately show ?thesis using read_disk [OF assms] read_disk [of c ?one] by simp
qed

section \<open>Resuming\<close>

lemma walk_append:
  "walk c pf (ls @ ms) p = (case walk c pf ls p of (o1, d1, p1) \<Rightarrow> case walk c pf ms p1 of (o2, d2, p2) \<Rightarrow>
     (o1 @ o2, damage_add d1 d2, p2))"
  by (induction ls arbitrary: p) (simp_all split: prod.split)

lemma walk_pos:
  assumes "[] \<notin> set ls" "walk c pf ls p = (out, d, p1)"
  shows "ps_Segment p1 = ps_Segment p \<and> ps_Offset p1 = ps_Offset p + length (unlines ls)"
  using assms
proof (induction ls arbitrary: p out d p1)
  case (Cons l ls)
  obtain o1 d1 q where t: "take_line c pf l p = (o1, d1, q)" by (metis prod_cases3)
  obtain o2 d2 q2 where w: "walk c pf ls q = (o2, d2, q2)" by (metis prod_cases3)
  have "ps_Segment q = ps_Segment p \<and> ps_Offset q = ps_Offset p + length l + 1"
    using t by (auto simp: take_line_def Let_def split: option.splits)
  moreover have "l \<noteq> []" "[] \<notin> set ls" using Cons.prems(1) by auto
  moreover then have "p1 = q2" using Cons.prems(2) t w by simp
  ultimately show ?case using Cons.IH [OF _ w] by simp
qed simp

text \<open>A walk from a delivered position is the rest of the walk that delivered it.\<close>

lemma walk_split:
  assumes "[] \<notin> set ls" "k < length (fst (walk c pf ls p))" "fst (walk c pf ls p) ! k = (r, q, f)"
  shows "\<exists>ls1 ls2. ls = ls1 @ ls2 \<and> snd (snd (walk c pf ls1 p)) = q \<and> length (fst (walk c pf ls1 p)) = Suc k"
  using assms
proof (induction ls arbitrary: p k)
  case (Cons l ls)
  obtain o1 d1 p1 where t: "take_line c pf l p = (o1, d1, p1)" by (metis prod_cases3)
  obtain o2 d2 p2 where w: "walk c pf ls p1 = (o2, d2, p2)" by (metis prod_cases3)
  have l: "l \<noteq> []" using Cons.prems(1) by auto
  consider (here) "k = 0" "o1 = [(r, q, f)]" "p1 = q" | (later) "length o1 \<le> k"
    using Cons.prems(2,3) t w l by (cases "lc_unm c l"; cases k) (auto simp: take_line_def Let_def)
  then show ?case
  proof cases
    case here
    then show ?thesis using t l by (intro exI [of _ "[l]"] exI [of _ ls]) simp
  next
    case later
    have "k - length o1 < length (fst (walk c pf ls p1))" "fst (walk c pf ls p1) ! (k - length o1) = (r, q, f)"
      using Cons.prems(2,3) t w l later by (auto simp: nth_append)
    from Cons.IH [OF _ this] Cons.prems(1) obtain ls1 ls2 where
      i: "ls = ls1 @ ls2" "snd (snd (walk c pf ls1 p1)) = q" "length (fst (walk c pf ls1 p1)) = Suc (k - length o1)" by auto
    then show ?thesis using t l later
      by (intro exI [of _ "l # ls1"] exI [of _ ls2]) (auto split: prod.splits)
  qed
qed simp

text \<open>The floor only marks: it moves no position and drops no record.\<close>

definition mark :: "nat \<Rightarrow> deliveries \<Rightarrow> deliveries" where
  "mark pf out = map (\<lambda>(r, q, f). (r, q, pf < ps_Offset q)) out"

lemma mark_simps [simp]: "mark pf [] = []" "mark pf (xs @ ys) = mark pf xs @ mark pf ys" "length (mark pf xs) = length xs"
  by (simp_all add: mark_def)

lemma walk_mark: "fst (walk c pf ls p) = mark pf (fst (walk c 0 ls p)) \<and> snd (snd (walk c pf ls p)) = snd (snd (walk c 0 ls p))"
proof (induction ls arbitrary: p)
  case (Cons l ls)
  obtain o1 d1 p1 where t: "take_line c 0 l p = (o1, d1, p1)" by (metis prod_cases3)
  obtain d2 where t2: "take_line c pf l p = (mark pf o1, d2, p1)"
    using t by (auto simp: take_line_def mark_def Let_def split: option.splits)
  obtain o3 d3 p3 where w: "walk c 0 ls p1 = (o3, d3, p3)" by (metis prod_cases3)
  obtain o4 d4 p4 where w2: "walk c pf ls p1 = (o4, d4, p4)" by (metis prod_cases3)
  from Cons.IH [of p1] Cons.IH [of p] show ?case by (simp add: t t2 w w2)
qed simp

lemma walk_offsets:
  assumes "(r, q, f) \<in> set (fst (walk c pf ls p))"
  shows "ps_Segment q = ps_Segment p \<and> ps_Offset p < ps_Offset q \<and> ps_Offset q \<le> ps_Offset p + length (unlines ls) \<and> f = (pf < ps_Offset q)
    \<and> 0 < ps_Record q"
  using assms
proof (induction ls arbitrary: p)
  case (Cons l ls)
  obtain o1 d1 p1 where t: "take_line c pf l p = (o1, d1, p1)" by (metis prod_cases3)
  have t': "ps_Segment p1 = ps_Segment p" "ps_Offset p1 = ps_Offset p + length l + 1"
      "\<And>r q f. (r, q, f) \<in> set o1 \<Longrightarrow> q = p1 \<and> f = (pf < ps_Offset q) \<and> 0 < ps_Record q"
    using t by (auto simp: take_line_def Let_def split: option.splits)
  from Cons.prems consider "l = []" "(r, q, f) \<in> set (fst (walk c pf ls p))"
    | "(r, q, f) \<in> set o1" | "(r, q, f) \<in> set (fst (walk c pf ls p1))"
    by (cases "l = []"; cases "walk c pf ls p1") (auto simp: t)
  then show ?case
  proof cases
    case 1
    then show ?thesis using Cons.IH [OF 1(2)] by simp
  next
    case 2
    from t'(3) [OF this] have "q = p1" "f = (pf < ps_Offset q)" "0 < ps_Record q" by blast+
    with t'(1,2) show ?thesis by simp
  next
    case 3
    then show ?thesis using Cons.IH [OF 3] t' by simp
  qed
qed simp

lemma run_out_past: "fa < i \<Longrightarrow> run_out c fa fo i 0 xs p = run_out c 0 0 j 0 xs p"
proof (induction xs arbitrary: i j p)
  case (Cons x xs)
  obtain n ls torn where x: "x = (n, ls, torn)" by (metis prod_cases3)
  from Cons.IH [of "Suc i" _ "Suc j"] Cons.prems show ?case by (simp add: x split: prod.split)
qed simp

lemma run_out_new: "(r, q, f) \<in> set (fst (run_out c 0 0 i 0 xs p)) \<Longrightarrow> f"
proof (induction xs arbitrary: i p)
  case (Cons x xs)
  obtain n ls torn where x: "x = (n, ls, torn)" by (metis prod_cases3)
  let ?p = "p\<lparr>ps_Segment := n, ps_Offset := 0\<rparr>"
  obtain out d p1 where w: "walk c 0 ls ?p = (out, d, p1)" by (metis prod_cases3)
  from Cons.prems consider "(r, q, f) \<in> set out" | "(r, q, f) \<in> set (fst (run_out c 0 0 (Suc i) 0 xs p1))"
    by (auto simp: x w split: prod.splits)
  then show ?case
  proof cases
    case 1
    then show ?thesis using walk_offsets [of r q f c 0 ls ?p] w by simp
  qed (rule Cons.IH)
qed simp

text \<open>Which of the delivered records are new to the caller.\<close>

definition new_flags :: "deliveries \<Rightarrow> bool list" where
  "new_flags out = map (\<lambda>(r, q, f). f) out"

lemma new_flags_simps [simp]: "new_flags [] = []" "new_flags (xs @ ys) = new_flags xs @ new_flags ys"
  by (simp_all add: new_flags_def)

lemma mark_flags:
  "\<forall>(r, q, f) \<in> set xs. ps_Offset q \<le> pf \<Longrightarrow> new_flags (mark pf xs) = replicate (length xs) False"
  "\<forall>(r, q, f) \<in> set xs. pf < ps_Offset q \<Longrightarrow> new_flags (mark pf xs) = replicate (length xs) True"
  "map fst (mark pf xs) = map fst xs"
  by (induction xs) (auto simp: mark_def new_flags_def)

lemma all_new: "\<forall>(r, q, f) \<in> set xs. f \<Longrightarrow> new_flags xs = replicate (length xs) True"
  by (induction xs) (auto simp: new_flags_def)

text \<open>Where a delivered position lies in the run, and what a floor there marks.\<close>

lemma run_out_split:
  assumes "\<forall>(n, ls, torn) \<in> set xs. [] \<notin> set ls \<and> length (unlines ls) \<le> maxLedgerOffset"
    and "k < length (fst (run_out c 0 0 i 0 xs p))" "fst (run_out c 0 0 i 0 xs p) ! k = (r, q, f)"
  shows "\<exists>j n ls1 ls2 torn. j < length xs \<and> xs ! j = (n, ls1 @ ls2, torn) \<and> 0 < ps_Record q \<and>
    ps_Segment q = n \<and> ps_Offset q = length (unlines ls1) \<and>
    drop (Suc k) (fst (run_out c 0 0 i 0 xs p)) =
      fst (walk c 0 ls2 q) @ fst (run_out c 0 0 0 0 (drop (Suc j) xs) (snd (snd (walk c 0 ls2 q)))) \<and>
    new_flags (fst (run_out c (i + j) (ps_Offset q) i 0 xs p)) =
      replicate (Suc k) False @ replicate (length (fst (run_out c 0 0 i 0 xs p)) - Suc k) True \<and>
    map fst (fst (run_out c (i + j) (ps_Offset q) i 0 xs p)) = map fst (fst (run_out c 0 0 i 0 xs p))"
  using assms
proof (induction xs arbitrary: i k p)
  case (Cons x xs)
  obtain n ls torn where x: "x = (n, ls, torn)" by (metis prod_cases3)
  let ?p = "p\<lparr>ps_Segment := n, ps_Offset := 0\<rparr>"
  obtain out d p1 where w: "walk c 0 ls ?p = (out, d, p1)" by (metis prod_cases3)
  let ?rest = "fst (run_out c 0 0 (Suc i) 0 xs p1)"
  have all: "fst (run_out c 0 0 i 0 (x # xs) p) = out @ ?rest" by (simp add: x w split: prod.split)
  have ls: "[] \<notin> set ls" "length (unlines ls) \<le> maxLedgerOffset" using Cons.prems(1) x by auto
  have marked: "fst (run_out c fa fo i 0 (x # xs) p) =
      mark (if i < fa then maxLedgerOffset else if i = fa then fo else 0) out @ fst (run_out c fa fo (Suc i) 0 xs p1)" for fa fo
  proof -
    obtain o2 d2 p2 where w2: "walk c (if i < fa then maxLedgerOffset else if i = fa then fo else 0) ls ?p = (o2, d2, p2)"
      by (metis prod_cases3)
    then have "o2 = mark (if i < fa then maxLedgerOffset else if i = fa then fo else 0) out" "p2 = p1"
      using walk_mark [of c "if i < fa then maxLedgerOffset else if i = fa then fo else 0" ls ?p] w by simp_all
    with w2 show ?thesis by (simp add: x Let_def split: prod.split)
  qed
  show ?case
  proof (cases "k < length out")
    case True
    then have "out ! k = (r, q, f)" using Cons.prems(3) all by (simp add: nth_append)
    then obtain ls1 ls2 where s: "ls = ls1 @ ls2" "snd (snd (walk c 0 ls1 ?p)) = q" "length (fst (walk c 0 ls1 ?p)) = Suc k"
      using walk_split [OF ls(1), of k c 0 ?p] True w by auto
    obtain o1 d1 where w1: "walk c 0 ls1 ?p = (o1, d1, q)" using s(2) by (metis prod_cases3 snd_conv)
    obtain o2 d2 where w2: "walk c 0 ls2 q = (o2, d2, p1)" and out: "out = o1 @ o2"
      using w s(1) w1 by (auto simp: walk_append split: prod.splits)
    have ls1: "[] \<notin> set ls1" using ls(1) s(1) by auto
    have q: "ps_Segment q = n" "ps_Offset q = length (unlines ls1)" using walk_pos [OF ls1 w1] by simp_all
    have "(r, q, f) \<in> set out" using \<open>out ! k = (r, q, f)\<close> True nth_mem by metis
    then have "0 < ps_Record q" using walk_offsets [of r q f c 0 ls ?p] w by simp
    moreover have "new_flags (mark (ps_Offset q) o1) = replicate (length o1) False"
      by (rule mark_flags(1)) (use walk_offsets [of _ _ _ c 0 ls1 ?p] w1 q in fastforce)
    moreover have "new_flags (mark (ps_Offset q) o2) = replicate (length o2) True"
      by (rule mark_flags(2)) (use walk_offsets [of _ _ _ c 0 ls2 q] w2 in fastforce)
    moreover have "new_flags ?rest = replicate (length ?rest) True"
      by (rule all_new) (use run_out_new in blast)
    moreover have "run_out c i (ps_Offset q) (Suc i) 0 xs p1 = run_out c 0 0 (Suc i) 0 xs p1"
      "run_out c 0 0 (Suc i) 0 xs p1 = run_out c 0 0 0 0 xs p1" by (rule run_out_past, simp)+
    moreover have "length o1 = Suc k" using s(3) w1 by simp
    ultimately have facts: "0 < ps_Record q" "new_flags (mark (ps_Offset q) o1) = replicate (Suc k) False"
      "new_flags (mark (ps_Offset q) o2) = replicate (length o2) True" "new_flags ?rest = replicate (length ?rest) True"
      "run_out c i (ps_Offset q) (Suc i) 0 xs p1 = run_out c 0 0 (Suc i) 0 xs p1"
      "run_out c 0 0 (Suc i) 0 xs p1 = run_out c 0 0 0 0 xs p1" "length o1 = Suc k" by simp_all
    let ?r1 = "fst (run_out c (i + 0) (ps_Offset q) i 0 (x # xs) p)"
    have r1: "?r1 = mark (ps_Offset q) out @ ?rest" using marked [of i "ps_Offset q"] facts(5) by simp
    have "drop (Suc k) (fst (run_out c 0 0 i 0 (x # xs) p)) =
        fst (walk c 0 ls2 q) @ fst (run_out c 0 0 0 0 (drop (Suc 0) (x # xs)) (snd (snd (walk c 0 ls2 q))))"
      unfolding all out using facts(6,7) w2 by simp
    moreover have "new_flags ?r1 = replicate (Suc k) False @
        replicate (length (fst (run_out c 0 0 i 0 (x # xs) p)) - Suc k) True"
      unfolding r1 all out using facts by (simp flip: replicate_add)
    moreover have "map fst ?r1 = map fst (fst (run_out c 0 0 i 0 (x # xs) p))"
      unfolding r1 all by (simp add: mark_flags(3))
    moreover have "(x # xs) ! 0 = (n, ls1 @ ls2, torn)" "0 < length (x # xs)" using x s(1) by simp_all
    ultimately show ?thesis using q facts(1) by blast
  next
    case False
    then have k: "k - length out < length ?rest" "?rest ! (k - length out) = (r, q, f)"
      using Cons.prems(2,3) all by (auto simp: nth_append)
    have "\<forall>(n, ls, torn) \<in> set xs. [] \<notin> set ls \<and> length (unlines ls) \<le> maxLedgerOffset" using Cons.prems(1) by simp
    from Cons.IH [OF this k] obtain j m ls1 ls2 t where ih: "j < length xs" "xs ! j = (m, ls1 @ ls2, t)" "0 < ps_Record q"
      "ps_Segment q = m" "ps_Offset q = length (unlines ls1)"
      "drop (Suc (k - length out)) ?rest =
        fst (walk c 0 ls2 q) @ fst (run_out c 0 0 0 0 (drop (Suc j) xs) (snd (snd (walk c 0 ls2 q))))"
      "new_flags (fst (run_out c (Suc i + j) (ps_Offset q) (Suc i) 0 xs p1)) =
        replicate (Suc (k - length out)) False @ replicate (length ?rest - Suc (k - length out)) True"
      "map fst (fst (run_out c (Suc i + j) (ps_Offset q) (Suc i) 0 xs p1)) = map fst ?rest" by blast
    have "new_flags (mark maxLedgerOffset out) = replicate (length out) False"
      by (rule mark_flags(1)) (use walk_offsets [of _ _ _ c 0 ls ?p] w ls(2) in fastforce)
    moreover have "Suc k - length out = Suc (k - length out)" "length out + Suc (k - length out) = Suc k" using False by simp_all
    ultimately have facts: "new_flags (mark maxLedgerOffset out) = replicate (length out) False"
      "Suc k - length out = Suc (k - length out)" "length out + Suc (k - length out) = Suc k" by blast+
    let ?r1 = "fst (run_out c (i + Suc j) (ps_Offset q) i 0 (x # xs) p)"
    let ?r2 = "fst (run_out c (Suc i + j) (ps_Offset q) (Suc i) 0 xs p1)"
    have r1: "?r1 = mark maxLedgerOffset out @ ?r2" using marked [of "i + Suc j" "ps_Offset q"] by simp
    have "drop (Suc k) (fst (run_out c 0 0 i 0 (x # xs) p)) =
        fst (walk c 0 ls2 q) @ fst (run_out c 0 0 0 0 (drop (Suc (Suc j)) (x # xs)) (snd (snd (walk c 0 ls2 q))))"
      unfolding all using facts(2) ih(6) False by simp
    moreover have "new_flags ?r1 = replicate (Suc k) False @
        replicate (length (fst (run_out c 0 0 i 0 (x # xs) p)) - Suc k) True"
    proof -
      have "replicate (Suc k) False = replicate (length out) False @ replicate (Suc (k - length out)) False"
        unfolding replicate_add [symmetric] facts(3) ..
      moreover have "length (out @ ?rest) - Suc k = length ?rest - Suc (k - length out)" using False by simp
      ultimately show ?thesis unfolding r1 all by (simp only: new_flags_simps facts(1) ih(7) append_assoc)
    qed
    moreover have "map fst ?r1 = map fst (fst (run_out c 0 0 i 0 (x # xs) p))"
      unfolding r1 all using ih(8) by (simp add: mark_flags(3))
    moreover have "(x # xs) ! Suc j = (m, ls1 @ ls2, t)" "Suc j < length (x # xs)" using ih(1,2) by simp_all
    ultimately show ?thesis using ih(3-5) by blast
  qed
qed simp

section \<open>The cursor\<close>

text \<open>Two disks that hold the same record: the same segments in the same order, whatever form each is in.\<close>

definition same_record :: "ledger_codec \<Rightarrow> ledger_disk \<Rightarrow> ledger_disk \<Rightarrow> bool" where
  "same_record c dk dk' = (segment_run c (ld_files dk) = segment_run c (ld_files dk') \<and>
     (\<forall>n \<in> set (segment_run c (ld_files dk)). closed_bytes c (ld_files dk) n = closed_bytes c (ld_files dk') n) \<and>
     deref_or (ld_live dk) [] = deref_or (ld_live dk') [])"

lemma same_record_lines: "same_record c dk dk' \<Longrightarrow> disk_lines c dk' = disk_lines c dk"
  by (simp add: same_record_def disk_lines_def)

lemma index_of_nth:
  "distinct (map sr_Name ss) \<Longrightarrow> j < length ss \<Longrightarrow> index_of (sr_Name (ss ! j)) ss = Some j"
proof (induction ss arbitrary: j)
  case (Cons s ss)
  then show ?case by (cases j) auto
qed simp

lemma source_names:
  assumes "map_ok (ld_files dk)"
  shows "map sr_Name (ledgerSources c dk) = segment_run c (ld_files dk) @ [[]]"
    "distinct (map sr_Name (ledgerSources c dk))"
proof -
  have "map sr_Name (map (source_of c (ld_files dk)) (segment_run c (ld_files dk))) = segment_run c (ld_files dk)"
    unfolding map_map
    by (rule map_idI) (use segment_run_ok(2) [OF assms, of c] in \<open>auto simp: source_of_def Let_def seg_entry_fields\<close>)
  then show names: "map sr_Name (ledgerSources c dk) = segment_run c (ld_files dk) @ [[]]"
    by (simp add: sources_run [OF assms] live_source_def)
  have "distinct ns" if "sorted_wrt name_before ns" for ns
    using that by (induction ns) (auto simp: name_before_order(1))
  then have "distinct (segment_run c (ld_files dk))" using segment_run_ok(1) [OF assms] by blast
  moreover have "[] \<notin> set (segment_run c (ld_files dk))"
    unfolding segment_run_ok(2) [OF assms] present_def using parse_first(1) [of "[]"]
    by (cases "parseSegmentName []") auto
  ultimately show "distinct (map sr_Name (ledgerSources c dk))" by (simp add: names)
qed

lemma mark_all_new:
  "\<forall>(r, q, f) \<in> set xs. pf < ps_Offset q \<and> f \<Longrightarrow> mark pf xs = xs"
  by (induction xs) (auto simp: mark_def)

text \<open>C15: A CURSOR IS EXACT ON A RECORD WITHOUT EMPTY LINES.  On a disk that is readable, none of whose
  lines is empty and none of whose segments is longer than an offset can say, take the position a full replay handed over with a record.  A replay resumed
  there on any disk that holds the same record, compressed meanwhile or not, delivers precisely the
  records behind it, with the same positions; and a full replay with the floor there marks precisely the
  records behind it as new.  So a fold that stopped at the position repeats none and misses none.\<close>

theorem resumed_replay_is_exact:
  assumes "segments_whole c (ld_files dk)" "live_readable (deref_or (ld_live dk) [])"
    and "segments_whole c (ld_files dk')" "same_record c dk dk'"
    and "\<forall>(n, ls, torn) \<in> set (disk_lines c dk). [] \<notin> set ls \<and> length (unlines ls) \<le> maxLedgerOffset"
    and "ScanLedgerFrom c dk start_pos = Some full" "k < length (sc_out full)" "sc_out full ! k = (r, q, f)"
  shows "(\<exists>rest. ScanLedgerFrom c dk' q = Some rest \<and> \<not> sc_failed rest \<and> sc_out rest = drop (Suc k) (sc_out full)) \<and>
    (\<exists>marked. scanLedgerFromFloor c dk' start_pos q = Some marked \<and> \<not> sc_failed marked \<and>
       map fst (sc_out marked) = map fst (sc_out full) \<and>
       new_flags (sc_out marked) = replicate (Suc k) False @ replicate (length (sc_out full) - Suc k) True)"
proof -
  let ?xs = "disk_lines c dk" and ?ss = "ledgerSources c dk'"
  have live: "live_readable (deref_or (ld_live dk') [])" using assms(2,4) by (simp add: same_record_def)
  have xs: "disk_lines c dk' = ?xs" by (rule same_record_lines [OF assms(4)])
  note serves = disk_serves [OF assms(3) live, unfolded xs]
  have "floor_index ss start_pos = 0" for ss by (simp add: floor_index_def IsStart_def start_pos_def)
  then have full: "sc_out full = fst (run_out c 0 0 0 0 ?xs start_pos)"
    using scan_from_start [OF assms(1,2), of start_pos] assms(6)
    by (auto simp: ScanLedgerFrom_def start_pos_def split: prod.splits)
  obtain j n ls1 ls2 torn where at_q: "j < length ?xs" "?xs ! j = (n, ls1 @ ls2, torn)" "0 < ps_Record q"
    "ps_Segment q = n" "ps_Offset q = length (unlines ls1)"
    and rest: "drop (Suc k) (sc_out full) =
      fst (walk c 0 ls2 q) @ fst (run_out c 0 0 0 0 (drop (Suc j) ?xs) (snd (snd (walk c 0 ls2 q))))"
    and marked: "new_flags (fst (run_out c j (ps_Offset q) 0 0 ?xs start_pos)) =
        replicate (Suc k) False @ replicate (length (sc_out full) - Suc k) True"
      "map fst (fst (run_out c j (ps_Offset q) 0 0 ?xs start_pos)) = map fst (sc_out full)"
    using run_out_split [OF assms(5), of k c 0 start_pos r q f] assms(7,8) unfolding full by auto
  have start: "\<not> IsStart q" using at_q(3) by (simp add: IsStart_def)
  have len: "length ?ss = length ?xs" using serves by (rule list_all2_lengthD)
  have name: "sr_Name (?ss ! j) = n" using list_all2_nthD2 [OF serves at_q(1)] at_q(2) by (simp add: serves_def)
  have "map_ok (ld_files dk')" using assms(3) by (simp add: segments_whole_def)
  from index_of_nth [OF source_names(2) [OF this], of j c] at_q(1,4) name len
  have idx: "index_of (ps_Segment q) ?ss = Some j" by simp
  then have fl: "floor_index ?ss q = j" using start by (simp add: floor_index_def)
  have dropped: "drop j ?xs = (n, ls1 @ ls2, torn) # drop (Suc j) ?xs" using at_q(1,2) by (metis Cons_nth_drop_Suc)
  have "list_all2 (\<lambda>s (n, ls, torn). serves c dk' s n ls torn) (drop j ?ss) (drop j ?xs)"
    using serves by (rule list_all2_dropI)
  from scan_run_out [OF this, of True q "length ls1" j "ps_Offset q" j] at_q
  have run: "scan_run c dk' j (ps_Offset q) j True (drop j ?ss) q =
      (case run_out c j (ps_Offset q) j (length ls1) (drop j ?xs) q of (out, d, p1) \<Rightarrow> scan_more out d (scan_stop no_damage p1 False))"
    unfolding dropped by simp
  have q: "q\<lparr>ps_Segment := n, ps_Offset := length (unlines ls1)\<rparr> = q" "q\<lparr>ps_Segment := n\<rparr> = q"
    using at_q(4,5) by (cases q; simp)+
  obtain o1 d1 p1 where w: "walk c 0 ls2 q = (o1, d1, p1)" by (metis prod_cases3)
  obtain o2 d2 p2 where w2: "walk c (ps_Offset q) ls2 q = (o2, d2, p2)" by (metis prod_cases3)
  have "o2 = mark (ps_Offset q) o1" "p2 = p1" using walk_mark [of c "ps_Offset q" ls2 q] w w2 by simp_all
  moreover have "mark (ps_Offset q) o1 = o1"
    by (rule mark_all_new) (use walk_offsets [of _ _ _ c 0 ls2 q] w in fastforce)
  ultimately have "fst (run_out c j (ps_Offset q) j (length ls1) (drop j ?xs) q) = drop (Suc k) (sc_out full)"
    unfolding rest dropped using w w2 run_out_past [of j "Suc j" c "ps_Offset q" "drop (Suc j) ?xs" p1 0]
    by (simp add: q at_q(5) [symmetric] split: prod.split)
  then have "\<exists>rest. ScanLedgerFrom c dk' q = Some rest \<and> \<not> sc_failed rest \<and> sc_out rest = drop (Suc k) (sc_out full)"
    using run start idx fl by (auto simp: ScanLedgerFrom_def scanLedgerFromFloor_def Let_def split: prod.splits)
  moreover have "\<exists>marked. scanLedgerFromFloor c dk' start_pos q = Some marked \<and> \<not> sc_failed marked \<and>
       map fst (sc_out marked) = map fst (sc_out full) \<and>
       new_flags (sc_out marked) = replicate (Suc k) False @ replicate (length (sc_out full) - Suc k) True"
    using scan_from_start [OF assms(3) live, of q] marked unfolding fl xs by (auto split: prod.splits)
  ultimately show ?thesis ..
qed

end
