(* ===== verification/LedgerUpkeep.thy ===== *)
theory LedgerUpkeep imports LedgerResume begin

text \<open>
  What the upkeep of the closed segments may change: compression, reconciliation after a crash and
  the maintenance pass keep every segment's bytes, whatever the disk answers, and only a segment with a
  matching receipt leaves.
\<close>

section \<open>Upkeep keeps the record\<close>

definition only_files :: "files \<Rightarrow> bool" where
  "only_files fs = (map_ok fs \<and> (\<forall>k. map_of fs k \<noteq> Some D_dir))"

lemma only_files_upd:
  "only_files fs \<Longrightarrow> only_files (AList.update k (D_file b) fs)" "only_files fs \<Longrightarrow> only_files (AList.delete k fs)"
  by (auto simp: only_files_def)

lemma entry_bytes_upd [simp]:
  "entry_bytes (AList.update k (D_file b) fs) x = (if x = k then Some b else entry_bytes fs x)"
  "entry_bytes (AList.delete k fs) x = (if x = k then None else entry_bytes fs x)"
  by (simp_all add: entry_bytes_def)

text \<open>The same segments with the same bytes, in whatever form.\<close>

definition same_files :: "ledger_codec \<Rightarrow> files \<Rightarrow> files \<Rightarrow> bool" where
  "same_files c fs fs' = ((only_files fs \<longrightarrow> only_files fs') \<and>
     (map_of fs migratedMarkerName \<noteq> None \<longrightarrow> map_of fs' migratedMarkerName \<noteq> None) \<and>
     (\<forall>n. parseSegmentName n \<noteq> None \<longrightarrow> present fs' n = present fs n \<and>
        (present fs n \<longrightarrow> closed_bytes c fs' n = closed_bytes c fs n) \<and>
        entry_bytes fs' (n @ gzSuffix @ receiptSuffix) = entry_bytes fs (n @ gzSuffix @ receiptSuffix)))"

lemma same_files_refl [simp]: "same_files c fs fs"
  by (simp add: same_files_def)

lemma same_files_trans: "same_files c fs1 fs2 \<Longrightarrow> same_files c fs2 fs3 \<Longrightarrow> same_files c fs1 fs3"
  by (simp add: same_files_def)

lemma same_files_fold:
  "(\<And>x fs. same_files c fs (f x fs)) \<Longrightarrow> same_files c fs (fold f xs fs)"
proof (induction xs arbitrary: fs)
  case (Cons x xs)
  then show ?case using same_files_trans [of c fs "f x fs"] by simp
qed simp

definition other_name :: "bytes \<Rightarrow> bool" where
  "other_name k = (\<forall>n. parseSegmentName n \<noteq> None \<longrightarrow> n @ plainSuffix \<noteq> k \<and> n @ gzSuffix \<noteq> k \<and>
     n @ gzSuffix @ receiptSuffix \<noteq> k)"

lemma same_files_bytes:
  assumes "only_files fs \<Longrightarrow> only_files fs'"
    and "map_of fs migratedMarkerName \<noteq> None \<Longrightarrow> map_of fs' migratedMarkerName \<noteq> None"
    and "\<And>n. parseSegmentName n \<noteq> None \<Longrightarrow> entry_bytes fs' (n @ plainSuffix) = entry_bytes fs (n @ plainSuffix) \<and>
      entry_bytes fs' (n @ gzSuffix) = entry_bytes fs (n @ gzSuffix) \<and>
      entry_bytes fs' (n @ gzSuffix @ receiptSuffix) = entry_bytes fs (n @ gzSuffix @ receiptSuffix)"
  shows "same_files c fs fs'"
  using assms by (simp add: same_files_def present_def closed_bytes_def cong: option.case_cong)

lemma same_files_other:
  assumes "other_name k"
  shows "same_files c fs (AList.update k (D_file b) fs)" "k \<noteq> migratedMarkerName \<Longrightarrow> same_files c fs (AList.delete k fs)"
  by (rule same_files_bytes; use assms in \<open>auto simp: only_files_upd other_name_def\<close>)+

lemma other_suffix [simp]: "other_name (n @ gzSuffix @ tmpSuffix)" "other_name (b @ tmpSuffix)"
  by (auto simp: other_name_def suffix_other simp flip: append_assoc)

lemma digest_same:
  assumes "inj (lc_sha c)" "digestOfGz c g = Some (digestOf c b)"
  shows "lc_gunzip c g = (b, True)"
  using assms by (auto simp: digestOfGz_def digestOf_def inj_eq split: prod.splits if_splits)

lemma suffix_not_marker [simp]: "n @ plainSuffix \<noteq> migratedMarkerName" "n @ gzSuffix \<noteq> migratedMarkerName"
  "n @ gzSuffix @ tmpSuffix \<noteq> migratedMarkerName" "n @ tmpSuffix \<noteq> migratedMarkerName"
proof -
  have ne: "n @ p \<noteq> migratedMarkerName" if "p \<noteq> []" "last p \<noteq> CHR ''d''" for p
  proof
    assume "n @ p = migratedMarkerName"
    then have "last (n @ p) = last migratedMarkerName" by (rule arg_cong)
    with that show False by (simp add: migratedMarkerName_def)
  qed
  show "n @ plainSuffix \<noteq> migratedMarkerName" "n @ gzSuffix \<noteq> migratedMarkerName"
    "n @ gzSuffix @ tmpSuffix \<noteq> migratedMarkerName" "n @ tmpSuffix \<noteq> migratedMarkerName"
    by (rule ne; simp)+
qed

lemmas marker_not [simp] = suffix_not_marker [symmetric]

lemma remove_other: "other_name k \<Longrightarrow> k \<noteq> migratedMarkerName \<Longrightarrow> same_files c fs (remove_file rm k fs)"
  by (simp add: remove_file_def same_files_other(2))

lemma remove_plain_same:
  assumes "entry_bytes fs (n @ gzSuffix) = Some g" "entry_bytes fs (n @ plainSuffix) = Some b" "lc_gunzip c g = (b, True)"
  shows "same_files c fs (AList.delete (n @ plainSuffix) fs)"
proof -
  have "present (AList.delete (n @ plainSuffix) fs) m = present fs m \<and>
      closed_bytes c (AList.delete (n @ plainSuffix) fs) m = closed_bytes c fs m" for m
    using assms by (cases "m = n") (simp_all add: present_def closed_bytes_def cong: option.case_cong)
  then show ?thesis by (simp add: same_files_def only_files_upd)
qed

lemma gz_same:
  assumes "entry_bytes fs (n @ plainSuffix) \<noteq> None"
  shows "same_files c fs (AList.delete (n @ gzSuffix) fs)" "same_files c fs (AList.update (n @ gzSuffix) (D_file g) fs)"
proof -
  have "present (AList.delete (n @ gzSuffix) fs) m = present fs m \<and> present (AList.update (n @ gzSuffix) (D_file g) fs) m = present fs m \<and>
      closed_bytes c (AList.delete (n @ gzSuffix) fs) m = closed_bytes c fs m \<and>
      closed_bytes c (AList.update (n @ gzSuffix) (D_file g) fs) m = closed_bytes c fs m" for m
    using assms by (cases "m = n") (auto simp: present_def closed_bytes_def cong: option.case_cong)
  then show "same_files c fs (AList.delete (n @ gzSuffix) fs)" "same_files c fs (AList.update (n @ gzSuffix) (D_file g) fs)"
    by (simp_all add: same_files_def only_files_upd)
qed

lemma compress_same:
  assumes "inj (lc_sha c)"
  shows "same_files c fs (snd (compressSegment c io n fs))"
proof (cases "entry_bytes fs (n @ plainSuffix)")
  case None
  then show ?thesis by (simp add: compressSegment_def)
next
  case (Some b)
  let ?tmp = "n @ gzSuffix @ tmpSuffix"
  let ?fs1 = "AList.update ?tmp (D_file (ci_stored io)) fs"
  let ?fs2 = "AList.update (n @ gzSuffix) (D_file (ci_stored io)) (AList.delete ?tmp ?fs1)"
  have one: "same_files c fs ?fs1" by (rule same_files_other) simp
  have undo: "same_files c fs (remove_file rm ?tmp ?fs1)" for rm
    by (rule same_files_trans [OF one remove_other]) simp_all
  have del: "same_files c fs (AList.delete ?tmp ?fs1)"
    by (rule same_files_trans [OF one same_files_other(2)]) simp_all
  have p: "entry_bytes (AList.delete ?tmp ?fs1) (n @ plainSuffix) = Some b" using Some by simp
  have two: "same_files c fs ?fs2" by (rule same_files_trans [OF del gz_same(2)]) (simp add: Some)
  have three: "same_files c fs (AList.delete (n @ plainSuffix) ?fs2)"
    if "digestOfGz c (ci_stored io) = Some (digestOf c b)"
    by (rule same_files_trans [OF two remove_plain_same [OF _ _ digest_same [OF assms that]]]) (use Some in simp_all)
  show ?thesis using Some one undo two three by (simp add: compressSegment_def Let_def)
qed

lemma temps_named:
  assumes "t \<in> set (sd_Temps (readSegmentDir c fs))"
  shows "\<exists>b. t = b @ tmpSuffix"
proof -
  have "cut_suffix tmpSuffix t \<noteq> None"
  proof -
    have "\<forall>t \<in> set (ds_temps (fold read_entry xs d)). cut_suffix tmpSuffix t \<noteq> None"
      if "\<forall>t \<in> set (ds_temps d). cut_suffix tmpSuffix t \<noteq> None" for xs d
      using that
    proof (induction xs arbitrary: d)
      case (Cons p xs)
      obtain k e where p: "p = (k, e)" by (cases p)
      have "dir_kind_of k e = K_temp \<Longrightarrow> cut_suffix tmpSuffix k \<noteq> None"
        by (auto simp: dir_kind_of_def split: if_splits option.splits)
      then have "\<forall>t \<in> set (ds_temps (read_entry p d)). cut_suffix tmpSuffix t \<noteq> None"
        using Cons.prems by (auto simp: p read_entry_def set_forms_def split: dir_kind.split)
      from Cons.IH [OF this] show ?case by simp
    qed simp
    from this [of "\<lparr>ds_forms = [], ds_temps = [], ds_unknown = []\<rparr>" fs] assms show ?thesis
      by (simp add: readSegmentDir_def Let_def scan_dir_def)
  qed
  then show ?thesis by (auto simp: cut_suffix_iff)
qed

lemma reconcile_both_same:
  assumes "inj (lc_sha c)" "entry_bytes fs (n @ plainSuffix) \<noteq> None"
  shows "same_files c fs (reconcile_both c rm n fs)"
proof (cases "gzMatchesPlain c (entry_bytes fs (n @ gzSuffix)) (entry_bytes fs (n @ plainSuffix))")
  case True
  then obtain g b where g: "entry_bytes fs (n @ gzSuffix) = Some g" "entry_bytes fs (n @ plainSuffix) = Some b"
    "digestOfGz c g = Some (digestOf c b)" by (auto simp: gzMatchesPlain_def split: option.splits)
  then show ?thesis using True remove_plain_same [OF g(1,2) digest_same [OF assms(1) g(3)]]
    by (simp add: reconcile_both_def remove_file_def)
next
  case False
  then show ?thesis using gz_same(1) [OF assms(2)] by (simp add: reconcile_both_def remove_file_def)
qed

lemma both_names:
  assumes "map_ok fs"
  shows "distinct (sd_BothForms (readSegmentDir c fs))"
    "n \<in> set (sd_BothForms (readSegmentDir c fs)) \<Longrightarrow> entry_bytes fs (n @ plainSuffix) \<noteq> None"
proof -
  have ok: "map_ok (ds_forms (scan_dir fs))" using scan_dir_forms [OF assms] by blast
  have "distinct (map fst (filter P fms))" if "map_ok fms" for P and fms :: "(bytes, segment_forms) gomap"
    using that by (simp add: map_ok_def distinct_map_filter)
  from this [OF ok] show "distinct (sd_BothForms (readSegmentDir c fs))"
    by (simp add: readSegmentDir_def Let_def distinct_count_atmost_1 flip: mset_eq_imp_distinct_iff)
  show "entry_bytes fs (n @ plainSuffix) \<noteq> None" if "n \<in> set (sd_BothForms (readSegmentDir c fs))"
    using that forms_member [OF assms]
    by (auto simp: readSegmentDir_def Let_def both_forms_def forms_of_def no_forms_def split: option.splits)
qed

lemma reconcile_same:
  assumes "inj (lc_sha c)" "map_ok fs"
  shows "same_files c fs (snd (reconcileSegments c rm fs))"
proof -
  let ?st = "readSegmentDir c fs"
  let ?fs1 = "fold (remove_file rm) (sd_Temps ?st) fs"
  have temps: "same_files c fs0 (fold (remove_file rm) ts fs0) \<and>
      entry_bytes (fold (remove_file rm) ts fs0) (n @ plainSuffix) = entry_bytes fs0 (n @ plainSuffix)"
    if "set ts \<subseteq> set (sd_Temps ?st)" for ts fs0 n
    using that
  proof (induction ts arbitrary: fs0)
    case (Cons t ts)
    then obtain b where t: "t = b @ tmpSuffix" using temps_named [of t c fs] Cons.prems by auto
    have "same_files c fs0 (remove_file rm t fs0)" by (rule remove_other) (simp_all add: t)
    moreover have "n @ plainSuffix \<noteq> t" by (simp add: t suffix_other)
    then have "entry_bytes (remove_file rm t fs0) (n @ plainSuffix) = entry_bytes fs0 (n @ plainSuffix)"
      by (simp add: remove_file_def)
    ultimately show ?case using Cons same_files_trans by (metis fold_simps(2) insert_subset list.simps(15))
  qed simp
  have both: "same_files c fs0 (fold (reconcile_both c rm) ns fs0)"
    if "distinct ns" "\<forall>n \<in> set ns. entry_bytes fs0 (n @ plainSuffix) \<noteq> None" for ns fs0
    using that
  proof (induction ns arbitrary: fs0)
    case (Cons n ns)
    have "\<forall>m \<in> set ns. entry_bytes (reconcile_both c rm n fs0) (m @ plainSuffix) \<noteq> None"
    proof
      fix m assume "m \<in> set ns"
      with Cons.prems have "m \<noteq> n" "entry_bytes fs0 (m @ plainSuffix) \<noteq> None" by auto
      then show "entry_bytes (reconcile_both c rm n fs0) (m @ plainSuffix) \<noteq> None"
        by (simp add: reconcile_both_def remove_file_def)
    qed
    with Cons.prems have "same_files c (reconcile_both c rm n fs0) (fold (reconcile_both c rm) ns (reconcile_both c rm n fs0))"
      by (intro Cons.IH) auto
    moreover have "same_files c fs0 (reconcile_both c rm n fs0)"
      by (rule reconcile_both_same [OF assms(1)]) (use Cons.prems(2) in simp)
    ultimately show ?case by (auto intro: same_files_trans)
  qed simp
  have "same_files c ?fs1 (fold (reconcile_both c rm) (sd_BothForms ?st) ?fs1)"
    by (rule both [OF both_names(1) [OF assms(2)]]) (use temps both_names(2) [OF assms(2)] in simp)
  with temps show ?thesis by (auto simp: reconcileSegments_def Let_def intro: same_files_trans)
qed

lemma compress_pass_same:
  assumes "inj (lc_sha c)"
  shows "same_files c (snd p) (snd (fold (compress_pass c io) ss p))"
proof (induction ss arbitrary: p)
  case (Cons s ss)
  have "same_files c (snd p) (snd (compress_pass c io s p))"
    using compress_same [OF assms, where io = "ui_compress io (sg_Name s)" and n = "sg_Name s" and fs = "snd p"]
    by (cases p) (auto simp: compress_pass_def split: prod.splits)
  from same_files_trans [OF this Cons.IH] show ?case by simp
qed simp

lemma free_name:
  assumes "freeSegmentName fs d = Some n"
  shows "map_of fs (n @ plainSuffix) = None" "map_of fs (n @ gzSuffix) = None"
    "\<exists>q < 10000. n = segmentName d q \<and> (\<forall>p < q. map_of fs (segmentName d p @ plainSuffix) \<noteq> None \<or> map_of fs (segmentName d p @ gzSuffix) \<noteq> None)"
proof -
  have "free_seq fs d p = Some q \<Longrightarrow> p \<le> q \<and> q < 10000 \<and> map_of fs (segmentName d q @ plainSuffix) = None \<and>
      map_of fs (segmentName d q @ gzSuffix) = None \<and> (\<forall>r. p \<le> r \<and> r < q \<longrightarrow>
        map_of fs (segmentName d r @ plainSuffix) \<noteq> None \<or> map_of fs (segmentName d r @ gzSuffix) \<noteq> None)" for p q
  proof (induction fs d p rule: free_seq.induct)
    case (1 fs d p)
    show ?case
    proof (cases "map_of fs (segmentName d p @ plainSuffix) \<noteq> None \<or> map_of fs (segmentName d p @ gzSuffix) \<noteq> None")
      case True
      then have "\<not> 10000 \<le> p" "free_seq fs d (p + 1) = Some q"
        using 1(2) by (subst (asm) free_seq.simps, simp split: if_splits)+
      with 1(1) True have "p + 1 \<le> q \<and> q < 10000 \<and> map_of fs (segmentName d q @ plainSuffix) = None \<and>
        map_of fs (segmentName d q @ gzSuffix) = None \<and> (\<forall>r. p + 1 \<le> r \<and> r < q \<longrightarrow>
          map_of fs (segmentName d r @ plainSuffix) \<noteq> None \<or> map_of fs (segmentName d r @ gzSuffix) \<noteq> None)" by blast
      moreover have "r = p \<or> p + 1 \<le> r" if "p \<le> r" for r using that by auto
      ultimately show ?thesis using True by (metis add_leD1)
    next
      case False
      then have "q = p" "q < 10000" using 1(2) by (subst (asm) free_seq.simps, simp split: if_splits)+
      with False show ?thesis by auto
    qed
  qed
  from this [of 0] assms show "map_of fs (n @ plainSuffix) = None" "map_of fs (n @ gzSuffix) = None"
    "\<exists>q < 10000. n = segmentName d q \<and> (\<forall>p < q. map_of fs (segmentName d p @ plainSuffix) \<noteq> None \<or> map_of fs (segmentName d p @ gzSuffix) \<noteq> None)"
    by (auto simp: freeSegmentName_def)
qed

section \<open>The maintenance pass\<close>

lemma gz_entry:
  assumes "seg_of c fs n = Some s" "\<not> sg_Retired s" "sg_Compressed s"
  shows "sg_Path s = n @ gzSuffix \<and> sg_Name s = n \<and> parseSegmentName n \<noteq> None \<and> segment_End s = segment_End (the (parseSegmentName n))"
proof -
  have p: "present fs n" using seg_of_absent assms by blast
  then have "s = seg_entry c fs n" using seg_of_present assms(1) by simp
  with p seg_entry_fields [OF p, of c] assms(3) show ?thesis by (simp add: present_def segment_End_def)
qed

text \<open>A receipt in the directory that is whole and describes these bytes.\<close>

definition receipt_covers :: "ledger_codec \<Rightarrow> files \<Rightarrow> bytes \<Rightarrow> bytes \<Rightarrow> bool" where
  "receipt_covers c fs n g = (\<exists>rb r. entry_bytes fs (n @ gzSuffix @ receiptSuffix) = Some rb \<and> lc_receipt c rb = Some r \<and>
     rc_Segment r = n @ gzSuffix \<and> 0 < rc_VerifiedAtMs r \<and> trim_space (rc_Destination r) \<noteq> [] \<and>
     rc_Bytes r = int (length g) \<and> ascii_lower (lc_sha c g) = ascii_lower (rc_SHA256 r))"

text \<open>The segment is there with its bytes, or it is past the window and its compressed bytes have a receipt.\<close>

definition kept :: "ledger_codec \<Rightarrow> duration \<Rightarrow> time \<Rightarrow> files \<Rightarrow> files \<Rightarrow> bytes \<Rightarrow> bytes \<times> bool \<Rightarrow> bool" where
  "kept c window now fs fs' n x = (present fs' n \<and> closed_bytes c fs' n = Some x \<or>
     past_window window now (the (parseSegmentName n)) \<and> (\<exists>g. lc_gunzip c g = x \<and> receipt_covers c fs n g))"

lemma cold_copy_covers:
  assumes "checkColdCopy c fs s = coldCopyOK" "sg_Path s = n @ gzSuffix" "sg_Name s = n"
  shows "\<exists>g. entry_bytes fs (n @ gzSuffix) = Some g \<and> receipt_covers c fs n g"
  using assms by (auto simp: checkColdCopy_def verifyColdCopyAt_def receipt_covers_def split: option.splits if_splits)

definition same_receipts :: "files \<Rightarrow> files \<Rightarrow> bool" where
  "same_receipts fs fs' = (\<forall>n. parseSegmentName n \<noteq> None \<longrightarrow>
     entry_bytes fs' (n @ gzSuffix @ receiptSuffix) = entry_bytes fs (n @ gzSuffix @ receiptSuffix))"

lemma retire_kept:
  assumes "\<And>s. s \<in> set ss \<Longrightarrow> \<exists>n fs. seg_of c fs n = Some s"
    and "parseSegmentName n \<noteq> None" "same_receipts fs0 fs" "kept c window now fs0 fs n x"
  shows "kept c window now fs0 (snd (fold (retire_pass c io window now) ss (u, fs))) n x"
  using assms(1,3,4)
proof (induction ss arbitrary: u fs)
  case (Cons s ss)
  obtain u1 fs1 where r: "retire_pass c io window now s (u, fs) = (u1, fs1)" by (metis prod.exhaust)
  obtain m fsm where m: "seg_of c fsm m = Some s" using Cons.prems(1) by (meson list.set_intros(1))
  have "same_receipts fs0 fs1 \<and> kept c window now fs0 fs1 n x"
  proof (cases "fs1 = fs")
    case False
    then have del: "\<not> sg_Retired s" "sg_Compressed s" "past_window window now s" "checkColdCopy c fs s = coldCopyOK"
      "fs1 = AList.delete (sg_Path s) fs"
      using r by (auto simp: retire_pass_def split: if_splits coldCopyVerdict.splits)
    note s = gz_entry [OF m del(1,2)]
    then have s': "sg_Path s = m @ gzSuffix" "sg_Name s = m" "parseSegmentName m \<noteq> None" by simp_all
    obtain g where g: "entry_bytes fs (m @ gzSuffix) = Some g" "receipt_covers c fs m g"
      using cold_copy_covers [OF del(4) s'(1,2)] by blast
    have cov: "receipt_covers c fs0 m g" using g(2) Cons.prems(2) s'(3) by (simp add: receipt_covers_def same_receipts_def)
    have "same_receipts fs0 fs1" using Cons.prems(2) by (simp add: same_receipts_def del(5) s'(1))
    moreover have "kept c window now fs0 fs1 n x"
    proof (cases "present fs n \<and> closed_bytes c fs n = Some x")
      case True
      show ?thesis
      proof (cases "m = n \<and> entry_bytes fs (n @ plainSuffix) = None")
        case True
        then have "lc_gunzip c g = x" using \<open>present fs n \<and> closed_bytes c fs n = Some x\<close> g(1) by (simp add: closed_bytes_def)
        moreover have "past_window window now (the (parseSegmentName n))"
          using del(3) s True by (simp add: past_window_def)
        ultimately show ?thesis using cov True by (auto simp: kept_def)
      next
        case False
        then have "present fs1 n \<and> closed_bytes c fs1 n = Some x"
          using True by (auto simp: del(5) s'(1) present_def closed_bytes_def cong: option.case_cong)
        then show ?thesis by (simp add: kept_def)
      qed
    next
      case False
      then show ?thesis using Cons.prems(3) by (auto simp: kept_def)
    qed
    ultimately show ?thesis ..
  qed (use Cons.prems in simp)
  then show ?case using Cons.IH [of fs1 u1] Cons.prems(1) r by simp
qed simp

text \<open>What a rotation does to the disk: nothing, or the whole live file becomes a segment under a free name.\<close>

lemma rotate_disk:
  "lg_disk (snd (rotateLocked io d l)) = lg_disk l \<or>
   (\<exists>n. freeSegmentName (lg_files l) d = Some n \<and> live_bytes l \<noteq> [] \<and> live_bytes (snd (rotateLocked io d l)) = [] \<and>
     lg_files (snd (rotateLocked io d l)) = AList.update (n @ plainSuffix) (D_file (live_bytes l)) (lg_files l))"
  by (auto simp: rotateLocked_def fresh_day_def set_live_def set_files_def live_bytes_def Let_def deref_or_def
      split: option.split)

lemma stale_disk:
  assumes "rotateIfStale io today l = (x, l')"
  shows "lg_disk l' = lg_disk l \<or>
   (\<exists>d n. lg_day l = Some d \<and> freeSegmentName (lg_files l) d = Some n \<and> live_bytes l' = [] \<and>
     lg_files l' = AList.update (n @ plainSuffix) (D_file (live_bytes l)) (lg_files l))"
proof (cases "lg_day l")
  case None
  then show ?thesis using assms by (simp add: rotateIfStale_def)
next
  case (Some d)
  obtain ok l1 where r: "rotateLocked io d l = (ok, l1)" by (metis prod.exhaust)
  have "l' = l \<or> l' = l1" using assms Some r by (auto simp: rotateIfStale_def RotateNow_def split: if_splits)
  then show ?thesis using rotate_disk [of io d l] r Some by auto
qed

lemma no_entry: "map_of fs k = None \<Longrightarrow> entry_bytes fs k = None"
  by (simp add: entry_bytes_def)

lemma new_segment:
  assumes "map_of fs (n @ plainSuffix) = None" "map_of fs (n @ gzSuffix) = None" "parseSegmentName n \<noteq> None"
  shows "\<not> present fs n" "present (AList.update (n @ plainSuffix) (D_file b) fs) n"
    "closed_bytes c (AList.update (n @ plainSuffix) (D_file b) fs) n = Some (b, True)"
    "m \<noteq> n \<Longrightarrow> present (AList.update (n @ plainSuffix) (D_file b) fs) m = present fs m"
    "m \<noteq> n \<Longrightarrow> closed_bytes c (AList.update (n @ plainSuffix) (D_file b) fs) m = closed_bytes c fs m"
    "same_receipts fs (AList.update (n @ plainSuffix) (D_file b) fs)"
  using assms by (auto simp: present_def closed_bytes_def no_entry same_receipts_def cong: option.case_cong)

text \<open>C16: NOTHING LEAVES WITHOUT A RECEIPT.  Whatever the disk answers at any step of a maintenance pass, and
  whatever leftovers the directory holds, as long as no two segments have the same digest: each closed segment is afterwards there with the same
  uncompressed bytes, or it ended before the window and its compressed bytes, which decompress to those
  bytes, have a receipt that names the segment, its length and its checksum.  The live file keeps its
  bytes, or they became a segment under a name no file had, of which the same holds.\<close>

theorem only_receipted_segments_leave:
  assumes "inj (lc_sha c)" "only_files (lg_files l)" "\<forall>d. lg_day l = Some d \<longrightarrow> day_ok d"
    and "ledgerMaintenancePass c io off window now l = (u, l')"
  shows "(\<forall>n x. present (lg_files l) n \<and> closed_bytes c (lg_files l) n = Some x \<longrightarrow>
      kept c window now (lg_files l) (lg_files l') n x) \<and>
    (live_bytes l' = live_bytes l \<or>
      (\<exists>n. \<not> present (lg_files l) n \<and> kept c window now (lg_files l) (lg_files l') n (live_bytes l, True)))"
proof -
  obtain x l1 where r: "rotateIfStale (ui_rotate io) (dayOfMs (unix_milli now)) l = (x, l1)" by (metis prod.exhaust)
  let ?st = "readSegmentDir c (lg_files l1)"
  obtain n1 fs1 where p: "(if off then (0, lg_files l1) else fold (compress_pass c io) (sd_Segments ?st) (0, lg_files l1)) = (n1, fs1)"
    by (metis prod.exhaust)
  have same: "same_files c (lg_files l1) fs1"
    using p compress_pass_same [OF assms(1), of "(0, lg_files l1)" io "sd_Segments ?st"] by (cases off) simp_all
  let ?st1 = "if 0 < n1 then readSegmentDir c fs1 else ?st"
  let ?u = "\<lparr>up_compressed = n1, up_retired = 0, up_awaiting = 0, up_bad = 0\<rparr>"
  have l': "lg_files l' = snd (fold (retire_pass c io window now) (sd_Segments ?st1) (?u, fs1))" "live_bytes l' = live_bytes l1"
    using assms(4) by (auto simp: ledgerMaintenancePass_def r p Let_def set_files_def live_bytes_def split: prod.splits)
  have stale: "lg_disk l1 = lg_disk l \<or> (\<exists>n. map_of (lg_files l) (n @ plainSuffix) = None \<and> map_of (lg_files l) (n @ gzSuffix) = None \<and>
      parseSegmentName n \<noteq> None \<and> live_bytes l1 = [] \<and>
      lg_files l1 = AList.update (n @ plainSuffix) (D_file (live_bytes l)) (lg_files l))"
    using stale_disk [OF r]
  proof (elim disjE exE conjE)
    fix d n assume d: "lg_day l = Some d" "freeSegmentName (lg_files l) d = Some n" "live_bytes l1 = []"
      "lg_files l1 = AList.update (n @ plainSuffix) (D_file (live_bytes l)) (lg_files l)"
    obtain q where "q < 10000" "n = segmentName d q" using free_name(3) [OF d(2)] by blast
    with assms(3) d(1) have "parseSegmentName n \<noteq> None" by (simp add: parse_segmentName)
    with free_name(1,2) [OF d(2)] d(3,4) show ?thesis by blast
  qed simp
  have files1: "map_ok (lg_files l1)" "same_receipts (lg_files l) (lg_files l1)"
    using stale assms(2) new_segment(6) by (auto simp: only_files_def same_receipts_def)
  have "map_ok fs1" using same stale assms(2) only_files_upd(1) by (auto simp: same_files_def only_files_def)
  then have segs: "\<exists>n fs. seg_of c fs n = Some s" if "s \<in> set (sd_Segments ?st1)" for s
    using that segments_set [OF files1(1)] segments_set [of fs1] by (auto simp: LedgerSegments_def split: if_splits)
  have kept: "kept c window now (lg_files l) (lg_files l') n x"
    if "present (lg_files l1) n" "closed_bytes c (lg_files l1) n = Some x" for n x
    unfolding l'(1)
  proof (rule retire_kept [OF segs])
    show parsed: "parseSegmentName n \<noteq> None" using that(1) by (simp add: present_def)
    show "same_receipts (lg_files l) fs1" using files1(2) same by (simp add: same_receipts_def same_files_def)
    have "present fs1 n \<and> closed_bytes c fs1 n = closed_bytes c (lg_files l1) n"
      using parsed that(1) same unfolding same_files_def by blast
    then show "kept c window now (lg_files l) fs1 n x" using that(2) by (simp add: kept_def)
  qed
  from stale show ?thesis
  proof (elim disjE exE conjE)
    assume "lg_disk l1 = lg_disk l"
    then show ?thesis using kept l'(2) by (simp add: live_bytes_def)
  next
    fix n assume n: "map_of (lg_files l) (n @ plainSuffix) = None" "map_of (lg_files l) (n @ gzSuffix) = None" "parseSegmentName n \<noteq> None"
      "lg_files l1 = AList.update (n @ plainSuffix) (D_file (live_bytes l)) (lg_files l)"
    note new = new_segment [OF n(1-3), folded n(4)]
    have "kept c window now (lg_files l) (lg_files l') m x"
      if "present (lg_files l) m" "closed_bytes c (lg_files l) m = Some x" for m x
    proof -
      have "m \<noteq> n" using that(1) new(1) by auto
      with that new_segment(4,5) [OF n(1-3), of m] show ?thesis by (intro kept) (simp_all add: n(4))
    qed
    moreover have "kept c window now (lg_files l) (lg_files l') n (live_bytes l, True)"
      by (rule kept) (use new_segment(2,3) [OF n(1-3)] in \<open>simp_all add: n(4)\<close>)
    ultimately show ?thesis using new(1) by blast
  qed
qed

end
