(* ===== verification/LedgerOpen.thy ===== *)
theory LedgerOpen imports LedgerUpkeep begin

text \<open>
  Opening the ledger: the torn tail of the live file is cut at the last newline, a ledger of one file becomes
  the first segment, leftovers of a crash are reconciled, and a replay reads afterwards what it read before.
\<close>

section \<open>The torn tail\<close>

lemma last_newline_none [simp]: "newline \<notin> set v \<Longrightarrow> last_newline v = None"
  by (induction v) auto

lemma last_newline_some: "newline \<notin> set v \<Longrightarrow> last_newline (u @ newline # v) = Some (length u)"
  by (induction u) simp_all

lemma unlines_last: "ls \<noteq> [] \<Longrightarrow> \<exists>u. unlines ls = u @ [newline]"
  by (cases ls rule: rev_cases) auto

lemma repair_cut_tail:
  assumes "newline \<notin> set t" "length t \<le> maxLedgerLine" "pos \<le> length (unlines ls @ t)" "length (unlines ls) \<le> pos"
  shows "repair_cut (unlines ls @ t) pos = Some (length (unlines ls))"
  using assms(3,4)
proof (induction pos rule: less_induct)
  case (less pos)
  let ?b = "unlines ls @ t"
  show ?case
  proof (cases "pos = 0")
    case True
    with less.prems show ?thesis by (subst repair_cut.simps) simp
  next
    case False
    define n where "n = min 65536 pos"
    define p where "p = pos - n"
    have n: "0 < n" "p + n = pos" "n \<le> pos" using False by (auto simp: n_def p_def)
    have step: "repair_cut ?b pos = (case last_newline (take n (drop p ?b)) of Some i \<Rightarrow> Some (p + i + 1)
        | None \<Rightarrow> if maxLedgerLine < length ?b - p then None else repair_cut ?b p)"
      unfolding p_def n_def using False by (subst repair_cut.simps) (simp only: Let_def if_False)
    show ?thesis
    proof (cases "length (unlines ls) \<le> p")
      case True
      then have "take n (drop p ?b) = take n (drop (p - length (unlines ls)) t)" by simp
      then have none: "last_newline (take n (drop p ?b)) = None"
        using assms(1) by (metis in_set_dropD in_set_takeD last_newline_none)
      have "\<not> maxLedgerLine < length ?b - p" using True assms(2) by simp
      moreover have "repair_cut ?b p = Some (length (unlines ls))"
        using True n less.prems by (intro less.IH) auto
      ultimately show ?thesis unfolding step none by simp
    next
      case False
      then obtain u where u: "unlines ls = u @ [newline]" using unlines_last [of ls] by (cases "ls = []") auto
      have p: "p \<le> length u" using False u by simp
      have "take n (drop p ?b) = drop p u @ newline # take (pos - length (unlines ls)) t"
        using p n(2) less.prems(2) u by (simp add: take_Cons' add.commute)
      moreover have "newline \<notin> set (take (pos - length (unlines ls)) t)" using assms(1) by (meson in_set_takeD)
      ultimately have "last_newline (take n (drop p ?b)) = Some (length u - p)"
        using last_newline_some [of "take (pos - length (unlines ls)) t" "drop p u"] by simp
      then show ?thesis unfolding step using p u by simp
    qed
  qed
qed

lemma repairs:
  assumes "live_bytes l = unlines ls @ t" "newline \<notin> set t" "length t \<le> maxLine"
  shows "repairTornTail truncated synced l = (if t = [] then (True, l) else if \<not> truncated then (False, l)
     else if \<not> synced then (False, set_live (Some (unlines ls)) l)
     else (True, set_live (Some (unlines ls)) (l\<lparr>lg_repaired := length t\<rparr>)))"
proof -
  have "repair_cut (unlines ls @ t) (length (unlines ls @ t)) = Some (length (unlines ls))"
    by (rule repair_cut_tail [OF assms(2)]) (use assms(3) in \<open>simp_all add: maxLedgerLine_def maxLine_def\<close>)
  then show ?thesis using assms(1) by (auto simp: repairTornTail_def Let_def)
qed

section \<open>The same record in other files\<close>

lemma same_files_run:
  assumes "same_files c fs fs'" "only_files fs"
  shows "segment_run c fs' = segment_run c fs"
    "n \<in> set (segment_run c fs) \<Longrightarrow> closed_bytes c fs' n = closed_bytes c fs n"
proof -
  have ok: "map_ok fs" "map_ok fs'" using assms by (simp_all add: same_files_def only_files_def)
  have "present fs' n = present fs n" for n using assms(1) by (cases "parseSegmentName n") (auto simp: same_files_def present_def)
  then show "segment_run c fs' = segment_run c fs"
    using segment_run_ok [OF ok(1), of c] by (intro segment_run_unique [OF ok(2)]) simp_all
  show "closed_bytes c fs' n = closed_bytes c fs n" if "n \<in> set (segment_run c fs)"
  proof -
    have p: "present fs n" using that segment_run_ok(2) [OF ok(1)] by simp
    then have "parseSegmentName n \<noteq> None" by (simp add: present_def)
    with p assms(1) show ?thesis unfolding same_files_def by blast
  qed
qed

text \<open>A directory of readable segments, and a live file of lines with at most a torn last one.\<close>

definition whole_disk :: "ledger_codec \<Rightarrow> ledger_disk \<Rightarrow> bool" where
  "whole_disk c dk = (only_files (ld_files dk) \<and> segments_whole c (ld_files dk) \<and> live_readable (deref_or (ld_live dk) []))"

lemma same_files_whole:
  assumes "same_files c fs fs'" "only_files fs" "segments_whole c fs"
  shows "only_files fs'" "segments_whole c fs'"
proof -
  show only: "only_files fs'" using assms(1,2) by (simp add: same_files_def)
  have "present fs' n = present fs n \<and> (present fs n \<longrightarrow> closed_bytes c fs' n = closed_bytes c fs n)" for n
    using assms(1) unfolding same_files_def by (cases "parseSegmentName n = None") (simp add: present_def, blast)
  then show "segments_whole c fs'" using assms(3) only by (simp add: segments_whole_def only_files_def)
qed

lemma same_files_bytes_of:
  assumes "same_files c (ld_files dk) (ld_files dk')" "only_files (ld_files dk)"
    and "deref_or (ld_live dk') [] = deref_or (ld_live dk) []"
  shows "ledger_bytes c dk' = ledger_bytes c dk"
proof -
  have "map (\<lambda>n. fst (the (closed_bytes c (ld_files dk') n))) (segment_run c (ld_files dk)) =
      map (\<lambda>n. fst (the (closed_bytes c (ld_files dk) n))) (segment_run c (ld_files dk))"
    by (rule map_cong [OF refl]) (use same_files_run(2) [OF assms(1,2)] in simp)
  then show ?thesis by (simp only: ledger_bytes_def same_files_run(1) [OF assms(1,2)] assms(3))
qed

lemma other_marker [simp]: "other_name migratedMarkerName"
proof -
  have "migratedMarkerName \<noteq> n @ p" if "parseSegmentName n \<noteq> None" for n p
    using parse_first [of n] that by (cases n) (auto simp: migratedMarkerName_def)
  then show ?thesis unfolding other_name_def by metis
qed

lemma marker_same: "writeMigratedMarker written fs = (ok, fs') \<Longrightarrow> same_files c fs fs'"
  by (auto simp: writeMigratedMarker_def same_files_other(1) split: if_splits)

section \<open>Migration\<close>

lemma only_segment:
  assumes "only_files fs" "\<And>m. \<not> present fs m" "parseSegmentName n \<noteq> None"
    and "\<forall>l \<in> set ls. line_ok l"
  shows "segment_run c (AList.update (n @ plainSuffix) (D_file (unlines ls)) fs) = [n]"
    "only_files (AList.update (n @ plainSuffix) (D_file (unlines ls)) fs)"
    "segments_whole c (AList.update (n @ plainSuffix) (D_file (unlines ls)) fs)"
    "closed_bytes c (AList.update (n @ plainSuffix) (D_file (unlines ls)) fs) n = Some (unlines ls, True)"
proof -
  let ?fs = "AList.update (n @ plainSuffix) (D_file (unlines ls)) fs"
  show only: "only_files ?fs" by (rule only_files_upd(1) [OF assms(1)])
  have p: "present ?fs m = (m = n)" for m
    using assms(2) [of m] assms(3) by (cases "m = n") (auto simp: present_def)
  show b: "closed_bytes c ?fs n = Some (unlines ls, True)" by (simp add: closed_bytes_def)
  have "map_ok ?fs" using only by (simp add: only_files_def)
  then show "segment_run c ?fs = [n]" by (rule segment_run_unique) (auto simp: p)
  show "segments_whole c ?fs" using \<open>map_ok ?fs\<close> p b assms(4) by (auto simp: segments_whole_def)
qed

lemma unestablished:
  assumes "\<not> segmentsAreEstablished c fs" "map_ok fs"
  shows "\<not> present fs n" "segment_run c fs = []"
proof -
  have "LedgerSegments c fs = []" using assms(1) by (simp add: segmentsAreEstablished_def LedgerSegments_def)
  then show "segment_run c fs = []" by (simp add: segment_run_def)
  then show "\<not> present fs n" using segment_run_ok(2) [OF assms(2), of c] by auto
qed

lemma live_readable_unlines: "\<forall>l \<in> set ls. line_ok l \<Longrightarrow> live_readable (unlines ls)"
  unfolding live_readable_def by (intro exI [of _ ls] exI [of _ "[]"]) simp

lemma migrate_whole:
  assumes "migrateIfMonolithic c io l = (ok, l1)" "whole_disk c (lg_disk l)" "live_bytes l = unlines ls" "\<forall>l \<in> set ls. line_ok l"
    and "day_ok (fst (ledgerDayBounds c (unlines ls) (oi_modified io)))" "day_ok (snd (ledgerDayBounds c (unlines ls) (oi_modified io)))"
  shows "whole_disk c (lg_disk l1)" "ledger_bytes c (lg_disk l1) = ledger_bytes c (lg_disk l)"
    "live_bytes l1 = live_bytes l \<or> live_bytes l1 = []"
proof -
  let ?fs = "lg_files l"
  have w: "only_files ?fs" "segments_whole c ?fs" "map_ok ?fs" "live_readable (unlines ls)"
    using assms(2-4) by (simp_all add: whole_disk_def only_files_def live_bytes_def live_readable_unlines)
  have "whole_disk c (lg_disk l1) \<and> ledger_bytes c (lg_disk l1) = ledger_bytes c (lg_disk l) \<and>
      (live_bytes l1 = live_bytes l \<or> live_bytes l1 = [])"
  proof (cases "segmentsAreEstablished c ?fs \<or> live_bytes l = []")
    case True
    obtain fs where m: "writeMigratedMarker (oi_marker io) ?fs = (ok, fs)" "l1 = set_files fs l"
      using assms(1) True by (auto simp: migrateIfMonolithic_def split: prod.splits)
    note same = marker_same [OF m(1), of c]
    have "ledger_bytes c (lg_disk l1) = ledger_bytes c (lg_disk l)"
      by (rule same_files_bytes_of) (use same w in \<open>simp_all add: m(2) set_files_def\<close>)
    then show ?thesis using same_files_whole [OF same w(1,2)] assms(2)
      by (simp add: m(2) set_files_def whole_disk_def live_bytes_def)
  next
    case False
    obtain lo hi where d: "ledgerDayBounds c (unlines ls) (oi_modified io) = (lo, hi)" by (metis prod.exhaust)
    let ?n = "legacySegmentName lo hi 0"
    let ?fs1 = "AList.update (?n @ plainSuffix) (D_file (unlines ls)) ?fs"
    have "lo \<le> hi" using d by (auto simp: ledgerDayBounds_def Let_def split: if_splits)
    then have parsed: "parseSegmentName ?n \<noteq> None" using assms(5,6) d by (simp add: parse_legacySegmentName)
    note un = unestablished [of c ?fs, OF _ w(3)]
    have only: "segment_run c ?fs1 = [?n]" "only_files ?fs1" "segments_whole c ?fs1" "closed_bytes c ?fs1 ?n = Some (unlines ls, True)"
      using only_segment [OF w(1) _ parsed assms(4)] un(1) False by simp_all
    have old: "ledger_bytes c (lg_disk l) = unlines ls"
      using un(2) False assms(3) by (simp add: ledger_bytes_def live_bytes_def)
    have new: "ledger_bytes c \<lparr>ld_live = b, ld_files = ?fs1\<rparr> = unlines ls" if "deref_or b [] = []" for b
      using that only(1,4) by (simp add: ledger_bytes_def)
    have empty: "live_readable []" using live_readable_unlines [of "[]"] by simp
    consider "l1 = l" | "\<not> oi_reopen io" "l1 = set_live None (set_files ?fs1 l)"
      | fs ok' where "writeMigratedMarker (oi_marker io) ?fs1 = (ok', fs)" "lg_disk l1 = \<lparr>ld_live = Some [], ld_files = fs\<rparr>"
      using assms(1) False d assms(3)
      by (auto simp: migrateIfMonolithic_def Let_def set_live_def set_files_def split: if_splits prod.splits)
    then show ?thesis
    proof cases
      case 1
      then show ?thesis using assms(2) by simp
    next
      case 2
      then show ?thesis using only(2,3) new [of None] old empty
        by (cases "lg_disk l") (simp add: set_live_def set_files_def whole_disk_def live_bytes_def)
    next
      case 3
      note same = marker_same [OF 3(1), of c]
      have "ledger_bytes c (lg_disk l1) = ledger_bytes c \<lparr>ld_live = Some [], ld_files = ?fs1\<rparr>"
        by (rule same_files_bytes_of) (use same only(2) in \<open>simp_all add: 3(2)\<close>)
      then show ?thesis using same_files_whole [OF same only(2,3)] new [of "Some []"] old empty
        by (simp add: 3(2) whole_disk_def live_bytes_def)
    qed
  qed
  then show "whole_disk c (lg_disk l1)" "ledger_bytes c (lg_disk l1) = ledger_bytes c (lg_disk l)"
    "live_bytes l1 = live_bytes l \<or> live_bytes l1 = []" by blast+
qed

section \<open>The opening\<close>

lemma closed_lines:
  assumes "segments_whole c fs"
  shows "\<exists>ms. concat (map (\<lambda>n. fst (the (closed_bytes c fs n))) (segment_run c fs)) = unlines ms \<and> (\<forall>l \<in> set ms. line_ok l)"
proof -
  have "\<exists>ms. concat (map (\<lambda>n. fst (the (closed_bytes c fs n))) ns) = unlines ms \<and> (\<forall>l \<in> set ms. line_ok l)"
    if "set ns \<subseteq> {n. present fs n}" for ns using that
  proof (induction ns)
    case (Cons n ns)
    then obtain ms where "concat (map (\<lambda>n. fst (the (closed_bytes c fs n))) ns) = unlines ms" "\<forall>l \<in> set ms. line_ok l" by auto
    moreover obtain ls where "closed_bytes c fs n = Some (unlines ls, True)" "\<forall>l \<in> set ls. line_ok l"
      using assms Cons.prems by (auto simp: segments_whole_def)
    ultimately show ?case by (intro exI [of _ "ls @ ms"]) auto
  qed (intro exI [of _ "[]"], simp)
  then show ?thesis using segment_run_ok(2) [of fs c] assms by (simp add: segments_whole_def)
qed

lemma line_damage_torn: "damage_add (line_damage c ls) (no_damage\<lparr>dm_TornTail := n\<rparr>) = (line_damage c ls)\<lparr>dm_TornTail := n\<rparr>"
proof -
  have "dm_TornTail (line_damage c ls) = 0"
    by (induction ls) (simp_all add: line_damage_def damage_add_def damaged_line_def no_damage_def)
  then show ?thesis by (cases "line_damage c ls") (simp add: damage_add_def no_damage_def)
qed

lemma read_bytes:
  assumes "whole_disk c dk" "ledger_bytes c dk = unlines ms @ t" "\<forall>l \<in> set ms. line_ok l" "newline \<notin> set t"
  shows "ReadLedger c dk = (line_records c ms, (line_damage c ms)\<lparr>dm_TornTail := length t\<rparr>, False)"
  using read_disk [of c dk] assms completeLines_unlines [OF line_ok_newline [OF assms(3)] assms(4)]
  by (simp add: whole_disk_def line_damage_torn)

lemma migrate_open: "migrateIfMonolithic c io l = (ok, l1) \<Longrightarrow> lg_open l1 = lg_open l"
  by (auto simp: migrateIfMonolithic_def Let_def set_live_def set_files_def split: if_splits prod.splits)

lemma readDay_disk [simp]: "lg_disk (readDay c m l) = lg_disk l" "lg_open (readDay c m l) = lg_open l"
  by (simp_all add: readDay_def split: prod.split)

text \<open>C17: OPENING KEEPS THE RECORD.  Take a ledger whose segments are readable and whose live file is whole lines
  with at most one torn line behind them, dated in years that a segment name can hold, a digest without collisions, and let the disk
  answer each step of the opening in any way.  A replay afterwards delivers the records, in the order, and
  counts the damaged lines that a replay before would have; if the ledger opened, the torn line is gone and
  nothing else, whether the live file stayed, became the first segment, or leftovers of a crash were
  reconciled.  The new disk is again of this shape, so the same holds of every later opening.\<close>

theorem opening_keeps_the_record:
  assumes "inj (lc_sha c)" "whole_disk c dk" "deref_or (ld_live dk) [] = unlines ls @ t" "\<forall>l \<in> set ls. line_ok l" "newline \<notin> set t"
    and "day_ok (fst (ledgerDayBounds c (unlines ls) (oi_modified io)))" "day_ok (snd (ledgerDayBounds c (unlines ls) (oi_modified io)))"
    and "OpenLedger c io dk = (opened, dk')" "ReadLedger c dk = (rs, d, failed)"
  shows "whole_disk c dk' \<and> \<not> failed \<and>
    (case opened of
       None \<Rightarrow> \<exists>torn \<in> {0, length t}. ReadLedger c dk' = (rs, d\<lparr>dm_TornTail := torn\<rparr>, False)
     | Some l \<Rightarrow> lg_disk l = dk' \<and> lg_open l \<and> ReadLedger c dk' = (rs, d\<lparr>dm_TornTail := 0\<rparr>, False))"
proof -
  obtain cs where cs: "concat (map (\<lambda>n. fst (the (closed_bytes c (ld_files dk) n))) (segment_run c (ld_files dk))) = unlines cs"
    "\<forall>l \<in> set cs. line_ok l" using closed_lines assms(2) unfolding whole_disk_def by blast
  define ms where "ms = cs @ ls"
  have ms: "ledger_bytes c dk = unlines ms @ t" "\<forall>l \<in> set ms. line_ok l"
    using cs assms(3,4) by (auto simp: ledger_bytes_def ms_def)
  have old: "rs = line_records c ms" "d\<lparr>dm_TornTail := n\<rparr> = (line_damage c ms)\<lparr>dm_TornTail := n\<rparr>" "\<not> failed" for n
    using read_bytes [OF assms(2) ms assms(5)] assms(9) by auto
  have read: "ReadLedger c dk1 = (rs, d\<lparr>dm_TornTail := length t1\<rparr>, False)"
    if "whole_disk c dk1" "ledger_bytes c dk1 = unlines ms @ t1" "newline \<notin> set t1" for dk1 t1
    unfolding old(1,2) using read_bytes [OF that(1,2) ms(2) that(3)] .
  let ?dk0 = "dk\<lparr>ld_live := Some (unlines ls @ t)\<rparr>" and ?dk1 = "dk\<lparr>ld_live := Some (unlines ls)\<rparr>"
  have dk0: "whole_disk c ?dk0" "ledger_bytes c ?dk0 = unlines ms @ t"
    using assms(2,3) ms(1) by (simp_all add: whole_disk_def ledger_bytes_def)
  have dk1: "whole_disk c ?dk1" "ledger_bytes c ?dk1 = unlines ms"
    using assms(2) live_readable_unlines [OF assms(4)] cs(1) by (simp_all add: whole_disk_def ledger_bytes_def ms_def)
  have t: "length t \<le> maxLine"
  proof -
    obtain ks u where k: "unlines ls @ t = unlines ks @ u" "\<forall>l \<in> set ks. line_ok l" "newline \<notin> set u" "length u \<le> maxLine"
      using assms(2,3) by (auto simp: whole_disk_def live_readable_def)
    have "ls = ks" using completeLines_unlines [OF line_ok_newline [OF assms(4)] assms(5)]
        completeLines_unlines [OF line_ok_newline [OF k(2)] k(3)] by (simp add: k(1))
    with k show ?thesis by simp
  qed
  note rep = repairs [of "new_ledger ?dk0" ls t "oi_repair io" "oi_repair_sync io", OF _ assms(5) t]
  have live0: "live_bytes (new_ledger ?dk0) = unlines ls @ t" by (simp add: live_bytes_def new_ledger_def)
  have start: "dk\<lparr>ld_live := Some (deref_or (ld_live dk) [])\<rparr> = ?dk0" by (simp add: assms(3))
  show ?thesis
  proof (cases "t \<noteq> [] \<and> \<not> (oi_repair io \<and> oi_repair_sync io)")
    case True
    then have "opened = None" "dk' = (if oi_repair io then ?dk1 else ?dk0)"
      using assms(8) rep [OF live0] by (auto simp: OpenLedger_def start Let_def set_live_def new_ledger_def split: if_splits)
    then show ?thesis using dk0 dk1 read [OF dk0 assms(5)] read [of ?dk1 "[]"] old(3) by (cases "oi_repair io") auto
  next
    case False
    define l where "l = (if t = [] then new_ledger ?dk0 else set_live (Some (unlines ls)) ((new_ledger ?dk0)\<lparr>lg_repaired := length t\<rparr>))"
    have l: "repairTornTail (oi_repair io) (oi_repair_sync io) (new_ledger ?dk0) = (True, l)" "lg_disk l = ?dk1" "lg_open l" "live_bytes l = unlines ls"
      using False rep by (auto simp: l_def live_bytes_def new_ledger_def set_live_def)
    obtain ok l1 where m: "migrateIfMonolithic c io l = (ok, l1)" by (metis prod.exhaust)
    note mig = migrate_whole [OF m _ l(4) assms(4,6,7), unfolded l(2), OF dk1(1)]
    have bytes1: "ledger_bytes c (lg_disk l1) = unlines ms @ []" using mig(2) dk1(2) by simp
    show ?thesis
    proof (cases ok)
      case False
      then have "opened = None" "dk' = lg_disk l1" using assms(3,8) l(1) m by (simp_all add: OpenLedger_def Let_def)
      then show ?thesis using mig(1) read [OF mig(1) bytes1] old(3) by simp
    next
      case True
      obtain rc fs where r: "reconcileSegments c (oi_removes io) (lg_files l1) = (rc, fs)" by (metis prod.exhaust)
      have only: "only_files (lg_files l1)" "segments_whole c (lg_files l1)" using mig(1) by (simp_all add: whole_disk_def)
      then have same: "same_files c (lg_files l1) fs"
        using reconcile_same [OF assms(1), of "lg_files l1" "oi_removes io"] r by (simp add: only_files_def)
      let ?dk2 = "(lg_disk l1)\<lparr>ld_files := fs\<rparr>"
      have "dk' = ?dk2" "opened \<noteq> None \<longrightarrow> lg_disk (the opened) = dk' \<and> lg_open (the opened)"
        using assms(3,8) l(1,3) m True r migrate_open [OF m] by (auto simp: OpenLedger_def Let_def set_files_def split: if_splits)
      moreover have "whole_disk c ?dk2" using same_files_whole [OF same only] mig(1) by (simp add: whole_disk_def)
      moreover have "ledger_bytes c ?dk2 = ledger_bytes c (lg_disk l1)"
        by (rule same_files_bytes_of) (use same only(1) in simp_all)
      ultimately show ?thesis using read [of ?dk2 "[]"] bytes1 old(3) by (auto split: option.split)
    qed
  qed
qed

end
