(* ===== verification/LedgerDays.thy ===== *)
theory LedgerDays imports LedgerOpen begin

text \<open>
  The days a live file is dated from: the chunks read at its two ends hold at least one whole line each, as long
  as every record is shorter than a chunk.
\<close>

section \<open>The days a live file is dated from\<close>

lemma completeLines_none: "newline \<notin> set t \<Longrightarrow> completeLines_from t = []"
  using completeLines_unlines [of "[]" t] by simp

lemma completeLines_Cons: "newline \<notin> set l \<Longrightarrow> completeLines_from (l @ newline # b) = l # completeLines_from b"
  by (subst completeLines_from.simps) (simp add: split_line)

lemma completeLines_take:
  assumes "\<forall>l \<in> set ls. newline \<notin> set l" "ls \<noteq> []" "length (hd ls) < n"
  shows "\<exists>j. completeLines_from (take n (unlines ls)) = hd ls # take j (tl ls)"
proof -
  have "\<exists>j. completeLines_from (take n (unlines ls)) = take j ls" if "\<forall>l \<in> set ls. newline \<notin> set l" for n ls
    using that
  proof (induction ls arbitrary: n)
    case (Cons l ls)
    show ?case
    proof (cases "length l < n")
      case True
      then have "take n (unlines (l # ls)) = l @ newline # take (n - length l - 1) (unlines ls)"
        by (simp add: take_Cons')
      moreover obtain j where "completeLines_from (take (n - length l - 1) (unlines ls)) = take j ls"
        using Cons by auto
      ultimately show ?thesis using Cons.prems completeLines_Cons [of l] by (intro exI [of _ "Suc j"]) simp
    next
      case False
      then have "newline \<notin> set (take n (unlines (l # ls)))" using Cons.prems by (auto dest: in_set_takeD)
      then show ?thesis by (intro exI [of _ 0]) (metis completeLines_none take_0)
    qed
  qed (simp add: completeLines_none)
  from this [of "tl ls" "n - length (hd ls) - 1"] assms obtain j where
    "completeLines_from (take (n - length (hd ls) - 1) (unlines (tl ls))) = take j (tl ls)"
    by (cases ls) auto
  moreover have "take n (unlines ls) = hd ls @ newline # take (n - length (hd ls) - 1) (unlines (tl ls))"
    using assms(2,3) by (cases ls) (simp_all add: take_Cons')
  ultimately show ?thesis using assms completeLines_Cons [of "hd ls"] by (intro exI [of _ j]) simp
qed

lemma completeLines_drop:
  assumes "\<forall>l \<in> set ls. newline \<notin> set l" "s < length (unlines ls)"
  shows "\<exists>x j. completeLines_from (drop s (unlines ls)) = x # drop j ls \<and>
    (drop j ls = [] \<longrightarrow> length (unlines ls) \<le> s + length (last ls) + 1)"
  using assms
proof (induction ls arbitrary: s)
  case (Cons l ls)
  have whole: "completeLines_from (unlines ls) = ls"
    using completeLines_unlines [of ls "[]"] Cons.prems(1) by simp
  show ?case
  proof (cases "s \<le> length l")
    case True
    moreover have "newline \<notin> set (drop s l)" using Cons.prems(1) by (auto dest: in_set_dropD)
    ultimately show ?thesis using whole
      by (intro exI [of _ "drop s l"] exI [of _ "Suc 0"]) (simp add: completeLines_Cons)
  next
    case False
    then have "drop s (unlines (l # ls)) = drop (s - length l - 1) (unlines ls)" by (simp add: drop_Cons')
    moreover have s: "s - length l - 1 < length (unlines ls)" using Cons.prems(2) False by simp
    moreover have "\<forall>l \<in> set ls. newline \<notin> set l" using Cons.prems(1) by simp
    ultimately obtain x j where "completeLines_from (drop s (unlines (l # ls))) = x # drop j ls"
      "drop j ls = [] \<longrightarrow> length (unlines ls) \<le> s - length l - 1 + length (last ls) + 1" using Cons.IH by metis
    moreover have "ls \<noteq> []" using s by auto
    ultimately show ?thesis using False by (intro exI [of _ x] exI [of _ "Suc j"]) auto
  qed
qed simp

definition record_fine :: "ledger_codec \<Rightarrow> ledger_record \<Rightarrow> bool" where
  "record_fine c r = (0 < lr_RecordedAt r \<and> day_ok (dayOfMs (lr_RecordedAt r)) \<and>
     (\<exists>b. lc_mar c r = Some b \<and> b \<noteq> [] \<and> newline \<notin> set b \<and> length b + 1 < bounds_chunk \<and> lc_unm c b = Some r))"

definition enc :: "ledger_codec \<Rightarrow> ledger_record \<Rightarrow> bytes" where
  "enc c r = the (lc_mar c r)"

abbreviation day_of :: "ledger_record \<Rightarrow> day" where
  "day_of r \<equiv> dayOfMs (lr_RecordedAt r)"

lemma enc_facts:
  assumes "record_fine c r"
  shows "lc_mar c r = Some (enc c r)" "enc c r \<noteq> []" "newline \<notin> set (enc c r)" "length (enc c r) + 1 < bounds_chunk"
    "lc_unm c (enc c r) = Some r" "line_ok (enc c r)" "recordedAtOf c (enc c r) = Some (lr_RecordedAt r)"
  using assms by (auto simp: record_fine_def enc_def line_ok_def maxLine_def MaxFrameBytes_def bounds_chunk_def recordedAtOf_def)

lemma enc_lines:
  assumes "\<forall>r \<in> set rs. record_fine c r"
  shows "\<forall>l \<in> set (map (enc c) rs). line_ok l" "\<forall>l \<in> set (map (enc c) rs). newline \<notin> set l"
    "line_records c (map (enc c) rs) = rs" "line_damage c (map (enc c) rs) = no_damage"
  using assms
proof (induction rs)
  case (Cons r rs)
  { case 1 then show ?case using Cons enc_facts by simp }
  { case 2 then show ?case using Cons enc_facts by simp }
  { case 3 then show ?case using Cons enc_facts [of c r] by (simp add: line_records_def map_filter_simps) }
  { case 4 then show ?case using Cons enc_facts [of c r] by (simp add: line_damage_def) }
qed (simp_all add: line_records_def line_damage_def map_filter_simps)

lemma first_some_hd: "xs \<noteq> [] \<Longrightarrow> f (hd xs) = Some y \<Longrightarrow> first_some f xs = Some y"
  by (cases xs) (simp_all add: first_some_def map_filter_simps)

lemma length_last_le: "ls \<noteq> [] \<Longrightarrow> length (last ls) + 1 \<le> length (unlines ls)"
  by (induction ls) auto

lemma live_days:
  assumes "\<forall>r \<in> set rs. record_fine c r" "rs \<noteq> []"
  shows "fst (ledgerDayBounds c (unlines (map (enc c) rs)) fb) \<in> day_of ` set rs"
    "snd (ledgerDayBounds c (unlines (map (enc c) rs)) fb) \<in> day_of ` set rs"
proof -
  let ?ls = "map (enc c) rs"
  let ?b = "unlines (map (enc c) rs)"
  note l = enc_lines(2) [OF assms(1)]
  have ne: "?ls \<noteq> []" "hd ?ls = enc c (hd rs)" "last ?ls = enc c (last rs)" using assms(2) by (simp_all add: hd_map last_map)
  have hd: "record_fine c (hd rs)" "record_fine c (last rs)" using assms by auto
  obtain j where j: "completeLines_from (take bounds_chunk ?b) = hd ?ls # take j (tl ?ls)"
    using completeLines_take [OF l ne(1), of bounds_chunk] enc_facts(4) [OF hd(1)] ne(2) by auto
  have lo: "first_some (recordedAtOf c) (completeLines (take bounds_chunk ?b) True) = Some (lr_RecordedAt (hd rs))"
    by (rule first_some_hd) (use j enc_facts(7) [OF hd(1)] ne(2) in \<open>simp_all add: completeLines_def\<close>)
  let ?s = "length ?b - bounds_chunk"
  have "\<exists>j. completeLines (drop ?s ?b) (?s = 0) = drop j ?ls \<and> drop j ?ls \<noteq> []"
  proof (cases "?s = 0")
    case True
    then have "completeLines (drop ?s ?b) (?s = 0) = drop 0 ?ls"
      using completeLines_unlines [OF l, of "[]"] by (simp add: completeLines_def)
    then show ?thesis using ne(1) drop_0 by metis
  next
    case False
    then have "?s < length ?b" "length ?b - ?s = bounds_chunk" by (auto simp: bounds_chunk_def)
    with completeLines_drop [OF l, of ?s] obtain x j where
      j: "completeLines_from (drop ?s ?b) = x # drop j ?ls" "drop j ?ls = [] \<longrightarrow> length ?b \<le> ?s + length (last ?ls) + 1" by blast
    have "completeLines (drop ?s ?b) (?s = 0) = drop j ?ls" using False j(1) by (simp add: completeLines_def)
    moreover have "drop j ?ls \<noteq> []"
    proof
      assume "drop j ?ls = []"
      then have "length ?b - ?s \<le> length (last ?ls) + 1" using j(2) by simp
      then show False using \<open>length ?b - ?s = bounds_chunk\<close> enc_facts(4) [OF hd(2)] ne(3) by simp
    qed
    ultimately show ?thesis by blast
  qed
  then obtain j where h: "completeLines (drop ?s ?b) (?s = 0) = drop j ?ls" "drop j ?ls \<noteq> []" by blast
  then have "hd (rev (completeLines (drop ?s ?b) (?s = 0))) = enc c (last rs)"
    by (metis hd_rev last_drop drop_eq_Nil linorder_not_le ne(3))
  then have hi: "first_some (recordedAtOf c) (rev (completeLines (drop ?s ?b) (?s = 0))) = Some (lr_RecordedAt (last rs))"
    using h enc_facts(7) [OF hd(2)] by (intro first_some_hd) simp_all
  have "hd rs \<in> set rs" "last rs \<in> set rs" using assms(2) by simp_all
  then show "fst (ledgerDayBounds c ?b fb) \<in> day_of ` set rs" "snd (ledgerDayBounds c ?b fb) \<in> day_of ` set rs"
    unfolding ledgerDayBounds_def Let_def lo hi by auto
qed

end
