(* ===== verification/LedgerRun.thy ===== *)
theory LedgerRun imports LedgerDays "HOL-Library.Sublist" begin

text \<open>
  Runs of the ledger: appends with their rotations, upkeep, kills at any point and restarts, in any order and
  with any answers of the disk, and the claim that a replay delivers what was acknowledged.
\<close>

section \<open>Events\<close>

datatype ledger_event =
  LE_append append_io ledger_record
| LE_torn append_io nat ledger_record
| LE_rotate rotate_io
| LE_upkeep upkeep_io bool time
| LE_killed_compress bool bytes bytes
| LE_stop
| LE_open open_io

text \<open>The ledger and the records whose append has returned without an error.\<close>

fun run_event :: "ledger_codec \<Rightarrow> ledger_event \<Rightarrow> ledger \<times> ledger_record list \<Rightarrow> ledger \<times> ledger_record list" where
  "run_event c (LE_append io r) (l, acked) =
     (case AppendAt c io r l of ((off, seg, ok), l1) \<Rightarrow> (l1, if ok then acked @ [r] else acked))"
| "run_event c (LE_torn io n r) (l, acked) =
     (ledgerClose (snd (AppendAt c (io\<lparr>ai_short := Some n, ai_truncate := False\<rparr>) r l)), acked)"
| "run_event c (LE_rotate io) (l, acked) = (snd (RotateNow io l), acked)"
| "run_event c (LE_upkeep io off now) (l, acked) = (snd (ledgerMaintenancePass c io off 0 now l), acked)"
| "run_event c (LE_killed_compress renamed stored n) (l, acked) =
     (ledgerClose (set_files (if renamed then killed_after_rename c stored n (lg_files l)
        else killed_in_write stored n (lg_files l)) l), acked)"
| "run_event c LE_stop (l, acked) = (ledgerClose l, acked)"
| "run_event c (LE_open io) (l, acked) =
     (case OpenLedger c io (lg_disk l) of
        (Some l1, dk) \<Rightarrow> (l1, acked)
      | (None, dk) \<Rightarrow> ((ledgerClose l)\<lparr>lg_disk := dk\<rparr>, acked))"

definition run_events :: "ledger_codec \<Rightarrow> ledger_event list \<Rightarrow> ledger \<times> ledger_record list" where
  "run_events c es = fold (run_event c) es (ledgerClose (new_ledger \<lparr>ld_live = None, ld_files = []\<rparr>), [])"

fun event_records :: "ledger_event \<Rightarrow> ledger_record list" where
  "event_records (LE_append io r) = [r]"
| "event_records (LE_torn io n r) = [r]"
| "event_records _ = []"

definition submitted :: "ledger_event list \<Rightarrow> ledger_record list" where
  "submitted es = concat (map event_records es)"

text \<open>A write that fails part way is undone, unless the process dies over it.\<close>

fun event_ok :: "ledger_codec \<Rightarrow> ledger_event \<Rightarrow> bool" where
  "event_ok c (LE_append io r) = (record_fine c r \<and> (ai_short io \<noteq> None \<longrightarrow> ai_stat io \<and> ai_truncate io))"
| "event_ok c (LE_torn io n r) = record_fine c r"
| "event_ok c _ = True"

section \<open>The invariant\<close>

text \<open>The closed segments are the first \<open>k d\<close> of each day \<open>d\<close>.\<close>

definition named_segments :: "files \<Rightarrow> (day \<Rightarrow> nat) \<Rightarrow> bool" where
  "named_segments fs k = ((\<forall>n. present fs n \<longleftrightarrow> (\<exists>d q. q < k d \<and> n = segmentName d q)) \<and>
     (\<forall>d. k d \<le> 10000) \<and> (\<forall>d. 0 < k d \<longrightarrow> day_ok d))"

definition closed_concat :: "ledger_codec \<Rightarrow> files \<Rightarrow> bytes" where
  "closed_concat c fs = concat (map (\<lambda>n. fst (the (closed_bytes c fs n))) (segment_run c fs))"

text \<open>\<open>crs\<close> are the records in closed segments, \<open>lrs\<close> those in the live file, \<open>t\<close> what is torn behind them.\<close>

definition ledger_holds ::
  "ledger_codec \<Rightarrow> ledger_record list \<Rightarrow> ledger \<Rightarrow> ledger_record list \<Rightarrow> ledger_record list \<Rightarrow> bytes \<Rightarrow> (day \<Rightarrow> nat) \<Rightarrow> bool"
where
  "ledger_holds c sub l crs lrs t k =
     (only_files (lg_files l) \<and> segments_whole c (lg_files l) \<and> named_segments (lg_files l) k \<and>
      closed_concat c (lg_files l) = unlines (map (enc c) crs) \<and> live_bytes l = unlines (map (enc c) lrs) @ t \<and>
      newline \<notin> set t \<and> length t \<le> maxLine \<and> (lg_open l \<longrightarrow> t = []) \<and>
      (\<forall>r \<in> set (crs @ lrs). record_fine c r) \<and> subseq (crs @ lrs) sub \<and>
      (\<forall>d. 0 < k d \<longrightarrow> (\<forall>r \<in> set lrs. d \<le> day_of r) \<and> (\<exists>r \<in> set sub. d \<le> day_of r)) \<and>
      (\<forall>e. lg_day l = Some e \<longrightarrow> day_ok e \<and> (\<forall>d. 0 < k d \<longrightarrow> d \<le> e) \<and> (\<exists>r \<in> set sub. e \<le> day_of r)) \<and>
      (map_of (lg_files l) migratedMarkerName = None \<longrightarrow> live_bytes l = [] \<and> \<not> lg_open l))"

definition ledger_inv :: "ledger_codec \<Rightarrow> ledger_record list \<Rightarrow> ledger \<times> ledger_record list \<Rightarrow> bool" where
  "ledger_inv c sub p = (\<exists>crs lrs t k. ledger_holds c sub (fst p) crs lrs t k \<and> subseq (snd p) (crs @ lrs))"

lemma same_files_concat: "same_files c fs fs' \<Longrightarrow> only_files fs \<Longrightarrow> closed_concat c fs' = closed_concat c fs"
  unfolding closed_concat_def
  by (simp only: same_files_run(1)) (rule arg_cong [of _ _ concat], rule map_cong [OF refl], simp add: same_files_run(2))

lemma same_files_present: "same_files c fs fs' \<Longrightarrow> present fs' n = present fs n"
  by (cases "parseSegmentName n") (auto simp: same_files_def present_def)

lemma holds_files:
  assumes "ledger_holds c sub l crs lrs t k" "same_files c (lg_files l) fs"
  shows "ledger_holds c sub (set_files fs l) crs lrs t k"
  using assms same_files_whole [OF assms(2)] same_files_concat [OF assms(2)] same_files_present [OF assms(2)]
  by (auto simp: ledger_holds_def set_files_def live_bytes_def named_segments_def same_files_def)

text \<open>The invariant speaks of the disk, the day and whether the file is open.\<close>

lemma holds_cong:
  assumes "ledger_holds c sub l crs lrs t k" "lg_disk l' = lg_disk l" "lg_open l' \<longrightarrow> lg_open l" "lg_day l' \<in> {lg_day l, None}"
  shows "ledger_holds c sub l' crs lrs t k"
  using assms by (auto simp: ledger_holds_def live_bytes_def)

lemma holds_close: "ledger_holds c sub l crs lrs t k \<Longrightarrow> ledger_holds c sub (ledgerClose l) crs lrs t k"
  by (rule holds_cong [where l = l]) (simp_all add: ledgerClose_def)

section \<open>Rotation\<close>

lemma only_files_entry: "only_files fs \<Longrightarrow> entry_bytes fs k = None \<longleftrightarrow> map_of fs k = None"
  by (auto simp: only_files_def entry_bytes_def split: option.split dir_entry.split)

lemma segment_order:
  assumes "day_ok d" "q < 10000" "day_ok e" "p < 10000" "d < e \<or> d = e \<and> q < p"
  shows "name_before (segmentName d q) (segmentName e p)"
  using assms by (auto simp: name_before_def parse_segmentName segmentOrder_def named_segment_def)

lemma segment_present: "present fs (segmentName d q) \<Longrightarrow> map_of fs (segmentName d q @ plainSuffix) \<noteq> None \<or> map_of fs (segmentName d q @ gzSuffix) \<noteq> None"
  by (auto simp: present_def entry_bytes_def split: option.splits dir_entry.splits)

lemma free_next:
  assumes "named_segments fs k" "only_files fs" "freeSegmentName fs d = Some n" "day_ok d"
  shows "n = segmentName d (k d)" "k d < 10000"
proof -
  obtain q where q: "q < 10000" "n = segmentName d q" "map_of fs (n @ plainSuffix) = None" "map_of fs (n @ gzSuffix) = None"
    "\<forall>p < q. map_of fs (segmentName d p @ plainSuffix) \<noteq> None \<or> map_of fs (segmentName d p @ gzSuffix) \<noteq> None"
    using free_name [OF assms(3)] by blast
  have "\<not> present fs n" using q(3,4) by (simp add: present_def no_entry)
  then have "\<not> q < k d" using assms(1) q(2) by (auto simp: named_segments_def)
  moreover have "\<not> k d < q"
  proof
    assume "k d < q"
    then have "map_of fs (segmentName d (k d) @ plainSuffix) \<noteq> None \<or> map_of fs (segmentName d (k d) @ gzSuffix) \<noteq> None"
      and kd: "k d < 10000" using q(1,5) by auto
    then have "entry_bytes fs (segmentName d (k d) @ plainSuffix) \<noteq> None \<or> entry_bytes fs (segmentName d (k d) @ gzSuffix) \<noteq> None"
      using only_files_entry [OF assms(2)] by simp
    then have "present fs (segmentName d (k d))" using parse_segmentName [OF assms(4) kd] by (simp add: present_def)
    then obtain e p where e: "p < k e" "segmentName d (k d) = segmentName e p" using assms(1) by (auto simp: named_segments_def)
    have ke: "k e \<le> 10000" "0 < k e \<longrightarrow> day_ok e" using assms(1) by (simp_all add: named_segments_def)
    then have "p < 10000" using e(1) order.strict_trans2 by blast
    moreover have "day_ok e" using ke(2) e(1) by simp
    moreover note e(2) kd assms(4)
    ultimately have "e = d \<and> p = k d" using segmentName_inj by metis
    with e(1) show False by simp
  qed
  ultimately show "n = segmentName d (k d)" "k d < 10000" using q(1,2) by (auto simp: linorder_neq_iff)
qed

lemma rotate_parts:
  "lg_day (snd (rotateLocked io d l)) \<in> {lg_day l, None}" "lg_open (snd (rotateLocked io d l)) \<longrightarrow> lg_open l"
  "lg_disk (snd (rotateLocked io d l)) = lg_disk l \<or> lg_open l"
  by (auto simp: rotateLocked_def fresh_day_def set_live_def set_files_def Let_def split: option.split)

lemma present_new:
  assumes "parseSegmentName n \<noteq> None"
  shows "present (AList.update (n @ plainSuffix) (D_file b) fs) m \<longleftrightarrow> m = n \<or> present fs m"
  using assms by (cases "m = n") (auto simp: present_def)

lemma run_new:
  assumes "only_files fs" "parseSegmentName n \<noteq> None" "\<forall>m. present fs m \<longrightarrow> name_before m n"
  shows "segment_run c (AList.update (n @ plainSuffix) (D_file b) fs) = segment_run c fs @ [n]"
proof (rule segment_run_unique)
  have ok: "map_ok fs" using assms(1) by (simp add: only_files_def)
  then show "map_ok (AList.update (n @ plainSuffix) (D_file b) fs)" by blast
  show "sorted_wrt name_before (segment_run c fs @ [n])"
    using segment_run_ok(1,2) [OF ok, of c] assms(3) by (simp add: sorted_wrt_append)
  show "set (segment_run c fs @ [n]) = {m. present (AList.update (n @ plainSuffix) (D_file b) fs) m}"
    using segment_run_ok(2) [OF ok, of c] present_new [OF assms(2)] by auto
qed

lemma concat_new:
  assumes "only_files fs" "parseSegmentName n \<noteq> None" "\<forall>m. present fs m \<longrightarrow> name_before m n" "\<not> present fs n"
  shows "closed_concat c (AList.update (n @ plainSuffix) (D_file b) fs) = closed_concat c fs @ b"
proof -
  let ?fs = "AList.update (n @ plainSuffix) (D_file b) fs"
  have ok: "map_ok fs" using assms(1) by (simp add: only_files_def)
  have "closed_bytes c ?fs m = closed_bytes c fs m" if "m \<in> set (segment_run c fs)" for m
  proof -
    have "m \<noteq> n" using that assms(4) segment_run_ok(2) [OF ok, of c] by auto
    then show ?thesis by (simp add: closed_bytes_def cong: option.case_cong)
  qed
  then have "map (\<lambda>n. fst (the (closed_bytes c ?fs n))) (segment_run c fs) = map (\<lambda>n. fst (the (closed_bytes c fs n))) (segment_run c fs)"
    by (intro map_cong) simp_all
  moreover have "closed_bytes c ?fs n = Some (b, True)" by (simp add: closed_bytes_def)
  ultimately show ?thesis unfolding closed_concat_def run_new [OF assms(1-3)]
    by (simp only: map_append concat_append list.map concat.simps fst_conv option.sel append_Nil2)
qed

lemma rotate_holds:
  assumes "ledger_holds c sub l crs lrs t k" "lg_day l = Some d"
  shows "\<exists>crs' lrs' t' k'. ledger_holds c sub (snd (rotateLocked io d l)) crs' lrs' t' k' \<and> crs' @ lrs' = crs @ lrs"
proof (cases "lg_disk (snd (rotateLocked io d l)) = lg_disk l")
  case True
  then have "ledger_holds c sub (snd (rotateLocked io d l)) crs lrs t k"
    using holds_cong [OF assms(1)] rotate_parts by blast
  then show ?thesis by blast
next
  case False
  let ?l = "snd (rotateLocked io d l)" and ?fs = "lg_files l"
  obtain n where n: "freeSegmentName ?fs d = Some n" "live_bytes ?l = []"
      "lg_files ?l = AList.update (n @ plainSuffix) (D_file (live_bytes l)) ?fs" and op: "lg_open l"
    using rotate_disk [of io d l] rotate_parts(3) [of io d l] False by blast
  have h: "only_files ?fs" "segments_whole c ?fs" "named_segments ?fs k" "closed_concat c ?fs = unlines (map (enc c) crs)"
    "live_bytes l = unlines (map (enc c) lrs)" "\<forall>r \<in> set (crs @ lrs). record_fine c r" "subseq (crs @ lrs) sub"
    "\<And>e. 0 < k e \<Longrightarrow> (\<exists>r \<in> set sub. e \<le> day_of r)" "day_ok d" "\<And>e. 0 < k e \<Longrightarrow> e \<le> d" "\<exists>r \<in> set sub. d \<le> day_of r"
    "map_of ?fs migratedMarkerName \<noteq> None"
    using assms op unfolding ledger_holds_def by auto
  note free = free_next [OF h(3,1) n(1) h(9)]
  have parsed: "parseSegmentName n \<noteq> None" using parse_segmentName [OF h(9) free(2)] free(1) by simp
  have before: "\<forall>m. present ?fs m \<longrightarrow> name_before m n"
  proof (intro allI impI)
    fix m assume "present ?fs m"
    then obtain e p where e: "p < k e" "m = segmentName e p" using h(3) by (auto simp: named_segments_def)
    moreover have "k e \<le> 10000" "day_ok e" using e(1) h(3) by (simp_all add: named_segments_def)
    moreover have "e \<le> d" using h(10) e(1) by (metis gr_zeroI not_less0)
    ultimately show "name_before m n" unfolding e(2) free(1)
      using h(9) free(2) by (intro segment_order) auto
  qed
  then have absent: "\<not> present ?fs n" using name_before_order(1) by blast
  let ?k = "k(d := k d + 1)"
  have named: "named_segments (lg_files ?l) ?k"
  proof -
    have "present (lg_files ?l) m \<longleftrightarrow> (\<exists>e q. q < ?k e \<and> m = segmentName e q)" for m
      unfolding n(3) present_new [OF parsed] using h(3) free(1) by (auto simp: named_segments_def less_Suc_eq)
    moreover have "\<forall>e. ?k e \<le> 10000" "\<forall>e. 0 < ?k e \<longrightarrow> day_ok e" using h(3,9) free(2) by (auto simp: named_segments_def)
    ultimately show ?thesis unfolding named_segments_def by blast
  qed
  have lines: "\<forall>l \<in> set (map (enc c) lrs). line_ok l" by (rule enc_lines(1)) (use h(6) in simp)
  have whole: "segments_whole c (lg_files ?l)"
  proof -
    have "\<exists>ls. closed_bytes c (lg_files ?l) m = Some (unlines ls, True) \<and> (\<forall>l \<in> set ls. line_ok l)" if "present (lg_files ?l) m" for m
    proof (cases "m = n")
      case True
      then show ?thesis using lines h(5) by (intro exI [of _ "map (enc c) lrs"]) (simp add: n(3) closed_bytes_def)
    next
      case False
      then have "present ?fs m" using that unfolding n(3) present_new [OF parsed] by simp
      then show ?thesis using h(2) False by (simp add: segments_whole_def n(3) closed_bytes_def cong: option.case_cong)
    qed
    then show ?thesis using h(1) by (simp add: segments_whole_def n(3) only_files_def)
  qed
  have bytes: "closed_concat c (lg_files ?l) = unlines (map (enc c) (crs @ lrs))"
    unfolding n(3) concat_new [OF h(1) parsed before absent] h(4,5) by simp
  have "ledger_holds c sub ?l (crs @ lrs) [] [] ?k"
    unfolding ledger_holds_def
    using named whole bytes h n(2) rotate_parts(1) [of io d l] assms(2)
    by (auto simp: n(3) only_files_upd(1))
  then show ?thesis by (metis append_Nil2)
qed

lemma maybe_rotate_holds:
  assumes "ledger_holds c sub l crs lrs t k"
  shows "\<exists>crs' lrs' t' k'. ledger_holds c sub (maybeRotateLocked io ms l) crs' lrs' t' k' \<and> crs' @ lrs' = crs @ lrs"
proof (cases "maybeRotateLocked io ms l = l")
  case False
  then obtain d where d: "lg_day l = Some d" by (auto simp: maybeRotateLocked_def split: option.splits)
  let ?l = "snd (rotateLocked io d l)"
  obtain crs' lrs' t' k' where h: "ledger_holds c sub ?l crs' lrs' t' k'" "crs' @ lrs' = crs @ lrs"
    using rotate_holds [OF assms d] by blast
  have "lg_disk (maybeRotateLocked io ms l) = lg_disk ?l \<and> lg_open (maybeRotateLocked io ms l) = lg_open ?l \<and>
      lg_day (maybeRotateLocked io ms l) = lg_day ?l"
    using False d by (auto simp: maybeRotateLocked_def split: prod.splits if_splits)
  then have "ledger_holds c sub (maybeRotateLocked io ms l) crs' lrs' t' k'" by (intro holds_cong [OF h(1)]) simp_all
  with h(2) show ?thesis by blast
qed (use assms in auto)

section \<open>Append\<close>

lemma inv_holds: "ledger_holds c sub l crs lrs t k \<Longrightarrow> subseq acked (crs @ lrs) \<Longrightarrow> ledger_inv c sub (l, acked)"
  unfolding ledger_inv_def by fastforce

lemma holds_mono:
  assumes "ledger_holds c sub l crs lrs t k"
  shows "ledger_holds c (sub @ xs) l crs lrs t k"
proof -
  have "subseq (crs @ lrs) (sub @ xs)" using assms by (auto simp: ledger_holds_def)
  moreover have "\<exists>r \<in> set (sub @ xs). d \<le> day_of r" if "\<exists>r \<in> set sub. d \<le> day_of r" for d using that by auto
  ultimately show ?thesis using assms unfolding ledger_holds_def by blast
qed

lemma holds_written:
  assumes "ledger_holds c sub l crs lrs t k" "lg_open l" "record_fine c r" "\<forall>s \<in> set sub. day_of s \<le> day_of r"
    and "lg_files l' = lg_files l" "live_bytes l' = live_bytes l @ enc c r @ [newline]" "lg_day l' \<in> {lg_day l, Some (day_of r)}"
  shows "ledger_holds c (sub @ [r]) l' crs (lrs @ [r]) [] k"
proof -
  have h: "t = []" "map_of (lg_files l) migratedMarkerName \<noteq> None" "live_bytes l = unlines (map (enc c) lrs)"
    "\<And>d. 0 < k d \<Longrightarrow> \<exists>s \<in> set sub. d \<le> day_of s" using assms(1,2) unfolding ledger_holds_def by auto
  have r: "\<And>d. 0 < k d \<Longrightarrow> d \<le> day_of r" using h(4) assms(4) by (meson order.trans)
  have "subseq (crs @ lrs @ [r]) (sub @ [r])"
    using assms(1) list_emb_append_mono [of "(=)" "crs @ lrs" sub "[r]" "[r]"] by (simp add: ledger_holds_def)
  moreover have "day_ok (day_of r)" using assms(3) by (simp add: record_fine_def)
  moreover have "live_bytes l' = unlines (map (enc c) (lrs @ [r]))" by (simp add: assms(6) h(3))
  moreover have "\<forall>d. 0 < k d \<longrightarrow> (\<forall>s \<in> set (lrs @ [r]). d \<le> day_of s) \<and> (\<exists>s \<in> set (sub @ [r]). d \<le> day_of s)"
    using assms(1) r unfolding ledger_holds_def by auto
  moreover have "\<forall>e. lg_day l' = Some e \<longrightarrow> day_ok e \<and> (\<forall>d. 0 < k d \<longrightarrow> d \<le> e) \<and> (\<exists>s \<in> set (sub @ [r]). e \<le> day_of s)"
    using assms(1,7) r \<open>day_ok (day_of r)\<close> unfolding ledger_holds_def by auto
  moreover have "only_files (lg_files l')" "segments_whole c (lg_files l')" "named_segments (lg_files l') k"
    "closed_concat c (lg_files l') = unlines (map (enc c) crs)" "\<forall>s \<in> set (crs @ lrs @ [r]). record_fine c s"
    using assms(1,3,5) unfolding ledger_holds_def by auto
  ultimately show ?thesis unfolding ledger_holds_def
    using h(2) assms(5) by (intro conjI) (assumption | simp)+
qed

lemma holds_torn:
  assumes "ledger_holds c sub l crs lrs t k" "lg_open l" "newline \<notin> set u" "length u \<le> maxLine"
    and "lg_files l' = lg_files l" "live_bytes l' = live_bytes l @ u" "\<not> lg_open l'" "lg_day l' = lg_day l"
  shows "ledger_holds c sub l' crs lrs u k"
  using assms unfolding ledger_holds_def by auto

lemma set_live_fields [simp]:
  "lg_files (set_live b l) = lg_files l" "live_bytes (set_live (Some x) l) = x" "lg_day (set_live b l) = lg_day l"
  "lg_open (set_live b l) = lg_open l"
  by (simp_all add: set_live_def live_bytes_def)

lemma note_day_fields:
  assumes "0 < lr_RecordedAt r" "\<forall>e. lg_day l = Some e \<longrightarrow> e \<le> day_of r"
  shows "lg_disk (note_day (lr_RecordedAt r) l) = lg_disk l" "lg_open (note_day (lr_RecordedAt r) l) = lg_open l"
    "lg_day (note_day (lr_RecordedAt r) l) = Some (day_of r)"
  using assms by (auto simp: note_day_def split: option.split)

lemma append_inv:
  assumes "ledger_inv c sub (l, acked)" "event_ok c (LE_append io r)" "\<forall>s \<in> set sub. day_of s \<le> day_of r"
  shows "ledger_inv c (sub @ [r]) (run_event c (LE_append io r) (l, acked))"
proof -
  let ?l1 = "maybeRotateLocked (ai_rotate io) (lr_RecordedAt r) l"
  obtain crs lrs t k where h: "ledger_holds c sub ?l1 crs lrs t k" and acked: "subseq acked (crs @ lrs)"
    using assms(1) maybe_rotate_holds unfolding ledger_inv_def by (metis fst_conv snd_conv)
  have fine: "record_fine c r" using assms(2) by simp
  have same: "ledger_inv c (sub @ [r]) (?l1, acked)" by (rule inv_holds [OF holds_mono [OF h] acked])
  show ?thesis
  proof (cases "lg_open ?l1 \<and> ai_short io = None")
    case False
    then have "run_event c (LE_append io r) (l, acked) = (?l1, acked)"
      using assms(2) enc_facts(1) [OF fine] by (auto simp: AppendAt_def Let_def split: option.splits)
    then show ?thesis using same by simp
  next
    case True
    let ?l2 = "set_live (Some (live_bytes ?l1 @ enc c r @ [newline])) ?l1"
    let ?l3 = "(note_day (lr_RecordedAt r) ?l2)\<lparr>lg_off := lg_off ?l2 + int (length (enc c r @ [newline]))\<rparr>"
    have e: "\<forall>e. lg_day ?l2 = Some e \<longrightarrow> e \<le> day_of r"
      using h assms(3) unfolding ledger_holds_def set_live_fields by (meson order.trans)
    have pos: "0 < lr_RecordedAt r" using fine by (simp add: record_fine_def)
    have two: "ledger_holds c (sub @ [r]) ?l2 crs (lrs @ [r]) [] k"
      by (rule holds_written [OF h conjunct1 [OF True] fine assms(3)]) simp_all
    have three: "ledger_holds c (sub @ [r]) ?l3 crs (lrs @ [r]) [] k"
      by (rule holds_written [OF h conjunct1 [OF True] fine assms(3)])
        (use note_day_fields [OF pos e] in \<open>simp_all add: live_bytes_def set_live_def\<close>)
    have "subseq acked (crs @ lrs @ [r])" "subseq (acked @ [r]) (crs @ lrs @ [r])"
      using acked list_emb_prefix [of "(=)" acked "crs @ lrs" "[r]"] list_emb_append_mono [of "(=)" acked "crs @ lrs" "[r]" "[r]"] by simp_all
    moreover have "run_event c (LE_append io r) (l, acked) = (if ai_sync io then (?l3, acked @ [r]) else (?l2, acked))"
      using True enc_facts(1) [OF fine] by (simp add: AppendAt_def Let_def)
    ultimately show ?thesis using inv_holds [OF two] inv_holds [OF three] by simp
  qed
qed

lemma torn_inv:
  assumes "ledger_inv c sub (l, acked)" "event_ok c (LE_torn io n r)" "\<forall>s \<in> set sub. day_of s \<le> day_of r"
  shows "ledger_inv c (sub @ [r]) (run_event c (LE_torn io n r) (l, acked))"
proof -
  let ?l1 = "maybeRotateLocked (ai_rotate io) (lr_RecordedAt r) l"
  obtain crs lrs t k where h: "ledger_holds c sub ?l1 crs lrs t k" and acked: "subseq acked (crs @ lrs)"
    using assms(1) maybe_rotate_holds unfolding ledger_inv_def by (metis fst_conv snd_conv)
  have fine: "record_fine c r" using assms(2) by simp
  let ?b = "enc c r @ [newline]"
  let ?l2 = "ledgerClose (set_live (Some (live_bytes ?l1 @ take n ?b)) ?l1)"
  have step: "run_event c (LE_torn io n r) (l, acked) = (if lg_open ?l1 then (?l2, acked) else (ledgerClose ?l1, acked))"
    using enc_facts(1) [OF fine] by (simp add: AppendAt_def Let_def)
  have fields: "lg_files ?l2 = lg_files ?l1" "live_bytes ?l2 = live_bytes ?l1 @ take n ?b" "\<not> lg_open ?l2" "lg_day ?l2 = lg_day ?l1"
    by (simp_all add: ledgerClose_def live_bytes_def set_live_def)
  consider "\<not> lg_open ?l1" | "lg_open ?l1" "n \<le> length (enc c r)" | "lg_open ?l1" "length (enc c r) < n" by linarith
  then show ?thesis
  proof cases
    case 1
    then show ?thesis unfolding step using inv_holds [OF holds_mono [OF holds_close [OF h]] acked] by simp
  next
    case 2
    have "newline \<notin> set (take n (enc c r))" using enc_facts(3) [OF fine] by (auto dest: in_set_takeD)
    moreover have "length (take n (enc c r)) \<le> maxLine"
      using enc_facts(6) [OF fine] by (simp add: line_ok_def min_def)
    ultimately have "ledger_holds c sub ?l2 crs lrs (take n (enc c r)) k"
      using fields 2 by (intro holds_torn [OF h]) simp_all
    from inv_holds [OF holds_mono [OF this] acked] show ?thesis unfolding step using 2 by simp
  next
    case 3
    then have "ledger_holds c (sub @ [r]) ?l2 crs (lrs @ [r]) [] k"
      using fields by (intro holds_written [OF h _ fine assms(3)]) simp_all
    moreover have "subseq acked (crs @ lrs @ [r])" using acked list_emb_prefix [of "(=)" acked "crs @ lrs" "[r]"] by simp
    ultimately show ?thesis unfolding step using 3 inv_holds by simp
  qed
qed

section \<open>Upkeep, kills and restarts\<close>

lemma rotate_inv:
  assumes "ledger_inv c sub (l, acked)" "l' = l \<or> (\<exists>d. lg_day l = Some d \<and> l' = snd (rotateLocked io d l))"
  shows "ledger_inv c sub (l', acked)"
proof -
  obtain crs lrs t k where h: "ledger_holds c sub l crs lrs t k" "subseq acked (crs @ lrs)"
    using assms(1) by (auto simp: ledger_inv_def)
  from assms(2) show ?thesis
  proof (elim disjE exE conjE)
    fix d assume "lg_day l = Some d" "l' = snd (rotateLocked io d l)"
    with rotate_holds [OF h(1), of d io] h(2) inv_holds show ?thesis by metis
  qed (use inv_holds [OF h] in simp)
qed

lemma RotateNow_cases: "snd (RotateNow io l) = l \<or> (\<exists>d. lg_day l = Some d \<and> snd (RotateNow io l) = snd (rotateLocked io d l))"
  by (auto simp: RotateNow_def split: option.split prod.split)

lemma stale_cases: "snd (rotateIfStale io today l) = l \<or> (\<exists>d. lg_day l = Some d \<and> snd (rotateIfStale io today l) = snd (rotateLocked io d l))"
  by (auto simp: rotateIfStale_def RotateNow_def split: option.split prod.split)

lemma same_inv:
  assumes "ledger_inv c sub (l, acked)" "same_files c (lg_files l) fs"
  shows "ledger_inv c sub (set_files fs l, acked)"
  using assms holds_files inv_holds unfolding ledger_inv_def by (metis fst_conv snd_conv)

lemma retire_nothing: "snd (fold (retire_pass c io 0 now) ss p) = snd p"
proof (induction ss arbitrary: p)
  case (Cons s ss)
  have "snd (retire_pass c io 0 now s p) = snd p" by (cases p) (simp add: retire_pass_def past_window_def)
  with Cons show ?case by simp
qed simp

lemma upkeep_inv:
  assumes "inj (lc_sha c)" "ledger_inv c sub (l, acked)"
  shows "ledger_inv c sub (snd (ledgerMaintenancePass c io off 0 now l), acked)"
proof -
  let ?l1 = "snd (rotateIfStale (ui_rotate io) (dayOfMs (unix_milli now)) l)"
  have l1: "ledger_inv c sub (?l1, acked)" by (rule rotate_inv [OF assms(2) stale_cases])
  obtain n fs where p: "(if off then (0, lg_files ?l1) else
      fold (compress_pass c io) (sd_Segments (readSegmentDir c (lg_files ?l1))) (0, lg_files ?l1)) = (n, fs)" by (metis prod.exhaust)
  have "same_files c (lg_files ?l1) fs"
    using p compress_pass_same [OF assms(1), of "(0, lg_files ?l1)" io "sd_Segments (readSegmentDir c (lg_files ?l1))"]
    by (cases off) simp_all
  moreover have "snd (ledgerMaintenancePass c io off 0 now l) = set_files fs ?l1"
    using retire_nothing by (simp add: ledgerMaintenancePass_def Let_def p split: prod.split) (metis snd_conv)
  ultimately show ?thesis using same_inv [OF l1] by simp
qed

lemma close_inv:
  assumes "ledger_inv c sub (l, acked)"
  shows "ledger_inv c sub (ledgerClose l, acked)"
proof -
  obtain crs lrs t k where "ledger_holds c sub l crs lrs t k" "subseq acked (crs @ lrs)" using assms by (auto simp: ledger_inv_def)
  then show ?thesis using holds_close inv_holds by blast
qed

lemma killed_inv:
  assumes "inj (lc_sha c)" "ledger_inv c sub (l, acked)"
  shows "ledger_inv c sub (run_event c (LE_killed_compress renamed stored n) (l, acked))"
proof -
  have "same_files c (lg_files l) (if renamed then killed_after_rename c stored n (lg_files l) else killed_in_write stored n (lg_files l))"
    by (simp add: killed_after_rename_def killed_in_write_def compress_same [OF assms(1)] same_files_other(1))
  from close_inv [OF same_inv [OF assms(2) this]] show ?thesis by simp
qed

lemma subseq_members: "subseq xs ys \<Longrightarrow> set xs \<subseteq> set ys"
  by (induction rule: list_emb.induct) auto

lemma holds_open:
  assumes "ledger_holds c sub l crs lrs [] k" "map_of (lg_files l) migratedMarkerName \<noteq> None" "lg_disk l' = lg_disk l"
    and "lg_day l' = None \<or> (\<exists>r \<in> set lrs. lg_day l' = Some (day_of r))"
  shows "ledger_holds c sub l' crs lrs [] k"
proof -
  have "\<forall>e. lg_day l' = Some e \<longrightarrow> day_ok e \<and> (\<forall>d. 0 < k d \<longrightarrow> d \<le> e) \<and> (\<exists>r \<in> set sub. e \<le> day_of r)"
  proof (intro allI impI)
    fix e assume "lg_day l' = Some e"
    then obtain r where r: "r \<in> set lrs" "e = day_of r" using assms(4) by auto
    have h: "record_fine c r" "subseq (crs @ lrs) sub" "\<forall>d. 0 < k d \<longrightarrow> d \<le> day_of r" using assms(1) r(1) unfolding ledger_holds_def by auto
    have "r \<in> set sub" using subseq_members [OF h(2)] r(1) by auto
    with h r(2) show "day_ok e \<and> (\<forall>d. 0 < k d \<longrightarrow> d \<le> e) \<and> (\<exists>r \<in> set sub. e \<le> day_of r)"
      by (auto simp: record_fine_def)
  qed
  moreover obtain y where "map_of (lg_files l) migratedMarkerName = Some y" using assms(2) by auto
  ultimately show ?thesis using assms(1,3) unfolding ledger_holds_def live_bytes_def by simp
qed

lemma open_inv:
  assumes "inj (lc_sha c)" "ledger_inv c sub (l, acked)"
  shows "ledger_inv c sub (run_event c (LE_open io) (l, acked))"
proof -
  obtain crs lrs t k where h: "ledger_holds c sub l crs lrs t k" and acked: "subseq acked (crs @ lrs)"
    using assms(2) by (auto simp: ledger_inv_def)
  let ?dk0 = "(lg_disk l)\<lparr>ld_live := Some (live_bytes l)\<rparr>"
  have t: "live_bytes l = unlines (map (enc c) lrs) @ t" "newline \<notin> set t" "length t \<le> maxLine"
    using h unfolding ledger_holds_def by auto
  have l0: "live_bytes (new_ledger ?dk0) = unlines (map (enc c) lrs) @ t" using t(1) by (simp add: new_ledger_def live_bytes_def)
  note rep = repairs [OF l0 t(2,3), of "oi_repair io" "oi_repair_sync io"]
  have dk0: "(lg_disk l)\<lparr>ld_live := Some (deref_or (ld_live (lg_disk l)) [])\<rparr> = ?dk0" by (simp add: live_bytes_def)
  let ?dk1 = "(lg_disk l)\<lparr>ld_live := Some (unlines (map (enc c) lrs))\<rparr>"
  show ?thesis
  proof (cases "t \<noteq> [] \<and> \<not> (oi_repair io \<and> oi_repair_sync io)")
    case True
    then have o: "OpenLedger c io (lg_disk l) = (None, if oi_repair io then ?dk1 else ?dk0)"
      using rep by (auto simp: OpenLedger_def dk0 Let_def set_live_def new_ledger_def)
    have "ledger_holds c sub ((ledgerClose l)\<lparr>lg_disk := ?dk0\<rparr>) crs lrs t k"
      "ledger_holds c sub ((ledgerClose l)\<lparr>lg_disk := ?dk1\<rparr>) crs lrs [] k"
      using h unfolding ledger_holds_def by (auto simp: ledgerClose_def live_bytes_def)
    then show ?thesis using inv_holds [OF _ acked] o by (cases "oi_repair io") simp_all
  next
    case False
    define la where "la = (if t = [] then new_ledger ?dk0 else set_live (Some (unlines (map (enc c) lrs))) ((new_ledger ?dk0)\<lparr>lg_repaired := length t\<rparr>))"
    have la: "repairTornTail (oi_repair io) (oi_repair_sync io) (new_ledger ?dk0) = (True, la)" "live_bytes la = unlines (map (enc c) lrs)"
      "lg_files la = lg_files l" "lg_open la"
      using False rep t(1) by (auto simp: la_def new_ledger_def live_bytes_def set_live_def)
    have est: "segmentsAreEstablished c (lg_files la) \<or> live_bytes la = []"
      using h unfolding ledger_holds_def by (auto simp: la segmentsAreEstablished_def)
    obtain ok fs where m: "writeMigratedMarker (oi_marker io) (lg_files l) = (ok, fs)" by (metis prod.exhaust)
    have mig: "migrateIfMonolithic c io la = (ok, set_files fs la)" using est m by (simp add: migrateIfMonolithic_def la(3))
    have cut: "ledger_holds c sub ((ledgerClose l)\<lparr>lg_disk := lg_disk la\<rparr>) crs lrs [] k"
      using h la(2,3) unfolding ledger_holds_def by (auto simp: ledgerClose_def live_bytes_def)
    have marked: "ledger_holds c sub (set_files fs ((ledgerClose l)\<lparr>lg_disk := lg_disk la\<rparr>)) crs lrs [] k"
      by (rule holds_files [OF cut]) (use marker_same [OF m] la(3) in simp)
    show ?thesis
    proof (cases ok)
      case False
      then have "OpenLedger c io (lg_disk l) = (None, lg_disk (set_files fs la))" by (simp add: OpenLedger_def dk0 Let_def la(1) mig)
      moreover have "(ledgerClose l)\<lparr>lg_disk := lg_disk (set_files fs la)\<rparr> = set_files fs ((ledgerClose l)\<lparr>lg_disk := lg_disk la\<rparr>)"
        by (simp add: set_files_def)
      ultimately show ?thesis using inv_holds [OF marked acked] by simp
    next
      case True
      obtain rc gs where r: "reconcileSegments c (oi_removes io) fs = (rc, gs)" by (metis prod.exhaust)
      have "map_ok fs" using marked by (simp add: ledger_holds_def set_files_def only_files_def)
      then have same: "same_files c fs gs" using reconcile_same [OF assms(1), of fs "oi_removes io"] r by simp
      let ?lb = "set_files gs ((ledgerClose l)\<lparr>lg_disk := lg_disk la\<rparr>)"
      have "ledger_holds c sub (set_files gs (set_files fs ((ledgerClose l)\<lparr>lg_disk := lg_disk la\<rparr>))) crs lrs [] k"
        by (rule holds_files [OF marked]) (use same in \<open>simp add: set_files_def\<close>)
      then have lb: "ledger_holds c sub ?lb crs lrs [] k" by (simp add: set_files_def)
      define lc where "lc = readDay c (oi_modified io) (set_files gs ((set_files fs la)\<lparr>lg_reconciled := Some rc\<rparr>))"
      let ?closed = "(ledgerClose l)\<lparr>lg_disk := lg_disk (set_files gs (set_files fs la))\<rparr>"
      have failed: "ledger_inv c sub (?closed, acked)"
      proof -
        have "?closed = ?lb" by (simp add: set_files_def)
        with inv_holds [OF lb acked] show ?thesis by simp
      qed
      let ?lc = "lc\<lparr>lg_off := int (length (live_bytes lc))\<rparr>"
      have opened: "OpenLedger c io (lg_disk l) =
          (if oi_open_sync io then (Some ?lc, lg_disk lc) else (None, lg_disk (set_files gs (set_files fs la))))"
        using True r by (simp add: OpenLedger_def dk0 Let_def la(1) mig lc_def set_files_def)
      have disk: "lg_disk ?lc = lg_disk ?lb" by (simp add: lc_def set_files_def)
      have "map_of fs migratedMarkerName \<noteq> None" using m True by (auto simp: writeMigratedMarker_def split: if_splits)
      then have mark: "map_of (lg_files ?lb) migratedMarkerName \<noteq> None" using same by (simp add: same_files_def set_files_def)
      have "lg_day lc = None \<or> (\<exists>r \<in> set lrs. lg_day lc = Some (day_of r))"
      proof (cases "lrs = []")
        case True
        then show ?thesis using la(2) by (simp add: lc_def readDay_def la_def set_files_def live_bytes_def set_live_def new_ledger_def)
      next
        case False
        have "\<forall>r \<in> set lrs. record_fine c r" using h by (simp add: ledger_holds_def)
        note days = live_days(2) [OF this False, of "oi_modified io"]
        have live: "live_bytes (set_files gs ((set_files fs la)\<lparr>lg_reconciled := Some rc\<rparr>)) = unlines (map (enc c) lrs)"
          using la(2) by (simp add: set_files_def live_bytes_def)
        have "unlines (map (enc c) lrs) \<noteq> []" using False by (cases lrs) simp_all
        then have "lg_day lc = Some (snd (ledgerDayBounds c (unlines (map (enc c) lrs)) (oi_modified io)))"
          by (simp add: lc_def readDay_def live split: prod.split)
        with days show ?thesis by auto
      qed
      then have "ledger_holds c sub ?lc crs lrs [] k" by (intro holds_open [OF lb mark disk]) simp
      from inv_holds [OF this acked] failed show ?thesis by (simp add: opened)
    qed
  qed
qed

section \<open>The run\<close>

lemma run_inv:
  assumes "inj (lc_sha c)" "\<forall>e \<in> set es. event_ok c e" "sorted (map day_of (submitted es))"
  shows "ledger_inv c (submitted es) (run_events c es)"
  using assms(2,3)
proof (induction es rule: rev_induct)
  case Nil
  have "ledger_holds c [] (ledgerClose (new_ledger \<lparr>ld_live = None, ld_files = []\<rparr>)) [] [] [] (\<lambda>_. 0)"
    by (simp add: ledger_holds_def ledgerClose_def new_ledger_def live_bytes_def only_files_def segments_whole_def
        named_segments_def present_def entry_bytes_def closed_concat_def)
  from inv_holds [OF this] show ?case by (simp add: run_events_def submitted_def)
next
  case (snoc e es)
  obtain l acked where run: "run_events c es = (l, acked)" by (metis prod.exhaust)
  have sub: "submitted (es @ [e]) = submitted es @ event_records e" by (simp add: submitted_def)
  have run': "run_events c (es @ [e]) = run_event c e (l, acked)" using run by (simp add: run_events_def)
  have ih: "ledger_inv c (submitted es) (l, acked)"
    using snoc.IH snoc.prems unfolding sub run by (simp add: sorted_append)
  have ok: "event_ok c e" using snoc.prems(1) by simp
  have last: "\<forall>s \<in> set (submitted es). day_of s \<le> day_of r" if "event_records e = [r]" for r
    using snoc.prems(2) that unfolding sub by (simp add: sorted_append)
  show ?case unfolding sub run'
  proof (cases e)
    case (LE_append io r)
    then show "ledger_inv c (submitted es @ event_records e) (run_event c e (l, acked))"
      using append_inv [OF ih] ok last by simp
  next
    case (LE_torn io n r)
    then show "ledger_inv c (submitted es @ event_records e) (run_event c e (l, acked))"
      using torn_inv [OF ih] ok last by (simp del: run_event.simps)
  next
    case (LE_rotate io)
    then show "ledger_inv c (submitted es @ event_records e) (run_event c e (l, acked))"
      using rotate_inv [OF ih RotateNow_cases] by simp
  qed (use upkeep_inv [OF assms(1) ih] killed_inv [OF assms(1) ih] open_inv [OF assms(1) ih] close_inv [OF ih] in
      \<open>simp_all del: run_event.simps(5,7)\<close>)
qed

text \<open>C13: THE LEDGER LOSES NOTHING IT ACKNOWLEDGED.  Start from an empty directory and let appends, forced
  rotations, maintenance passes that retire nothing, restarts, and kills in the middle of a write or of a
  compression happen in any order, with any answers of the disk to each step of a rotation, a compression,
  a reconciliation or an fsync.  As long as a write that fails in a living process is undone, each line is
  shorter than the chunk a day is read from, the days of the records do not run backwards, and no two segments
  have the same digest: a replay
  never fails, counts no damaged line and no damaged segment, and delivers every record whose append
  returned, in the order of the appends, and nothing that was not submitted; and while the ledger is open no
  torn line is left in it.\<close>

theorem ledger_run_loses_nothing:
  assumes "inj (lc_sha c)" "\<forall>e \<in> set es. event_ok c e" "sorted (map day_of (submitted es))"
    and "run_events c es = (l, acked)"
  shows "\<exists>rs torn. ReadLedger c (lg_disk l) = (rs, no_damage\<lparr>dm_TornTail := torn\<rparr>, False) \<and>
    subseq acked rs \<and> subseq rs (submitted es) \<and> (lg_open l \<longrightarrow> torn = 0)"
proof -
  obtain crs lrs t k where h: "ledger_holds c (submitted es) l crs lrs t k" and acked: "subseq acked (crs @ lrs)"
    using run_inv [OF assms(1-3)] assms(4) by (auto simp: ledger_inv_def)
  have fine: "\<forall>r \<in> set (crs @ lrs). record_fine c r" and t: "newline \<notin> set t" "length t \<le> maxLine" "lg_open l \<longrightarrow> t = []"
    and sub: "subseq (crs @ lrs) (submitted es)"
    using h unfolding ledger_holds_def by auto
  note lines = enc_lines [OF fine]
  have live: "\<forall>l \<in> set (map (enc c) lrs). line_ok l" using lines(1) by simp
  have "live_readable (live_bytes l)"
    unfolding live_readable_def using h t live unfolding ledger_holds_def by blast
  then have "whole_disk c (lg_disk l)" using h by (simp add: whole_disk_def ledger_holds_def live_bytes_def)
  moreover have "ledger_bytes c (lg_disk l) = unlines (map (enc c) (crs @ lrs)) @ t"
    using h by (simp add: ledger_holds_def closed_concat_def ledger_bytes_def live_bytes_def)
  ultimately have "ReadLedger c (lg_disk l) = (crs @ lrs, no_damage\<lparr>dm_TornTail := length t\<rparr>, False)"
    using read_bytes [of c "lg_disk l", OF _ _ lines(1) t(1)] by (simp only: lines(3,4))
  with acked sub t(3) show ?thesis by (intro exI conjI) auto
qed

end
