(* ===== verification/LedgerClaims.thy ===== *)
theory LedgerClaims imports LedgerRun "HOL-Library.Code_Target_Numeral" begin

text \<open>
  The claims about the ledger applied at concrete disks, and what the ledger does where its comments promise
  otherwise.  The codec below knows three records and writes one letter per record.
\<close>

section \<open>A codec of three records\<close>

definition rec_a :: ledger_record where
  "rec_a = zero_record\<lparr>lr_MigrationID := ''m-a'', lr_RecordedAt := 86400000\<rparr>"

definition rec_b :: ledger_record where
  "rec_b = zero_record\<lparr>lr_MigrationID := ''m-b'', lr_RecordedAt := 172800000\<rparr>"

definition rec_c :: ledger_record where
  "rec_c = zero_record\<lparr>lr_MigrationID := ''m-c'', lr_RecordedAt := 86400001\<rparr>"

definition abc_codec :: ledger_codec where
  "abc_codec = \<lparr>lc_mar = (\<lambda>r. if r = rec_a then Some ''a'' else if r = rec_b then Some ''b'' else if r = rec_c then Some ''c'' else None),
     lc_unm = (\<lambda>b. if b = ''a'' then Some rec_a else if b = ''b'' then Some rec_b else if b = ''c'' then Some rec_c else None),
     lc_gzip = (\<lambda>b. ''z'' @ b), lc_gunzip = (\<lambda>b. (tl b, b \<noteq> [] \<and> hd b = CHR ''z'')), lc_sha = (\<lambda>b. b),
     lc_receipt = (\<lambda>b. if b = ''R'' then Some \<lparr>rc_Segment = ''1970-01-02-0000.jsonl.gz'', rc_Bytes = 3, rc_SHA256 = ''za'' @ [newline],
       rc_Destination = ''cold'', rc_RemoteChecksum = ''x'', rc_VerifiedAtMs = 1\<rparr> else None)\<rparr>"

definition good_rotate :: rotate_io where
  "good_rotate = \<lparr>ri_stat = True, ri_mkdir = True, ri_sync = True, ri_close = True, ri_rename = True, ri_reopen = True,
     ri_syncdir = True\<rparr>"

definition good_append :: append_io where
  "good_append = \<lparr>ai_rotate = good_rotate, ai_stat = True, ai_short = None, ai_truncate = True, ai_sync = True\<rparr>"

definition good_open :: open_io where
  "good_open = \<lparr>oi_repair = True, oi_repair_sync = True, oi_marker = True, oi_rename = True, oi_reopen = True, oi_migrate_sync = True, oi_open_sync = True,
     oi_removes = (\<lambda>_. True), oi_modified = 1\<rparr>"

definition good_compress :: "bytes \<Rightarrow> compress_io" where
  "good_compress z = \<lparr>ci_open = True, ci_stored = z, ci_written = True, ci_undone = True, ci_rename = True, ci_syncdir = True,
     ci_remove = True, ci_syncdir2 = True\<rparr>"

definition good_upkeep :: "bytes \<Rightarrow> upkeep_io" where
  "good_upkeep z = \<lparr>ui_rotate = good_rotate, ui_compress = (\<lambda>_. good_compress z), ui_removes = (\<lambda>_. True)\<rparr>"

definition ab_run :: "ledger_event list" where
  "ab_run = [LE_open good_open, LE_append good_append rec_a, LE_append good_append rec_b,
     LE_upkeep (good_upkeep (''za'' @ [newline])) False 0, LE_torn good_append 0 rec_b]"

section \<open>Conditions that compute\<close>

definition whole_check :: "ledger_codec \<Rightarrow> files \<Rightarrow> bool" where
  "whole_check c fs = (map_ok fs \<and> list_all (\<lambda>n. case closed_bytes c fs n of
     None \<Rightarrow> False
   | Some (b, w) \<Rightarrow> w \<and> unlines (completeLines_from b) = b \<and> list_all line_ok (completeLines_from b)) (segment_run c fs))"

definition files_check :: "files \<Rightarrow> bool" where
  "files_check fs = (map_ok fs \<and> list_all (\<lambda>(k, e). e \<noteq> D_dir) fs)"

lemma whole_checked:
  assumes "whole_check c fs"
  shows "segments_whole c fs"
proof -
  have ok: "map_ok fs" using assms by (simp add: whole_check_def)
  have "\<exists>ls. closed_bytes c fs n = Some (unlines ls, True) \<and> (\<forall>l \<in> set ls. line_ok l)" if p: "present fs n" for n
  proof -
    have "n \<in> set (segment_run c fs)" using p segment_run_ok(2) [OF ok] by simp
    then have n: "case closed_bytes c fs n of None \<Rightarrow> False
      | Some (b, w) \<Rightarrow> w \<and> unlines (completeLines_from b) = b \<and> list_all line_ok (completeLines_from b)"
      using assms unfolding whole_check_def list_all_iff by blast
    then obtain b where "closed_bytes c fs n = Some (b, True)" "unlines (completeLines_from b) = b" "list_all line_ok (completeLines_from b)"
      by (cases "closed_bytes c fs n") auto
    then show ?thesis by (intro exI [of _ "completeLines_from b"]) (simp add: list_all_iff)
  qed
  then show ?thesis using ok by (simp add: segments_whole_def)
qed

lemma files_checked: "files_check fs \<Longrightarrow> only_files fs"
  by (auto simp: files_check_def only_files_def list_all_iff dest: map_of_SomeD)

section \<open>Reading\<close>

text \<open>Two closed segments, one compressed, the other with a damaged line, and a live file with a torn tail.\<close>

definition ab_disk :: ledger_disk where
  "ab_disk = \<lparr>ld_live = Some (''a'' @ newline # ''to''),
     ld_files = [(''1970-01-03-0000.jsonl'', D_file (''?'' @ newline # ''b'' @ [newline])), (''.migrated'', D_file []),
       (''1970-01-02-0000.jsonl.gz'', D_file (''za'' @ [newline]))]\<rparr>"

definition ab_plain_disk :: ledger_disk where
  "ab_plain_disk = \<lparr>ld_live = Some (''a'' @ newline # ''to''),
     ld_files = [(''1970-01-03-0000.jsonl'', D_file (''?'' @ newline # ''b'' @ [newline])),
       (''1970-01-02-0000.jsonl'', D_file (''a'' @ [newline]))]\<rparr>"

lemma ab_live: "live_readable (''a'' @ newline # ''to'')"
proof -
  have "\<forall>l \<in> set [''a'']. line_ok l" "newline \<notin> set ''to''" by (simp_all add: line_ok_def maxLine_def MaxFrameBytes_def newline_def)
  moreover have "length ''to'' \<le> maxLine" "''a'' @ newline # ''to'' = unlines [''a''] @ ''to''"
    by (simp_all add: maxLine_def MaxFrameBytes_def)
  ultimately show ?thesis unfolding live_readable_def by blast
qed

lemma ab_whole:
  "segments_whole abc_codec (ld_files ab_disk)" "segments_whole abc_codec (ld_files ab_plain_disk)"
  "live_readable (deref_or (ld_live ab_disk) [])"
  by (rule whole_checked, code_simp, rule whole_checked, code_simp) (use ab_live in \<open>simp add: ab_disk_def\<close>)

lemma segmented_replay_is_monolithic_witness:
  "ReadLedger abc_codec ab_disk =
     ReadLedger abc_codec \<lparr>ld_live = Some (''a'' @ newline # ''?'' @ newline # ''b'' @ newline # ''a'' @ newline # ''to''), ld_files = []\<rparr>"
proof -
  have "ledger_bytes abc_codec ab_disk = ''a'' @ newline # ''?'' @ newline # ''b'' @ newline # ''a'' @ newline # ''to''" by code_simp
  with segmented_replay_is_monolithic [OF ab_whole(1,3)] show ?thesis by simp
qed

lemma ab_full:
  "ScanLedgerFrom abc_codec ab_disk start_pos = Some
     \<lparr>sc_out = [(rec_a, \<lparr>ps_Segment = ''1970-01-02-0000'', ps_Offset = 2, ps_Record = 1\<rparr>, True),
        (rec_b, \<lparr>ps_Segment = ''1970-01-03-0000'', ps_Offset = 4, ps_Record = 2\<rparr>, True),
        (rec_a, \<lparr>ps_Segment = [], ps_Offset = 2, ps_Record = 3\<rparr>, True)],
      sc_damage = no_damage\<lparr>dm_Lines := 1, dm_Bytes := 1, dm_TornTail := 2\<rparr>,
      sc_pos = \<lparr>ps_Segment = [], ps_Offset = 2, ps_Record = 3\<rparr>, sc_failed = False\<rparr>"
  by code_simp

lemma resumed_replay_is_exact_witness:
  "(\<exists>rest. ScanLedgerFrom abc_codec ab_plain_disk \<lparr>ps_Segment = ''1970-01-03-0000'', ps_Offset = 4, ps_Record = 2\<rparr> = Some rest \<and>
      \<not> sc_failed rest \<and> map fst (sc_out rest) = [rec_a]) \<and>
   (\<exists>marked. scanLedgerFromFloor abc_codec ab_plain_disk start_pos \<lparr>ps_Segment = ''1970-01-03-0000'', ps_Offset = 4, ps_Record = 2\<rparr> = Some marked \<and>
      \<not> sc_failed marked \<and> map fst (sc_out marked) = [rec_a, rec_b, rec_a] \<and> new_flags (sc_out marked) = [False, False, True])"
proof -
  have same: "same_record abc_codec ab_disk ab_plain_disk" by code_simp
  have lines: "\<forall>(n, ls, torn) \<in> set (disk_lines abc_codec ab_disk). [] \<notin> set ls \<and> length (unlines ls) \<le> maxLedgerOffset" by code_simp
  from resumed_replay_is_exact [OF ab_whole(1,3,2) same lines ab_full, where k = "Suc 0" and r = rec_b and
      q = "\<lparr>ps_Segment = ''1970-01-03-0000'', ps_Offset = 4, ps_Record = 2\<rparr>" and f = True] show ?thesis by auto
qed

section \<open>Upkeep and opening\<close>

text \<open>The second day's segment has closed; the first one is compressed and has its receipt.\<close>

definition ab_closed :: ledger where
  "ab_closed = (new_ledger \<lparr>ld_live = Some (''a'' @ [newline]),
     ld_files = [(''1970-01-02-0000.jsonl.gz'', D_file (''za'' @ [newline])), (''1970-01-02-0000.jsonl.gz.receipt'', D_file ''R''),
       (''1970-01-03-0000.jsonl'', D_file (''b'' @ [newline])), (''1970-01-03-0000.jsonl.gz.tmp'', D_file ''zz'')]\<rparr>)\<lparr>lg_day := Some 5\<rparr>"

lemma only_receipted_segments_leave_witness:
  "let l' = snd (ledgerMaintenancePass abc_codec (good_upkeep (''zb'' @ [newline])) False 1 (time_of_milli 2000000000) ab_closed) in
     kept abc_codec 1 (time_of_milli 2000000000) (lg_files ab_closed) (lg_files l') ''1970-01-02-0000'' (''a'' @ [newline], True) \<and>
     \<not> present (lg_files l') ''1970-01-02-0000'' \<and>
     closed_bytes abc_codec (lg_files l') ''1970-01-03-0000'' = Some (''b'' @ [newline], True)"
proof -
  let ?p = "ledgerMaintenancePass abc_codec (good_upkeep (''zb'' @ [newline])) False 1 (time_of_milli 2000000000) ab_closed"
  have i: "inj (lc_sha abc_codec)" by (simp add: abc_codec_def)
  have o: "only_files (lg_files ab_closed)" by (rule files_checked) code_simp
  have d: "\<forall>d. lg_day ab_closed = Some d \<longrightarrow> day_ok d" by (simp add: ab_closed_def day_ok_def)
  have b: "present (lg_files ab_closed) ''1970-01-02-0000'' \<and>
     closed_bytes abc_codec (lg_files ab_closed) ''1970-01-02-0000'' = Some (''a'' @ [newline], True)" by code_simp
  have a: "\<not> present (lg_files (snd ?p)) ''1970-01-02-0000'' \<and>
     closed_bytes abc_codec (lg_files (snd ?p)) ''1970-01-03-0000'' = Some (''b'' @ [newline], True)" by code_simp
  obtain u l' where p: "?p = (u, l')" by (metis prod.exhaust)
  have "kept abc_codec 1 (time_of_milli 2000000000) (lg_files ab_closed) (lg_files l') ''1970-01-02-0000'' (''a'' @ [newline], True)"
    using conjunct1 [OF only_receipted_segments_leave [OF i o d p]] b by blast
  with a show ?thesis unfolding p Let_def snd_conv by blast
qed

text \<open>A ledger of one file, with a torn tail.\<close>

definition ab_monolith :: ledger_disk where
  "ab_monolith = \<lparr>ld_live = Some (''a'' @ newline # ''b'' @ newline # ''to''), ld_files = []\<rparr>"

lemma opening_keeps_the_record_witness:
  "case OpenLedger abc_codec good_open ab_monolith of
     (opened, dk') \<Rightarrow> opened \<noteq> None \<and> map fst (ld_files dk') = [''legacy-1970-01-02-to-1970-01-03-0000.jsonl'', ''.migrated''] \<and>
       ReadLedger abc_codec dk' = ([rec_a, rec_b], no_damage, False)"
proof -
  obtain opened dk' where o: "OpenLedger abc_codec good_open ab_monolith = (opened, dk')" by (metis prod.exhaust)
  have r: "ReadLedger abc_codec ab_monolith = ([rec_a, rec_b], no_damage\<lparr>dm_TornTail := 2\<rparr>, False)" by code_simp
  let ?l = "\<lambda>b fs n. (new_ledger \<lparr>ld_live = Some b, ld_files = fs\<rparr>)\<lparr>lg_repaired := 2, lg_migrated := n\<rparr>"
  let ?n = "''legacy-1970-01-02-to-1970-01-03-0000''"
  let ?fs = "[(?n @ plainSuffix, D_file (''a'' @ newline # ''b'' @ [newline])), (''.migrated'', D_file ''established'')]"
  have step: "repairTornTail True True (new_ledger ab_monolith) = (True, ?l (''a'' @ newline # ''b'' @ [newline]) [] [])"
    "migrateIfMonolithic abc_codec good_open (?l (''a'' @ newline # ''b'' @ [newline]) [] []) = (True, ?l [] ?fs ?n)"
    "snd (reconcileSegments abc_codec (\<lambda>_. True) ?fs) = ?fs" by code_simp+
  have "case OpenLedger abc_codec good_open ab_monolith of
     (opened, dk') \<Rightarrow> opened \<noteq> None \<and> map fst (ld_files dk') = [''legacy-1970-01-02-to-1970-01-03-0000.jsonl'', ''.migrated'']"
  proof -
    have "ab_monolith\<lparr>ld_live := Some (deref_or (ld_live ab_monolith) [])\<rparr> = ab_monolith" by (simp add: ab_monolith_def)
    moreover have "oi_repair good_open" "oi_repair_sync good_open" "oi_open_sync good_open" "oi_removes good_open = (\<lambda>_. True)" "lg_files (?l [] ?fs ?n) = ?fs"
      by (simp_all add: good_open_def new_ledger_def)
    moreover obtain rc where "reconcileSegments abc_codec (\<lambda>_. True) ?fs = (rc, ?fs)" using step(3) by (metis prod.collapse)
    ultimately show ?thesis unfolding OpenLedger_def Let_def
      by (simp only: step(1,2) option.case prod.case simp_thms if_True if_False) (simp add: set_files_def plainSuffix_def)
  qed
  then have some: "opened \<noteq> None" "map fst (ld_files dk') = [''legacy-1970-01-02-to-1970-01-03-0000.jsonl'', ''.migrated'']" by (simp_all add: o)
  have i: "inj (lc_sha abc_codec)" by (simp add: abc_codec_def)
  have l: "\<forall>l \<in> set [''a'', ''b'']. line_ok l" "newline \<notin> set ''to''" "length ''to'' \<le> maxLine"
    by (simp_all add: line_ok_def maxLine_def MaxFrameBytes_def newline_def)
  have live: "deref_or (ld_live ab_monolith) [] = unlines [''a'', ''b''] @ ''to''" by (simp add: ab_monolith_def)
  have "live_readable (unlines [''a'', ''b''] @ ''to'')" unfolding live_readable_def using l by blast
  then have w: "whole_disk abc_codec ab_monolith" unfolding whole_disk_def live
    by (simp add: ab_monolith_def only_files_def segments_whole_def present_def entry_bytes_def)
  have d: "day_ok (fst (ledgerDayBounds abc_codec (unlines [''a'', ''b'']) (oi_modified good_open)))"
    "day_ok (snd (ledgerDayBounds abc_codec (unlines [''a'', ''b'']) (oi_modified good_open)))" by code_simp+
  from opening_keeps_the_record [OF i w live l(1,2) d o r] some show ?thesis by (auto simp: o no_damage_def split: option.splits)
qed

section \<open>The run\<close>

lemma ab_fine: "record_fine abc_codec rec_a" "record_fine abc_codec rec_b"
  by (simp_all add: record_fine_def abc_codec_def rec_a_def rec_b_def dayOfMs_def day_ms_def day_ok_def newline_def
      bounds_chunk_def zero_record_def)

lemma ledger_run_loses_nothing_witness:
  "\<exists>rs torn. ReadLedger abc_codec (lg_disk (fst (run_events abc_codec ab_run))) = (rs, no_damage\<lparr>dm_TornTail := torn\<rparr>, False) \<and>
     subseq [rec_a, rec_b] rs \<and> subseq rs [rec_a, rec_b, rec_b]"
proof -
  have i: "inj (lc_sha abc_codec)" by (simp add: abc_codec_def)
  have ok: "\<forall>e \<in> set ab_run. event_ok abc_codec e" by (simp add: ab_run_def ab_fine good_append_def)
  have sub: "submitted ab_run = [rec_a, rec_b, rec_b]" by (simp add: ab_run_def submitted_def)
  have sorted: "sorted (map day_of (submitted ab_run))" unfolding sub by code_simp
  have "snd (run_events abc_codec ab_run) = [rec_a, rec_b]" by code_simp
  then obtain l where run: "run_events abc_codec ab_run = (l, [rec_a, rec_b])" by (metis prod.collapse)
  from ledger_run_loses_nothing [OF i ok sorted run] show ?thesis unfolding sub run by auto
qed

section \<open>Where the ledger departs from its comments\<close>

lemma no_rotation: "\<forall>d. lg_day l = Some d \<longrightarrow> dayOfMs ms \<le> d \<Longrightarrow> maybeRotateLocked io ms l = l"
  by (auto simp: maybeRotateLocked_def split: option.split)

lemma append_plain:
  assumes "maybeRotateLocked (ai_rotate io) (lr_RecordedAt r) l = l" "lg_open l" "lc_mar c r = Some b" "ai_short io = None"
  shows "AppendAt c io r l = (let l2 = set_live (Some (live_bytes l @ b @ [newline])) l in
     if \<not> ai_sync io then ((0, [], False), l2)
     else let l3 = (note_day (lr_RecordedAt r) l2)\<lparr>lg_off := lg_off l2 + int (length (b @ [newline]))\<rparr> in ((lg_off l3, [], True), l3))"
  using assms by (simp add: AppendAt_def Let_def)

lemma append_synced:
  assumes "maybeRotateLocked (ai_rotate io) (lr_RecordedAt r) l = l" "lg_open l" "lc_mar c r = Some b" "ai_short io = None"
    and "ai_sync io" "AppendAt c io r l = ((off, seg, ok), l')"
  shows "ok" "off = lg_off l + int (length b + 1)" "live_bytes l' = live_bytes l @ b @ [newline]"
proof -
  let ?l = "(note_day (lr_RecordedAt r) (set_live (Some (live_bytes l @ b @ [newline])) l))\<lparr>lg_off := lg_off l + int (length (b @ [newline]))\<rparr>"
  have "((off, seg, ok), l') = ((lg_off ?l, [], True), ?l)"
    using append_plain [OF assms(1-4)] assms(5,6) by (simp add: Let_def set_live_def)
  moreover have "live_bytes ?l = live_bytes l @ b @ [newline]"
    by (simp add: live_bytes_def set_live_def note_day_def)
  ultimately show "ok" "off = lg_off l + int (length b + 1)" "live_bytes l' = live_bytes l @ b @ [newline]" by simp_all
qed

text \<open>C38: A FAILED FSYNC SHIFTS THE CURSOR.  The comment on the offset says that it may never be a guess, since a
  cursor one record out makes the next replay fold a record twice or skip it.  When the fsync of an append
  fails, the record stays in the file but the offset is not advanced: the position the next successful
  append returns lies short of the end of its record by the length of the failed one.  If both lines
  are equally long, a replay resumed at the returned position starts at the record just acknowledged and
  delivers it once more.\<close>

theorem failed_fsync_shifts_the_cursor:
  assumes "lg_open l" "lg_off l = int (length (live_bytes l))"
    and "\<forall>d. lg_day l = Some d \<longrightarrow> dayOfMs (lr_RecordedAt r1) \<le> d \<and> dayOfMs (lr_RecordedAt r2) \<le> d"
    and "lc_mar c r1 = Some b1" "lc_mar c r2 = Some b2"
    and "ai_short io1 = None" "\<not> ai_sync io1" "ai_short io2 = None" "ai_sync io2"
    and "AppendAt c io1 r1 l = ((off1, seg1, ok1), l1)" "AppendAt c io2 r2 l1 = ((off, seg, ok), l2)"
  shows "\<not> ok1 \<and> ok \<and> live_bytes l2 = live_bytes l @ b1 @ newline # b2 @ [newline] \<and>
    off = int (length (live_bytes l2)) - int (length b1 + 1) \<and>
    (length b1 = length b2 \<longrightarrow> drop (nat off) (live_bytes l2) = b2 @ [newline])"
proof -
  let ?l1 = "set_live (Some (live_bytes l @ b1 @ [newline])) l"
  have "maybeRotateLocked (ai_rotate io1) (lr_RecordedAt r1) l = l" by (rule no_rotation) (use assms(3) in blast)
  then have "AppendAt c io1 r1 l = ((0, [], False), ?l1)" using append_plain [OF _ assms(1,4,6)] assms(7) by (simp add: Let_def)
  then have l1: "\<not> ok1" "l1 = ?l1" unfolding assms(10) by blast+
  have "maybeRotateLocked (ai_rotate io2) (lr_RecordedAt r2) ?l1 = ?l1" by (rule no_rotation) (use assms(3) in simp)
  note synced = append_synced [OF this _ assms(5,8,9) assms(11) [unfolded l1(2)]]
  have "lg_open ?l1" "lg_off ?l1 = lg_off l" using assms(1) by (simp_all add: set_live_def)
  with synced have l2: "ok" "off = lg_off l + int (length b2 + 1)" "live_bytes l2 = live_bytes l @ b1 @ newline # b2 @ [newline]"
    by simp_all
  have "off = int (length (live_bytes l) + length b2 + 1)" using l2(2) assms(2) by simp
  then have "nat off = length (live_bytes l) + length b2 + 1" by linarith
  then show ?thesis using l1(1) l2(1,3) by simp
qed

lemma failed_fsync_shifts_the_cursor_witness:
  "case AppendAt abc_codec (good_append\<lparr>ai_sync := False\<rparr>) rec_a (new_ledger \<lparr>ld_live = Some [], ld_files = []\<rparr>) of
     (x, l1) \<Rightarrow> case AppendAt abc_codec good_append rec_a l1 of
       ((off, seg, ok), l2) \<Rightarrow> ok \<and> off = 2 \<and> live_bytes l2 = ''a'' @ newline # ''a'' @ [newline]"
proof -
  let ?l = "new_ledger \<lparr>ld_live = Some [], ld_files = []\<rparr>"
  obtain off1 seg1 ok1 l1 where one: "AppendAt abc_codec (good_append\<lparr>ai_sync := False\<rparr>) rec_a ?l = ((off1, seg1, ok1), l1)"
    by (cases "AppendAt abc_codec (good_append\<lparr>ai_sync := False\<rparr>) rec_a ?l") auto
  obtain off seg ok l2 where two: "AppendAt abc_codec good_append rec_a l1 = ((off, seg, ok), l2)"
    by (cases "AppendAt abc_codec good_append rec_a l1") auto
  have m: "lc_mar abc_codec rec_a = Some ''a''" by (simp add: abc_codec_def)
  have l: "lg_open ?l" "lg_off ?l = int (length (live_bytes ?l))"
    "\<forall>d. lg_day ?l = Some d \<longrightarrow> dayOfMs (lr_RecordedAt rec_a) \<le> d \<and> dayOfMs (lr_RecordedAt rec_a) \<le> d"
    "ai_short (good_append\<lparr>ai_sync := False\<rparr>) = None" "\<not> ai_sync (good_append\<lparr>ai_sync := False\<rparr>)"
    "ai_short good_append = None" "ai_sync good_append"
    by (simp_all add: new_ledger_def live_bytes_def good_append_def)
  have "live_bytes ?l = []" by (simp add: new_ledger_def live_bytes_def)
  with failed_fsync_shifts_the_cursor [OF l(1-3) m m l(4-7) one two]
  have "ok" "live_bytes l2 = ''a'' @ newline # ''a'' @ [newline]" "off = int (length (live_bytes l2)) - 2" by simp_all
  then show ?thesis unfolding one prod.case two by simp
qed

text \<open>C39: A FAILED REOPEN STOPS THE ARCHIVE.  The comment on Append says that a rotation that fails does not fail the
  append, and that the next append tries again.  When the fresh live file cannot be opened after the
  rename, the append that rotated is refused, and so is every later one, whatever the disk answers by
  then, until the archive is restarted; the ledger's day is forgotten as well, so nothing ever rotates.\<close>

theorem failed_reopen_stops_the_archive:
  assumes "lg_open l" "lg_day l = Some d" "live_bytes l \<noteq> []" "freeSegmentName (lg_files l) d = Some n"
    and "0 < lr_RecordedAt r" "d < dayOfMs (lr_RecordedAt r)" "lc_mar c r = Some b"
    and "ri_stat (ai_rotate io)" "ri_mkdir (ai_rotate io)" "ri_sync (ai_rotate io)" "ri_close (ai_rotate io)" "ri_rename (ai_rotate io)"
      "\<not> ri_reopen (ai_rotate io)"
    and "run_event c (LE_append io r) (l, acked) = (l1, acked1)"
  shows "acked1 = acked \<and>
    (\<forall>xs. case fold (run_event c) (map (\<lambda>(io, r). LE_append io r) xs) (l1, acked) of
       (l2, acked2) \<Rightarrow> acked2 = acked \<and> \<not> lg_open l2 \<and> lg_disk l2 = lg_disk l1)"
proof -
  have closed: "case fold (run_event c) (map (\<lambda>(io, r). LE_append io r) xs) (k, acked) of
       (l2, acked2) \<Rightarrow> acked2 = acked \<and> \<not> lg_open l2 \<and> lg_disk l2 = lg_disk k" if "\<not> lg_open k" for xs k
    using that
  proof (induction xs arbitrary: k)
    case (Cons x xs)
    obtain io r where x: "x = (io, r)" by (cases x)
    let ?k = "maybeRotateLocked (ai_rotate io) (lr_RecordedAt r) k"
    have k: "\<not> lg_open ?k" "lg_disk ?k = lg_disk k"
      using Cons.prems by (auto simp: maybeRotateLocked_def rotateLocked_def fresh_day_def split: option.split)
    then have "run_event c (LE_append io r) (k, acked) = (if lc_mar c r = None then k else ?k, acked)"
      by (auto simp: AppendAt_def Let_def split: option.split)
    with Cons.IH [of ?k] Cons.IH [of k] k Cons.prems show ?case by (simp add: x split: if_splits)
  qed simp
  have "\<not> lg_open (maybeRotateLocked (ai_rotate io) (lr_RecordedAt r) l)"
    using assms(1-6,8-13) by (simp add: maybeRotateLocked_def rotateLocked_def set_live_def set_files_def Let_def)
  then have "run_event c (LE_append io r) (l, acked) = (maybeRotateLocked (ai_rotate io) (lr_RecordedAt r) l, acked)"
    using assms(7) by (simp add: AppendAt_def Let_def)
  with assms(14) \<open>\<not> lg_open (maybeRotateLocked (ai_rotate io) (lr_RecordedAt r) l)\<close> closed [of l1] show ?thesis by simp
qed

lemma failed_reopen_stops_the_archive_witness:
  "let l = fst (run_events abc_codec [LE_open good_open, LE_append good_append rec_a]);
       io = good_append\<lparr>ai_rotate := good_rotate\<lparr>ri_reopen := False\<rparr>\<rparr>;
       l1 = fst (run_event abc_codec (LE_append io rec_b) (l, [rec_a]))
   in case fold (run_event abc_codec) (map (\<lambda>(io, r). LE_append io r) [(good_append, rec_b), (good_append, rec_b)]) (l1, [rec_a]) of
        (l2, acked2) \<Rightarrow> acked2 = [rec_a] \<and> \<not> lg_open l2 \<and> lg_disk l2 = lg_disk l1"
proof -
  let ?l = "fst (run_events abc_codec [LE_open good_open, LE_append good_append rec_a])"
  let ?io = "good_append\<lparr>ai_rotate := good_rotate\<lparr>ri_reopen := False\<rparr>\<rparr>"
  have l: "lg_open ?l" "lg_day ?l = Some 1" "live_bytes ?l \<noteq> []" "freeSegmentName (lg_files ?l) 1 = Some ''1970-01-02-0000''" by code_simp+
  have r: "0 < lr_RecordedAt rec_b" "1 < dayOfMs (lr_RecordedAt rec_b)" "lc_mar abc_codec rec_b = Some ''b''" by code_simp+
  have io: "ri_stat (ai_rotate ?io)" "ri_mkdir (ai_rotate ?io)" "ri_sync (ai_rotate ?io)" "ri_close (ai_rotate ?io)"
    "ri_rename (ai_rotate ?io)" "\<not> ri_reopen (ai_rotate ?io)" by (simp_all add: good_append_def good_rotate_def)
  obtain l1 acked1 where e: "run_event abc_codec (LE_append ?io rec_b) (?l, [rec_a]) = (l1, acked1)" by (metis prod.exhaust)
  show ?thesis unfolding Let_def e fst_conv
    by (rule spec [OF conjunct2 [OF failed_reopen_stops_the_archive [OF l r io e]]])
qed

lemma bytes_less_digit: "bytes_less (segmentName d q) (legacySegmentName lo hi p)"
proof -
  obtain y m n where c: "civil d = (y, m, n)" by (metis prod_cases3)
  have "\<exists>v r. v < 10 \<and> segmentName d q = digit v # r"
    by (rule exI [of _ "nat y div 10 ^ 3 mod 10"]) (simp add: segmentName_def fmt_day_def c pad_four del: pad_digits.simps)
  then obtain v r where v: "v < 10" "segmentName d q = digit v # r" by blast
  moreover obtain t where "legacySegmentName lo hi p = CHR ''l'' # t" by (simp add: legacySegmentName_def)
  moreover have "byte (digit v) < byte (CHR ''l'')" using byte_digit(1) [OF v(1)] v(1) by (simp add: byte_def)
  ultimately show ?thesis by simp
qed

lemma bytes_of_run: "ledger_bytes c dk = closed_concat c (ld_files dk) @ deref_or (ld_live dk) []"
  by (simp add: ledger_bytes_def closed_concat_def)

text \<open>C40: A SAME-DAY MIGRATION TURNS THE RECORD AROUND.  The comments say that segments are ordered by first day and
  sequence and never lexically, since a legacy segment would otherwise be replayed out of place, and that
  a sequence number moves when the legacy segment ends on the day the live file then closes.  The search for
  a free number looks at ordinary names only.  So when a ledger whose records are all of one day was
  migrated, the live file of that same day is closed under sequence 0 as well, the names decide, and a
  replay delivers the later records before the earlier ones.\<close>

theorem same_day_migration_reverses_the_record:
  assumes "lg_open l" "live_bytes l \<noteq> []" "day_ok d" "only_files (lg_files l)"
    and "\<forall>m. present (lg_files l) m \<longleftrightarrow> m = legacySegmentName d d 0"
    and "closed_bytes c (lg_files l) (legacySegmentName d d 0) = Some (x, True)"
    and "rotateLocked io d l = (True, l')"
  shows "ledger_bytes c (lg_disk l) = x @ live_bytes l \<and> ledger_bytes c (lg_disk l') = live_bytes l @ x"
proof -
  let ?fs = "lg_files l" and ?o = "segmentName d 0" and ?g = "legacySegmentName d d 0"
  have ok: "map_ok ?fs" using assms(4) by (simp add: only_files_def)
  have parsed: "parseSegmentName ?o = Some (named_segment ?o d d 0 False)" "parseSegmentName ?g = Some (named_segment ?g d d 0 True)"
    using parse_segmentName [OF assms(3)] parse_legacySegmentName [OF assms(3,3)] by simp_all
  have before: "name_before ?o ?g" by (simp add: name_before_def parsed segmentOrder_def named_segment_def bytes_less_digit)
  then have ne: "?o \<noteq> ?g" using name_before_order(1) by metis
  have run: "segment_run c ?fs = [?g]" by (rule segment_run_unique [OF ok]) (use assms(5) in auto)
  have "live_bytes l' = []"
    using assms(1,2,7) by (auto simp: rotateLocked_def Let_def set_live_def set_files_def fresh_day_def live_bytes_def deref_or_def
        split: if_splits option.splits)
  then have "lg_disk l' \<noteq> lg_disk l" using assms(2) by (auto simp: live_bytes_def)
  with rotate_disk [of io d l] assms(7) obtain n where n: "freeSegmentName ?fs d = Some n" "live_bytes l' = []"
    "lg_files l' = AList.update (n @ plainSuffix) (D_file (live_bytes l)) ?fs" by auto
  have "\<not> present ?fs ?o" using assms(5) ne by simp
  then have "map_of ?fs (?o @ plainSuffix) = None" "map_of ?fs (?o @ gzSuffix) = None"
    using parsed(1) only_files_entry [OF assms(4)] by (auto simp: present_def)
  then have "n = ?o" using free_name(3) [OF n(1)] by (metis gr_zeroI)
  then have fs': "lg_files l' = AList.update (?o @ plainSuffix) (D_file (live_bytes l)) ?fs" by (simp add: n(3))
  have p: "present (lg_files l') m \<longleftrightarrow> m = ?o \<or> m = ?g" for m
    unfolding fs' using present_new [of ?o] parsed(1) assms(5) by simp
  have "segment_run c (lg_files l') = [?o, ?g]"
    by (rule segment_run_unique) (use ok before p in \<open>auto simp: fs'\<close>)
  moreover have "closed_bytes c (lg_files l') ?o = Some (live_bytes l, True)" by (simp add: fs' closed_bytes_def)
  moreover have "closed_bytes c (lg_files l') ?g = Some (x, True)"
    using assms(6) ne by (simp add: fs' closed_bytes_def cong: option.case_cong)
  ultimately have "ledger_bytes c (lg_disk l') = live_bytes l @ x"
    using n(2) by (simp add: bytes_of_run closed_concat_def live_bytes_def)
  moreover have "ledger_bytes c (lg_disk l) = x @ live_bytes l"
    using assms(6) by (simp add: bytes_of_run closed_concat_def run live_bytes_def)
  ultimately show ?thesis by simp
qed

text \<open>The ledger of one record of day 1 after its migration, and after a second record of that day.\<close>

definition abc_migrated :: ledger where
  "abc_migrated = (new_ledger \<lparr>ld_live = Some (''c'' @ [newline]),
     ld_files = [(''legacy-1970-01-02-to-1970-01-02-0000.jsonl'', D_file (''a'' @ [newline])), (''.migrated'', D_file ''established'')]\<rparr>)
       \<lparr>lg_day := Some 1\<rparr>"

lemma same_day_migration_reverses_the_record_witness:
  "case rotateLocked good_rotate 1 abc_migrated of
     (ok, l') \<Rightarrow> ok \<and> ledger_bytes abc_codec (lg_disk abc_migrated) = ''a'' @ newline # ''c'' @ [newline] \<and>
       ledger_bytes abc_codec (lg_disk l') = ''c'' @ newline # ''a'' @ [newline] \<and>
       fst (ReadLedger abc_codec (lg_disk l')) = [rec_c, rec_a]"
proof -
  have l: "lg_open abc_migrated" "live_bytes abc_migrated \<noteq> []" by code_simp+
  have d: "day_ok 1" by (simp add: day_ok_def)
  have o: "only_files (lg_files abc_migrated)" by (rule files_checked) code_simp
  then have ok: "map_ok (lg_files abc_migrated)" by (simp add: only_files_def)
  have "segment_run abc_codec (lg_files abc_migrated) = [legacySegmentName 1 1 0]" by code_simp
  with segment_run_ok(2) [OF ok, of abc_codec]
  have p: "\<forall>m. present (lg_files abc_migrated) m \<longleftrightarrow> m = legacySegmentName 1 1 0" by auto
  have b: "closed_bytes abc_codec (lg_files abc_migrated) (legacySegmentName 1 1 0) = Some (''a'' @ [newline], True)" by code_simp
  have live: "live_bytes abc_migrated = ''c'' @ [newline]" by code_simp
  have e: "case rotateLocked good_rotate 1 abc_migrated of (ok, l') \<Rightarrow> ok \<and> fst (ReadLedger abc_codec (lg_disk l')) = [rec_c, rec_a]" by code_simp
  obtain ok' l' where r: "rotateLocked good_rotate 1 abc_migrated = (ok', l')" by (metis prod.exhaust)
  with e have "rotateLocked good_rotate 1 abc_migrated = (True, l')" "fst (ReadLedger abc_codec (lg_disk l')) = [rec_c, rec_a]" by simp_all
  with same_day_migration_reverses_the_record [OF l d o p b this(1)] live show ?thesis by simp
qed

text \<open>
  Three more, each at a concrete run.  A clock stepped back behind a rotation of the maintenance pass puts a
  segment out of order; a failed fsync of the directory after a rotation leaves the old offset, so the next
  position lies past the end of the file, and reports no rotation; an empty line is not counted in a
  position.
\<close>

lemma clock_step_reorders_segments:
  "let l = fst (run_events abc_codec [LE_open good_open, LE_append good_append rec_b,
       LE_upkeep (good_upkeep []) True (time_of_milli 400000000), LE_append good_append rec_a, LE_rotate good_rotate])
   in fst (ReadLedger abc_codec (lg_disk l)) = [rec_a, rec_b]"
  by code_simp

lemma failed_directory_sync_shifts_the_cursor:
  "let l = fst (run_events abc_codec [LE_open good_open, LE_append good_append rec_a]) in
   case AppendAt abc_codec (good_append\<lparr>ai_rotate := good_rotate\<lparr>ri_syncdir := False\<rparr>\<rparr>) rec_b l of
     ((off, seg, ok), l') \<Rightarrow> ok \<and> off = 4 \<and> live_bytes l' = ''b'' @ [newline] \<and> seg = [] \<and>
       map fst (lg_files l') = [''.migrated'', ''1970-01-02-0000.jsonl'']"
  by code_simp

lemma empty_line_shifts_the_position:
  "map_option (\<lambda>r. ps_Offset (sc_pos r))
     (ScanLedgerFrom abc_codec \<lparr>ld_live = Some (''a'' @ newline # newline # ''b'' @ [newline]), ld_files = []\<rparr> start_pos) = Some 4"
  by code_simp

end
