(* ===== verification/SendPace.thy ===== *)
theory SendPace imports Meters begin

text \<open>
  The client half of the relay's capacity table (\<open>internal/sidecar/sendpace.go\<close>): two token buckets
  derived from the published ceilings.  Frames with a durable retry path are deferred when a bucket is
  low, control frames are always admitted and always charged.  Token arithmetic is rational.
\<close>

record bucket =
  bk_rate :: rat
  bk_capacity :: rat
  bk_reserve :: rat
  bk_tokens :: rat

definition newBucket :: "int \<Rightarrow> bucket" where
  "newBucket published =
     (let rate0 = rat_of_int (published div 2); capacity0 = rat_of_int (published div 4);
          rate = (if rate0 < 1 then 1 else rate0); capacity = (if capacity0 < 1 then 1 else capacity0)
      in \<lparr>bk_rate = rate, bk_capacity = capacity, bk_reserve = capacity / 2, bk_tokens = capacity\<rparr>)"

definition seconds :: "duration \<Rightarrow> rat" where
  "seconds d = rat_of_int d / rat_of_int second"

definition refill :: "duration \<Rightarrow> bucket \<Rightarrow> bucket" where
  "refill elapsed b =
     (if elapsed \<le> 0 then b
      else (let t = bk_tokens b + bk_rate b * seconds elapsed
            in b\<lparr>bk_tokens := (if t > bk_capacity b then bk_capacity b else t)\<rparr>))"

definition allowDeferred :: "rat \<Rightarrow> bucket \<Rightarrow> bool" where
  "allowDeferred cost b =
     (let usable0 = bk_capacity b - bk_reserve b;
          usable = (if usable0 \<le> 0 then bk_capacity b else usable0);
          cost1 = (if cost > usable then usable else cost)
      in bk_tokens b - bk_reserve b \<ge> cost1)"

definition take_tokens :: "rat \<Rightarrow> bucket \<Rightarrow> bucket" where
  "take_tokens cost b = b\<lparr>bk_tokens := bk_tokens b - cost\<rparr>"

record send_pace =
  sp_on :: bool
  sp_acked :: bool
  sp_frames :: bucket
  sp_bytes :: bucket
  sp_last :: time
  sp_publishedFrames :: int
  sp_publishedBytes :: int
  sp_deferred :: int

definition zero_bucket :: bucket where
  "zero_bucket = \<lparr>bk_rate = 0, bk_capacity = 0, bk_reserve = 0, bk_tokens = 0\<rparr>"

definition reset_pace :: send_pace where
  "reset_pace = \<lparr>sp_on = False, sp_acked = False, sp_frames = zero_bucket, sp_bytes = zero_bucket,
     sp_last = 0, sp_publishedFrames = 0, sp_publishedBytes = 0, sp_deferred = 0\<rparr>"

definition configure_pace :: "(bytes, int) gomap \<Rightarrow> time \<Rightarrow> send_pace \<Rightarrow> bool \<times> send_pace" where
  "configure_pace limits now p =
     (let p0 = p\<lparr>sp_acked := True\<rparr>;
          v = deref_or (map_of limits ''maxFramesPerSecond'') 0;
          c1 = (v > 0 \<and> v \<noteq> sp_publishedFrames p0);
          p1 = (if c1 then p0\<lparr>sp_publishedFrames := v, sp_frames := newBucket v\<rparr> else p0);
          w = deref_or (map_of limits ''maxBytesPerSecond'') 0;
          c2 = (w > 0 \<and> w \<noteq> sp_publishedBytes p1);
          p2 = (if c2 then p1\<lparr>sp_publishedBytes := w, sp_bytes := newBucket w\<rparr> else p1);
          changed = (c1 \<or> c2)
      in (changed, if changed then p2\<lparr>sp_on := True, sp_last := now\<rparr> else p2))"

definition advance_pace :: "time \<Rightarrow> send_pace \<Rightarrow> send_pace" where
  "advance_pace now p =
     (let p1 = (if sp_last p \<noteq> 0 \<and> now - sp_last p > 0
                then p\<lparr>sp_frames := refill (now - sp_last p) (sp_frames p),
                       sp_bytes := refill (now - sp_last p) (sp_bytes p)\<rparr>
                else p)
      in p1\<lparr>sp_last := now\<rparr>)"

definition defer_frame :: "send_pace \<Rightarrow> bool \<times> send_pace" where
  "defer_frame p = (False, p\<lparr>sp_deferred := sp_deferred p + 1\<rparr>)"

definition pace_admit :: "time \<Rightarrow> int \<Rightarrow> bool \<Rightarrow> send_pace \<Rightarrow> bool \<times> send_pace" where
  "pace_admit now sz deferred p =
     (if deferred \<and> \<not> sp_acked p then defer_frame p
      else if \<not> sp_on p then (True, p)
      else (let p1 = advance_pace now p in
            if deferred \<and> (\<not> allowDeferred 1 (sp_frames p1) \<or>
                 sp_publishedBytes p1 > 0 \<and> \<not> allowDeferred (rat_of_int sz) (sp_bytes p1))
            then defer_frame p1
            else (let p2 = p1\<lparr>sp_frames := take_tokens 1 (sp_frames p1)\<rparr>
                  in (True, if sp_publishedBytes p2 > 0
                            then p2\<lparr>sp_bytes := take_tokens (rat_of_int sz) (sp_bytes p2)\<rparr> else p2))))"

definition readyForBulk :: "time \<Rightarrow> send_pace \<Rightarrow> bool \<times> send_pace" where
  "readyForBulk now p =
     (if \<not> sp_acked p then defer_frame p
      else if \<not> sp_on p then (True, p)
      else (let p1 = advance_pace now p in
            if \<not> allowDeferred 1 (sp_frames p1) then defer_frame p1 else (True, p1)))"

definition paceDeferred :: "bytes \<Rightarrow> bool" where
  "paceDeferred ty = (ty = ''MIGRATION_PAYLOAD'' \<or> ty = ''MIGRATION_ACK'')"

definition framesPerSecond :: "send_pace \<Rightarrow> rat" where
  "framesPerSecond p = (if \<not> sp_on p then 0 else bk_rate (sp_frames p))"

end
