(* ===== verification/SendPaceProps.thy ===== *)
theory SendPaceProps imports SendPace begin

text \<open>
  The pacer against the meter it is meant for: what the two buckets let through in any second, and so
  that the relay's fixed window never sheds a paced peer; and that a deferred frame gets through.
\<close>

type_synonym attempt = "time \<times> int \<times> bool"

fun pace_sent :: "attempt list \<Rightarrow> send_pace \<Rightarrow> attempt list" where
  "pace_sent [] p = []"
| "pace_sent ((now, sz, deferred) # fs) p =
     (case pace_admit now sz deferred p of
        (True, p1) \<Rightarrow> (now, sz, deferred) # pace_sent fs p1
      | (False, p1) \<Rightarrow> pace_sent fs p1)"

text \<open>What left at or after \<open>t0\<close>, in the unit of a bucket; and the control frames of one second.\<close>

definition sent_since :: "(int \<Rightarrow> rat) \<Rightarrow> time \<Rightarrow> attempt list \<Rightarrow> rat" where
  "sent_since cost t0 A = sum_list (map (\<lambda>(t, sz, d). if t0 \<le> t then cost sz else 0) A)"

definition control_since :: "(int \<Rightarrow> rat) \<Rightarrow> time \<Rightarrow> attempt list \<Rightarrow> rat" where
  "control_since cost t0 A = sum_list (map (\<lambda>(t, sz, d). if t0 \<le> t \<and> \<not> d then cost sz else 0) A)"

definition control_within :: "(int \<Rightarrow> rat) \<Rightarrow> time \<Rightarrow> attempt list \<Rightarrow> rat" where
  "control_within cost t0 A =
     sum_list (map (\<lambda>(t, sz, d). if t0 \<le> t \<and> t < t0 + second \<and> \<not> d then cost sz else 0) A)"

lemma since_simps [simp]:
  "sent_since cost t0 [] = 0" "control_since cost t0 [] = 0"
  "sent_since cost t0 (A @ B) = sent_since cost t0 A + sent_since cost t0 B"
  "control_since cost t0 (A @ B) = control_since cost t0 A + control_since cost t0 B"
  "control_within cost t0 (A @ B) = control_within cost t0 A + control_within cost t0 B"
  "sent_since cost t0 [(t, sz, d)] = (if t0 \<le> t then cost sz else 0)"
  "control_since cost t0 [(t, sz, d)] = (if t0 \<le> t \<and> \<not> d then cost sz else 0)"
  "control_within cost t0 [(t, sz, True)] = 0"
  by (simp_all add: sent_since_def control_since_def control_within_def)

lemma since_late: "\<forall>(t, sz, d)\<in>set A. t < t0 \<Longrightarrow> sent_since cost t0 A = 0 \<and> control_since cost t0 A = 0"
  by (induction A) (auto simp: sent_since_def control_since_def)

lemma control_within_since:
  "\<forall>(t, sz, d)\<in>set A. t < t0 + second \<Longrightarrow> control_within cost t0 A = control_since cost t0 A"
  unfolding control_within_def control_since_def by (rule arg_cong [where f = sum_list], rule map_cong) auto

lemma control_within_nonneg: "\<forall>(t, sz, d)\<in>set A. 0 \<le> cost sz \<Longrightarrow> 0 \<le> control_within cost t0 A"
  unfolding control_within_def by (rule sum_list_nonneg) auto

section \<open>One bucket\<close>

definition bucket_fit :: "bucket \<Rightarrow> bool" where
  "bucket_fit b = (0 \<le> bk_rate b \<and> 0 \<le> bk_reserve b \<and> bk_reserve b < bk_capacity b)"

text \<open>The tokens and the control frames account for what left since any instant (a control frame sent before
  the table arrived took no token), and once a deferred frame has left, the reserve is not touched by
  deferred frames.\<close>

definition bucket_inv :: "(int \<Rightarrow> rat) \<Rightarrow> bucket \<Rightarrow> time \<Rightarrow> attempt list \<Rightarrow> bool" where
  "bucket_inv cost b last_t A = (bk_tokens b \<le> bk_capacity b \<and> (\<forall>(t, sz, d)\<in>set A. t \<le> last_t \<and> 0 \<le> cost sz) \<and>
     (\<forall>t0\<le>last_t.
        bk_tokens b + sent_since cost t0 A \<le>
          bk_capacity b + bk_rate b * seconds (last_t - t0) + control_since cost t0 A \<and>
        sent_since cost t0 A \<le>
          bk_capacity b - bk_reserve b + bk_rate b * seconds (last_t - t0) + control_since cost t0 A))"

lemma seconds_simps: "seconds (a + b) = seconds a + seconds b" "seconds 0 = 0" "0 \<le> d \<Longrightarrow> 0 \<le> seconds d"
  by (simp_all add: seconds_def second_def add_divide_distrib)

lemma refill_fields [simp]:
  "bk_rate (refill e b) = bk_rate b" "bk_reserve (refill e b) = bk_reserve b" "bk_capacity (refill e b) = bk_capacity b"
  by (simp_all add: refill_def Let_def)

lemma bucket_advance:
  assumes "bucket_fit b" "bucket_inv cost b last_t A" "last_t \<le> now"
  shows "bucket_inv cost (if now - last_t > 0 then refill (now - last_t) b else b) now A"
proof (cases "last_t < now")
  case True
  let ?b = "refill (now - last_t) b"
  have tok: "bk_tokens ?b \<le> bk_capacity b" "bk_tokens ?b \<le> bk_tokens b + bk_rate b * seconds (now - last_t)"
    using True by (simp_all add: refill_def Let_def)
  have "bk_tokens ?b + sent_since cost t0 A \<le> bk_capacity b + bk_rate b * seconds (now - t0) + control_since cost t0 A \<and>
      sent_since cost t0 A \<le> bk_capacity b - bk_reserve b + bk_rate b * seconds (now - t0) + control_since cost t0 A"
    if t0: "t0 \<le> now" for t0
  proof (cases "t0 \<le> last_t")
    case True
    have s: "seconds (now - t0) = seconds (now - last_t) + seconds (last_t - t0)"
      using seconds_simps(1) [of "now - last_t" "last_t - t0"] by simp
    have "0 \<le> bk_rate b * seconds (now - last_t)"
      using assms(1,3) seconds_simps(3) [of "now - last_t"] by (simp add: bucket_fit_def)
    with True assms(2) tok(2) show ?thesis unfolding s bucket_inv_def by (force simp: distrib_left)
  next
    case False
    then have "\<forall>(t, sz, d)\<in>set A. t < t0" using assms(2) by (auto simp: bucket_inv_def)
    from since_late [OF this] have z: "sent_since cost t0 A = 0" "control_since cost t0 A = 0" by blast+
    have "0 \<le> bk_rate b * seconds (now - t0)"
      using assms(1) t0 seconds_simps(3) [of "now - t0"] by (simp add: bucket_fit_def)
    with z tok(1) assms(1) show ?thesis by (simp add: bucket_fit_def)
  qed
  then show ?thesis using True tok(1) assms(2) by (fastforce simp: bucket_inv_def)
next
  case False
  then have "now = last_t" using assms(3) by simp
  then show ?thesis using assms(2) by simp
qed

lemma bucket_control:
  assumes "bucket_inv cost b now A" "0 \<le> cost sz"
  shows "bucket_inv cost (take_tokens (cost sz) b) now (A @ [(now, sz, False)])"
  using assms by (auto simp: bucket_inv_def take_tokens_def)

lemma bucket_deferred:
  assumes "bucket_fit b" "bucket_inv cost b now A" "0 \<le> cost sz" "cost sz \<le> bk_capacity b - bk_reserve b"
    and "allowDeferred (cost sz) b"
  shows "bucket_inv cost (take_tokens (cost sz) b) now (A @ [(now, sz, True)])"
proof -
  have "cost sz \<le> bk_tokens b - bk_reserve b"
    using assms(1,4,5) by (auto simp: allowDeferred_def Let_def bucket_fit_def split: if_splits)
  then have more: "sent_since cost t0 A + cost sz \<le>
      bk_capacity b - bk_reserve b + bk_rate b * seconds (now - t0) + control_since cost t0 A" if "t0 \<le> now" for t0
    using assms(2) that unfolding bucket_inv_def by fastforce
  then show ?thesis using assms(2,3) by (auto simp: bucket_inv_def take_tokens_def)
qed

lemma bucket_control_only:
  assumes "bucket_fit b" "bk_tokens b \<le> bk_capacity b"
    and "\<forall>(t, sz, d)\<in>set A. t \<le> now \<and> \<not> d \<and> 0 \<le> cost sz"
  shows "bucket_inv cost b now A"
proof -
  have "sent_since cost t0 A = control_since cost t0 A" for t0
    unfolding sent_since_def control_since_def by (rule arg_cong [where f = sum_list], rule map_cong) (use assms(3) in auto)
  moreover have "0 \<le> bk_rate b * seconds (now - t0)" if "t0 \<le> now" for t0
    using assms(1) that seconds_simps(3) [of "now - t0"] by (simp add: bucket_fit_def)
  ultimately show ?thesis using assms by (fastforce simp: bucket_inv_def bucket_fit_def)
qed

section \<open>The pacer\<close>

definition frame_cost :: "int \<Rightarrow> rat" where
  "frame_cost sz = 1"

definition pacer_fit :: "send_pace \<Rightarrow> attempt list \<Rightarrow> bool" where
  "pacer_fit p A = (sp_on p \<and> sp_acked p \<and> 0 < sp_publishedBytes p \<and> 0 < sp_last p \<and>
     bucket_fit (sp_frames p) \<and> 1 \<le> bk_capacity (sp_frames p) - bk_reserve (sp_frames p) \<and>
     bucket_fit (sp_bytes p) \<and>
     bucket_inv frame_cost (sp_frames p) (sp_last p) A \<and> bucket_inv rat_of_int (sp_bytes p) (sp_last p) A)"

definition same_rates :: "send_pace \<Rightarrow> send_pace \<Rightarrow> bool" where
  "same_rates p q = (bk_rate (sp_frames p) = bk_rate (sp_frames q) \<and> bk_capacity (sp_frames p) = bk_capacity (sp_frames q) \<and>
     bk_reserve (sp_frames p) = bk_reserve (sp_frames q) \<and> bk_rate (sp_bytes p) = bk_rate (sp_bytes q) \<and>
     bk_capacity (sp_bytes p) = bk_capacity (sp_bytes q) \<and> bk_reserve (sp_bytes p) = bk_reserve (sp_bytes q))"

lemma advance_fit:
  assumes "pacer_fit p A" "sp_last p \<le> now"
  shows "pacer_fit (advance_pace now p) A" "same_rates (advance_pace now p) p" "sp_last (advance_pace now p) = now"
proof -
  have fit: "bucket_fit (sp_frames p)" "bucket_fit (sp_bytes p)"
    and i: "bucket_inv frame_cost (sp_frames p) (sp_last p) A" "bucket_inv rat_of_int (sp_bytes p) (sp_last p) A"
    using assms(1) by (simp_all add: pacer_fit_def)
  show "pacer_fit (advance_pace now p) A"
    using assms bucket_advance [OF fit(1) i(1) assms(2)] bucket_advance [OF fit(2) i(2) assms(2)]
    by (auto simp: pacer_fit_def advance_pace_def Let_def bucket_fit_def)
  show "same_rates (advance_pace now p) p" by (simp add: same_rates_def advance_pace_def Let_def)
  show "sp_last (advance_pace now p) = now" by (simp add: advance_pace_def Let_def)
qed

lemma take_fields [simp]:
  "bk_rate (take_tokens c b) = bk_rate b" "bk_reserve (take_tokens c b) = bk_reserve b"
  "bk_capacity (take_tokens c b) = bk_capacity b" "bucket_fit (take_tokens c b) = bucket_fit b"
  by (simp_all add: take_tokens_def bucket_fit_def)

text \<open>One attempt: a control frame is never refused, and an admitted frame is paid for.\<close>

lemma admit_fit:
  assumes "pacer_fit p A" "sp_last p \<le> now" "0 \<le> sz"
    and "deferred \<longrightarrow> rat_of_int sz \<le> bk_capacity (sp_bytes p) - bk_reserve (sp_bytes p)"
    and "pace_admit now sz deferred p = (ok, p1)"
  shows "pacer_fit p1 (A @ (if ok then [(now, sz, deferred)] else []))" "same_rates p1 p" "sp_last p1 = now"
    "\<not> deferred \<Longrightarrow> ok"
proof -
  let ?q = "advance_pace now p"
  note q = advance_fit [OF assms(1,2)]
  have on: "sp_on p" "sp_acked p" "0 < sp_publishedBytes ?q" using assms(1) q(1) by (simp_all add: pacer_fit_def)
  let ?r = "?q\<lparr>sp_frames := take_tokens 1 (sp_frames ?q), sp_bytes := take_tokens (rat_of_int sz) (sp_bytes ?q)\<rparr>"
  have step: "pace_admit now sz deferred p = (if deferred \<and> (\<not> allowDeferred 1 (sp_frames ?q) \<or>
      \<not> allowDeferred (rat_of_int sz) (sp_bytes ?q)) then defer_frame ?q else (True, ?r))"
    using on by (auto simp: pace_admit_def Let_def)
  have ctl: "\<not> deferred \<Longrightarrow> pacer_fit ?r (A @ [(now, sz, deferred)])"
    using q(1,3) bucket_control [of frame_cost "sp_frames ?q" now A sz] assms(3)
      bucket_control [of rat_of_int "sp_bytes ?q" now A sz]
    by (auto simp: pacer_fit_def frame_cost_def)
  have small: "deferred \<longrightarrow> rat_of_int sz \<le> bk_capacity (sp_bytes ?q) - bk_reserve (sp_bytes ?q)"
    using assms(4) q(2) by (simp add: same_rates_def)
  have dfr: "pacer_fit ?r (A @ [(now, sz, deferred)])"
    if "deferred" "allowDeferred 1 (sp_frames ?q)" "allowDeferred (rat_of_int sz) (sp_bytes ?q)"
    using q(1,3) bucket_deferred [of "sp_frames ?q" frame_cost now A sz] assms(3) small that
      bucket_deferred [of "sp_bytes ?q" rat_of_int now A sz]
    by (auto simp: pacer_fit_def frame_cost_def)
  have same: "same_rates ?r p" using q(2) by (simp add: same_rates_def)
  have no: "pacer_fit (snd (defer_frame ?q)) A" "same_rates (snd (defer_frame ?q)) p" "sp_last (snd (defer_frame ?q)) = now"
    using q by (simp_all add: defer_frame_def pacer_fit_def same_rates_def)
  show "pacer_fit p1 (A @ (if ok then [(now, sz, deferred)] else []))"
    using assms(5) ctl dfr no(1) unfolding step by (cases deferred) (auto simp: defer_frame_def split: if_splits)
  show "same_rates p1 p" "sp_last p1 = now"
    using assms(5) same no(2,3) q(3) unfolding step by (auto simp: defer_frame_def split: if_splits)
  show "\<not> deferred \<Longrightarrow> ok" using assms(5) unfolding step by (auto split: if_splits)
qed

section \<open>The meter\<close>

text \<open>The relay's side: no breach of the connection meter for these arrivals.\<close>

fun unshed :: "limits \<Rightarrow> attempt list \<Rightarrow> conn_meter \<Rightarrow> bool" where
  "unshed l [] c = True"
| "unshed l ((now, sz, d) # fs) c =
     (case conn_observe now sz l c of (None, c1) \<Rightarrow> unshed l fs c1 | (Some b, c1) \<Rightarrow> False)"

definition meter_inv :: "(int \<Rightarrow> rat) \<Rightarrow> rate_meter \<Rightarrow> time \<Rightarrow> attempt list \<Rightarrow> bool" where
  "meter_inv cost m last_t A = (rm_window m = second \<and> rm_start m \<le> last_t \<and>
     rat_of_int (rm_count m) \<le> sent_since cost (rm_start m) A)"

text \<open>What the meter counts left within the last second.\<close>

lemma meter_step:
  assumes "meter_inv cost m last_t A" "last_t \<le> now" "rat_of_int n = cost sz"
    and "rate_observe now n m = (out, m')" "\<forall>(t, sz, d)\<in>set A. 0 \<le> cost sz"
  shows "meter_inv cost m' now (A @ [(now, sz, d)])" "now < rm_start m' + second"
    "fst out = rm_count m'"
proof -
  have nn: "0 \<le> sent_since cost t0 A" for t0
    using assms(5) unfolding sent_since_def by (intro sum_list_nonneg) auto
  show "meter_inv cost m' now (A @ [(now, sz, d)])"
    using assms nn [of now]
    by (auto simp: meter_inv_def rate_observe_def Let_def split: if_splits)
  show "now < rm_start m' + second" "fst out = rm_count m'"
    using assms(1,4) by (auto simp: meter_inv_def rate_observe_def Let_def second_def split: if_splits)
qed

text \<open>The bucket's bound meets the meter's count.\<close>

lemma window_within_limit:
  assumes "bucket_inv cost b now A" "meter_inv cost m now A" "now < rm_start m + second" "0 \<le> bk_rate b"
    and "\<forall>t0. control_within cost t0 (A @ fs) \<le> K" "\<forall>(t, sz, d)\<in>set fs. 0 \<le> cost sz"
    and "bk_capacity b - bk_reserve b + bk_rate b + K \<le> rat_of_int l"
  shows "rm_count m \<le> l"
proof -
  let ?t0 = "rm_start m"
  have le: "?t0 \<le> now" using assms(2) by (simp add: meter_inv_def)
  have "seconds (now - ?t0) \<le> 1" using assms(3) by (simp add: seconds_def second_def)
  then have r: "bk_rate b * seconds (now - ?t0) \<le> bk_rate b" using assms(4) by (simp add: mult_left_le)
  have "\<forall>(t, sz, d)\<in>set A. t < ?t0 + second" using assms(1,3) by (fastforce simp: bucket_inv_def)
  from control_within_since [OF this, of cost] control_within_nonneg [OF assms(6), of ?t0] spec [OF assms(5), of ?t0]
  have "control_since cost ?t0 A \<le> K" by simp
  moreover have "sent_since cost ?t0 A \<le>
      bk_capacity b - bk_reserve b + bk_rate b * seconds (now - ?t0) + control_since cost ?t0 A"
    using assms(1) le by (simp add: bucket_inv_def)
  moreover have "rat_of_int (rm_count m) \<le> sent_since cost ?t0 A" using assms(2) by (simp add: meter_inv_def)
  ultimately have "rat_of_int (rm_count m) \<le> rat_of_int l" using r assms(7) by linarith
  then show ?thesis by simp
qed

lemma meter_later: "meter_inv cost m t A \<Longrightarrow> t \<le> t' \<Longrightarrow> meter_inv cost m t' A"
  by (simp add: meter_inv_def)

text \<open>One more frame of a sender that keeps to its buckets is not a breach.\<close>

lemma observed_within:
  assumes "meter_inv frame_cost (cm_frames c) t A" "meter_inv rat_of_int (cm_bytes c) t A" "t \<le> now"
    and "bucket_inv frame_cost bf now (A @ [(now, sz, d)])" "bucket_inv rat_of_int bb now (A @ [(now, sz, d)])"
    and "0 \<le> bk_rate bf" "0 \<le> bk_rate bb" "\<forall>(t, sz, d)\<in>set fs. 0 \<le> sz"
    and "\<forall>t0. control_within frame_cost t0 ((A @ [(now, sz, d)]) @ fs) \<le> KF"
    and "\<forall>t0. control_within rat_of_int t0 ((A @ [(now, sz, d)]) @ fs) \<le> KB"
    and "bk_capacity bf - bk_reserve bf + bk_rate bf + KF \<le> rat_of_int (li_MaxFramesPerSecond l)"
    and "bk_capacity bb - bk_reserve bb + bk_rate bb + KB \<le> rat_of_int (li_MaxBytesPerSecond l)"
  obtains c' where "conn_observe now sz l c = (None, c')"
    "meter_inv frame_cost (cm_frames c') now (A @ [(now, sz, d)])" "meter_inv rat_of_int (cm_bytes c') now (A @ [(now, sz, d)])"
proof -
  have nonneg: "\<forall>(t, sz, d)\<in>set fs. 0 \<le> frame_cost sz" "\<forall>(t, sz, d)\<in>set fs. 0 \<le> rat_of_int sz"
    "\<forall>(t, sz, d)\<in>set A. 0 \<le> frame_cost sz" "\<forall>(t, sz, d)\<in>set A. 0 \<le> rat_of_int sz"
    using assms(5,8) by (fastforce simp: frame_cost_def bucket_inv_def)+
  obtain fo m1 where o1: "rate_observe now 1 (cm_frames c) = (fo, m1)" by fastforce
  obtain bo m2 where o2: "rate_observe now sz (cm_bytes c) = (bo, m2)" by fastforce
  have one: "rat_of_int 1 = frame_cost sz" by (simp add: frame_cost_def)
  note s1 = meter_step [OF assms(1,3) one o1 nonneg(3)] and s2 = meter_step [OF assms(2,3) refl o2 nonneg(4)]
  have "rm_count m1 \<le> li_MaxFramesPerSecond l"
    by (rule window_within_limit [OF assms(4) s1(1,2) assms(6,9) nonneg(1) assms(11)])
  moreover have "rm_count m2 \<le> li_MaxBytesPerSecond l"
    by (rule window_within_limit [OF assms(5) s2(1,2) assms(7,10) nonneg(2) assms(12)])
  ultimately have "conn_observe now sz l c = (None, c\<lparr>cm_frames := m1, cm_bytes := m2\<rparr>)"
    using o1 o2 s1(3) s2(3) by (cases fo; cases bo) (simp add: conn_observe_def Let_def)
  from that [OF this] show ?thesis using s1(1) s2(1) by simp
qed

text \<open>Control frames sent before the table arrived.\<close>

lemma control_prefix_unshed:
  assumes "\<forall>(t, sz, d)\<in>set A. t \<le> t1 \<and> \<not> d \<and> 0 \<le> sz" "\<forall>(t, sz, d)\<in>set H. \<not> d \<and> 0 \<le> sz"
    and "sorted (t1 # map fst H @ [start])" "\<forall>(t, sz, d)\<in>set fs. 0 \<le> sz"
    and "meter_inv frame_cost (cm_frames c) t1 A" "meter_inv rat_of_int (cm_bytes c) t1 A"
    and "bucket_fit bf" "bk_tokens bf \<le> bk_capacity bf" "bucket_fit bb" "bk_tokens bb \<le> bk_capacity bb"
    and "\<forall>t0. control_within frame_cost t0 (A @ H @ fs) \<le> KF" "\<forall>t0. control_within rat_of_int t0 (A @ H @ fs) \<le> KB"
    and "bk_capacity bf - bk_reserve bf + bk_rate bf + KF \<le> rat_of_int (li_MaxFramesPerSecond l)"
    and "bk_capacity bb - bk_reserve bb + bk_rate bb + KB \<le> rat_of_int (li_MaxBytesPerSecond l)"
    and "\<And>c'. meter_inv frame_cost (cm_frames c') start (A @ H) \<Longrightarrow> meter_inv rat_of_int (cm_bytes c') start (A @ H) \<Longrightarrow>
      unshed l rest c'"
  shows "unshed l (H @ rest) c"
  using assms
proof (induction H arbitrary: A t1 c)
  case Nil
  then show ?case by (simp add: meter_later)
next
  case (Cons f H)
  obtain now sz where f: "f = (now, sz, False)" "0 \<le> sz" "t1 \<le> now" using Cons.prems(2,3) by (cases f) auto
  let ?A = "A @ [(now, sz, False)]"
  have A: "\<forall>(t, sz, d)\<in>set ?A. t \<le> now \<and> \<not> d \<and> 0 \<le> sz" using Cons.prems(1) f by fastforce
  then have b: "bucket_inv frame_cost bf now ?A" "bucket_inv rat_of_int bb now ?A"
    by (intro bucket_control_only Cons.prems; fastforce simp: frame_cost_def)+
  have r: "0 \<le> bk_rate bf" "0 \<le> bk_rate bb" using Cons.prems(7,9) by (simp_all add: bucket_fit_def)
  have k: "\<forall>t0. control_within frame_cost t0 (?A @ H @ fs) \<le> KF" "\<forall>t0. control_within rat_of_int t0 (?A @ H @ fs) \<le> KB"
    "\<forall>(t, sz, d)\<in>set (H @ fs). 0 \<le> sz"
    using Cons.prems(2,4,11,12) by (auto simp: f(1) simp del: since_simps)
  obtain c' where c: "conn_observe now sz l c = (None, c')" "meter_inv frame_cost (cm_frames c') now ?A"
      "meter_inv rat_of_int (cm_bytes c') now ?A"
    by (rule observed_within [OF Cons.prems(5,6) f(3) b r k(3,1,2) Cons.prems(13,14)])
  have "unshed l (H @ rest) c'"
    by (rule Cons.IH [OF A _ _ Cons.prems(4) c(2,3) Cons.prems(7-10) k(1,2) Cons.prems(13,14)])
      (use Cons.prems(2,3,15) f in \<open>auto simp del: since_simps\<close>)
  then show ?case by (simp add: f(1) c(1))
qed

lemma paced_unshed:
  assumes "pacer_fit p A" "meter_inv frame_cost (cm_frames c) (sp_last p) A" "meter_inv rat_of_int (cm_bytes c) (sp_last p) A"
    and "sorted (sp_last p # map fst fs)"
    and "\<forall>(t, sz, d)\<in>set fs. 0 \<le> sz \<and> (d \<longrightarrow> rat_of_int sz \<le> bk_capacity (sp_bytes p) - bk_reserve (sp_bytes p))"
    and "\<forall>t0. control_within frame_cost t0 (A @ fs) \<le> KF" "\<forall>t0. control_within rat_of_int t0 (A @ fs) \<le> KB"
    and "bk_capacity (sp_frames p) - bk_reserve (sp_frames p) + bk_rate (sp_frames p) + KF \<le> rat_of_int (li_MaxFramesPerSecond l)"
    and "bk_capacity (sp_bytes p) - bk_reserve (sp_bytes p) + bk_rate (sp_bytes p) + KB \<le> rat_of_int (li_MaxBytesPerSecond l)"
  shows "unshed l (pace_sent fs p) c"
  using assms
proof (induction fs arbitrary: p A c)
  case (Cons f fs)
  obtain now sz d where f: "f = (now, sz, d)" by (cases f) auto
  obtain ok p1 where p1: "pace_admit now sz d p = (ok, p1)" by fastforce
  have le: "sp_last p \<le> now" "0 \<le> sz" and srt: "sorted (now # map fst fs)" using Cons.prems(4,5) by (auto simp: f)
  have small: "d \<longrightarrow> rat_of_int sz \<le> bk_capacity (sp_bytes p) - bk_reserve (sp_bytes p)"
    using Cons.prems(5) by (auto simp: f)
  note a = admit_fit [OF Cons.prems(1) le small p1]
  note same = a(2) [unfolded same_rates_def]
  have nonneg: "\<forall>(t, sz, d)\<in>set fs. 0 \<le> sz" using Cons.prems(5) by fastforce
  have rest: "\<forall>(t, sz, d)\<in>set fs. 0 \<le> sz \<and> (d \<longrightarrow> rat_of_int sz \<le> bk_capacity (sp_bytes p1) - bk_reserve (sp_bytes p1))"
    using Cons.prems(5) same by (auto simp: f)
  have bounds: "bk_capacity (sp_frames p1) - bk_reserve (sp_frames p1) + bk_rate (sp_frames p1) + KF \<le> rat_of_int (li_MaxFramesPerSecond l)"
    "bk_capacity (sp_bytes p1) - bk_reserve (sp_bytes p1) + bk_rate (sp_bytes p1) + KB \<le> rat_of_int (li_MaxBytesPerSecond l)"
    using Cons.prems(8,9) same by simp_all
  show ?case
  proof (cases ok)
    case False
    then have d: d using a(4) by blast
    have k: "\<forall>t0. control_within frame_cost t0 (A @ fs) \<le> KF" "\<forall>t0. control_within rat_of_int t0 (A @ fs) \<le> KB"
      using Cons.prems(6,7) d by (simp_all add: f control_within_def)
    have "unshed l (pace_sent fs p1) c"
      using a(1,3) False srt Cons.prems(2,3) le
      by (intro Cons.IH [OF _ _ _ _ rest k bounds]) (simp_all add: meter_later)
    then show ?thesis using p1 False by (simp add: f)
  next
    case True
    let ?A = "A @ [(now, sz, d)]"
    have k: "\<forall>t0. control_within frame_cost t0 (?A @ fs) \<le> KF" "\<forall>t0. control_within rat_of_int t0 (?A @ fs) \<le> KB"
      using Cons.prems(6,7) by (simp_all add: f)
    have fit: "pacer_fit p1 ?A" using a(1) True by simp
    have inv: "bucket_inv frame_cost (sp_frames p1) now ?A" "bucket_inv rat_of_int (sp_bytes p1) now ?A"
        "0 \<le> bk_rate (sp_frames p1)" "0 \<le> bk_rate (sp_bytes p1)"
      using fit a(3) by (simp_all add: pacer_fit_def bucket_fit_def)
    obtain c' where c: "conn_observe now sz l c = (None, c')" "meter_inv frame_cost (cm_frames c') now ?A"
        "meter_inv rat_of_int (cm_bytes c') now ?A"
      by (rule observed_within [OF Cons.prems(2,3) le(1) inv nonneg k bounds])
    then have "unshed l (pace_sent fs p1) c'"
      using fit a(3) srt by (intro Cons.IH [OF _ _ _ _ rest k bounds]) simp_all
    then show ?thesis using p1 True c(1) by (simp add: f)
  qed
qed simp

lemma fresh_bucket_fit:
  assumes "8 \<le> v"
  shows "bucket_fit (newBucket v)" "1 \<le> bk_capacity (newBucket v) - bk_reserve (newBucket v)"
    "bk_capacity (newBucket v) - bk_reserve (newBucket v) = rat_of_int (v div 4) / 2"
    "8 * (bk_capacity (newBucket v) - bk_reserve (newBucket v) + bk_rate (newBucket v)) \<le> 5 * rat_of_int v"
    "bk_tokens (newBucket v) = bk_capacity (newBucket v)"
proof -
  have d: "2 \<le> v div 4" "4 \<le> v div 2" "4 * (v div 4) \<le> v" "2 * (v div 2) \<le> v" using assms by presburger+
  have r: "2 \<le> rat_of_int (v div 4)" "4 \<le> rat_of_int (v div 2)" using d(1,2) by linarith+
  have "rat_of_int (4 * (v div 4)) \<le> rat_of_int v" "rat_of_int (2 * (v div 2)) \<le> rat_of_int v"
    using d(3,4) by (simp_all only: of_int_le_iff)
  then have s: "4 * rat_of_int (v div 4) \<le> rat_of_int v" "2 * rat_of_int (v div 2) \<le> rat_of_int v" by simp_all
  have nb: "newBucket v = \<lparr>bk_rate = rat_of_int (v div 2), bk_capacity = rat_of_int (v div 4),
      bk_reserve = rat_of_int (v div 4) / 2, bk_tokens = rat_of_int (v div 4)\<rparr>"
    using r by (simp add: newBucket_def Let_def)
  show "bucket_fit (newBucket v)" "1 \<le> bk_capacity (newBucket v) - bk_reserve (newBucket v)"
    "bk_capacity (newBucket v) - bk_reserve (newBucket v) = rat_of_int (v div 4) / 2"
    "8 * (bk_capacity (newBucket v) - bk_reserve (newBucket v) + bk_rate (newBucket v)) \<le> 5 * rat_of_int v"
    "bk_tokens (newBucket v) = bk_capacity (newBucket v)"
    using r s unfolding nb bucket_fit_def by simp_all
qed

section \<open>Claims\<close>

text \<open>C33: A PACED PEER IS NEVER SHED.  A peer that adopts the published table at its handshake, whatever
  it then tries to send, is never closed for capacity by the relay's meter on that table, wherever the
  meter's windows fall and with the \<open>HANDSHAKE\<close> frame itself counted, as the relay counts it: provided that
  every frame arrives when it is sent, that the control frames, which are never held back, stay within three
  eighths of the two ceilings in every second, the \<open>HANDSHAKE\<close> and whatever else was sent before the table
  arrived among them, that no deferred frame is larger than an eighth of the byte ceiling, and that both ceilings
  are at least eight.\<close>

theorem paced_peer_is_never_shed:
  assumes "map_of limits ''maxFramesPerSecond'' = Some (li_MaxFramesPerSecond l)"
    and "map_of limits ''maxBytesPerSecond'' = Some (li_MaxBytesPerSecond l)"
    and "8 \<le> li_MaxFramesPerSecond l" "8 \<le> li_MaxBytesPerSecond l"
    and "0 < start" "configure_pace limits start reset_pace = (changed, p)"
    and "sorted (0 # map fst before @ start # map fst fs)"
    and "\<forall>(t, sz, deferred)\<in>set before. 0 \<le> sz \<and> \<not> deferred"
    and "\<forall>(t, sz, deferred)\<in>set fs. 0 \<le> sz \<and> (deferred \<longrightarrow> 2 * sz \<le> li_MaxBytesPerSecond l div 4)"
    and "\<forall>t0. 8 * control_within frame_cost t0 (before @ fs) \<le> 3 * rat_of_int (li_MaxFramesPerSecond l)"
    and "\<forall>t0. 8 * control_within rat_of_int t0 (before @ fs) \<le> 3 * rat_of_int (li_MaxBytesPerSecond l)"
  shows "unshed l (before @ pace_sent fs p) newConnMeter"
proof -
  let ?L = "li_MaxFramesPerSecond l" and ?B = "li_MaxBytesPerSecond l"
  have p: "p = reset_pace\<lparr>sp_on := True, sp_acked := True, sp_frames := newBucket ?L, sp_bytes := newBucket ?B,
      sp_last := start, sp_publishedFrames := ?L, sp_publishedBytes := ?B\<rparr>"
    using assms(1-4,6) by (auto simp: configure_pace_def Let_def deref_or_def reset_pace_def)
  note bl = fresh_bucket_fit [OF assms(3)] and bb = fresh_bucket_fit [OF assms(4)]
  have early: "\<forall>(t, sz, d)\<in>set before. t \<le> start \<and> \<not> d \<and> 0 \<le> sz"
    using assms(7,8) by (fastforce simp: sorted_append)
  then have "\<forall>(t, sz, d)\<in>set before. t \<le> start \<and> \<not> d \<and> 0 \<le> frame_cost sz"
    "\<forall>(t, sz, d)\<in>set before. t \<le> start \<and> \<not> d \<and> 0 \<le> rat_of_int sz" by (auto simp: frame_cost_def)
  then have fit: "pacer_fit p before" using bl bb assms(3-5) by (simp add: pacer_fit_def p bucket_control_only)
  have m: "meter_inv cost (newRateMeter second) 0 []" for cost
    by (simp add: meter_inv_def newRateMeter_def)
  have small: "rat_of_int sz \<le> rat_of_int (?B div 4) / 2" if "2 * sz \<le> ?B div 4" for sz
  proof -
    have "rat_of_int (2 * sz) \<le> rat_of_int (?B div 4)" using that by (simp only: of_int_le_iff)
    then show ?thesis by simp
  qed
  have k: "\<forall>t0. control_within frame_cost t0 (before @ fs) \<le> 3 / 8 * rat_of_int ?L"
      "\<forall>t0. control_within rat_of_int t0 (before @ fs) \<le> 3 / 8 * rat_of_int ?B"
    using assms(10,11) by (simp_all add: field_simps del: since_simps)
  have bounds: "bk_capacity (newBucket ?L) - bk_reserve (newBucket ?L) + bk_rate (newBucket ?L) + 3 / 8 * rat_of_int ?L \<le> rat_of_int ?L"
    "bk_capacity (newBucket ?B) - bk_reserve (newBucket ?B) + bk_rate (newBucket ?B) + 3 / 8 * rat_of_int ?B \<le> rat_of_int ?B"
    using bl(4) bb(4) by simp_all
  have paced: "unshed l (pace_sent fs p) c"
    if "meter_inv frame_cost (cm_frames c) start before" "meter_inv rat_of_int (cm_bytes c) start before" for c
  proof (rule paced_unshed [OF fit])
    show "\<forall>(t, sz, d)\<in>set fs. 0 \<le> sz \<and> (d \<longrightarrow> rat_of_int sz \<le> bk_capacity (sp_bytes p) - bk_reserve (sp_bytes p))"
      using assms(9) small bb(3) by (fastforce simp: p)
  qed (use k bounds that assms(7) in \<open>simp_all add: p sorted_append del: since_simps\<close>)
  have "unshed l (before @ pace_sent fs p) newConnMeter"
    if "sorted (0 # map fst before @ [start])" "\<forall>(t, sz, d)\<in>set fs. 0 \<le> sz"
    by (rule control_prefix_unshed [where A = "[]" and fs = fs and bf = "newBucket ?L" and bb = "newBucket ?B",
          OF _ _ that _ _ bl(1) _ bb(1) _ _ _ bounds])
      (use assms(8) m k bl(5) bb(5) paced in \<open>auto simp: newConnMeter_def simp del: since_simps\<close>)
  moreover have "sorted (0 # map fst before @ [start])" using assms(7) by (auto simp: sorted_append)
  moreover have "\<forall>(t, sz, d)\<in>set fs. 0 \<le> sz" using assms(9) by fastforce
  ultimately show ?thesis by blast
qed

text \<open>The shipped table, a handshake, a backlog of thirty payloads at once and two control frames.\<close>

lemma paced_peer_is_never_shed_witness:
  "unshed DefaultLimits
     ([(second, 300, False)] @ pace_sent (replicate 30 (second, 1000, True) @ [(second, 200, False), (2 * second, 200, False)])
       (snd (configure_pace [(''maxFramesPerSecond'', 50), (''maxBytesPerSecond'', 4194304)] second reset_pace)))
     newConnMeter"
proof (rule paced_peer_is_never_shed [where start = second and limits = "[(''maxFramesPerSecond'', 50), (''maxBytesPerSecond'', 4194304)]"])
  let ?fs = "replicate 30 (second, 1000, True) @ [(second, 200, False), (2 * second, 200, False)]"
  have c: "control_within cost t0 (replicate n (t, sz, True)) = 0" for cost t0 n t sz
    by (induction n) (simp_all add: control_within_def)
  have k: "control_within cost t0 ([(second, 300, False)] @ ?fs) \<le> cost 300 + 2 * cost 200"
    if "0 \<le> cost 200" "0 \<le> cost 300" for cost :: "int \<Rightarrow> rat" and t0
    using that unfolding since_simps c by (simp add: control_within_def)
  show "\<forall>t0. 8 * control_within frame_cost t0 ([(second, 300, False)] @ ?fs) \<le> 3 * rat_of_int (li_MaxFramesPerSecond DefaultLimits)"
  proof
    fix t0
    have "control_within frame_cost t0 ([(second, 300, False)] @ ?fs) \<le> 3"
      using k [of frame_cost t0] by (simp add: frame_cost_def del: since_simps append_Cons append_Nil)
    then show "8 * control_within frame_cost t0 ([(second, 300, False)] @ ?fs) \<le> 3 * rat_of_int (li_MaxFramesPerSecond DefaultLimits)"
      by (simp add: DefaultLimits_def del: since_simps append_Cons append_Nil)
  qed
  show "\<forall>t0. 8 * control_within rat_of_int t0 ([(second, 300, False)] @ ?fs) \<le> 3 * rat_of_int (li_MaxBytesPerSecond DefaultLimits)"
  proof
    fix t0
    have "control_within rat_of_int t0 ([(second, 300, False)] @ ?fs) \<le> 700"
      using k [of rat_of_int t0] by (simp del: since_simps append_Cons append_Nil)
    then show "8 * control_within rat_of_int t0 ([(second, 300, False)] @ ?fs) \<le> 3 * rat_of_int (li_MaxBytesPerSecond DefaultLimits)"
      by (simp add: DefaultLimits_def del: since_simps append_Cons append_Nil)
  qed
qed (simp_all add: DefaultLimits_def second_def sorted_append prod_eq_iff)

text \<open>C34: A DEFERRED FRAME GETS THROUGH.  A frame held back for the pace is admitted, whatever its size,
  as soon as nothing else was sent for the time in which both buckets fill up, which is bounded by the
  debt over the rate: the pace delays a frame and never refuses it for good.\<close>

theorem deferred_frame_gets_through:
  assumes "sp_on p" "sp_acked p" "sp_last p \<noteq> 0" "sp_last p < now"
    and "bucket_fit (sp_frames p)" "bucket_fit (sp_bytes p)"
    and "bk_capacity (sp_frames p) - bk_tokens (sp_frames p) \<le> bk_rate (sp_frames p) * seconds (now - sp_last p)"
    and "bk_capacity (sp_bytes p) - bk_tokens (sp_bytes p) \<le> bk_rate (sp_bytes p) * seconds (now - sp_last p)"
  shows "fst (readyForBulk now p) \<and> fst (pace_admit now sz True p)"
proof -
  have full: "allowDeferred cost (refill (now - sp_last p) b)"
    if "bucket_fit b" "bk_capacity b - bk_tokens b \<le> bk_rate b * seconds (now - sp_last p)" for b cost
    using that assms(4) by (auto simp: allowDeferred_def refill_def Let_def bucket_fit_def)
  show ?thesis
    using assms(1-4) full [OF assms(5,7)] full [OF assms(6,8)]
    by (simp add: readyForBulk_def pace_admit_def advance_pace_def Let_def)
qed

text \<open>Nine seconds after the pace ran into debt.\<close>

lemma deferred_frame_gets_through_witness:
  "let p = (snd (configure_pace [(''maxFramesPerSecond'', 50), (''maxBytesPerSecond'', 4194304)] second reset_pace))
         \<lparr>sp_frames := (newBucket 50)\<lparr>bk_tokens := -200\<rparr>\<rparr>
   in \<not> fst (pace_admit (2 * second) 100 True p) \<and> fst (pace_admit (10 * second) 8388608 True p)"
proof -
  let ?p = "(snd (configure_pace [(''maxFramesPerSecond'', 50), (''maxBytesPerSecond'', 4194304)] second reset_pace))
         \<lparr>sp_frames := (newBucket 50)\<lparr>bk_tokens := -200\<rparr>\<rparr>"
  have "fst (readyForBulk (10 * second) ?p) \<and> fst (pace_admit (10 * second) 8388608 True ?p)"
    by (rule deferred_frame_gets_through) code_simp+
  moreover have "\<not> fst (pace_admit (2 * second) 100 True ?p)" by code_simp
  ultimately show ?thesis by (simp add: Let_def)
qed

text \<open>C35: A LEGAL FRAME SHEDS ITS SENDER.  The largest frame the contract allows is twice what the relay's
  shipped meter allows in one second.  A payload between the two is admitted by the pacer, which lets an
  oversized frame go on a full bucket, and on arrival the relay closes the connection for it, on the
  first frame of a fresh meter: such an organism can never be forwarded.\<close>

theorem legal_frame_sheds_its_sender:
  assumes "li_MaxBytesPerSecond DefaultLimits < sz" "sz \<le> li_MaxFrameBytes DefaultLimits"
    and "map_of limits ''maxFramesPerSecond'' = Some (li_MaxFramesPerSecond DefaultLimits)"
    and "map_of limits ''maxBytesPerSecond'' = Some (li_MaxBytesPerSecond DefaultLimits)"
    and "configure_pace limits start reset_pace = (changed, p)"
  shows "fst (pace_admit start sz True p) \<and>
    fst (conn_observe now sz DefaultLimits newConnMeter) =
      Some (Breach ''maxBytesPerSecond'' (li_MaxBytesPerSecond DefaultLimits) sz)"
proof
  have p: "p = reset_pace\<lparr>sp_on := True, sp_acked := True, sp_frames := newBucket 50, sp_bytes := newBucket 4194304,
      sp_last := start, sp_publishedFrames := 50, sp_publishedBytes := 4194304\<rparr>"
    using assms(3-5) by (auto simp: configure_pace_def Let_def deref_or_def reset_pace_def DefaultLimits_def)
  show "fst (pace_admit start sz True p)"
    by (simp add: p pace_admit_def advance_pace_def Let_def allowDeferred_def newBucket_def)
  show "fst (conn_observe now sz DefaultLimits newConnMeter) =
      Some (Breach ''maxBytesPerSecond'' (li_MaxBytesPerSecond DefaultLimits) sz)"
    using assms(1) by (simp add: conn_observe_def newConnMeter_def newRateMeter_def rate_observe_def
        DefaultLimits_def Let_def)
qed

lemma legal_frame_sheds_its_sender_witness:
  "let p = snd (configure_pace [(''maxFramesPerSecond'', 50), (''maxBytesPerSecond'', 4194304)] second reset_pace)
   in fst (pace_admit second 5000000 True p) \<and>
     fst (conn_observe 7 5000000 DefaultLimits newConnMeter) = Some (Breach ''maxBytesPerSecond'' 4194304 5000000)"
  using legal_frame_sheds_its_sender [of 5000000 "[(''maxFramesPerSecond'', 50), (''maxBytesPerSecond'', 4194304)]"
      second _ _ 7, OF _ _ _ _ prod.collapse [symmetric]]
  by (simp add: Let_def DefaultLimits_def)

end
