(* ===== verification/Admission.thy ===== *)
theory Admission imports Prelude "HOL-Library.Log_Nat" begin

text \<open>
  The population gate in front of new arrivals (\<open>internal/sidecar/admission.go\<close>): an estimator of the
  population the machine can carry at a reference speed, a slowly moving limit, a gate with hysteresis,
  and the state it keeps across restarts.  A product, sum or quotient of two \<open>float64\<close> is the exact one
  rounded to 53 bits; overflow and subnormal results do not arise at a population times a speed.
\<close>

section \<open>Rounding to 53 bits\<close>

definition pow2 :: "int \<Rightarrow> rat" where
  "pow2 k = (if 0 \<le> k then 2 ^ nat k else 1 / 2 ^ nat (- k))"

definition half_even :: "rat \<Rightarrow> int" where
  "half_even q = (let f = \<lfloor>q\<rfloor>; r = q - rat_of_int f
     in if r < 1 / 2 \<or> (r = 1 / 2 \<and> even f) then f else f + 1)"

definition binade :: "rat \<Rightarrow> int" where
  "binade x = (let (n, d) = quotient_of x; e = bitlen n - bitlen d in if x < pow2 e then e - 1 else e)"

text \<open>For a value that is not negative: the nearest multiple of its last place.\<close>

definition f64_round :: "rat \<Rightarrow> rat" where
  "f64_round x = (if x \<le> 0 then 0 else (let u = pow2 (binade x - 52) in rat_of_int (half_even (x / u)) * u))"

datatype admission_mode = AM_off | AM_fixed | AM_shadow | AM_adaptive

record admission_sample =
  as_at :: time
  as_budget :: rat

record admission =
  ad_mode :: admission_mode
  ad_fixedLimit :: int
  ad_target :: rat
  ad_minLimit :: int
  ad_maxLimit :: int
  ad_hysteresis :: int
  ad_margin :: f64
  ad_minSamples :: nat
  ad_every :: duration
  ad_window :: duration
  ad_samples :: "admission_sample list"
  ad_next :: time
  ad_estimated :: int
  ad_effective :: int
  ad_ready :: bool
  ad_closed :: bool
  ad_committed :: int
  ad_known :: bool
  ad_rejected :: int
  ad_reason :: bytes

record admission_config =
  ac_mode :: "admission_mode option"
  ac_limit :: int
  ac_target :: f64
  ac_min :: int
  ac_max :: int
  ac_hysteresis :: int
  ac_margin :: f64
  ac_minSamples :: nat
  ac_every :: duration
  ac_window :: duration

text \<open>\<open>None\<close> is a mode that \<open>validAdmissionMode\<close> does not know; the message names the rule.\<close>

definition validateAdmissionConfig :: "admission_config \<Rightarrow> bytes option" where
  "validateAdmissionConfig c =
     (if ac_mode c = None then Some ''mode''
      else if ac_mode c = Some AM_fixed \<and> ac_limit c \<le> 0 then Some ''population limit''
      else if \<not> f64_less f64_zero (ac_target c) \<and> ac_target c \<noteq> NaN \<or> \<not> f64_finite (ac_target c)
      then Some ''target''
      else if ac_min c \<le> 0 \<or> ac_max c < ac_min c then Some ''population range''
      else if ac_margin c \<noteq> NaN \<and> \<not> f64_less f64_zero (ac_margin c) \<or> f64_less (Fin 1) (ac_margin c)
      then Some ''safety margin''
      else None)"

definition newAdmissionController :: "admission_mode \<Rightarrow> admission_config \<Rightarrow> admission" where
  "newAdmissionController mode c =
     \<lparr>ad_mode = mode, ad_fixedLimit = ac_limit c, ad_target = f64_val (ac_target c),
      ad_minLimit = ac_min c, ad_maxLimit = ac_max c, ad_hysteresis = ac_hysteresis c,
      ad_margin = ac_margin c, ad_minSamples = ac_minSamples c, ad_every = ac_every c,
      ad_window = ac_window c, ad_samples = [], ad_next = 0, ad_estimated = 0, ad_effective = 0,
      ad_ready = False, ad_closed = False, ad_committed = 0, ad_known = False, ad_rejected = 0,
      ad_reason = ''waiting_for_population''\<rparr>"

section \<open>The estimator\<close>

definition clampInt :: "int \<Rightarrow> int \<Rightarrow> int \<Rightarrow> int" where
  "clampInt v low high = min (max v low) high"

definition median_budget :: "rat list \<Rightarrow> rat" where
  "median_budget xs =
     (let b = sort xs; m = b ! (length b div 2)
      in if length b mod 2 = 0 then f64_round (b ! (length b div 2 - 1) + m) / 2 else m)"

text \<open>The conversion of a value that no \<open>int\<close> holds, a NaN for one, is the smallest \<open>int\<close>, as on amd64.\<close>

definition estimate_of :: "rat list \<Rightarrow> admission \<Rightarrow> int" where
  "estimate_of budgets a =
     clampInt (case ad_margin a of
                 Fin m \<Rightarrow> \<lfloor>f64_round (f64_round (median_budget budgets * m) / ad_target a)\<rfloor>
               | _ \<Rightarrow> - (2 ^ 63))
       (ad_minLimit a) (ad_maxLimit a)"

text \<open>One move of the control value: down by a tenth, up by a twentieth, at least one, never past the
  estimate.  (\<open>effective * 0.10\<close> in 53 bits is exact where ten divides, so its ceiling is that of the
  tenth.)\<close>

definition move_limit :: "int \<Rightarrow> int \<Rightarrow> int" where
  "move_limit estimate effective =
     (if estimate < effective
      then max estimate (effective - max 1 \<lceil>rat_of_int effective / 10\<rceil>)
      else if estimate > effective
      then min estimate (effective + max 1 \<lceil>rat_of_int effective / 20\<rceil>)
      else effective)"

definition recalculate :: "bool \<Rightarrow> admission \<Rightarrow> admission" where
  "recalculate resetEffective a =
     (if length (ad_samples a) < ad_minSamples a then a
      else (let estimate = estimate_of (map as_budget (ad_samples a)) a in a\<lparr>ad_estimated := estimate, ad_ready := True,
                 ad_effective := (if \<not> ad_ready a \<or> resetEffective then estimate
                                  else move_limit estimate (ad_effective a))\<rparr>))"

definition trim_samples :: "time \<Rightarrow> admission \<Rightarrow> admission" where
  "trim_samples now a =
     (let xs = dropWhile (\<lambda>s. as_at s < now - ad_window a) (ad_samples a)
      in a\<lparr>ad_samples := xs,
           ad_ready := (if length xs < ad_minSamples a \<and> ad_mode a \<noteq> AM_fixed then False else ad_ready a)\<rparr>)"

definition observe_sample :: "time \<Rightarrow> int \<Rightarrow> f64 \<Rightarrow> bool \<Rightarrow> admission \<Rightarrow> bool \<times> admission" where
  "observe_sample now population achieved paused a =
     (let a1 = trim_samples now a in
      if ad_mode a1 = AM_off \<or> paused \<or> population \<le> 0 \<or> (achieved \<noteq> NaN \<and> \<not> f64_less f64_zero achieved) \<or>
         \<not> f64_finite achieved
      then (False, a1)
      else if ad_next a1 \<noteq> 0 \<and> now < ad_next a1 then (False, a1)
      else (let a2 = a1\<lparr>ad_next := now + ad_every a1,
                        ad_samples := ad_samples a1 @
                          [\<lparr>as_at = now, as_budget = f64_round (rat_of_int population * f64_val achieved)\<rparr>]\<rparr>
            in (True, recalculate False (trim_samples now a2))))"

section \<open>The gate\<close>

definition admission_limit :: "admission \<Rightarrow> int" where
  "admission_limit a =
     (if ad_mode a = AM_fixed then ad_fixedLimit a else if ad_ready a then ad_effective a else 0)"

definition enforcing :: "admission \<Rightarrow> bool" where
  "enforcing a = (ad_mode a = AM_fixed \<or> (ad_mode a = AM_adaptive \<and> ad_ready a))"

definition refresh :: "int \<Rightarrow> bool \<Rightarrow> admission \<Rightarrow> bool \<times> admission" where
  "refresh committed known a =
     (let limit = admission_limit a;
          closed = (if \<not> known \<or> limit \<le> 0 then False
                    else if ad_closed a then \<not> committed \<le> max 0 (limit - ad_hysteresis a)
                    else committed \<ge> limit);
          (allowed, reason) =
            (if \<not> known then (True, ''population_unknown'')
             else if limit \<le> 0 then (True, if ad_mode a = AM_off then ''disabled'' else ''learning'')
             else if ad_mode a = AM_shadow then (True, ''shadow_only'')
             else if \<not> enforcing a then (True, ''learning'')
             else if closed then (False, ''population_limit'')
             else (True, ''open''))
      in (allowed, a\<lparr>ad_committed := committed, ad_known := known, ad_closed := closed, ad_reason := reason\<rparr>))"

definition admit_arrival :: "int \<Rightarrow> bool \<Rightarrow> admission \<Rightarrow> bool \<times> admission" where
  "admit_arrival committed known a =
     (case refresh committed known a of
        (allowed, a1) \<Rightarrow> (allowed, if \<not> allowed then a1\<lparr>ad_rejected := ad_rejected a1 + 1\<rparr> else a1))"

record admission_snapshot =
  sn_Mode :: admission_mode
  sn_EstimatedLimit :: int
  sn_EffectiveLimit :: int
  sn_SampleCount :: nat
  sn_Ready :: bool
  sn_Enforcing :: bool
  sn_Closed :: bool
  sn_PopulationKnown :: bool
  sn_Committed :: int
  sn_RejectedTotal :: int
  sn_Reason :: bytes

definition admission_snapshot_of :: "admission \<Rightarrow> admission_snapshot" where
  "admission_snapshot_of a =
     \<lparr>sn_Mode = ad_mode a, sn_EstimatedLimit = ad_estimated a, sn_EffectiveLimit = admission_limit a,
      sn_SampleCount = length (ad_samples a), sn_Ready = (ad_ready a \<or> ad_mode a = AM_fixed),
      sn_Enforcing = enforcing a, sn_Closed = ad_closed a, sn_PopulationKnown = ad_known a,
      sn_Committed = ad_committed a, sn_RejectedTotal = ad_rejected a, sn_Reason = ad_reason a\<rparr>"

section \<open>Across restarts\<close>

record admission_disk_sample =
  dk_AtMs :: int
  dk_Budget :: f64

record admission_disk =
  dk_Schema :: bytes
  dk_Target :: f64
  dk_Minimum :: int
  dk_Maximum :: int
  dk_Margin :: f64
  dk_Samples :: "admission_disk_sample list"
  dk_Estimated :: int
  dk_Effective :: int
  dk_Ready :: bool
  dk_RejectedTotal :: int

definition diskState :: "time \<Rightarrow> admission \<Rightarrow> admission_disk \<times> admission" where
  "diskState now a =
     (let a1 = trim_samples now a in
      (\<lparr>dk_Schema = ''multiverse-admission/1'', dk_Target = Fin (ad_target a1), dk_Minimum = ad_minLimit a1,
        dk_Maximum = ad_maxLimit a1, dk_Margin = ad_margin a1,
        dk_Samples = map (\<lambda>s. \<lparr>dk_AtMs = unix_milli (as_at s), dk_Budget = Fin (as_budget s)\<rparr>) (ad_samples a1),
        dk_Estimated = ad_estimated a1, dk_Effective = ad_effective a1, dk_Ready = ad_ready a1,
        dk_RejectedTotal = ad_rejected a1\<rparr>, a1))"

definition usable_sample :: "time \<Rightarrow> admission_disk_sample \<Rightarrow> bool" where
  "usable_sample now s = (f64_less f64_zero (dk_Budget s) \<and> f64_finite (dk_Budget s) \<and>
     \<not> now < time_of_milli (dk_AtMs s))"

text \<open>The newest sample reads as just measured; the others keep their spacing behind it.\<close>

definition reanchor :: "time \<Rightarrow> admission_sample list \<Rightarrow> admission_sample list" where
  "reanchor now xs =
     (if xs = [] then xs
      else (let gap = now - as_at (last xs) in
            if gap > 0 then map (\<lambda>s. s\<lparr>as_at := as_at s + gap\<rparr>) xs else xs))"

definition restore_admission :: "admission_disk \<Rightarrow> time \<Rightarrow> admission \<Rightarrow> bool \<times> admission" where
  "restore_admission d now a =
     (if dk_Schema d \<noteq> ''multiverse-admission/1'' \<or> dk_Minimum d \<noteq> ad_minLimit a \<or>
         dk_Maximum d \<noteq> ad_maxLimit a \<or> \<not> f64_eq (dk_Margin d) (ad_margin a)
      then (False, a)
      else (let kept = map (\<lambda>s. \<lparr>as_at = time_of_milli (dk_AtMs s), as_budget = f64_val (dk_Budget s)\<rparr>)
                        (filter (usable_sample now) (dk_Samples d));
                a1 = a\<lparr>ad_samples := reanchor now (sort_key as_at kept),
                       ad_estimated := 0, ad_effective := 0, ad_ready := False,
                       ad_rejected := max 0 (dk_RejectedTotal d)\<rparr>;
                a2 = recalculate True (trim_samples now a1)
            in (True, if ad_samples a2 = [] then a2
                      else a2\<lparr>ad_next := as_at (last (ad_samples a2)) + ad_every a2\<rparr>)))"

end
