(* ===== verification/AdmissionProps.thy ===== *)
theory AdmissionProps imports Admission begin

text \<open>
  What the population gate promises: its limit stays in the configured range and moves slowly towards the
  estimate, an arrival is admitted only below it, shadow mode is adaptive mode without times_refused, and a
  restart keeps the machine's measured history.
\<close>

section \<open>The configuration check\<close>

text \<open>Each comparison with a NaN is false, so the range check lets a NaN safety margin through, where the
  target beside it is tested for NaN by name; no saved history is ever restored under it.\<close>

lemma nan_margin_is_accepted:
  "validateAdmissionConfig c = None \<Longrightarrow> validateAdmissionConfig (c\<lparr>ac_margin := NaN\<rparr>) = None"
  "ac_margin c = Fin x \<Longrightarrow> x \<notin> {0<..1} \<Longrightarrow> validateAdmissionConfig c \<noteq> None"
   by (simp_all add: validateAdmissionConfig_def f64_zero_def split: if_splits) (meson linorder_not_le)

section \<open>Runs\<close>

datatype gate_event =
    GE_sample time int f64 bool
  | GE_refresh int bool
  | GE_offer int bool

fun gate_step :: "gate_event \<Rightarrow> admission \<Rightarrow> bool \<times> admission" where
  "gate_step (GE_sample now population achieved paused) a =
     (True, snd (observe_sample now population achieved paused a))"
| "gate_step (GE_refresh committed known) a = (True, snd (refresh committed known a))"
| "gate_step (GE_offer committed known) a = admit_arrival committed known a"

fun gate_run :: "gate_event list \<Rightarrow> admission \<Rightarrow> bool list \<times> admission" where
  "gate_run [] a = ([], a)"
| "gate_run (e # es) a =
     (case gate_step e a of (ok, a1) \<Rightarrow> case gate_run es a1 of (oks, a2) \<Rightarrow> (ok # oks, a2))"

section \<open>The limit\<close>

lemma move_limit_between:
  "min estimate effective \<le> move_limit estimate effective" "move_limit estimate effective \<le> max estimate effective"
  by (auto simp: move_limit_def)

lemma move_limit_closer:
  assumes "0 \<le> effective" "move_limit estimate effective \<noteq> estimate"
  shows "\<bar>move_limit estimate effective - estimate\<bar> < \<bar>effective - estimate\<bar>"
  using assms by (auto simp: move_limit_def split: if_splits)

definition limit_ok :: "admission \<Rightarrow> bool" where
  "limit_ok a = (0 < ad_minLimit a \<and> ad_minLimit a \<le> ad_maxLimit a \<and>
     (ad_ready a \<longrightarrow> ad_effective a \<in> {ad_minLimit a..ad_maxLimit a} \<and>
        ad_estimated a \<in> {ad_minLimit a..ad_maxLimit a}))"

lemma clamp_range: "low \<le> high \<Longrightarrow> clampInt v low high \<in> {low..high}"
  by (auto simp: clampInt_def)

definition same_config :: "admission \<Rightarrow> admission \<Rightarrow> bool" where
  "same_config a b = (ad_mode a = ad_mode b \<and> ad_fixedLimit a = ad_fixedLimit b \<and> ad_target a = ad_target b \<and>
     ad_minLimit a = ad_minLimit b \<and> ad_maxLimit a = ad_maxLimit b \<and> ad_hysteresis a = ad_hysteresis b \<and>
     ad_margin a = ad_margin b \<and> ad_minSamples a = ad_minSamples b \<and> ad_every a = ad_every b \<and>
     ad_window a = ad_window b)"

lemma same_config_simps [simp]:
  "same_config a a"
  "same_config (a\<lparr>ad_samples := xs\<rparr>) b = same_config a b" "same_config (a\<lparr>ad_ready := r\<rparr>) b = same_config a b"
  "same_config (a\<lparr>ad_closed := r\<rparr>) b = same_config a b" "same_config (a\<lparr>ad_committed := c\<rparr>) b = same_config a b"
  "same_config (a\<lparr>ad_known := r\<rparr>) b = same_config a b" "same_config (a\<lparr>ad_reason := t\<rparr>) b = same_config a b"
  "same_config (a\<lparr>ad_rejected := c\<rparr>) b = same_config a b" "same_config (a\<lparr>ad_estimated := c\<rparr>) b = same_config a b"
  "same_config (a\<lparr>ad_effective := c\<rparr>) b = same_config a b" "same_config (a\<lparr>ad_next := c\<rparr>) b = same_config a b"
  by (simp_all add: same_config_def)

lemma trim_shape: obtains r where
  "trim_samples now a = a\<lparr>ad_samples := dropWhile (\<lambda>s. as_at s < now - ad_window a) (ad_samples a), ad_ready := r\<rparr>"
  "r \<longrightarrow> ad_ready a"
  by (rule that [of "ad_ready (trim_samples now a)"]) (simp_all add: trim_samples_def Let_def)

lemma trim_fields [simp]:
  "ad_effective (trim_samples now a) = ad_effective a" "ad_estimated (trim_samples now a) = ad_estimated a"
  "same_config (trim_samples now a) b = same_config a b"
  "ad_closed (trim_samples now a) = ad_closed a" "ad_committed (trim_samples now a) = ad_committed a"
  "ad_known (trim_samples now a) = ad_known a" "ad_rejected (trim_samples now a) = ad_rejected a"
  "ad_next (trim_samples now a) = ad_next a"
  by (rule trim_shape [of now a], simp)+

lemma trim_limit_ok: "limit_ok a \<Longrightarrow> limit_ok (trim_samples now a)"
  by (auto simp: limit_ok_def trim_samples_def Let_def)

lemma recalculate_ok:
  assumes "limit_ok a"
  shows "limit_ok (recalculate resetEffective a)"
proof (cases "length (ad_samples a) < ad_minSamples a")
  case True
  then show ?thesis using assms by (simp add: recalculate_def)
next
  case False
  let ?e = "estimate_of (map as_budget (ad_samples a)) a"
  have e: "?e \<in> {ad_minLimit a..ad_maxLimit a}" using assms
    unfolding estimate_of_def by (intro clamp_range) (simp add: limit_ok_def)
  show ?thesis using False e assms move_limit_between [of ?e "ad_effective a"]
    by (auto simp: recalculate_def Let_def limit_ok_def)
qed

lemma refresh_shape: obtains cl r where
  "snd (refresh c k a) = a\<lparr>ad_committed := c, ad_known := k, ad_closed := cl, ad_reason := r\<rparr>"
  by (rule that) (simp only: refresh_def Let_def case_prod_beta snd_conv)

lemma refresh_fields [simp]:
  "ad_samples (snd (refresh c k a)) = ad_samples a" "ad_ready (snd (refresh c k a)) = ad_ready a"
  "ad_effective (snd (refresh c k a)) = ad_effective a" "ad_estimated (snd (refresh c k a)) = ad_estimated a"
  "same_config (snd (refresh c k a)) b = same_config a b" "ad_next (snd (refresh c k a)) = ad_next a"
  by (rule refresh_shape [of c k a], simp)+

lemma limit_ok_same:
  "same_config b a \<Longrightarrow> ad_ready b = ad_ready a \<Longrightarrow> ad_effective b = ad_effective a \<Longrightarrow>
     ad_estimated b = ad_estimated a \<Longrightarrow> limit_ok b = limit_ok a"
  by (simp add: limit_ok_def same_config_def)

lemma admit_fields [simp]:
  "ad_samples (snd (admit_arrival c k a)) = ad_samples a" "ad_ready (snd (admit_arrival c k a)) = ad_ready a"
  "ad_effective (snd (admit_arrival c k a)) = ad_effective a" "ad_estimated (snd (admit_arrival c k a)) = ad_estimated a"
  "same_config (snd (admit_arrival c k a)) b = same_config a b" "ad_next (snd (admit_arrival c k a)) = ad_next a"
proof -
  have "snd (admit_arrival c k a) = (snd (refresh c k a))\<lparr>ad_rejected :=
      ad_rejected (snd (refresh c k a)) + (if fst (refresh c k a) then 0 else 1)\<rparr>"
    by (simp add: admit_arrival_def split: prod.split)
  then show "ad_samples (snd (admit_arrival c k a)) = ad_samples a" "ad_ready (snd (admit_arrival c k a)) = ad_ready a"
    "ad_effective (snd (admit_arrival c k a)) = ad_effective a" "ad_estimated (snd (admit_arrival c k a)) = ad_estimated a"
    "same_config (snd (admit_arrival c k a)) b = same_config a b" "ad_next (snd (admit_arrival c k a)) = ad_next a"
    by simp_all
qed

lemma observe_ok:
  assumes "limit_ok a"
  shows "limit_ok (snd (observe_sample now population achieved paused a))"
proof -
  have "limit_ok (b\<lparr>ad_next := x, ad_samples := y\<rparr>) = limit_ok b" for b :: admission and x y
    by (simp add: limit_ok_def)
  then show ?thesis using trim_limit_ok [OF assms] unfolding observe_sample_def Let_def
    by (auto intro!: recalculate_ok trim_limit_ok)
qed

lemma step_limit_ok: "limit_ok a \<Longrightarrow> limit_ok (snd (gate_step e a))"
  by (cases e) (simp_all add: observe_ok limit_ok_same [of "snd (refresh _ _ a)" a]
      limit_ok_same [of "snd (admit_arrival _ _ a)" a])

lemma run_limit_ok: "limit_ok a \<Longrightarrow> limit_ok (snd (gate_run es a))"
proof (induction es arbitrary: a)
  case (Cons e es)
  from Cons.IH [OF step_limit_ok [OF Cons.prems, of e]] show ?case
    by (cases "gate_step e a"; cases "gate_run es (snd (gate_step e a))") simp
qed simp

lemma recalc_fields [simp]:
  "same_config (recalculate rs a) b = same_config a b" "ad_samples (recalculate rs a) = ad_samples a"
  "ad_closed (recalculate rs a) = ad_closed a" "ad_next (recalculate rs a) = ad_next a"
  by (simp_all add: recalculate_def Let_def)

lemma observe_same [simp]: "same_config (snd (observe_sample now pop ach paused a)) b = same_config a b"
  by (simp add: observe_sample_def Let_def)

lemma run_same [simp]: "same_config (snd (gate_run es a)) b = same_config a b"
proof (induction es arbitrary: a)
  case (Cons e es)
  have "same_config (snd (gate_step e a)) b = same_config a b" by (cases e) simp_all
  with Cons.IH [of "snd (gate_step e a)"] show ?case
    by (cases "gate_step e a"; cases "gate_run es (snd (gate_step e a))") simp
qed simp

lemma move_limit_step: "0 \<le> e \<Longrightarrow> \<bar>move_limit E e - e\<bar> \<le> max 1 \<lceil>rat_of_int e / 10\<rceil>"
proof -
  assume e: "0 \<le> e"
  have "\<lceil>rat_of_int e / 20\<rceil> \<le> \<lceil>rat_of_int e / 10\<rceil>" using e by (intro ceiling_mono) simp
  then show ?thesis by (auto simp: move_limit_def split: if_splits)
qed

lemma move_limit_arrives:
  "0 \<le> e \<Longrightarrow> 0 \<le> E \<Longrightarrow> nat \<bar>e - E\<bar> \<le> n \<Longrightarrow> (move_limit E ^^ n) e = E"
proof (induction n arbitrary: e)
  case (Suc n)
  have "0 \<le> move_limit E e" using move_limit_between(1) [of E e] Suc.prems by linarith
  moreover have "nat \<bar>move_limit E e - E\<bar> \<le> n"
    using move_limit_closer [OF Suc.prems(1), of E] Suc.prems(3) by (cases "move_limit E e = E") auto
  ultimately have "(move_limit E ^^ n) (move_limit E e) = E" by (rule Suc.IH [OF _ Suc.prems(2)])
  then show ?case by (simp add: funpow_swap1)
qed simp

section \<open>Claims\<close>

lemma observe_moves:
  assumes "ad_ready (trim_samples now a)" "0 \<le> ad_effective a"
  shows "\<bar>ad_effective (snd (observe_sample now pop ach paused a)) - ad_effective a\<bar> \<le>
    max 1 \<lceil>rat_of_int (ad_effective a) / 10\<rceil>"
proof -
  let ?a = "trim_samples now a" and ?P = "\<lambda>s. as_at s < now - ad_window a"
  let ?new = "\<lparr>as_at = now, as_budget = f64_round (rat_of_int pop * f64_val ach)\<rparr>"
  let ?b = "?a\<lparr>ad_next := now + ad_every ?a, ad_samples := ad_samples ?a @ [?new]\<rparr>"
  have xs: "ad_samples ?a = dropWhile ?P (ad_samples a)" "ad_window ?a = ad_window a" "ad_mode ?a = ad_mode a"
      "ad_minSamples ?a = ad_minSamples a"
    by (simp_all add: trim_samples_def Let_def)
  have "length (ad_samples ?a) \<le> length (dropWhile ?P (ad_samples ?a @ [?new]))"
    unfolding xs(1)
  proof (cases "dropWhile ?P (ad_samples a)")
    case (Cons s ss)
    then have "\<not> ?P s" using hd_dropWhile [of ?P "ad_samples a"] by simp
    with Cons show "length (dropWhile ?P (ad_samples a)) \<le> length (dropWhile ?P (dropWhile ?P (ad_samples a) @ [?new]))"
      by simp
  qed (simp del: dropWhile_eq_Nil_conv)
  then have ready: "ad_ready (trim_samples now ?b)"
    using assms(1) by (auto simp: trim_samples_def Let_def split: if_splits)
  have eff: "ad_effective (trim_samples now ?b) = ad_effective a" by simp
  have "\<bar>ad_effective (recalculate False (trim_samples now ?b)) - ad_effective a\<bar> \<le>
      max 1 \<lceil>rat_of_int (ad_effective a) / 10\<rceil>"
    using ready eff move_limit_step [OF assms(2)] by (auto simp: recalculate_def Let_def)
  then show ?thesis by (auto simp: observe_sample_def Let_def)
qed

text \<open>THE LIMIT TRACKS THE ESTIMATE.  Under a valid configuration, after any run of samples, counts and
  offers, the limit is zero (still learning) or inside the configured range; while there is evidence
  enough, one further sample moves it by at most a tenth; and under a steady estimate it arrives there,
  without ever passing it, in a bounded number of samples.\<close>

theorem limit_tracks_the_estimate:
  assumes "validateAdmissionConfig c = None" "ac_mode c = Some m" "m \<noteq> AM_fixed"
    and "a = snd (gate_run es (newAdmissionController m c))" "ad_ready (trim_samples now a)"
    and "E \<in> {ac_min c..ac_max c}" "nat \<bar>ad_effective a - E\<bar> \<le> n"
  shows "admission_limit a \<in> {ac_min c..ac_max c} \<and>
    \<bar>ad_effective (snd (observe_sample now population achieved paused a)) - ad_effective a\<bar>
      \<le> max 1 \<lceil>rat_of_int (ad_effective a) / 10\<rceil> \<and>
    (move_limit E ^^ n) (ad_effective a) = E"
proof -
  have r: "0 < ac_min c" "ac_min c \<le> ac_max c" using assms(1) by (auto simp: validateAdmissionConfig_def split: if_splits)
  have "limit_ok (newAdmissionController m c)" using r by (simp add: limit_ok_def newAdmissionController_def)
  from run_limit_ok [OF this, of es] have ok: "limit_ok a" by (simp add: assms(4))
  have "same_config a (newAdmissionController m c)" by (simp add: assms(4))
  then have cfg: "ad_mode a = m" "ad_minLimit a = ac_min c" "ad_maxLimit a = ac_max c"
    by (simp_all add: same_config_def newAdmissionController_def)
  have ready: "ad_ready a" by (rule trim_shape [of now a]) (use assms(5) in auto)
  have eff: "ad_effective a \<in> {ac_min c..ac_max c}" "0 \<le> ad_effective a" "0 \<le> E"
    using ok ready cfg r assms(6) by (auto simp: limit_ok_def)
  show ?thesis
    using eff cfg ready assms(3) observe_moves [OF assms(5) eff(2)] move_limit_arrives [OF eff(2,3) assms(7)]
    by (simp add: admission_limit_def)
qed

definition gate_cfg :: admission_config where
  "gate_cfg = \<lparr>ac_mode = Some AM_adaptive, ac_limit = 0, ac_target = Fin 10, ac_min = 10, ac_max = 200,
     ac_hysteresis = 5, ac_margin = Fin (9 / 10), ac_minSamples = 2, ac_every = 60 * second, ac_window = 3600 * second\<rparr>"

definition two_samples :: "gate_event list" where
  "two_samples = [GE_sample (1 * second) 200 (Fin 5) False, GE_sample (61 * second) 300 (Fin 4) False]"

lemma two_samples_run:
  "ad_ready (trim_samples (121 * second) (snd (gate_run two_samples (newAdmissionController AM_adaptive gate_cfg))))"
  "ad_effective (snd (gate_run two_samples (newAdmissionController AM_adaptive gate_cfg))) = 99"
  "validateAdmissionConfig gate_cfg = None"
  by code_simp+

lemma limit_tracks_the_estimate_witness:
  "let a = snd (gate_run two_samples (newAdmissionController AM_adaptive gate_cfg)) in
   admission_limit a \<in> {10..200} \<and>
   \<bar>ad_effective (snd (observe_sample (121 * second) 900 (Fin 8) False a)) - 99\<bar> \<le> 10 \<and> (move_limit 150 ^^ 51) 99 = 150"
proof -
  have "ac_mode gate_cfg = Some AM_adaptive" "ac_min gate_cfg = 10" "ac_max gate_cfg = 200"
    by (simp_all add: gate_cfg_def)
  moreover have "\<lceil>99 / 10 :: rat\<rceil> = 10" by code_simp
  ultimately show ?thesis using limit_tracks_the_estimate [OF two_samples_run(3) _ _ refl two_samples_run(1), of 150 51 900 "Fin 8" False]
    by (simp add: two_samples_run(2) Let_def)
qed

section \<open>The gate\<close>

text \<open>A run of offers (\<open>None\<close>) and reported populations: an admitted arrival is one more to carry.\<close>

fun fill :: "int option list \<Rightarrow> int \<Rightarrow> admission \<Rightarrow> int \<times> admission" where
  "fill [] c a = (c, a)"
| "fill (None # es) c a =
     (case admit_arrival c True a of (ok, a1) \<Rightarrow> fill es (if ok then c + 1 else c) a1)"
| "fill (Some p # es) c a = fill es p (snd (refresh p True a))"

lemma enforcing_same:
  "same_config b a \<Longrightarrow> ad_ready b = ad_ready a \<Longrightarrow> ad_effective b = ad_effective a \<Longrightarrow>
     enforcing b = enforcing a \<and> admission_limit b = admission_limit a \<and> ad_hysteresis b = ad_hysteresis a"
  by (simp add: enforcing_def admission_limit_def same_config_def)

lemma admitted_below:
  assumes "enforcing a" "0 < ad_hysteresis a" "0 < admission_limit a" "fst (admit_arrival c True a)"
  shows "c < admission_limit a"
  using assms by (auto simp: admit_arrival_def refresh_def Let_def enforcing_def split: if_splits prod.splits)

text \<open>C36: THE GATE HOLDS THE LIMIT.  While the gate enforces a limit, arrivals never push the population the
  world is committed to above it: in any run of offers and heartbeats, whatever the world grows or
  shrinks by itself, the committed population is at most the larger of the limit and what a heartbeat
  reported.\<close>

theorem gate_holds_the_limit:
  assumes "enforcing a" "0 < ad_hysteresis a" "0 < admission_limit a" "fill es c a = (c', a')"
    and "\<forall>p. Some p \<in> set es \<longrightarrow> p \<le> peak" "c \<le> peak" "admission_limit a \<le> peak"
  shows "c' \<le> peak"
  using assms
proof (induction es c a rule: fill.induct)
  case (2 es c a)
  let ?r = "admit_arrival c True a"
  have same: "enforcing (snd ?r) = enforcing a \<and> admission_limit (snd ?r) = admission_limit a \<and>
      ad_hysteresis (snd ?r) = ad_hysteresis a" by (rule enforcing_same) simp_all
  have "(if fst ?r then c + 1 else c) \<le> peak"
    using admitted_below [OF 2(2-4), of c] 2(7,8) by (cases "fst ?r") auto
  with 2(2-) same show ?case by (intro 2(1) [OF prod.collapse]) (auto simp: case_prod_beta)
next
  case (3 p es c a)
  have "enforcing (snd (refresh p True a)) = enforcing a \<and> admission_limit (snd (refresh p True a)) = admission_limit a \<and>
      ad_hysteresis (snd (refresh p True a)) = ad_hysteresis a" by (rule enforcing_same) simp_all
  with 3(2-) show ?case by (intro 3(1)) auto
qed simp

lemma gate_holds_the_limit_witness:
  "let a = (newAdmissionController AM_adaptive gate_cfg)\<lparr>ad_ready := True, ad_effective := 12\<rparr>;
       r = fill [None, None, None, Some 7, None, Some 11, None, None] 10 a
   in fst r \<le> 12 \<and> fst r = 12"
proof -
  let ?a = "(newAdmissionController AM_adaptive gate_cfg)\<lparr>ad_ready := True, ad_effective := 12\<rparr>"
  let ?es = "[None, None, None, Some 7, None, Some 11, None, None]"
  have c: "enforcing ?a" "0 < ad_hysteresis ?a" "admission_limit ?a = 12" by code_simp+
  have "fst (fill ?es 10 ?a) \<le> 12"
    by (rule gate_holds_the_limit [OF c(1,2) _ prod.collapse [symmetric]]) (use c(3) in auto)
  moreover have "fst (fill ?es 10 ?a) = 12" by code_simp
  ultimately show ?thesis by (simp add: Let_def)
qed

section \<open>Shadow mode\<close>

definition twin :: "admission \<Rightarrow> admission \<Rightarrow> bool" where
  "twin a b = (ad_mode b = AM_adaptive \<and> a = b\<lparr>ad_mode := AM_shadow, ad_rejected := 0, ad_reason := ad_reason a\<rparr>)"

lemma twinE:
  assumes "twin a b"
  obtains t where "a = b\<lparr>ad_mode := AM_shadow, ad_rejected := 0, ad_reason := t\<rparr>" "ad_mode b = AM_adaptive"
  using assms unfolding twin_def by blast

lemma twinI: "ad_mode b = AM_adaptive \<Longrightarrow> twin (b\<lparr>ad_mode := AM_shadow, ad_rejected := 0, ad_reason := t\<rparr>) b"
  by (simp add: twin_def)

lemma twin_trim: "twin a b \<Longrightarrow> twin (trim_samples now a) (trim_samples now b)"
  by (erule twinE) (simp add: trim_samples_def Let_def twin_def)

lemma twin_recalculate: "twin a b \<Longrightarrow> twin (recalculate rs a) (recalculate rs b)"
  by (erule twinE) (simp add: recalculate_def estimate_of_def Let_def twin_def cong: f64.case_cong)

lemma twin_observe:
  assumes "twin a b"
  shows "twin (snd (observe_sample now pop ach paused a)) (snd (observe_sample now pop ach paused b))"
proof -
  have t: "twin (trim_samples now a) (trim_samples now b)" by (rule twin_trim [OF assms])
  then obtain r where t': "trim_samples now a = (trim_samples now b)\<lparr>ad_mode := AM_shadow, ad_rejected := 0, ad_reason := r\<rparr>"
    "ad_mode (trim_samples now b) = AM_adaptive" by (rule twinE)
  have "twin (recalculate False (trim_samples now (trim_samples now a\<lparr>ad_next := n, ad_samples := xs\<rparr>)))
     (recalculate False (trim_samples now (trim_samples now b\<lparr>ad_next := n, ad_samples := xs\<rparr>)))" for n xs
    by (intro twin_recalculate twin_trim) (use t' in \<open>simp add: twin_def\<close>)
  with t t' show ?thesis by (simp add: observe_sample_def Let_def)
qed

lemma twin_refresh:
  assumes "twin a b"
  shows "fst (refresh c k a) \<and> twin (snd (refresh c k a)) (snd (refresh c k b))"
  using assms by (rule twinE) (auto simp: refresh_def Let_def admission_limit_def enforcing_def twin_def)

definition times_refused :: "bool list \<Rightarrow> int" where
  "times_refused oks = int (length (filter Not oks))"

lemma rejected_observe [simp]: "ad_rejected (snd (observe_sample now pop ach paused a)) = ad_rejected a"
  by (simp add: observe_sample_def recalculate_def Let_def)

lemma rejected_refresh [simp]: "ad_rejected (snd (refresh c k a)) = ad_rejected a"
  by (rule refresh_shape [of c k a], simp)

lemma rejected_step:
  "ad_rejected (snd (gate_step e a)) = ad_rejected a + times_refused [fst (gate_step e a)]"
proof (cases e)
  case (GE_offer c k)
  show ?thesis using rejected_refresh [of c k a]
    by (cases "refresh c k a") (simp add: GE_offer admit_arrival_def times_refused_def)
qed (simp_all add: times_refused_def)

lemma twin_step:
  assumes "twin a b"
  shows "fst (gate_step e a) \<and> twin (snd (gate_step e a)) (snd (gate_step e b))"
proof (cases e)
  case (GE_sample x1 x2 x3 x4)
  then show ?thesis using assms by (simp add: twin_observe)
next
  case (GE_refresh c k)
  then show ?thesis using assms by (simp add: twin_refresh)
next
  case (GE_offer c k)
  have "twin x y \<Longrightarrow> twin x (y\<lparr>ad_rejected := n\<rparr>)" for x y n
    by (erule twinE) (simp add: twin_def)
  with twin_refresh [OF assms, of c k] GE_offer show ?thesis
    by (cases "refresh c k a"; cases "refresh c k b") (auto simp: admit_arrival_def)
qed

lemma twin_run:
  "twin a b \<Longrightarrow> list_all id (fst (gate_run es a)) \<and> twin (snd (gate_run es a)) (snd (gate_run es b)) \<and>
     ad_rejected (snd (gate_run es b)) = ad_rejected b + times_refused (fst (gate_run es b))"
proof (induction es arbitrary: a b)
  case (Cons e es)
  from Cons.IH [OF conjunct2 [OF twin_step [OF Cons.prems, of e]]] twin_step [OF Cons.prems, of e] rejected_step [of e b]
  show ?case
    by (cases "gate_step e a"; cases "gate_step e b"; cases "gate_run es (snd (gate_step e a))";
        cases "gate_run es (snd (gate_step e b))") (simp add: times_refused_def)
qed (simp add: times_refused_def)

text \<open>SHADOW MODE IS ADAPTIVE MODE WITHOUT THE REFUSALS.  Fed the same samples, counts and offers, the
  two controllers end in the same state (the same evidence, estimate, limit and open or closed gate), except
  for the mode, the reason and the number of times_refused, which is exactly how often the adaptive one
  answered no; the shadow one never refuses.\<close>

theorem shadow_is_adaptive_without_refusals:
  "let shadow = gate_run es (newAdmissionController AM_shadow c);
       adaptive = gate_run es (newAdmissionController AM_adaptive c)
   in list_all id (fst shadow) \<and>
      snd shadow = (snd adaptive)\<lparr>ad_mode := AM_shadow, ad_rejected := 0, ad_reason := ad_reason (snd shadow)\<rparr> \<and>
      ad_rejected (snd adaptive) = times_refused (fst adaptive) \<and>
      admission_limit (snd shadow) = admission_limit (snd adaptive)"
proof -
  let ?s = "newAdmissionController AM_shadow c" and ?a = "newAdmissionController AM_adaptive c"
  have "twin ?s ?a" by (simp add: twin_def newAdmissionController_def)
  note r = twin_run [OF this, of es]
  have t: "twin (snd (gate_run es ?s)) (snd (gate_run es ?a))" using r by simp
  have "admission_limit (snd (gate_run es ?s)) = admission_limit (snd (gate_run es ?a))"
    by (rule twinE [OF t]) (simp add: admission_limit_def)
  with r t show ?thesis by (simp add: Let_def twin_def) (simp add: newAdmissionController_def)
qed

section \<open>Across a restart\<close>

lemma pow2_powi: "pow2 k = 2 powi k"
  by (simp add: pow2_def power_int_def power_inverse field_simps)

lemma pow2_pos [simp]: "0 < pow2 k"
  by (simp add: pow2_def)

lemma pow2_diff: "pow2 (int m - int n) = 2 ^ m / 2 ^ n"
  by (simp add: pow2_powi power_int_diff)

lemma pow2_binade_le:
  assumes "0 < x"
  shows "pow2 (binade x) \<le> x"
proof -
  obtain n d where q: "quotient_of x = (n, d)" by fastforce
  have d: "0 < d" and x: "x = rat_of_int n / rat_of_int d"
    using quotient_of_denom_pos [OF q] quotient_of_div [OF q] by auto
  with assms have n: "0 < n" by (simp add: zero_less_divide_iff)
  define p r where "p = nat (bitlen n - 1)" and "r = nat (bitlen d)"
  have b: "1 \<le> bitlen n" "0 \<le> bitlen d" using n bitlen_nonneg [of d] bitlen_le_iff_power [of n 0] by auto
  have "2 ^ p \<le> n" "d < 2 ^ r" using bitlen_bounds [OF n] bitlen_bounds [OF d] by (auto simp: p_def r_def)
  then have le: "(2::rat) ^ p \<le> rat_of_int n" "rat_of_int d \<le> 2 ^ r"
    by (metis of_int_le_iff of_int_numeral of_int_power, metis less_imp_le of_int_le_iff of_int_numeral of_int_power)
  have "bitlen n - bitlen d - 1 = int p - int r" using b by (simp add: p_def r_def)
  then have "pow2 (bitlen n - bitlen d - 1) = 2 ^ p / 2 ^ r" by (simp only: pow2_diff)
  also have "\<dots> \<le> x" unfolding x using le d n by (intro frac_le) auto
  finally show ?thesis by (auto simp: binade_def q Let_def)
qed

lemma f64_round_pos:
  assumes "0 < x"
  shows "0 < f64_round x"
proof -
  let ?b = "binade x"
  have "pow2 (?b - 52) \<le> pow2 ?b" by (simp add: pow2_powi power_int_increasing)
  with pow2_binade_le [OF assms] have "1 \<le> x / pow2 (?b - 52)" by simp
  then have "1 \<le> \<lfloor>x / pow2 (?b - 52)\<rfloor>" by simp
  moreover have "\<lfloor>q\<rfloor> \<le> half_even q" for q by (simp add: half_even_def Let_def)
  ultimately have "0 < half_even (x / pow2 (?b - 52))" by (metis less_le_trans zero_less_one order.trans)
  with assms show ?thesis by (simp add: f64_round_def Let_def)
qed

definition samples_ok :: "time \<Rightarrow> admission \<Rightarrow> bool" where
  "samples_ok t a = (sorted (map as_at (ad_samples a)) \<and> (\<forall>s \<in> set (ad_samples a). as_at s \<le> t \<and> 0 < as_budget s))"

lemma sorted_dropWhile_map: "sorted (map f xs) \<Longrightarrow> sorted (map f (dropWhile P xs))"
  by (induction xs) auto

lemma trim_samples_ok:
  assumes "samples_ok t a"
  shows "samples_ok t (trim_samples now a)"
  using assms sorted_dropWhile_map [of as_at "ad_samples a" "\<lambda>s. as_at s < now - ad_window a"]
  by (auto simp: samples_ok_def trim_samples_def Let_def dest: set_dropWhileD)

lemma samples_ok_later: "samples_ok t a \<Longrightarrow> t \<le> u \<Longrightarrow> samples_ok u a"
  by (force simp: samples_ok_def)

lemma samples_ok_kept:
  "samples_ok t (recalculate rs a) = samples_ok t a" "samples_ok t (snd (refresh c k a)) = samples_ok t a"
  "samples_ok t (snd (admit_arrival c k a)) = samples_ok t a"
  by (simp_all add: samples_ok_def)

lemma observe_samples_ok:
  assumes "samples_ok t a" "t \<le> now"
  shows "samples_ok now (snd (observe_sample now pop ach paused a))"
proof -
  let ?a = "trim_samples now a"
  have t: "samples_ok now ?a" using trim_samples_ok samples_ok_later assms by blast
  have "samples_ok now (recalculate False (trim_samples now (?a\<lparr>ad_next := n, ad_samples := ad_samples ?a @
      [\<lparr>as_at = now, as_budget = f64_round (rat_of_int pop * f64_val ach)\<rparr>]\<rparr>)))"
    if "0 < pop" "f64_less f64_zero ach" "f64_finite ach" for n
  proof -
    from that have "0 < f64_round (rat_of_int pop * f64_val ach)"
      by (cases ach) (auto intro!: f64_round_pos simp: f64_zero_def)
    with t have "samples_ok now (?a\<lparr>ad_next := n, ad_samples := ad_samples ?a @
      [\<lparr>as_at = now, as_budget = f64_round (rat_of_int pop * f64_val ach)\<rparr>]\<rparr>)"
      by (auto simp: samples_ok_def sorted_append)
    from trim_samples_ok [OF this, of now] show ?thesis
      by (simp add: samples_ok_kept)
  qed
  moreover have "\<not> (0 < pop) \<longleftrightarrow> pop \<le> 0" by auto
  ultimately show ?thesis using t unfolding observe_sample_def Let_def
    by (cases ach) (simp_all split: if_split add: f64_zero_def)
qed

fun clock :: "gate_event \<Rightarrow> time list" where
  "clock (GE_sample now p s q) = [now]"
| "clock e = []"

lemma run_samples_ok:
  assumes "samples_ok t a" "sorted (t # concat (map clock es) @ [now])"
  shows "samples_ok now (snd (gate_run es a))"
  using assms
proof (induction es arbitrary: t a)
  case (Cons e es)
  let ?t = "last (t # clock e)"
  have le: "t \<le> ?t" "sorted (?t # concat (map clock es) @ [now])" using Cons.prems(2) by (cases e; auto)+
  have "samples_ok ?t (snd (gate_step e a))"
    by (cases e) (use Cons.prems(1) le(1) in \<open>simp_all add: observe_samples_ok samples_ok_kept\<close>)
  from Cons.IH [OF this le(2)] show ?case
    by (cases "gate_step e a"; cases "gate_run es (snd (gate_step e a))") simp
qed (simp add: samples_ok_later)

text \<open>What the file holds of a sample, and where a restart at \<open>now\<close> puts it.\<close>

definition age_ms :: "admission_sample list \<Rightarrow> admission_sample \<Rightarrow> int" where
  "age_ms xs s = unix_milli (as_at (last xs)) - unix_milli (as_at s)"

definition shifted_to :: "time \<Rightarrow> admission_sample list \<Rightarrow> admission_sample list" where
  "shifted_to now xs = map (\<lambda>s. s\<lparr>as_at := now - age_ms xs s * millisecond\<rparr>) xs"

lemma unix_milli_mono: "s \<le> t \<Longrightarrow> unix_milli s \<le> unix_milli t"
  by (simp add: unix_milli_def millisecond_def zdiv_mono1)

lemma age_within:
  assumes "as_at (last xs) \<le> now" "now - w \<le> as_at s" "w mod millisecond = 0"
  shows "age_ms xs s * millisecond \<le> w"
proof -
  obtain k where w: "w = k * millisecond" using assms(3) by (metis mod_0_imp_dvd dvdE mult.commute)
  have "unix_milli (as_at (last xs)) \<le> unix_milli (as_at s + w)"
    using assms by (intro unix_milli_mono) simp
  also have "\<dots> = unix_milli (as_at s) + k"
    by (simp add: unix_milli_def w millisecond_def diff_add_eq [symmetric])
  finally show ?thesis by (simp add: age_ms_def w millisecond_def)
qed

lemma trim_recent:
  assumes "samples_ok t a" "s \<in> set (ad_samples (trim_samples now a))"
  shows "now - ad_window a \<le> as_at s"
proof -
  let ?xs = "ad_samples (trim_samples now a)"
  have xs: "?xs = dropWhile (\<lambda>s. as_at s < now - ad_window a) (ad_samples a)" by (simp add: trim_samples_def Let_def)
  have "?xs \<noteq> []" using assms(2) by auto
  then have "now - ad_window a \<le> as_at (hd ?xs)"
    using hd_dropWhile [of "\<lambda>s. as_at s < now - ad_window a" "ad_samples a"] unfolding xs by simp
  moreover have "sorted (map as_at ?xs)" using trim_samples_ok [OF assms(1)] by (simp add: samples_ok_def)
  then have "as_at (hd ?xs) \<le> as_at s" using assms(2) by (cases ?xs) auto
  ultimately show ?thesis by simp
qed

lemma reanchored:
  assumes "samples_ok now a" "now \<le> later" "xs = ad_samples (trim_samples now a)"
  shows "reanchor later (sort_key as_at (map (\<lambda>s. \<lparr>as_at = time_of_milli (dk_AtMs s), as_budget = f64_val (dk_Budget s)\<rparr>)
    (filter (usable_sample later) (map (\<lambda>s. \<lparr>dk_AtMs = unix_milli (as_at s), dk_Budget = Fin (as_budget s)\<rparr>) xs))))
    = shifted_to later xs" (is "reanchor later (sort_key as_at (map ?f (filter _ (map ?g xs)))) = _")
proof -
  have ok: "samples_ok now (trim_samples now a)" by (rule trim_samples_ok [OF assms(1)])
  have le: "time_of_milli (unix_milli (as_at s)) \<le> later" "0 < as_budget s" if "s \<in> set xs" for s
    using that ok assms(2,3) time_of_milli_unix_milli_le [of "as_at s"] by (fastforce simp: samples_ok_def)+
  then have "filter (usable_sample later) (map ?g xs) = map ?g xs"
    by (intro filter_True) (auto simp: usable_sample_def f64_zero_def not_less)
  moreover have "sorted (map as_at (map ?f (map ?g xs)))"
    using ok unfolding samples_ok_def assms(3) [symmetric]
    by (auto simp: sorted_map comp_def time_of_milli_def millisecond_def intro: unix_milli_mono elim!: sorted_wrt_mono_rel [rotated])
  then have "sort_key as_at (map ?f (map ?g xs)) = map ?f (map ?g xs)" by (rule sort_key_id_if_sorted)
  moreover have "reanchor later (map ?f (map ?g xs)) = shifted_to later xs"
  proof (cases "xs = []")
    case False
    then have "as_at (last (map ?f (map ?g xs))) = time_of_milli (unix_milli (as_at (last xs)))" by (simp add: last_map)
    moreover have "last xs \<in> set xs" using False by simp
    note le(1) [OF this]
    ultimately show ?thesis using False
      by (auto simp: reanchor_def shifted_to_def Let_def age_ms_def time_of_milli_def millisecond_def algebra_simps)
  qed (simp add: reanchor_def shifted_to_def)
  ultimately show ?thesis by simp
qed

lemma shifted_to_fields:
  "map as_budget (shifted_to now xs) = map as_budget xs" "length (shifted_to now xs) = length xs"
  "shifted_to now xs \<noteq> [] \<Longrightarrow> as_at (last (shifted_to now xs)) = now"
  by (simp_all add: shifted_to_def last_map age_ms_def comp_def)

lemma shifted_to_recent:
  assumes "samples_ok now a" "xs = ad_samples (trim_samples now a)" "ad_window a mod millisecond = 0"
    "s \<in> set (shifted_to later xs)"
  shows "\<not> as_at s < later - ad_window a"
proof -
  obtain r where r: "r \<in> set xs" "as_at s = later - age_ms xs r * millisecond" using assms(4) by (auto simp: shifted_to_def)
  then have "last xs \<in> set xs" by (intro last_in_set) auto
  then have "as_at (last xs) \<le> now"
    using trim_samples_ok [OF assms(1), of now] assms(2) by (auto simp: samples_ok_def)
  then have "age_ms xs r * millisecond \<le> ad_window a"
    by (rule age_within [OF _ trim_recent [OF assms(1)] assms(3)]) (use r assms(2) in simp)
  with r show ?thesis by simp
qed

lemma rejected_run: "ad_rejected (snd (gate_run es a)) = ad_rejected a + times_refused (fst (gate_run es a))"
proof (induction es arbitrary: a)
  case (Cons e es)
  from Cons.IH [of "snd (gate_step e a)"] rejected_step [of e a] show ?case
    by (cases "gate_step e a"; cases "gate_run es (snd (gate_step e a))") (simp add: times_refused_def)
qed (simp add: times_refused_def)

text \<open>C37: A RESTART KEEPS THE MEASURED HISTORY, UNLESS THE MARGIN IS A NAN.  With a window of whole
  milliseconds and a clock that does not run backwards, the state written at \<open>now\<close> and read back at any
  later time, however long the world was away, gives a controller of the same
  configuration the same budgets in the same order: the newest is read as just measured, and each other
  one keeps its spacing (to the millisecond) behind the newest; the gate is ready exactly when there is
  evidence enough, its limit is the estimate of those budgets, and the refusal count goes on.  A safety
  margin that is a NaN, which the validation accepts, equals no margin on the disk: then the state is not
  accepted and the controller starts afresh.\<close>

theorem restart_keeps_the_measured_history:
  assumes "a = snd (gate_run es (newAdmissionController m c))" "sorted (concat (map clock es) @ [now])"
    and "now \<le> later" "ac_window c mod millisecond = 0"
    and "diskState now a = (d, a')" "restore_admission d later (newAdmissionController m c) = (ok, b)"
  shows "if ac_margin c = NaN then \<not> ok \<and> b = newAdmissionController m c
    else ok \<and> ad_samples b = shifted_to later (ad_samples a') \<and>
      (ad_ready b \<longleftrightarrow> ac_minSamples c \<le> length (ad_samples a')) \<and>
      (ad_ready b \<longrightarrow> ad_effective b = estimate_of (map as_budget (ad_samples a')) a') \<and>
      ad_rejected b = ad_rejected a \<and> (ad_samples b \<noteq> [] \<longrightarrow> ad_next b = later + ac_every c)"
proof (cases "ac_margin c = NaN")
  case True
  then show ?thesis using assms(6)
    by (simp add: restore_admission_def f64_eq_def newAdmissionController_def split: if_splits)
next
  case margin: False
  let ?n = "newAdmissionController m c"
  let ?b = "?n\<lparr>ad_samples := shifted_to later (ad_samples a'), ad_estimated := 0, ad_effective := 0, ad_ready := False,
    ad_rejected := ad_rejected a\<rparr>"
  have "samples_ok (hd (concat (map clock es) @ [now])) ?n" by (simp add: samples_ok_def newAdmissionController_def)
  from run_samples_ok [OF this, of es now] have ok: "samples_ok now a"
    using assms(1,2) by (cases "concat (map clock es)") auto
  have a': "a' = trim_samples now a" using assms(5) by (simp add: diskState_def Let_def)
  have same: "same_config a ?n" "same_config a' ?n" by (simp_all add: assms(1) a')
  have rej: "0 \<le> ad_rejected a" using rejected_run [of es ?n]
    by (simp add: assms(1) times_refused_def newAdmissionController_def)
  have w: "ad_window a mod millisecond = 0" using same(1) assms(4) by (simp add: same_config_def newAdmissionController_def)
  have trimmed: "trim_samples later ?b = ?b"
  proof -
    have "\<And>s. s \<in> set (shifted_to later (ad_samples a')) \<Longrightarrow> \<not> as_at s < later - ad_window ?b"
      using shifted_to_recent [OF ok refl w] same(1) by (simp add: a' same_config_def)
    then have "dropWhile (\<lambda>s. as_at s < later - ad_window ?b) (ad_samples ?b) = ad_samples ?b"
      by (cases "ad_samples ?b") auto
    then show ?thesis by (simp add: trim_samples_def Let_def)
  qed
  have d: "dk_Samples d = map (\<lambda>s. \<lparr>dk_AtMs = unix_milli (as_at s), dk_Budget = Fin (as_budget s)\<rparr>) (ad_samples a')"
    "dk_Schema d = ''multiverse-admission/1''" "dk_Minimum d = ad_minLimit ?n" "dk_Maximum d = ad_maxLimit ?n"
    "dk_Margin d = ad_margin ?n" "ad_margin ?n \<noteq> NaN" "dk_RejectedTotal d = ad_rejected a"
    using assms(5) same(2) margin by (auto simp: diskState_def Let_def same_config_def newAdmissionController_def)
  have est: "estimate_of xs ?b = estimate_of xs a'" for xs
    using same(2) by (simp add: estimate_of_def same_config_def cong: f64.case_cong)
  have "restore_admission d later ?n = (True,
      let a2 = recalculate True (trim_samples later ?b) in if ad_samples a2 = [] then a2
      else a2\<lparr>ad_next := as_at (last (ad_samples a2)) + ad_every a2\<rparr>)"
    using reanchored [OF ok assms(3) a' [THEN arg_cong, of ad_samples]] rej
    by (simp add: restore_admission_def d f64_eq_def Let_def)
  with assms(6) trimmed have "ok" and b: "b = (let a2 = recalculate True ?b in if ad_samples a2 = [] then a2
      else a2\<lparr>ad_next := as_at (last (ad_samples a2)) + ad_every a2\<rparr>)" by auto
  with est margin shifted_to_fields [where now = later and xs = "ad_samples a'"] show ?thesis
    by (auto simp: recalculate_def Let_def newAdmissionController_def)
qed

text \<open>Two samples, a stop at once, and a return a week later.\<close>

lemma restart_keeps_the_measured_history_witness:
  "let a = snd (gate_run two_samples (newAdmissionController AM_adaptive gate_cfg));
       b = snd (restore_admission (fst (diskState (62 * second) a)) (604800 * second)
             (newAdmissionController AM_adaptive gate_cfg))
   in map as_at (ad_samples b) = [604740 * second, 604800 * second] \<and> ad_effective b = 99 \<and> ad_rejected b = 0"
proof -
  let ?a = "snd (gate_run two_samples (newAdmissionController AM_adaptive gate_cfg))"
  let ?s = "diskState (62 * second) ?a"
  have c: "sorted (concat (map clock two_samples) @ [62 * second])" "ac_window gate_cfg mod millisecond = 0"
    "(62 * second :: int) \<le> 604800 * second" by code_simp+
  note t = restart_keeps_the_measured_history [OF refl c(1,3,2) prod.collapse [symmetric] prod.collapse [symmetric], of AM_adaptive]
  have "map as_at (shifted_to (604800 * second) (ad_samples (snd ?s))) = [604740 * second, 604800 * second]"
    "estimate_of (map as_budget (ad_samples (snd ?s))) (snd ?s) = 99" "ad_rejected ?a = 0"
    "ac_minSamples gate_cfg \<le> length (ad_samples (snd ?s))" "ac_margin gate_cfg \<noteq> NaN"
    by (code_simp, code_simp, code_simp, code_simp, simp add: gate_cfg_def)
  with t show ?thesis by (simp add: Let_def)
qed

end
