(* ===== verification/Credentials.thy ===== *)
theory Credentials imports LedgerDir WireBlocks begin

text \<open>
  The credentials of the peers (\<open>internal/peercred\<close>): the shape of a secret, the splitting of what a client
  presents, and the store of verifiers with its file.  \<open>crypto/sha256\<close> is a parameter, the bytes drawn from
  \<open>crypto/rand\<close> and the clock are arguments, and the file is the list of records it holds.
\<close>

section \<open>Shapes\<close>

definition ValidGrant :: "bytes \<Rightarrow> bool" where
  "ValidGrant g = (g = ''peer'' \<or> g = ''subscribe'' \<or> g = ''admin'')"

text \<open>\<open>strings.LastIndex\<close>: split at the last dot, with text on both sides.\<close>

definition Split :: "bytes \<Rightarrow> (bytes \<times> bytes) option" where
  "Split credential =
     (case cut_last (CHR ''.'') credential of
        None \<Rightarrow> None
      | Some (peerID, secret) \<Rightarrow> if peerID = [] \<or> secret = [] then None else Some (peerID, secret))"

definition Join :: "bytes \<Rightarrow> bytes \<Rightarrow> bytes" where
  "Join peerID secret = peerID @ ''.'' @ secret"

definition Header :: "bytes \<Rightarrow> bytes \<Rightarrow> bytes" where
  "Header peerID secret = ''Bearer '' @ Join peerID secret"

definition FromRequest :: "bytes \<Rightarrow> bytes" where
  "FromRequest h = (if length h \<le> 7 \<or> ascii_lower (take 7 h) \<noteq> ''bearer '' then [] else trim_space (drop 7 h))"

definition MinSecretLen :: nat where "MinSecretLen = 32"
definition MaxSecretLen :: nat where "MaxSecretLen = 256"

datatype secret_error = No_secret | Wrong_length nat | Not_printable | Has_dot

fun secret_chars :: "bytes \<Rightarrow> secret_error option" where
  "secret_chars [] = None"
| "secret_chars (c # cs) =
     (if byte c < 33 \<or> 126 < byte c then Some Not_printable
      else if c = CHR ''.'' then Some Has_dot else secret_chars cs)"

definition ValidSecret :: "bytes \<Rightarrow> secret_error option" where
  "ValidSecret secret =
     (if secret = [] then Some No_secret
      else if length secret < MinSecretLen \<or> MaxSecretLen < length secret then Some (Wrong_length (length secret))
      else secret_chars secret)"

definition EncodeToString :: "bytes \<Rightarrow> bytes" where
  "EncodeToString b = concat (map (\<lambda>c. [hex_digit (byte c div 16), hex_digit (byte c mod 16)]) b)"

definition hex_value :: "char \<Rightarrow> nat option" where
  "hex_value c =
     (if between 48 57 (byte c) then Some (byte c - 48)
      else if between 97 102 (byte c) then Some (byte c - 87)
      else if between 65 70 (byte c) then Some (byte c - 55) else None)"

fun DecodeString :: "bytes \<Rightarrow> bytes option" where
  "DecodeString [] = Some []"
| "DecodeString [c] = None"
| "DecodeString (c # d # s) =
     (case (hex_value c, hex_value d, DecodeString s) of
        (Some m, Some n, Some b) \<Rightarrow> Some (char_of (16 * m + n) # b)
      | _ \<Rightarrow> None)"

text \<open>\<open>MintSecret\<close> on its 32 random bytes.\<close>

definition MintSecret :: "bytes \<Rightarrow> bytes" where
  "MintSecret random = EncodeToString random"

text \<open>\<open>LoadSecret\<close>: the credential file when one is named (its content, or \<open>None\<close> for unreadable), else the
  environment variable.\<close>

datatype load_error = Unreadable | Bad_secret secret_error

definition trim_right_blank :: "bytes \<Rightarrow> bytes" where
  "trim_right_blank s = rev (dropWhile (\<lambda>c. c = CHR '' '' \<or> byte c = 9) (rev s))"

definition LoadSecret :: "bytes option option \<Rightarrow> bytes \<Rightarrow> load_error + bytes" where
  "LoadSecret file env =
     (case file of
        Some None \<Rightarrow> Inl Unreadable
      | Some (Some content) \<Rightarrow>
          (let line = trim_right_blank (takeWhile (\<lambda>c. byte c \<noteq> 13 \<and> byte c \<noteq> 10) content)
           in case ValidSecret line of Some e \<Rightarrow> Inl (Bad_secret e) | None \<Rightarrow> Inr line)
      | None \<Rightarrow>
          (let v = trim_space env
           in if v = [] then Inl (Bad_secret No_secret)
              else case ValidSecret v of Some e \<Rightarrow> Inl (Bad_secret e) | None \<Rightarrow> Inr v))"

section \<open>The store\<close>

record cred_record =
  cr_PeerID :: bytes
  cr_Grant :: bytes
  cr_Salt :: bytes
  cr_Verifier :: bytes
  cr_CreatedAt :: int

record cred_store =
  ct_path :: bool
  ct_peers :: "(bytes, cred_record) gomap"
  ct_decoySalt :: bytes
  ct_file :: "cred_record list option"

text \<open>How a save ends: all of it, nothing (the write or the rename failed), or the rename without the sync of
  the directory.\<close>

datatype save_fate = Saved | Save_failed | Save_unsynced

definition salted :: "(bytes \<Rightarrow> bytes) \<Rightarrow> bytes \<Rightarrow> bytes \<Rightarrow> bytes" where
  "salted sha salt secret = sha (salt @ [char_of (0::nat)] @ secret)"

definition load_peers :: "cred_record list \<Rightarrow> (bytes, cred_record) gomap" where
  "load_peers rs = fold (\<lambda>r m. if cr_PeerID r = [] then m else AList.update (cr_PeerID r) r m) rs []"

text \<open>\<open>readable\<close>: whether the file could be read and parsed.\<close>

definition OpenStore :: "bool \<Rightarrow> bytes \<Rightarrow> bool \<Rightarrow> cred_record list option \<Rightarrow> cred_store option" where
  "OpenStore persistent decoy readable file =
     (let s = \<lparr>ct_path = False, ct_peers = [], ct_decoySalt = decoy, ct_file = None\<rparr> in
      if \<not> persistent then Some s
      else (case file of
              None \<Rightarrow> Some (s\<lparr>ct_path := True\<rparr>)
            | Some rs \<Rightarrow> if \<not> readable then None
                else Some (s\<lparr>ct_path := True, ct_peers := load_peers rs, ct_file := Some rs\<rparr>)))"

definition cred_Len :: "cred_store \<Rightarrow> nat" where
  "cred_Len s = length (ct_peers s)"

definition prefixed :: "bytes \<Rightarrow> bytes \<Rightarrow> bool" where
  "prefixed p s = (take (length p) s = p)"

definition CountPrefix :: "cred_store \<Rightarrow> bytes \<Rightarrow> nat" where
  "CountPrefix s p = length (filter (\<lambda>(k, r). prefixed p k) (ct_peers s))"

definition GrantOf :: "cred_store \<Rightarrow> bytes \<Rightarrow> bytes option" where
  "GrantOf s peerID = map_option cr_Grant (map_of (ct_peers s) peerID)"

definition cred_PeerIDs :: "cred_store \<Rightarrow> bytes list" where
  "cred_PeerIDs s = sort_by bytes_less (map fst (ct_peers s))"

text \<open>\<open>encoding/json\<close> writes the replacement character for what is not UTF-8.\<close>

definition file_record :: "cred_record \<Rightarrow> cred_record" where
  "file_record r =
     r\<lparr>cr_PeerID := coerce_utf8 (cr_PeerID r), cr_Grant := coerce_utf8 (cr_Grant r),
       cr_Salt := coerce_utf8 (cr_Salt r), cr_Verifier := coerce_utf8 (cr_Verifier r)\<rparr>"

definition saveLocked :: "save_fate \<Rightarrow> cred_store \<Rightarrow> bool \<times> cred_store" where
  "saveLocked fate s =
     (if \<not> ct_path s then (True, s)
      else (let s1 = s\<lparr>ct_file := Some (map (\<lambda>k. file_record (the (map_of (ct_peers s) k))) (cred_PeerIDs s))\<rparr> in
            case fate of Saved \<Rightarrow> (True, s1) | Save_failed \<Rightarrow> (False, s) | Save_unsynced \<Rightarrow> (False, s1)))"

definition set_peer :: "bytes \<Rightarrow> cred_record \<Rightarrow> cred_store \<Rightarrow> cred_store" where
  "set_peer k r s = s\<lparr>ct_peers := AList.update k r (ct_peers s)\<rparr>"

definition del_peer :: "bytes \<Rightarrow> cred_store \<Rightarrow> cred_store" where
  "del_peer k s = s\<lparr>ct_peers := AList.delete k (ct_peers s)\<rparr>"

datatype cred_error = Empty_peer | Bad_grant | Bad_shape secret_error | Cred_exists | Unknown_peer | Not_saved

text \<open>The salt, the random bytes of a minted secret, the clock and the end of the save.\<close>

record cred_io =
  ki_salt :: bytes
  ki_random :: bytes
  ki_now :: time
  ki_save :: save_fate

definition new_record :: "(bytes \<Rightarrow> bytes) \<Rightarrow> cred_io \<Rightarrow> bytes \<Rightarrow> bytes \<Rightarrow> bytes \<Rightarrow> cred_record" where
  "new_record sha io peerID secret grant =
     \<lparr>cr_PeerID = peerID, cr_Grant = grant, cr_Salt = EncodeToString (ki_salt io),
      cr_Verifier = EncodeToString (salted sha (ki_salt io) secret), cr_CreatedAt = unix_milli (ki_now io)\<rparr>"

definition recordMatches :: "(bytes \<Rightarrow> bytes) \<Rightarrow> cred_record \<Rightarrow> bytes \<Rightarrow> bool" where
  "recordMatches sha r secret =
     (case (DecodeString (cr_Salt r), DecodeString (cr_Verifier r)) of
        (Some salt, Some want) \<Rightarrow> salted sha salt secret = want
      | _ \<Rightarrow> False)"

text \<open>Insert and save, and take the record out again when the save reports an error.\<close>

definition store_record :: "save_fate \<Rightarrow> bytes \<Rightarrow> cred_record \<Rightarrow> cred_store \<Rightarrow> bool \<times> cred_store" where
  "store_record fate k r s =
     (case saveLocked fate (set_peer k r s) of
        (True, s1) \<Rightarrow> (True, s1)
      | (False, s1) \<Rightarrow> (False, del_peer k s1))"

definition Enroll ::
  "(bytes \<Rightarrow> bytes) \<Rightarrow> cred_io \<Rightarrow> bytes \<Rightarrow> bytes \<Rightarrow> bytes \<Rightarrow> cred_store \<Rightarrow> (cred_error + bool) \<times> cred_store"
where
  "Enroll sha io peerID secret grant s =
     (if peerID = [] then (Inl Empty_peer, s)
      else if \<not> ValidGrant grant then (Inl Bad_grant, s)
      else (case ValidSecret secret of
              Some e \<Rightarrow> (Inl (Bad_shape e), s)
            | None \<Rightarrow>
                (case map_of (ct_peers s) peerID of
                   Some r \<Rightarrow> if cr_Grant r \<noteq> grant \<or> \<not> recordMatches sha r secret then (Inl Cred_exists, s) else (Inr False, s)
                 | None \<Rightarrow>
                     (case store_record (ki_save io) peerID (new_record sha io peerID secret grant) s of
                        (True, s1) \<Rightarrow> (Inr True, s1)
                      | (False, s1) \<Rightarrow> (Inl Not_saved, s1)))))"

definition mintLocked ::
  "(bytes \<Rightarrow> bytes) \<Rightarrow> cred_io \<Rightarrow> bytes \<Rightarrow> bytes \<Rightarrow> cred_store \<Rightarrow> (cred_error + bytes) \<times> cred_store"
where
  "mintLocked sha io peerID grant s =
     (if peerID = [] then (Inl Empty_peer, s)
      else if \<not> ValidGrant grant then (Inl Bad_grant, s)
      else if map_of (ct_peers s) peerID \<noteq> None then (Inl Cred_exists, s)
      else (let secret = MintSecret (ki_random io) in
            case store_record (ki_save io) peerID (new_record sha io peerID secret grant) s of
              (True, s1) \<Rightarrow> (Inr secret, s1)
            | (False, s1) \<Rightarrow> (Inl Not_saved, s1)))"

definition Remint :: "(bytes \<Rightarrow> bytes) \<Rightarrow> cred_io \<Rightarrow> bytes \<Rightarrow> cred_store \<Rightarrow> (cred_error + bytes) \<times> cred_store" where
  "Remint sha io peerID s =
     (case map_of (ct_peers s) peerID of
        None \<Rightarrow> (Inl Unknown_peer, s)
      | Some r \<Rightarrow>
          (case mintLocked sha io peerID (cr_Grant r) (del_peer peerID s) of
             (Inl e, s1) \<Rightarrow> (Inl e, set_peer peerID r s1)
           | (Inr secret, s1) \<Rightarrow> (Inr secret, s1)))"

definition Forget :: "save_fate \<Rightarrow> bytes \<Rightarrow> cred_store \<Rightarrow> cred_error option \<times> cred_store" where
  "Forget fate peerID s =
     (case map_of (ct_peers s) peerID of
        None \<Rightarrow> (None, s)
      | Some r \<Rightarrow>
          (case saveLocked fate (del_peer peerID s) of
             (True, s1) \<Rightarrow> (None, s1)
           | (False, s1) \<Rightarrow> (Some Not_saved, set_peer peerID r s1)))"

text \<open>The name and the secret of a credential without a separator are empty, as the code leaves them.\<close>

definition Verify :: "(bytes \<Rightarrow> bytes) \<Rightarrow> bytes \<Rightarrow> cred_store \<Rightarrow> (bytes \<times> bytes) option" where
  "Verify sha credential s =
     (let (name, secret) = deref_or (Split credential) ([], []);
          rec = map_of (ct_peers s) name;
          salt = (case rec of None \<Rightarrow> ct_decoySalt s | Some r \<Rightarrow> deref_or (DecodeString (cr_Salt r)) (ct_decoySalt s));
          none = salted sha (ct_decoySalt s) [];
          want = (case rec of None \<Rightarrow> none | Some r \<Rightarrow> deref_or (DecodeString (cr_Verifier r)) none);
          matches = (salted sha salt secret = want)
      in case rec of
           None \<Rightarrow> None
         | Some r \<Rightarrow> if Split credential = None \<or> \<not> matches then None else Some (name, cr_Grant r))"

section \<open>Secrets and credentials\<close>

lemma split_join:
  assumes "CHR ''.'' \<notin> set secret" "peerID \<noteq> []" "secret \<noteq> []"
  shows "Split (Join peerID secret) = Some (peerID, secret)"
proof -
  have t: "takeWhile (\<lambda>x. x \<noteq> CHR ''.'') (rev secret @ CHR ''.'' # rev peerID) = rev secret"
    "dropWhile (\<lambda>x. x \<noteq> CHR ''.'') (rev secret @ CHR ''.'' # rev peerID) = CHR ''.'' # rev peerID"
    using assms(1) by (auto intro!: takeWhile_append_stop)
  then have "cut_last (CHR ''.'') (Join peerID secret) = Some (peerID, secret)"
    by (simp add: cut_last_def Join_def)
  with assms show ?thesis by (simp add: Split_def)
qed

lemma split_sound:
  assumes "Split credential = Some (peerID, secret)"
  shows "credential = Join peerID secret" "CHR ''.'' \<notin> set secret" "peerID \<noteq> []" "secret \<noteq> []"
proof -
  obtain x before where d: "dropWhile (\<lambda>x. x \<noteq> CHR ''.'') (rev credential) = x # before" "peerID = rev before"
    "secret = rev (takeWhile (\<lambda>x. x \<noteq> CHR ''.'') (rev credential))"
    using assms by (auto simp: Split_def cut_last_def split: option.splits list.splits if_splits)
  have "x = CHR ''.''" using d(1) hd_dropWhile [of "\<lambda>x. x \<noteq> CHR ''.''" "rev credential"] by auto
  moreover have "rev credential = takeWhile (\<lambda>x. x \<noteq> CHR ''.'') (rev credential) @ x # before"
    using takeWhile_dropWhile_id [of "\<lambda>x. x \<noteq> CHR ''.''" "rev credential"] d(1) by simp
  then have "credential = rev before @ x # rev (takeWhile (\<lambda>x. x \<noteq> CHR ''.'') (rev credential))"
    by (metis rev.simps(2) rev_append rev_rev_ident append_Cons append_Nil append_assoc)
  ultimately show "credential = Join peerID secret" by (simp add: Join_def d(2,3))
  show "CHR ''.'' \<notin> set secret" by (auto simp: d(3) dest: set_takeWhileD)
  show "peerID \<noteq> []" "secret \<noteq> []" using assms by (auto simp: Split_def split: option.splits if_splits)
qed

lemma secret_chars_dot: "secret_chars s = None \<Longrightarrow> CHR ''.'' \<notin> set s"
  by (induction s) (auto split: if_splits)

lemma valid_secret:
  assumes "ValidSecret s = None"
  shows "CHR ''.'' \<notin> set s" "s \<noteq> []"
  using assms secret_chars_dot by (auto simp: ValidSecret_def split: if_splits)

lemma byte_bound: "byte c < 256"
  by (simp add: byte_def)

lemma below_16: "(\<forall>n < 16. P n) \<Longrightarrow> n < (16::nat) \<Longrightarrow> P n"
  by blast

lemma hex_digit_facts:
  assumes "n < 16"
  shows "hex_value (hex_digit n) = Some n" "hex_digit n \<noteq> CHR ''.''" "byte (hex_digit n) < 128"
proof -
  have "\<forall>n < 16. hex_value (hex_digit n) = Some n \<and> hex_digit n \<noteq> CHR ''.'' \<and> byte (hex_digit n) < 128"
    by code_simp
  with assms show "hex_value (hex_digit n) = Some n" "hex_digit n \<noteq> CHR ''.''" "byte (hex_digit n) < 128"
    by blast+
qed

lemma nibble: "byte c div 16 < 16" "byte c mod 16 < 16"
  using byte_bound [of c] by auto

lemma decode_encode: "DecodeString (EncodeToString b) = Some b"
proof (induction b)
  case (Cons c b)
  have "char_of (16 * (byte c div 16) + byte c mod 16) = c" by (simp add: byte_def)
  then show ?case using Cons by (simp add: EncodeToString_def hex_digit_facts nibble)
qed (simp add: EncodeToString_def)

lemma encode_Nil [simp]: "EncodeToString [] = []"
  by (simp add: EncodeToString_def)

lemma encode_Cons: "EncodeToString (c # b) = hex_digit (byte c div 16) # hex_digit (byte c mod 16) # EncodeToString b"
  by (simp add: EncodeToString_def)

lemma digit_no_dot: "CHR ''.'' \<noteq> hex_digit (byte c div 16)" "CHR ''.'' \<noteq> hex_digit (byte c mod 16)"
  using hex_digit_facts(2) [OF nibble(1)] hex_digit_facts(2) [OF nibble(2)] by metis+

lemma encode_facts:
  "CHR ''.'' \<notin> set (EncodeToString b)" "list_all (\<lambda>c. byte c < 128) (EncodeToString b)"
  "EncodeToString b = [] \<longleftrightarrow> b = []"
  by (induction b) (simp_all add: encode_Cons hex_digit_facts nibble digit_no_dot)

lemma ascii_utf8: "list_all (\<lambda>c. byte c < 128) s \<Longrightarrow> valid_utf8 s"
proof (induction s)
  case (Cons c s)
  then have "decode_rune (c # s) = Some (byte c, 1)" by (simp add: decode_rune.simps)
  from runes_of_good [OF this] show ?case using Cons by (simp add: valid_utf8_def)
qed simp

lemma coerce_encoded: "coerce_utf8 (EncodeToString b) = EncodeToString b"
  by (rule coerce_utf8_valid, rule ascii_utf8, rule encode_facts)

lemma coerce_grant:
  assumes "ValidGrant g"
  shows "coerce_utf8 g = g"
proof -
  have "list_all (\<lambda>c. byte c < 128) ''peer'' \<and> list_all (\<lambda>c. byte c < 128) ''subscribe'' \<and>
      list_all (\<lambda>c. byte c < 128) ''admin''" by code_simp
  with assms show ?thesis by (auto simp: ValidGrant_def intro!: coerce_utf8_valid ascii_utf8)
qed

end
