(* ===== verification/Admin.thy ===== *)
theory Admin imports Registry ArchiveGuard Credentials begin

text \<open>
  The operator's path into the registry (\<open>internal/relay/admin.go\<close>): an act is reported first, with its
  consequences and a token, and applied by a second call that presents the token while the map has not moved.
  \<open>crypto/sha256\<close> and the parsing and printing of durations are parameters; what the clock, the random source and
  the saves of the two files do is an argument of each call.  The prose of the reports and the epoch are left out.
\<close>

section \<open>State\<close>

datatype admin_act = ActReleaseSlot | ActHandoverSlot | ActEvictPeer

definition adminConfirmTTL :: duration where
  "adminConfirmTTL = 600 * second"

record eviction =
  ev_Until :: time
  ev_Reason :: bytes
  ev_At :: time

record admin_pending =
  ap_act :: admin_act
  ap_slot :: int
  ap_peerID :: bytes
  ap_newPeerID :: bytes
  ap_until :: time
  ap_forSpec :: bytes
  ap_reason :: bytes
  ap_ringHash :: bytes
  ap_grant :: bytes
  ap_createdAt :: time

text \<open>One audit line: what, by whom, on what, why, and the state of the ring before.\<close>

record audit_line =
  al_act :: admin_act
  al_via :: bytes
  al_slot :: int
  al_peer :: bytes
  al_newPeer :: bytes
  al_reason :: bytes
  al_ring :: bytes

record admin =
  ad_reg :: registry
  ad_creds :: cred_store
  ad_evictions :: "(bytes, eviction) gomap"
  ad_tokens :: "(bytes, admin_pending) gomap"
  ad_audit :: "audit_line list"
  ad_closed :: "peer_conn list"

record admin_env =
  ae_sha :: "bytes \<Rightarrow> bytes"
  ae_parse :: "bytes \<Rightarrow> duration option"
  ae_show :: "duration \<Rightarrow> bytes"
  ae_url :: bytes

record admin_io =
  ai_now :: time
  ai_saved :: bool
  ai_mint :: cred_io
  ai_remint :: cred_io
  ai_forget :: save_fate

record admin_request =
  ar_Slot :: int
  ar_PeerID :: bytes
  ar_NewPeerID :: bytes
  ar_For :: bytes
  ar_Reason :: bytes
  ar_ConfirmToken :: bytes
  ar_RingStateHash :: bytes

record lane_change =
  lc_PeerID :: bytes
  lc_Edge :: bytes
  lc_From :: int
  lc_To :: "int option"

record admin_report =
  rp_Act :: admin_act
  rp_Slot :: int
  rp_PeerID :: bytes
  rp_Position :: "position option"
  rp_DarkForMs :: int
  rp_Live :: bool
  rp_BecomesHole :: "position list"
  rp_LanesChanged :: "lane_change list"
  rp_AddressRetiredForever :: bool
  rp_HolesAfter :: "position list"
  rp_MaxSlotEverIssued :: int
  rp_NewPeerID :: bytes
  rp_EvictedUntilMs :: int
  rp_EvictedFor :: bytes
  rp_Lifts :: bool
  rp_ConfirmToken :: bytes
  rp_RingStateHash :: bytes

datatype admin_error =
    Ad_unauthorized | Ad_wrong_grant bytes | Ad_bad_request | Ad_needs_reason
  | Ad_no_slot int | Ad_live bytes | Ad_needs_new_peer | Ad_already_holds bytes int
  | Ad_needs_peer | Ad_bad_for | Ad_not_evicted
  | Ad_no_token | Ad_other_act | Ad_other_hash | Ad_map_moved
  | Ad_registry reg_error | Ad_not_minted cred_error | Ad_not_dropped cred_error

section \<open>The ring hash\<close>

definition ring_text :: "grid \<Rightarrow> bytes" where
  "ring_text g =
     itoa (gr_Width g) @ '':'' @ itoa (gr_Height g) @ '':'' @ itoa (gr_MaxSlotEverIssued g) @ [newline] @
     concat (map (\<lambda>r. itoa (res_Slot r) @ '':'' @ itoa (res_Col r) @ '':'' @ itoa (res_Row r) @ '':'' @
       res_PeerID r @ [newline]) (gr_Slots g))"

definition ringStateHash :: "(bytes \<Rightarrow> bytes) \<Rightarrow> grid \<Rightarrow> bytes" where
  "ringStateHash sha g = take 16 (EncodeToString (sha (ring_text g)))"

section \<open>Evictions\<close>

text \<open>\<open>evictionLocked\<close>: the end of the ban (\<open>0\<close> is until lifted), forgetting one that is over.\<close>

definition evictionLocked :: "time \<Rightarrow> bytes \<Rightarrow> admin \<Rightarrow> time option \<times> admin" where
  "evictionLocked now peerID s =
     (case map_of (ad_evictions s) peerID of
        None \<Rightarrow> (None, s)
      | Some ev \<Rightarrow>
          if ev_Until ev \<noteq> zero_time \<and> ev_Until ev < now
          then (None, s\<lparr>ad_evictions := AList.delete peerID (ad_evictions s)\<rparr>)
          else (Some (ev_Until ev), s))"

text \<open>\<open>Evictions\<close>: the peers refused now.\<close>

fun evictions_of :: "time \<Rightarrow> bytes list \<Rightarrow> admin \<Rightarrow> (bytes, time) gomap \<times> admin" where
  "evictions_of now [] s = ([], s)"
| "evictions_of now (p # ps) s =
     (case evictionLocked now p s of (until, s1) \<Rightarrow>
        case evictions_of now ps s1 of (m, s2) \<Rightarrow>
          (case until of None \<Rightarrow> m | Some u \<Rightarrow> AList.update p u m, s2))"

definition Evictions :: "time \<Rightarrow> admin \<Rightarrow> (bytes, time) gomap \<times> admin" where
  "Evictions now s = evictions_of now (map fst (ad_evictions s)) s"

definition untilMs :: "time \<Rightarrow> int" where
  "untilMs until = (if until = zero_time then 0 else unix_milli until)"

definition adminUntil :: "admin_report \<Rightarrow> time" where
  "adminUntil rep = (if rp_EvictedUntilMs rep = 0 then zero_time else time_of_milli (rp_EvictedUntilMs rep))"

definition parseEvictionFor :: "(bytes \<Rightarrow> duration option) \<Rightarrow> bytes \<Rightarrow> (duration \<times> bool) option" where
  "parseEvictionFor parse spec0 =
     (let spec = trim_space spec0 in
      if spec = [] then Some (0, False)
      else if spec = ''0'' \<or> spec = ''lift'' then Some (0, True)
      else (case parse spec of
              None \<Rightarrow> None
            | Some d \<Rightarrow> if d \<le> 0 then Some (0, True) else Some (d, False)))"

section \<open>Consequences\<close>

definition holesAfterRelease :: "grid \<Rightarrow> reservation \<Rightarrow> position list" where
  "holesAfterRelease g going =
     map (\<lambda>(c, r). \<lparr>po_Col = c, po_Row = r\<rparr>)
       (filter (\<lambda>(c, r). case At g c r of None \<Rightarrow> True | Some res \<Rightarrow> res_Slot res = res_Slot going) (rectangle g))"

definition deliverableWithoutLocked :: "registry \<Rightarrow> reservation \<Rightarrow> int \<Rightarrow> reservation \<Rightarrow> bytes" where
  "deliverableWithoutLocked s me gone r =
     (if res_Slot r = gone then ''peer_offline'' else deliverableLocked s me r)"

definition lane_changes_of :: "registry \<Rightarrow> reservation \<Rightarrow> reservation \<Rightarrow> bytes \<Rightarrow> lane_change list" where
  "lane_changes_of s going r edge =
     (case fst (Effective (rg_grid s) r edge (deliverableLocked s r)) of
        None \<Rightarrow> []
      | Some target \<Rightarrow>
          if res_Slot target \<noteq> res_Slot going then []
          else [\<lparr>lc_PeerID = res_PeerID r, lc_Edge = edge, lc_From = res_Slot going,
                 lc_To = map_option res_Slot
                   (fst (Effective (rg_grid s) r edge (deliverableWithoutLocked s r (res_Slot going))))\<rparr>])"

definition laneChangesLocked :: "registry \<Rightarrow> reservation \<Rightarrow> lane_change list" where
  "laneChangesLocked s going =
     concat (map (\<lambda>r. if res_Slot r = res_Slot going then []
                      else concat (map (lane_changes_of s going r) CanonicalEdges)) (gr_Slots (rg_grid s)))"

definition fillDarkLocked :: "time \<Rightarrow> registry \<Rightarrow> bytes \<Rightarrow> admin_report \<Rightarrow> admin_report" where
  "fillDarkLocked now s peerID rep =
     (if is_live s peerID then rep\<lparr>rp_Live := True\<rparr>
      else (case map_of (rg_meta s) peerID of
              None \<Rightarrow> rep
            | Some m \<Rightarrow> if pm_darkSinceMs m > 0 then rep\<lparr>rp_DarkForMs := unix_milli now - pm_darkSinceMs m\<rparr> else rep))"

definition blank_report :: "admin_act \<Rightarrow> bytes \<Rightarrow> grid \<Rightarrow> bytes \<Rightarrow> admin_report" where
  "blank_report act peerID g hash =
     \<lparr>rp_Act = act, rp_Slot = 0, rp_PeerID = peerID, rp_Position = None, rp_DarkForMs = 0, rp_Live = False,
      rp_BecomesHole = [], rp_LanesChanged = [], rp_AddressRetiredForever = False, rp_HolesAfter = grid_Holes g,
      rp_MaxSlotEverIssued = gr_MaxSlotEverIssued g, rp_NewPeerID = [], rp_EvictedUntilMs = 0, rp_EvictedFor = [],
      rp_Lifts = False, rp_ConfirmToken = [], rp_RingStateHash = hash\<rparr>"

definition release_report :: "time \<Rightarrow> bytes \<Rightarrow> int \<Rightarrow> registry \<Rightarrow> admin_error + admin_report" where
  "release_report now hash slot s =
     (case ResOfSlot (rg_grid s) slot of
        None \<Rightarrow> Inl (Ad_no_slot slot)
      | Some r \<Rightarrow>
          if is_live s (res_PeerID r) then Inl (Ad_live (res_PeerID r))
          else Inr (fillDarkLocked now s (res_PeerID r)
            ((blank_report ActReleaseSlot (res_PeerID r) (rg_grid s) hash)
               \<lparr>rp_Slot := res_Slot r, rp_Position := Some (res_pos r), rp_BecomesHole := [res_pos r],
                rp_AddressRetiredForever := True, rp_HolesAfter := holesAfterRelease (rg_grid s) r,
                rp_LanesChanged := laneChangesLocked s r\<rparr>)))"

definition handover_report :: "time \<Rightarrow> bytes \<Rightarrow> int \<Rightarrow> bytes \<Rightarrow> registry \<Rightarrow> admin_error + admin_report" where
  "handover_report now hash slot new s =
     (case ResOfSlot (rg_grid s) slot of
        None \<Rightarrow> Inl (Ad_no_slot slot)
      | Some r \<Rightarrow>
          if new = [] then Inl Ad_needs_new_peer
          else if is_live s (res_PeerID r) then Inl (Ad_live (res_PeerID r))
          else if SlotOfPeer (rg_grid s) new > 0 then Inl (Ad_already_holds new (SlotOfPeer (rg_grid s) new))
          else Inr (fillDarkLocked now s (res_PeerID r)
            ((blank_report ActHandoverSlot (res_PeerID r) (rg_grid s) hash)
               \<lparr>rp_Slot := res_Slot r, rp_NewPeerID := new, rp_Position := Some (res_pos r)\<rparr>)))"

definition placed_report :: "registry \<Rightarrow> bytes \<Rightarrow> admin_report \<Rightarrow> admin_report" where
  "placed_report s peerID rep =
     (case ResOfPeer (rg_grid s) peerID of
        None \<Rightarrow> rep
      | Some r \<Rightarrow> rep\<lparr>rp_Slot := res_Slot r, rp_Position := Some (res_pos r), rp_LanesChanged := laneChangesLocked s r\<rparr>)"

definition evict_report ::
  "admin_env \<Rightarrow> time \<Rightarrow> bytes \<Rightarrow> bytes \<Rightarrow> bytes \<Rightarrow> admin \<Rightarrow> (admin_error + admin_report) \<times> admin"
where
  "evict_report env now hash peerID for_spec s =
     (if peerID = [] then (Inl Ad_needs_peer, s)
      else (case parseEvictionFor (ae_parse env) for_spec of
              None \<Rightarrow> (Inl Ad_bad_for, s)
            | Some (d, lift) \<Rightarrow>
                (let rep = fillDarkLocked now (ad_reg s) peerID
                       (placed_report (ad_reg s) peerID
                         ((blank_report ActEvictPeer peerID (rg_grid (ad_reg s)) hash)\<lparr>rp_Lifts := lift\<rparr>))
                 in if lift
                    then (case evictionLocked now peerID s of
                            (None, s1) \<Rightarrow> (Inl Ad_not_evicted, s1)
                          | (Some cur, s1) \<Rightarrow> (Inr (rep\<lparr>rp_EvictedUntilMs := untilMs cur\<rparr>), s1))
                    else if d > 0
                    then (Inr (rep\<lparr>rp_EvictedUntilMs := unix_milli (now + d), rp_EvictedFor := ae_show env d\<rparr>), s)
                    else (Inr (rep\<lparr>rp_EvictedFor := ''until lifted''\<rparr>), s))))"

definition consequence ::
  "admin_env \<Rightarrow> time \<Rightarrow> admin_act \<Rightarrow> admin_request \<Rightarrow> admin \<Rightarrow> (admin_error + admin_report) \<times> admin"
where
  "consequence env now act req s =
     (let hash = ringStateHash (ae_sha env) (rg_grid (ad_reg s)) in
      case act of
        ActReleaseSlot \<Rightarrow> (release_report now hash (ar_Slot req) (ad_reg s), s)
      | ActHandoverSlot \<Rightarrow> (handover_report now hash (ar_Slot req) (trim_space (ar_NewPeerID req)) (ad_reg s), s)
      | ActEvictPeer \<Rightarrow> evict_report env now hash (trim_space (ar_PeerID req)) (ar_For req) s)"

section \<open>Application\<close>

definition AuditAct ::
  "admin_env \<Rightarrow> admin_act \<Rightarrow> bytes \<Rightarrow> bytes \<Rightarrow> int \<Rightarrow> bytes \<Rightarrow> bytes \<Rightarrow> admin \<Rightarrow> admin"
where
  "AuditAct env act operator reason slot peerID newPeerID s =
     s\<lparr>ad_audit := ad_audit s @
        [\<lparr>al_act = act, al_via = operator, al_slot = slot, al_peer = peerID, al_newPeer = newPeerID,
          al_reason = (if trim_space reason = [] then ''<none given>'' else reason),
          al_ring = ringStateHash (ae_sha env) (rg_grid (ad_reg s))\<rparr>]\<rparr>"

record admin_applied =
  aa_Act :: admin_act
  aa_Slot :: int
  aa_PeerID :: bytes
  aa_Map :: map_shape
  aa_SlotCount :: int
  aa_MaxSlotEverIssued :: int
  aa_JoinString :: bytes
  aa_EvictedUntilMs :: int
  aa_Lifted :: bool

definition applied_of :: "admin_pending \<Rightarrow> registry \<Rightarrow> admin_applied" where
  "applied_of p s =
     \<lparr>aa_Act = ap_act p, aa_Slot = ap_slot p, aa_PeerID = ap_peerID p, aa_Map = Shape (rg_grid s),
      aa_SlotCount = Size (rg_grid s), aa_MaxSlotEverIssued = gr_MaxSlotEverIssued (rg_grid s),
      aa_JoinString = [], aa_EvictedUntilMs = 0, aa_Lifted = False\<rparr>"

definition join_line :: "bytes \<Rightarrow> bytes \<Rightarrow> bytes \<Rightarrow> bytes" where
  "join_line url peerID secret = ''multiverse-join/1 '' @ url @ '' '' @ Join peerID secret"

definition applyEviction ::
  "admin_io \<Rightarrow> admin_pending \<Rightarrow> admin \<Rightarrow> admin_applied \<times> admin"
where
  "applyEviction io p s =
     (if ap_until p = zero_time \<and> ap_forSpec p = []
      then ((applied_of p (ad_reg s))\<lparr>aa_Lifted := True\<rparr>,
            s\<lparr>ad_evictions := AList.delete (ap_peerID p) (ad_evictions s)\<rparr>)
      else ((applied_of p (ad_reg s))\<lparr>aa_EvictedUntilMs := untilMs (ap_until p)\<rparr>,
            s\<lparr>ad_evictions := AList.update (ap_peerID p)
                \<lparr>ev_Until = ap_until p, ev_Reason = ap_reason p, ev_At = ai_now io\<rparr> (ad_evictions s),
              ad_closed := ad_closed s @ (case map_of (rg_live (ad_reg s)) (ap_peerID p) of None \<Rightarrow> [] | Some c \<Rightarrow> [c])\<rparr>))"

text \<open>The credential half of a handover: a credential for the new identity, none for the old one.\<close>

definition handover_credentials ::
  "admin_env \<Rightarrow> admin_io \<Rightarrow> bytes \<Rightarrow> bytes \<Rightarrow> cred_store \<Rightarrow> (admin_error + bytes) \<times> cred_store"
where
  "handover_credentials env io old new s =
     (case (case mintLocked (ae_sha env) (ai_mint io) new ''peer'' s of
              (Inl Cred_exists, s1) \<Rightarrow> Remint (ae_sha env) (ai_remint io) new s1
            | other \<Rightarrow> other) of
        (Inl e, s2) \<Rightarrow> (Inl (Ad_not_minted e), s2)
      | (Inr secret, s2) \<Rightarrow>
          (case Forget (ai_forget io) old s2 of
             (Some e, s3) \<Rightarrow> (Inl (Ad_not_dropped e), s3)
           | (None, s3) \<Rightarrow> (Inr secret, s3)))"

definition apply_release :: "admin_io \<Rightarrow> admin_pending \<Rightarrow> admin \<Rightarrow> (admin_error + admin_applied) \<times> admin" where
  "apply_release io p s =
     (case ReleaseSlot (ai_saved io) (ap_slot p) (ad_reg s) of
        (Some e, r) \<Rightarrow> (Inl (Ad_registry e), s\<lparr>ad_reg := r\<rparr>)
      | (None, r) \<Rightarrow> (Inr (applied_of p r), s\<lparr>ad_reg := r\<rparr>))"

definition apply_handover ::
  "admin_env \<Rightarrow> admin_io \<Rightarrow> admin_pending \<Rightarrow> admin \<Rightarrow> (admin_error + admin_applied) \<times> admin"
where
  "apply_handover env io p s =
     (case HandoverSlot (ai_saved io) (ap_slot p) (ap_newPeerID p) (ad_reg s) of
        (Inl e, r) \<Rightarrow> (Inl (Ad_registry e), s\<lparr>ad_reg := r\<rparr>)
      | (Inr _, r) \<Rightarrow>
          (case handover_credentials env io (ap_peerID p) (ap_newPeerID p) (ad_creds s) of
             (Inl e, k) \<Rightarrow> (Inl e, s\<lparr>ad_reg := r, ad_creds := k\<rparr>)
           | (Inr secret, k) \<Rightarrow>
               (Inr ((applied_of p r)\<lparr>aa_PeerID := ap_newPeerID p,
                       aa_JoinString := join_line (ae_url env) (ap_newPeerID p) secret\<rparr>),
                s\<lparr>ad_reg := r, ad_creds := k\<rparr>)))"

definition applyAdmin ::
  "admin_env \<Rightarrow> admin_io \<Rightarrow> admin_pending \<Rightarrow> bytes \<Rightarrow> admin \<Rightarrow> (admin_error + admin_applied) \<times> admin"
where
  "applyAdmin env io p operator s0 =
     (let s = AuditAct env (ap_act p) operator (ap_reason p) (ap_slot p) (ap_peerID p) (ap_newPeerID p) s0 in
      case ap_act p of
        ActReleaseSlot \<Rightarrow> apply_release io p s
      | ActHandoverSlot \<Rightarrow> apply_handover env io p s
      | ActEvictPeer \<Rightarrow> (case applyEviction io p s of (a, s1) \<Rightarrow> (Inr a, s1)))"

text \<open>The console's eviction.\<close>

definition EvictPeer ::
  "admin_env \<Rightarrow> admin_io \<Rightarrow> bytes \<Rightarrow> duration \<Rightarrow> bool \<Rightarrow> bytes \<Rightarrow> admin \<Rightarrow> (admin_error + time) \<times> admin"
where
  "EvictPeer env io peerID d lift reason s =
     (if peerID = [] then (Inl Ad_needs_peer, s)
      else
        (let p0 = \<lparr>ap_act = ActEvictPeer, ap_slot = 0, ap_peerID = peerID, ap_newPeerID = [], ap_until = zero_time,
                   ap_forSpec = [], ap_reason = reason, ap_ringHash = [], ap_grant = [], ap_createdAt = zero_time\<rparr>;
             p = (if \<not> lift \<and> d > 0 then p0\<lparr>ap_until := ai_now io + d, ap_forSpec := ae_show env d\<rparr>
                  else if \<not> lift then p0\<lparr>ap_forSpec := ''until lifted''\<rparr> else p0);
             (banned, s1) = (if lift then evictionLocked (ai_now io) peerID s else (Some zero_time, s))
         in if banned = None then (Inl Ad_not_evicted, s1)
            else (case applyAdmin env io p ''console'' s1 of
                    (Inl e, s2) \<Rightarrow> (Inl e, s2)
                  | (Inr _, s2) \<Rightarrow> (Inr (ap_until p), s2))))"

section \<open>The two calls\<close>

definition adminGrant :: "admin_env \<Rightarrow> bytes \<Rightarrow> admin \<Rightarrow> admin_error + bytes" where
  "adminGrant env authorization s =
     (case Verify (ae_sha env) (FromRequest authorization) (ad_creds s) of
        None \<Rightarrow> Inl Ad_unauthorized
      | Some (peerID, grant) \<Rightarrow> if grant \<noteq> ''admin'' then Inl (Ad_wrong_grant grant) else Inr peerID)"

definition sweepAdminTokensLocked :: "time \<Rightarrow> admin \<Rightarrow> admin" where
  "sweepAdminTokensLocked now s =
     s\<lparr>ad_tokens := filter (\<lambda>(_, p). now - ap_createdAt p \<le> adminConfirmTTL) (ad_tokens s)\<rparr>"

definition pending_of :: "admin_act \<Rightarrow> admin_report \<Rightarrow> bytes \<Rightarrow> bytes \<Rightarrow> time \<Rightarrow> admin_pending" where
  "pending_of act rep reason operator now =
     \<lparr>ap_act = act, ap_slot = rp_Slot rep, ap_peerID = rp_PeerID rep, ap_newPeerID = rp_NewPeerID rep,
      ap_until = adminUntil rep, ap_forSpec = rp_EvictedFor rep, ap_reason = reason,
      ap_ringHash = rp_RingStateHash rep, ap_grant = operator, ap_createdAt = now\<rparr>"

text \<open>\<open>adminReport\<close>, with the \<open>Authorization\<close> header, the decoded body (\<open>None\<close> for a wrong method or a body that
  does not decode) and the token drawn for it.\<close>

definition adminReport ::
  "admin_env \<Rightarrow> admin_io \<Rightarrow> bytes \<Rightarrow> admin_act \<Rightarrow> admin_request option \<Rightarrow> bytes \<Rightarrow> admin \<Rightarrow>
     (admin_error + admin_report) \<times> admin"
where
  "adminReport env io authorization act body token s =
     (case adminGrant env authorization s of
        Inl e \<Rightarrow> (Inl e, s)
      | Inr operator \<Rightarrow>
          (case body of
             None \<Rightarrow> (Inl Ad_bad_request, s)
           | Some req \<Rightarrow>
               if trim_space (ar_Reason req) = [] then (Inl Ad_needs_reason, s)
               else (case consequence env (ai_now io) act req s of
                       (Inl e, s1) \<Rightarrow> (Inl e, s1)
                     | (Inr rep, s1) \<Rightarrow>
                         (let s2 = sweepAdminTokensLocked (ai_now io) s1 in
                          (Inr (rep\<lparr>rp_ConfirmToken := token\<rparr>),
                           s2\<lparr>ad_tokens := AList.update token
                               (pending_of act rep (ar_Reason req) operator (ai_now io)) (ad_tokens s2)\<rparr>)))))"

definition adminConfirm ::
  "admin_env \<Rightarrow> admin_io \<Rightarrow> bytes \<Rightarrow> admin_act \<Rightarrow> admin_request option \<Rightarrow> admin \<Rightarrow>
     (admin_error + admin_applied) \<times> admin"
where
  "adminConfirm env io authorization act body s =
     (case adminGrant env authorization s of
        Inl e \<Rightarrow> (Inl e, s)
      | Inr operator \<Rightarrow>
          (case body of
             None \<Rightarrow> (Inl Ad_bad_request, s)
           | Some req \<Rightarrow>
               (let s1 = sweepAdminTokensLocked (ai_now io) s;
                    current = ringStateHash (ae_sha env) (rg_grid (ad_reg s1))
                in case map_of (ad_tokens s1) (ar_ConfirmToken req) of
                     None \<Rightarrow> (Inl Ad_no_token, s1)
                   | Some p \<Rightarrow>
                       (let s2 = s1\<lparr>ad_tokens := AList.delete (ar_ConfirmToken req) (ad_tokens s1)\<rparr> in
                        if ap_act p \<noteq> act then (Inl Ad_other_act, s2)
                        else if ar_RingStateHash req \<noteq> [] \<and> ar_RingStateHash req \<noteq> ap_ringHash p then (Inl Ad_other_hash, s2)
                        else if current \<noteq> ap_ringHash p then (Inl Ad_map_moved, s2)
                        else applyAdmin env io p operator s2))))"

section \<open>The door\<close>

text \<open>What the upgrade decides about an authenticated connection: the credential, then the eviction.  The
  connection counters in between are those of \<open>Meters\<close>.\<close>

datatype door = Door_unauthorized | Door_evicted | Door_open authed

definition serve_door :: "admin_env \<Rightarrow> time \<Rightarrow> bool \<Rightarrow> bytes \<Rightarrow> admin \<Rightarrow> door \<times> admin" where
  "serve_door env now insecureNoToken authorization s =
     (if insecureNoToken then (Door_open \<lparr>au_checked = False, au_peerID = [], au_grant = []\<rparr>, s)
      else (case Verify (ae_sha env) (FromRequest authorization) (ad_creds s) of
              None \<Rightarrow> (Door_unauthorized, s)
            | Some (peerID, grant) \<Rightarrow>
                (case evictionLocked now peerID s of
                   (Some _, s1) \<Rightarrow> (Door_evicted, s1)
                 | (None, s1) \<Rightarrow> (Door_open \<lparr>au_checked = True, au_peerID = peerID, au_grant = grant\<rparr>, s1))))"

text \<open>The handshake of a connection that was let through the door, with the evictions of the moment.\<close>

definition door_handshake ::
  "time \<Rightarrow> bool \<Rightarrow> nat \<Rightarrow> authed \<Rightarrow> handshake \<Rightarrow> admin \<Rightarrow> (refusal + peer_conn) \<times> admin"
where
  "door_handshake now acked conn auth hs s =
     (let banned = map fst (filter (\<lambda>(_, ev). ev_Until ev = zero_time \<or> now \<le> ev_Until ev) (ad_evictions s)) in
      case on_handshake now acked conn auth hs ((ad_reg s)\<lparr>rg_evicted := banned\<rparr>) of
        (a, r) \<Rightarrow> (a, s\<lparr>ad_reg := r\<rparr>))"

end
