(* ===== verification/CredentialRun.thy ===== *)
theory CredentialRun imports Credentials begin

text \<open>
  Runs of the credential store and what they promise: the store is a map from identities to what was handed out,
  its file is the same map, and every operation is the operation on that map.
\<close>

section \<open>The map of what was handed out\<close>

record issued =
  is_secret :: bytes
  is_salt :: bytes
  is_grant :: bytes

datatype cred_op =
    Op_mint cred_io bytes bytes
  | Op_enroll cred_io bytes bytes bytes
  | Op_remint cred_io bytes
  | Op_forget save_fate bytes
  | Op_restart bytes

datatype cred_answer = Refused cred_error | Secret bytes | Enrolled bool | Done

definition cred_answer_of :: "('a \<Rightarrow> cred_answer) \<Rightarrow> (cred_error + 'a) \<times> cred_store \<Rightarrow> cred_answer \<times> cred_store" where
  "cred_answer_of f p = (case p of (Inl e, s) \<Rightarrow> (Refused e, s) | (Inr x, s) \<Rightarrow> (f x, s))"

text \<open>A restart reads the file again; a file that was written by the store parses.\<close>

fun cred_step :: "(bytes \<Rightarrow> bytes) \<Rightarrow> cred_op \<Rightarrow> cred_store \<Rightarrow> cred_answer \<times> cred_store" where
  "cred_step sha (Op_mint io k g) s = cred_answer_of Secret (mintLocked sha io k g s)"
| "cred_step sha (Op_enroll io k secret g) s = cred_answer_of Enrolled (Enroll sha io k secret g s)"
| "cred_step sha (Op_remint io k) s = cred_answer_of Secret (Remint sha io k s)"
| "cred_step sha (Op_forget fate k) s =
     (case Forget fate k s of (None, s1) \<Rightarrow> (Done, s1) | (Some e, s1) \<Rightarrow> (Refused e, s1))"
| "cred_step sha (Op_restart decoy) s =
     (Done, deref_or (OpenStore (ct_path s) decoy True (ct_file s)) s)"

fun cred_run :: "(bytes \<Rightarrow> bytes) \<Rightarrow> cred_op list \<Rightarrow> cred_store \<Rightarrow> cred_answer list \<times> cred_store" where
  "cred_run sha [] s = ([], s)"
| "cred_run sha (p # ps) s =
     (let (a, s1) = cred_step sha p s; (rest, s2) = cred_run sha ps s1 in (a # rest, s2))"

type_synonym issued_map = "bytes \<rightharpoonup> issued"

definition handed :: "cred_io \<Rightarrow> bytes \<Rightarrow> bytes \<Rightarrow> issued" where
  "handed io secret g = \<lparr>is_secret = secret, is_salt = ki_salt io, is_grant = g\<rparr>"

text \<open>The same secret, as far as the digest can tell.\<close>

definition same_secret :: "(bytes \<Rightarrow> bytes) \<Rightarrow> issued \<Rightarrow> bytes \<Rightarrow> bool" where
  "same_secret sha i secret = (salted sha (is_salt i) secret = salted sha (is_salt i) (is_secret i))"

definition spec_put ::
  "save_fate \<Rightarrow> cred_answer \<Rightarrow> issued_map \<Rightarrow> issued_map \<Rightarrow> cred_answer \<times> issued_map"
where
  "spec_put fate a new old = (if fate = Saved then (a, new) else (Refused Not_saved, old))"

fun spec_step :: "(bytes \<Rightarrow> bytes) \<Rightarrow> cred_op \<Rightarrow> issued_map \<Rightarrow> cred_answer \<times> issued_map" where
  "spec_step sha (Op_mint io k g) A =
     (if k = [] then (Refused Empty_peer, A)
      else if \<not> ValidGrant g then (Refused Bad_grant, A)
      else if A k \<noteq> None then (Refused Cred_exists, A)
      else spec_put (ki_save io) (Secret (MintSecret (ki_random io))) (A(k \<mapsto> handed io (MintSecret (ki_random io)) g)) A)"
| "spec_step sha (Op_enroll io k secret g) A =
     (if k = [] then (Refused Empty_peer, A)
      else if \<not> ValidGrant g then (Refused Bad_grant, A)
      else (case ValidSecret secret of
              Some e \<Rightarrow> (Refused (Bad_shape e), A)
            | None \<Rightarrow>
                (case A k of
                   Some i \<Rightarrow> (if is_grant i = g \<and> same_secret sha i secret then Enrolled False else Refused Cred_exists, A)
                 | None \<Rightarrow> spec_put (ki_save io) (Enrolled True) (A(k \<mapsto> handed io secret g)) A)))"
| "spec_step sha (Op_remint io k) A =
     (case A k of
        None \<Rightarrow> (Refused Unknown_peer, A)
      | Some i \<Rightarrow>
          spec_put (ki_save io) (Secret (MintSecret (ki_random io)))
            (A(k \<mapsto> handed io (MintSecret (ki_random io)) (is_grant i))) A)"
| "spec_step sha (Op_forget fate k) A =
     (case A k of None \<Rightarrow> (Done, A) | Some _ \<Rightarrow> spec_put fate Done (A(k := None)) A)"
| "spec_step sha (Op_restart decoy) A = (Done, A)"

fun spec_run :: "(bytes \<Rightarrow> bytes) \<Rightarrow> cred_op list \<Rightarrow> issued_map \<Rightarrow> cred_answer list \<times> issued_map" where
  "spec_run sha [] A = ([], A)"
| "spec_run sha (p # ps) A =
     (let (a, A1) = spec_step sha p A; (rest, A2) = spec_run sha ps A1 in (a # rest, A2))"

definition spec_verify :: "(bytes \<Rightarrow> bytes) \<Rightarrow> issued_map \<Rightarrow> bytes \<Rightarrow> (bytes \<times> bytes) option" where
  "spec_verify sha A credential =
     (case Split credential of
        None \<Rightarrow> None
      | Some (k, secret) \<Rightarrow>
          (case A k of
             None \<Rightarrow> None
           | Some i \<Rightarrow> if same_secret sha i secret then Some (k, is_grant i) else None))"

text \<open>The arguments of an operation: identities are UTF-8 (the file is JSON) and a minted secret is drawn from
  some random bytes (the code draws 32).\<close>

fun sound_args :: "cred_op \<Rightarrow> bool" where
  "sound_args (Op_mint io k g) = (valid_utf8 k \<and> ki_random io \<noteq> [])"
| "sound_args (Op_enroll io k secret g) = valid_utf8 k"
| "sound_args (Op_remint io k) = (ki_random io \<noteq> [])"
| "sound_args _ = True"

fun save_of :: "cred_op \<Rightarrow> save_fate" where
  "save_of (Op_mint io k g) = ki_save io"
| "save_of (Op_enroll io k secret g) = ki_save io"
| "save_of (Op_remint io k) = ki_save io"
| "save_of (Op_forget fate k) = fate"
| "save_of (Op_restart decoy) = Saved"

fun with_save :: "save_fate \<Rightarrow> cred_op \<Rightarrow> cred_op" where
  "with_save f (Op_mint io k g) = Op_mint (io\<lparr>ki_save := f\<rparr>) k g"
| "with_save f (Op_enroll io k secret g) = Op_enroll (io\<lparr>ki_save := f\<rparr>) k secret g"
| "with_save f (Op_remint io k) = Op_remint (io\<lparr>ki_save := f\<rparr>) k"
| "with_save f (Op_forget fate k) = Op_forget f k"
| "with_save f (Op_restart decoy) = Op_restart decoy"

section \<open>The file\<close>

definition disk :: "cred_store \<Rightarrow> (bytes, cred_record) gomap" where
  "disk s = load_peers (deref_or (ct_file s) [])"

definition recs_ok :: "(bytes, cred_record) gomap \<Rightarrow> bool" where
  "recs_ok m = (distinct (map fst m) \<and>
     (\<forall>k r. map_of m k = Some r \<longrightarrow> k \<noteq> [] \<and> cr_PeerID r = k \<and> file_record r = r))"

lemma recs_ok_Nil [simp]: "recs_ok []"
  by (simp add: recs_ok_def)

lemma recs_ok_update:
  "recs_ok m \<Longrightarrow> k \<noteq> [] \<Longrightarrow> cr_PeerID r = k \<Longrightarrow> file_record r = r \<Longrightarrow> recs_ok (AList.update k r m)"
  by (auto simp: recs_ok_def AList.update_conv' distinct_update)

lemma recs_ok_delete: "recs_ok m \<Longrightarrow> recs_ok (AList.delete k m)"
  by (auto simp: recs_ok_def AList.delete_conv' distinct_delete split: if_splits)

lemma recs_okD:
  assumes "recs_ok m" "map_of m k = Some r"
  shows "k \<noteq> []" "cr_PeerID r = k" "file_record r = r"
  using assms by (auto simp: recs_ok_def)

lemma load_peers_map_of:
  assumes "\<forall>r \<in> set rs. cr_PeerID r \<noteq> []"
  shows "map_of (fold (\<lambda>r m. if cr_PeerID r = [] then m else AList.update (cr_PeerID r) r m) rs m) =
           map_of m ++ map_of (rev (map (\<lambda>r. (cr_PeerID r, r)) rs))"
  using assms by (induction rs arbitrary: m) (auto simp: AList.update_conv')

lemma load_peers_distinct: "distinct (map fst (load_peers rs))"
proof -
  have "distinct (map fst m) \<Longrightarrow>
      distinct (map fst (fold (\<lambda>r m. if cr_PeerID r = [] then m else AList.update (cr_PeerID r) r m) rs m))" for m
    by (induction rs arbitrary: m) (auto simp: distinct_update)
  then show ?thesis by (simp add: load_peers_def)
qed

lemma map_of_rev_distinct: "distinct (map fst xs) \<Longrightarrow> map_of (rev xs) = map_of xs"
  by (rule map_of_inject_set [THEN iffD2]) (simp_all add: rev_map [symmetric])

lemma saved_map:
  assumes "recs_ok m"
  shows "map_of (load_peers (map (\<lambda>k. file_record (the (map_of m k))) (sort_by bytes_less (map fst m)))) = map_of m"
proof -
  let ?keys = "sort_by bytes_less (map fst m)" and ?rec = "\<lambda>k. the (map_of m k)"
  have keys: "set ?keys = dom (map_of m)" by (simp add: sort_by_set dom_map_of_conv_image_fst)
  have rec: "cr_PeerID (?rec k) = k \<and> k \<noteq> [] \<and> file_record (?rec k) = ?rec k" if "k \<in> set ?keys" for k
    using that assms keys by (auto simp: recs_ok_def)
  have "distinct ?keys"
    using assms by (metis recs_ok_def mset_eq_imp_distinct_iff sort_by_mset)
  moreover have pairs: "map (\<lambda>r. (cr_PeerID r, r)) (map (\<lambda>k. file_record (?rec k)) ?keys) = map (\<lambda>k. (k, ?rec k)) ?keys"
    using rec by simp
  ultimately have "map_of (load_peers (map (\<lambda>k. file_record (?rec k)) ?keys)) = map_of (map (\<lambda>k. (k, ?rec k)) ?keys)"
    unfolding load_peers_def using rec
    by (subst load_peers_map_of) (simp_all only: pairs map_of_rev_distinct map_of.simps, auto simp: comp_def map_of_rev_distinct)
  also have "\<dots> = map_of m"
    using keys by (auto simp: map_of_map_restrict restrict_map_def fun_eq_iff)
  finally show ?thesis .
qed

end
