(* ===== verification/CredentialProps.thy ===== *)
theory CredentialProps imports CredentialRun begin

text \<open>
  The invariant of the credential store: in memory and in the file there is the same map, and it is the map of
  what was handed out.  Every operation whose save ends cleanly keeps it.
\<close>

section \<open>The invariant\<close>

definition kept_as :: "(bytes \<Rightarrow> bytes) \<Rightarrow> cred_record \<Rightarrow> issued \<Rightarrow> bool" where
  "kept_as sha r i = (cr_Grant r = is_grant i \<and> cr_Salt r = EncodeToString (is_salt i) \<and>
     cr_Verifier r = EncodeToString (salted sha (is_salt i) (is_secret i)) \<and> ValidGrant (is_grant i) \<and>
     CHR ''.'' \<notin> set (is_secret i) \<and> is_secret i \<noteq> [])"

definition peers_ok :: "(bytes \<Rightarrow> bytes) \<Rightarrow> issued_map \<Rightarrow> (bytes, cred_record) gomap \<Rightarrow> bool" where
  "peers_ok sha A m = (recs_ok m \<and> (\<forall>k. rel_option (kept_as sha) (map_of m k) (A k)))"

definition store_ok :: "(bytes \<Rightarrow> bytes) \<Rightarrow> issued_map \<Rightarrow> cred_store \<Rightarrow> bool" where
  "store_ok sha A s = (ct_path s \<and> peers_ok sha A (ct_peers s) \<and> peers_ok sha A (disk s))"

lemma cred_simps [simp]:
  "ct_path (set_peer k r s) = ct_path s" "ct_peers (set_peer k r s) = AList.update k r (ct_peers s)"
  "ct_file (set_peer k r s) = ct_file s" "ct_path (del_peer k s) = ct_path s"
  "ct_peers (del_peer k s) = AList.delete k (ct_peers s)" "ct_file (del_peer k s) = ct_file s"
  "disk (set_peer k r s) = disk s" "disk (del_peer k s) = disk s"
  by (simp_all add: set_peer_def del_peer_def disk_def)

lemma peers_ok_lookup:
  assumes "peers_ok sha A m"
  shows "map_of m k = None \<longleftrightarrow> A k = None"
    "map_of m k = Some r \<Longrightarrow> \<exists>i. A k = Some i \<and> kept_as sha r i"
    "A k = Some i \<Longrightarrow> \<exists>r. map_of m k = Some r \<and> kept_as sha r i"
proof -
  have "rel_option (kept_as sha) (map_of m k) (A k)" using assms by (simp add: peers_ok_def)
  then show "map_of m k = None \<longleftrightarrow> A k = None" "map_of m k = Some r \<Longrightarrow> \<exists>i. A k = Some i \<and> kept_as sha r i"
    "A k = Some i \<Longrightarrow> \<exists>r. map_of m k = Some r \<and> kept_as sha r i"
    by (auto elim: option.rel_cases)
qed

lemma peers_ok_none: "peers_ok sha A m \<Longrightarrow> A k = None \<Longrightarrow> map_of m k = None"
  by (simp add: peers_ok_lookup(1))

lemma peers_ok_cong:
  assumes "peers_ok sha A m" "map_of m' = map_of m" "distinct (map fst m')"
  shows "peers_ok sha A m'"
  using assms by (simp add: peers_ok_def recs_ok_def)

lemma disk_distinct: "distinct (map fst (disk s))"
  by (simp add: disk_def load_peers_distinct)

lemma peers_okD [dest]: "peers_ok sha A m \<Longrightarrow> recs_ok m"
  by (simp add: peers_ok_def)

lemma peers_ok_update:
  assumes "peers_ok sha A m" "k \<noteq> []" "cr_PeerID r = k" "file_record r = r" "kept_as sha r i"
  shows "peers_ok sha (A(k \<mapsto> i)) (AList.update k r m)"
  using assms by (auto simp: peers_ok_def recs_ok_update AList.update_conv')

lemma peers_ok_delete:
  assumes "peers_ok sha A m"
  shows "peers_ok sha (A(k := None)) (AList.delete k m)"
  using assms by (auto simp: peers_ok_def recs_ok_delete AList.delete_conv')

text \<open>The record of what is handed out now.\<close>

lemma new_record_ok:
  assumes "coerce_utf8 k = k" "ValidGrant g"
  shows "cr_PeerID (new_record sha io k secret g) = k"
    "file_record (new_record sha io k secret g) = new_record sha io k secret g"
    "CHR ''.'' \<notin> set secret \<Longrightarrow> secret \<noteq> [] \<Longrightarrow> kept_as sha (new_record sha io k secret g) (handed io secret g)"
  using assms by (simp_all add: new_record_def file_record_def kept_as_def handed_def coerce_encoded coerce_grant)

lemma minted_ok: "random \<noteq> [] \<Longrightarrow> CHR ''.'' \<notin> set (MintSecret random) \<and> MintSecret random \<noteq> []"
  by (simp add: MintSecret_def encode_facts)

section \<open>Saving\<close>

text \<open>What a save leaves: with \<open>Save_failed\<close> the old file, otherwise the file of the peers.\<close>

lemma save_cases:
  assumes "ct_path s" "peers_ok sha A (ct_peers s)" "peers_ok sha B (disk s)"
  obtains s1 where "saveLocked fate s = (fate = Saved, s1)" "ct_path s1" "ct_peers s1 = ct_peers s"
    "peers_ok sha (if fate = Save_failed then B else A) (disk s1)"
proof -
  let ?s = "s\<lparr>ct_file := Some (map (\<lambda>k. file_record (the (map_of (ct_peers s) k))) (cred_PeerIDs s))\<rparr>"
  have "map_of (disk ?s) = map_of (ct_peers s)"
    using saved_map [OF peers_okD [OF assms(2)]] by (simp add: disk_def cred_PeerIDs_def)
  then have new: "peers_ok sha A (disk ?s)" by (rule peers_ok_cong [OF assms(2) _ disk_distinct])
  show ?thesis
  proof (cases fate)
    case Saved
    with assms(1) new show ?thesis by (intro that [of ?s]) (simp_all add: saveLocked_def)
  next
    case Save_failed
    with assms show ?thesis by (intro that [of s]) (simp_all add: saveLocked_def)
  next
    case Save_unsynced
    with assms(1) new show ?thesis by (intro that [of ?s]) (simp_all add: saveLocked_def)
  qed
qed

text \<open>A new identity: in memory exactly when the save succeeded.\<close>

lemma store_record_cases:
  assumes "ct_path s" "peers_ok sha A (ct_peers s)" "peers_ok sha B (disk s)" "A k = None"
    "k \<noteq> []" "cr_PeerID r = k" "file_record r = r" "kept_as sha r i"
  obtains s1 where "store_record fate k r s = (fate = Saved, s1)" "ct_path s1"
    "peers_ok sha (if fate = Saved then A(k \<mapsto> i) else A) (ct_peers s1)"
    "peers_ok sha (if fate = Save_failed then B else A(k \<mapsto> i)) (disk s1)"
proof -
  have put: "peers_ok sha (A(k \<mapsto> i)) (ct_peers (set_peer k r s))"
    using assms by (simp add: peers_ok_update)
  have same: "ct_path (set_peer k r s)" "peers_ok sha B (disk (set_peer k r s))" using assms(1,3) by simp_all
  obtain s1 where s1: "saveLocked fate (set_peer k r s) = (fate = Saved, s1)" "ct_path s1"
    "ct_peers s1 = ct_peers (set_peer k r s)" "peers_ok sha (if fate = Save_failed then B else A(k \<mapsto> i)) (disk s1)"
    by (rule save_cases [OF same(1) put same(2), of fate])
  have undo: "peers_ok sha A (AList.delete k (ct_peers s1))"
    using peers_ok_delete [OF put, of k] assms(4) by (simp add: s1(3) fun_upd_idem)
  show ?thesis
  proof (cases "fate = Saved")
    case True
    with s1 put show ?thesis by (intro that [of s1]) (simp_all add: store_record_def)
  next
    case False
    with s1 undo show ?thesis by (intro that [of "del_peer k s1"]) (simp_all add: store_record_def)
  qed
qed

section \<open>Operations\<close>

text \<open>What an operation leaves in memory and in the file: \<open>A\<close> stands for the map before, \<open>B\<close> for what the
  operation makes of it when it is saved.\<close>

definition outcome ::
  "(bytes \<Rightarrow> bytes) \<Rightarrow> save_fate \<Rightarrow> issued_map \<Rightarrow> issued_map \<Rightarrow> cred_answer \<Rightarrow> cred_answer \<times> cred_store \<Rightarrow> bool"
where
  "outcome sha fate A B a p =
     (fst p = (if fate = Saved then a else Refused Not_saved) \<and> ct_path (snd p) \<and>
      peers_ok sha (if fate = Saved then B else A) (ct_peers (snd p)) \<and>
      peers_ok sha (if fate = Save_failed then A else B) (disk (snd p)))"

lemma unchanged: "store_ok sha A s \<Longrightarrow> outcome sha Saved A A a (a, s)"
  by (simp add: outcome_def store_ok_def)

lemma record_match:
  assumes "kept_as sha r i"
  shows "recordMatches sha r secret = same_secret sha i secret" "cr_Grant r = is_grant i"
  using assms by (simp_all add: recordMatches_def kept_as_def decode_encode same_secret_def)

lemma put_outcome:
  assumes "store_ok sha A s" "A k = None" "k \<noteq> []" "valid_utf8 k" "ValidGrant g"
    "CHR ''.'' \<notin> set secret" "secret \<noteq> []"
  obtains s1 where "store_record (ki_save io) k (new_record sha io k secret g) s = (ki_save io = Saved, s1)"
    "ct_path s1" "peers_ok sha (if ki_save io = Saved then A(k \<mapsto> handed io secret g) else A) (ct_peers s1)"
    "peers_ok sha (if ki_save io = Save_failed then A else A(k \<mapsto> handed io secret g)) (disk s1)"
proof -
  note ok = new_record_ok [OF coerce_utf8_valid [OF assms(4)] assms(5), where sha = sha and io = io and secret = secret]
  have s: "ct_path s" "peers_ok sha A (ct_peers s)" "peers_ok sha A (disk s)"
    using assms(1) by (simp_all add: store_ok_def)
  show ?thesis
    by (rule store_record_cases [OF s assms(2,3) ok(1,2) ok(3) [OF assms(6,7)], of "ki_save io"]) (rule that)
qed

lemma mint_outcome:
  assumes "store_ok sha A s" "A k = None" "k \<noteq> []" "valid_utf8 k" "ValidGrant g" "ki_random io \<noteq> []"
  shows "outcome sha (ki_save io) A (A(k \<mapsto> handed io (MintSecret (ki_random io)) g))
           (Secret (MintSecret (ki_random io))) (cred_answer_of Secret (mintLocked sha io k g s))"
proof -
  let ?secret = "MintSecret (ki_random io)"
  have none: "map_of (ct_peers s) k = None"
    using assms(1,2) by (simp add: store_ok_def peers_ok_lookup(1) [of sha A])
  obtain s1 where "store_record (ki_save io) k (new_record sha io k ?secret g) s = (ki_save io = Saved, s1)"
    "ct_path s1" "peers_ok sha (if ki_save io = Saved then A(k \<mapsto> handed io ?secret g) else A) (ct_peers s1)"
    "peers_ok sha (if ki_save io = Save_failed then A else A(k \<mapsto> handed io ?secret g)) (disk s1)"
    using put_outcome [OF assms(1-5) conjunct1 conjunct2, OF minted_ok [OF assms(6)] minted_ok [OF assms(6)]] by blast
  with none assms(3,5) show ?thesis
    by (cases "ki_save io") (simp_all add: outcome_def mintLocked_def cred_answer_of_def Let_def)
qed

lemma enroll_outcome:
  assumes "store_ok sha A s" "A k = None" "k \<noteq> []" "valid_utf8 k" "ValidGrant g" "ValidSecret secret = None"
  shows "outcome sha (ki_save io) A (A(k \<mapsto> handed io secret g)) (Enrolled True)
           (cred_answer_of Enrolled (Enroll sha io k secret g s))"
proof -
  have none: "map_of (ct_peers s) k = None"
    using assms(1,2) by (simp add: store_ok_def peers_ok_lookup(1) [of sha A])
  obtain s1 where "store_record (ki_save io) k (new_record sha io k secret g) s = (ki_save io = Saved, s1)"
    "ct_path s1" "peers_ok sha (if ki_save io = Saved then A(k \<mapsto> handed io secret g) else A) (ct_peers s1)"
    "peers_ok sha (if ki_save io = Save_failed then A else A(k \<mapsto> handed io secret g)) (disk s1)"
    using put_outcome [OF assms(1-5) valid_secret [OF assms(6)]] by blast
  with none assms(3,5,6) show ?thesis
    by (cases "ki_save io") (simp_all add: outcome_def Enroll_def cred_answer_of_def)
qed

lemma remint_outcome:
  assumes "store_ok sha A s" "A k = Some i" "ki_random io \<noteq> []"
  shows "outcome sha (ki_save io) A (A(k \<mapsto> handed io (MintSecret (ki_random io)) (is_grant i)))
           (Secret (MintSecret (ki_random io))) (cred_answer_of Secret (Remint sha io k s))"
proof -
  let ?secret = "MintSecret (ki_random io)" and ?A = "A(k := None)"
  obtain r where r: "map_of (ct_peers s) k = Some r" "kept_as sha r i"
    using peers_ok_lookup(3) [of sha A "ct_peers s"] assms(1,2) by (auto simp: store_ok_def)
  have "recs_ok (ct_peers s)" using assms(1) by (auto simp: store_ok_def)
  note rec = recs_okD [OF this r(1)]
  have "coerce_utf8 (cr_PeerID r) = cr_PeerID (file_record r)" by (simp add: file_record_def)
  with rec r(2) have id_ok: "k \<noteq> []" "cr_PeerID r = k" "file_record r = r" "coerce_utf8 k = k" "ValidGrant (is_grant i)"
    by (simp_all add: kept_as_def)
  let ?r = "new_record sha io k ?secret (is_grant i)"
  note new = new_record_ok [OF id_ok(4,5), where sha = sha and io = io and secret = ?secret]
  have d: "ct_path (del_peer k s)" "peers_ok sha ?A (ct_peers (del_peer k s))" "peers_ok sha A (disk (del_peer k s))"
    using assms(1) by (simp_all add: store_ok_def peers_ok_delete)
  obtain s1 where s1: "store_record (ki_save io) k ?r (del_peer k s) = (ki_save io = Saved, s1)"
    "ct_path s1" "peers_ok sha (if ki_save io = Saved then ?A(k \<mapsto> handed io ?secret (is_grant i)) else ?A) (ct_peers s1)"
    "peers_ok sha (if ki_save io = Save_failed then A else ?A(k \<mapsto> handed io ?secret (is_grant i))) (disk s1)"
    using store_record_cases [OF d _ id_ok(1) new(1,2) new(3) [OF conjunct1 conjunct2, OF minted_ok minted_ok], of "ki_save io"]
      assms(3) by auto
  have restored: "peers_ok sha A (AList.update k r (ct_peers s1))" if "ki_save io \<noteq> Saved"
    using peers_ok_update [of sha ?A "ct_peers s1" k r i] s1(3) that id_ok r(2) assms(2) by (simp add: fun_upd_idem)
  have none: "map_of (ct_peers (del_peer k s)) k = None" by (simp add: AList.delete_conv')
  from r s1 none restored id_ok(1,5) show ?thesis
    by (cases "ki_save io")
      (simp_all add: outcome_def Remint_def mintLocked_def cred_answer_of_def Let_def kept_as_def)
qed

lemma forget_outcome:
  assumes "store_ok sha A s" "A k = Some i"
  shows "outcome sha fate A (A(k := None)) Done
           (case Forget fate k s of (None, s1) \<Rightarrow> (Done, s1) | (Some e, s1) \<Rightarrow> (Refused e, s1))"
proof -
  obtain r where r: "map_of (ct_peers s) k = Some r" "kept_as sha r i"
    using peers_ok_lookup(3) [of sha A "ct_peers s"] assms by (auto simp: store_ok_def)
  have "recs_ok (ct_peers s)" using assms(1) by (auto simp: store_ok_def)
  note rec = recs_okD [OF this r(1)]
  have d: "ct_path (del_peer k s)" "peers_ok sha (A(k := None)) (ct_peers (del_peer k s))"
    "peers_ok sha A (disk (del_peer k s))"
    using assms(1) by (simp_all add: store_ok_def peers_ok_delete)
  obtain s1 where s1: "saveLocked fate (del_peer k s) = (fate = Saved, s1)" "ct_path s1"
    "ct_peers s1 = ct_peers (del_peer k s)" "peers_ok sha (if fate = Save_failed then A else A(k := None)) (disk s1)"
    by (rule save_cases [OF d, of fate])
  have "peers_ok sha A (AList.update k r (ct_peers s1))"
    using peers_ok_update [OF d(2) rec r(2)] s1(3) assms(2) by (simp add: fun_upd_idem)
  with r s1 d(2) show ?thesis by (cases fate) (simp_all add: outcome_def Forget_def)
qed

lemma restart_outcome:
  assumes "ct_path s" "peers_ok sha A (disk s)"
  shows "outcome sha Saved B A Done (cred_step sha (Op_restart decoy) s)"
proof (cases "ct_file s")
  case None
  with assms show ?thesis by (simp add: outcome_def OpenStore_def disk_def load_peers_def)
next
  case (Some rs)
  with assms show ?thesis by (simp add: outcome_def OpenStore_def disk_def)
qed

section \<open>Steps and runs\<close>

text \<open>The specification of an operation against the one whose save succeeds.\<close>

lemma spec_fates:
  "save_of p = Saved \<Longrightarrow> with_save Saved p = p"
  "spec_step sha p A = (Refused e, B) \<Longrightarrow> B = A"
  by (cases p; auto simp: spec_put_def split: if_splits option.splits)+

lemma step_outcome:
  assumes "store_ok sha A s" "sound_args p"
  shows "fst (cred_step sha p s) = fst (spec_step sha p A) \<and> ct_path (snd (cred_step sha p s)) \<and>
    peers_ok sha (snd (spec_step sha p A)) (ct_peers (snd (cred_step sha p s))) \<and>
    peers_ok sha (if save_of p = Save_failed then A else snd (spec_step sha (with_save Saved p) A))
      (disk (snd (cred_step sha p s)))"
proof (cases p)
  case p: (Op_mint io k g)
  have none: "map_of (ct_peers s) k = None \<longleftrightarrow> A k = None"
    using assms(1) by (simp add: store_ok_def peers_ok_lookup(1) [of sha A])
  show ?thesis
  proof (cases "k = [] \<or> \<not> ValidGrant g \<or> A k \<noteq> None")
    case True
    with none assms(1) show ?thesis by (auto simp: p mintLocked_def cred_answer_of_def store_ok_def)
  next
    case False
    with mint_outcome [OF assms(1), of k g io] assms(2) show ?thesis
      by (cases "ki_save io") (simp_all add: p outcome_def spec_put_def handed_def)
  qed
next
  case p: (Op_enroll io k secret g)
  show ?thesis
  proof (cases "k = [] \<or> \<not> ValidGrant g \<or> ValidSecret secret \<noteq> None")
    case True
    with assms(1) show ?thesis by (auto simp: p Enroll_def cred_answer_of_def store_ok_def split: option.splits)
  next
    case valid: False
    show ?thesis
    proof (cases "A k")
      case None
      with enroll_outcome [OF assms(1), of k g secret io] assms(2) valid show ?thesis
        by (cases "ki_save io") (simp_all add: p outcome_def spec_put_def handed_def)
    next
      case (Some i)
      then obtain r where r: "map_of (ct_peers s) k = Some r" "kept_as sha r i"
        using peers_ok_lookup(3) [of sha A "ct_peers s"] assms(1) by (auto simp: store_ok_def)
      with Some valid assms(1) show ?thesis
        by (auto simp: p Enroll_def cred_answer_of_def store_ok_def record_match [OF r(2)])
    qed
  qed
next
  case p: (Op_remint io k)
  show ?thesis
  proof (cases "A k")
    case None
    with assms(1) show ?thesis
      by (simp add: p Remint_def cred_answer_of_def store_ok_def peers_ok_none [of sha A])
  next
    case (Some i)
    with remint_outcome [OF assms(1) Some, of io] assms(2) show ?thesis
      by (cases "ki_save io") (simp_all add: p outcome_def spec_put_def handed_def)
  qed
next
  case p: (Op_forget fate k)
  show ?thesis
  proof (cases "A k")
    case None
    with assms(1) show ?thesis by (simp add: p Forget_def store_ok_def peers_ok_none [of sha A])
  next
    case (Some i)
    with forget_outcome [OF assms(1) Some, of fate] show ?thesis
      by (cases fate) (simp_all add: p outcome_def spec_put_def)
  qed
next
  case p: (Op_restart decoy)
  then show ?thesis using restart_outcome [of s sha A] assms(1) by (simp add: outcome_def store_ok_def)
qed

lemma cred_step_ok:
  assumes "store_ok sha A s" "sound_args p" "save_of p \<noteq> Save_unsynced"
  shows "fst (cred_step sha p s) = fst (spec_step sha p A)"
    "store_ok sha (snd (spec_step sha p A)) (snd (cred_step sha p s))"
proof -
  have same: "(if save_of p = Save_failed then A else snd (spec_step sha (with_save Saved p) A)) = snd (spec_step sha p A)"
    using assms(3) spec_fates(1) [of p]
    by (cases "save_of p"; cases p) (auto simp: spec_put_def handed_def split: option.splits)
  show "fst (cred_step sha p s) = fst (spec_step sha p A)"
    "store_ok sha (snd (spec_step sha p A)) (snd (cred_step sha p s))"
    using step_outcome [OF assms(1,2)] unfolding same by (simp_all add: store_ok_def)
qed

lemma run_ok:
  assumes "store_ok sha A s" "\<forall>p \<in> set ps. sound_args p \<and> save_of p \<noteq> Save_unsynced"
  shows "fst (cred_run sha ps s) = fst (spec_run sha ps A) \<and>
    store_ok sha (snd (spec_run sha ps A)) (snd (cred_run sha ps s))"
  using assms
proof (induction ps arbitrary: A s)
  case (Cons p ps)
  note step = cred_step_ok [OF Cons.prems(1), of p]
  have "fst (cred_run sha ps (snd (cred_step sha p s))) = fst (spec_run sha ps (snd (spec_step sha p A))) \<and>
      store_ok sha (snd (spec_run sha ps (snd (spec_step sha p A)))) (snd (cred_run sha ps (snd (cred_step sha p s))))"
    using Cons.IH [OF step(2)] Cons.prems(2) by simp
  with step(1) Cons.prems(2) show ?case by (simp add: case_prod_unfold Let_def)
qed simp

lemma fresh_store_ok: "OpenStore True decoy True None = Some s \<Longrightarrow> store_ok sha Map.empty s"
  by (auto simp: OpenStore_def store_ok_def peers_ok_def disk_def load_peers_def)

text \<open>A store that keeps \<open>A\<close> answers as \<open>A\<close> does, and lets every holder in.\<close>

lemma verify_spec:
  assumes "peers_ok sha A (ct_peers s)"
  shows "Verify sha credential s = spec_verify sha A credential"
proof (cases "Split credential")
  case None
  then show ?thesis by (cases "map_of (ct_peers s) []") (simp_all add: Verify_def spec_verify_def Let_def)
next
  case (Some p)
  obtain k secret where p: "p = (k, secret)" by (cases p)
  show ?thesis
  proof (cases "A k")
    case None
    with Some p show ?thesis
      by (simp add: Verify_def spec_verify_def Let_def peers_ok_none [OF assms])
  next
    case i: (Some i)
    then obtain r where r: "map_of (ct_peers s) k = Some r" "kept_as sha r i"
      using peers_ok_lookup(3) [OF assms] by blast
    then show ?thesis using Some p i
      by (simp add: Verify_def spec_verify_def Let_def kept_as_def decode_encode same_secret_def)
  qed
qed

lemma holder_gets_in:
  assumes "peers_ok sha A (ct_peers s)" "A k = Some i"
  shows "Verify sha (Join k (is_secret i)) s = Some (k, is_grant i)"
proof -
  obtain r where r: "map_of (ct_peers s) k = Some r" "kept_as sha r i"
    using peers_ok_lookup(3) [OF assms] by blast
  then have "k \<noteq> []" using recs_okD(1) [OF peers_okD [OF assms(1)]] by blast
  with r(2) assms(2) show ?thesis
    by (simp add: verify_spec [OF assms(1)] spec_verify_def split_join kept_as_def same_secret_def)
qed

end
