(* ===== verification/AdminProps.thy ===== *)
theory AdminProps imports Admin CredentialProps begin

text \<open>
  Runs of the operator's path.  What stands in the token table was reported and not used since; an act that is
  applied was reported under its token, for the ring as it still is.
\<close>

section \<open>Runs\<close>

text \<open>\<open>Ev_other\<close>: whatever the rest of the relay made of the registry, the credentials and the evictions.\<close>

datatype admin_event =
    Ev_report admin_io bytes admin_act "admin_request option" bytes
  | Ev_confirm admin_io bytes admin_act "admin_request option"
  | Ev_other registry cred_store "(bytes, eviction) gomap"

fun admin_step :: "admin_env \<Rightarrow> admin_event \<Rightarrow> admin \<Rightarrow> admin" where
  "admin_step env (Ev_report io auth act body token) s = snd (adminReport env io auth act body token s)"
| "admin_step env (Ev_confirm io auth act body) s = snd (adminConfirm env io auth act body s)"
| "admin_step env (Ev_other r c e) s = s\<lparr>ad_reg := r, ad_creds := c, ad_evictions := e\<rparr>"

definition admin_run :: "admin_env \<Rightarrow> admin_event list \<Rightarrow> admin \<Rightarrow> admin" where
  "admin_run env es s = fold (admin_step env) es s"

text \<open>An authorised confirmation that names the token, and the steps that hold none.\<close>

fun uses_token :: "admin_env \<Rightarrow> bytes \<Rightarrow> admin_event \<Rightarrow> admin \<Rightarrow> bool" where
  "uses_token env token (Ev_confirm io auth act (Some req)) s =
     (ar_ConfirmToken req = token \<and> (case adminGrant env auth s of Inl _ \<Rightarrow> False | Inr _ \<Rightarrow> True))"
| "uses_token env token _ s = False"

fun unused :: "admin_env \<Rightarrow> bytes \<Rightarrow> admin_event list \<Rightarrow> admin \<Rightarrow> bool" where
  "unused env token [] s = True"
| "unused env token (e # es) s = (\<not> uses_token env token e s \<and> unused env token es (admin_step env e s))"

lemma admin_run_simps [simp]:
  "admin_run env [] s = s" "admin_run env (e # es) s = admin_run env es (admin_step env e s)"
  "admin_run env (es @ fs) s = admin_run env fs (admin_run env es s)"
  by (simp_all add: admin_run_def)

lemma unused_snoc: "unused env token (es @ [e]) s \<longleftrightarrow> unused env token es s \<and> \<not> uses_token env token e (admin_run env es s)"
  by (induction es arbitrary: s) auto

section \<open>The token table\<close>

lemma map_of_kept: "distinct (map fst m) \<Longrightarrow> map_of (filter (\<lambda>(_, v). P v) m) k = Some v \<Longrightarrow> map_of m k = Some v \<and> P v"
  by (induction m) (auto split: if_splits simp: map_of_eq_None_iff dest!: map_of_SomeD intro: rev_image_eqI)

lemma distinct_filtered: "distinct (map fst m) \<Longrightarrow> distinct (map fst (filter P m))"
  by (induction m) auto

lemma evictionLocked_frame:
  "ad_tokens (snd (evictionLocked now p s)) = ad_tokens s" "ad_audit (snd (evictionLocked now p s)) = ad_audit s"
  "ad_reg (snd (evictionLocked now p s)) = ad_reg s" "ad_creds (snd (evictionLocked now p s)) = ad_creds s"
  by (simp_all add: evictionLocked_def split: option.split)

lemma consequence_frame:
  assumes "consequence env now act req s = (a, s1)"
  shows "ad_tokens s1 = ad_tokens s" "ad_audit s1 = ad_audit s" "ad_reg s1 = ad_reg s" "ad_creds s1 = ad_creds s"
proof -
  have "s1 = s \<or> s1 = snd (evictionLocked now (trim_space (ar_PeerID req)) s)"
    using assms by (auto simp: consequence_def evict_report_def Let_def split: admin_act.splits if_splits option.splits prod.splits)
  then show "ad_tokens s1 = ad_tokens s" "ad_audit s1 = ad_audit s" "ad_reg s1 = ad_reg s" "ad_creds s1 = ad_creds s"
    by (auto simp: evictionLocked_frame)
qed

lemma sweep_frame [simp]:
  "ad_reg (sweepAdminTokensLocked now s) = ad_reg s" "ad_audit (sweepAdminTokensLocked now s) = ad_audit s"
  "ad_creds (sweepAdminTokensLocked now s) = ad_creds s"
  by (simp_all add: sweepAdminTokensLocked_def)

lemma sweep_tokens:
  assumes "distinct (map fst (ad_tokens s))" "map_of (ad_tokens (sweepAdminTokensLocked now s)) k = Some p"
  shows "map_of (ad_tokens s) k = Some p" "now - ap_createdAt p \<le> adminConfirmTTL"
  using map_of_kept [of "ad_tokens s" "\<lambda>p. now - ap_createdAt p \<le> adminConfirmTTL" k p] assms
  by (simp_all add: sweepAdminTokensLocked_def)

lemma apply_tokens:
  "ad_tokens (snd (applyAdmin env io p operator s)) = ad_tokens s"
  "ad_audit (snd (applyAdmin env io p operator s)) =
     ad_audit (AuditAct env (ap_act p) operator (ap_reason p) (ap_slot p) (ap_peerID p) (ap_newPeerID p) s)"
  by (cases "ap_act p"; simp add: applyAdmin_def Let_def apply_release_def apply_handover_def applyEviction_def
      AuditAct_def split: prod.split sum.split option.split)+

text \<open>A report adds at most its own entry; a confirmation only takes entries out, its own first of all.\<close>

lemma report_tokens:
  assumes "distinct (map fst (ad_tokens s))"
    "map_of (ad_tokens (snd (adminReport env io auth act body token s))) k = Some p"
  shows "map_of (ad_tokens s) k = Some p \<or>
    (\<exists>req rep operator. k = token \<and> body = Some req \<and> adminGrant env auth s = Inr operator \<and>
       fst (adminReport env io auth act body token s) = Inr rep \<and>
       p = pending_of act rep (ar_Reason req) operator (ai_now io))"
proof (cases "adminReport env io auth act body token s")
  case (Pair a s1)
  show ?thesis
  proof (cases "\<exists>operator req rep s'. adminGrant env auth s = Inr operator \<and> body = Some req \<and>
      trim_space (ar_Reason req) \<noteq> [] \<and> consequence env (ai_now io) act req s = (Inr rep, s')")
    case True
    then obtain operator req rep s' where r: "adminGrant env auth s = Inr operator" "body = Some req"
      "trim_space (ar_Reason req) \<noteq> []" "consequence env (ai_now io) act req s = (Inr rep, s')" by blast
    let ?s2 = "sweepAdminTokensLocked (ai_now io) s'"
    have out: "adminReport env io auth act body token s = (Inr (rep\<lparr>rp_ConfirmToken := token\<rparr>),
        ?s2\<lparr>ad_tokens := AList.update token (pending_of act rep (ar_Reason req) operator (ai_now io)) (ad_tokens ?s2)\<rparr>)"
      using r by (simp add: adminReport_def Let_def)
    have "pending_of act (rep\<lparr>rp_ConfirmToken := token\<rparr>) (ar_Reason req) operator (ai_now io) =
        pending_of act rep (ar_Reason req) operator (ai_now io)"
      by (simp add: pending_of_def adminUntil_def)
    moreover have "ad_tokens s' = ad_tokens s" by (rule consequence_frame(1) [OF r(4)])
    ultimately show ?thesis
      using assms out r sweep_tokens(1) [of s' "ai_now io" k p] by (auto simp: AList.update_conv' split: if_splits)
  next
    case False
    then have "ad_tokens s1 = ad_tokens s"
      using Pair consequence_frame(1)
      by (auto simp: adminReport_def Let_def split: sum.splits option.splits if_splits prod.splits)
    with Pair assms(2) show ?thesis by simp
  qed
qed

lemma distinct_steps:
  assumes "distinct (map fst (ad_tokens s))"
  shows "distinct (map fst (ad_tokens (admin_step env e s)))"
proof (cases e)
  case e: (Ev_report io auth act body token)
  have "distinct (map fst (ad_tokens (sweepAdminTokensLocked now s1)))" if "ad_tokens s1 = ad_tokens s" for now s1
    using assms that by (simp add: sweepAdminTokensLocked_def distinct_filtered)
  with assms consequence_frame(1) show ?thesis
    by (auto simp: e adminReport_def Let_def distinct_update split: sum.split option.split prod.split)
next
  case e: (Ev_confirm io auth act body)
  have "distinct (map fst (ad_tokens (sweepAdminTokensLocked now s)))" for now
    using assms by (simp add: sweepAdminTokensLocked_def distinct_filtered)
  with assms show ?thesis
    by (auto simp: e adminConfirm_def Let_def distinct_delete apply_tokens split: sum.split option.split)
next
  case (Ev_other r c x)
  with assms show ?thesis by simp
qed

lemma confirm_tokens:
  assumes "distinct (map fst (ad_tokens s))"
    "map_of (ad_tokens (snd (adminConfirm env io auth act body s))) k = Some p"
  shows "map_of (ad_tokens s) k = Some p" "\<not> uses_token env k (Ev_confirm io auth act body) s"
proof -
  let ?s1 = "sweepAdminTokensLocked (ai_now io) s"
  have "map_of (ad_tokens s) k = Some p \<and> \<not> uses_token env k (Ev_confirm io auth act body) s"
  proof (cases "\<exists>operator req. adminGrant env auth s = Inr operator \<and> body = Some req")
    case True
    then obtain operator req where r: "adminGrant env auth s = Inr operator" "body = Some req" by blast
    show ?thesis
    proof (cases "map_of (ad_tokens ?s1) (ar_ConfirmToken req)")
      case None
      with r assms sweep_tokens(1) [OF assms(1), of "ai_now io" k p] show ?thesis
        by (auto simp: adminConfirm_def Let_def)
    next
      case (Some q)
      have "ad_tokens (snd (adminConfirm env io auth act body s)) = AList.delete (ar_ConfirmToken req) (ad_tokens ?s1)"
        using r Some by (simp add: adminConfirm_def Let_def apply_tokens)
      with assms(2) sweep_tokens(1) [OF assms(1), of "ai_now io" k p] r show ?thesis
        by (auto simp: AList.delete_conv' split: if_splits)
    qed
  next
    case False
    then have same: "snd (adminConfirm env io auth act body s) = s"
      by (auto simp: adminConfirm_def split: sum.splits option.splits)
    have "\<not> uses_token env k (Ev_confirm io auth act body) s" using False by (cases body) (auto split: sum.splits)
    with assms(2) same show ?thesis by simp
  qed
  then show "map_of (ad_tokens s) k = Some p" "\<not> uses_token env k (Ev_confirm io auth act body) s" by simp_all
qed

lemma confirm_audited:
  assumes "adminConfirm env io auth act (Some req) s = (out, s')" "ad_audit s' \<noteq> ad_audit s" "distinct (map fst (ad_tokens s))"
  obtains operator p s2 where "adminGrant env auth s = Inr operator"
    "map_of (ad_tokens s) (ar_ConfirmToken req) = Some p" "ai_now io - ap_createdAt p \<le> adminConfirmTTL" "ap_act p = act"
    "ap_ringHash p = ringStateHash (ae_sha env) (rg_grid (ad_reg s))" "(out, s') = applyAdmin env io p operator s2"
    "ad_reg s2 = ad_reg s" "ad_audit s2 = ad_audit s"
proof -
  let ?s1 = "sweepAdminTokensLocked (ai_now io) s"
  obtain operator where op: "adminGrant env auth s = Inr operator"
    using assms(1,2) by (auto simp: adminConfirm_def split: sum.splits)
  obtain p where p: "map_of (ad_tokens ?s1) (ar_ConfirmToken req) = Some p"
    using assms(1,2) op by (auto simp: adminConfirm_def Let_def split: option.splits)
  let ?s2 = "?s1\<lparr>ad_tokens := AList.delete (ar_ConfirmToken req) (ad_tokens ?s1)\<rparr>"
  have "ap_act p = act \<and> ap_ringHash p = ringStateHash (ae_sha env) (rg_grid (ad_reg s)) \<and>
      (out, s') = applyAdmin env io p operator ?s2"
    using assms(1,2) op p by (auto simp: adminConfirm_def Let_def split: if_splits)
  with op p sweep_tokens [OF assms(3) p] show ?thesis by (intro that [of operator p ?s2]) simp_all
qed

text \<open>What stands in the table was reported on the way, and not used since.\<close>

definition reported_before :: "admin_env \<Rightarrow> admin \<Rightarrow> admin_event list \<Rightarrow> bytes \<Rightarrow> admin_pending \<Rightarrow> bool" where
  "reported_before env s0 es token p =
     (\<exists>es1 io auth act req rep operator es2. es = es1 @ Ev_report io auth act (Some req) token # es2 \<and>
        fst (adminReport env io auth act (Some req) token (admin_run env es1 s0)) = Inr rep \<and>
        adminGrant env auth (admin_run env es1 s0) = Inr operator \<and>
        p = pending_of act rep (ar_Reason req) operator (ai_now io) \<and>
        unused env token es2 (admin_run env (es1 @ [Ev_report io auth act (Some req) token]) s0))"

lemma reported_later:
  assumes "reported_before env s0 es token p" "\<not> uses_token env token e (admin_run env es s0)"
  shows "reported_before env s0 (es @ [e]) token p"
proof -
  obtain es1 io auth act req rep operator es2 where es: "es = es1 @ Ev_report io auth act (Some req) token # es2"
    and rest: "fst (adminReport env io auth act (Some req) token (admin_run env es1 s0)) = Inr rep"
      "adminGrant env auth (admin_run env es1 s0) = Inr operator"
      "p = pending_of act rep (ar_Reason req) operator (ai_now io)"
      "unused env token es2 (admin_run env (es1 @ [Ev_report io auth act (Some req) token]) s0)"
    using assms(1) unfolding reported_before_def by blast
  have "es @ [e] = es1 @ Ev_report io auth act (Some req) token # (es2 @ [e])" by (simp add: es)
  moreover have "unused env token (es2 @ [e]) (admin_run env (es1 @ [Ev_report io auth act (Some req) token]) s0)"
    using rest(4) assms(2) by (simp add: unused_snoc es)
  ultimately show ?thesis unfolding reported_before_def using rest(1-3) by blast
qed

lemma tokens_reported:
  assumes "ad_tokens s0 = []"
  shows "distinct (map fst (ad_tokens (admin_run env es s0))) \<and>
    (\<forall>k p. map_of (ad_tokens (admin_run env es s0)) k = Some p \<longrightarrow> reported_before env s0 es k p)"
proof (induction es rule: rev_induct)
  case (snoc e es)
  let ?s = "admin_run env es s0"
  have d: "distinct (map fst (ad_tokens ?s))" using snoc by blast
  have "reported_before env s0 (es @ [e]) k p" if "map_of (ad_tokens (admin_step env e ?s)) k = Some p" for k p
  proof (cases e)
    case e: (Ev_report io auth act body token)
    have "map_of (ad_tokens (snd (adminReport env io auth act body token ?s))) k = Some p" using that by (simp add: e)
    from report_tokens [OF d this] show ?thesis
    proof (elim disjE exE conjE)
      assume "map_of (ad_tokens ?s) k = Some p"
      with snoc have "reported_before env s0 es k p" by blast
      then show ?thesis by (rule reported_later) (simp add: e)
    next
      fix req rep operator
      assume "k = token" "body = Some req" "adminGrant env auth ?s = Inr operator"
        "fst (adminReport env io auth act body token ?s) = Inr rep"
        "p = pending_of act rep (ar_Reason req) operator (ai_now io)"
      then show ?thesis unfolding reported_before_def e
        by (intro exI [of _ es] exI [of _ io] exI [of _ auth] exI [of _ act] exI [of _ req] exI [of _ rep]
            exI [of _ operator] exI [of _ "[]"]) simp
    qed
  next
    case e: (Ev_confirm io auth act body)
    have "map_of (ad_tokens (snd (adminConfirm env io auth act body ?s))) k = Some p" using that by (simp add: e)
    note kept = confirm_tokens [OF d this]
    from kept(1) snoc have "reported_before env s0 es k p" by blast
    then show ?thesis by (rule reported_later) (use kept(2) in \<open>simp add: e\<close>)
  next
    case e: (Ev_other r c x)
    with that snoc have "reported_before env s0 es k p" by simp
    then show ?thesis by (rule reported_later) (simp add: e)
  qed
  with distinct_steps [OF d] show ?case by simp
qed (simp add: assms)

end
