(* ===== verification/AdminReports.thy ===== *)
theory AdminReports imports Admin Torus RegistryProps begin

text \<open>
  The reports come true: the holes and the lanes a report names are the holes and the lanes of the map after the
  act, for every other reservation and every edge.
\<close>

section \<open>Lanes\<close>

text \<open>The slot a lane leads to.\<close>

definition lane :: "registry \<Rightarrow> reservation \<Rightarrow> bytes \<Rightarrow> int option" where
  "lane s me edge = map_option res_Slot (fst (Effective (rg_grid s) me edge (deliverableLocked s me)))"

text \<open>The slot it leads to by the report, where it led to \<open>before_act\<close>.\<close>

definition predicted_lane :: "admin_report \<Rightarrow> reservation \<Rightarrow> bytes \<Rightarrow> int option \<Rightarrow> int option" where
  "predicted_lane rep me edge before_act =
     (case find (\<lambda>c. lc_PeerID c = res_PeerID me \<and> lc_Edge c = edge) (rp_LanesChanged rep) of
        None \<Rightarrow> before_act | Some c \<Rightarrow> lc_To c)"

definition came_true :: "admin_report \<Rightarrow> registry \<Rightarrow> registry \<Rightarrow> bool" where
  "came_true rep s s' =
     (grid_Holes (rg_grid s') = rp_HolesAfter rep \<and>
      gr_MaxSlotEverIssued (rg_grid s') = rp_MaxSlotEverIssued rep \<and>
      (\<forall>me \<in> set (gr_Slots (rg_grid s)). res_Slot me \<noteq> rp_Slot rep \<longrightarrow>
         me \<in> set (gr_Slots (rg_grid s')) \<and>
         (\<forall>edge \<in> set CanonicalEdges. lane s' me edge = predicted_lane rep me edge (lane s me edge))))"

text \<open>What a position offers to a lane, and that nothing else decides where it leads.\<close>

definition offered_at :: "grid \<Rightarrow> (reservation \<Rightarrow> bytes) \<Rightarrow> position \<Rightarrow> reservation option" where
  "offered_at g ok p =
     (case At g (po_Col p) (po_Row p) of None \<Rightarrow> None | Some r \<Rightarrow> if ok r = [] then Some r else None)"

lemma loop_offered:
  "fst (effective_loop g ok ps skipped) =
     (case find (\<lambda>p. offered_at g ok p \<noteq> None) ps of None \<Rightarrow> None | Some p \<Rightarrow> offered_at g ok p)"
  by (induction ps arbitrary: skipped) (auto simp: offered_at_def split: option.split)

lemma lane_offered:
  assumes "\<And>p. offered_at g' ok' p = offered_at g ok p" "gr_Width g' = gr_Width g" "gr_Height g' = gr_Height g"
  shows "fst (Effective g' me edge ok') = fst (Effective g me edge ok)"
proof -
  have "offered_at g' ok' = offered_at g ok" using assms(1) by (rule ext)
  then show ?thesis by (simp only: Effective_def Let_def loop_offered assms(2,3))
qed

lemma offered_cong:
  assumes "slots_ok g" "\<And>r. r \<in> set (gr_Slots g) \<Longrightarrow> ok' r = ok r"
  shows "offered_at g ok' p = offered_at g ok p"
proof (cases "At g (po_Col p) (po_Row p)")
  case (Some r)
  then have "r \<in> set (gr_Slots g)" using At_Some [OF assms(1)] by simp
  with Some assms(2) show ?thesis by (simp add: offered_at_def)
qed (simp add: offered_at_def)

text \<open>On a sound map the reported changes are exactly the lanes that led to the reservation.\<close>

definition change_to :: "registry \<Rightarrow> reservation \<Rightarrow> reservation \<Rightarrow> bytes \<Rightarrow> lane_change" where
  "change_to s going r edge =
     \<lparr>lc_PeerID = res_PeerID r, lc_Edge = edge, lc_From = res_Slot going,
      lc_To = map_option res_Slot (fst (Effective (rg_grid s) r edge (deliverableWithoutLocked s r (res_Slot going))))\<rparr>"

lemma lane_change_member:
  "c \<in> set (lane_changes_of s going r edge) \<longleftrightarrow> lane s r edge = Some (res_Slot going) \<and> c = change_to s going r edge"
  by (cases "fst (Effective (rg_grid s) r edge (deliverableLocked s r))")
    (simp_all add: lane_changes_of_def lane_def change_to_def)

lemma change_members:
  "c \<in> set (laneChangesLocked s going) \<longleftrightarrow>
     (\<exists>r \<in> set (gr_Slots (rg_grid s)). \<exists>edge \<in> set CanonicalEdges. res_Slot r \<noteq> res_Slot going \<and>
        lane s r edge = Some (res_Slot going) \<and> c = change_to s going r edge)"
proof -
  have "c \<in> set (laneChangesLocked s going) \<longleftrightarrow>
      (\<exists>r \<in> set (gr_Slots (rg_grid s)). res_Slot r \<noteq> res_Slot going \<and>
         (\<exists>edge \<in> set CanonicalEdges. c \<in> set (lane_changes_of s going r edge)))"
    by (auto simp: laneChangesLocked_def split: if_splits)
  then show ?thesis unfolding lane_change_member by blast
qed

lemma predicted_change:
  assumes "slots_ok (rg_grid s)" "me \<in> set (gr_Slots (rg_grid s))" "edge \<in> set CanonicalEdges"
    "res_Slot me \<noteq> res_Slot going" "rp_LanesChanged rep = laneChangesLocked s going"
  shows "predicted_lane rep me edge (lane s me edge) =
    (if lane s me edge = Some (res_Slot going)
     then map_option res_Slot (fst (Effective (rg_grid s) me edge (deliverableWithoutLocked s me (res_Slot going))))
     else lane s me edge)"
proof -
  have own: "r = me" if "r \<in> set (gr_Slots (rg_grid s))" "res_PeerID r = res_PeerID me" for r
    using that assms(2) slots_okD(6) [OF assms(1)] by (metis distinct_map inj_onD)
  let ?P = "\<lambda>c. lc_PeerID c = res_PeerID me \<and> lc_Edge c = edge"
  show ?thesis
  proof (cases "find ?P (laneChangesLocked s going)")
    case None
    have "lane s me edge \<noteq> Some (res_Slot going)"
    proof
      assume "lane s me edge = Some (res_Slot going)"
      then have "change_to s going me edge \<in> set (laneChangesLocked s going)"
        using assms(2-4) unfolding change_members by blast
      moreover have "?P (change_to s going me edge)" by (simp add: change_to_def)
      ultimately show False using None by (auto simp: find_None_iff)
    qed
    with None show ?thesis by (simp add: predicted_lane_def assms(5))
  next
    case (Some c)
    then have c: "c \<in> set (laneChangesLocked s going)" "?P c" by (auto simp: find_Some_iff)
    from c(1) obtain r edge' where "r \<in> set (gr_Slots (rg_grid s))" "lane s r edge' = Some (res_Slot going)"
      "c = change_to s going r edge'"
      unfolding change_members by blast
    with c(2) own [of r] Some show ?thesis by (auto simp: predicted_lane_def assms(5) change_to_def)
  qed
qed

text \<open>A lane that did not lead to the reservation leads where it led without it.\<close>

lemma first_offer_kept:
  assumes "\<And>p. f' p = f p \<or> f' p = None \<and> (\<exists>r. f p = Some r \<and> res_Slot r = gone)"
    "map_option res_Slot (case find (\<lambda>p. f p \<noteq> None) ps of None \<Rightarrow> None | Some p \<Rightarrow> f p) \<noteq> Some gone"
  shows "(case find (\<lambda>p. f' p \<noteq> None) ps of None \<Rightarrow> None | Some p \<Rightarrow> f' p) =
    (case find (\<lambda>p. f p \<noteq> None) ps of None \<Rightarrow> None | Some p \<Rightarrow> f p)"
  using assms(2)
proof (induction ps)
  case (Cons p ps)
  then show ?case using assms(1) [of p] by (cases "f p") auto
qed simp

lemma lane_without:
  assumes "lane s me edge \<noteq> Some gone"
  shows "map_option res_Slot (fst (Effective (rg_grid s) me edge (deliverableWithoutLocked s me gone))) = lane s me edge"
proof -
  have "offered_at (rg_grid s) (deliverableWithoutLocked s me gone) p = offered_at (rg_grid s) (deliverableLocked s me) p \<or>
      offered_at (rg_grid s) (deliverableWithoutLocked s me gone) p = None \<and>
      (\<exists>r. offered_at (rg_grid s) (deliverableLocked s me) p = Some r \<and> res_Slot r = gone)" for p
    by (auto simp: offered_at_def deliverableWithoutLocked_def split: option.split)
  from first_offer_kept [where f = "offered_at (rg_grid s) (deliverableLocked s me)", OF this] assms
  show ?thesis by (simp add: lane_def Effective_def Let_def loop_offered)
qed

text \<open>So the report is the map without the reservation, lane by lane.\<close>

lemma predicted_without:
  assumes "slots_ok (rg_grid s)" "me \<in> set (gr_Slots (rg_grid s))" "edge \<in> set CanonicalEdges"
    "res_Slot me \<noteq> res_Slot going" "rp_LanesChanged rep = laneChangesLocked s going"
  shows "predicted_lane rep me edge (lane s me edge) =
    map_option res_Slot (fst (Effective (rg_grid s) me edge (deliverableWithoutLocked s me (res_Slot going))))"
  using predicted_change [OF assms] lane_without by simp

lemma offline: "\<not> is_live s (res_PeerID r) \<Longrightarrow> deliverableLocked s me r = ''peer_offline''"
  by (simp add: deliverableLocked_def Let_def)

section \<open>Release\<close>

lemma release_came_true:
  assumes "grid_ok (rg_grid s)" "release_report now hash slot s = Inr rep" "ReleaseSlot True slot s = (None, s')"
  shows "came_true rep s s'"
proof -
  let ?g = "rg_grid s"
  have ok: "slots_ok ?g" using assms(1) by blast
  obtain r where r: "ResOfSlot ?g slot = Some r" "\<not> is_live s (res_PeerID r)"
    using assms(2) by (auto simp: release_report_def split: option.splits if_splits)
  have rep: "rp_Slot rep = res_Slot r" "rp_HolesAfter rep = holesAfterRelease ?g r"
    "rp_MaxSlotEverIssued rep = gr_MaxSlotEverIssued ?g" "rp_LanesChanged rep = laneChangesLocked s r"
    using assms(2) r by (auto simp: release_report_def fillDarkLocked_def blank_report_def split: if_splits option.splits)
  have mem: "r \<in> set (gr_Slots ?g)" "res_Slot r = slot" using r(1) ResOfSlot_Some [OF ok] by auto
  obtain g' where rel: "Release slot ?g = (Some r, g')" using r(1) by (simp add: Release_def)
  note g' = Release_ok [OF assms(1) rel]
  have s': "s' = markChurnLocked (s\<lparr>rg_grid := g'\<rparr>)"
    using assms(3) r rel by (simp add: ReleaseSlot_def Let_def)
  then have grid': "rg_grid s' = g'" by (simp add: markChurnLocked_def)
  have ok': "slots_ok g'" using g'(1) by blast
  have deliver: "deliverableLocked s' = deliverableLocked s"
    by (intro ext) (simp add: s' deliverableLocked_def Let_def metaLocked_def is_live_def markChurnLocked_def)
  have cell: "At g' c w = (case At ?g c w of None \<Rightarrow> None | Some x \<Rightarrow> if res_Slot x = slot then None else Some x)" for c w
  proof (cases "At ?g c w")
    case None
    then have "At g' c w = None" using g'(3) by (auto simp: At_None)
    with None show ?thesis by simp
  next
    case (Some x)
    then have x: "x \<in> set (gr_Slots ?g)" "cell x = (c, w)" using At_Some [OF ok] by auto
    have only: "y = x" if "y \<in> set (gr_Slots ?g)" "cell y = (c, w)" for y
      using that x slots_okD(4) [OF ok] by (metis distinct_map inj_onD)
    show ?thesis
    proof (cases "res_Slot x = slot")
      case True
      have "(c, w) \<notin> cell ` set (gr_Slots g')"
      proof
        assume "(c, w) \<in> cell ` set (gr_Slots g')"
        then obtain y where "y \<in> set (gr_Slots g')" "cell y = (c, w)" by (metis imageE)
        then have "y = x" "res_Slot y \<noteq> slot" using only g'(3) by blast+
        with True show False by simp
      qed
      then have "At g' c w = None" by (simp add: At_None)
      with Some True show ?thesis by simp
    next
      case False
      then show ?thesis using Some x g'(3) by (simp add: At_Some [OF ok'])
    qed
  qed
  have shape: "gr_Width g' = gr_Width ?g" "gr_Height g' = gr_Height ?g" using g'(4) by (simp_all add: Shape_def)
  have "grid_Holes g' = holesAfterRelease ?g r"
    by (simp add: grid_Holes_def holesAfterRelease_def rectangle_def shape cell mem(2) split: option.split)
      (auto intro!: arg_cong [where f = "map _"] filter_cong split: option.split)
  moreover have "lane s' me edge = predicted_lane rep me edge (lane s me edge)"
    if me: "me \<in> set (gr_Slots ?g)" "res_Slot me \<noteq> slot" "edge \<in> set CanonicalEdges" for me edge
  proof -
    have "offered_at g' (deliverableLocked s me) p = offered_at ?g (deliverableWithoutLocked s me slot) p" for p
      by (auto simp: offered_at_def cell deliverableWithoutLocked_def split: option.split)
    from lane_offered [where me = me and edge = edge, OF this shape]
    show ?thesis
      using predicted_without [OF ok me(1,3) _ rep(4)] me(2) mem(2) by (simp add: lane_def grid' deliver)
  qed
  ultimately show ?thesis
    using g'(2,3) by (auto simp: came_true_def grid' rep mem(2))
qed

section \<open>Eviction\<close>

text \<open>The connection the eviction closes is gone: the registry as \<open>drop_peer\<close> leaves it.\<close>

lemma dropped:
  assumes "map_of (rg_live s) peer = Some c" "pc_id c = peer" "pc_role c = ''peer''"
  shows "rg_grid (drop_peer now c s) = rg_grid s"
    "is_live (drop_peer now c s) q = (q \<noteq> peer \<and> is_live s q)"
    "pm_gameVersion (metaLocked (drop_peer now c s) q) = pm_gameVersion (metaLocked s q)"
    "pm_simSize (metaLocked (drop_peer now c s) q) = pm_simSize (metaLocked s q)"
    "q \<noteq> peer \<Longrightarrow> metaLocked (drop_peer now c s) q = metaLocked s q"
  using assms
  by (auto simp: drop_peer_def Let_def markChurnLocked_def set_meta_def is_live_def metaLocked_def
      AList.delete_conv' AList.update_conv' split: option.split)

lemma dropped_deliverable:
  assumes "map_of (rg_live s) peer = Some c" "pc_id c = peer" "pc_role c = ''peer''"
  shows "deliverableLocked (drop_peer now c s) me r =
    (if res_PeerID r = peer then ''peer_offline'' else deliverableLocked s me r)"
  using dropped [OF assms] by (simp add: deliverableLocked_def Let_def)

lemma evict_came_true:
  assumes "grid_ok (rg_grid (ad_reg s))" "evict_report env now hash peer spec s = (Inr rep, s1)" "\<not> rp_Lifts rep"
    "map_of (rg_live (ad_reg s)) peer = Some c" "pc_id c = peer" "pc_role c = ''peer''"
  shows "came_true rep (ad_reg s) (drop_peer later c (ad_reg s))"
proof -
  let ?s = "ad_reg s" and ?s' = "drop_peer later c (ad_reg s)"
  let ?g = "rg_grid ?s"
  have ok: "slots_ok ?g" using assms(1) by blast
  have rep: "rp_HolesAfter rep = grid_Holes ?g" "rp_MaxSlotEverIssued rep = gr_MaxSlotEverIssued ?g"
    "rp_Slot rep = (case ResOfPeer ?g peer of None \<Rightarrow> 0 | Some r \<Rightarrow> res_Slot r)"
    "rp_LanesChanged rep = (case ResOfPeer ?g peer of None \<Rightarrow> [] | Some r \<Rightarrow> laneChangesLocked ?s r)"
    using assms(2,3)
    by (auto simp: evict_report_def Let_def fillDarkLocked_def placed_report_def blank_report_def
        split: if_splits option.splits prod.splits)
  have "lane ?s' me edge = predicted_lane rep me edge (lane ?s me edge)"
    if me: "me \<in> set (gr_Slots ?g)" "res_Slot me \<noteq> rp_Slot rep" "edge \<in> set CanonicalEdges" for me edge
  proof (cases "ResOfPeer ?g peer")
    case None
    then have "offered_at ?g (deliverableLocked ?s' me) p = offered_at ?g (deliverableLocked ?s me) p" for p
      by (intro offered_cong [OF ok]) (simp add: dropped_deliverable [OF assms(4-6)] ResOfPeer_def find_None_iff)
    from lane_offered [where me = me and edge = edge, OF this refl refl] None show ?thesis
      by (simp add: lane_def dropped(1) [OF assms(4-6)] predicted_lane_def rep(4))
  next
    case (Some going)
    have g: "going \<in> set (gr_Slots ?g)" "res_PeerID going = peer" using Some ResOfPeer_Some [OF ok] by auto
    have "res_PeerID r = peer \<longleftrightarrow> res_Slot r = res_Slot going" if "r \<in> set (gr_Slots ?g)" for r
      using that g slots_okD(5,6) [OF ok] by (metis distinct_map inj_onD)
    then have "offered_at ?g (deliverableLocked ?s' me) p = offered_at ?g (deliverableWithoutLocked ?s me (res_Slot going)) p" for p
      by (intro offered_cong [OF ok]) (simp add: dropped_deliverable [OF assms(4-6)] deliverableWithoutLocked_def)
    from lane_offered [where me = me and edge = edge, OF this refl refl] show ?thesis
      using predicted_without [OF ok me(1,3), of going rep] me(2) Some
      by (simp add: lane_def dropped(1) [OF assms(4-6)] rep(3,4))
  qed
  then show ?thesis by (simp add: came_true_def dropped(1) [OF assms(4-6)] rep(1,2))
qed

section \<open>Handover\<close>

lemma find_rebind:
  "distinct (map res_Slot rs) \<Longrightarrow> find (\<lambda>r. res_Col r = c \<and> res_Row r = w) (rebind slot new rs) =
     map_option (\<lambda>x. if res_Slot x = slot then x\<lparr>res_PeerID := new\<rparr> else x) (find (\<lambda>r. res_Col r = c \<and> res_Row r = w) rs)"
proof (induction rs)
  case (Cons r rs)
  show ?case
  proof (cases "res_Slot r = slot")
    case True
    then have "find (\<lambda>r. res_Col r = c \<and> res_Row r = w) rs = map_option (\<lambda>x. if res_Slot x = slot then x\<lparr>res_PeerID := new\<rparr> else x)
        (find (\<lambda>r. res_Col r = c \<and> res_Row r = w) rs)"
    proof (cases "find (\<lambda>r. res_Col r = c \<and> res_Row r = w) rs")
      case (Some x)
      then have "x \<in> set rs" by (auto simp: find_Some_iff)
      then have "res_Slot x \<noteq> slot" using Cons.prems True by (metis distinct.simps(2) image_eqI list.set_map list.simps(9))
      with Some show ?thesis by simp
    qed simp
    with True show ?thesis by auto
  next
    case False
    with Cons show ?thesis by simp
  qed
qed simp

lemma handover_came_true:
  assumes "grid_ok (rg_grid s)" "handover_report now hash slot new s = Inr rep" "\<not> is_live s new"
    "HandoverSlot True slot new s = (Inr (old, new_res), s')"
  shows "came_true rep s s'"
proof -
  let ?g = "rg_grid s"
  have ok: "slots_ok ?g" using assms(1) by blast
  obtain r where r: "ResOfSlot ?g slot = Some r" "\<not> is_live s (res_PeerID r)"
    using assms(2) by (auto simp: handover_report_def split: option.splits if_splits)
  have rep: "rp_Slot rep = res_Slot r" "rp_HolesAfter rep = grid_Holes ?g"
    "rp_MaxSlotEverIssued rep = gr_MaxSlotEverIssued ?g" "rp_LanesChanged rep = []"
    using assms(2) r by (auto simp: handover_report_def fillDarkLocked_def blank_report_def split: if_splits option.splits)
  have mem: "r \<in> set (gr_Slots ?g)" "res_Slot r = slot" using r(1) ResOfSlot_Some [OF ok] by auto
  let ?g' = "?g\<lparr>gr_Slots := rebind slot new (gr_Slots ?g)\<rparr>"
  have s': "s' = markChurnLocked (s\<lparr>rg_grid := ?g', rg_meta := AList.delete (res_PeerID r) (rg_meta s),
      rg_inherited := List.insert new (rg_inherited s)\<rparr>)"
    using assms(4) r by (auto simp: HandoverSlot_def Handover_def split: if_splits)
  then have grid': "rg_grid s' = ?g'" by (simp add: markChurnLocked_def)
  let ?f = "\<lambda>x. if res_Slot x = slot then x\<lparr>res_PeerID := new\<rparr> else x"
  have slots': "set (gr_Slots ?g') = ?f ` set (gr_Slots ?g)" using rebind_set [OF slots_okD(5) [OF ok]] by simp
  have at_new: "At ?g' c w = map_option ?f (At ?g c w)" for c w
    using slots_okD(5) [OF ok] by (simp add: At_def find_rebind)
  have others: "x = r" if "x \<in> set (gr_Slots ?g)" "res_Slot x = slot" for x
    using that mem slots_okD(5) [OF ok] by (metis distinct_map inj_onD)
  have peers: "res_PeerID x \<noteq> res_PeerID r" if "x \<in> set (gr_Slots ?g)" "res_Slot x \<noteq> slot" for x
    using that mem slots_okD(6) [OF ok] by (metis distinct_map inj_onD)
  have live': "is_live s' = is_live s" by (intro ext) (simp add: s' is_live_def markChurnLocked_def)
  have meta': "metaLocked s' q = metaLocked s q" if "q \<noteq> res_PeerID r" for q
    using that by (simp add: s' metaLocked_def markChurnLocked_def AList.delete_conv')
  have "grid_Holes ?g' = grid_Holes ?g"
    by (simp add: grid_Holes_def rectangle_def at_new)
  moreover have "lane s' me edge = predicted_lane rep me edge (lane s me edge)"
    if me: "me \<in> set (gr_Slots ?g)" "res_Slot me \<noteq> slot" for me edge
  proof -
    have "offered_at ?g' (deliverableLocked s' me) p = offered_at ?g (deliverableLocked s me) p" for p
    proof (cases "At ?g (po_Col p) (po_Row p)")
      case None
      then show ?thesis by (simp add: offered_at_def at_new)
    next
      case (Some x)
      then have x: "x \<in> set (gr_Slots ?g)" using At_Some [OF ok] by simp
      show ?thesis
      proof (cases "res_Slot x = slot")
        case True
        then show ?thesis using Some others [OF x] r(2) assms(3)
          by (simp add: offered_at_def at_new deliverableLocked_def Let_def live')
      next
        case False
        have "deliverableLocked s' me x = deliverableLocked s me x"
          using peers [OF x False] peers [OF me] by (simp add: deliverableLocked_def Let_def live' meta')
        with Some False show ?thesis by (simp add: offered_at_def at_new)
      qed
    qed
    from lane_offered [where me = me and edge = edge, OF this] show ?thesis
      by (simp add: lane_def grid' predicted_lane_def rep(4))
  qed
  moreover have "me \<in> set (gr_Slots ?g')" if "me \<in> set (gr_Slots ?g)" "res_Slot me \<noteq> slot" for me
    unfolding slots' using that by (intro image_eqI [of _ _ me]) simp_all
  ultimately show ?thesis by (simp add: came_true_def grid' rep mem(2))
qed

end
