(* ===== verification/Enrollment.thy ===== *)
theory Enrollment imports CredentialProps begin

text \<open>
  Public installer enrollment (\<open>internal/relay/enrollment.go\<close>).  The decoded body of the request, the clock, the
  address of the caller and what the credential store draws are arguments.  The history of an address is a Go
  slice that the handler filters in place: what the map still holds after a failed store is written out.
\<close>

record enroll_opts =
  eo_Enabled :: bool
  eo_MaxCredentials :: int
  eo_MaxPerAddress :: int
  eo_PerAddressWindow :: duration

datatype opts_error = No_credential_limit | No_address_limit

definition enroll_defaults :: "enroll_opts \<Rightarrow> opts_error option \<times> enroll_opts" where
  "enroll_defaults o1 =
     (if \<not> eo_Enabled o1 then (None, o1)
      else if eo_MaxCredentials o1 \<le> 0 then (Some No_credential_limit, o1)
      else if eo_MaxPerAddress o1 \<le> 0 then (Some No_address_limit, o1)
      else if eo_PerAddressWindow o1 \<le> 0 then (None, o1\<lparr>eo_PerAddressWindow := 24 * 3600 * second\<rparr>)
      else (None, o1))"

record enrollment =
  en_creds :: cred_store
  en_byAddr :: "(bytes, time list) gomap"

definition publicPeerPrefix :: bytes where
  "publicPeerPrefix = ''public-''"

datatype enroll_answer =
    Method_not_allowed
  | No_secure_address
  | Bad_request
  | Conflict
  | No_capacity
  | Too_many int
  | Not_stored
  | Accepted bool bytes

fun answer_status :: "enroll_answer \<Rightarrow> nat" where
  "answer_status Method_not_allowed = 405"
| "answer_status No_secure_address = 503"
| "answer_status Bad_request = 400"
| "answer_status Conflict = 409"
| "answer_status No_capacity = 503"
| "answer_status (Too_many seconds) = 429"
| "answer_status Not_stored = 500"
| "answer_status (Accepted created peerID) = (if created then 201 else 200)"

text \<open>\<open>append\<close> into \<open>old[:0]\<close>: the recent entries come to the front of the same array, and whoever holds the old
  slice sees them there, followed by what was behind them.\<close>

definition recent_of :: "time \<Rightarrow> time list \<Rightarrow> time list" where
  "recent_of cutoff old = filter (\<lambda>t. cutoff < t) old"

definition overwritten :: "time \<Rightarrow> time list \<Rightarrow> time list" where
  "overwritten cutoff old = recent_of cutoff old @ drop (length (recent_of cutoff old)) old"

definition set_history :: "bytes \<Rightarrow> time list \<Rightarrow> enrollment \<Rightarrow> enrollment" where
  "set_history source ts st = st\<lparr>en_byAddr := AList.update source ts (en_byAddr st)\<rparr>"

text \<open>The history of an address as the map holds it after the filter and before anything is assigned.\<close>

definition filtered_in_place :: "bytes \<Rightarrow> time \<Rightarrow> enrollment \<Rightarrow> enrollment" where
  "filtered_in_place source cutoff st =
     (case map_of (en_byAddr st) source of
        None \<Rightarrow> st
      | Some old \<Rightarrow> set_history source (overwritten cutoff old) st)"

definition enrollPublicLocked ::
  "(bytes \<Rightarrow> bytes) \<Rightarrow> enroll_opts \<Rightarrow> time \<Rightarrow> cred_io \<Rightarrow> bytes \<Rightarrow> bytes \<Rightarrow> bytes \<Rightarrow> enrollment \<Rightarrow> enroll_answer \<times> enrollment"
where
  "enrollPublicLocked sha opts now io source peerID secret st =
     (if GrantOf (en_creds st) peerID \<noteq> None
      then (case Enroll sha io peerID secret ''peer'' (en_creds st) of
              (Inl e, s1) \<Rightarrow> (Conflict, st\<lparr>en_creds := s1\<rparr>)
            | (Inr created, s1) \<Rightarrow> (Accepted created peerID, st\<lparr>en_creds := s1\<rparr>))
      else if int (CountPrefix (en_creds st) publicPeerPrefix) \<ge> eo_MaxCredentials opts then (No_capacity, st)
      else
        (let cutoff = now - eo_PerAddressWindow opts;
             recent = recent_of cutoff (deref_or (map_of (en_byAddr st) source) []) in
         if int (length recent) \<ge> eo_MaxPerAddress opts
         then (let retry = hd recent + eo_PerAddressWindow opts - now in
               (Too_many ((if retry < second then second else retry) div second), set_history source recent st))
         else
           (case Enroll sha io peerID secret ''peer'' (en_creds st) of
              (Inl e, s1) \<Rightarrow> (Not_stored, (filtered_in_place source cutoff st)\<lparr>en_creds := s1\<rparr>)
            | (Inr created, s1) \<Rightarrow>
                (Accepted created peerID,
                 (if created then set_history source (recent @ [now]) st
                  else filtered_in_place source cutoff st)\<lparr>en_creds := s1\<rparr>))))"

record enroll_request =
  eq_Format :: bytes
  eq_InstallID :: bytes
  eq_Secret :: bytes
  eq_Release :: bytes

datatype enroll_body = Body_invalid | Body_extra | Body enroll_request

definition enrollmentRequestV1 :: bytes where
  "enrollmentRequestV1 = ''bibites-multiverse/enrollment-request/1''"

definition public_peer :: "bytes \<Rightarrow> bytes" where
  "public_peer installID = publicPeerPrefix @ filter (\<lambda>c. c \<noteq> CHR ''-'') (ascii_lower installID)"

record enroll_call =
  ec_now :: time
  ec_io :: cred_io
  ec_source :: bytes
  ec_method :: bytes
  ec_body :: enroll_body

definition servePublicEnrollment ::
  "(bytes \<Rightarrow> bytes) \<Rightarrow> enroll_opts \<Rightarrow> bytes \<Rightarrow> enroll_call \<Rightarrow> enrollment \<Rightarrow> enroll_answer \<times> enrollment"
where
  "servePublicEnrollment sha opts advertiseURL call st =
     (if ec_method call \<noteq> ''POST'' then (Method_not_allowed, st)
      else if \<not> prefixed ''wss://'' advertiseURL then (No_secure_address, st)
      else (case ec_body call of
              Body_invalid \<Rightarrow> (Bad_request, st)
            | Body_extra \<Rightarrow> (Bad_request, st)
            | Body req \<Rightarrow>
                if eq_Format req \<noteq> enrollmentRequestV1 \<or> \<not> ValidUUID (eq_InstallID req) \<or>
                   eq_Release req = [] \<or> 32 < length (eq_Release req) \<or> ValidSecret (eq_Secret req) \<noteq> None
                then (Bad_request, st)
                else enrollPublicLocked sha opts (ec_now call) (ec_io call) (ec_source call)
                       (public_peer (eq_InstallID req)) (eq_Secret req) st))"

text \<open>The requests of one relay process, with when each came, from where, and what it was answered.\<close>

fun enroll_run ::
  "(bytes \<Rightarrow> bytes) \<Rightarrow> enroll_opts \<Rightarrow> bytes \<Rightarrow> enroll_call list \<Rightarrow> enrollment \<Rightarrow>
     (time \<times> bytes \<times> enroll_answer) list \<times> enrollment"
where
  "enroll_run sha opts url [] st = ([], st)"
| "enroll_run sha opts url (c # cs) st =
     (let (a, st1) = servePublicEnrollment sha opts url c st;
          (rest, st2) = enroll_run sha opts url cs st1
      in ((ec_now c, ec_source c, a) # rest, st2))"

definition is_created :: "enroll_answer \<Rightarrow> bool" where
  "is_created a = (answer_status a = 201)"

text \<open>The credentials created for an address after one instant and up to another.\<close>

definition created_between :: "(time \<times> bytes \<times> enroll_answer) list \<Rightarrow> bytes \<Rightarrow> time \<Rightarrow> time \<Rightarrow> nat" where
  "created_between rs source t u =
     length (filter (\<lambda>(n, src, a). src = source \<and> is_created a \<and> t < n \<and> n \<le> u) rs)"

end
