(* ===== verification/EnrollmentProps.thy ===== *)
theory EnrollmentProps imports Enrollment begin

text \<open>
  What open enrollment promises: the two bounds it is configured with, that it adds identities and touches none
  that exists, and what a failed write of the credential file does to the count of an address.
\<close>

section \<open>What enrolling does to the store\<close>

lemma save_keeps_peers: "ct_peers (snd (saveLocked fate s)) = ct_peers s" "ct_decoySalt (snd (saveLocked fate s)) = ct_decoySalt s"
  by (cases fate; simp add: saveLocked_def)+

lemma save_of_put:
  assumes "map_of (ct_peers s) k = None"
  obtains s' b where "saveLocked fate (set_peer k r s) = (b, s')" "ct_peers s' = ct_peers s @ [(k, r)]"
    "ct_decoySalt s' = ct_decoySalt s"
proof -
  obtain b s' where sv: "saveLocked fate (set_peer k r s) = (b, s')" by (cases "saveLocked fate (set_peer k r s)")
  show ?thesis
    using save_keeps_peers [of fate "set_peer k r s"] assms
    by (intro that [OF sv]) (simp_all only: sv snd_conv, simp_all add: update_absent set_peer_def)
qed

lemma store_record_peers:
  assumes "map_of (ct_peers s) k = None"
  obtains ok s1 where "store_record fate k r s = (ok, s1)" "ct_decoySalt s1 = ct_decoySalt s"
    "ct_peers s1 = (if ok then ct_peers s @ [(k, r)] else ct_peers s)"
proof -
  obtain s' b where sv: "saveLocked fate (set_peer k r s) = (b, s')" "ct_peers s' = ct_peers s @ [(k, r)]"
    "ct_decoySalt s' = ct_decoySalt s"
    by (rule save_of_put [OF assms])
  have "k \<notin> fst ` set (ct_peers s)" using assms by (simp add: map_of_eq_None_iff)
  then have gone: "AList.delete k (ct_peers s @ [(k, r)]) = ct_peers s"
    by (force simp: delete_filter filter_id_conv)
  show ?thesis
  proof (cases b)
    case True
    with sv show ?thesis by (intro that [of True s']) (simp_all add: store_record_def)
  next
    case False
    with sv gone show ?thesis
      by (intro that [of False "del_peer k s'"]) (simp_all add: store_record_def del_peer_def)
  qed
qed

lemma enroll_peers:
  assumes "Enroll sha io k secret g s = (a, s1)"
  shows "(ct_peers s1 = ct_peers s \<and> a \<noteq> Inr True \<or>
      ct_peers s1 = ct_peers s @ [(k, new_record sha io k secret g)] \<and> a = Inr True \<and> map_of (ct_peers s) k = None) \<and>
    ct_decoySalt s1 = ct_decoySalt s"
proof (cases "k = [] \<or> \<not> ValidGrant g \<or> ValidSecret secret \<noteq> None \<or> map_of (ct_peers s) k \<noteq> None")
  case True
  with assms show ?thesis by (auto simp: Enroll_def split: if_splits option.splits)
next
  case False
  then have none: "map_of (ct_peers s) k = None" by simp
  obtain ok s2 where "store_record (ki_save io) k (new_record sha io k secret g) s = (ok, s2)"
    "ct_decoySalt s2 = ct_decoySalt s"
    "ct_peers s2 = (if ok then ct_peers s @ [(k, new_record sha io k secret g)] else ct_peers s)"
    by (rule store_record_peers [OF none])
  with False assms show ?thesis by (cases ok) (auto simp: Enroll_def)
qed

lemma enroll_new:
  assumes "Enroll sha io k secret g s = (Inr created, s1)" "GrantOf s k = None"
  shows "created" "ct_peers s1 = ct_peers s @ [(k, new_record sha io k secret g)]"
proof -
  have none: "map_of (ct_peers s) k = None" using assms(2) by (simp add: GrantOf_def)
  then show c: "created"
    using assms(1) by (auto simp: Enroll_def split: if_splits option.splits prod.splits bool.splits)
  show "ct_peers s1 = ct_peers s @ [(k, new_record sha io k secret g)]"
    using enroll_peers [OF assms(1)] c by auto
qed

section \<open>The bounds\<close>

lemma count_prefix_snoc:
  "ct_peers s1 = ct_peers s @ [(k, r)] \<Longrightarrow> CountPrefix s1 p = CountPrefix s p + (if prefixed p k then 1 else 0)"
  by (simp add: CountPrefix_def)

lemma enroll_count:
  assumes "enrollPublicLocked sha opts now io source k secret st = (a, st1)"
    "int (CountPrefix (en_creds st) publicPeerPrefix) \<le> eo_MaxCredentials opts"
  shows "int (CountPrefix (en_creds st1) publicPeerPrefix) \<le> eo_MaxCredentials opts"
proof -
  obtain e s1 where en: "Enroll sha io k secret ''peer'' (en_creds st) = (e, s1)"
    by (cases "Enroll sha io k secret ''peer'' (en_creds st)")
  have grown: "CountPrefix s1 publicPeerPrefix \<le> Suc (CountPrefix (en_creds st) publicPeerPrefix)"
    "GrantOf (en_creds st) k \<noteq> None \<Longrightarrow> CountPrefix s1 publicPeerPrefix = CountPrefix (en_creds st) publicPeerPrefix"
    using enroll_peers [OF en] by (auto simp: CountPrefix_def GrantOf_def)
  have creds: "en_creds st1 = en_creds st \<or> en_creds st1 = s1 \<and>
      (GrantOf (en_creds st) k \<noteq> None \<or> int (CountPrefix (en_creds st) publicPeerPrefix) < eo_MaxCredentials opts)"
    using assms(1) en
    by (auto simp: enrollPublicLocked_def Let_def set_history_def split: if_splits sum.splits)
  then show ?thesis using grown assms(2) by auto
qed

definition created_after :: "(time \<times> bytes \<times> enroll_answer) list \<Rightarrow> bytes \<Rightarrow> time \<Rightarrow> nat" where
  "created_after rs source t = length (filter (\<lambda>(n, src, a). src = source \<and> is_created a \<and> t < n) rs)"

definition history :: "enrollment \<Rightarrow> bytes \<Rightarrow> time list" where
  "history st source = deref_or (map_of (en_byAddr st) source) []"

text \<open>The history of an address holds at least what was created for it within the window.\<close>

definition windows_ok ::
  "enroll_opts \<Rightarrow> (time \<times> bytes \<times> enroll_answer) list \<Rightarrow> time \<Rightarrow> enrollment \<Rightarrow> bool"
where
  "windows_ok opts rs now st =
     ((\<forall>(n, src, a) \<in> set rs. n \<le> now) \<and>
      (\<forall>source t. now - eo_PerAddressWindow opts \<le> t \<longrightarrow>
         created_after rs source t \<le> length (recent_of t (history st source))) \<and>
      (\<forall>source t. int (created_between rs source t (t + eo_PerAddressWindow opts)) \<le> eo_MaxPerAddress opts))"

lemma filter_count_mono: "(\<And>x. x \<in> set xs \<Longrightarrow> P x \<Longrightarrow> Q x) \<Longrightarrow> length (filter P xs) \<le> length (filter Q xs)"
  by (induction xs) auto

lemma recent_recent: "c \<le> t \<Longrightarrow> recent_of t (recent_of c ts) = recent_of t ts"
  by (auto simp: recent_of_def intro!: filter_cong)

lemma recent_append: "recent_of t (xs @ ys) = recent_of t xs @ recent_of t ys"
  by (simp add: recent_of_def)

lemma history_set: "history (set_history source ts st) src = (if src = source then ts else history st src)"
  by (simp add: history_def set_history_def AList.update_conv')

lemma history_creds [simp]: "history (st\<lparr>en_creds := s\<rparr>) src = history st src"
  by (simp add: history_def)

lemma filtered_history:
  assumes "c \<le> t"
  shows "length (recent_of t (history st src)) \<le> length (recent_of t (history (filtered_in_place source c st) src))"
proof (cases "map_of (en_byAddr st) source")
  case None
  then show ?thesis by (simp add: filtered_in_place_def)
next
  case (Some old)
  then have "history st source = old" by (simp add: history_def)
  with Some show ?thesis using assms
    by (simp add: filtered_in_place_def history_set overwritten_def recent_append recent_recent)
qed

text \<open>One request: it is created below the limit and joins the history, or the history of every address still
  holds what it held.\<close>

lemma enroll_history:
  assumes "enrollPublicLocked sha opts now io source k secret st = (a, st1)"
  shows "is_created a \<and> int (length (recent_of (now - eo_PerAddressWindow opts) (history st source))) < eo_MaxPerAddress opts \<and>
      (\<forall>src. history st1 src = (if src = source
         then recent_of (now - eo_PerAddressWindow opts) (history st source) @ [now] else history st src)) \<or>
    \<not> is_created a \<and> (\<forall>src t. now - eo_PerAddressWindow opts \<le> t \<longrightarrow>
      length (recent_of t (history st src)) \<le> length (recent_of t (history st1 src)))"
proof -
  let ?c = "now - eo_PerAddressWindow opts"
  obtain e s1 where en: "Enroll sha io k secret ''peer'' (en_creds st) = (e, s1)"
    by (cases "Enroll sha io k secret ''peer'' (en_creds st)")
  have old: "GrantOf (en_creds st) k \<noteq> None \<Longrightarrow> e \<noteq> Inr True"
    using enroll_peers [OF en] by (auto simp: GrantOf_def)
  have recent: "deref_or (map_of (en_byAddr st) source) [] = history st source" by (simp add: history_def)
  show ?thesis
    using assms en old filtered_history [of ?c _ st _ source]
    by (auto simp: enrollPublicLocked_def Let_def recent is_created_def history_set recent_recent
        split: if_splits sum.splits)
qed

lemma serve_cases:
  assumes "servePublicEnrollment sha opts url c st = (a, st1)"
  shows "(st1 = st \<and> \<not> is_created a) \<or>
    (\<exists>req. ec_body c = Body req \<and> ValidSecret (eq_Secret req) = None \<and>
       enrollPublicLocked sha opts (ec_now c) (ec_io c) (ec_source c) (public_peer (eq_InstallID req)) (eq_Secret req) st = (a, st1))"
  using assms by (auto simp: servePublicEnrollment_def is_created_def split: if_splits enroll_body.splits)

lemma created_snoc:
  "created_after (rs @ [(n, src, a)]) source t =
     created_after rs source t + (if src = source \<and> is_created a \<and> t < n then 1 else 0)"
  "created_between (rs @ [(n, src, a)]) source t u =
     created_between rs source t u + (if src = source \<and> is_created a \<and> t < n \<and> n \<le> u then 1 else 0)"
  by (simp_all add: created_after_def created_between_def)

lemma windows_kept:
  assumes "windows_ok opts rs now st" "now \<le> n" "\<not> is_created a"
    "\<forall>src t. n - eo_PerAddressWindow opts \<le> t \<longrightarrow>
       length (recent_of t (history st src)) \<le> length (recent_of t (history st1 src))"
  shows "windows_ok opts (rs @ [(n, source, a)]) n st1"
proof -
  have "created_after rs src t \<le> length (recent_of t (history st1 src))" if "n - eo_PerAddressWindow opts \<le> t" for src t
  proof -
    have "created_after rs src t \<le> length (recent_of t (history st src))"
      using assms(1,2) that by (auto simp: windows_ok_def)
    also have "\<dots> \<le> length (recent_of t (history st1 src))" using assms(4) that by blast
    finally show ?thesis .
  qed
  moreover have "\<forall>(m, src, b) \<in> set rs. m \<le> n" using assms(1,2) by (force simp: windows_ok_def)
  ultimately show ?thesis using assms(1,3) by (auto simp: windows_ok_def created_snoc)
qed

lemma windows_made:
  assumes "windows_ok opts rs now st" "now \<le> n" "0 < eo_MaxPerAddress opts"
    "int (length (recent_of (n - eo_PerAddressWindow opts) (history st source))) < eo_MaxPerAddress opts"
    "\<forall>src. history st1 src =
       (if src = source then recent_of (n - eo_PerAddressWindow opts) (history st source) @ [n] else history st src)"
  shows "windows_ok opts (rs @ [(n, source, a)]) n st1"
proof -
  let ?W = "eo_PerAddressWindow opts"
  have past: "\<forall>(m, src, b) \<in> set rs. m \<le> n" using assms(1,2) by (force simp: windows_ok_def)
  have held: "created_after rs src t \<le> length (recent_of t (history st src))" if "n - ?W \<le> t" for src t
    using assms(1,2) that by (auto simp: windows_ok_def)
  have fewer: "created_between rs src t u \<le> created_after rs src t'" if "t' \<le> t" for src t t' u
    unfolding created_between_def created_after_def
    by (rule filter_count_mono) (use that in auto)
  have "int (created_between rs source t (t + ?W)) + 1 \<le> eo_MaxPerAddress opts" if "t < n" "n \<le> t + ?W" for t
    using fewer [of "n - ?W" t source "t + ?W"] held [of "n - ?W" source] assms(4) that by linarith
  with assms(1,5) past held show ?thesis
    by (auto simp: windows_ok_def created_snoc recent_append recent_recent recent_of_def [of _ "[n]"] le_SucI)
qed

lemma windows_step:
  assumes "windows_ok opts rs now st" "now \<le> ec_now c" "0 < eo_MaxPerAddress opts"
    "servePublicEnrollment sha opts url c st = (a, st1)"
  shows "windows_ok opts (rs @ [(ec_now c, ec_source c, a)]) (ec_now c) st1"
proof -
  consider (idle) "st1 = st" "\<not> is_created a"
    | (served) req :: enroll_request where "enrollPublicLocked sha opts (ec_now c) (ec_io c) (ec_source c)
        (public_peer (eq_InstallID req)) (eq_Secret req) st = (a, st1)"
    using serve_cases [OF assms(4)] by blast
  then show ?thesis
  proof cases
    case idle
    with assms show ?thesis by (auto intro!: windows_kept)
  next
    case served
    then show ?thesis
      using enroll_history [OF served] windows_made [OF assms(1-3)] windows_kept [OF assms(1,2)] by blast
  qed
qed

lemma serve_count:
  assumes "servePublicEnrollment sha opts url c st = (a, st1)"
    "int (CountPrefix (en_creds st) publicPeerPrefix) \<le> eo_MaxCredentials opts"
  shows "int (CountPrefix (en_creds st1) publicPeerPrefix) \<le> eo_MaxCredentials opts"
  using serve_cases [OF assms(1)] enroll_count assms(2) by blast

lemma run_bounds:
  assumes "windows_ok opts rs now st" "\<forall>c \<in> set cs. now \<le> ec_now c" "sorted (map ec_now cs)"
    "0 < eo_MaxPerAddress opts" "int (CountPrefix (en_creds st) publicPeerPrefix) \<le> eo_MaxCredentials opts"
    "enroll_run sha opts url cs st = (rest, st1)"
  shows "(\<exists>n. windows_ok opts (rs @ rest) n st1) \<and>
    int (CountPrefix (en_creds st1) publicPeerPrefix) \<le> eo_MaxCredentials opts"
  using assms
proof (induction cs arbitrary: rs now st rest)
  case (Cons c cs)
  obtain a st' where c: "servePublicEnrollment sha opts url c st = (a, st')"
    by (cases "servePublicEnrollment sha opts url c st")
  obtain more where cs: "enroll_run sha opts url cs st' = (more, st1)" and
    r: "rest = (ec_now c, ec_source c, a) # more"
    using Cons.prems(6) by (auto simp: c Let_def split: prod.splits)
  have step: "windows_ok opts (rs @ [(ec_now c, ec_source c, a)]) (ec_now c) st'"
    using windows_step [OF Cons.prems(1) _ Cons.prems(4) c] Cons.prems(2) by simp
  show ?case
    using Cons.IH [OF step _ _ Cons.prems(4) serve_count [OF c Cons.prems(5)] cs] Cons.prems(3) r by simp
qed auto

lemma defaults_positive:
  assumes "enroll_defaults o0 = (None, opts)" "eo_Enabled o0"
  shows "0 < eo_MaxPerAddress opts" "0 < eo_MaxCredentials opts" "0 < eo_PerAddressWindow opts"
  using assms by (auto simp: enroll_defaults_def second_def split: if_splits)

section \<open>What exists stays\<close>

text \<open>No request changes or removes a credential that exists.\<close>

definition grows :: "cred_store \<Rightarrow> cred_store \<Rightarrow> bool" where
  "grows s s' = (ct_decoySalt s' = ct_decoySalt s \<and> (\<exists>more. ct_peers s' = ct_peers s @ more))"

lemma grows_refl [simp]: "grows s s"
  by (simp add: grows_def)

lemma grows_trans: "grows s s' \<Longrightarrow> grows s' s'' \<Longrightarrow> grows s s''"
  by (auto simp: grows_def)

lemma serve_grows:
  assumes "servePublicEnrollment sha opts url c st = (a, st1)"
  shows "grows (en_creds st) (en_creds st1)"
proof -
  have "grows (en_creds st) (en_creds st1)"
    if "enrollPublicLocked sha opts now io source k secret st = (a, st1)" for now io source k secret
  proof -
    obtain e s1 where en: "Enroll sha io k secret ''peer'' (en_creds st) = (e, s1)"
      by (cases "Enroll sha io k secret ''peer'' (en_creds st)")
    have "grows (en_creds st) s1" using enroll_peers [OF en] by (auto simp: grows_def)
    moreover have "en_creds st1 = en_creds st \<or> en_creds st1 = s1"
      using that en by (auto simp: enrollPublicLocked_def Let_def set_history_def split: if_splits sum.splits)
    ultimately show ?thesis by auto
  qed
  then show ?thesis using serve_cases [OF assms] by auto
qed

lemma run_grows: "enroll_run sha opts url cs st = (rs, st1) \<Longrightarrow> grows (en_creds st) (en_creds st1)"
proof (induction cs arbitrary: st rs)
  case (Cons c cs)
  then obtain a st' more where "servePublicEnrollment sha opts url c st = (a, st')"
    "enroll_run sha opts url cs st' = (more, st1)"
    by (auto simp: Let_def split: prod.splits)
  then show ?case using Cons.IH serve_grows grows_trans by blast
qed simp

lemma grows_verify:
  assumes "grows s s'" "Verify sha credential s = Some x"
  shows "Verify sha credential s' = Some x"
proof -
  have "map_of (ct_peers s') k = Some r" if "map_of (ct_peers s) k = Some r" for k r
    using assms(1) that by (auto simp: grows_def map_add_def split: option.split)
  moreover have "ct_decoySalt s' = ct_decoySalt s" using assms(1) by (simp add: grows_def)
  ultimately show ?thesis using assms(2)
    by (cases "map_of (ct_peers s) (fst (deref_or (Split credential) ([], [])))")
      (auto simp: Verify_def Let_def split: prod.splits)
qed

end
