(* ===== verification/CredentialClaims.thy ===== *)
theory CredentialClaims imports EnrollmentProps "HOL-Library.Code_Target_Numeral" begin

text \<open>
  The properties of the credential store and of open enrollment, each with a concrete instance.
\<close>

section \<open>Whom the relay lets in\<close>

text \<open>Whatever sequence of mints, enrollments, remints, withdrawals and restarts a credential store goes
  through from an empty file on, as long as no save ends between the rename and the sync of the directory (a save
  may fail altogether, in any of them), every answer is the one of the abstract map from identities to what was
  handed out, the store accepts a credential exactly when that map holds its identity with a secret of the same
  salted digest, and everyone the map holds gets in with the grant it was given.\<close>

theorem credential_runs_are_exact:
  assumes "OpenStore True decoy True None = Some s0"
    "\<forall>p \<in> set ps. sound_args p \<and> save_of p \<noteq> Save_unsynced"
    "cred_run sha ps s0 = (answers, s)" "spec_run sha ps Map.empty = (expected, A)"
  shows "answers = expected" "Verify sha credential s = spec_verify sha A credential"
    "A k = Some i \<Longrightarrow> Verify sha (Join k (is_secret i)) s = Some (k, is_grant i)"
proof -
  have ok: "answers = expected \<and> peers_ok sha A (ct_peers s)"
    using run_ok [OF fresh_store_ok [OF assms(1)] assms(2), of sha] assms(3,4) by (simp add: store_ok_def)
  then show "answers = expected" ..
  show "Verify sha credential s = spec_verify sha A credential" by (rule verify_spec [OF conjunct2 [OF ok]])
  show "A k = Some i \<Longrightarrow> Verify sha (Join k (is_secret i)) s = Some (k, is_grant i)"
    by (rule holder_gets_in [OF conjunct2 [OF ok]])
qed

definition draw :: "char \<Rightarrow> save_fate \<Rightarrow> cred_io" where
  "draw c fate = \<lparr>ki_salt = ''s'', ki_random = [c], ki_now = 0, ki_save = fate\<rparr>"

definition empty_store :: cred_store where
  "empty_store = \<lparr>ct_path = True, ct_peers = [], ct_decoySalt = ''d'', ct_file = None\<rparr>"

lemma empty_open: "OpenStore True ''d'' True None = Some empty_store"
  by (simp add: OpenStore_def empty_store_def)

definition minted_once :: "cred_op list" where
  "minted_once = [Op_mint (draw CHR ''a'' Saved) ''w'' ''peer'', Op_remint (draw CHR ''b'' Save_failed) ''w'', Op_restart ''e'']"

lemma utf8_w: "valid_utf8 ''w''"
  by code_simp

lemma minted_spec:
  "spec_run (\<lambda>b. b) minted_once Map.empty =
     ([Secret (MintSecret ''a''), Refused Not_saved, Done],
      [''w'' \<mapsto> handed (draw CHR ''a'' Saved) (MintSecret ''a'') ''peer''])"
  by (simp add: minted_once_def draw_def handed_def spec_put_def ValidGrant_def)

lemma minted_sound: "\<forall>p \<in> set minted_once. sound_args p \<and> save_of p \<noteq> Save_unsynced"
  using utf8_w by (simp add: minted_once_def draw_def)

theorem credential_runs_are_exact_witness:
  "fst (cred_run (\<lambda>b. b) minted_once empty_store) = [Secret (MintSecret ''a''), Refused Not_saved, Done] \<and>
   Verify (\<lambda>b. b) (Join ''w'' (MintSecret ''a'')) (snd (cred_run (\<lambda>b. b) minted_once empty_store)) = Some (''w'', ''peer'')"
  using credential_runs_are_exact(1) [OF empty_open minted_sound surjective_pairing minted_spec]
    credential_runs_are_exact(3) [OF empty_open minted_sound surjective_pairing minted_spec, of "''w''"]
  by (simp add: handed_def)

text \<open>A save that renamed the new file into place but could not sync the directory is reported as a failure
  and undone in memory only.  The operation answers that nothing was stored and the store goes on deciding by the
  old map; after a restart it decides by the new one.  A remint whose error the operator has seen has by then
  replaced the secret of the peer with one that nobody was told.\<close>

theorem unsynced_save_splits_the_store:
  assumes "OpenStore True decoy True None = Some s0"
    "\<forall>p \<in> set ps. sound_args p \<and> save_of p \<noteq> Save_unsynced"
    "cred_run sha ps s0 = (answers, s)" "spec_run sha ps Map.empty = (expected, A)"
    "sound_args p" "save_of p = Save_unsynced" "spec_step sha (with_save Saved p) A = (a, B)" "B \<noteq> A"
    "cred_step sha p s = (b, s1)"
  shows "b = Refused Not_saved" "Verify sha credential s1 = spec_verify sha A credential"
    "Verify sha credential (snd (cred_step sha (Op_restart decoy') s1)) = spec_verify sha B credential"
proof -
  have ok: "store_ok sha A s"
    using run_ok [OF fresh_store_ok [OF assms(1)] assms(2), of sha] assms(3,4) by simp
  have spec: "spec_step sha p A = (Refused Not_saved, A)"
    using assms(6-8) by (cases p) (auto simp: spec_put_def split: if_splits option.splits)
  have s1: "b = Refused Not_saved" "ct_path s1" "peers_ok sha A (ct_peers s1)" "peers_ok sha B (disk s1)"
    using step_outcome [OF ok assms(5)] assms(6,7,9) spec by simp_all
  show "b = Refused Not_saved" "Verify sha credential s1 = spec_verify sha A credential"
    using s1(1) verify_spec [OF s1(3)] by simp_all
  show "Verify sha credential (snd (cred_step sha (Op_restart decoy') s1)) = spec_verify sha B credential"
    using restart_outcome [OF s1(2,4), of A decoy'] by (intro verify_spec) (simp add: outcome_def)
qed

definition lost_remint :: cred_op where
  "lost_remint = Op_remint (draw CHR ''b'' Save_unsynced) ''w''"

lemma split_minted: "Split (Join ''w'' (MintSecret r)) = (if r = [] then None else Some (''w'', MintSecret r))"
proof (cases "r = []")
  case True
  then show ?thesis by (simp add: MintSecret_def) code_simp
next
  case False
  then show ?thesis using minted_ok [of r] by (simp add: split_join)
qed

theorem unsynced_save_splits_the_store_witness:
  "case cred_step (\<lambda>b. b) lost_remint (snd (cred_run (\<lambda>b. b) minted_once empty_store)) of (answer, s) \<Rightarrow>
     answer = Refused Not_saved \<and>
     Verify (\<lambda>b. b) (Join ''w'' (MintSecret ''a'')) s = Some (''w'', ''peer'') \<and>
     Verify (\<lambda>b. b) (Join ''w'' (MintSecret ''a'')) (snd (cred_step (\<lambda>b. b) (Op_restart ''f'') s)) = None"
proof -
  let ?A = "[''w'' \<mapsto> handed (draw CHR ''a'' Saved) (MintSecret ''a'') ''peer'']"
  let ?B = "?A(''w'' \<mapsto> handed (draw CHR ''b'' Saved) (MintSecret ''b'') ''peer'')"
  have ab: "MintSecret ''a'' \<noteq> MintSecret ''b''" by code_simp
  have p: "sound_args lost_remint" "save_of lost_remint = Save_unsynced"
    "spec_step (\<lambda>b. b) (with_save Saved lost_remint) ?A = (Secret (MintSecret ''b''), ?B)"
    by (simp_all add: lost_remint_def draw_def handed_def spec_put_def)
  have "handed (draw CHR ''a'' Saved) (MintSecret ''a'') ''peer'' \<noteq> handed (draw CHR ''b'' Saved) (MintSecret ''b'') ''peer''"
    using ab by (simp add: handed_def)
  then have "?B \<noteq> ?A" by (metis fun_upd_same option.inject)
  obtain a s where st: "cred_step (\<lambda>b. b) lost_remint (snd (cred_run (\<lambda>b. b) minted_once empty_store)) = (a, s)"
    by (cases "cred_step (\<lambda>b. b) lost_remint (snd (cred_run (\<lambda>b. b) minted_once empty_store))")
  note splits = unsynced_save_splits_the_store [OF empty_open minted_sound surjective_pairing minted_spec p \<open>?B \<noteq> ?A\<close> st]
  show ?thesis
    using splits(1) splits(2) [of "Join ''w'' (MintSecret ''a'')"] splits(3) [of "Join ''w'' (MintSecret ''a'')" "''f''"] ab
    by (simp add: st spec_verify_def split_minted same_secret_def salted_def handed_def draw_def)
qed

section \<open>Open enrollment\<close>

text \<open>With the limits the relay accepts at start, whatever requests reach one relay process on a clock that
  does not run backwards, and whether or not their saves succeed, the public credentials in its store never exceed
  their limit and no address has more than its limit of credentials created within any window.\<close>

theorem public_enrollment_is_bounded:
  assumes "enroll_defaults configured = (None, opts)" "eo_Enabled configured" "en_byAddr st = []"
    "int (CountPrefix (en_creds st) publicPeerPrefix) \<le> eo_MaxCredentials opts" "sorted (map ec_now cs)"
    "enroll_run sha opts url cs st = (rs, st1)"
  shows "int (CountPrefix (en_creds st1) publicPeerPrefix) \<le> eo_MaxCredentials opts"
    "int (created_between rs source t (t + eo_PerAddressWindow opts)) \<le> eo_MaxPerAddress opts"
proof -
  note pos = defaults_positive [OF assms(1,2)]
  define start where "start = (if cs = [] then 0 else ec_now (hd cs))"
  have "\<forall>c \<in> set cs. start \<le> ec_now c" using assms(5) by (cases cs) (auto simp: start_def)
  moreover have "windows_ok opts [] start st"
    using pos assms(3) by (simp add: windows_ok_def created_after_def created_between_def)
  ultimately obtain n where "windows_ok opts rs n st1"
    "int (CountPrefix (en_creds st1) publicPeerPrefix) \<le> eo_MaxCredentials opts"
    using run_bounds [OF _ _ assms(5) pos(1) assms(4,6), of "[]"] by fastforce
  then show "int (CountPrefix (en_creds st1) publicPeerPrefix) \<le> eo_MaxCredentials opts"
    "int (created_between rs source t (t + eo_PerAddressWindow opts)) \<le> eo_MaxPerAddress opts"
    by (simp_all add: windows_ok_def)
qed

definition strict_opts :: enroll_opts where
  "strict_opts = \<lparr>eo_Enabled = True, eo_MaxCredentials = 9, eo_MaxPerAddress = 1, eo_PerAddressWindow = 100\<rparr>"

definition installer :: "char \<Rightarrow> time \<Rightarrow> enroll_call" where
  "installer c n =
     \<lparr>ec_now = n, ec_io = draw CHR ''a'' Saved, ec_source = ''10.0.0.1'', ec_method = ''POST'',
      ec_body = Body \<lparr>eq_Format = enrollmentRequestV1,
        eq_InstallID = [c] @ ''0000000-0000-0000-0000-000000000000'',
        eq_Secret = replicate 32 CHR ''x'', eq_Release = ''1.0''\<rparr>\<rparr>"

definition open_relay :: enrollment where
  "open_relay = \<lparr>en_creds = empty_store, en_byAddr = []\<rparr>"

lemma two_installers:
  "map (\<lambda>(n, source, a). answer_status a)
     (fst (enroll_run (\<lambda>b. b) strict_opts ''wss://r'' [installer CHR ''1'' 10, installer CHR ''2'' 20] open_relay)) =
   [201, 429]"
  by code_simp

theorem public_enrollment_is_bounded_witness:
  "int (CountPrefix (en_creds (snd (enroll_run (\<lambda>b. b) strict_opts ''wss://r''
      [installer CHR ''1'' 10, installer CHR ''2'' 20] open_relay))) publicPeerPrefix) \<le> 9 \<and>
   int (created_between (fst (enroll_run (\<lambda>b. b) strict_opts ''wss://r''
      [installer CHR ''1'' 10, installer CHR ''2'' 20] open_relay)) ''10.0.0.1'' 0 (0 + 100)) \<le> 1"
proof -
  have ok: "enroll_defaults strict_opts = (None, strict_opts)" "eo_Enabled strict_opts" "en_byAddr open_relay = []"
    "int (CountPrefix (en_creds open_relay) publicPeerPrefix) \<le> eo_MaxCredentials strict_opts"
    "sorted (map ec_now [installer CHR ''1'' 10, installer CHR ''2'' 20])"
    by (simp_all add: enroll_defaults_def strict_opts_def open_relay_def empty_store_def CountPrefix_def installer_def)
  show ?thesis
    using public_enrollment_is_bounded(1) [OF ok surjective_pairing, where sha = "\<lambda>b. b" and url = "''wss://r''"]
      public_enrollment_is_bounded(2) [OF ok surjective_pairing, where sha = "\<lambda>b. b" and url = "''wss://r''"
        and source = "''10.0.0.1''" and t = 0]
    by (simp add: strict_opts_def del: enroll_run.simps)
qed

text \<open>Once an installer has been told that its credential was created, it gets in with it and may repeat its
  request: whatever other requests come between, and from wherever the repetition comes, it is accepted, creates
  nothing and changes nothing.  And no request ever takes away a credential that somebody already holds.\<close>

theorem enrollment_retry_is_safe:
  assumes "servePublicEnrollment sha opts url c st = (Accepted True k, st1)"
    "ec_body c = Body req" "enroll_run sha opts url cs st1 = (rs, st2)"
    "ec_method again = ec_method c" "ec_body again = ec_body c"
  shows "servePublicEnrollment sha opts url again st2 = (Accepted False k, st2)"
    "Verify sha (Join k (eq_Secret req)) (en_creds st2) = Some (k, ''peer'')"
    "Verify sha credential (en_creds st) = Some x \<Longrightarrow> Verify sha credential (en_creds st2) = Some x"
proof -
  let ?rec = "new_record sha (ec_io c) k (eq_Secret req) ''peer''"
  have checked: "ec_method c = ''POST''" "prefixed ''wss://'' url" "eq_Format req = enrollmentRequestV1"
    "ValidUUID (eq_InstallID req)" "eq_Release req \<noteq> []" "length (eq_Release req) \<le> 32"
    "ValidSecret (eq_Secret req) = None"
    and k: "k = public_peer (eq_InstallID req)"
    and locked: "enrollPublicLocked sha opts (ec_now c) (ec_io c) (ec_source c) k (eq_Secret req) st = (Accepted True k, st1)"
    using assms(1,2)
    by (auto simp: servePublicEnrollment_def enrollPublicLocked_def Let_def split: if_splits sum.splits prod.splits)
  have "ct_peers (en_creds st1) = ct_peers (en_creds st) @ [(k, ?rec)] \<and> map_of (ct_peers (en_creds st)) k = None"
    using locked enroll_peers [of sha "ec_io c" k "eq_Secret req" "''peer''" "en_creds st"]
    by (auto simp: enrollPublicLocked_def Let_def set_history_def split: if_splits sum.splits prod.splits)
  moreover have grown: "grows (en_creds st1) (en_creds st2)" by (rule run_grows [OF assms(3)])
  ultimately have found: "map_of (ct_peers (en_creds st2)) k = Some ?rec"
    by (auto simp: grows_def map_add_def)
  have rec: "cr_Grant ?rec = ''peer''" "recordMatches sha ?rec (eq_Secret req)"
    by (simp_all add: new_record_def recordMatches_def decode_encode)
  have name: "k \<noteq> []" by (simp add: k public_peer_def publicPeerPrefix_def)
  have "Enroll sha (ec_io again) k (eq_Secret req) ''peer'' (en_creds st2) = (Inr False, en_creds st2)"
    using name found rec checked(7) by (simp add: Enroll_def ValidGrant_def)
  then show "servePublicEnrollment sha opts url again st2 = (Accepted False k, st2)"
    using checked found k assms(2,4,5)
    by (simp add: servePublicEnrollment_def enrollPublicLocked_def GrantOf_def not_less)
  show "Verify sha (Join k (eq_Secret req)) (en_creds st2) = Some (k, ''peer'')"
    using name found valid_secret [OF checked(7)]
    by (simp add: Verify_def Let_def split_join decode_encode new_record_def)
  have "grows (en_creds st) (en_creds st2)" using serve_grows [OF assms(1)] grown by (rule grows_trans)
  then show "Verify sha credential (en_creds st) = Some x \<Longrightarrow> Verify sha credential (en_creds st2) = Some x"
    by (rule grows_verify)
qed

lemma first_installer:
  "fst (servePublicEnrollment (\<lambda>b. b) strict_opts ''wss://r'' (installer CHR ''1'' 10) open_relay) =
     Accepted True ''public-10000000000000000000000000000000''"
  by code_simp

theorem enrollment_retry_is_safe_witness:
  "fst (servePublicEnrollment (\<lambda>b. b) strict_opts ''wss://r'' (installer CHR ''1'' 30)
     (snd (enroll_run (\<lambda>b. b) strict_opts ''wss://r'' [installer CHR ''2'' 20]
       (snd (servePublicEnrollment (\<lambda>b. b) strict_opts ''wss://r'' (installer CHR ''1'' 10) open_relay))))) =
   Accepted False ''public-10000000000000000000000000000000''"
proof -
  have first: "servePublicEnrollment (\<lambda>b. b) strict_opts ''wss://r'' (installer CHR ''1'' 10) open_relay =
      (Accepted True ''public-10000000000000000000000000000000'',
       snd (servePublicEnrollment (\<lambda>b. b) strict_opts ''wss://r'' (installer CHR ''1'' 10) open_relay))"
    by (simp only: first_installer [symmetric] prod.collapse)
  have same: "ec_method (installer CHR ''1'' 30) = ec_method (installer CHR ''1'' 10)"
    "ec_body (installer CHR ''1'' 30) = ec_body (installer CHR ''1'' 10)"
    by (simp_all add: installer_def)
  obtain req where body: "ec_body (installer CHR ''1'' 10) = Body req" by (simp add: installer_def)
  show ?thesis
    using enrollment_retry_is_safe(1) [OF first body surjective_pairing same, of "[installer CHR ''2'' 20]"]
    by (simp only: fst_conv)
qed

lemma failed_enroll:
  assumes "GrantOf s k = None" "k \<noteq> []" "ValidSecret secret = None" "ki_save io \<noteq> Saved" "ct_path s"
  obtains s1 where "Enroll sha io k secret ''peer'' s = (Inl Not_saved, s1)" "ct_peers s1 = ct_peers s"
proof -
  have none: "map_of (ct_peers s) k = None" using assms(1) by (simp add: GrantOf_def)
  obtain ok s1 where st: "store_record (ki_save io) k (new_record sha io k secret ''peer'') s = (ok, s1)"
    "ct_decoySalt s1 = ct_decoySalt s"
    "ct_peers s1 = (if ok then ct_peers s @ [(k, new_record sha io k secret ''peer'')] else ct_peers s)"
    by (rule store_record_peers [OF none])
  have "\<not> ok"
    using st(1) assms(4,5)
    by (cases "ki_save io") (auto simp: store_record_def saveLocked_def set_peer_def split: if_splits)
  with st assms none show ?thesis by (intro that [of s1]) (auto simp: Enroll_def ValidGrant_def)
qed

text \<open>The history of an address is filtered into its own array.  When the credential cannot be stored, the map
  keeps the old slice over the filtered array, where recent entries now stand twice; the next installer at that
  address is refused as one too many although fewer than the limit were created within the window, and it would
  have been let through had the failed request never come.\<close>

theorem failed_store_counts_creations_twice:
  assumes "map_of (en_byAddr st) source = Some (expired @ live)"
    "\<forall>t \<in> set expired. t \<le> now - eo_PerAddressWindow opts"
    "\<forall>t \<in> set live. now' - eo_PerAddressWindow opts < t" "now \<le> now'"
    "int (length live) < eo_MaxPerAddress opts"
    "eo_MaxPerAddress opts \<le> int (length live + min (length expired) (length live))"
    "GrantOf (en_creds st) k = None" "k \<noteq> []" "ValidSecret secret = None" "ki_save io \<noteq> Saved" "ct_path (en_creds st)"
    "GrantOf (en_creds st) k' = None" "int (CountPrefix (en_creds st) publicPeerPrefix) < eo_MaxCredentials opts"
    "enrollPublicLocked sha opts now io source k secret st = (a, st1)"
  shows "a = Not_stored"
    "\<exists>seconds. fst (enrollPublicLocked sha opts now' io' source k' secret' st1) = Too_many seconds"
    "\<nexists>seconds. fst (enrollPublicLocked sha opts now' io' source k' secret' st) = Too_many seconds"
proof -
  let ?c = "now - eo_PerAddressWindow opts" and ?c' = "now' - eo_PerAddressWindow opts"
  have live: "recent_of ?c live = live" "recent_of ?c' live = live" "recent_of ?c expired = []" "recent_of ?c' expired = []"
    using assms(2-4) by (auto simp: recent_of_def filter_id_conv filter_empty_conv)
  then have old: "recent_of ?c (expired @ live) = live" "recent_of ?c' (expired @ live) = live"
    by (simp_all add: recent_append)
  let ?left = "live @ drop (length live) (expired @ live)"
  obtain s1 where en: "Enroll sha io k secret ''peer'' (en_creds st) = (Inl Not_saved, s1)"
    "ct_peers s1 = ct_peers (en_creds st)"
    by (rule failed_enroll [OF assms(7-11)])
  then have a: "a = Not_stored" and st1: "st1 = (filtered_in_place source ?c st)\<lparr>en_creds := s1\<rparr>"
    using assms(1,5,7,13,14) old(1) by (simp_all add: enrollPublicLocked_def Let_def)
  show "a = Not_stored" by (rule a)
  have left: "map_of (en_byAddr st1) source = Some ?left"
    using assms(1) old(1)
    by (simp add: st1 filtered_in_place_def set_history_def overwritten_def AList.update_conv')
  have "recent_of ?c' (drop n expired) = []" "recent_of ?c' (drop n live) = drop n live" for n
    using assms(2-4) by (auto simp: recent_of_def filter_id_conv filter_empty_conv dest!: in_set_dropD)
  then have "length (recent_of ?c' ?left) = length live + min (length expired) (length live)"
    using live(2) by (auto simp: recent_append)
  then have many: "eo_MaxPerAddress opts \<le> int (length (recent_of ?c' ?left))" using assms(6) by linarith
  have same: "GrantOf (en_creds st1) k' = None"
    "int (CountPrefix (en_creds st1) publicPeerPrefix) < eo_MaxCredentials opts"
    using assms(12,13) en(2) by (simp_all add: st1 GrantOf_def CountPrefix_def)
  show "\<exists>seconds. fst (enrollPublicLocked sha opts now' io' source k' secret' st1) = Too_many seconds"
    using left many same by (simp add: enrollPublicLocked_def Let_def)
  show "\<nexists>seconds. fst (enrollPublicLocked sha opts now' io' source k' secret' st) = Too_many seconds"
    using assms(1,5,12,13) old(2)
    by (auto simp: enrollPublicLocked_def Let_def split: sum.splits prod.splits if_splits)
qed

theorem failed_store_counts_creations_twice_witness:
  "\<exists>seconds. fst (enrollPublicLocked (\<lambda>b. b) (strict_opts\<lparr>eo_MaxPerAddress := 3\<rparr>) 201 (draw CHR ''a'' Saved) ''h'' ''k2''
     (replicate 32 CHR ''x'')
     (snd (enrollPublicLocked (\<lambda>b. b) (strict_opts\<lparr>eo_MaxPerAddress := 3\<rparr>) 200 (draw CHR ''a'' Save_failed) ''h'' ''k1''
        (replicate 32 CHR ''x'') (open_relay\<lparr>en_byAddr := [(''h'', [50] @ [150, 160])]\<rparr>)))) = Too_many seconds"
proof -
  let ?st = "open_relay\<lparr>en_byAddr := [(''h'', [50] @ [150, 160])]\<rparr>" and ?o = "strict_opts\<lparr>eo_MaxPerAddress := 3\<rparr>"
  have v: "ValidSecret (replicate 32 CHR ''x'') = None" by code_simp
  have "map_of (en_byAddr ?st) ''h'' = Some ([50] @ [150, 160])" by simp
  then show ?thesis
    by (rule failed_store_counts_creations_twice(2) [where now = 200 and opts = ?o, OF _ _ _ _ _ _ _ _ v _ _ _ _ surjective_pairing])
      (simp_all add: strict_opts_def open_relay_def empty_store_def draw_def GrantOf_def CountPrefix_def)
qed

end
