(* ===== verification/AdminClaims.thy ===== *)
theory AdminClaims imports AdminProps AdminReports CredentialClaims MapClaims "HOL-Library.Code_Target_Numeral" begin

text \<open>
  The properties of the operator's path, each with a concrete instance.
\<close>

section \<open>A relay to try them on\<close>

definition plain_env :: admin_env where
  "plain_env = \<lparr>ae_sha = \<lambda>b. b, ae_parse = \<lambda>_. None, ae_show = \<lambda>_. ''1h'', ae_url = ''wss://r''\<rparr>"

definition operator_ops :: "cred_op list" where
  "operator_ops = [Op_mint (draw CHR ''a'' Saved) ''o'' ''admin'', Op_mint (draw CHR ''b'' Saved) ''x'' ''subscribe'']"

definition operator_store :: cred_store where
  "operator_store = snd (cred_run (\<lambda>b. b) operator_ops empty_store)"

definition operator_map :: issued_map where
  "operator_map = [''o'' \<mapsto> handed (draw CHR ''a'' Saved) (MintSecret ''a'') ''admin'',
     ''x'' \<mapsto> handed (draw CHR ''b'' Saved) (MintSecret ''b'') ''subscribe'']"

lemma operator_store_ok: "store_ok (\<lambda>b. b) operator_map operator_store"
proof -
  have "valid_utf8 ''o''" "valid_utf8 ''x''" by code_simp+
  then have sound: "\<forall>p \<in> set operator_ops. sound_args p \<and> save_of p \<noteq> Save_unsynced"
    by (simp add: operator_ops_def draw_def)
  have "snd (spec_run (\<lambda>b. b) operator_ops Map.empty) = operator_map"
    by (simp add: operator_ops_def operator_map_def draw_def handed_def spec_put_def ValidGrant_def)
  then show ?thesis using run_ok [OF fresh_store_ok [OF empty_open] sound, of "\<lambda>b. b"] by (simp add: operator_store_def)
qed

definition quiet_admin :: "(bytes, eviction) gomap \<Rightarrow> admin" where
  "quiet_admin evictions =
     \<lparr>ad_reg = quiet_registry, ad_creds = operator_store, ad_evictions = evictions, ad_tokens = [], ad_audit = [], ad_closed = []\<rparr>"

definition operator_header :: bytes where
  "operator_header = Header ''o'' (MintSecret ''a'')"

lemma operator_grant:
  assumes "ad_creds s = operator_store"
  shows "adminGrant plain_env operator_header s = Inr ''o''"
proof -
  have "Verify (\<lambda>b. b) (Join ''o'' (MintSecret ''a'')) operator_store = Some (''o'', ''admin'')"
  proof -
    have "operator_map ''o'' = Some (handed (draw CHR ''a'' Saved) (MintSecret ''a'') ''admin'')"
      by (simp add: operator_map_def)
    then show ?thesis
      using holder_gets_in [of "\<lambda>b. b" operator_map operator_store "''o''"] operator_store_ok
      by (simp add: store_ok_def handed_def)
  qed
  moreover have "FromRequest operator_header = Join ''o'' (MintSecret ''a'')" by code_simp
  ultimately show ?thesis using assms by (simp add: adminGrant_def plain_env_def)
qed

definition at_second :: "int \<Rightarrow> admin_io" where
  "at_second n = \<lparr>ai_now = unix_epoch + n * second, ai_saved = True, ai_mint = draw CHR ''c'' Saved,
     ai_remint = draw CHR ''d'' Saved, ai_forget = Saved\<rparr>"

definition request :: "int \<Rightarrow> bytes \<Rightarrow> bytes \<Rightarrow> admin_request" where
  "request slot peer spec =
     \<lparr>ar_Slot = slot, ar_PeerID = peer, ar_NewPeerID = [], ar_For = spec, ar_Reason = ''test'',
      ar_ConfirmToken = ''t'', ar_RingStateHash = []\<rparr>"

section \<open>Two calls\<close>






text \<open>On a sound map a report says what happens.  After the act, carried out as reported, the holes and the
  counter are the reported ones, every other reservation stays, and each of its four lanes leads where the report says
  it will: to the slot given for a lane that is listed, and where it led before otherwise.  For an eviction this is the
  map once the closed connection has left the registry; a handover is to an identity that is not connected.\<close>

theorem admin_reports_come_true:
  assumes "grid_ok (rg_grid (ad_reg s))" "consequence env now act req s = (Inr rep, s1)"
  shows "ad_reg s1 = ad_reg s"
    "act = ActReleaseSlot \<Longrightarrow> ReleaseSlot True (rp_Slot rep) (ad_reg s) = (None, r) \<Longrightarrow> came_true rep (ad_reg s) r"
    "act = ActHandoverSlot \<Longrightarrow> \<not> is_live (ad_reg s) (rp_NewPeerID rep) \<Longrightarrow>
       HandoverSlot True (rp_Slot rep) (rp_NewPeerID rep) (ad_reg s) = (Inr (old, new), r) \<Longrightarrow> came_true rep (ad_reg s) r"
    "act = ActEvictPeer \<Longrightarrow> \<not> rp_Lifts rep \<Longrightarrow> map_of (rg_live (ad_reg s)) (rp_PeerID rep) = Some c \<Longrightarrow>
       pc_id c = rp_PeerID rep \<Longrightarrow> pc_role c = ''peer'' \<Longrightarrow> came_true rep (ad_reg s) (drop_peer later c (ad_reg s))"
proof -
  let ?h = "ringStateHash (ae_sha env) (rg_grid (ad_reg s))"
  show "ad_reg s1 = ad_reg s" by (rule consequence_frame(3) [OF assms(2)])
  show "came_true rep (ad_reg s) r" if "act = ActReleaseSlot" "ReleaseSlot True (rp_Slot rep) (ad_reg s) = (None, r)"
  proof -
    have rep: "release_report now ?h (ar_Slot req) (ad_reg s) = Inr rep"
      using assms(2) that(1) by (auto simp: consequence_def)
    moreover have "rp_Slot rep = ar_Slot req"
      using rep by (auto simp: release_report_def fillDarkLocked_def ResOfSlot_def find_Some_iff blank_report_def
          split: option.splits if_splits)
    ultimately show ?thesis using release_came_true [OF assms(1)] that(2) by metis
  qed
  show "came_true rep (ad_reg s) r"
    if "act = ActHandoverSlot" "\<not> is_live (ad_reg s) (rp_NewPeerID rep)"
      "HandoverSlot True (rp_Slot rep) (rp_NewPeerID rep) (ad_reg s) = (Inr (old, new), r)"
  proof -
    have rep: "handover_report now ?h (ar_Slot req) (trim_space (ar_NewPeerID req)) (ad_reg s) = Inr rep"
      using assms(2) that(1) by (auto simp: consequence_def)
    moreover have "rp_Slot rep = ar_Slot req \<and> rp_NewPeerID rep = trim_space (ar_NewPeerID req)"
      using rep by (auto simp: handover_report_def fillDarkLocked_def ResOfSlot_def find_Some_iff blank_report_def
          split: option.splits if_splits)
    ultimately show ?thesis using handover_came_true [OF assms(1)] that(2,3) by metis
  qed
  show "came_true rep (ad_reg s) (drop_peer later c (ad_reg s))"
    if "act = ActEvictPeer" "\<not> rp_Lifts rep" "map_of (rg_live (ad_reg s)) (rp_PeerID rep) = Some c"
      "pc_id c = rp_PeerID rep" "pc_role c = ''peer''"
  proof -
    have rep: "evict_report env now ?h (trim_space (ar_PeerID req)) (ar_For req) s = (Inr rep, s1)"
      using assms(2) that(1) by (auto simp: consequence_def)
    moreover have "rp_PeerID rep = trim_space (ar_PeerID req)"
      using rep by (auto simp: evict_report_def Let_def fillDarkLocked_def placed_report_def blank_report_def
          split: option.splits if_splits prod.splits)
    ultimately show ?thesis using evict_came_true [OF assms(1)] that(2-5) by metis
  qed
qed

lemma evict_report_b:
  "case consequence plain_env (unix_epoch + second) ActEvictPeer (request 0 ''b'' []) (quiet_admin []) of
     (Inr rep, s1) \<Rightarrow> \<not> rp_Lifts rep \<and> rp_PeerID rep = ''b'' \<and> rp_LanesChanged rep \<noteq> []
   | _ \<Rightarrow> False"
  by code_simp

theorem admin_reports_come_true_witness:
  "\<exists>rep. fst (consequence plain_env (unix_epoch + second) ActEvictPeer (request 0 ''b'' []) (quiet_admin [])) = Inr rep \<and>
     rp_LanesChanged rep \<noteq> [] \<and>
     came_true rep quiet_registry (drop_peer (unix_epoch + 2 * second) \<lparr>pc_id = ''b'', pc_role = ''peer'', pc_conn = 2\<rparr> quiet_registry)"
proof -
  obtain rep s1 where c: "consequence plain_env (unix_epoch + second) ActEvictPeer (request 0 ''b'' []) (quiet_admin []) = (Inr rep, s1)"
    "\<not> rp_Lifts rep" "rp_PeerID rep = ''b''" "rp_LanesChanged rep \<noteq> []"
    using evict_report_b by (auto split: prod.splits sum.splits)
  have ok: "grid_ok (rg_grid (ad_reg (quiet_admin [])))" by (simp add: quiet_admin_def quiet_registry_def two_by_two_ok)
  have "map_of (rg_live (ad_reg (quiet_admin []))) (rp_PeerID rep) = Some \<lparr>pc_id = ''b'', pc_role = ''peer'', pc_conn = 2\<rparr>"
    by (simp add: quiet_admin_def quiet_registry_def c(3))
  from admin_reports_come_true(4) [OF ok c(1) refl c(2) this] c show ?thesis by (auto simp: quiet_admin_def)
qed

section \<open>Evictions\<close>

lemma time_back: "0 < unix_milli t \<Longrightarrow> time_of_milli (unix_milli t) \<noteq> 0"
  by (simp add: time_of_milli_def millisecond_def unix_epoch_def)

lemma lift_report:
  assumes "adminGrant env auth s = Inr operator" "trim_space (ar_Reason req) \<noteq> []"
    "trim_space (ar_PeerID req) = peer" "peer \<noteq> []" "parseEvictionFor (ae_parse env) (ar_For req) = Some (d, True)"
    "map_of (ad_evictions s) peer = Some ev" "ev_Until ev = 0 \<or> ai_now io \<le> ev_Until ev"
  obtains rep s1 p where "adminReport env io auth ActEvictPeer (Some req) token s = (Inr rep, s1)" "rp_Lifts rep"
    "map_of (ad_tokens s1) token = Some p" "ap_act p = ActEvictPeer" "ap_peerID p = peer" "ap_forSpec p = []"
    "ap_until p = (if untilMs (ev_Until ev) = 0 then 0 else time_of_milli (untilMs (ev_Until ev)))"
    "ap_reason p = ar_Reason req" "ap_ringHash p = ringStateHash (ae_sha env) (rg_grid (ad_reg s))"
    "ap_createdAt p = ai_now io"
    "ad_reg s1 = ad_reg s" "ad_creds s1 = ad_creds s" "ad_evictions s1 = ad_evictions s"
proof -
  let ?hash = "ringStateHash (ae_sha env) (rg_grid (ad_reg s))"
  let ?rep = "(fillDarkLocked (ai_now io) (ad_reg s) peer (placed_report (ad_reg s) peer
      ((blank_report ActEvictPeer peer (rg_grid (ad_reg s)) ?hash)\<lparr>rp_Lifts := True\<rparr>)))
      \<lparr>rp_EvictedUntilMs := untilMs (ev_Until ev)\<rparr>"
  have "evictionLocked (ai_now io) peer s = (Some (ev_Until ev), s)"
    using assms(6,7) by (auto simp: evictionLocked_def)
  then have cons: "consequence env (ai_now io) ActEvictPeer req s = (Inr ?rep, s)"
    using assms(3-5) by (simp add: consequence_def evict_report_def)
  let ?s2 = "sweepAdminTokensLocked (ai_now io) s"
  let ?p = "pending_of ActEvictPeer ?rep (ar_Reason req) operator (ai_now io)"
  let ?s1 = "?s2\<lparr>ad_tokens := AList.update token ?p (ad_tokens ?s2)\<rparr>"
  have out: "adminReport env io auth ActEvictPeer (Some req) token s = (Inr (?rep\<lparr>rp_ConfirmToken := token\<rparr>), ?s1)"
    using assms(1,2) cons by (simp add: adminReport_def Let_def)
  have fields: "rp_PeerID ?rep = peer" "rp_EvictedFor ?rep = []" "rp_RingStateHash ?rep = ?hash"
    "rp_Lifts ?rep" "rp_EvictedUntilMs ?rep = untilMs (ev_Until ev)"
    by (simp_all add: fillDarkLocked_def placed_report_def blank_report_def split: option.split)
  show ?thesis
    by (rule that [OF out, where p = ?p])
      (use fields in \<open>simp_all add: AList.update_conv' pending_of_def adminUntil_def sweepAdminTokensLocked_def\<close>)
qed

lemma swept_keeps: "map_of m k = Some v \<Longrightarrow> P v \<Longrightarrow> map_of (filter (\<lambda>(_, v). P v) m) k = Some v"
  by (induction m) (auto split: if_splits)

lemma confirm_passes:
  assumes "adminGrant env auth s = Inr operator" "map_of (ad_tokens s) (ar_ConfirmToken req) = Some p"
    "ai_now io - ap_createdAt p \<le> adminConfirmTTL" "ap_act p = act" "ar_RingStateHash req = [] \<or> ar_RingStateHash req = ap_ringHash p"
    "ringStateHash (ae_sha env) (rg_grid (ad_reg s)) = ap_ringHash p"
  obtains s2 where "adminConfirm env io auth act (Some req) s = applyAdmin env io p operator s2"
    "ad_reg s2 = ad_reg s" "ad_creds s2 = ad_creds s" "ad_evictions s2 = ad_evictions s"
proof -
  let ?s1 = "sweepAdminTokensLocked (ai_now io) s"
  have "map_of (ad_tokens ?s1) (ar_ConfirmToken req) = Some p"
    using swept_keeps [OF assms(2), of "\<lambda>p. ai_now io - ap_createdAt p \<le> adminConfirmTTL"] assms(3)
    by (simp add: sweepAdminTokensLocked_def)
  with assms show ?thesis
    by (intro that [of "?s1\<lparr>ad_tokens := AList.delete (ar_ConfirmToken req) (ad_tokens ?s1)\<rparr>"])
      (auto simp: adminConfirm_def Let_def sweepAdminTokensLocked_def)
qed

text \<open>The lift of an eviction that has an end is reported as a lift and, once confirmed, is carried out as an
  eviction: the end of the ban that the report shows is taken for the end of a new one.  The call succeeds without
  saying that it lifted anything, and the peer stays banned until the same time (to the millisecond), now for the
  reason given for lifting the ban.  Only an eviction without an end can be lifted over this path.\<close>

theorem lift_of_a_timed_eviction_evicts_again:
  assumes "adminGrant env auth s = Inr operator" "trim_space (ar_Reason req) \<noteq> []"
    "trim_space (ar_PeerID req) = peer" "peer \<noteq> []" "parseEvictionFor (ae_parse env) (ar_For req) = Some (d, True)"
    "map_of (ad_evictions s) peer = Some ev" "ai_now io \<le> ev_Until ev" "0 < unix_milli (ev_Until ev)"
    "adminReport env io auth ActEvictPeer (Some req) token s = (answer, s1)"
    "ar_ConfirmToken again = token" "ar_RingStateHash again = []" "ai_now io' - ai_now io \<le> adminConfirmTTL"
    "adminConfirm env io' auth ActEvictPeer (Some again) s1 = (out, s2)"
  shows "\<exists>rep applied. answer = Inr rep \<and> rp_Lifts rep \<and> out = Inr applied \<and> \<not> aa_Lifted applied"
    "map_of (ad_evictions s2) peer = Some \<lparr>ev_Until = time_of_milli (unix_milli (ev_Until ev)),
       ev_Reason = ar_Reason req, ev_At = ai_now io'\<rparr>"
    "n \<le> time_of_milli (unix_milli (ev_Until ev)) \<Longrightarrow> fst (evictionLocked n peer s2) \<noteq> None"
proof -
  have nz: "ev_Until ev \<noteq> 0" using assms(8) by (auto simp: unix_milli_def unix_epoch_def millisecond_def)
  then have ms: "untilMs (ev_Until ev) = unix_milli (ev_Until ev)" by (simp add: untilMs_def)
  obtain rep p where r: "answer = Inr rep" "rp_Lifts rep" "map_of (ad_tokens s1) token = Some p" "ap_act p = ActEvictPeer"
    "ap_peerID p = peer" "ap_forSpec p = []" "ap_until p = time_of_milli (unix_milli (ev_Until ev))"
    "ap_reason p = ar_Reason req" "ap_ringHash p = ringStateHash (ae_sha env) (rg_grid (ad_reg s))"
    "ap_createdAt p = ai_now io" "ad_reg s1 = ad_reg s" "ad_creds s1 = ad_creds s" "ad_evictions s1 = ad_evictions s"
    by (rule lift_report [OF assms(1-6) disjI2 [OF assms(7)], where token = token])
      (use assms(8,9) ms in auto)
  have grant: "adminGrant env auth s1 = Inr operator" using assms(1) r(12) by (simp add: adminGrant_def)
  obtain s3 where c: "adminConfirm env io' auth ActEvictPeer (Some again) s1 = applyAdmin env io' p operator s3"
    "ad_evictions s3 = ad_evictions s1"
    by (rule confirm_passes [OF grant, where req = again and p = p and io = io' and act = ActEvictPeer])
      (use r assms(10-12) in auto)
  have fin: "\<exists>applied. out = Inr applied \<and> \<not> aa_Lifted applied"
    "map_of (ad_evictions s2) peer = Some \<lparr>ev_Until = time_of_milli (unix_milli (ev_Until ev)),
       ev_Reason = ar_Reason req, ev_At = ai_now io'\<rparr>"
    using c(1) assms(13) time_back [OF assms(8)] r(4-8)
    by (auto simp: applyAdmin_def applyEviction_def applied_of_def AuditAct_def Let_def AList.update_conv')
  show "\<exists>rep applied. answer = Inr rep \<and> rp_Lifts rep \<and> out = Inr applied \<and> \<not> aa_Lifted applied"
    using fin(1) r(1,2) by blast
  show ban: "map_of (ad_evictions s2) peer = Some \<lparr>ev_Until = time_of_milli (unix_milli (ev_Until ev)),
       ev_Reason = ar_Reason req, ev_At = ai_now io'\<rparr>" by (rule fin(2))
  show "fst (evictionLocked n peer s2) \<noteq> None" if "n \<le> time_of_milli (unix_milli (ev_Until ev))"
    using that by (simp add: evictionLocked_def ban)
qed

definition banned_admin :: admin where
  "banned_admin = quiet_admin [(''b'', \<lparr>ev_Until = unix_epoch + 3600 * second, ev_Reason = ''noise'', ev_At = unix_epoch\<rparr>)]"

theorem lift_of_a_timed_eviction_evicts_again_witness:
  "fst (evictionLocked (unix_epoch + 3000 * second) ''b''
     (snd (adminConfirm plain_env (at_second 9) operator_header ActEvictPeer (Some (request 0 ''b'' ''0''))
        (snd (adminReport plain_env (at_second 5) operator_header ActEvictPeer (Some (request 0 ''b'' ''0'')) ''t'' banned_admin))))) \<noteq> None"
proof -
  have grant: "adminGrant plain_env operator_header banned_admin = Inr ''o''"
    by (rule operator_grant) (simp add: banned_admin_def quiet_admin_def)
  have words: "trim_space (ar_Reason (request 0 ''b'' ''0'')) \<noteq> []" "trim_space (ar_PeerID (request 0 ''b'' ''0'')) = ''b''"
    "parseEvictionFor (ae_parse plain_env) (ar_For (request 0 ''b'' ''0'')) = Some (0, True)"
    by code_simp+
  show ?thesis
    by (rule lift_of_a_timed_eviction_evicts_again(3)
        [OF grant words(1,2) _ words(3) _ _ _ surjective_pairing _ _ _ surjective_pairing,
         where ev = "\<lparr>ev_Until = unix_epoch + 3600 * second, ev_Reason = ''noise'', ev_At = unix_epoch\<rparr>"])
      (simp_all add: banned_admin_def quiet_admin_def at_second_def request_def adminConfirmTTL_def second_def
         unix_epoch_def unix_milli_def time_of_milli_def millisecond_def)
qed

section \<open>The credential half of a handover\<close>

lemma handover_remints:
  assumes "store_ok (ae_sha env) A k" "A new = Some i" "old \<noteq> new" "ki_random (ai_remint io) \<noteq> []"
    "handover_credentials env io old new k = (Inr secret, k')"
  obtains B where "peers_ok (ae_sha env) B (ct_peers k')" "B new = Some (handed (ai_remint io) secret (is_grant i))"
proof -
  let ?sha = "ae_sha env" and ?secret = "MintSecret (ki_random (ai_remint io))"
  define A2 where "A2 = A(new \<mapsto> handed (ai_remint io) ?secret (is_grant i))"
  obtain r where r: "map_of (ct_peers k) new = Some r"
    using peers_ok_lookup(3) [of ?sha A "ct_peers k"] assms(1,2) by (auto simp: store_ok_def)
  have "recs_ok (ct_peers k)" using assms(1) by (auto simp: store_ok_def)
  then have "new \<noteq> []" using recs_okD(1) r by blast
  with r have mint: "mintLocked ?sha (ai_mint io) new ''peer'' k = (Inl Cred_exists, k)"
    by (simp add: mintLocked_def ValidGrant_def)
  obtain k2 where k2: "Remint ?sha (ai_remint io) new k = (Inr secret, k2)" "Forget (ai_forget io) old k2 = (None, k')"
    using assms(5) mint by (auto simp: handover_credentials_def split: sum.splits prod.splits option.splits)
  have saved: "ki_save (ai_remint io) = Saved" and sec: "secret = ?secret"
    using remint_outcome [OF assms(1,2,4)] k2(1) by (auto simp: outcome_def cred_answer_of_def split: if_splits)
  have ok2: "store_ok ?sha A2 k2"
    using remint_outcome [OF assms(1,2,4)] k2(1) saved by (simp add: outcome_def cred_answer_of_def store_ok_def A2_def)
  have "\<exists>B. peers_ok ?sha B (ct_peers k') \<and> B new = A2 new"
  proof (cases "A2 old")
    case None
    then have "k' = k2" using k2(2) ok2 peers_ok_none [of ?sha A2 "ct_peers k2" old] by (simp add: Forget_def store_ok_def)
    with ok2 show ?thesis by (auto simp: store_ok_def)
  next
    case (Some j)
    have "ai_forget io = Saved"
      using forget_outcome [OF ok2 Some, of "ai_forget io"] k2(2) by (auto simp: outcome_def split: if_splits)
    then have "peers_ok ?sha (A2(old := None)) (ct_peers k')"
      using forget_outcome [OF ok2 Some, of "ai_forget io"] k2(2) by (simp add: outcome_def)
    then show ?thesis using assms(3) by (intro exI [of _ "A2(old := None)"]) simp
  qed
  then show ?thesis using that sec by (auto simp: A2_def)
qed

text \<open>A slot that is handed to an identity which already holds a credential of another grant (an archive's
  \<open>subscribe\<close>, an operator's \<open>admin\<close>) goes to an identity that cannot use it: the code remints that credential and keeps its
  grant.  The join string that comes back authenticates, but with a grant that no peer may connect with, while the
  slot is already bound to it; and the secret the identity was using until then is refused.\<close>

theorem handover_keeps_the_other_grant:
  assumes "store_ok (ae_sha env) A (ad_creds s)" "A (ap_newPeerID p) = Some i" "is_grant i \<noteq> ''peer''"
    "ap_act p = ActHandoverSlot" "ap_peerID p \<noteq> ap_newPeerID p" "ki_random (ai_remint io) \<noteq> []"
    "grid_ok (rg_grid (ad_reg s))" "applyAdmin env io p operator s = (Inr out, s')"
  shows "\<exists>secret. aa_JoinString out = join_line (ae_url env) (ap_newPeerID p) secret \<and>
      Verify (ae_sha env) (Join (ap_newPeerID p) secret) (ad_creds s') = Some (ap_newPeerID p, is_grant i) \<and>
      (same_secret (ae_sha env) (handed (ai_remint io) secret (is_grant i)) (is_secret i) \<or>
       Verify (ae_sha env) (Join (ap_newPeerID p) (is_secret i)) (ad_creds s') = None)"
    "\<not> GrantAllowsRole (is_grant i) ''peer''"
    "PeerOfSlot (rg_grid (ad_reg s')) (ap_slot p) = ap_newPeerID p"
proof -
  let ?new = "ap_newPeerID p"
  let ?s = "AuditAct env (ap_act p) operator (ap_reason p) (ap_slot p) (ap_peerID p) ?new s"
  have same: "ad_creds ?s = ad_creds s" "ad_reg ?s = ad_reg s" by (simp_all add: AuditAct_def)
  have applied: "apply_handover env io p ?s = (Inr out, s')" using assms(4,8) by (simp add: applyAdmin_def Let_def)
  obtain x r where hs: "HandoverSlot (ai_saved io) (ap_slot p) ?new (ad_reg s) = (Inr x, r)"
    using applied by (auto simp: apply_handover_def same split: sum.splits prod.splits)
  obtain secret k where hc: "handover_credentials env io (ap_peerID p) ?new (ad_creds s) = (Inr secret, k)"
    using applied hs by (auto simp: apply_handover_def same split: sum.splits prod.splits)
  have h: "HandoverSlot (ai_saved io) (ap_slot p) ?new (ad_reg s) = (Inr x, r)"
    "handover_credentials env io (ap_peerID p) ?new (ad_creds s) = (Inr secret, k)"
    "ad_reg s' = r" "ad_creds s' = k" "aa_JoinString out = join_line (ae_url env) ?new secret"
    using applied hs hc by (auto simp: apply_handover_def same)
  obtain B where B: "peers_ok (ae_sha env) B (ct_peers k)" "B ?new = Some (handed (ai_remint io) secret (is_grant i))"
    by (rule handover_remints [OF assms(1,2,5,6) h(2)])
  have "Verify (ae_sha env) (Join ?new secret) k = Some (?new, is_grant i)"
    using holder_gets_in [OF B] by (simp add: handed_def)
  moreover have "CHR ''.'' \<notin> set (is_secret i)" "is_secret i \<noteq> []" "?new \<noteq> []"
    using peers_ok_lookup(3) [of "ae_sha env" A "ct_peers (ad_creds s)" ?new i] assms(1,2)
      recs_okD(1) [OF peers_okD, of "ae_sha env" A "ct_peers (ad_creds s)" ?new]
    by (auto simp: store_ok_def kept_as_def)
  then have "Verify (ae_sha env) (Join ?new (is_secret i)) k = None"
    if "\<not> same_secret (ae_sha env) (handed (ai_remint io) secret (is_grant i)) (is_secret i)"
    using that B by (simp add: verify_spec [OF B(1)] spec_verify_def split_join)
  ultimately show "\<exists>secret. aa_JoinString out = join_line (ae_url env) ?new secret \<and>
      Verify (ae_sha env) (Join ?new secret) (ad_creds s') = Some (?new, is_grant i) \<and>
      (same_secret (ae_sha env) (handed (ai_remint io) secret (is_grant i)) (is_secret i) \<or>
       Verify (ae_sha env) (Join ?new (is_secret i)) (ad_creds s') = None)"
    using h(4,5) by blast
  show "\<not> GrantAllowsRole (is_grant i) ''peer''" using assms(3) by (simp add: GrantAllowsRole_def)
  have ok: "slots_ok (rg_grid (ad_reg s))" using assms(7) by blast
  obtain q where q: "ResOfSlot (rg_grid (ad_reg s)) (ap_slot p) = Some q"
    using h(1) by (auto simp: HandoverSlot_def split: if_splits option.splits)
  then have mem: "q \<in> set (gr_Slots (rg_grid (ad_reg s)))" "res_Slot q = ap_slot p" using ResOfSlot_Some [OF ok] by auto
  have "rg_grid r = (rg_grid (ad_reg s))\<lparr>gr_Slots := rebind (ap_slot p) ?new (gr_Slots (rg_grid (ad_reg s)))\<rparr>"
    using h(1) q by (auto simp: HandoverSlot_def Handover_def markChurnLocked_def split: if_splits)
  moreover have "find (\<lambda>x. res_Slot x = ap_slot p) (rebind (ap_slot p) ?new xs) =
      map_option (\<lambda>x. x\<lparr>res_PeerID := ?new\<rparr>) (find (\<lambda>x. res_Slot x = ap_slot p) xs)" for xs
    by (induction xs) auto
  ultimately show "PeerOfSlot (rg_grid (ad_reg s')) (ap_slot p) = ?new"
    using q h(3) by (simp add: PeerOfSlot_def ResOfSlot_def)
qed

definition handover_to :: "bytes \<Rightarrow> admin_pending" where
  "handover_to new =
     \<lparr>ap_act = ActHandoverSlot, ap_slot = 2, ap_peerID = ''c'', ap_newPeerID = new, ap_until = 0, ap_forSpec = [],
      ap_reason = ''test'', ap_ringHash = [], ap_grant = ''o'', ap_createdAt = 0\<rparr>"

lemma handed_over:
  "case applyAdmin plain_env (at_second 9) (handover_to ''x'') ''o'' (quiet_admin []) of (Inr out, s) \<Rightarrow> True | _ \<Rightarrow> False"
  by code_simp

theorem handover_keeps_the_other_grant_witness:
  "PeerOfSlot (rg_grid (ad_reg (snd (applyAdmin plain_env (at_second 9) (handover_to ''x'') ''o'' (quiet_admin []))))) 2 = ''x'' \<and>
   \<not> GrantAllowsRole ''subscribe'' ''peer''"
proof -
  obtain out s' where o: "applyAdmin plain_env (at_second 9) (handover_to ''x'') ''o'' (quiet_admin []) = (Inr out, s')"
    using handed_over by (auto split: prod.splits sum.splits)
  have pre: "store_ok (ae_sha plain_env) operator_map (ad_creds (quiet_admin []))"
    "operator_map (ap_newPeerID (handover_to ''x'')) = Some (handed (draw CHR ''b'' Saved) (MintSecret ''b'') ''subscribe'')"
    "is_grant (handed (draw CHR ''b'' Saved) (MintSecret ''b'') ''subscribe'') \<noteq> ''peer''"
    "ap_act (handover_to ''x'') = ActHandoverSlot" "ap_peerID (handover_to ''x'') \<noteq> ap_newPeerID (handover_to ''x'')"
    "ki_random (ai_remint (at_second 9)) \<noteq> []" "grid_ok (rg_grid (ad_reg (quiet_admin [])))"
    using operator_store_ok two_by_two_ok
    by (simp_all add: plain_env_def quiet_admin_def operator_map_def handover_to_def handed_def at_second_def draw_def
        quiet_registry_def)
  show ?thesis
    using handover_keeps_the_other_grant(2,3) [OF pre o] unfolding o snd_conv by (simp add: handover_to_def handed_def)
qed

section \<open>The door and the handshake\<close>

text \<open>An eviction is checked at the door only.  A connection that passed the door before its peer was evicted,
  and has not sent its handshake yet, is not closed by the eviction, because it is in no table, and its handshake is not
  refused for the eviction either: it is accepted exactly when it would have been had nobody been evicted, and
  the evicted peer is then live for as long as it stays connected.\<close>

theorem connection_past_the_door_outlives_eviction:
  assumes "serve_door env now False authorization s = (Door_open auth, s1)" "ap_act p = ActEvictPeer"
    "ap_peerID p = au_peerID auth" "ap_until p = 0 \<or> later \<le> ap_until p" "ap_forSpec p \<noteq> []"
    "applyAdmin env io p operator s1 = (out, s2)" "\<not> is_live (ad_reg s1) (au_peerID auth)"
    "handshake_refusal auth hs (ad_reg s1) = None" "hs_Role hs = ''peer''"
    "door_handshake later True conn auth hs s2 = (answer, s3)"
  shows "fst (evictionLocked later (au_peerID auth) s2) \<noteq> None" "ad_closed s2 = ad_closed s1"
    "\<exists>c. answer = Inr c \<and> map_of (rg_live (ad_reg s3)) (au_peerID auth) = Some c"
proof -
  have checked: "au_checked auth"
    using assms(1) by (auto simp: serve_door_def split: if_splits option.splits prod.splits)
  have s2: "ad_evictions s2 = AList.update (au_peerID auth)
      \<lparr>ev_Until = ap_until p, ev_Reason = ap_reason p, ev_At = ai_now io\<rparr> (ad_evictions s1)"
    "ad_closed s2 = ad_closed s1" "ad_reg s2 = ad_reg s1"
    using assms(2,3,5-7)
    by (auto simp: applyAdmin_def applyEviction_def AuditAct_def Let_def is_live_def)
  show "ad_closed s2 = ad_closed s1" by (rule s2(2))
  show "fst (evictionLocked later (au_peerID auth) s2) \<noteq> None"
    using assms(4) by (auto simp: evictionLocked_def s2(1) AList.update_conv')
  have known: "hs_PeerID hs = au_peerID auth"
    using assms(8) checked by (auto simp: handshake_refusal_def Let_def split: if_splits)
  have same: "mapVersionLocked (r\<lparr>rg_evicted := b\<rparr>) q = mapVersionLocked r q" for r b q
    by (simp add: mapVersionLocked_def is_live_def metaLocked_def cong: option.case_cong)
  have "handshake_refusal auth hs (r\<lparr>rg_evicted := b\<rparr>) = handshake_refusal auth hs r" for r b
    by (simp add: handshake_refusal_def Let_def same below_minimum_def checked cong: if_cong)
  then have "handshake_refusal auth hs ((ad_reg s2)\<lparr>rg_evicted := b\<rparr>) = None" for b
    using assms(8) by (simp add: s2(3))
  then show "\<exists>c. answer = Inr c \<and> map_of (rg_live (ad_reg s3)) (au_peerID auth) = Some c"
    using assms(9,10) known
    by (auto simp: door_handshake_def on_handshake_def register_conn_def Let_def markChurnLocked_def set_meta_def
        AList.update_conv' split: prod.splits)
qed

definition greeting :: handshake where
  "greeting = \<lparr>hs_PeerID = ''w'', hs_Role = ''peer'', hs_ProtocolVersion = ProtocolB, hs_GameVersion = [],
     hs_SidecarVersion = ''1'', hs_SimulationSize = f64_zero\<rparr>"

definition past_the_door :: authed where
  "past_the_door = \<lparr>au_checked = True, au_peerID = ''w'', au_grant = ''peer''\<rparr>"

definition minted_admin :: admin where
  "minted_admin = (quiet_admin [])\<lparr>ad_creds := snd (cred_run (\<lambda>b. b) minted_once empty_store)\<rparr>"

definition ban_w :: admin_pending where
  "ban_w = \<lparr>ap_act = ActEvictPeer, ap_slot = 0, ap_peerID = ''w'', ap_newPeerID = [], ap_until = 0,
     ap_forSpec = ''until lifted'', ap_reason = ''noise'', ap_ringHash = [], ap_grant = ''o'', ap_createdAt = 0\<rparr>"

lemma door_opens: "serve_door plain_env 0 False (Header ''w'' (MintSecret ''a'')) minted_admin = (Door_open past_the_door, minted_admin)"
  by code_simp

lemma greeting_fine: "handshake_refusal past_the_door greeting (ad_reg minted_admin) = None"
  by code_simp

theorem connection_past_the_door_outlives_eviction_witness:
  "\<exists>c. fst (door_handshake 7 True 5 past_the_door greeting (snd (applyAdmin plain_env (at_second 1) ban_w ''o'' minted_admin))) = Inr c"
proof -
  have "\<not> is_live (ad_reg minted_admin) (au_peerID past_the_door)"
    by (simp add: minted_admin_def quiet_admin_def quiet_registry_def is_live_def past_the_door_def)
  from connection_past_the_door_outlives_eviction(3)
      [OF door_opens _ _ _ _ surjective_pairing this greeting_fine _ surjective_pairing, of ban_w 7]
  show ?thesis by (simp add: ban_w_def past_the_door_def greeting_def) blast
qed

end
