(* ===== verification/Spec2Isabelle.thy ===== *)
theory Spec2Isabelle
  imports WireBlocks JournalHazards MapClaims RegistryProps RegistryClaims RelayForwardProps MetersProps CustodyReturn
    CustodyExports HopClaims LedgerClaims SendPaceProps AdmissionProps AdminClaims
begin

text \<open>
  A verification library for the Bibites Multiverse, the Go program under \<open>src/go\<close>: game worlds whose
  organisms migrate to each other.  Three programs take part in a migration, a fourth records it.

  \<^item> A MOD inside the game hands an organism that crossed the world's border to the sidecar beside
    it, and spawns the organisms the sidecar hands back (Contract A).
  \<^item> A SIDECAR (\<open>internal/sidecar\<close>) owns an organism from the moment it acknowledges it to the mod
    until another sidecar, or its own mod, acknowledges it in turn.  Its custody is its journal
    (\<open>internal/journal\<close>), a log on disk that a restart replays.
  \<^item> The RELAY (\<open>internal/relay\<close>) places the worlds on a wrapping rectangle and routes frames
    between sidecars (Contract B).  It never owns an organism; its refusals are the evidence on
    which a sidecar decides that a migration it has sent was not taken and may be sent elsewhere.
  \<^item> The ARCHIVE (\<open>internal/archive\<close>) subscribes to the relay and keeps the record of what crossed: a
    ledger on disk, a guard against copies, and the feed of recent arrivals.

  The question of the development is whether an organism can be lost or live twice, and whether the record
  of what crossed is complete.

  THE WIRES.  \<open>Prelude\<close> and \<open>Text\<close> hold the vocabulary (byte strings, Go maps, \<open>float64\<close>, instants,
  runes and trimming).  \<open>WireBlocks\<close> models the optional blocks of \<open>internal/wire\<close> (\<open>species.go\<close>,
  \<open>census.go\<close>, \<open>settings.go\<close>), \<open>Envelope\<close> the frame and the identifiers (\<open>envelope.go\<close>),
  \<open>ContractA\<close> and \<open>ContractB\<close> the messages, the refusal codes and their validation
  (\<open>contracta.go\<close>, \<open>contractb.go\<close>, \<open>limits.go\<close>).

  THE JOURNAL.  \<open>Journal\<close> is the state machine of one entry and the replay of one record;
  \<open>JournalLog\<close> the file: replay, append with its failure handling, compaction, creation, update,
  purge; \<open>JournalView\<close> the abstract journal (a list of live states) that the map with its creation
  counter refines; \<open>JournalProofs\<close>, \<open>JournalCompact\<close> and \<open>JournalProps\<close> what an acknowledged write
  survives; \<open>JournalHazards\<close> the four ways in which the file still loses or resurrects a record.

  THE MAP.  \<open>Grid\<close> is \<open>grid.go\<close>, with \<open>GridProofs\<close> and \<open>GridPlace\<close> (every operation keeps the
  map's invariant, a placement is an insertion); \<open>MapWalk\<close> is the client's walk (\<open>mapwalk.go\<close>);
  \<open>Torus\<close> the wrapping arithmetic of both; \<open>MapClaims\<close> what the two walks agree on.

  THE RELAY.  \<open>Meters\<close> is \<open>capacity.go\<close> and \<open>churn.go\<close>, with \<open>MetersProps\<close>.  \<open>Registry\<close> is who is
  live and what was claimed (\<open>onSectorClaim\<close>, the operator's commands, grant and status frame),
  with its runs in \<open>RegistryProps\<close> and \<open>RegistryClaims\<close>.  \<open>RelayForward\<close> is the routing
  (\<open>onMigrationPayload\<close>, \<open>enqueueMigration\<close>, \<open>nackNoDelivery\<close>, \<open>onDirected\<close>, \<open>fanOut\<close>), with the
  runs and the proof of non-delivery in \<open>RelayForwardProps\<close>.

  THE CUSTODY SCHEDULER.  The record \<open>sidecar\<close> is the part of \<open>Sidecar\<close> its handlers read and write.
  \<open>Custody\<close> is the outbound half (\<open>processEntry\<close>, the forward, the re-route, the bounce home, the
  loss), \<open>Evidence\<close> the answers to an export, \<open>Inbound\<close> the arrivals and both contracts' handlers
  that take custody, \<open>Export\<close> the obligations of \<open>onMigrateOut\<close> and the edges it may use.
  \<open>CustodyStore\<close> states the contract between the scheduler and its journal as the locale
  \<open>custody_store\<close> and interprets it on \<open>JournalLog\<close> and on the scheduler's own view of it.
  \<open>CustodyRun\<close> and \<open>CustodySteps\<close> hold the step relation over all handlers, restarts included, and the potential
  of an entry: the payloads sent for it, plus one while it may still be offered; it grows by a refusal that
  counts and by the purge of a tombstone, and by nothing else.  \<open>CustodyFrame\<close> splits the handlers of
  one entry into their actions, and says what they leave alone.  \<open>CustodyClaims\<close>,
  \<open>CustodyReturn\<close>, \<open>CustodyArrivals\<close> and \<open>CustodyExports\<close> hold what follows for one organism that
  leaves, that no world takes, that arrives, and that the mod hands over.  This theory puts the
  scheduler of two worlds and the journal's disk together.

  CREDENTIALS, ENROLLMENT AND THE OPERATOR.  \<open>Credentials\<close> is the relay's store of peer credentials
  (\<open>peercred.go\<close>) with the three ways a save ends; \<open>CredentialRun\<close> is the abstract map it implements (identity to
  what was handed out), \<open>CredentialProps\<close> the refinement.  \<open>Enrollment\<close> is the public endpoint (\<open>enrollment.go\<close>)
  with the history of an address in the array its filter shares, \<open>EnrollmentProps\<close> its bounds, \<open>CredentialClaims\<close>
  what follows for runs of both.  \<open>Admin\<close> is the operator's path (\<open>admin.go\<close>): report, token, confirmation and act,
  the bans and the door; \<open>AdminProps\<close> has the life of a token over a run, \<open>AdminReports\<close> what a report says of the
  map after the act, \<open>AdminClaims\<close> what follows, with three cases in which the operator gets something else than was
  reported.

  PACING AND ADMISSION.  \<open>SendPace\<close> is the client's token buckets (\<open>sendpace.go\<close>), and \<open>SendPaceProps\<close> sets
  them against the relay's meters of \<open>Meters\<close>.  \<open>Admission\<close> is the population gate (\<open>admission.go\<close>): the
  estimator, the moving limit, the gate with its hysteresis and the state kept across restarts;
  \<open>AdmissionProps\<close> bounds the limit and relates the modes to each other.

  THE ARCHIVE'S GUARD AND FEED.  \<open>Dedup\<close> is the sharded open-addressed fingerprint table and the window over
  it (\<open>dedup.go\<close>), \<open>DedupProofs\<close> and \<open>DedupSet\<close> that it is a set, \<open>ArchiveGuard\<close> the guard's runs,
  \<open>ArchiveClaims\<close> what a copy meets.  \<open>HopFeed\<close> is the live path of \<open>archive.go\<close> and the correlation of
  \<open>hops.go\<close>, with \<open>HopProps\<close> and \<open>HopClaims\<close>.

  THE ARCHIVE'S LEDGER.  \<open>LedgerName\<close> holds the calendar and the names of segments, \<open>LedgerDir\<close> the segments
  directory with its reading, reconciliation, compression and receipts (\<open>segments.go\<close>, \<open>coldcopy.go\<close>),
  \<open>Ledger\<close> the live file with opening, append, rotation and the maintenance pass, \<open>LedgerScan\<close> the replay
  (\<open>store.go\<close>).  \<open>LedgerDirProps\<close> says which run of segments a directory stands for, \<open>LedgerScanProps\<close>
  and \<open>LedgerResume\<close> what a replay of it delivers, from the start and from a position; \<open>LedgerUpkeep\<close>
  that upkeep changes no bytes, \<open>LedgerOpen\<close> that opening changes only a torn line, \<open>LedgerDays\<close> what
  day a live file is dated from, \<open>LedgerRun\<close> that no run loses an acknowledged record, and \<open>LedgerClaims\<close>
  the witnesses and what the ledger does otherwise than its comments say.

  CHOICES.  Every definition is executable.  A walk recurses on the list of axis positions it visits; the
  loops over bytes (the scan of a log, the runes of a string), over rename attempts, over sequence numbers
  and over chunks of a file have a measure that falls; the probes of the fingerprint table, which a full
  table would not end, are a \<open>partial_function (option)\<close> whose result is proved to be \<open>Some\<close> under the
  table's load bound; the doubling of its capacity has a measure.  No definition takes fuel.  A failure the code cannot decide is an argument: the write and sync of a record
  (\<open>write_fate\<close>), the renames of a compaction, and in the scheduler three lists of outcomes, of the
  disk (\<open>sd_disk\<close>), the send pacer (\<open>sd_admit\<close>) and the socket queue (\<open>sd_socket\<close>), an exhausted list
  answering yes, so that every interleaving of failures is a choice of lists.  The relay takes the
  answer of a destination's queue the same way.  One handler reads one clock, its argument (a second one, \<open>later\<close>,
  where an offer reads it again), so a run
  is a list of timed steps; handlers hold \<open>s.mu\<close>, so their steps do not interleave, and where
  \<open>onMigrateOut\<close> and \<open>onMigrationPayload\<close> let go of it (around the durable write) the runs also take their
  stages one by one, next to the handler as a whole.  \<open>route_migration\<close> is one step, although \<open>nackNoDelivery\<close>
  reads the forward record after the enqueue transaction, and so is \<open>adminConfirm\<close>, which lets go of the lock between
  the check of the ring and the act.  \<open>mapVersionLocked\<close> takes the live peers in the order of the list where Go
  ranges over a map.  A restart of the sidecar is a step of the runs between two others: a process killed inside a
  handler has sent and written what it would have with every later send and write refused.
  \<open>float64\<close> fields are rationals with the special values named; the drain pace, \<open>float64\<close>
  arithmetic in the code, is rational arithmetic.  Go's \<open>int\<close> is \<open>int\<close> (no operation modelled comes
  near its width); the byte operations of identifiers are 8-bit words.  Log lines, test hooks, fault
  points and metrics of the log are dropped.

  \<open>float64\<close> results that the admission gate compares are rounded to 53 bits (\<open>f64_round\<close>).  Of the disk of
  the ledger each step has its own answer in an \<open>io\<close> record, and a kill is an answer after which the handle
  is closed.

  PARAMETERS.  \<open>encoding/json\<close> (what a record marshals to and a line unmarshals to), with
  \<open>rec_fine\<close> as what is relied on of it, and \<open>internal/bb8\<close> (validation, hash and genome hash of a
  payload), which is the record \<open>bb8\<close>.  \<open>hash/maphash\<close> is a function from a seed and a key, the order in which
  Go ranges over a map is an argument, and \<open>encoding/json\<close>, \<open>compress/gzip\<close> and \<open>crypto/sha256\<close> of the ledger
  are the record \<open>ledger_codec\<close>; where a claim needs that equal checksums mean equal bytes (no collision of \<open>crypto/sha256\<close>, an idealisation) it
  says so.  The salted digest of a credential and the hash of the ring are functions too, of which nothing is
  assumed; durations are parsed and printed by parameters.

  NOT MODELLED.  The sessions (dialling, the WebSocket upgrade, handshakes, heartbeats), whose effect
  on the scheduler's state is a free step of its runs; the transport's queues beyond the answer they
  give; the genome sweep and the compaction after a tick, outside its lock (\<open>Compact\<close> itself is modelled); of the archive the aggregates,
  the roll-up and its cursor, the genome store, the species tree and the pages; the launcher
  and its window, the \<open>bb8\<close> schema and its caches, the coding of HTTP and JSON, the prose of reports, diagnosis and
  start-up, which decide nothing about custody, are presentation, or are calls of the operating
  system.
\<close>

section \<open>Two worlds and a disk\<close>

text \<open>C30: A WORLD MAY KEEP WHAT IT REFUSED.  The receiving world's journal write reaches the file but its
  sync fails.  The receiver, told that nothing was journaled, answers the source with a transient
  refusal; the source counts that as proof that custody did not move and takes the organism back, to
  offer it to another world or keep it.  But the record is in the receiver's file: its next start
  replays it as an open arrival, so one organism is alive in two worlds.\<close>

theorem refused_arrival_lives_twice:
  assumes "durable mar unm j" and "jn_mem j = sd_mem r"
    and "rec_fine mar unm (create_record D_in (inbound_entry bb now p) False)"
    and "mp_MigrationID p \<noteq> []" "mp_SourcePeer p \<noteq> []" "get r (mp_MigrationID p) = None"
    and "acceptable bb adm p r" and "sd_disk r = [False]"
    and "sd_relayReady r" "sd_admit r = []" "sd_socket r = []"
    and "keyed s" "get s (mp_MigrationID p) = Some st" "st_Direction st = D_out" "st_Status st = S_in_flight"
    and "peerNackMatchesCurrentDestinationLocked st (cf_PeerID (sd_cfg r)) s" and "sd_disk s = []"
    and "r' = onMigrationPayload bb now adm (Some (mp_MigrationID p, mp_SourcePeer p)) (Some p) r"
  shows "\<exists>n. sd_relayOut r' = sd_relayOut r @ [RF_nack n] \<and> get r' (mp_MigrationID p) = None \<and>
    (\<exists>st'. get (onMigrationNack now' n s) (mp_MigrationID p) = Some st' \<and> (offerable st' \<or> came_home st')) \<and>
    replayed unm (jn_file (snd (jCreate mar Write_nosync D_in (inbound_entry bb now p) False j))) =
      Some (view (sd_mem r) @ [created_state (create_record D_in (inbound_entry bb now p) False)
                                 (inbound_entry bb now p) 0])"
proof -
  let ?e = "inbound_entry bb now p"
  let ?n = "\<lparr>nk_MigrationID = mp_MigrationID p, nk_SourcePeer = cf_PeerID (sd_cfg r),
    nk_DestPeer = mp_SourcePeer p, nk_Code = ''OVERLOADED'', nk_Class = ClassOf ''OVERLOADED'',
    nk_RetryAfterMs = 0, nk_NeverForwarded = None, nk_RelaySessionID = [], nk_RefusedAttempt = None\<rparr>"
  have id: "en_MigrationID ?e = mp_MigrationID p" by (simp add: inbound_entry_def)
  have c: "jr_create D_in ?e r = (None, r\<lparr>sd_disk := []\<rparr>)"
    using assms(6,8) by (simp add: jr_create_def id pop_def)
  have r': "r' = nackUpstreamAfter (mp_MigrationID p) (mp_SourcePeer p) ''OVERLOADED'' 0 (r\<lparr>sd_disk := []\<rparr>)"
    using take_unwritten [OF c assms(7)] assms(6,18) by (simp add: onMigrationPayload_def)
  have sent: "sd_relayOut r' = sd_relayOut r @ [RF_nack ?n]"
    using assms(5,9-11) by (simp add: r' nackUpstreamAfter_def sendRelayLocked_def
        prepareRelayFrameLocked_def sendPreparedRelayFrameLocked_def pace_admits_def pop_def)
  have "get r' (mp_MigrationID p) = None" using assms(6) by (simp add: r')
  moreover have "refusal_counts ?n s"
    using assms(13-16) by (auto simp: refusal_counts_def counts_for_def Let_def PeerLocalRefusal_def
        peerNackMatchesCurrentDestinationLocked_def)
  from counted_nack_back [OF assms(12) this assms(17), of now']
  have "\<exists>st'. get (onMigrationNack now' ?n s) (mp_MigrationID p) = Some st' \<and> (offerable st' \<or> came_home st')"
    by simp
  moreover have "lookup (jn_mem j) (en_MigrationID ?e) = None" using assms(2,6) by (simp add: id get_def)
  from nosync_create_replays [OF assms(1,3) this prod.collapse [symmetric]] assms(2)
  have "replayed unm (jn_file (snd (jCreate mar Write_nosync D_in ?e False j))) =
      Some (view (sd_mem r) @ [created_state (create_record D_in ?e False) ?e 0])" by simp
  ultimately show ?thesis using sent by blast
qed

text \<open>World b, whose disk fails, receives world a's export.\<close>

lemma refused_arrival_lives_twice_witness:
  "let r = (ferry [])\<lparr>sd_cfg := ferry_cfg\<lparr>cf_PeerID := ''b''\<rparr>, sd_disk := [False]\<rparr>;
       c = create_record D_in (inbound_entry any_bb8 9 crossing) False
   in \<exists>n. sd_relayOut (onMigrationPayload any_bb8 9 True
          (Some (mp_MigrationID crossing, mp_SourcePeer crossing)) (Some crossing) r) = [RF_nack n] \<and>
     replayed (two_unm c c) (jn_file (snd (jCreate (two_mar c c) Write_nosync D_in
       (inbound_entry any_bb8 9 crossing) False fresh_journal))) =
         Some [created_state c (inbound_entry any_bb8 9 crossing) 0]"
proof -
  define c where "c = create_record D_in (inbound_entry any_bb8 9 crossing) False"
  let ?r = "(ferry [])\<lparr>sd_cfg := ferry_cfg\<lparr>cf_PeerID := ''b''\<rparr>, sd_disk := [False]\<rparr>"
  let ?e = "(st_Entry underway)\<lparr>en_MigrationID := mp_MigrationID crossing\<rparr>"
  let ?st = "underway\<lparr>st_Entry := ?e\<rparr>"
  have d: "durable (two_mar c c) (two_unm c c) fresh_journal" using fresh_jinv by (auto simp: durable_def)
  have f: "rec_fine (two_mar c c) (two_unm c c) (create_record D_in (inbound_entry any_bb8 9 crossing) False)"
    by (simp add: two_codec_fine c_def)
  have m: "jn_mem fresh_journal = sd_mem ?r" "view (sd_mem ?r) = []" by code_simp+
  have p: "mp_MigrationID crossing \<noteq> []" "mp_SourcePeer crossing \<noteq> []" by code_simp+
  have g: "get ?r (mp_MigrationID crossing) = None" by code_simp
  have a: "acceptable any_bb8 True crossing ?r" by code_simp
  have q: "sd_disk ?r = [False]" "sd_relayReady ?r" "sd_admit ?r = []" "sd_socket ?r = []" "sd_relayOut ?r = []"
    by (simp_all add: ferry_def)
  have st: "get (ferry [?st]) (mp_MigrationID crossing) = Some ?st" by (simp add: ferry_get)
  have pm: "peerNackMatchesCurrentDestinationLocked ?st (cf_PeerID (sd_cfg ?r)) (ferry [?st])" by code_simp
  have ok: "st_Direction ?st = D_out" "st_Status ?st = S_in_flight" "sd_disk (ferry [?st]) = []"
    by (simp_all add: ferry_def)
  from refused_arrival_lives_twice [OF d m(1) f p g a q(1-4) ferry_keyed st ok(1,2) pm ok(3) refl] q(5) m(2)
  show ?thesis unfolding Let_def c_def [symmetric] by auto
qed

end
